(* ===== verification/Prelude.thy ===== *)
theory Prelude
  imports
    Complex_Main
    "HOL-Library.Word"
    "HOL-Library.Char_ord"
    "HOL-Library.List_Lexorder"
    "HOL-Library.Product_Lexorder"
    "HOL-Library.Multiset"
    "HOL-Library.AList"
begin

text \<open>
  Shared vocabulary of the development.

  \<^item> The exception classes of the program (\<open>errors.py\<close>, \<open>rpc/errors.py\<close>,
    \<open>execution/errors.py\<close> and the classes declared beside the code that raises them),
    with their inheritance as \<open>exn_parent\<close> and \<open>isinstance\<close>.
  \<^item> JSON values as \<open>json.loads\<close> returns them.
  \<^item> The two effect types: \<open>'a res\<close> (a value or the exception that was raised) and
    \<open>('s, 'a) io\<close> (a state transformer that may raise; the state changes made before a
    raise are kept, as they are in Python).
  \<^item> The lemma collections the components extend: \<open>res_simps\<close> and \<open>io_simps\<close> reduce
    ``this computation returned'' to ``each step returned''.
\<close>

named_theorems res_simps \<open>inversion of successful pure computations\<close>
named_theorems io_simps \<open>inversion of successful stateful computations\<close>
named_theorems bytes_simps \<open>byte, word and hexadecimal conversions\<close>

subsection \<open>Exceptions\<close>

datatype (plugins only: code size) exn_class =
    PyException | RuntimeError | ValueError | TypeError | OverflowError | KeyError | AssertionError
  | IndexerError | ConfigError | RpcError | RpcAttemptsExhausted | ArchiveStateUnavailable
  | AnchorError | AnchorNotFinalized | AnchorConflict | AnchorValidationError
  | BatchError | BatchVerificationError | DiscoveryError | ObservationError | IntegrityError
  | PublicationBlocked
  | RpcTransportError | RpcProtocolError | RpcHttpError | RpcResponseError | RpcRateLimited
  | RpcProviderLimit | RpcNoHealthyEndpoint
  | HistoricalExecutionError | UnsupportedExecutionRange | BatchResultCountMismatch
  | SentinelMismatch | AnchorHashMismatch | LegacyBatchResponseError | MissingBatchResponses
  | DuplicateBatchResponseId | UnknownBatchResponseId | MalformedBatchResponse
  | ProviderQuorumMismatch
  | HistoricalCodeError | ContractNotDeployed | RuntimeCodeHashMismatch
  | DiscoveryRangeFailed | DiscoveryResponseError | FinalityTagUnavailable
  | CollectionProtocolError | BalancerDecodeError | ClDecodeError | StoreFailure
  | HttpxTimeoutException | HttpxNetworkError
  | ServiceError | JobRunError | MigrationError | MigrationChecksumError | AbiDefinitionError

primrec exn_parent :: "exn_class \<Rightarrow> exn_class" where
  "exn_parent PyException = PyException"
| "exn_parent RuntimeError = PyException"
| "exn_parent ValueError = PyException"
| "exn_parent TypeError = PyException"
| "exn_parent OverflowError = PyException"
| "exn_parent KeyError = PyException"
| "exn_parent AssertionError = PyException"
| "exn_parent IndexerError = RuntimeError"
| "exn_parent ConfigError = IndexerError"
| "exn_parent RpcError = IndexerError"
| "exn_parent RpcAttemptsExhausted = RpcError"
| "exn_parent ArchiveStateUnavailable = RpcError"
| "exn_parent AnchorError = IndexerError"
| "exn_parent AnchorNotFinalized = AnchorError"
| "exn_parent AnchorConflict = AnchorError"
| "exn_parent AnchorValidationError = AnchorError"
| "exn_parent BatchError = IndexerError"
| "exn_parent BatchVerificationError = BatchError"
| "exn_parent DiscoveryError = IndexerError"
| "exn_parent ObservationError = IndexerError"
| "exn_parent IntegrityError = IndexerError"
| "exn_parent PublicationBlocked = IndexerError"
| "exn_parent RpcTransportError = RpcError"
| "exn_parent RpcProtocolError = RpcError"
| "exn_parent RpcHttpError = RpcTransportError"
| "exn_parent RpcResponseError = RpcError"
| "exn_parent RpcRateLimited = RpcHttpError"
| "exn_parent RpcProviderLimit = RpcError"
| "exn_parent RpcNoHealthyEndpoint = RpcAttemptsExhausted"
| "exn_parent HistoricalExecutionError = BatchError"
| "exn_parent UnsupportedExecutionRange = HistoricalExecutionError"
| "exn_parent BatchResultCountMismatch = BatchVerificationError"
| "exn_parent SentinelMismatch = BatchVerificationError"
| "exn_parent AnchorHashMismatch = BatchVerificationError"
| "exn_parent LegacyBatchResponseError = BatchVerificationError"
| "exn_parent MissingBatchResponses = LegacyBatchResponseError"
| "exn_parent DuplicateBatchResponseId = LegacyBatchResponseError"
| "exn_parent UnknownBatchResponseId = LegacyBatchResponseError"
| "exn_parent MalformedBatchResponse = LegacyBatchResponseError"
| "exn_parent ProviderQuorumMismatch = BatchVerificationError"
| "exn_parent HistoricalCodeError = RuntimeError"
| "exn_parent ContractNotDeployed = HistoricalCodeError"
| "exn_parent RuntimeCodeHashMismatch = HistoricalCodeError"
| "exn_parent DiscoveryRangeFailed = DiscoveryError"
| "exn_parent DiscoveryResponseError = DiscoveryError"
| "exn_parent FinalityTagUnavailable = RuntimeError"
| "exn_parent CollectionProtocolError = RuntimeError"
| "exn_parent BalancerDecodeError = ValueError"
| "exn_parent ClDecodeError = ValueError"
| "exn_parent StoreFailure = PyException"
| "exn_parent HttpxTimeoutException = PyException"
| "exn_parent HttpxNetworkError = PyException"
| "exn_parent ServiceError = RuntimeError"
| "exn_parent JobRunError = ServiceError"
| "exn_parent MigrationError = RuntimeError"
| "exn_parent MigrationChecksumError = MigrationError"
| "exn_parent AbiDefinitionError = ValueError"

text \<open>The deepest class (\<open>MissingBatchResponses\<close>) has six ancestors.\<close>

definition is_subclass :: "exn_class \<Rightarrow> exn_class \<Rightarrow> bool" where
  "is_subclass c d \<longleftrightarrow>
     d = c \<or> d = exn_parent c \<or> d = exn_parent (exn_parent c)
     \<or> d = exn_parent (exn_parent (exn_parent c))
     \<or> d = exn_parent (exn_parent (exn_parent (exn_parent c)))
     \<or> d = exn_parent (exn_parent (exn_parent (exn_parent (exn_parent c))))
     \<or> d = exn_parent (exn_parent (exn_parent (exn_parent (exn_parent (exn_parent c)))))"

subsection \<open>JSON values\<close>

text \<open>
  A decoded JSON document. \<open>JFloat\<close> keeps the number's literal: the program never computes
  with a JSON float, it only distinguishes it from an \<open>int\<close>.
\<close>

datatype json =
    JNull
  | JBool bool
  | JInt int
  | JFloat string
  | JStr string
  | JArr "json list"
  | JObj "(string \<times> json) list"

text \<open>\<open>mapping.get(key)\<close>: absent and null are both \<open>None\<close>; \<open>key in mapping\<close> is \<open>obj_has\<close>.\<close>

definition obj_get :: "(string \<times> json) list \<Rightarrow> string \<Rightarrow> json" where
  "obj_get kvs k = (case map_of kvs k of None \<Rightarrow> JNull | Some v \<Rightarrow> v)"

definition obj_has :: "(string \<times> json) list \<Rightarrow> string \<Rightarrow> bool" where
  "obj_has kvs k \<longleftrightarrow> k \<in> set (map fst kvs)"

text \<open>
  An exception value: its class and message. The two classes whose fields the program reads
  (\<open>RpcHttpError\<close>: status, reason, retry-after; \<open>RpcResponseError\<close>: code, message, data) and
  \<open>PublicationBlocked\<close> (the list of failed checks) carry them.
\<close>

datatype exn =
    Exn exn_class string
  | HttpExn int string "rat option"
  | ResponseExn int string json
  | BlockedExn "string list"
  | JobRunExn "string list"

fun exn_class_of :: "exn \<Rightarrow> exn_class" where
  "exn_class_of (Exn c _) = c"
| "exn_class_of (HttpExn _ _ _) = RpcHttpError"
| "exn_class_of (ResponseExn _ _ _) = RpcResponseError"
| "exn_class_of (BlockedExn _) = PublicationBlocked"
| "exn_class_of (JobRunExn _) = JobRunError"

definition isinstance :: "exn \<Rightarrow> exn_class \<Rightarrow> bool" where
  "isinstance e c \<longleftrightarrow> is_subclass (exn_class_of e) c"

subsection \<open>Computations that may raise\<close>

type_synonym 'a res = "exn + 'a"

definition raise_res :: "exn_class \<Rightarrow> string \<Rightarrow> 'a res" where
  "raise_res c m = Inl (Exn c m)"

definition bind_res :: "'a res \<Rightarrow> ('a \<Rightarrow> 'b res) \<Rightarrow> 'b res" where
  "bind_res r f = (case r of Inl e \<Rightarrow> Inl e | Inr x \<Rightarrow> f x)"

definition assert_res :: "bool \<Rightarrow> exn_class \<Rightarrow> string \<Rightarrow> unit res" where
  "assert_res b c m = (if b then Inr () else raise_res c m)"

fun map_res :: "('a \<Rightarrow> 'b res) \<Rightarrow> 'a list \<Rightarrow> 'b list res" where
  "map_res f [] = Inr []"
| "map_res f (x # xs) = bind_res (f x) (\<lambda>y. bind_res (map_res f xs) (\<lambda>ys. Inr (y # ys)))"

definition returned :: "'a res \<Rightarrow> bool" where
  "returned r \<longleftrightarrow> (\<exists>x. r = Inr x)"

subsection \<open>Stateful computations\<close>

type_synonym ('s, 'a) io = "'s \<Rightarrow> 'a res \<times> 's"

definition ret :: "'a \<Rightarrow> ('s, 'a) io" where
  "ret x = (\<lambda>s. (Inr x, s))"

definition raise :: "exn \<Rightarrow> ('s, 'a) io" where
  "raise e = (\<lambda>s. (Inl e, s))"

definition lift_res :: "'a res \<Rightarrow> ('s, 'a) io" where
  "lift_res r = (\<lambda>s. (r, s))"

definition bind_io :: "('s, 'a) io \<Rightarrow> ('a \<Rightarrow> ('s, 'b) io) \<Rightarrow> ('s, 'b) io" where
  "bind_io m f = (\<lambda>s. case m s of (Inl e, s') \<Rightarrow> (Inl e, s') | (Inr x, s') \<Rightarrow> f x s')"

text \<open>\<open>try: m except BaseException as e: h(e)\<close>\<close>

definition catch_io :: "('s, 'a) io \<Rightarrow> (exn \<Rightarrow> ('s, 'a) io) \<Rightarrow> ('s, 'a) io" where
  "catch_io m h = (\<lambda>s. case m s of (Inl e, s') \<Rightarrow> h e s' | (Inr x, s') \<Rightarrow> (Inr x, s'))"

fun map_io :: "('a \<Rightarrow> ('s, 'b) io) \<Rightarrow> 'a list \<Rightarrow> ('s, 'b list) io" where
  "map_io f [] = ret []"
| "map_io f (x # xs) = bind_io (f x) (\<lambda>y. bind_io (map_io f xs) (\<lambda>ys. ret (y # ys)))"

subsection \<open>Inversion lemmas\<close>

lemma isinstance_simps [simp]:
  "isinstance (Exn c m) d = is_subclass c d"
  "isinstance (HttpExn st r a) d = is_subclass RpcHttpError d"
  "isinstance (ResponseExn k msg dt) d = is_subclass RpcResponseError d"
  "isinstance (BlockedExn cs) d = is_subclass PublicationBlocked d"
  "isinstance (JobRunExn fs) d = is_subclass JobRunError d"
  by (simp_all add: isinstance_def)

lemma raise_res_simps [simp]: "raise_res c m \<noteq> Inr x" "Inr x \<noteq> raise_res c m"
  by (simp_all add: raise_res_def)

lemma bind_res_simps [simp]:
  "bind_res (Inl e) f = Inl e" "bind_res (Inr x) f = f x"
  "bind_res (raise_res c m) f = raise_res c m"
  by (simp_all add: bind_res_def raise_res_def)

lemma bind_res_Inr [res_simps]: "bind_res r f = Inr y \<longleftrightarrow> (\<exists>x. r = Inr x \<and> f x = Inr y)"
  by (cases r) auto

lemma assert_res_Inr [res_simps]: "assert_res b c m = Inr u \<longleftrightarrow> b"
  by (simp add: assert_res_def)

lemma assert_res_simps [simp]:
  "assert_res True c m = Inr ()" "assert_res False c m = raise_res c m"
  by (simp_all add: assert_res_def)

lemma returned_simps [simp]: "returned (Inr x)" "\<not> returned (Inl e)" "\<not> returned (raise_res c m)"
  by (auto simp: returned_def raise_res_def)

lemma map_res_Inr [res_simps]:
  "map_res f xs = Inr ys \<longleftrightarrow> list_all2 (\<lambda>x y. f x = Inr y) xs ys"
  by (induction xs arbitrary: ys) (auto simp: res_simps list_all2_Cons1)

lemma map_res_returns: "(\<And>x. x \<in> set xs \<Longrightarrow> f x = Inr (g x)) \<Longrightarrow> map_res f xs = Inr (map g xs)"
  by (induction xs) auto

lemma io_prim [simp]:
  "ret x s = (Inr x, s)" "raise e s = (Inl e, s)" "lift_res r s = (r, s)"
  by (simp_all add: ret_def raise_def lift_res_def)

lemma bind_io_Inr [io_simps]:
  "bind_io m f s = (Inr y, s') \<longleftrightarrow> (\<exists>x s1. m s = (Inr x, s1) \<and> f x s1 = (Inr y, s'))"
  by (auto simp: bind_io_def split: prod.splits sum.splits)

lemma bind_io_apply:
  "m s = (Inr x, s1) \<Longrightarrow> bind_io m f s = f x s1"
  "m s = (Inl e, s1) \<Longrightarrow> bind_io m f s = (Inl e, s1)"
  by (simp_all add: bind_io_def)

lemma bind_io_prim [simp]:
  "bind_io (ret x) f = f x" "bind_io (raise e) f = raise e"
  "bind_io (lift_res (Inr x)) f = f x"
  by (auto simp: bind_io_def)

lemma lift_res_Inr [io_simps]: "lift_res r s = (Inr x, s') \<longleftrightarrow> r = Inr x \<and> s' = s"
  by auto

lemma catch_io_Inr [io_simps]:
  "catch_io m h s = (Inr y, s') \<longleftrightarrow>
     m s = (Inr y, s') \<or> (\<exists>e s1. m s = (Inl e, s1) \<and> h e s1 = (Inr y, s'))"
  by (auto simp: catch_io_def split: prod.splits sum.splits)

lemma map_io_length: "map_io f xs s = (Inr ys, s') \<Longrightarrow> length ys = length xs"
  by (induction xs arbitrary: s ys) (auto simp: io_simps)

lemma map_io_all:
  assumes "map_io f xs s = (Inr ys, s')"
    and "\<And>x s y s'. x \<in> set xs \<Longrightarrow> f x s = (Inr y, s') \<Longrightarrow> P x y"
  shows "list_all2 P xs ys"
  using assms by (induction xs arbitrary: s ys) (fastforce simp: io_simps)+

subsection \<open>Lists\<close>

lemma list_all2_each: "list_all2 P xs ys \<Longrightarrow> x \<in> set xs \<Longrightarrow> \<exists>y \<in> set ys. P x y"
  by (induction rule: list_all2_induct) auto

lemma distinct_map_inj: "distinct xs \<Longrightarrow> (\<And>x y. f x = f y \<Longrightarrow> x = y) \<Longrightarrow> distinct (map f xs)"
  by (induction xs) auto

lemma list_all2_map_eq: "list_all2 (\<lambda>x y. g y = f x) xs ys \<Longrightarrow> map g ys = map f xs"
  by (induction rule: list_all2_induct) auto

lemma take_append_len [simp]: "length xs = n \<Longrightarrow> take n (xs @ ys) = xs"
  "length xs = n \<Longrightarrow> drop n (xs @ ys) = ys"
  by auto

end
