(* ===== verification/Python.thy ===== *)
theory Python
  imports Prelude
begin

text \<open>
  The parts of the Python language and standard library that the program's logic uses:
  hexadecimal text and bytes (\<open>bytes.fromhex\<close>, \<open>bytes.hex\<close>, \<open>hex\<close>, \<open>int(s, 16)\<close>),
  big-endian integers (\<open>int.from_bytes\<close>, \<open>int.to_bytes\<close>), decimal text (\<open>str(int)\<close>),
  \<open>str.lower\<close>, substring tests, and \<open>str\<close>/\<open>repr\<close> of decoded JSON.
  Strings are ASCII text (\<open>string\<close>); bytes are \<open>8 word list\<close>; Python's unbounded
  integers are \<open>int\<close>.
\<close>

type_synonym byte = "8 word"
type_synonym bytes = "8 word list"

subsection \<open>Characters\<close>

definition char_nat :: "char \<Rightarrow> nat" where
  "char_nat c = of_char c"

definition lower_char :: "char \<Rightarrow> char" where
  "lower_char c = (if 65 \<le> char_nat c \<and> char_nat c \<le> 90 then char_of (char_nat c + 32) else c)"

definition str_lower :: "string \<Rightarrow> string" where
  "str_lower s = map lower_char s"

definition hexval :: "char \<Rightarrow> nat option" where
  "hexval c =
     (let n = char_nat c in
      if 48 \<le> n \<and> n \<le> 57 then Some (n - 48)
      else if 97 \<le> n \<and> n \<le> 102 then Some (n - 87)
      else if 65 \<le> n \<and> n \<le> 70 then Some (n - 55)
      else None)"

definition hexchar :: "nat \<Rightarrow> char" where
  "hexchar n = char_of (if n < 10 then n + 48 else n + 87)"

definition is_hex :: "char \<Rightarrow> bool" where
  "is_hex c \<longleftrightarrow> hexval c \<noteq> None"

text \<open>A lowercase hexadecimal digit, the class \<open>[0-9a-f]\<close>.\<close>

definition is_lower_hex :: "char \<Rightarrow> bool" where
  "is_lower_hex c \<longleftrightarrow> is_hex c \<and> \<not> (65 \<le> char_nat c \<and> char_nat c \<le> 70)"

text \<open>The white space that \<open>bytes.fromhex\<close> skips between bytes.\<close>

definition is_space :: "char \<Rightarrow> bool" where
  "is_space c \<longleftrightarrow> char_nat c = 32 \<or> (9 \<le> char_nat c \<and> char_nat c \<le> 13)"

subsection \<open>Hexadecimal text\<close>

fun fromhex :: "string \<Rightarrow> bytes option" where
  "fromhex [] = Some []"
| "fromhex [c] = (if is_space c then Some [] else None)"
| "fromhex (c # d # cs) =
     (if is_space c then fromhex (d # cs)
      else case (hexval c, hexval d) of
             (Some a, Some b) \<Rightarrow> map_option (\<lambda>bs. of_nat (16 * a + b) # bs) (fromhex cs)
           | _ \<Rightarrow> None)"

definition byte_hex :: "byte \<Rightarrow> string" where
  "byte_hex b = [hexchar (unat b div 16), hexchar (unat b mod 16)]"

definition bytes_hex :: "bytes \<Rightarrow> string" where
  "bytes_hex bs = concat (map byte_hex bs)"

text \<open>\<open>int(s, 16)\<close> on a string of hexadecimal digits, and \<open>hex(n)\<close> for a natural number.\<close>

definition hex_int :: "string \<Rightarrow> int" where
  "hex_int s = foldl (\<lambda>a c. 16 * a + (case hexval c of Some v \<Rightarrow> int v | None \<Rightarrow> 0)) 0 s"

fun hex_digits :: "nat \<Rightarrow> string" where
  "hex_digits n = (if n < 16 then [hexchar n] else hex_digits (n div 16) @ [hexchar (n mod 16)])"

declare hex_digits.simps [simp del]

definition py_hex :: "int \<Rightarrow> string" where
  "py_hex n = (if n < 0 then ''-0x'' @ hex_digits (nat (- n)) else ''0x'' @ hex_digits (nat n))"

subsection \<open>Big-endian integers\<close>

definition from_bytes :: "bytes \<Rightarrow> int" where
  "from_bytes bs = foldl (\<lambda>a b. 256 * a + uint b) 0 bs"

fun to_bytes :: "nat \<Rightarrow> int \<Rightarrow> bytes" where
  "to_bytes 0 v = []"
| "to_bytes (Suc n) v = to_bytes n (v div 256) @ [of_int v]"

subsection \<open>Decimal text, substrings, repr\<close>

fun dec_digits :: "nat \<Rightarrow> string" where
  "dec_digits n =
     (if n < 10 then [char_of (n + 48)] else dec_digits (n div 10) @ [char_of (n mod 10 + 48)])"

declare dec_digits.simps [simp del]

definition py_int :: "int \<Rightarrow> string" where
  "py_int n = (if n < 0 then ''-'' @ dec_digits (nat (- n)) else dec_digits (nat n))"

fun is_prefix :: "string \<Rightarrow> string \<Rightarrow> bool" where
  "is_prefix [] s = True"
| "is_prefix (c # cs) [] = False"
| "is_prefix (c # cs) (d # ds) = (c = d \<and> is_prefix cs ds)"

text \<open>\<open>needle in haystack\<close>\<close>

fun contains :: "string \<Rightarrow> string \<Rightarrow> bool" where
  "contains [] needle = (needle = [])"
| "contains (c # cs) needle = (is_prefix needle (c # cs) \<or> contains cs needle)"

fun join :: "string \<Rightarrow> string list \<Rightarrow> string" where
  "join sep [] = []"
| "join sep [x] = x"
| "join sep (x # y # ys) = x @ sep @ join sep (y # ys)"

definition quote_char :: char where
  "quote_char = char_of (39 :: nat)"

definition dquote_char :: char where
  "dquote_char = char_of (34 :: nat)"

definition backslash :: char where
  "backslash = char_of (92 :: nat)"

definition repr_char :: "char \<Rightarrow> char \<Rightarrow> string" where
  "repr_char q c =
     (let n = char_nat c in
      if c = q \<or> c = backslash then [backslash, c]
      else if n = 10 then [backslash, CHR ''n'']
      else if n = 13 then [backslash, CHR ''r'']
      else if n = 9 then [backslash, CHR ''t'']
      else if n < 32 \<or> n \<ge> 127 then [backslash, CHR ''x''] @ byte_hex (of_nat n)
      else [c])"

definition repr_str :: "string \<Rightarrow> string" where
  "repr_str s =
     (let q = (if quote_char \<in> set s \<and> dquote_char \<notin> set s then dquote_char else quote_char)
      in [q] @ concat (map (repr_char q) s) @ [q])"

fun py_repr :: "json \<Rightarrow> string" where
  "py_repr JNull = ''None''"
| "py_repr (JBool b) = (if b then ''True'' else ''False'')"
| "py_repr (JInt n) = py_int n"
| "py_repr (JFloat t) = t"
| "py_repr (JStr s) = repr_str s"
| "py_repr (JArr xs) = ''['' @ join '', '' (map py_repr xs) @ '']''"
| "py_repr (JObj kvs) =
     ''{'' @ join '', '' (map (\<lambda>(k, v). repr_str k @ '': '' @ py_repr v) kvs) @ ''}''"

definition py_str :: "json \<Rightarrow> string" where
  "py_str j = (case j of JStr s \<Rightarrow> s | _ \<Rightarrow> py_repr j)"

text \<open>\<open>str(exc)\<close>\<close>

fun exn_str :: "exn \<Rightarrow> string" where
  "exn_str (Exn c m) = m"
| "exn_str (HttpExn status reason after) = ''JSON-RPC HTTP '' @ py_int status @ '': '' @ reason"
| "exn_str (ResponseExn code message data) = ''JSON-RPC error '' @ py_int code @ '': '' @ message"
| "exn_str (BlockedExn checks) = ''publication blocked: '' @ join '', '' checks"
| "exn_str (JobRunExn failures) = join ''; '' failures"

subsection \<open>Character lemmas\<close>

lemma char_nat_less [simp]: "char_nat c < 256"
  by (simp add: char_nat_def)

lemma char_nat_char_of [simp]: "n < 256 \<Longrightarrow> char_nat (char_of n) = n"
  by (simp add: char_nat_def)

lemma char_of_char_nat [simp]: "char_of (char_nat c) = c"
  by (simp add: char_nat_def)

lemma hexval_hexchar [simp]: "n < 16 \<Longrightarrow> hexval (hexchar n) = Some n"
  by (auto simp: hexval_def hexchar_def Let_def)

lemma hexval_less: "hexval c = Some n \<Longrightarrow> n < 16"
  by (auto simp: hexval_def Let_def split: if_splits)

lemma is_hex_hexchar [simp]: "n < 16 \<Longrightarrow> is_hex (hexchar n)"
  by (simp add: is_hex_def)

lemma char_nat_hexchar: "n < 16 \<Longrightarrow> char_nat (hexchar n) = (if n < 10 then n + 48 else n + 87)"
  by (simp add: hexchar_def)

lemma is_lower_hex_hexchar [simp]: "n < 16 \<Longrightarrow> is_lower_hex (hexchar n)"
  by (simp add: is_lower_hex_def char_nat_hexchar)

lemma hex_not_space [simp]: "is_hex c \<Longrightarrow> \<not> is_space c"
  by (auto simp: is_hex_def is_space_def hexval_def Let_def split: if_splits)

lemma is_lower_hex_is_hex [simp]: "is_lower_hex c \<Longrightarrow> is_hex c"
  by (simp add: is_lower_hex_def)

lemma lower_char_hex [simp]: "is_hex (lower_char c) = is_hex c"
  by (auto simp: lower_char_def is_hex_def hexval_def Let_def)

lemma hexval_lower [simp]: "hexval (lower_char c) = hexval c"
  by (auto simp: lower_char_def hexval_def Let_def)

lemma lower_char_lower_hex [simp]: "is_hex c \<Longrightarrow> is_lower_hex (lower_char c)"
  by (auto simp: lower_char_def is_lower_hex_def is_hex_def hexval_def Let_def split: if_splits)

lemma lower_hex_fixed [simp]: "is_lower_hex c \<Longrightarrow> lower_char c = c"
  by (auto simp: lower_char_def is_lower_hex_def is_hex_def hexval_def Let_def split: if_splits)

lemma lower_char_idem [simp]: "lower_char (lower_char c) = lower_char c"
  by (auto simp: lower_char_def)

lemma str_lower_idem [simp]: "str_lower (str_lower s) = str_lower s"
  by (simp add: str_lower_def)

lemma str_lower_append [simp]: "str_lower (s @ t) = str_lower s @ str_lower t"
  by (simp add: str_lower_def)

lemma length_str_lower [simp]: "length (str_lower s) = length s"
  by (simp add: str_lower_def)

lemma str_lower_fixed: "list_all is_lower_hex s \<Longrightarrow> str_lower s = s"
  by (induction s) (auto simp: str_lower_def)

lemma hexval_lower_hex_inj:
  "is_lower_hex c \<Longrightarrow> is_lower_hex d \<Longrightarrow> hexval c = hexval d \<Longrightarrow> c = d"
proof -
  assume a: "is_lower_hex c" "is_lower_hex d" "hexval c = hexval d"
  then have "char_nat c = char_nat d"
    by (auto simp: is_lower_hex_def is_hex_def hexval_def Let_def split: if_splits)
  then show "c = d" by (metis char_of_char_nat)
qed

subsection \<open>Hexadecimal round trips\<close>

lemma unat_byte_div [simp]: "unat (b :: byte) div 16 < 16"
proof -
  have "unat b < 256" using unsigned_less [of b] by simp
  then show ?thesis by (simp add: less_mult_imp_div_less)
qed

lemma length_bytes_hex [simp]: "length (bytes_hex bs) = 2 * length bs"
  by (induction bs) (auto simp: bytes_hex_def byte_hex_def)

lemma list_all_bytes_hex [simp]: "list_all is_lower_hex (bytes_hex bs)"
  by (induction bs) (auto simp: bytes_hex_def byte_hex_def)

lemma fromhex_byte: "fromhex (byte_hex b @ cs) = map_option (Cons b) (fromhex cs)"
proof -
  have nsp: "\<not> is_space (hexchar (unat b div 16))" by (rule hex_not_space) simp
  have "16 * (unat b div 16) + unat b mod 16 = unat b" by simp
  then have "of_nat (16 * (unat b div 16) + unat b mod 16) = b"
    by (simp only: of_nat_unat) simp
  then show ?thesis by (simp add: byte_hex_def nsp del: of_nat_add of_nat_mult)
qed

lemma fromhex_bytes_hex [bytes_simps]: "fromhex (bytes_hex bs) = Some bs"
  by (induction bs) (simp_all add: bytes_hex_def fromhex_byte)

lemma fromhex_length: "fromhex s = Some bs \<Longrightarrow> 2 * length bs \<le> length s"
  by (induction s arbitrary: bs rule: fromhex.induct)
     (auto split: if_splits option.splits)

text \<open>On a string of hexadecimal digits only, \<open>fromhex\<close> is exact.\<close>

lemma fromhex_all_hex:
  "list_all is_hex s \<Longrightarrow> even (length s) \<Longrightarrow>
     \<exists>bs. fromhex s = Some bs \<and> length s = 2 * length bs"
proof (induction s rule: fromhex.induct)
  case (3 c d cs)
  from "3.prems" obtain a b where ab: "hexval c = Some a" "hexval d = Some b"
    by (auto simp: is_hex_def)
  from "3.prems" have ns: "\<not> is_space c" by simp
  from "3.IH"(2) [OF ns refl] ab "3.prems" obtain bs
    where "fromhex cs = Some bs" "length cs = 2 * length bs" by auto
  with ab ns show ?case by simp
qed auto

lemma bytes_hex_fromhex:
  "list_all is_lower_hex s \<Longrightarrow> fromhex s = Some bs \<Longrightarrow> bytes_hex bs = s"
proof (induction s arbitrary: bs rule: fromhex.induct)
  case (2 c)
  then show ?case using hex_not_space [of c] by (auto split: if_splits)
next
  case (3 c d cs)
  from "3.prems" have lh: "is_lower_hex c" "is_lower_hex d" "list_all is_lower_hex cs" by auto
  then have ns: "\<not> is_space c" by (simp add: is_lower_hex_def)
  from "3.prems" ns obtain a b bs' where ab: "hexval c = Some a" "hexval d = Some b"
    and bs': "fromhex cs = Some bs'" and bs: "bs = of_nat (16 * a + b) # bs'"
    by (auto split: option.splits)
  from ab have lt: "a < 16" "b < 16" by (auto dest: hexval_less)
  then have u: "unat (of_nat (16 * a + b) :: byte) = 16 * a + b"
    by (simp only: unat_of_nat) simp
  have "byte_hex (of_nat (16 * a + b)) = [hexchar a, hexchar b]"
    unfolding byte_hex_def u using lt by simp
  also have "\<dots> = [c, d]"
    using lt ab lh hexval_lower_hex_inj [of "hexchar a" c] hexval_lower_hex_inj [of "hexchar b" d]
    by simp
  finally have "byte_hex (of_nat (16 * a + b)) = [c, d]" .
  moreover have "bytes_hex bs' = cs"
    using "3.IH"(2) [OF ns refl ab lh(3) bs'] .
  ultimately show ?case using bs by (simp add: bytes_hex_def del: of_nat_add of_nat_mult)
qed (simp add: bytes_hex_def)

subsection \<open>Integer round trips\<close>

lemma foldl_from_bytes:
  "foldl (\<lambda>a b. 256 * a + uint b) x bs = x * 256 ^ length bs + from_bytes (bs :: bytes)"
proof (induction bs arbitrary: x)
  case (Cons b bs)
  have "foldl (\<lambda>a b. 256 * a + uint b) x (b # bs)
      = (256 * x + uint b) * 256 ^ length bs + from_bytes bs"
    using Cons by simp
  moreover have "from_bytes (b # bs) = uint b * 256 ^ length bs + from_bytes bs"
    using Cons [of "uint b"] by (simp add: from_bytes_def)
  ultimately show ?case by (simp add: algebra_simps)
qed (simp add: from_bytes_def)

lemma from_bytes_Nil [simp]: "from_bytes [] = 0"
  by (simp add: from_bytes_def)

lemma from_bytes_Cons: "from_bytes (b # bs) = uint b * 256 ^ length bs + from_bytes bs"
  using foldl_from_bytes [of "uint b" bs] by (simp add: from_bytes_def)

lemma from_bytes_append:
  "from_bytes (as @ bs) = from_bytes as * 256 ^ length bs + from_bytes bs"
proof -
  have "from_bytes (as @ bs) = foldl (\<lambda>a b. 256 * a + uint b) (from_bytes as) bs"
    by (simp add: from_bytes_def)
  then show ?thesis by (simp only: foldl_from_bytes)
qed

lemma from_bytes_nonneg [simp]: "0 \<le> from_bytes bs"
  by (induction bs) (auto simp: from_bytes_Cons)

lemma uint_byte_less: "uint (b :: byte) < 256"
  using uint_lt2p [of b] by simp

lemma from_bytes_less: "from_bytes bs < 256 ^ length bs"
proof (induction bs)
  case (Cons b bs)
  have "uint b * 256 ^ length bs + 256 ^ length bs = (uint b + 1) * 256 ^ length bs"
    by (simp add: distrib_right)
  also have "\<dots> \<le> 256 * 256 ^ length bs"
    using uint_byte_less [of b] by (intro mult_right_mono) auto
  finally have "uint b * 256 ^ length bs + 256 ^ length bs \<le> 256 * 256 ^ length bs" .
  with Cons show ?case unfolding from_bytes_Cons length_Cons power_Suc by linarith
qed simp

lemma length_to_bytes [simp]: "length (to_bytes n v) = n"
  by (induction n arbitrary: v) auto

lemma from_to_bytes: "from_bytes (to_bytes n v) = v mod 256 ^ n"
proof (induction n arbitrary: v)
  case (Suc n)
  have "uint (of_int v :: byte) = v mod 256"
    by (simp add: uint_word_of_int_eq take_bit_eq_mod)
  then show ?case
    by (simp add: Suc from_bytes_append from_bytes_Cons zmod_zmult2_eq mult.commute)
qed simp

lemma from_to_bytes_id [bytes_simps]:
  "0 \<le> v \<Longrightarrow> v < 256 ^ n \<Longrightarrow> from_bytes (to_bytes n v) = v"
  by (simp add: from_to_bytes)

lemma to_from_bytes [bytes_simps]: "length bs = n \<Longrightarrow> to_bytes n (from_bytes bs) = bs"
proof (induction n arbitrary: bs)
  case (Suc n)
  then obtain cs b where bs: "bs = cs @ [b]" "length cs = n"
    by (metis length_Suc_conv_rev)
  have "(from_bytes cs * 256 + uint b) div 256 = from_bytes cs"
    using uint_byte_less [of b] by simp
  moreover have "(of_int (from_bytes cs * 256 + uint b) :: byte) = b"
  proof -
    have "(of_int (from_bytes cs * 256 + uint b) :: byte) = of_int (from_bytes cs) * 256 + b"
      by simp
    moreover have "(256 :: byte) = 0" by simp
    ultimately show ?thesis by (simp only: mult_zero_right add_0)
  qed
  ultimately show ?case
    using Suc.IH [of cs] bs by (simp add: from_bytes_append from_bytes_Cons)
qed simp

lemma from_bytes_inj: "length as = length bs \<Longrightarrow> from_bytes as = from_bytes bs \<Longrightarrow> as = bs"
  by (metis to_from_bytes)

lemma to_bytes_inj:
  "to_bytes n v = to_bytes n w \<Longrightarrow> 0 \<le> v \<Longrightarrow> v < 256 ^ n \<Longrightarrow> 0 \<le> w \<Longrightarrow> w < 256 ^ n \<Longrightarrow> v = w"
  by (metis from_to_bytes_id)

lemma hex_int_append_digit: "hex_int (s @ [c]) = 16 * hex_int s + (case hexval c of Some v \<Rightarrow> int v | None \<Rightarrow> 0)"
  by (simp add: hex_int_def)

lemma hex_int_hex_digits [bytes_simps]: "hex_int (hex_digits n) = int n"
proof (induction n rule: hex_digits.induct)
  case (1 n)
  show ?case
  proof (cases "n < 16")
    case True
    then show ?thesis by (simp add: hex_digits.simps [of n] hex_int_def)
  next
    case False
    have "16 * int (n div 16) + int (n mod 16) = int n" by presburger
    with False 1 show ?thesis
      by (simp add: hex_digits.simps [of n] hex_int_append_digit del: of_nat_div)
  qed
qed

end
