(* ===== verification/Domain.thy ===== *)
theory Domain
  imports Python
begin

text \<open>
  The program's data model (\<open>domain.py\<close>) and the text formats it validates with regular
  expressions (\<open>config/models.py\<close>, \<open>core/discovery.py\<close>, \<open>evm/calldata.py\<close>).
  Python enums are datatypes, frozen dataclasses are records; a validating
  \<open>__post_init__\<close> is a predicate next to its record.
\<close>

subsection \<open>Enumerations\<close>

datatype observation_status =
    OK | REVERTED | EMPTY_RETURN | MALFORMED_RETURN | NO_CODE | RPC_ERROR | ANCHOR_MISMATCH

fun status_value :: "observation_status \<Rightarrow> string" where
  "status_value OK = ''ok''"
| "status_value REVERTED = ''reverted''"
| "status_value EMPTY_RETURN = ''empty_return''"
| "status_value MALFORMED_RETURN = ''malformed_return''"
| "status_value NO_CODE = ''no_code''"
| "status_value RPC_ERROR = ''rpc_error''"
| "status_value ANCHOR_MISMATCH = ''anchor_mismatch''"

datatype integrity_mode =
    FULL_SUPPLY | SCALED_FULL_SUPPLY | SCOPED | POOL_ASSETS | CL_LIQUIDITY

fun integrity_mode_value :: "integrity_mode \<Rightarrow> string" where
  "integrity_mode_value FULL_SUPPLY = ''full_supply''"
| "integrity_mode_value SCALED_FULL_SUPPLY = ''scaled_full_supply''"
| "integrity_mode_value SCOPED = ''scoped''"
| "integrity_mode_value POOL_ASSETS = ''pool_assets''"
| "integrity_mode_value CL_LIQUIDITY = ''cl_liquidity''"

datatype executor_kind = MULTICALL3 | LEGACY_RPC_BATCH

fun executor_kind_value :: "executor_kind \<Rightarrow> string" where
  "executor_kind_value MULTICALL3 = ''multicall3''"
| "executor_kind_value LEGACY_RPC_BATCH = ''legacy_rpc_batch''"

subsection \<open>Blocks and observations\<close>

record block_ref =
  number :: int
  block_hash :: string
  parent_hash :: string
  timestamp :: int

record uint_observation =
  obs_status :: observation_status
  obs_value :: "int option"
  obs_raw :: bytes
  obs_detail :: "string option"

text \<open>\<open>UIntObservation.__post_init__\<close>: what the constructor accepts.\<close>

definition valid_observation :: "uint_observation \<Rightarrow> bool" where
  "valid_observation obs \<longleftrightarrow>
     (if obs_status obs = OK then (\<exists>v. obs_value obs = Some v \<and> 0 \<le> v)
      else obs_value obs = None)"

definition obs_ok :: "uint_observation \<Rightarrow> bool" where
  "obs_ok obs \<longleftrightarrow> obs_status obs = OK"

subsection \<open>Rows\<close>

record balance_row =
  bal_holder_address :: string
  bal_balance_raw :: int
  bal_scaled_balance_raw :: "int option"
  bal_value_kind :: string
  bal_batch_sequence :: nat

record scalar_row =
  sc_scalar_name :: string
  sc_scalar_raw :: int
  sc_batch_sequence :: nat

record pool_balance_row =
  pb_pool_address :: string
  pb_token_address :: string
  pb_balance_raw :: int
  pb_batch_sequence :: nat

record pool_cl_state_row =
  cs_pool_address :: string
  cs_pool_class :: string
  cs_sqrt_price_x96 :: int
  cs_current_tick :: int
  cs_liquidity :: int
  cs_fee_growth_global_0_x128 :: int
  cs_fee_growth_global_1_x128 :: int
  cs_tick_spacing :: int
  cs_fee :: int
  cs_tick_count :: nat
  cs_batch_sequence :: nat

record pool_tick_row =
  tk_pool_address :: string
  tk_tick :: int
  tk_liquidity_gross :: int
  tk_liquidity_net :: int
  tk_fee_growth_outside_0_x128 :: int
  tk_fee_growth_outside_1_x128 :: int
  tk_batch_sequence :: nat

text \<open>
  \<open>FrozenUniverse\<close>: \<open>sources\<close> is a mapping from each address to its provenance labels.
\<close>

record frozen_universe =
  fu_addresses :: "string list"
  fu_sources :: "(string \<times> string list) list"
  fu_universe_hash :: string

definition fu_size :: "frozen_universe \<Rightarrow> nat" where
  "fu_size u = length (fu_addresses u)"

record integrity_result =
  ir_passed :: bool
  ir_check :: string
  ir_observed :: "int option"
  ir_expected :: "int option"

definition integrity_exact :: "string \<Rightarrow> int \<Rightarrow> int \<Rightarrow> integrity_result" where
  "integrity_exact check observed expected =
     \<lparr>ir_passed = (observed = expected), ir_check = check,
      ir_observed = Some observed, ir_expected = Some expected\<rparr>"

definition integrity_complete :: "string \<Rightarrow> integrity_result" where
  "integrity_complete check =
     \<lparr>ir_passed = True, ir_check = check, ir_observed = None, ir_expected = None\<rparr>"

subsection \<open>Validated text\<close>

text \<open>\<open>^0x[0-9a-fA-F]{40}$\<close>, \<open>^0x[0-9a-f]{40}$\<close> and \<open>^0x[0-9a-fA-F]{64}$\<close>.\<close>

definition hex_word :: "nat \<Rightarrow> string \<Rightarrow> bool" where
  "hex_word n s \<longleftrightarrow> take 2 s = ''0x'' \<and> length s = n + 2 \<and> list_all is_hex (drop 2 s)"

definition ADDRESS_RE :: "string \<Rightarrow> bool" where
  "ADDRESS_RE s \<longleftrightarrow> hex_word 40 s"

definition LOWER_ADDRESS_RE :: "string \<Rightarrow> bool" where
  "LOWER_ADDRESS_RE s \<longleftrightarrow>
     take 2 s = ''0x'' \<and> length s = 42 \<and> list_all is_lower_hex (drop 2 s)"

definition HASH_RE :: "string \<Rightarrow> bool" where
  "HASH_RE s \<longleftrightarrow> hex_word 64 s"

text \<open>\<open>^0x(?:0|[1-9a-fA-F][0-9a-fA-F]*)$\<close>\<close>

definition HEX_QUANTITY_RE :: "string \<Rightarrow> bool" where
  "HEX_QUANTITY_RE s \<longleftrightarrow>
     take 2 s = ''0x'' \<and> drop 2 s \<noteq> [] \<and> list_all is_hex (drop 2 s)
     \<and> (drop 2 s = ''0'' \<or> hd (drop 2 s) \<noteq> CHR ''0'')"

text \<open>\<open>^0x(?:[0-9a-fA-F]{2})*$\<close>\<close>

definition HEX_DATA_RE :: "string \<Rightarrow> bool" where
  "HEX_DATA_RE s \<longleftrightarrow> take 2 s = ''0x'' \<and> even (length s) \<and> list_all is_hex (drop 2 s)"

definition ZERO_ADDRESS :: string where
  "ZERO_ADDRESS = ''0x'' @ replicate 40 (CHR ''0'')"

definition normalize_address :: "string \<Rightarrow> string res" where
  "normalize_address value =
     (if \<not> ADDRESS_RE value then raise_res ValueError (''invalid EVM address: '' @ repr_str value)
      else Inr (str_lower value))"

subsection \<open>Lemmas on the formats\<close>

lemma str_lower_0x [simp]: "take 2 s = ''0x'' \<Longrightarrow> take 2 (str_lower s) = ''0x''"
  by (simp add: str_lower_def take_map lower_char_def char_nat_def)

lemma drop_str_lower [simp]: "drop n (str_lower s) = str_lower (drop n s)"
  by (simp add: str_lower_def drop_map)

lemma list_all_is_hex_lower [simp]: "list_all is_hex (str_lower s) = list_all is_hex s"
  by (induction s) (auto simp: str_lower_def)

lemma list_all_lower_hex_lower [simp]:
  "list_all is_hex s \<Longrightarrow> list_all is_lower_hex (str_lower s)"
  by (induction s) (auto simp: str_lower_def)

lemma list_all_lower_hex_is_hex [simp]: "list_all is_lower_hex s \<Longrightarrow> list_all is_hex s"
  by (induction s) auto

lemma hex_word_lower [simp]: "hex_word n s \<Longrightarrow> hex_word n (str_lower s)"
  by (simp add: hex_word_def)

lemma str_lower_split: "take 2 s = ''0x'' \<Longrightarrow> list_all is_lower_hex (drop 2 s) \<Longrightarrow> str_lower s = s"
proof -
  assume a: "take 2 s = ''0x''" "list_all is_lower_hex (drop 2 s)"
  have "str_lower s = str_lower (take 2 s) @ str_lower (drop 2 s)"
    by (metis append_take_drop_id str_lower_append)
  also have "\<dots> = s"
    using a by (simp add: str_lower_fixed str_lower_def lower_char_def char_nat_def)
      (metis append_take_drop_id append_Cons append_Nil str_lower_def str_lower_fixed)
  finally show ?thesis .
qed

lemma LOWER_ADDRESS_lower [simp]: "LOWER_ADDRESS_RE s \<Longrightarrow> str_lower s = s"
  by (simp add: LOWER_ADDRESS_RE_def str_lower_split)

lemma ADDRESS_lower [simp]: "ADDRESS_RE s \<Longrightarrow> LOWER_ADDRESS_RE (str_lower s)"
  by (simp add: ADDRESS_RE_def LOWER_ADDRESS_RE_def hex_word_def)

lemma LOWER_ADDRESS_ADDRESS [simp]: "LOWER_ADDRESS_RE s \<Longrightarrow> ADDRESS_RE s"
  by (simp add: ADDRESS_RE_def LOWER_ADDRESS_RE_def hex_word_def)

lemma normalize_address_Inr [res_simps]:
  "normalize_address v = Inr a \<longleftrightarrow> ADDRESS_RE v \<and> a = str_lower v"
  by (auto simp: normalize_address_def)

lemma valid_observation_ok: "valid_observation obs \<Longrightarrow> obs_ok obs \<longleftrightarrow> obs_value obs \<noteq> None"
  by (auto simp: valid_observation_def obs_ok_def split: if_splits)

end
