(* ===== verification/Coverage.thy ===== *)
theory Coverage
  imports Domain
begin

text \<open>
  Half-open block ranges and their coverage arithmetic (\<open>core/discovery.py\<close>): \<open>BlockRange\<close>,
  \<open>merge_coverage\<close>, \<open>contiguous_frontier\<close>, \<open>coverage_gaps\<close>. A list of ranges denotes the set of
  blocks \<open>blocks\<close>; each operation is shown to compute exactly the set it is named after. The
  locale \<open>coverage_contract\<close> states what a resumable scan relies on.
\<close>

subsection \<open>Ranges\<close>

datatype block_range = BlockRange (br_start: int) (br_end: int)

text \<open>\<open>__post_init__\<close>: what the constructor accepts, and the constructor itself.\<close>

definition valid_range :: "block_range \<Rightarrow> bool" where
  "valid_range r \<longleftrightarrow> 0 \<le> br_start r \<and> br_start r < br_end r"

definition mk_block_range :: "int \<Rightarrow> int \<Rightarrow> block_range res" where
  "mk_block_range a b =
     (if a < 0 then raise_res ValueError ''block range start cannot be negative''
      else if b \<le> a then raise_res ValueError ''block range must be non-empty''
      else Inr (BlockRange a b))"

definition br_size :: "block_range \<Rightarrow> int" where
  "br_size r = br_end r - br_start r"

definition split_range :: "block_range \<Rightarrow> (block_range \<times> block_range) res" where
  "split_range r =
     (if br_size r < 2 then raise_res ValueError ''a one-block range cannot be split''
      else let middle = br_start r + br_size r div 2 in
      Inr (BlockRange (br_start r) middle, BlockRange middle (br_end r)))"

text \<open>\<open>@dataclass(order=True)\<close>: ranges compare as the tuple of their fields.\<close>

instantiation block_range :: linorder
begin

definition less_eq_block_range :: "block_range \<Rightarrow> block_range \<Rightarrow> bool" where
  "less_eq_block_range r q \<longleftrightarrow>
     br_start r < br_start q \<or> br_start r = br_start q \<and> br_end r \<le> br_end q"

definition less_block_range :: "block_range \<Rightarrow> block_range \<Rightarrow> bool" where
  "less_block_range r q \<longleftrightarrow>
     br_start r < br_start q \<or> br_start r = br_start q \<and> br_end r < br_end q"

instance
  by standard
    (auto simp: less_eq_block_range_def less_block_range_def intro: block_range.expand)

end

subsection \<open>Coverage arithmetic\<close>

text \<open>One turn of the loop of \<open>merge_coverage\<close>: extend the last merged range or append.\<close>

definition merge_into :: "block_range list \<Rightarrow> block_range \<Rightarrow> block_range list" where
  "merge_into merged current =
     (let previous = last merged in
      if br_start current \<le> br_end previous
      then butlast merged @
           [BlockRange (br_start previous) (max (br_end previous) (br_end current))]
      else merged @ [current])"

definition merge_coverage :: "block_range list \<Rightarrow> block_range list" where
  "merge_coverage ranges =
     (case sort ranges of [] \<Rightarrow> [] | r # rs \<Rightarrow> foldl merge_into [r] rs)"

fun frontier_loop :: "int \<Rightarrow> block_range list \<Rightarrow> int" where
  "frontier_loop frontier [] = frontier"
| "frontier_loop frontier (r # rs) =
     (if br_end r \<le> frontier then frontier_loop frontier rs
      else if br_start r > frontier then frontier
      else frontier_loop (br_end r) rs)"

definition contiguous_frontier :: "int \<Rightarrow> block_range list \<Rightarrow> int res" where
  "contiguous_frontier coverage_start ranges =
     (if coverage_start < 0 then raise_res ValueError ''coverage_start cannot be negative''
      else Inr (frontier_loop coverage_start (merge_coverage ranges)))"

text \<open>The loop of \<open>coverage_gaps\<close> with its cursor and the gaps found so far.\<close>

definition gaps_end :: "block_range \<Rightarrow> int \<Rightarrow> block_range list \<Rightarrow> block_range list" where
  "gaps_end required cursor gaps =
     (if cursor < br_end required then gaps @ [BlockRange cursor (br_end required)] else gaps)"

fun gaps_loop ::
  "block_range \<Rightarrow> int \<Rightarrow> block_range list \<Rightarrow> block_range list \<Rightarrow> block_range list" where
  "gaps_loop required cursor gaps [] = gaps_end required cursor gaps"
| "gaps_loop required cursor gaps (covered # rest) =
     (if br_end covered \<le> br_start required then gaps_loop required cursor gaps rest
      else if br_start covered \<ge> br_end required then gaps_end required cursor gaps
      else let clipped_start = max (br_start covered) (br_start required);
               clipped_end = min (br_end covered) (br_end required);
               gaps' = (if clipped_start > cursor
                        then gaps @ [BlockRange cursor clipped_start] else gaps);
               cursor' = max cursor clipped_end in
      if cursor' \<ge> br_end required then gaps_end required cursor' gaps'
      else gaps_loop required cursor' gaps' rest)"

definition coverage_gaps :: "block_range \<Rightarrow> block_range list \<Rightarrow> block_range list" where
  "coverage_gaps required completed =
     gaps_loop required (br_start required) [] (merge_coverage completed)"

subsection \<open>Block sets\<close>

definition blocks_of :: "block_range \<Rightarrow> int set" where
  "blocks_of r = {br_start r ..< br_end r}"

definition blocks :: "block_range list \<Rightarrow> int set" where
  "blocks rs = (\<Union>r \<in> set rs. blocks_of r)"

lemma blocks_simps [simp]:
  "blocks [] = {}" "blocks (r # rs) = blocks_of r \<union> blocks rs"
  "blocks (rs @ qs) = blocks rs \<union> blocks qs"
  by (auto simp: blocks_def)

lemma blocks_set: "set rs = set qs \<Longrightarrow> blocks rs = blocks qs"
  by (simp add: blocks_def)

lemma blocks_of_BlockRange [simp]: "blocks_of (BlockRange a b) = {a..<b}"
  by (simp add: blocks_of_def)

lemma valid_range_nonempty: "valid_range r \<Longrightarrow> blocks_of r \<noteq> {}"
  by (simp add: valid_range_def blocks_of_def)

lemma mk_block_range_Inr [res_simps]:
  "mk_block_range a b = Inr r \<longleftrightarrow> r = BlockRange a b \<and> valid_range r"
  by (auto simp: mk_block_range_def valid_range_def)

lemma split_range_spec:
  assumes "split_range r = Inr (l, q)" and "valid_range r"
  shows "valid_range l \<and> valid_range q \<and> blocks_of l \<union> blocks_of q = blocks_of r
    \<and> br_start l = br_start r \<and> br_end l = br_start q \<and> br_end q = br_end r"
  using assms by (auto simp: split_range_def br_size_def valid_range_def blocks_of_def Let_def
      split: if_splits)

lemma split_range_returns: "2 \<le> br_size r \<Longrightarrow> \<exists>l q. split_range r = Inr (l, q)"
  by (simp add: split_range_def Let_def)

text \<open>Strictly separated ranges: no two overlap or touch.\<close>

definition separated :: "block_range list \<Rightarrow> bool" where
  "separated rs \<longleftrightarrow> sorted_wrt (\<lambda>r q. br_end r < br_start q) rs"

subsection \<open>Merging\<close>

text \<open>The fold with the last merged range held apart.\<close>

fun merge_rec :: "block_range \<Rightarrow> block_range list \<Rightarrow> block_range list" where
  "merge_rec p [] = [p]"
| "merge_rec p (c # cs) =
     (if br_start c \<le> br_end p then merge_rec (BlockRange (br_start p) (max (br_end p) (br_end c))) cs
      else p # merge_rec c cs)"

lemma foldl_merge_into: "foldl merge_into (acc @ [p]) cs = acc @ merge_rec p cs"
proof (induction cs arbitrary: acc p)
  case (Cons c cs)
  show ?case
  proof (cases "br_start c \<le> br_end p")
    case True
    then show ?thesis using Cons.IH by (simp add: merge_into_def)
  next
    case False
    then have "merge_into (acc @ [p]) c = (acc @ [p]) @ [c]" by (simp add: merge_into_def)
    then show ?thesis using False Cons.IH [of "acc @ [p]" c] by simp
  qed
qed simp

lemma merge_coverage_rec:
  "merge_coverage rs = (case sort rs of [] \<Rightarrow> [] | p # cs \<Rightarrow> merge_rec p cs)"
  using foldl_merge_into [of "[]"] by (simp add: merge_coverage_def split: list.splits)

lemma merge_rec_spec:
  assumes "sorted_wrt (\<lambda>r q. br_start r \<le> br_start q) (p # cs)"
    and "list_all valid_range (p # cs)"
  shows "blocks (merge_rec p cs) = blocks (p # cs) \<and> list_all valid_range (merge_rec p cs)
    \<and> separated (merge_rec p cs) \<and> (\<forall>r \<in> set (merge_rec p cs). br_start p \<le> br_start r)"
  using assms
proof (induction p cs rule: merge_rec.induct)
  case (2 p c cs)
  show ?case
  proof (cases "br_start c \<le> br_end p")
    case True
    let ?m = "BlockRange (br_start p) (max (br_end p) (br_end c))"
    have "blocks_of ?m = blocks_of p \<union> blocks_of c"
      using True 2(3,4) by (auto simp: blocks_of_def valid_range_def)
    moreover have "valid_range ?m" using 2(4) by (auto simp: valid_range_def)
    ultimately show ?thesis using 2(1) [OF True] 2(3,4) True by auto
  next
    case False
    have ih: "blocks (merge_rec c cs) = blocks (c # cs)" "list_all valid_range (merge_rec c cs)"
        "separated (merge_rec c cs)" and lo: "\<forall>r \<in> set (merge_rec c cs). br_start c \<le> br_start r"
      using 2(2) [OF False] 2(3,4) by simp_all
    have "\<forall>r \<in> set (merge_rec c cs). br_end p < br_start r \<and> br_start p \<le> br_start r"
      using lo False 2(4) by (auto simp: valid_range_def)
    with ih False 2(4) show ?thesis by (simp add: separated_def)
  qed
qed (auto simp: separated_def)

lemma sorted_starts: "sorted_wrt (\<lambda>r q. br_start r \<le> br_start q) (sort (rs :: block_range list))"
  using sorted_sort [of rs] by (rule sorted_wrt_mono_rel [rotated]) (auto simp: less_eq_block_range_def)

lemma merge_coverage_spec:
  assumes "list_all valid_range rs"
  shows "blocks (merge_coverage rs) = blocks rs" "list_all valid_range (merge_coverage rs)"
    "separated (merge_coverage rs)"
proof -
  have sort: "blocks (sort rs) = blocks rs" "list_all valid_range (sort rs)"
    using assms by (auto simp: blocks_def list_all_iff)
  have "blocks (merge_coverage rs) = blocks rs \<and> list_all valid_range (merge_coverage rs)
      \<and> separated (merge_coverage rs)"
  proof (cases "sort rs")
    case Nil
    then show ?thesis using sort by (simp add: merge_coverage_rec separated_def)
  next
    case (Cons p cs)
    then show ?thesis
      using merge_rec_spec [of p cs] sorted_starts [of rs] sort by (simp add: merge_coverage_rec)
  qed
  then show "blocks (merge_coverage rs) = blocks rs" "list_all valid_range (merge_coverage rs)"
    "separated (merge_coverage rs)" by blast+
qed

lemma separated_starts:
  assumes "separated rs" and "list_all valid_range rs"
  shows "sorted_wrt (\<lambda>r q. br_start r \<le> br_start q) rs"
proof (rule sorted_wrt_mono_rel [OF _ assms(1) [unfolded separated_def]])
  fix x y assume "x \<in> set rs" "y \<in> set rs" and lt: "br_end x < br_start y"
  with assms(2) have "br_start x < br_end x" by (simp add: list_all_iff valid_range_def)
  with lt show "br_start x \<le> br_start y" by linarith
qed

subsection \<open>Gaps and frontier\<close>

lemma gaps_end_blocks: "blocks (gaps_end req c gs) = blocks gs \<union> {c ..< br_end req}"
  by (auto simp: gaps_end_def)

lemma gaps_loop_step:
  assumes "\<not> br_end m \<le> br_start req" and "\<not> br_end req \<le> br_start m"
  shows "gaps_loop req c gs (m # ms) =
    (let a = max (br_start m) (br_start req); b = min (br_end m) (br_end req);
         gs' = (if a > c then gs @ [BlockRange c a] else gs); c' = max c b in
     if c' \<ge> br_end req then gaps_end req c' gs' else gaps_loop req c' gs' ms)"
  using assms by (simp only: gaps_loop.simps if_False Let_def)

lemma gaps_loop_blocks:
  assumes "sorted_wrt (\<lambda>r q. br_start r \<le> br_start q) ms" and "br_start req \<le> c"
  shows "blocks (gaps_loop req c gs ms) = blocks gs \<union> ({c ..< br_end req} - blocks ms)"
  using assms
proof (induction req c gs ms rule: gaps_loop.induct)
  case (2 req c gs m ms)
  let ?a = "max (br_start m) (br_start req)" and ?b = "min (br_end m) (br_end req)"
  let ?gs = "if ?a > c then gs @ [BlockRange c ?a] else gs" and ?c = "max c ?b"
  note IH1 = 2(1) and IH2 = 2(2) and prem = 2(3-)
  have later: "x \<notin> blocks ms" if "x < br_start m" for x
    using prem that by (auto simp: blocks_def blocks_of_def)
  consider "br_end m \<le> br_start req" | "\<not> br_end m \<le> br_start req" "br_end req \<le> br_start m"
    | "\<not> br_end m \<le> br_start req" "\<not> br_end req \<le> br_start m" by linarith
  then show ?case
  proof cases
    case 1
    with IH1 [OF 1] prem show ?thesis by (auto simp: blocks_of_def)
  next
    case 2
    with later show ?thesis by (auto simp: gaps_end_blocks blocks_of_def)
  next
    case 3
    have gs: "blocks ?gs = blocks gs \<union> {c ..< ?a}" by auto
    have step: "blocks (gaps_loop req c gs (m # ms)) = blocks ?gs \<union> ({?c ..< br_end req} - blocks ms)"
    proof (cases "?c \<ge> br_end req")
      case True
      then have "gaps_loop req c gs (m # ms) = gaps_end req ?c ?gs"
        unfolding gaps_loop_step [OF 3] Let_def by (rule if_P)
      with True show ?thesis by (simp add: gaps_end_blocks)
    next
      case False
      then have "gaps_loop req c gs (m # ms) = gaps_loop req ?c ?gs ms"
        unfolding gaps_loop_step [OF 3] Let_def by (rule if_not_P)
      moreover have "sorted_wrt (\<lambda>r q. br_start r \<le> br_start q) ms" "br_start req \<le> ?c"
        using prem by auto
      ultimately show ?thesis using IH2 [OF 3 refl refl refl refl False] by (simp only:)
    qed
    show ?thesis unfolding step gs
      using later 3 prem(2) by (auto simp: blocks_of_def)
  qed
qed (auto simp: gaps_end_blocks)

text \<open>The gaps are valid, separated, and within the required range.\<close>

definition gaps_inv :: "block_range \<Rightarrow> int \<Rightarrow> block_range list \<Rightarrow> bool" where
  "gaps_inv req c gs \<longleftrightarrow> list_all valid_range gs \<and> separated gs
     \<and> (\<forall>g \<in> set gs. br_end g < c \<and> br_end g \<le> br_end req)"

lemma separated_snoc:
  "separated gs \<Longrightarrow> (\<forall>g \<in> set gs. br_end g < br_start q) \<Longrightarrow> separated (gs @ [q])"
  by (auto simp: separated_def sorted_wrt_append)

lemma gaps_end_inv:
  "gaps_inv req c gs \<Longrightarrow> 0 \<le> c \<Longrightarrow>
     list_all valid_range (gaps_end req c gs) \<and> separated (gaps_end req c gs)"
  by (auto simp: gaps_end_def gaps_inv_def valid_range_def intro!: separated_snoc)

lemma gaps_loop_inv:
  assumes "gaps_inv req c gs" and "0 \<le> br_start req" and "br_start req \<le> c"
    and "list_all valid_range ms"
  shows "list_all valid_range (gaps_loop req c gs ms) \<and> separated (gaps_loop req c gs ms)"
  using assms
proof (induction req c gs ms rule: gaps_loop.induct)
  case (2 req c gs m ms)
  let ?a = "max (br_start m) (br_start req)" and ?b = "min (br_end m) (br_end req)"
  let ?gs = "if ?a > c then gs @ [BlockRange c ?a] else gs" and ?c = "max c ?b"
  note IH1 = 2(1) and IH2 = 2(2) and prem = 2(3-)
  consider "br_end m \<le> br_start req" | "\<not> br_end m \<le> br_start req" "br_end req \<le> br_start m"
    | "\<not> br_end m \<le> br_start req" "\<not> br_end req \<le> br_start m" by linarith
  then show ?case
  proof cases
    case 1
    with IH1 [OF 1] prem show ?thesis by simp
  next
    case 2
    then have "gaps_loop req c gs (m # ms) = gaps_end req c gs" by simp
    with gaps_end_inv [OF prem(1)] prem show ?thesis by simp
  next
    case 3
    have inv: "gaps_inv req ?c ?gs"
    proof (cases "?a > c")
      case True
      have "?a < ?b" if "br_start req < br_end req"
        using True 3 prem that by (auto simp: valid_range_def)
      moreover have "br_start req < br_end req" using True 3 prem by auto
      ultimately show ?thesis using True 3 prem
        by (auto simp: gaps_inv_def valid_range_def intro!: separated_snoc)
    next
      case False
      with prem(1) show ?thesis by (fastforce simp: gaps_inv_def)
    qed
    show ?thesis
    proof (cases "?c \<ge> br_end req")
      case True
      then have "gaps_loop req c gs (m # ms) = gaps_end req ?c ?gs"
        unfolding gaps_loop_step [OF 3] Let_def by (rule if_P)
      moreover have "0 \<le> ?c" using prem by auto
      ultimately show ?thesis using gaps_end_inv [OF inv] by (simp only:)
    next
      case False
      then have "gaps_loop req c gs (m # ms) = gaps_loop req ?c ?gs ms"
        unfolding gaps_loop_step [OF 3] Let_def by (rule if_not_P)
      moreover have "br_start req \<le> ?c" "list_all valid_range ms" using prem by auto
      ultimately show ?thesis using IH2 [OF 3 refl refl refl refl False inv] prem(2) by (simp only:)
    qed
  qed
qed (auto dest: gaps_end_inv)

lemma coverage_gaps_blocks:
  "list_all valid_range done \<Longrightarrow> blocks (coverage_gaps req done) = blocks_of req - blocks done"
  using gaps_loop_blocks [OF separated_starts, of "merge_coverage done" req "br_start req" "[]"]
    merge_coverage_spec [of "done"]
  by (simp add: coverage_gaps_def blocks_of_def)

lemma coverage_gaps_valid:
  "valid_range req \<Longrightarrow> list_all valid_range done \<Longrightarrow>
     list_all valid_range (coverage_gaps req done) \<and> separated (coverage_gaps req done)"
  unfolding coverage_gaps_def using merge_coverage_spec [of "done"]
  by (intro gaps_loop_inv) (auto simp: gaps_inv_def separated_def valid_range_def)

lemma frontier_loop_spec:
  assumes "separated ms" and "list_all valid_range ms"
  shows "f \<le> frontier_loop f ms \<and> {f ..< frontier_loop f ms} \<subseteq> blocks ms
    \<and> frontier_loop f ms \<notin> blocks ms"
  using assms
proof (induction f ms rule: frontier_loop.induct)
  case (2 f r rs)
  have after: "x \<notin> blocks rs" if "x \<le> br_end r" for x
    using 2(3) that by (auto simp: separated_def blocks_def blocks_of_def)
  have tl: "separated rs" "list_all valid_range rs" using 2(3,4) by (auto simp: separated_def)
  consider "br_end r \<le> f" | "f < br_end r" "f < br_start r" | "f < br_end r" "br_start r \<le> f" by linarith
  then show ?case
  proof cases
    case 1
    with 2(1) tl show ?thesis by (auto simp: blocks_of_def)
  next
    case 2
    with after show ?thesis by (auto simp: blocks_of_def)
  next
    case 3
    with 2(2) tl have ih: "br_end r \<le> frontier_loop (br_end r) rs"
      "{br_end r ..< frontier_loop (br_end r) rs} \<subseteq> blocks rs"
      "frontier_loop (br_end r) rs \<notin> blocks rs" by auto
    have "x \<in> blocks (r # rs)" if "f \<le> x" "x < frontier_loop (br_end r) rs" for x
      using ih(2) that 3 by (cases "x < br_end r") (auto simp: blocks_of_def)
    then have "{f ..< frontier_loop (br_end r) rs} \<subseteq> blocks (r # rs)"
      unfolding subset_iff atLeastLessThan_iff by blast
    with 3 ih show ?thesis by (simp add: blocks_of_def)
  qed
qed auto

subsection \<open>The contract of a resumable scan\<close>

text \<open>
  What the discovery and sweep services rely on when they scan only the missing ranges of a
  registry and record what they completed.
\<close>

locale coverage_contract =
  fixes gaps :: "block_range \<Rightarrow> block_range list \<Rightarrow> block_range list"
  assumes gaps_exact:
      "list_all valid_range done \<Longrightarrow> blocks (gaps req done) = blocks_of req - blocks done"
    and gaps_wf:
      "valid_range req \<Longrightarrow> list_all valid_range done
         \<Longrightarrow> list_all valid_range (gaps req done) \<and> separated (gaps req done)"
begin

lemma no_gap_iff:
  assumes "valid_range req" and "list_all valid_range done"
  shows "gaps req done = [] \<longleftrightarrow> blocks_of req \<subseteq> blocks done"
proof
  assume "gaps req done = []"
  then show "blocks_of req \<subseteq> blocks done" using gaps_exact [OF assms(2), of req] by simp
next
  assume "blocks_of req \<subseteq> blocks done"
  then have e: "blocks (gaps req done) = {}" using gaps_exact [OF assms(2)] by simp
  show "gaps req done = []"
  proof (cases "gaps req done")
    case (Cons g gs)
    with gaps_wf [OF assms] have "valid_range g" by simp
    with e Cons valid_range_nonempty show ?thesis by auto
  qed simp
qed

text \<open>Scanning the gaps closes them: nothing is scanned twice and nothing is left.\<close>

lemma resume:
  assumes "valid_range req" and "list_all valid_range done" and "list_all valid_range new"
    and "blocks new = blocks (gaps req done)"
  shows "gaps req (done @ new) = []" "blocks new \<inter> blocks done = {}"
    "blocks new \<subseteq> blocks_of req"
proof -
  have "blocks_of req \<subseteq> blocks (done @ new)" using gaps_exact assms by auto
  then show "gaps req (done @ new) = []" using no_gap_iff assms(1-3) by simp
  show "blocks new \<inter> blocks done = {}" "blocks new \<subseteq> blocks_of req"
    using gaps_exact [OF assms(2)] assms(4) by auto
qed

text \<open>Coverage only grows: more completed ranges leave fewer gaps.\<close>

lemma gaps_mono:
  assumes "list_all valid_range done" and "list_all valid_range new"
  shows "blocks (gaps req (done @ new)) \<subseteq> blocks (gaps req done)"
  using assms gaps_exact by auto

end

interpretation cov: coverage_contract coverage_gaps
  by unfold_locales (simp_all add: coverage_gaps_blocks coverage_gaps_valid)

subsection \<open>Properties\<close>

text \<open>
  C17: \<open>coverage_gaps\<close> computes the set difference. For any completed ranges, in any order
  and overlapping in any way, the blocks of the gaps are exactly the required blocks that no
  completed range contains; the gaps are valid non-empty ranges, in order, no two touching.
\<close>

theorem coverage_gaps_exact:
  assumes "valid_range req" and "list_all valid_range done"
  shows "blocks (coverage_gaps req done) = blocks_of req - blocks done
    \<and> list_all valid_range (coverage_gaps req done) \<and> separated (coverage_gaps req done)"
  using assms coverage_gaps_blocks coverage_gaps_valid by simp

theorem coverage_gaps_exact_witness:
  "blocks (coverage_gaps (BlockRange 0 10) [BlockRange 6 8, BlockRange 2 4])
     = {0..<10} - ({6..<8} \<union> {2..<4})"
  using coverage_gaps_exact [of "BlockRange 0 10" "[BlockRange 6 8, BlockRange 2 4]"]
  by (simp add: valid_range_def)

text \<open>
  \<open>merge_coverage\<close> is the canonical form of a set of blocks: the same blocks, as valid
  ranges in order of which no two overlap or touch. \<open>contiguous_frontier\<close> is the first block at
  or after the start that no completed range contains.
\<close>

theorem merge_and_frontier_exact:
  assumes "list_all valid_range rs" and "0 \<le> a"
  shows "blocks (merge_coverage rs) = blocks rs \<and> list_all valid_range (merge_coverage rs)
    \<and> separated (merge_coverage rs)
    \<and> (\<exists>f. contiguous_frontier a rs = Inr f \<and> a \<le> f \<and> {a ..< f} \<subseteq> blocks rs \<and> f \<notin> blocks rs)"
  using merge_coverage_spec [OF assms(1)] assms(2) frontier_loop_spec
  by (auto simp: contiguous_frontier_def)

theorem merge_and_frontier_exact_witness:
  "\<exists>f. contiguous_frontier 1 [BlockRange 4 9, BlockRange 0 4] = Inr f
     \<and> f \<notin> blocks [BlockRange 4 9, BlockRange 0 4]"
  using merge_and_frontier_exact [of "[BlockRange 4 9, BlockRange 0 4]" 1]
  by (auto simp: valid_range_def)

end
