(* ===== verification/Decoding.thy ===== *)
theory Decoding
  imports Domain
begin

unbundle bit_operations_syntax

text \<open>
  Strict ABI decoding (\<open>evm/decoding.py\<close>) and calldata encoding (\<open>evm/calldata.py\<close>).
  A return that does not have the exact layout raises or is materialised as a failed
  observation; a failure never becomes a number. Keccak-256 (\<open>eth_utils\<close>) is the parameter
  \<open>keccak\<close>.
\<close>

subsection \<open>Calldata\<close>

definition char_byte :: "char \<Rightarrow> byte" where
  "char_byte c = of_nat (char_nat c)"

definition function_selector :: "(bytes \<Rightarrow> bytes) \<Rightarrow> string \<Rightarrow> bytes" where
  "function_selector keccak signature = take 4 (keccak (map char_byte signature))"

definition AGGREGATE3_SELECTOR :: bytes where
  "AGGREGATE3_SELECTOR = [0x82, 0xad, 0x56, 0xcb]"

definition GET_BLOCK_NUMBER_SELECTOR :: bytes where
  "GET_BLOCK_NUMBER_SELECTOR = [0x42, 0xcb, 0xb1, 0x5c]"

definition GET_CURRENT_BLOCK_TIMESTAMP_SELECTOR :: bytes where
  "GET_CURRENT_BLOCK_TIMESTAMP_SELECTOR = [0x0f, 0x28, 0xc9, 0x7d]"

definition GET_BLOCK_HASH_SELECTOR :: bytes where
  "GET_BLOCK_HASH_SELECTOR = [0xee, 0x82, 0xac, 0x5e]"

definition BALANCE_OF_SELECTOR :: bytes where
  "BALANCE_OF_SELECTOR = [0x70, 0xa0, 0x82, 0x31]"

definition TOTAL_SUPPLY_SELECTOR :: bytes where
  "TOTAL_SUPPLY_SELECTOR = [0x18, 0x16, 0x0d, 0xdd]"

definition MIN_TICK :: int where
  "MIN_TICK = - 887272"

definition MAX_TICK :: int where
  "MAX_TICK = 887272"

definition signed_word :: "int \<Rightarrow> int \<Rightarrow> bytes res" where
  "signed_word value bits =
     (if bits \<le> 0 \<or> bits > 256
      then raise_res ValueError (''unsupported signed width: '' @ py_int bits)
      else let low = - (2 ^ nat (bits - 1)); high = 2 ^ nat (bits - 1) - 1 in
      if \<not> (low \<le> value \<and> value \<le> high)
      then raise_res ValueError
             (''value '' @ py_int value @ '' outside int'' @ py_int bits @ '' range ['' @
              py_int low @ '', '' @ py_int high @ '']'')
      else Inr (to_bytes 32 (value AND (2 ^ 256 - 1))))"

definition ticks_calldata :: "(bytes \<Rightarrow> bytes) \<Rightarrow> int \<Rightarrow> bytes res" where
  "ticks_calldata keccak tick =
     bind_res (signed_word tick 24) (\<lambda>w. Inr (function_selector keccak ''ticks(int24)'' @ w))"

definition tick_bitmap_calldata :: "(bytes \<Rightarrow> bytes) \<Rightarrow> int \<Rightarrow> bytes res" where
  "tick_bitmap_calldata keccak word_position =
     bind_res (signed_word word_position 16)
       (\<lambda>w. Inr (function_selector keccak ''tickBitmap(int16)'' @ w))"

definition tick_table_calldata :: "(bytes \<Rightarrow> bytes) \<Rightarrow> int \<Rightarrow> bytes res" where
  "tick_table_calldata keccak word_position =
     bind_res (signed_word word_position 16)
       (\<lambda>w. Inr (function_selector keccak ''tickTable(int16)'' @ w))"

text \<open>\<open>bytes.fromhex\<close> of the digits of a validated string, with the error it would raise.\<close>

definition fromhex_res :: "string \<Rightarrow> bytes res" where
  "fromhex_res s = (case fromhex s of None \<Rightarrow> raise_res ValueError ''non-hexadecimal number found in fromhex() arg'' | Some bs \<Rightarrow> Inr bs)"

definition address_word :: "string \<Rightarrow> bytes res" where
  "address_word address =
     (if \<not> ADDRESS_RE address then raise_res ValueError (''invalid EVM address: '' @ repr_str address)
      else bind_res (fromhex_res (drop 2 address))
             (\<lambda>b. Inr (replicate (32 - length b) 0 @ b)))"

definition bytes32_word :: "string \<Rightarrow> bytes res" where
  "bytes32_word value =
     (if \<not> HASH_RE value then raise_res ValueError (''invalid 32-byte value: '' @ repr_str value)
      else fromhex_res (drop 2 value))"

definition uint256_word :: "int \<Rightarrow> bytes res" where
  "uint256_word value =
     (if value < 0 \<or> value \<ge> 2 ^ 256 then raise_res ValueError ''value is outside uint256''
      else Inr (to_bytes 32 value))"

definition balance_of_calldata :: "string \<Rightarrow> bytes res" where
  "balance_of_calldata holder =
     bind_res (address_word holder) (\<lambda>w. Inr (BALANCE_OF_SELECTOR @ w))"

definition get_block_hash_calldata :: "int \<Rightarrow> bytes res" where
  "get_block_hash_calldata block_number =
     bind_res (uint256_word block_number) (\<lambda>w. Inr (GET_BLOCK_HASH_SELECTOR @ w))"

definition get_pool_tokens_calldata :: "(bytes \<Rightarrow> bytes) \<Rightarrow> string \<Rightarrow> bytes res" where
  "get_pool_tokens_calldata keccak pool_id =
     bind_res (bytes32_word pool_id)
       (\<lambda>w. Inr (function_selector keccak ''getPoolTokens(bytes32)'' @ w))"

definition get_pool_token_info_calldata :: "(bytes \<Rightarrow> bytes) \<Rightarrow> string \<Rightarrow> bytes res" where
  "get_pool_token_info_calldata keccak pool_address =
     bind_res (address_word pool_address)
       (\<lambda>w. Inr (function_selector keccak ''getPoolTokenInfo(address)'' @ w))"

subsection \<open>Scalar decoding\<close>

definition hex_data_to_bytes :: "string \<Rightarrow> bytes res" where
  "hex_data_to_bytes value =
     (if \<not> is_prefix ''0x'' value then raise_res ValueError ''RPC data must be 0x-prefixed hex''
      else let body = drop 2 value in
      if length body mod 2 \<noteq> 0 then raise_res ValueError ''RPC hex data must contain whole bytes''
      else case fromhex body of
             None \<Rightarrow> raise_res ValueError ''RPC data contains non-hex characters''
           | Some bs \<Rightarrow> Inr bs)"

text \<open>The argument type \<open>bytes | str\<close>.\<close>

datatype returndata = RetBytes bytes | RetHex string

definition returndata_bytes :: "returndata \<Rightarrow> bytes res" where
  "returndata_bytes r = (case r of RetBytes b \<Rightarrow> Inr b | RetHex s \<Rightarrow> hex_data_to_bytes s)"

definition failed_observation ::
  "observation_status \<Rightarrow> bytes \<Rightarrow> string option \<Rightarrow> uint_observation" where
  "failed_observation st raw detail =
     \<lparr>obs_status = st, obs_value = None, obs_raw = raw, obs_detail = detail\<rparr>"

definition decode_uint256 :: "bool \<Rightarrow> returndata \<Rightarrow> uint_observation" where
  "decode_uint256 success r =
     (case returndata_bytes r of
        Inl e \<Rightarrow> failed_observation MALFORMED_RETURN [] (Some (exn_str e))
      | Inr raw \<Rightarrow>
          if \<not> success then failed_observation REVERTED raw None
          else if raw = [] then failed_observation EMPTY_RETURN raw None
          else if length raw \<noteq> 32
          then failed_observation MALFORMED_RETURN raw
                 (Some (''expected 32 bytes, got '' @ py_int (int (length raw))))
          else \<lparr>obs_status = OK, obs_value = Some (from_bytes raw), obs_raw = raw,
                obs_detail = None\<rparr>)"

subsection \<open>Balancer Vault returns\<close>

text \<open>\<open>raw[start : start + 32]\<close>; the callers check the bound first.\<close>

definition slice :: "bytes \<Rightarrow> nat \<Rightarrow> nat \<Rightarrow> bytes" where
  "slice raw start stop = take (stop - start) (drop start raw)"

definition read_offset :: "bytes \<Rightarrow> nat \<Rightarrow> nat res" where
  "read_offset raw index =
     (let start = index * 32 in
      if start + 32 > length raw
      then raise_res BalancerDecodeError
             (''return data too short for head word '' @ py_int (int index))
      else let offset = from_bytes (slice raw start (start + 32)) in
      if offset mod 32 \<noteq> 0
      then raise_res BalancerDecodeError
             (''array offset '' @ py_int offset @ '' is not word-aligned'')
      else Inr (nat offset))"

definition read_array_words :: "bytes \<Rightarrow> nat \<Rightarrow> bytes list res" where
  "read_array_words raw offset =
     (if offset + 32 > length raw
      then raise_res BalancerDecodeError ''array length word is out of bounds''
      else let len = nat (from_bytes (slice raw offset (offset + 32)));
               data_start = offset + 32;
               data_end = data_start + len * 32 in
      if data_end > length raw
      then raise_res BalancerDecodeError ''array element data is out of bounds''
      else Inr (map (\<lambda>i. slice raw (data_start + i * 32) (data_start + (i + 1) * 32)) [0..<len]))"

definition word_to_address :: "bytes \<Rightarrow> string res" where
  "word_to_address word =
     (if take 12 word \<noteq> replicate 12 0
      then raise_res BalancerDecodeError ''address word has non-zero high bytes''
      else Inr (''0x'' @ bytes_hex (drop 12 word)))"

definition zip_tokens_balances :: "bytes \<Rightarrow> nat \<Rightarrow> nat \<Rightarrow> (string \<times> int) list res" where
  "zip_tokens_balances raw tokens_offset balances_offset =
     bind_res (read_array_words raw tokens_offset) (\<lambda>token_words.
     bind_res (read_array_words raw balances_offset) (\<lambda>balance_words.
       if length token_words \<noteq> length balance_words
       then raise_res BalancerDecodeError
              (''tokens/balances length mismatch: '' @ py_int (int (length token_words)) @
               '' vs '' @ py_int (int (length balance_words)))
       else if token_words = []
       then raise_res BalancerDecodeError ''pool reports no tokens''
       else map_res (\<lambda>(token, balance).
              bind_res (word_to_address token) (\<lambda>a. Inr (a, from_bytes balance)))
              (zip token_words balance_words)))"

definition decode_balancer_v2_pool_tokens :: "bytes \<Rightarrow> (string \<times> int) list res" where
  "decode_balancer_v2_pool_tokens r =
     (if length r < 3 * 32
      then raise_res BalancerDecodeError ''return data too short for getPoolTokens head''
      else bind_res (read_offset r 0) (\<lambda>tokens_offset.
           bind_res (read_offset r 1) (\<lambda>balances_offset.
             zip_tokens_balances r tokens_offset balances_offset)))"

definition decode_balancer_v3_pool_token_info :: "bytes \<Rightarrow> (string \<times> int) list res" where
  "decode_balancer_v3_pool_token_info r =
     (if length r < 4 * 32
      then raise_res BalancerDecodeError ''return data too short for getPoolTokenInfo head''
      else bind_res (read_offset r 0) (\<lambda>tokens_offset.
           bind_res (read_offset r 2) (\<lambda>balances_raw_offset.
             zip_tokens_balances r tokens_offset balances_raw_offset)))"

subsection \<open>Concentrated-liquidity returns\<close>

record decoded_slot0 =
  s0_sqrt_price_x96 :: int
  s0_tick :: int

record decoded_global_state =
  gs_sqrt_price_x96 :: int
  gs_tick :: int
  gs_fee :: int

record decoded_tick =
  dt_liquidity_gross :: int
  dt_liquidity_net :: int
  dt_fee_growth_outside_0_x128 :: int
  dt_fee_growth_outside_1_x128 :: int
  dt_initialized :: bool

definition cl_word :: "bytes \<Rightarrow> nat \<Rightarrow> bytes res" where
  "cl_word raw index =
     (let start = index * 32 in
      if start + 32 > length raw
      then raise_res ClDecodeError (''return data too short for word '' @ py_int (int index))
      else Inr (slice raw start (start + 32)))"

definition decode_uint :: "bytes \<Rightarrow> int \<Rightarrow> int res" where
  "decode_uint word bits =
     (if bits mod 8 \<noteq> 0 \<or> \<not> (0 < bits \<and> bits \<le> 256)
      then raise_res ClDecodeError (''unsupported uint width: '' @ py_int bits)
      else let high = nat (32 - bits div 8) in
      if take high word \<noteq> replicate high 0
      then raise_res ClDecodeError (''uint'' @ py_int bits @ '' word has non-zero high bytes'')
      else Inr (from_bytes word))"

definition decode_int :: "bytes \<Rightarrow> int \<Rightarrow> int res" where
  "decode_int word bits =
     (if \<not> (0 < bits \<and> bits \<le> 256)
      then raise_res ClDecodeError (''unsupported int width: '' @ py_int bits)
      else let value = from_bytes word;
               body = value AND (2 ^ nat bits - 1);
               negative = (body AND 2 ^ nat (bits - 1) \<noteq> 0);
               expected_high = (if negative then 2 ^ nat (256 - bits) - 1 else 0) in
      if drop_bit (nat bits) value \<noteq> expected_high
      then raise_res ClDecodeError (''int'' @ py_int bits @ '' word is not correctly sign-extended'')
      else Inr (if negative then body - 2 ^ nat bits else body))"

definition decode_bool :: "bytes \<Rightarrow> bool res" where
  "decode_bool word =
     (if take 31 word \<noteq> replicate 31 0 \<or> last word \<notin> {0, 1}
      then raise_res ClDecodeError ''bool word is not 0 or 1''
      else Inr (last word = 1))"

definition decode_uint_return :: "bytes \<Rightarrow> int \<Rightarrow> int res" where
  "decode_uint_return r bits =
     (if length r < 32 then raise_res ClDecodeError ''return data too short for a scalar word''
      else bind_res (cl_word r 0) (\<lambda>w. decode_uint w bits))"

definition decode_int_return :: "bytes \<Rightarrow> int \<Rightarrow> int res" where
  "decode_int_return r bits =
     (if length r < 32 then raise_res ClDecodeError ''return data too short for a scalar word''
      else bind_res (cl_word r 0) (\<lambda>w. decode_int w bits))"

definition decode_slot0 :: "bytes \<Rightarrow> decoded_slot0 res" where
  "decode_slot0 r =
     bind_res (bind_res (cl_word r 0) (\<lambda>w. decode_uint w 160)) (\<lambda>price.
     bind_res (bind_res (cl_word r 1) (\<lambda>w. decode_int w 24)) (\<lambda>tick.
       Inr \<lparr>s0_sqrt_price_x96 = price, s0_tick = tick\<rparr>))"

definition decode_global_state :: "bytes \<Rightarrow> decoded_global_state res" where
  "decode_global_state r =
     bind_res (bind_res (cl_word r 0) (\<lambda>w. decode_uint w 160)) (\<lambda>price.
     bind_res (bind_res (cl_word r 1) (\<lambda>w. decode_int w 24)) (\<lambda>tick.
     bind_res (bind_res (cl_word r 2) (\<lambda>w. decode_uint w 16)) (\<lambda>fee.
       Inr \<lparr>gs_sqrt_price_x96 = price, gs_tick = tick, gs_fee = fee\<rparr>)))"

definition decode_ticks :: "bytes \<Rightarrow> decoded_tick res" where
  "decode_ticks r =
     (if length r < 8 * 32 then raise_res ClDecodeError ''return data too short for ticks() struct''
      else
     bind_res (bind_res (cl_word r 0) (\<lambda>w. decode_uint w 128)) (\<lambda>gross.
     bind_res (bind_res (cl_word r 1) (\<lambda>w. decode_int w 128)) (\<lambda>net.
     bind_res (cl_word r 2) (\<lambda>w2.
     bind_res (cl_word r 3) (\<lambda>w3.
     bind_res (bind_res (cl_word r 7) decode_bool) (\<lambda>initialized.
       Inr \<lparr>dt_liquidity_gross = gross, dt_liquidity_net = net,
            dt_fee_growth_outside_0_x128 = from_bytes w2,
            dt_fee_growth_outside_1_x128 = from_bytes w3,
            dt_initialized = initialized\<rparr>))))))"

definition decode_bitmap_word :: "bytes \<Rightarrow> nat list res" where
  "decode_bitmap_word r =
     (if length r \<noteq> 32
      then raise_res ClDecodeError
             (''bitmap word must be exactly 32 bytes, got '' @ py_int (int (length r)))
      else let value = from_bytes r in
      Inr (filter (\<lambda>b. drop_bit b value AND 1 \<noteq> 0) [0..<256]))"

subsection \<open>Lemmas: scalars\<close>

lemma hex_data_to_bytes_hex [bytes_simps]: "hex_data_to_bytes (''0x'' @ bytes_hex bs) = Inr bs"
  by (simp add: hex_data_to_bytes_def bytes_simps)

lemma decode_uint256_cases:
  "decode_uint256 success r =
     (case returndata_bytes r of
        Inl e \<Rightarrow> failed_observation MALFORMED_RETURN [] (Some (exn_str e))
      | Inr raw \<Rightarrow>
          if success \<and> length raw = 32
          then \<lparr>obs_status = OK, obs_value = Some (from_bytes raw), obs_raw = raw, obs_detail = None\<rparr>
          else if \<not> success then failed_observation REVERTED raw None
          else if raw = [] then failed_observation EMPTY_RETURN raw None
          else failed_observation MALFORMED_RETURN raw
                 (Some (''expected 32 bytes, got '' @ py_int (int (length raw)))))"
  by (auto simp: decode_uint256_def split: sum.splits)

lemma decode_uint256_ok [simp]:
  "length raw = 32 \<Longrightarrow> decode_uint256 True (RetBytes raw) =
     \<lparr>obs_status = OK, obs_value = Some (from_bytes raw), obs_raw = raw, obs_detail = None\<rparr>"
  by (simp add: decode_uint256_cases returndata_bytes_def)

lemma valid_failed_observation [simp]: "st \<noteq> OK \<Longrightarrow> valid_observation (failed_observation st raw d)"
  by (simp add: valid_observation_def failed_observation_def)

lemma obs_ok_failed [simp]: "obs_ok (failed_observation st raw d) \<longleftrightarrow> st = OK"
  by (simp add: obs_ok_def failed_observation_def)

lemma valid_decode_uint256 [simp]: "valid_observation (decode_uint256 success r)"
  by (auto simp: decode_uint256_cases valid_observation_def failed_observation_def split: sum.splits)

lemma decode_uint256_value_iff:
  "obs_value (decode_uint256 success r) = Some v \<longleftrightarrow>
     success \<and> (\<exists>raw. returndata_bytes r = Inr raw \<and> length raw = 32 \<and> v = from_bytes raw)"
  by (auto simp: decode_uint256_cases failed_observation_def split: sum.splits)

subsection \<open>Lemmas: signed words\<close>

lemma and_mask_mod: "(a :: int) AND (2 ^ n - 1) = a mod 2 ^ n"
  by (metis mask_eq_exp_minus_1 take_bit_eq_mask take_bit_eq_mod)

lemma signed_word_Inr:
  assumes "0 < bits" "bits \<le> 256"
  shows "signed_word v bits = Inr w \<longleftrightarrow>
     - (2 ^ nat (bits - 1)) \<le> v \<and> v < 2 ^ nat (bits - 1) \<and> w = to_bytes 32 (v mod 2 ^ 256)"
proof -
  have "v AND (2 ^ 256 - 1) = v mod 2 ^ 256" by (rule and_mask_mod)
  with assms show ?thesis by (auto simp add: signed_word_def Let_def)
qed

lemma pow256: "(256 :: int) ^ 32 = 2 ^ 256"
  by (simp add: power_mult [symmetric, of 2 8 32, simplified])

lemma from_bytes_32: "length w = 32 \<Longrightarrow> 0 \<le> from_bytes w \<and> from_bytes w < 2 ^ 256"
  using from_bytes_less [of w] pow256 by simp

lemma top_bit_iff:
  assumes "0 < n" and "0 \<le> (b :: int)" and "b < 2 ^ n"
  shows "b AND 2 ^ (n - 1) \<noteq> 0 \<longleftrightarrow> 2 ^ (n - 1) \<le> b"
proof -
  let ?h = "2 ^ (n - 1) :: int"
  have h: "(0 :: int) < ?h" by simp
  have "(2 :: int) ^ n = 2 * ?h" using assms(1) by (simp add: power_eq_if)
  with assms have lt: "b < 2 * ?h" by simp
  have "odd (b div ?h) \<longleftrightarrow> ?h \<le> b"
  proof (cases "?h \<le> b")
    case True
    have "b div ?h = ((b - ?h) + ?h) div ?h" by simp
    also have "\<dots> = (b - ?h) div ?h + 1" using h by (subst div_add_self2) auto
    finally have "b div ?h = (b - ?h) div ?h + 1" .
    moreover have "(b - ?h) div ?h = 0" using True lt by (intro div_pos_pos_trivial) auto
    ultimately show ?thesis using True by simp
  next
    case False
    with assms(2) have "b div ?h = 0" by (intro div_pos_pos_trivial) auto
    with False show ?thesis by simp
  qed
  then show ?thesis by (simp only: and_exp_eq_0_iff_not_bit bit_iff_odd) simp
qed

text \<open>The arithmetic of two's complement: what \<open>decode_int\<close> computes from a 256-bit value.\<close>

lemma twos_complement:
  fixes u :: int
  assumes n: "0 < n" "n \<le> N" and u01: "0 \<le> u" "u < 2 ^ N"
  defines "body \<equiv> u mod 2 ^ n"
  defines "neg \<equiv> 2 ^ (n - 1) \<le> body"
  shows "(u div 2 ^ n = (if neg then 2 ^ (N - n) - 1 else 0)
            \<and> v = (if neg then body - 2 ^ n else body))
         \<longleftrightarrow> - (2 ^ (n - 1)) \<le> v \<and> v < 2 ^ (n - 1) \<and> u = v mod 2 ^ N"
    (is "?L \<longleftrightarrow> ?R")
proof -
  let ?B = "2 ^ n :: int" and ?h = "2 ^ (n - 1) :: int" and ?Q = "2 ^ (N - n) :: int"
  have B: "?B = 2 * ?h" using n by (simp add: power_eq_if)
  have M: "(2 :: int) ^ N = ?Q * ?B" using n by (simp add: power_add [symmetric])
  have pos: "0 < ?h" "0 < ?Q" "0 < ?B" by simp_all
  have body: "0 \<le> body" "body < ?B" by (simp_all add: body_def)
  have split: "u = (u div ?B) * ?B + body"
    unfolding body_def by (rule div_mult_mod_eq [symmetric])
  have hB: "?h \<le> ?B" using B pos by linarith
  have BM: "?B \<le> 2 ^ N" using n by (intro power_increasing) auto
  note hM = hB BM
  show ?thesis
  proof
    assume L: ?L
    show ?R
    proof (cases neg)
      case True
      with L have v: "v = body - ?B" and q: "u div ?B = ?Q - 1" by auto
      from split q have u: "u = v + 2 ^ N" using v M by (simp add: algebra_simps)
      have "v mod 2 ^ N = (v + 2 ^ N) mod 2 ^ N" by simp
      also have "\<dots> = u" unfolding u [symmetric] using u01 by (intro mod_pos_pos_trivial) auto
      finally have "u = v mod 2 ^ N" by simp
      moreover have "- ?h \<le> v" "v < 0" using True v body B unfolding neg_def by linarith+
      ultimately show ?thesis using pos(1) by linarith
    next
      case False
      with L have "v = body" "u div ?B = 0" by auto
      with split have "v = u" by simp
      with False body u01 pos show ?thesis using \<open>v = body\<close>
        by (simp add: neg_def mod_pos_pos_trivial)
    qed
  next
    assume R: ?R
    show ?L
    proof (cases "0 \<le> v")
      case True
      have vB: "v < ?B" and vM: "v < 2 ^ N" using R hM by linarith+
      from True vM have "v mod 2 ^ N = v" by (rule mod_pos_pos_trivial)
      with R have uv: "u = v" by simp
      have "body = v" "u div ?B = 0"
        unfolding body_def uv using True vB
        by (rule mod_pos_pos_trivial, rule div_pos_pos_trivial)
      with R show ?thesis by (simp add: neg_def)
    next
      case False
      have "0 \<le> v + 2 ^ N" "v + 2 ^ N < 2 ^ N" using R hM False by linarith+
      then have "(v + 2 ^ N) mod 2 ^ N = v + 2 ^ N" by (rule mod_pos_pos_trivial)
      with R have uv: "u = v + 2 ^ N" by simp
      then have u: "u = (v + ?B) + (?Q - 1) * ?B" using M by (simp add: algebra_simps)
      have r: "0 \<le> v + ?B" "v + ?B < ?B" using R False hB by linarith+
      have "(v + ?B) div ?B = 0" using r by (rule div_pos_pos_trivial)
      then have "u div ?B = ?Q - 1" unfolding u using pos(3)
        by (subst div_mult_self1) linarith+
      moreover have "body = v + ?B" unfolding body_def u mod_mult_self1
        using r by (rule mod_pos_pos_trivial)
      ultimately
      show ?thesis using R False B by (simp add: neg_def)
    qed
  qed
qed

lemma decode_int_iff:
  assumes bits: "0 < bits" "bits \<le> 256" and len: "length w = 32"
  shows "decode_int w bits = Inr v \<longleftrightarrow> signed_word v bits = Inr w"
proof -
  let ?n = "nat bits"
  let ?body = "from_bytes w mod 2 ^ ?n"
  have n: "0 < ?n" "?n \<le> 256" and nm: "nat (bits - 1) = ?n - 1" "nat (256 - bits) = 256 - ?n"
    using bits by auto
  have neg: "?body AND 2 ^ (?n - 1) \<noteq> 0 \<longleftrightarrow> 2 ^ (?n - 1) \<le> ?body"
    using n by (intro top_bit_iff) auto
  have w: "w = to_bytes 32 (v mod 2 ^ 256) \<longleftrightarrow> from_bytes w = v mod 2 ^ 256"
  proof
    assume "w = to_bytes 32 (v mod 2 ^ 256)"
    then have "from_bytes w = (v mod 2 ^ 256) mod 256 ^ 32" by (simp only: from_to_bytes)
    then show "from_bytes w = v mod 2 ^ 256" by (simp only: pow256 mod_mod_trivial)
  next
    assume "from_bytes w = v mod 2 ^ 256"
    then show "w = to_bytes 32 (v mod 2 ^ 256)" using to_from_bytes [OF len] by simp
  qed
  have "decode_int w bits = Inr v \<longleftrightarrow>
      (from_bytes w div 2 ^ ?n = (if 2 ^ (?n - 1) \<le> ?body then 2 ^ (256 - ?n) - 1 else 0)
       \<and> v = (if 2 ^ (?n - 1) \<le> ?body then ?body - 2 ^ ?n else ?body))"
    using bits neg unfolding decode_int_def Let_def and_mask_mod nm drop_bit_eq_div by auto
  also have "\<dots> \<longleftrightarrow> - (2 ^ (?n - 1)) \<le> v \<and> v < 2 ^ (?n - 1) \<and> from_bytes w = v mod 2 ^ 256"
    using n from_bytes_32 [OF len] by (intro twos_complement) auto
  also have "\<dots> \<longleftrightarrow> signed_word v bits = Inr w"
    using signed_word_Inr [OF bits] w nm by simp
  finally show ?thesis .
qed

subsection \<open>Lemmas: bitmaps\<close>

lemma decode_bitmap_word_Inr:
  "decode_bitmap_word r = Inr bs \<longleftrightarrow> length r = 32 \<and> bs = filter (bit (from_bytes r)) [0..<256]"
proof -
  have "(drop_bit b x AND 1 \<noteq> 0) = bit x b" for b and x :: int
    by (simp add: and_one_eq bit_iff_odd_drop_bit odd_iff_mod_2_eq_one)
  then show ?thesis by (auto simp: decode_bitmap_word_def Let_def)
qed

lemma sum_list_filter_pow: "sum_list (map ((^) 2) (filter P [0..<n])) = (\<Sum>k = 0..<n. if P k then 2 ^ k else (0 :: int))"
  by (induction n) auto

lemma bits_sum:
  assumes "0 \<le> (a :: int)" and "a < 2 ^ n"
  shows "sum_list (map ((^) 2) (filter (bit a) [0..<n])) = a"
proof -
  have "a = take_bit n a" using assms by (simp add: take_bit_eq_mod)
  also have "\<dots> = (\<Sum>k = 0..<n. push_bit k (of_bool (bit a k)))" by (rule take_bit_sum)
  also have "\<dots> = (\<Sum>k = 0..<n. if bit a k then 2 ^ k else 0)"
    by (rule sum.cong) (auto simp: push_bit_eq_mult)
  finally show ?thesis by (simp add: sum_list_filter_pow)
qed

subsection \<open>Lemmas: Balancer arrays\<close>

text \<open>
  The ABI layout of an array of 32-byte words and of the two Vault returns, as the contracts
  encode them; the decoders are shown to invert it.
\<close>

definition abi_word :: "nat \<Rightarrow> bytes" where
  "abi_word n = to_bytes 32 (int n)"

definition abi_array :: "bytes list \<Rightarrow> bytes" where
  "abi_array ws = abi_word (length ws) @ concat ws"

definition abi_address :: "bytes \<Rightarrow> bytes" where
  "abi_address a = replicate 12 0 @ a"

definition abi_pool_tokens :: "(bytes \<times> int) list \<Rightarrow> bytes \<Rightarrow> bytes" where
  "abi_pool_tokens ps last_change =
     (let tokens = map (abi_address \<circ> fst) ps; balances = map (to_bytes 32 \<circ> snd) ps in
      abi_word 96 @ abi_word (128 + 32 * length ps) @ last_change
      @ abi_array tokens @ abi_array balances)"

lemma length_abi_word [simp]: "length (abi_word n) = 32"
  by (simp add: abi_word_def)

lemma from_abi_word: "n < 2 ^ 256 \<Longrightarrow> from_bytes (abi_word n) = int n"
  unfolding abi_word_def by (rule from_to_bytes_id) (simp_all add: pow256 flip: of_nat_power)

lemma length_concat_words: "list_all (\<lambda>w. length w = 32) ws \<Longrightarrow> length (concat ws) = 32 * length ws"
  by (induction ws) auto

lemma slice_skip: "slice (pre @ raw) (length pre + a) (length pre + b) = slice raw a b"
  by (simp add: slice_def)

lemma slice_head: "length w = n \<Longrightarrow> slice (w @ rest) 0 n = w"
  by (simp add: slice_def)

lemma slice_concat:
  "list_all (\<lambda>w. length w = 32) ws \<Longrightarrow> i < length ws \<Longrightarrow>
     slice (concat ws @ rest) (i * 32) ((i + 1) * 32) = ws ! i"
proof (induction ws arbitrary: i)
  case (Cons w ws)
  show ?case
  proof (cases i)
    case 0
    with Cons.prems show ?thesis by (simp add: slice_head)
  next
    case (Suc j)
    have "slice (w @ concat ws @ rest) (length w + j * 32) (length w + (j + 1) * 32)
        = slice (concat ws @ rest) (j * 32) ((j + 1) * 32)"
      by (rule slice_skip)
    with Suc Cons show ?thesis by (simp add: add.commute)
  qed
qed simp

lemma read_array_words_abi:
  assumes ws: "list_all (\<lambda>w. length w = 32) ws" and len: "length ws < 2 ^ 256"
  shows "read_array_words (pre @ abi_array ws @ rest) (length pre) = Inr ws"
proof -
  let ?raw = "pre @ abi_array ws @ rest"
  have lw: "length (concat ws) = 32 * length ws" using ws by (rule length_concat_words)
  have n: "nat (from_bytes (slice ?raw (length pre) (length pre + 32))) = length ws"
    using slice_skip [of pre "abi_array ws @ rest" 0 32] from_abi_word [OF len]
    by (simp add: abi_array_def slice_head)
  have at: "slice ?raw (length pre + 32 + i * 32) (length pre + 32 + (i + 1) * 32) = ws ! i"
    if "i < length ws" for i
  proof -
    have "slice ((pre @ abi_word (length ws)) @ concat ws @ rest)
            (length (pre @ abi_word (length ws)) + i * 32)
            (length (pre @ abi_word (length ws)) + (i + 1) * 32)
        = slice (concat ws @ rest) (i * 32) ((i + 1) * 32)"
      by (rule slice_skip)
    then show ?thesis using slice_concat [OF ws that, of rest]
      by (simp add: abi_array_def add.assoc)
  qed
  have "map (\<lambda>i. slice ?raw (length pre + 32 + i * 32) (length pre + 32 + (i + 1) * 32))
          [0..<length ws] = map (\<lambda>i. ws ! i) [0..<length ws]"
    by (rule map_cong) (use at in auto)
  also have "\<dots> = ws" by (rule map_nth)
  finally have m: "map (\<lambda>i. slice ?raw (length pre + 32 + i * 32) (length pre + 32 + (i + 1) * 32))
          [0..<length ws] = ws" .
  have "length ?raw = length pre + 32 + 32 * length ws + length rest"
    by (simp add: abi_array_def lw)
  then show ?thesis unfolding read_array_words_def Let_def n m by simp
qed

lemma word_to_address_abi [simp]: "word_to_address (abi_address a) = Inr (''0x'' @ bytes_hex a)"
  by (simp add: word_to_address_def abi_address_def)

lemma read_offset_abi:
  assumes "off mod 32 = 0" and "off < 2 ^ 256" and "length pre = 32 * i"
  shows "read_offset (pre @ abi_word off @ rest) i = Inr off"
proof -
  have "slice (pre @ abi_word off @ rest) (length pre + 0) (length pre + 32)
      = slice (abi_word off @ rest) 0 32" by (rule slice_skip)
  then have "from_bytes (slice (pre @ abi_word off @ rest) (i * 32) (i * 32 + 32)) = int off"
    using assms from_abi_word by (simp add: slice_head mult.commute)
  moreover have "int off mod 32 = 0" using assms(1) by presburger
  ultimately show ?thesis using assms(3) by (simp add: read_offset_def Let_def)
qed

lemma zip_map_pairs: "zip (map f ps) (map g ps) = map (\<lambda>p. (f p, g p)) ps"
  by (induction ps) auto

text \<open>V3's return has four heads; \<open>info\<close> and \<open>scaled\<close> are the two arrays the decoder skips.\<close>

definition abi_pool_token_info :: "(bytes \<times> int) list \<Rightarrow> bytes \<Rightarrow> bytes \<Rightarrow> bytes" where
  "abi_pool_token_info ps info scaled =
     (let tokens = map (abi_address \<circ> fst) ps; balances = map (to_bytes 32 \<circ> snd) ps;
          info_at = 160 + 32 * length ps; raw_at = info_at + length info in
      abi_word 128 @ abi_word info_at @ abi_word raw_at @ abi_word (raw_at + 32 + 32 * length ps)
      @ abi_array tokens @ info @ abi_array balances @ scaled)"

lemma zip_tokens_balances_abi:
  assumes raw1: "raw = pre1 @ abi_array (map (abi_address \<circ> fst) ps) @ rest1"
    and raw2: "raw = pre2 @ abi_array (map (to_bytes 32 \<circ> snd) ps) @ rest2"
    and ps: "ps \<noteq> []" "length ps < 2 ^ 256"
      "list_all (\<lambda>(a, b). length a = 20 \<and> 0 \<le> b \<and> b < 2 ^ 256) ps"
  shows "zip_tokens_balances raw (length pre1) (length pre2)
    = Inr (map (\<lambda>(a, b). (''0x'' @ bytes_hex a, b)) ps)"
proof -
  let ?T = "map (abi_address \<circ> fst) ps" and ?B = "map (to_bytes 32 \<circ> snd) ps"
  have T: "read_array_words raw (length pre1) = Inr ?T" unfolding raw1
    using ps by (intro read_array_words_abi) (auto simp: list_all_iff abi_address_def)
  have B: "read_array_words raw (length pre2) = Inr ?B" unfolding raw2
    using ps by (intro read_array_words_abi) (auto simp: list_all_iff)
  have id: "from_bytes (to_bytes 32 b) = b" if "0 \<le> b" "b < 2 ^ 256" for b
    using that by (intro from_to_bytes_id) (simp_all only: pow256)
  have "map_res (\<lambda>(token, balance). bind_res (word_to_address token) (\<lambda>a. Inr (a, from_bytes balance)))
          (zip ?T ?B) = Inr (map (\<lambda>(t, b). (''0x'' @ bytes_hex (drop 12 t), from_bytes b)) (zip ?T ?B))"
    by (rule map_res_returns) (auto simp: zip_map_pairs abi_address_def word_to_address_def)
  also have "\<dots> = Inr (map (\<lambda>(a, b). (''0x'' @ bytes_hex a, b)) ps)"
    unfolding zip_map_pairs using ps(3) id by (auto simp: list_all_iff abi_address_def)
  finally show ?thesis using ps(1) by (simp add: zip_tokens_balances_def T B)
qed

lemma decode_v2_abi:
  assumes "ps \<noteq> []" "32 * length ps + 128 < 2 ^ 256" "length last_change = 32"
    "list_all (\<lambda>(a, b). length a = 20 \<and> 0 \<le> b \<and> b < 2 ^ 256) ps"
  shows "decode_balancer_v2_pool_tokens (abi_pool_tokens ps last_change)
    = Inr (map (\<lambda>(a, b). (''0x'' @ bytes_hex a, b)) ps)"
proof -
  let ?T = "map (abi_address \<circ> fst) ps" and ?B = "map (to_bytes 32 \<circ> snd) ps"
  let ?bo = "128 + 32 * length ps"
  let ?raw = "abi_pool_tokens ps last_change"
  have raw: "?raw = abi_word 96 @ abi_word ?bo @ last_change @ abi_array ?T @ abi_array ?B"
    by (simp add: abi_pool_tokens_def Let_def)
  have "read_offset ?raw 0 = Inr 96" unfolding raw
    using read_offset_abi [of 96 "[]" 0] by simp
  moreover have "read_offset ?raw 1 = Inr ?bo" unfolding raw
    using read_offset_abi [of ?bo "abi_word 96" 1] assms(2) by (simp add: mod_add_eq)
  moreover have "length (abi_array ?T) = 32 + 32 * length ps"
    unfolding abi_array_def using assms(4)
    by (subst length_append, subst length_concat_words) (auto simp: list_all_iff abi_address_def)
  then have "zip_tokens_balances ?raw (length (abi_word 96 @ abi_word ?bo @ last_change))
      (length (abi_word 96 @ abi_word ?bo @ last_change @ abi_array ?T)) = Inr (map (\<lambda>(a, b). (''0x'' @ bytes_hex a, b)) ps)"
    using assms by (intro zip_tokens_balances_abi) (auto simp: raw)
  ultimately show ?thesis
    using assms(3) \<open>length (abi_array ?T) = _\<close>
    by (simp add: decode_balancer_v2_pool_tokens_def raw)
qed

lemma decode_v3_abi:
  assumes "ps \<noteq> []" "64 * length ps + length info + 256 < 2 ^ 256" "length info mod 32 = 0"
    "list_all (\<lambda>(a, b). length a = 20 \<and> 0 \<le> b \<and> b < 2 ^ 256) ps"
  shows "decode_balancer_v3_pool_token_info (abi_pool_token_info ps info scaled)
    = Inr (map (\<lambda>(a, b). (''0x'' @ bytes_hex a, b)) ps)"
proof -
  let ?T = "map (abi_address \<circ> fst) ps" and ?B = "map (to_bytes 32 \<circ> snd) ps"
  let ?io = "160 + 32 * length ps"
  let ?ro = "?io + length info"
  let ?so = "?ro + 32 + 32 * length ps"
  let ?raw = "abi_pool_token_info ps info scaled"
  let ?head = "abi_word 128 @ abi_word ?io @ abi_word ?ro @ abi_word ?so"
  have raw: "?raw = ?head @ abi_array ?T @ info @ abi_array ?B @ scaled"
    by (simp add: abi_pool_token_info_def Let_def)
  have "read_offset ?raw 0 = Inr 128" unfolding raw
    using read_offset_abi [of 128 "[]" 0] by simp
  moreover have "?ro mod 32 = 0" using assms(3) by presburger
  then have "read_offset ?raw 2 = Inr ?ro" unfolding raw
    using read_offset_abi [of ?ro "abi_word 128 @ abi_word ?io" 2] assms(2) by simp
  moreover have lT: "length (abi_array ?T) = 32 + 32 * length ps"
    unfolding abi_array_def using assms(4)
    by (subst length_append, subst length_concat_words) (auto simp: list_all_iff abi_address_def)
  then have "zip_tokens_balances ?raw (length ?head)
      (length (?head @ abi_array ?T @ info)) = Inr (map (\<lambda>(a, b). (''0x'' @ bytes_hex a, b)) ps)"
    using assms by (intro zip_tokens_balances_abi) (auto simp: raw)
  ultimately show ?thesis using lT
    by (simp add: decode_balancer_v3_pool_token_info_def raw add.assoc)
qed

subsection \<open>Properties\<close>

text \<open>
  Failure and zero are never conflated. \<open>decode_uint256\<close> always builds an observation
  its constructor accepts, and it carries a value exactly when the call succeeded and
  returned exactly one 32-byte word, which is then the number that word encodes; every other
  return (revert, empty, short, long, not hexadecimal) is a failed observation without a value.
\<close>

theorem decode_uint256_strict:
  "valid_observation (decode_uint256 success r) \<and>
   (obs_value (decode_uint256 success r) = Some v \<longleftrightarrow>
     success \<and> (\<exists>raw. returndata_bytes r = Inr raw \<and> length raw = 32 \<and> v = from_bytes raw))"
  using decode_uint256_value_iff by simp

text \<open>
  Signed decoding is the exact inverse of signed encoding, at every width and on
  every 32-byte word: \<open>_decode_int\<close> returns \<open>v\<close> if and only if \<open>v\<close> is in the range of
  \<open>int<bits>\<close> and the word is the sign-extended two's complement that \<open>signed_word\<close> writes for
  it. In particular no word with a wrong sign extension decodes.
\<close>

theorem decode_int_signed_word:
  assumes "0 < bits" and "bits \<le> 256" and "length w = 32"
  shows "decode_int w bits = Inr v \<longleftrightarrow> signed_word v bits = Inr w"
  using assms by (rule decode_int_iff)

theorem decode_int_signed_word_witness:
  "length (replicate 31 0xff @ [0xfe :: byte]) = 32
   \<and> (decode_int (replicate 31 0xff @ [0xfe]) 24 = Inr (- 2)
      \<longleftrightarrow> signed_word (- 2) 24 = Inr (replicate 31 0xff @ [0xfe]))"
  using decode_int_signed_word [of 24 "replicate 31 0xff @ [0xfe]" "- 2"] by simp

text \<open>
  The positions \<open>decode_bitmap_word\<close> returns are strictly increasing, below 256, and
  determine the word: the powers of two at those positions add up to the number the 32 bytes
  encode, so no initialised tick is dropped or invented.
\<close>

theorem decode_bitmap_word_exact:
  assumes "decode_bitmap_word r = Inr bs"
  shows "length r = 32 \<and> sorted_wrt (<) bs \<and> (\<forall>b. b \<in> set bs \<longrightarrow> b < 256)
    \<and> sum_list (map ((^) 2) bs) = from_bytes r"
proof -
  from assms have len: "length r = 32" and bs: "bs = filter (bit (from_bytes r)) [0..<256]"
    by (simp_all add: decode_bitmap_word_Inr)
  have "sum_list (map ((^) 2) bs) = from_bytes r"
    unfolding bs using from_bytes_32 [OF len] by (intro bits_sum) auto
  moreover have "sorted_wrt (<) bs" unfolding bs by (rule sorted_wrt_filter) simp
  ultimately show ?thesis using len bs by auto
qed

theorem decode_bitmap_word_exact_witness:
  "decode_bitmap_word (replicate 31 0 @ [5]) = Inr [0, 2]
   \<and> sum_list (map ((^) 2) [0, 2]) = from_bytes (replicate 31 0 @ [5 :: byte])"
proof -
  have "decode_bitmap_word (replicate 31 0 @ [5]) = Inr [0, 2]" by code_simp
  then show ?thesis using decode_bitmap_word_exact [of "replicate 31 0 @ [5]" "[0, 2]"] by simp
qed

text \<open>
  C27: the two Vault decoders invert the ABI encoding. For every non-empty pool (20-byte
  token addresses and uint256 balances), decoding the V2 \<open>getPoolTokens\<close> return and the V3
  \<open>getPoolTokenInfo\<close> return, whatever V3 puts in the two arrays the decoder skips, yields
  exactly the pool's tokens with their balances, in order.
\<close>

theorem balancer_decoders_invert_abi:
  assumes "ps \<noteq> []" and "64 * length ps + length info + 256 < 2 ^ 256"
    and "length info mod 32 = 0" and "length last_change = 32"
    and "list_all (\<lambda>(a, b). length a = 20 \<and> 0 \<le> b \<and> b < 2 ^ 256) ps"
  shows "decode_balancer_v2_pool_tokens (abi_pool_tokens ps last_change)
           = Inr (map (\<lambda>(a, b). (''0x'' @ bytes_hex a, b)) ps)
       \<and> decode_balancer_v3_pool_token_info (abi_pool_token_info ps info scaled)
           = Inr (map (\<lambda>(a, b). (''0x'' @ bytes_hex a, b)) ps)"
proof -
  from assms(2) have len: "32 * length ps + 128 < 2 ^ 256" by linarith
  show ?thesis
    using decode_v2_abi [OF assms(1) len assms(4,5)] decode_v3_abi [OF assms(1,2,3,5)] by (rule conjI)
qed

theorem balancer_decoders_invert_abi_witness:
  "decode_balancer_v2_pool_tokens (abi_pool_tokens [(replicate 20 0x11, 7)] (replicate 32 0))
     = Inr [(''0x'' @ bytes_hex (replicate 20 0x11), 7)]"
  using balancer_decoders_invert_abi
    [of "[(replicate 20 0x11, 7)]" "[]" "replicate 32 0" "[]"] by simp

end
