(* ===== verification/Rpc.thy ===== *)
theory Rpc
  imports Sha256
begin

text \<open>
  The JSON-RPC layer: endpoint state and rate gate (\<open>rpc/endpoint.py\<close>), the endpoint pool
  (\<open>rpc/endpoint_pool.py\<close>), failure classification (\<open>rpc/classification.py\<close>) and the client
  with bounded retries and failover (\<open>rpc/client.py\<close>).

  The outside world is the parameter record \<open>'w env\<close>: \<open>time.monotonic\<close>, \<open>asyncio.sleep\<close> and
  one HTTP POST. Floats are exact rationals. An endpoint object is identified by its name,
  which the pool's constructor makes unique; the model follows one task, so the locks of the
  code, which only serialise tasks, have no counterpart.
\<close>

subsection \<open>Float text\<close>

datatype pyfloat = Finite rat | PosInf | NegInf | NaN

definition is_digit :: "char \<Rightarrow> bool" where
  "is_digit c \<longleftrightarrow> 48 \<le> char_nat c \<and> char_nat c \<le> 57"

definition digits_val :: "string \<Rightarrow> int" where
  "digits_val s = foldl (\<lambda>a c. 10 * a + (int (char_nat c) - 48)) 0 s"

definition scale10 :: "rat \<Rightarrow> int \<Rightarrow> rat" where
  "scale10 m e = (if e \<ge> 0 then m * 10 ^ nat e else m / 10 ^ nat (- e))"

definition parse_exponent :: "string \<Rightarrow> int option" where
  "parse_exponent s =
     (case s of
        [] \<Rightarrow> None
      | c # r \<Rightarrow>
          let (neg, ds) = (if c = CHR ''-'' then (True, r) else if c = CHR ''+'' then (False, r)
                           else (False, s)) in
          if ds = [] \<or> \<not> list_all is_digit ds then None
          else Some (if neg then - digits_val ds else digits_val ds))"

definition parse_unsigned :: "string \<Rightarrow> pyfloat option" where
  "parse_unsigned s =
     (if str_lower s \<in> {''inf'', ''infinity''} then Some PosInf
      else if str_lower s = ''nan'' then Some NaN
      else let ip = takeWhile is_digit s; r = dropWhile is_digit s;
               (fp, r2) = (case r of c # r' \<Rightarrow>
                   if c = CHR ''.'' then (takeWhile is_digit r', dropWhile is_digit r') else ([], r)
                 | [] \<Rightarrow> ([], []));
               mant = of_int (digits_val (ip @ fp)) / 10 ^ length fp in
      if ip = [] \<and> fp = [] then None
      else case r2 of
             [] \<Rightarrow> Some (Finite mant)
           | c # r3 \<Rightarrow>
               if lower_char c = CHR ''e''
               then map_option (\<lambda>e. Finite (scale10 mant e)) (parse_exponent r3) else None)"

definition strip_space :: "string \<Rightarrow> string" where
  "strip_space s = rev (dropWhile is_space (rev (dropWhile is_space s)))"

fun float_neg :: "pyfloat \<Rightarrow> pyfloat" where
  "float_neg (Finite x) = Finite (- x)"
| "float_neg PosInf = NegInf"
| "float_neg NegInf = PosInf"
| "float_neg NaN = NaN"

text \<open>\<open>float(text)\<close>; \<open>None\<close> is the \<open>ValueError\<close>. Digit-group underscores are not accepted.\<close>

definition py_float :: "string \<Rightarrow> pyfloat option" where
  "py_float text =
     (case strip_space text of
        [] \<Rightarrow> None
      | c # r \<Rightarrow>
          if c = CHR ''-'' then map_option float_neg (parse_unsigned r)
          else if c = CHR ''+'' then parse_unsigned r
          else parse_unsigned (c # r))"

subsection \<open>The world\<close>

datatype http_outcome =
    Response (resp_status: int) (resp_reason: string) (resp_retry_after: "string option")
      (resp_json: "json option")
  | TimedOut
  | NetworkFailed
  | PostRaised exn

record 'w env =
  monotonic :: "'w \<Rightarrow> rat \<times> 'w"
  sleep :: "rat \<Rightarrow> 'w \<Rightarrow> 'w"
  http_post :: "string \<Rightarrow> json \<Rightarrow> 'w \<Rightarrow> http_outcome \<times> 'w"

subsection \<open>Endpoints\<close>

record rpc_endpoint =
  ep_name :: string
  ep_url :: string
  ep_provider_group :: string
  ep_requests_per_second :: rat
  ep_supports_http_batch :: bool
  ep_supports_eip1898 :: bool
  ep_archive_from_block :: "int option"
  ep_has_client :: bool
  ep_healthy :: bool
  ep_consecutive_failures :: nat
  ep_cooldown_until :: rat
  ep_archive_unavailable_through :: "int option"
  ep_next_at :: rat

record 'w rpc_state =
  st_endpoints :: "rpc_endpoint list"
  st_cursor :: nat
  st_request_id :: int
  st_world :: 'w

type_synonym ('w, 'a) rpc = "('w rpc_state, 'a) io"

definition now :: "'w env \<Rightarrow> ('w, rat) rpc" where
  "now env = (\<lambda>s. case monotonic env (st_world s) of (t, w) \<Rightarrow> (Inr t, s\<lparr>st_world := w\<rparr>))"

definition pause :: "'w env \<Rightarrow> rat \<Rightarrow> ('w, unit) rpc" where
  "pause env d = (\<lambda>s. (Inr (), s\<lparr>st_world := sleep env d (st_world s)\<rparr>))"

text \<open>Assignment to the fields of the endpoint object called \<open>name\<close>.\<close>

definition update_endpoint :: "string \<Rightarrow> (rpc_endpoint \<Rightarrow> rpc_endpoint) \<Rightarrow> ('w, unit) rpc" where
  "update_endpoint name f = (\<lambda>s.
     (Inr (), s\<lparr>st_endpoints := map (\<lambda>e. if ep_name e = name then f e else e) (st_endpoints s)\<rparr>))"

definition endpoint_named :: "string \<Rightarrow> rpc_endpoint list \<Rightarrow> rpc_endpoint option" where
  "endpoint_named name es = List.find (\<lambda>e. ep_name e = name) es"

text \<open>\<open>AsyncRateGate.wait\<close> on the endpoint's gate.\<close>

definition throttle :: "'w env \<Rightarrow> rpc_endpoint \<Rightarrow> ('w, unit) rpc" where
  "throttle env endpoint =
     bind_io (now env) (\<lambda>t s.
       let next_at = (case endpoint_named (ep_name endpoint) (st_endpoints s) of
                        Some e \<Rightarrow> ep_next_at e | None \<Rightarrow> ep_next_at endpoint);
           delay = max 0 (next_at - t) in
       bind_io (if delay \<noteq> 0 then pause env delay else ret ()) (\<lambda>_.
         update_endpoint (ep_name endpoint)
           (\<lambda>e. e\<lparr>ep_next_at := max t next_at + 1 / ep_requests_per_second e\<rparr>)) s)"

definition can_serve_block :: "rpc_endpoint \<Rightarrow> int option \<Rightarrow> bool" where
  "can_serve_block endpoint historical_block =
     (case historical_block of
        None \<Rightarrow> True
      | Some b \<Rightarrow>
          (case ep_archive_from_block endpoint of Some a \<Rightarrow> \<not> b < a | None \<Rightarrow> True)
          \<and> (case ep_archive_unavailable_through endpoint of Some u \<Rightarrow> \<not> b \<le> u | None \<Rightarrow> True))"

definition can_serve :: "'w env \<Rightarrow> rpc_endpoint \<Rightarrow> int option \<Rightarrow> ('w, bool) rpc" where
  "can_serve env endpoint historical_block =
     (if \<not> ep_healthy endpoint
      then bind_io (now env) (\<lambda>t.
             if t < ep_cooldown_until endpoint then ret False
             else ret (can_serve_block endpoint historical_block))
      else ret (can_serve_block endpoint historical_block))"

subsection \<open>The fingerprint\<close>

text \<open>\<open>urllib.parse.urlsplit\<close> as far as scheme, host name and port are concerned.\<close>

definition is_scheme_char :: "char \<Rightarrow> bool" where
  "is_scheme_char c \<longleftrightarrow> (let n = char_nat (lower_char c) in
     97 \<le> n \<and> n \<le> 122 \<or> is_digit c \<or> c \<in> {CHR ''+'', CHR ''-'', CHR ''.''})"

definition is_letter :: "char \<Rightarrow> bool" where
  "is_letter c \<longleftrightarrow> (let n = char_nat (lower_char c) in 97 \<le> n \<and> n \<le> 122)"

definition url_clean :: "string \<Rightarrow> string" where
  "url_clean url =
     filter (\<lambda>c. char_nat c \<notin> {9, 10, 13}) (dropWhile (\<lambda>c. char_nat c \<le> 32) url)"

definition url_scheme_rest :: "string \<Rightarrow> string \<times> string" where
  "url_scheme_rest url =
     (let s = takeWhile (\<lambda>c. c \<noteq> CHR '':'') url; r = dropWhile (\<lambda>c. c \<noteq> CHR '':'') url in
      if r \<noteq> [] \<and> s \<noteq> [] \<and> is_letter (hd s) \<and> list_all is_scheme_char s
      then (str_lower s, tl r) else ([], url))"

definition url_netloc :: "string \<Rightarrow> string" where
  "url_netloc rest =
     (if take 2 rest = ''//''
      then takeWhile (\<lambda>c. c \<notin> {CHR ''/'', CHR ''?'', CHR ''#''}) (drop 2 rest) else [])"

definition after_last :: "char \<Rightarrow> string \<Rightarrow> string" where
  "after_last c s = rev (takeWhile (\<lambda>d. d \<noteq> c) (rev s))"

definition before_first :: "char \<Rightarrow> string \<Rightarrow> string" where
  "before_first c s = takeWhile (\<lambda>d. d \<noteq> c) s"

definition after_first :: "char \<Rightarrow> string \<Rightarrow> string" where
  "after_first c s = tl (dropWhile (\<lambda>d. d \<noteq> c) s)"

definition url_hostport :: "string \<Rightarrow> string \<times> string" where
  "url_hostport netloc =
     (let hostinfo = after_last (CHR ''@'') netloc in
      if CHR ''['' \<in> set hostinfo
      then let bracketed = after_first (CHR ''['') hostinfo in
           (before_first (CHR '']'') bracketed,
            after_first (CHR '':'') (after_first (CHR '']'') bracketed))
      else (before_first (CHR '':'') hostinfo, after_first (CHR '':'') hostinfo))"

text \<open>
  \<open>RpcEndpoint.fingerprint\<close>; a port that is not a decimal number below 65536 raises. The text
  hashed holds neither user information nor path nor query.
\<close>

definition sanitized_url :: "string \<Rightarrow> string res" where
  "sanitized_url url =
     (let (scheme, rest) = url_scheme_rest (url_clean url);
          (host, port) = url_hostport (url_netloc rest) in
      if port = [] then Inr (scheme @ ''://'' @ str_lower host @ '':'')
      else if \<not> list_all is_digit port
      then raise_res ValueError (''Port could not be cast to integer value as '' @ repr_str port)
      else if digits_val port > 65535 then raise_res ValueError ''Port out of range 0-65535''
      else Inr (scheme @ ''://'' @ str_lower host @ '':'' @
                (if digits_val port = 0 then [] else py_int (digits_val port))))"

definition fingerprint :: "rpc_endpoint \<Rightarrow> string res" where
  "fingerprint endpoint =
     bind_res (sanitized_url (ep_url endpoint)) (\<lambda>text. Inr (sha256_hex (utf8 text)))"

subsection \<open>The pool\<close>

definition mk_pool :: "rpc_endpoint list \<Rightarrow> 'w \<Rightarrow> 'w rpc_state res" where
  "mk_pool endpoints w =
     (if endpoints = [] then raise_res ValueError ''at least one RPC endpoint is required''
      else if \<not> distinct (map ep_name endpoints)
      then raise_res ValueError ''RPC endpoint names must be unique''
      else Inr \<lparr>st_endpoints = endpoints, st_cursor = 0, st_request_id = 0, st_world = w\<rparr>)"

text \<open>The loop of \<open>EndpointPool.select\<close> over the remaining offsets.\<close>

fun select_loop ::
  "'w env \<Rightarrow> int option \<Rightarrow> bool \<Rightarrow> string list \<Rightarrow> nat list \<Rightarrow> ('w, rpc_endpoint) rpc" where
  "select_loop env historical_block require_eip1898 exclude [] =
     raise (Exn RpcNoHealthyEndpoint ''no RPC endpoint can serve the request'')"
| "select_loop env historical_block require_eip1898 exclude (offset # offsets) = (\<lambda>s.
     let count = length (st_endpoints s);
         index = (st_cursor s + offset) mod count;
         endpoint = st_endpoints s ! index;
         next_offset = select_loop env historical_block require_eip1898 exclude offsets in
     if ep_name endpoint \<in> set exclude then next_offset s
     else if require_eip1898 \<and> \<not> ep_supports_eip1898 endpoint then next_offset s
     else bind_io (can_serve env endpoint historical_block) (\<lambda>ok.
            if \<not> ok then next_offset
            else (\<lambda>s1. (Inr endpoint, s1\<lparr>st_cursor := (index + 1) mod count\<rparr>))) s)"

definition select ::
  "'w env \<Rightarrow> int option \<Rightarrow> bool \<Rightarrow> string list \<Rightarrow> ('w, rpc_endpoint) rpc" where
  "select env historical_block require_eip1898 exclude = (\<lambda>s.
     select_loop env historical_block require_eip1898 exclude [0..<length (st_endpoints s)] s)"

text \<open>The loop of \<open>select_distinct_groups\<close>: the endpoints left, those selected, their groups.\<close>

fun distinct_loop ::
  "'w env \<Rightarrow> nat \<Rightarrow> int option \<Rightarrow> rpc_endpoint list \<Rightarrow> rpc_endpoint list \<Rightarrow> string list
   \<Rightarrow> ('w, rpc_endpoint list) rpc" where
  "distinct_loop env needed historical_block [] selected groups =
     raise (Exn RpcNoHealthyEndpoint
       (''need '' @ py_int (int needed) @ '' healthy distinct provider groups; found '' @
        py_int (int (length selected))))"
| "distinct_loop env needed historical_block (endpoint # rest) selected groups =
     (if ep_provider_group endpoint \<in> set groups
      then distinct_loop env needed historical_block rest selected groups
      else bind_io (can_serve env endpoint historical_block) (\<lambda>ok.
        if \<not> ok then distinct_loop env needed historical_block rest selected groups
        else let selected' = selected @ [endpoint];
                 groups' = ep_provider_group endpoint # groups in
        if length selected' = needed then ret selected'
        else distinct_loop env needed historical_block rest selected' groups'))"

definition select_distinct_groups ::
  "'w env \<Rightarrow> int \<Rightarrow> int option \<Rightarrow> ('w, rpc_endpoint list) rpc" where
  "select_distinct_groups env needed historical_block = (\<lambda>s.
     if needed < 1 then (raise_res ValueError ''quorum count must be positive'', s)
     else distinct_loop env (nat needed) historical_block (st_endpoints s) [] [] s)"

definition record_success :: "rpc_endpoint \<Rightarrow> ('w, unit) rpc" where
  "record_success endpoint =
     update_endpoint (ep_name endpoint)
       (\<lambda>e. e\<lparr>ep_healthy := True, ep_consecutive_failures := 0, ep_cooldown_until := 0\<rparr>)"

definition mark_failure :: "int option \<Rightarrow> bool \<Rightarrow> rpc_endpoint \<Rightarrow> rpc_endpoint" where
  "mark_failure historical_block archive_unavailable e =
     (let e' = e\<lparr>ep_consecutive_failures := ep_consecutive_failures e + 1\<rparr> in
      case historical_block of
        Some b \<Rightarrow>
          if archive_unavailable
          then e'\<lparr>ep_archive_unavailable_through :=
                 Some (max (case ep_archive_unavailable_through e of None \<Rightarrow> 0 | Some u \<Rightarrow> u) b)\<rparr>
          else e'
      | None \<Rightarrow> e')"

definition cooldown_delay :: "nat \<Rightarrow> rat" where
  "cooldown_delay failures = min 60 (2 ^ min failures 6)"

definition record_failure ::
  "'w env \<Rightarrow> rpc_endpoint \<Rightarrow> bool \<Rightarrow> int option \<Rightarrow> bool \<Rightarrow> ('w, unit) rpc" where
  "record_failure env endpoint failover historical_block archive_unavailable =
     bind_io (update_endpoint (ep_name endpoint) (mark_failure historical_block archive_unavailable))
       (\<lambda>_. if failover
         then bind_io (now env) (\<lambda>t. update_endpoint (ep_name endpoint)
                (\<lambda>e. e\<lparr>ep_healthy := False,
                       ep_cooldown_until := t + cooldown_delay (ep_consecutive_failures e)\<rparr>))
         else ret ())"

subsection \<open>Failure classification\<close>

datatype failure_kind =
    TRANSIENT | RATE_LIMIT | ARCHIVE_UNAVAILABLE | PROVIDER_LIMIT | EXECUTION_REVERT | PERMANENT

record rpc_failure =
  rf_kind :: failure_kind
  rf_retryable :: bool
  rf_failover :: bool
  rf_retry_after :: "rat option"

definition rpc_failure_of :: "failure_kind \<Rightarrow> bool \<Rightarrow> bool \<Rightarrow> rat option \<Rightarrow> rpc_failure" where
  "rpc_failure_of k retryable failover after =
     \<lparr>rf_kind = k, rf_retryable = retryable, rf_failover = failover, rf_retry_after = after\<rparr>"

definition ARCHIVE_MARKERS :: "string list" where
  "ARCHIVE_MARKERS =
     [''missing trie node'', ''historical state unavailable'', ''state is not available'',
      ''state unavailable'', ''pruned'', ''required historical state'']"

definition LIMIT_MARKERS :: "string list" where
  "LIMIT_MARKERS =
     [''query returned more than'', ''exceeds max results'', ''too many results'',
      ''too many logs'', ''max logs per response'', ''response size exceeded'',
      ''request entity too large'', ''block range is too wide'', ''block range too wide'',
      ''please limit'', ''limit exceeded'', ''request timed out'', ''out of gas'',
      ''gas required exceeds'']"

definition LIMIT_CODES :: "int list" where
  "LIMIT_CODES = [- 32005, - 32016]"

definition REVERT_MARKERS :: "string list" where
  "REVERT_MARKERS = [''execution reverted'', ''revert'']"

definition exn_message :: "exn \<Rightarrow> string" where
  "exn_message exc =
     str_lower (case exc of
        ResponseExn code message data \<Rightarrow>
          if data = JNull then exn_str exc else exn_str exc @ '' '' @ py_str data
      | _ \<Rightarrow> exn_str exc)"

definition any_marker :: "string list \<Rightarrow> string \<Rightarrow> bool" where
  "any_marker markers message = list_ex (\<lambda>m. contains message m) markers"

definition classify_http :: "int \<Rightarrow> rat option \<Rightarrow> rpc_failure" where
  "classify_http status_code retry_after =
     (if status_code = 429 then rpc_failure_of RATE_LIMIT True True retry_after
      else if status_code \<in> {408, 425, 500, 502, 503, 504}
      then rpc_failure_of TRANSIENT True True retry_after
      else if status_code = 413 then rpc_failure_of PROVIDER_LIMIT False False None
      else rpc_failure_of PERMANENT False False None)"

definition exn_code_in :: "exn \<Rightarrow> int list \<Rightarrow> bool" where
  "exn_code_in exc codes = (case exc of ResponseExn code _ _ \<Rightarrow> code \<in> set codes | _ \<Rightarrow> False)"

definition classify_rpc_failure :: "exn \<Rightarrow> rpc_failure" where
  "classify_rpc_failure exc =
     (if isinstance exc ArchiveStateUnavailable
      then rpc_failure_of ARCHIVE_UNAVAILABLE False True None
      else if isinstance exc RpcProviderLimit
      then rpc_failure_of PROVIDER_LIMIT False False None
      else case exc of HttpExn status_code _ retry_after \<Rightarrow> classify_http status_code retry_after
      | _ \<Rightarrow>
      if isinstance exc HttpxTimeoutException \<or> isinstance exc HttpxNetworkError
         \<or> isinstance exc RpcTransportError \<or> isinstance exc RpcProtocolError
      then rpc_failure_of TRANSIENT True True None
      else let message = exn_message exc in
      if any_marker ARCHIVE_MARKERS message
      then rpc_failure_of ARCHIVE_UNAVAILABLE False True None
      else if any_marker LIMIT_MARKERS message
      then rpc_failure_of PROVIDER_LIMIT False False None
      else if isinstance exc RpcResponseError \<and> exn_code_in exc LIMIT_CODES
      then rpc_failure_of PROVIDER_LIMIT False False None
      else if isinstance exc RpcResponseError \<and> any_marker REVERT_MARKERS message
      then rpc_failure_of EXECUTION_REVERT False False None
      else rpc_failure_of PERMANENT False False None)"

definition normalize_rpc_error :: "exn \<Rightarrow> exn" where
  "normalize_rpc_error exc =
     (let failure = classify_rpc_failure exc in
      if rf_kind failure = ARCHIVE_UNAVAILABLE then Exn ArchiveStateUnavailable (exn_str exc)
      else if rf_kind failure = PROVIDER_LIMIT then Exn RpcProviderLimit (exn_str exc)
      else exc)"

subsection \<open>The client\<close>

record client_config =
  cc_max_retries :: nat
  cc_retry_base_seconds :: rat

definition retry_after_seconds :: "string option \<Rightarrow> rat option" where
  "retry_after_seconds header =
     (case header of
        None \<Rightarrow> None
      | Some raw \<Rightarrow>
          (case py_float raw of
             None \<Rightarrow> None
           | Some (Finite x) \<Rightarrow> Some (max 0 (min 60 x))
           | Some PosInf \<Rightarrow> Some 60
           | Some NegInf \<Rightarrow> Some 0
           | Some NaN \<Rightarrow> Some 60))"

definition next_id :: "('w, int) rpc" where
  "next_id = (\<lambda>s. (Inr (st_request_id s + 1), s\<lparr>st_request_id := st_request_id s + 1\<rparr>))"

definition read_response :: "rpc_endpoint \<Rightarrow> http_outcome \<Rightarrow> json res" where
  "read_response endpoint outcome =
     (case outcome of
        TimedOut \<Rightarrow> raise_res RpcTransportError (''endpoint '' @ ep_name endpoint @ '' transport failure'')
      | NetworkFailed \<Rightarrow> raise_res RpcTransportError (''endpoint '' @ ep_name endpoint @ '' transport failure'')
      | PostRaised e \<Rightarrow> Inl e
      | Response status reason after body \<Rightarrow>
          if status < 200 \<or> status \<ge> 300 then Inl (HttpExn status reason (retry_after_seconds after))
          else case body of
                 None \<Rightarrow> raise_res RpcProtocolError (''endpoint '' @ ep_name endpoint @ '' returned invalid JSON'')
               | Some j \<Rightarrow> Inr j)"

definition post :: "'w env \<Rightarrow> rpc_endpoint \<Rightarrow> json \<Rightarrow> ('w, json) rpc" where
  "post env endpoint payload =
     bind_io (throttle env endpoint) (\<lambda>_ s.
       if \<not> ep_has_client endpoint
       then (raise_res RpcTransportError (''endpoint '' @ ep_name endpoint @ '' has no HTTP client''), s)
       else case http_post env (ep_url endpoint) payload (st_world s) of
              (outcome, w) \<Rightarrow> (read_response endpoint outcome, s\<lparr>st_world := w\<rparr>))"

text \<open>Python's \<open>==\<close> between a decoded JSON value and an integer (\<open>True == 1\<close>, \<open>1.0 == 1\<close>).\<close>

definition json_eq_int :: "json \<Rightarrow> int \<Rightarrow> bool" where
  "json_eq_int j n =
     (case j of
        JInt i \<Rightarrow> i = n
      | JBool b \<Rightarrow> (if b then 1 else 0) = n
      | JFloat t \<Rightarrow> py_float t = Some (Finite (of_int n))
      | _ \<Rightarrow> False)"

definition request_payload :: "int \<Rightarrow> string \<Rightarrow> json list \<Rightarrow> json" where
  "request_payload request_id method params =
     JObj [(''jsonrpc'', JStr ''2.0''), (''id'', JInt request_id), (''method'', JStr method),
           (''params'', JArr params)]"

definition response_error :: "json \<Rightarrow> exn" where
  "response_error error =
     (case error of
        JObj kvs \<Rightarrow>
          (case (obj_get kvs ''code'', obj_get kvs ''message'') of
             (JInt code, JStr message) \<Rightarrow> ResponseExn code message (obj_get kvs ''data'')
           | _ \<Rightarrow> Exn RpcProtocolError ''malformed JSON-RPC error'')
      | _ \<Rightarrow> Exn RpcProtocolError ''JSON-RPC error must be an object'')"

text \<open>What \<open>call_on_endpoint\<close> makes of the body of a response to request \<open>request_id\<close>.\<close>

definition read_body :: "int \<Rightarrow> json \<Rightarrow> json res" where
  "read_body request_id body =
     (case body of
        JObj kvs \<Rightarrow>
          (case obj_get kvs ''jsonrpc'' of
             JArr _ \<Rightarrow> raise_res TypeError (''unhashable type: '' @ repr_str ''list'')
           | JObj _ \<Rightarrow> raise_res TypeError (''unhashable type: '' @ repr_str ''dict'')
           | version \<Rightarrow>
             if version \<noteq> JNull \<and> version \<noteq> JStr ''2.0''
             then raise_res RpcProtocolError ''unexpected JSON-RPC version''
             else if \<not> json_eq_int (obj_get kvs ''id'') request_id
             then raise_res RpcProtocolError ''JSON-RPC response ID mismatch''
             else if obj_get kvs ''error'' \<noteq> JNull then Inl (response_error (obj_get kvs ''error''))
             else if \<not> obj_has kvs ''result''
             then raise_res RpcProtocolError ''JSON-RPC response has neither result nor error''
             else Inr (obj_get kvs ''result''))
      | _ \<Rightarrow> raise_res RpcProtocolError ''single JSON-RPC response must be an object'')"

definition call_on_endpoint ::
  "'w env \<Rightarrow> rpc_endpoint \<Rightarrow> string \<Rightarrow> json list \<Rightarrow> ('w, json) rpc" where
  "call_on_endpoint env endpoint method params =
     bind_io next_id (\<lambda>request_id.
     bind_io (post env endpoint (request_payload request_id method params)) (\<lambda>body.
       lift_res (read_body request_id body)))"

definition is_obj :: "json \<Rightarrow> bool" where
  "is_obj j = (case j of JObj _ \<Rightarrow> True | _ \<Rightarrow> False)"

definition batch_on_endpoint ::
  "'w env \<Rightarrow> rpc_endpoint \<Rightarrow> json list \<Rightarrow> ('w, json list) rpc" where
  "batch_on_endpoint env endpoint requests =
     (if requests = [] then ret []
      else bind_io (post env endpoint (JArr requests)) (\<lambda>body.
        case body of
          JArr items \<Rightarrow>
            if \<not> list_all is_obj items
            then raise (Exn RpcProtocolError ''JSON-RPC batch entries must be objects'')
            else ret items
        | _ \<Rightarrow> raise (Exn RpcProtocolError ''JSON-RPC batch response must be an array'')))"

definition retry_delay :: "client_config \<Rightarrow> rpc_failure \<Rightarrow> nat \<Rightarrow> rat" where
  "retry_delay cfg failure attempt =
     (case rf_retry_after failure of
        Some d \<Rightarrow> d
      | None \<Rightarrow> min 10 (cc_retry_base_seconds cfg * 2 ^ attempt))"

definition exhausted :: "string \<Rightarrow> exn option \<Rightarrow> exn" where
  "exhausted method last_error =
     (case last_error of
        Some e \<Rightarrow> if isinstance e ArchiveStateUnavailable then e
                  else Exn RpcAttemptsExhausted (method @ '' exhausted RPC endpoints'')
      | None \<Rightarrow> Exn RpcAttemptsExhausted (method @ '' exhausted RPC endpoints''))"

text \<open>
  The loop of \<open>AsyncRpcClient.call\<close>: \<open>fuel\<close> counts the attempts left of
  \<open>range(max_retries)\<close>, \<open>attempt\<close> the current index.
\<close>

fun call_loop ::
  "'w env \<Rightarrow> client_config \<Rightarrow> string \<Rightarrow> json list \<Rightarrow> int option \<Rightarrow> bool
   \<Rightarrow> nat \<Rightarrow> nat \<Rightarrow> string list \<Rightarrow> exn option \<Rightarrow> ('w, json \<times> rpc_endpoint) rpc" where
  "call_loop env cfg method params hb eip attempt 0 excluded last_error =
     raise (exhausted method last_error)"
| "call_loop env cfg method params hb eip attempt (Suc fuel) excluded last_error = (\<lambda>s.
     case select env hb eip excluded s of
       (Inl e, s1) \<Rightarrow> (Inl (exhausted method (Some e)), s1)
     | (Inr endpoint, s1) \<Rightarrow>
         (case call_on_endpoint env endpoint method params s1 of
            (Inr result, s2) \<Rightarrow> bind_io (record_success endpoint) (\<lambda>_. ret (result, endpoint)) s2
          | (Inl exc, s2) \<Rightarrow>
              let normalized = normalize_rpc_error exc;
                  failure = classify_rpc_failure normalized;
                  excluded' = (if rf_failover failure then ep_name endpoint # excluded else excluded);
                  delay = retry_delay cfg failure attempt in
              bind_io (record_failure env endpoint (rf_failover failure) hb
                         (rf_kind failure = ARCHIVE_UNAVAILABLE)) (\<lambda>_.
                if \<not> rf_retryable failure \<and> \<not> rf_failover failure then raise normalized
                else bind_io (if delay \<noteq> 0 then pause env delay else ret ()) (\<lambda>_.
                  call_loop env cfg method params hb eip (attempt + 1) fuel excluded'
                    (Some normalized))) s2))"

definition call ::
  "'w env \<Rightarrow> client_config \<Rightarrow> string \<Rightarrow> json list \<Rightarrow> int option \<Rightarrow> bool
   \<Rightarrow> ('w, json \<times> rpc_endpoint) rpc" where
  "call env cfg method params historical_block require_eip1898 =
     call_loop env cfg method params historical_block require_eip1898 0 (cc_max_retries cfg) [] None"

subsection \<open>Lemmas: frames\<close>

text \<open>
  \<open>static\<close> is the configured part of an endpoint. \<open>pool_frame k\<close> says that a step left every
  endpoint's configuration alone and issued \<open>k\<close> request identifiers; \<open>pool_ok\<close> is the pool's
  invariant.
\<close>

definition static ::
  "rpc_endpoint \<Rightarrow> string \<times> string \<times> string \<times> rat \<times> bool \<times> bool \<times> int option \<times> bool" where
  "static e = (ep_name e, ep_url e, ep_provider_group e, ep_requests_per_second e,
     ep_supports_http_batch e, ep_supports_eip1898 e, ep_archive_from_block e, ep_has_client e)"

definition pool_ok :: "'w rpc_state \<Rightarrow> bool" where
  "pool_ok s \<longleftrightarrow> distinct (map ep_name (st_endpoints s)) \<and> st_cursor s < length (st_endpoints s)"

definition pool_frame :: "int \<Rightarrow> 'w rpc_state \<Rightarrow> 'w rpc_state \<Rightarrow> bool" where
  "pool_frame k s s' \<longleftrightarrow>
     map static (st_endpoints s') = map static (st_endpoints s) \<and> st_cursor s' = st_cursor s
     \<and> st_request_id s' = st_request_id s + k"

lemma pool_frame_refl [simp]: "pool_frame 0 s s"
  by (simp add: pool_frame_def)

lemma pool_frame_trans: "pool_frame j s s1 \<Longrightarrow> pool_frame k s1 s2 \<Longrightarrow> pool_frame (j + k) s s2"
  by (simp add: pool_frame_def)

lemma pool_frame_names: "pool_frame k s s' \<Longrightarrow> map ep_name (st_endpoints s') = map ep_name (st_endpoints s)"
proof -
  assume "pool_frame k s s'"
  then have "map fst (map static (st_endpoints s')) = map fst (map static (st_endpoints s))"
    by (simp add: pool_frame_def)
  then show ?thesis by (simp add: static_def comp_def)
qed

lemma pool_frame_length: "pool_frame k s s' \<Longrightarrow> length (st_endpoints s') = length (st_endpoints s)"
  by (drule pool_frame_names) (metis length_map)

lemma pool_frame_ok: "pool_frame k s s' \<Longrightarrow> pool_ok s \<Longrightarrow> pool_ok s'"
  using pool_frame_names pool_frame_length by (fastforce simp: pool_ok_def pool_frame_def)

lemma now_frame: "now env s = (r, s') \<Longrightarrow> pool_frame 0 s s' \<and> st_endpoints s' = st_endpoints s"
  by (auto simp: now_def pool_frame_def split: prod.splits)

lemma pause_frame: "pause env d s = (r, s') \<Longrightarrow> pool_frame 0 s s'"
  by (auto simp: pause_def pool_frame_def)

lemma update_endpoint_frame:
  "update_endpoint name f s = (r, s') \<Longrightarrow> (\<And>e. static (f e) = static e) \<Longrightarrow> pool_frame 0 s s'"
  by (auto simp: update_endpoint_def pool_frame_def)

lemma static_updates [simp]:
  "static (e\<lparr>ep_next_at := t\<rparr>) = static e" "static (e\<lparr>ep_healthy := h\<rparr>) = static e"
  "static (e\<lparr>ep_cooldown_until := t\<rparr>) = static e"
  "static (e\<lparr>ep_consecutive_failures := n\<rparr>) = static e"
  "static (e\<lparr>ep_archive_unavailable_through := u\<rparr>) = static e"
  by (simp_all add: static_def)

lemma static_mark_failure [simp]: "static (mark_failure hb a e) = static e"
  by (auto simp: mark_failure_def Let_def split: option.splits)

lemma bind_io_frame:
  assumes "bind_io m f s = (r, s')" and m: "\<And>r s1. m s = (r, s1) \<Longrightarrow> pool_frame j s s1"
    and "\<And>x s1. f x s1 = (r, s') \<Longrightarrow> pool_frame 0 s1 s'"
  shows "pool_frame j s s'"
  using assms(1)
  by (auto simp: bind_io_def split: prod.splits sum.splits
      dest!: m assms(3) dest: pool_frame_trans [where k = 0, simplified])

lemma record_success_frame: "record_success e s = (r, s') \<Longrightarrow> pool_frame 0 s s'"
  unfolding record_success_def by (erule update_endpoint_frame) simp

lemma record_failure_frame: "record_failure env e fo hb a s = (r, s') \<Longrightarrow> pool_frame 0 s s'"
  unfolding record_failure_def
  by (erule bind_io_frame)
    (auto elim!: update_endpoint_frame bind_io_frame dest: now_frame split: if_splits)

lemma throttle_frame: "throttle env e s = (r, s') \<Longrightarrow> pool_frame 0 s s'"
  unfolding throttle_def Let_def
  by (erule bind_io_frame)
    (auto elim!: update_endpoint_frame bind_io_frame dest: now_frame pause_frame split: if_splits)

lemma post_frame: "post env e p s = (r, s') \<Longrightarrow> pool_frame 0 s s'"
  unfolding post_def
  by (erule bind_io_frame)
    (auto dest: throttle_frame simp: pool_frame_def split: if_splits prod.splits)

lemma call_on_endpoint_frame: "call_on_endpoint env e m ps s = (r, s') \<Longrightarrow> pool_frame 1 s s'"
  unfolding call_on_endpoint_def
  by (erule bind_io_frame)
    (simp add: next_id_def pool_frame_def, auto elim!: bind_io_frame dest: post_frame)

lemma can_serve_spec:
  assumes "can_serve env e hb s = (r, s')"
  shows "pool_frame 0 s s' \<and> st_endpoints s' = st_endpoints s
    \<and> (\<exists>b. r = Inr b
        \<and> (b \<longrightarrow> can_serve_block e hb
              \<and> (ep_healthy e \<or> (\<exists>w t w'. monotonic env w = (t, w') \<and> ep_cooldown_until e \<le> t)))
        \<and> (\<not> b \<longrightarrow> \<not> can_serve_block e hb \<or> \<not> ep_healthy e))"
proof (cases "ep_healthy e")
  case False
  obtain t w where t: "monotonic env (st_world s) = (t, w)" by fastforce
  let ?b = "\<not> t < ep_cooldown_until e \<and> can_serve_block e hb"
  from assms False t have "r = Inr ?b" "s' = s\<lparr>st_world := w\<rparr>"
    by (simp_all add: can_serve_def now_def bind_io_def split: if_splits)
  moreover have "?b \<longrightarrow> (\<exists>w t w'. monotonic env w = (t, w') \<and> ep_cooldown_until e \<le> t)"
    using t not_less by blast
  ultimately show ?thesis using False by (simp add: pool_frame_def)
qed (use assms in \<open>auto simp: can_serve_def\<close>)

subsection \<open>Lemmas: selection\<close>

text \<open>What selection promises of an endpoint, and why it may pass one over.\<close>

definition eligible :: "'w env \<Rightarrow> int option \<Rightarrow> bool \<Rightarrow> string list \<Rightarrow> rpc_endpoint \<Rightarrow> bool" where
  "eligible env hb eip excluded e \<longleftrightarrow>
     ep_name e \<notin> set excluded \<and> (eip \<longrightarrow> ep_supports_eip1898 e) \<and> can_serve_block e hb
     \<and> (ep_healthy e \<or> (\<exists>w t w'. monotonic env w = (t, w') \<and> ep_cooldown_until e \<le> t))"

definition passed_over :: "int option \<Rightarrow> bool \<Rightarrow> string list \<Rightarrow> rpc_endpoint \<Rightarrow> bool" where
  "passed_over hb eip excluded e \<longleftrightarrow>
     ep_name e \<in> set excluded \<or> (eip \<and> \<not> ep_supports_eip1898 e) \<or> \<not> can_serve_block e hb
     \<or> \<not> ep_healthy e"

lemma select_loop_spec:
  assumes "select_loop env hb eip excluded offsets s = (r, s')" and "st_endpoints s \<noteq> []"
  shows "st_endpoints s' = st_endpoints s \<and> st_request_id s' = st_request_id s
    \<and> (case r of
         Inr e \<Rightarrow> e \<in> set (st_endpoints s) \<and> eligible env hb eip excluded e
           \<and> st_cursor s' < length (st_endpoints s)
       | Inl x \<Rightarrow> exn_class_of x = RpcNoHealthyEndpoint \<and> st_cursor s' = st_cursor s
           \<and> (\<forall>i \<in> set offsets. passed_over hb eip excluded
                 (st_endpoints s ! ((st_cursor s + i) mod length (st_endpoints s)))))"
  using assms
proof (induction offsets arbitrary: s)
  case (Cons i offsets)
  let ?n = "length (st_endpoints s)"
  let ?e = "st_endpoints s ! ((st_cursor s + i) mod ?n)"
  have mem: "?e \<in> set (st_endpoints s)" using Cons.prems(2) by (intro nth_mem) simp
  show ?case
  proof (cases "ep_name ?e \<in> set excluded \<or> (eip \<and> \<not> ep_supports_eip1898 ?e)")
    case True
    then have "select_loop env hb eip excluded offsets s = (r, s')"
      using Cons.prems(1) by (cases "ep_name ?e \<in> set excluded") (simp_all add: Let_def)
    from Cons.IH [OF this Cons.prems(2)] show ?thesis
      using True by (auto simp: passed_over_def split: sum.splits)
  next
    case False
    obtain rb s1 where cs: "can_serve env ?e hb s = (rb, s1)" by fastforce
    note spec = can_serve_spec [OF cs]
    then obtain b where b: "rb = Inr b" by blast
    from spec have st: "st_endpoints s1 = st_endpoints s" "st_cursor s1 = st_cursor s"
        "st_request_id s1 = st_request_id s" by (auto simp: pool_frame_def)
    show ?thesis
    proof (cases b)
      case True
      with False cs b Cons.prems(1)
      have "r = Inr ?e" "s' = s1\<lparr>st_cursor := ((st_cursor s + i) mod ?n + 1) mod ?n\<rparr>"
        by (cases eip; simp add: Let_def bind_io_def)+
      with True False spec b st mem Cons.prems(2) show ?thesis
        by (auto simp: eligible_def)
    next
      case fl: False
      with False cs b Cons.prems(1) have "select_loop env hb eip excluded offsets s1 = (r, s')"
        by (cases eip; simp add: Let_def bind_io_def)+
      from Cons.IH [OF this] Cons.prems(2) show ?thesis
        using spec st fl b by (auto simp: passed_over_def split: sum.splits)
    qed
  qed
qed auto

lemma rotation_covers: "(\<lambda>i. (c + i) mod n) ` {0..<n} = {0..<n}" if "c < n" for c n :: nat
proof -
  have "inj_on (\<lambda>i. (c + i) mod n) {0..<n}"
  proof (rule inj_onI)
    fix x y assume "x \<in> {0..<n}" "y \<in> {0..<n}" "(c + x) mod n = (c + y) mod n"
    then show "x = y" using that
      by (auto simp: mod_if split: if_splits)
  qed
  moreover have "(\<lambda>i. (c + i) mod n) ` {0..<n} \<subseteq> {0..<n}" using that by auto
  ultimately show ?thesis by (simp add: endo_inj_surj)
qed

lemma select_spec:
  assumes ok: "pool_ok s" and sel: "select env hb eip excluded s = (r, s')"
  shows "pool_ok s' \<and> st_endpoints s' = st_endpoints s \<and> st_request_id s' = st_request_id s
    \<and> (case r of
         Inr e \<Rightarrow> e \<in> set (st_endpoints s) \<and> eligible env hb eip excluded e
       | Inl x \<Rightarrow> exn_class_of x = RpcNoHealthyEndpoint
           \<and> (\<forall>e \<in> set (st_endpoints s). passed_over hb eip excluded e))"
proof -
  let ?n = "length (st_endpoints s)"
  from ok have ne: "st_endpoints s \<noteq> []" and c: "st_cursor s < ?n" by (auto simp: pool_ok_def)
  note spec = select_loop_spec [OF sel [unfolded select_def] ne]
  have "e \<in> (\<lambda>i. st_endpoints s ! ((st_cursor s + i) mod ?n)) ` set [0..<?n]"
    if "e \<in> set (st_endpoints s)" for e
  proof -
    from that obtain j where j: "j < ?n" "e = st_endpoints s ! j" by (auto simp: in_set_conv_nth)
    with rotation_covers [OF c] obtain i where "i < ?n" "j = (st_cursor s + i) mod ?n" by fastforce
    with j show ?thesis by auto
  qed
  with spec ok c show ?thesis by (auto simp: pool_ok_def split: sum.splits)
qed

lemma distinct_loop_spec:
  assumes "distinct_loop env needed hb es selected groups s = (Inr chosen, s')"
    and "length selected < needed" and "distinct (map ep_provider_group selected)"
    and "set groups = ep_provider_group ` set selected"
    and "list_all (eligible env hb False []) selected"
  shows "length chosen = needed \<and> distinct (map ep_provider_group chosen)
    \<and> set chosen \<subseteq> set selected \<union> set es \<and> list_all (eligible env hb False []) chosen"
  using assms
proof (induction es arbitrary: selected groups s)
  case (Cons e es)
  show ?case
  proof (cases "ep_provider_group e \<in> set groups")
    case True
    with Cons.prems Cons.IH [of selected groups s] show ?thesis by auto
  next
    case False
    with Cons.prems(1) have "bind_io (can_serve env e hb) (\<lambda>b.
        if \<not> b then distinct_loop env needed hb es selected groups
        else if length (selected @ [e]) = needed then ret (selected @ [e])
        else distinct_loop env needed hb es (selected @ [e]) (ep_provider_group e # groups)) s
      = (Inr chosen, s')" by (simp only: distinct_loop.simps if_False Let_def)
    then obtain b s1 where cs: "can_serve env e hb s = (Inr b, s1)"
      and rest: "(if \<not> b then distinct_loop env needed hb es selected groups
        else if length (selected @ [e]) = needed then ret (selected @ [e])
        else distinct_loop env needed hb es (selected @ [e]) (ep_provider_group e # groups)) s1
        = (Inr chosen, s')"
      by (auto simp only: bind_io_Inr)
    show ?thesis
    proof (cases b)
      case True
      with can_serve_spec [OF cs] have el: "eligible env hb False [] e" by (auto simp: eligible_def)
      have dist: "distinct (map ep_provider_group (selected @ [e]))"
        using False Cons.prems(3,4) by auto
      show ?thesis
      proof (cases "length (selected @ [e]) = needed")
        case True
        with rest \<open>b\<close> have "chosen = selected @ [e]" by simp
        with True dist el Cons.prems(5) show ?thesis by auto
      next
        case False
        then have "length (selected @ [e]) < needed" using Cons.prems(2) by simp
        moreover have "set (ep_provider_group e # groups) = ep_provider_group ` set (selected @ [e])"
          using Cons.prems(4) by auto
        moreover have "list_all (eligible env hb False []) (selected @ [e])"
          using el Cons.prems(5) by simp
        moreover have "distinct_loop env needed hb es (selected @ [e]) (ep_provider_group e # groups) s1
            = (Inr chosen, s')" using rest \<open>b\<close> False by simp
        ultimately show ?thesis using Cons.IH dist by fastforce
      qed
    next
      case False
      with rest have "distinct_loop env needed hb es selected groups s1 = (Inr chosen, s')" by simp
      from Cons.IH [OF this Cons.prems(2-5)] show ?thesis by auto
    qed
  qed
qed auto

subsection \<open>Lemmas: classification and calls\<close>

lemma rpc_failure_of_simps [simp]:
  "rf_kind (rpc_failure_of k r f a) = k" "rf_retryable (rpc_failure_of k r f a) = r"
  "rf_failover (rpc_failure_of k r f a) = f" "rf_retry_after (rpc_failure_of k r f a) = a"
  by (simp_all add: rpc_failure_of_def)

lemma classify_kinds:
  "classify_rpc_failure e =
     (case rf_kind (classify_rpc_failure e) of
        ARCHIVE_UNAVAILABLE \<Rightarrow> rpc_failure_of ARCHIVE_UNAVAILABLE False True None
      | PROVIDER_LIMIT \<Rightarrow> rpc_failure_of PROVIDER_LIMIT False False None
      | EXECUTION_REVERT \<Rightarrow> rpc_failure_of EXECUTION_REVERT False False None
      | PERMANENT \<Rightarrow> rpc_failure_of PERMANENT False False None
      | k \<Rightarrow> rpc_failure_of k True True (rf_retry_after (classify_rpc_failure e)))"
  by (cases e) (simp_all add: classify_rpc_failure_def classify_http_def Let_def)

lemma retryable_failover: "rf_retryable (classify_rpc_failure e) \<Longrightarrow> rf_failover (classify_rpc_failure e)"
  by (subst (asm) classify_kinds, subst classify_kinds) (auto split: failure_kind.splits)

lemma classify_promoted [simp]:
  "classify_rpc_failure (Exn ArchiveStateUnavailable m) = rpc_failure_of ARCHIVE_UNAVAILABLE False True None"
  "classify_rpc_failure (Exn RpcProviderLimit m) = rpc_failure_of PROVIDER_LIMIT False False None"
  by (simp_all add: classify_rpc_failure_def is_subclass_def)

lemma classify_normalize: "classify_rpc_failure (normalize_rpc_error e) = classify_rpc_failure e"
  using classify_kinds [of e]
  by (auto simp: normalize_rpc_error_def Let_def split: failure_kind.splits)

text \<open>A result is the answer of a 2xx response from the endpoint to a request with this method,
  these parameters and a matching identifier.\<close>

definition answers :: "int \<Rightarrow> json \<Rightarrow> json \<Rightarrow> bool" where
  "answers request_id body r \<longleftrightarrow>
     (\<exists>kvs. body = JObj kvs \<and> obj_get kvs ''jsonrpc'' \<in> {JNull, JStr ''2.0''}
        \<and> json_eq_int (obj_get kvs ''id'') request_id \<and> obj_get kvs ''error'' = JNull
        \<and> obj_has kvs ''result'' \<and> r = obj_get kvs ''result'')"

lemma read_body_Inr: "read_body i body = Inr r \<longleftrightarrow> answers i body r"
  by (auto simp: read_body_def answers_def split: json.splits)

definition answered :: "'w env \<Rightarrow> rpc_endpoint \<Rightarrow> string \<Rightarrow> json list \<Rightarrow> json \<Rightarrow> bool" where
  "answered env e method params r \<longleftrightarrow>
     (\<exists>rid w w' st reason ra body.
        http_post env (ep_url e) (request_payload rid method params) w
          = (Response st reason ra (Some body), w')
        \<and> 200 \<le> st \<and> st < 300 \<and> answers rid body r)"

lemma read_response_Inr:
  "read_response e out = Inr j \<Longrightarrow> \<exists>st reason ra. out = Response st reason ra (Some j) \<and> 200 \<le> st \<and> st < 300"
  by (auto simp: read_response_def split: http_outcome.splits if_splits option.splits)

lemma call_on_endpoint_answered:
  assumes "call_on_endpoint env e m ps s = (Inr r, s')"
  shows "answered env e m ps r"
proof -
  from assms obtain rid body s1 s2 where p: "post env e (request_payload rid m ps) s1 = (Inr body, s2)"
    and r: "read_body rid body = Inr r"
    by (auto simp: call_on_endpoint_def io_simps)
  from p obtain out w w' where "http_post env (ep_url e) (request_payload rid m ps) w = (out, w')"
    and "read_response e out = Inr body"
    by (auto simp: post_def io_simps split: if_splits prod.splits)
  with r read_response_Inr show ?thesis unfolding answered_def read_body_Inr by blast
qed

lemma exhausted_class:
  "isinstance (exhausted m l) ArchiveStateUnavailable \<or> exn_class_of (exhausted m l) = RpcAttemptsExhausted"
  by (auto simp: exhausted_def split: option.splits)

lemma card_exclude:
  assumes "n \<in> names" and "n \<notin> set excluded" and "finite names"
  shows "card (names - set excluded) = Suc (card (names - set (n # excluded)))"
proof -
  have "names - set (n # excluded) = (names - set excluded) - {n}" by auto
  then show ?thesis using assms by (simp only:) (rule card.remove, auto)
qed

definition call_post ::
  "'w env \<Rightarrow> string \<Rightarrow> json list \<Rightarrow> int option \<Rightarrow> bool \<Rightarrow> string list \<Rightarrow> nat
   \<Rightarrow> 'w rpc_state \<Rightarrow> (json \<times> rpc_endpoint) res \<Rightarrow> 'w rpc_state \<Rightarrow> bool" where
  "call_post env method params hb eip excluded fuel s r s' \<longleftrightarrow>
     pool_ok s' \<and> map static (st_endpoints s') = map static (st_endpoints s)
     \<and> st_request_id s \<le> st_request_id s'
     \<and> st_request_id s' - st_request_id s
         \<le> int (min fuel (card (ep_name ` set (st_endpoints s) - set excluded)))
     \<and> (case r of
          Inr (j, e) \<Rightarrow> static e \<in> static ` set (st_endpoints s) \<and> ep_name e \<notin> set excluded
            \<and> (eip \<longrightarrow> ep_supports_eip1898 e) \<and> can_serve_block e hb
            \<and> answered env e method params j
        | Inl x \<Rightarrow> isinstance x ArchiveStateUnavailable \<or> exn_class_of x = RpcAttemptsExhausted
            \<or> \<not> rf_retryable (classify_rpc_failure x) \<and> \<not> rf_failover (classify_rpc_failure x))"

lemma call_loop_post:
  assumes "pool_ok s" and "call_loop env cfg m ps hb eip attempt fuel excluded l s = (r, s')"
  shows "call_post env m ps hb eip excluded fuel s r s'"
  using assms
proof (induction fuel arbitrary: attempt excluded l s)
  case 0
  then show ?case using exhausted_class [of m l] by (auto simp: call_post_def)
next
  case (Suc fuel)
  obtain rs s1 where sel: "select env hb eip excluded s = (rs, s1)" by fastforce
  note spec = select_spec [OF Suc.prems(1) sel]
  show ?case
  proof (cases rs)
    case (Inl x)
    with Suc.prems(2) sel have "r = Inl (exhausted m (Some x))" "s' = s1" by auto
    with spec exhausted_class [of m "Some x"] show ?thesis by (auto simp: call_post_def)
  next
    case (Inr e)
    with spec have e: "e \<in> set (st_endpoints s)" "eligible env hb eip excluded e"
      and s1: "pool_ok s1" "st_endpoints s1 = st_endpoints s" "st_request_id s1 = st_request_id s"
      by auto
    let ?names = "ep_name ` set (st_endpoints s)"
    have fresh: "ep_name e \<in> ?names" "ep_name e \<notin> set excluded"
      using e by (auto simp: eligible_def)
    let ?K = "card (?names - set excluded)" and ?K' = "card (?names - set (ep_name e # excluded))"
    have "?K = Suc ?K'" using fresh by (intro card_exclude) auto
    then have one: "1 \<le> int (min (Suc fuel) ?K)"
      and rec: "n \<le> int (min fuel ?K') \<Longrightarrow> n + 1 \<le> int (min (Suc fuel) ?K)" for n by linarith+
    obtain rc s2 where co: "call_on_endpoint env e m ps s1 = (rc, s2)" by fastforce
    note f2 = call_on_endpoint_frame [OF co]
    show ?thesis
    proof (cases rc)
      case ok: (Inr j)
      with Suc.prems(2) sel co Inr have "bind_io (record_success e) (\<lambda>_. ret (j, e)) s2 = (r, s')"
        by auto
      then have "record_success e s2 = (Inr (), s')" and r: "r = Inr (j, e)"
        by (auto simp: bind_io_def record_success_def update_endpoint_def)
      with f2 have f: "pool_frame 1 s1 s'"
        using record_success_frame pool_frame_trans by fastforce
      with pool_frame_ok s1(1) have "pool_ok s'" by blast
      with f e r s1 call_on_endpoint_answered [OF co [unfolded ok]] one show ?thesis
        by (simp add: call_post_def pool_frame_def eligible_def)
    next
      case err: (Inl exc)
      let ?nz = "normalize_rpc_error exc"
      let ?f = "classify_rpc_failure ?nz"
      obtain rr s3 where rf: "record_failure env e (rf_failover ?f) hb
          (rf_kind ?f = ARCHIVE_UNAVAILABLE) s2 = (rr, s3)" by fastforce
      have f3: "pool_frame 1 s1 s3"
        using pool_frame_trans [OF f2 record_failure_frame [OF rf]] by simp
      have rr: "rr = Inr ()" using rf
        by (auto simp: record_failure_def bind_io_def update_endpoint_def now_def
            split: if_splits prod.splits)
      show ?thesis
      proof (cases "rf_failover ?f")
        case False
        then have "\<not> rf_retryable ?f" using retryable_failover by blast
        with False Suc.prems(2) sel co Inr err rf rr have "r = Inl ?nz" "s' = s3"
          by (auto simp: Let_def bind_io_def)
        with False \<open>\<not> rf_retryable ?f\<close> f3 s1 one pool_frame_ok [OF f3 s1(1)] show ?thesis
          by (simp add: call_post_def pool_frame_def)
      next
        case True
        obtain s4 where f4: "pool_frame 1 s1 s4"
          and rest: "call_loop env cfg m ps hb eip (attempt + 1) fuel (ep_name e # excluded)
            (Some ?nz) s4 = (r, s')"
        proof -
          let ?d = "retry_delay cfg ?f attempt"
          obtain ru s4 where p: "(if ?d \<noteq> 0 then pause env ?d else ret ()) s3 = (ru, s4)" by fastforce
          then have "ru = Inr ()" "pool_frame 0 s3 s4"
            by (auto simp: pause_def pool_frame_def split: if_splits)
          then show thesis using that pool_frame_trans [OF f3] True Suc.prems(2) sel co Inr err rf rr p
            by (fastforce simp: Let_def bind_io_def)
        qed
        have "pool_ok s4" using pool_frame_ok f4 s1(1) by blast
        from Suc.IH [OF this rest] have ih: "call_post env m ps hb eip (ep_name e # excluded) fuel s4 r s'" .
        have st: "map static (st_endpoints s4) = map static (st_endpoints s)"
            "st_request_id s4 = st_request_id s + 1"
          and nm: "map ep_name (st_endpoints s4) = map ep_name (st_endpoints s)"
          using f4 s1 pool_frame_names [OF f4] by (auto simp: pool_frame_def)
        have im: "ep_name ` set (st_endpoints s4) = ?names"
            "static ` set (st_endpoints s4) = static ` set (st_endpoints s)"
          using nm st(1) by (metis list.set_map)+
        have "st_request_id s' - st_request_id s4 \<le> int (min fuel ?K')"
          using ih unfolding call_post_def im by blast
        from rec [OF this] st have "st_request_id s' - st_request_id s \<le> int (min (Suc fuel) ?K)"
          by linarith
        with ih st im show ?thesis unfolding call_post_def
          by (simp split: sum.splits prod.splits)
      qed
    qed
  qed
qed

subsection \<open>Properties\<close>

text \<open>A pool of two endpoints and a server that answers every request with \<open>null\<close>.\<close>

definition sample_endpoint :: "string \<Rightarrow> rpc_endpoint" where
  "sample_endpoint name =
     \<lparr>ep_name = name, ep_url = name, ep_provider_group = name, ep_requests_per_second = 1,
      ep_supports_http_batch = True, ep_supports_eip1898 = True, ep_archive_from_block = Some 5,
      ep_has_client = True, ep_healthy = True, ep_consecutive_failures = 0, ep_cooldown_until = 0,
      ep_archive_unavailable_through = None, ep_next_at = 0\<rparr>"

definition sample_state :: "nat rpc_state" where
  "sample_state = \<lparr>st_endpoints = [sample_endpoint ''a'', sample_endpoint ''b''], st_cursor = 1,
     st_request_id = 0, st_world = 0\<rparr>"

definition sample_post :: "string \<Rightarrow> json \<Rightarrow> nat \<Rightarrow> http_outcome \<times> nat" where
  "sample_post url payload w =
     (case payload of
        JObj kvs \<Rightarrow> (Response 200 ''OK'' None
           (Some (JObj [(''id'', obj_get kvs ''id''), (''result'', JNull)])), w)
      | _ \<Rightarrow> (TimedOut, w))"

definition sample_env :: "nat env" where
  "sample_env = \<lparr>monotonic = (\<lambda>w. (of_nat w, w + 1)), sleep = (\<lambda>d w. w), http_post = sample_post\<rparr>"

lemma sample_state_ok: "pool_ok sample_state"
  by (simp add: pool_ok_def sample_state_def sample_endpoint_def)

text \<open>
  \<open>EndpointPool.select\<close> is sound and complete. The endpoint it returns is in the
  pool, not excluded, supports EIP-1898 when that is required, holds the requested historical
  block as far as is known, and is healthy or past its cooldown; when it raises, every
  endpoint of the pool fails one of these conditions (the scan covers the whole ring from the
  cursor). In both cases the pool's invariant (unique names, cursor in range) is kept.
\<close>

theorem select_sound_complete:
  assumes "pool_ok s" and "select env hb eip excluded s = (r, s')"
  shows "pool_ok s' \<and> st_endpoints s' = st_endpoints s
    \<and> (case r of
         Inr e \<Rightarrow> e \<in> set (st_endpoints s) \<and> eligible env hb eip excluded e
       | Inl x \<Rightarrow> exn_class_of x = RpcNoHealthyEndpoint
           \<and> (\<forall>e \<in> set (st_endpoints s). passed_over hb eip excluded e))"
  using select_spec [OF assms] by blast

lemma sample_select:
  "select sample_env (Some 7) True [''b''] sample_state = (Inr (sample_endpoint ''a''), sample_state)"
  by (simp add: select_def sample_state_def sample_endpoint_def can_serve_def can_serve_block_def
      upt_rec Let_def)

theorem select_sound_complete_witness:
  "eligible sample_env (Some 7) True [''b''] (sample_endpoint ''a'')"
  using select_sound_complete [OF sample_state_ok sample_select] by simp

text \<open>
  C21: a result of \<open>AsyncRpcClient.call\<close> is never made up. It is the \<open>result\<close> member of
  a 2xx response that the returned endpoint gave to a request with exactly this method, these
  parameters and a fresh identifier that the response repeats, and that endpoint is a member
  of the pool that satisfied the caller's EIP-1898 and historical-block requirements.
\<close>

theorem call_authentic:
  assumes "pool_ok s" and "call env cfg method params hb eip s = (Inr (j, e), s')"
  shows "pool_ok s' \<and> static e \<in> static ` set (st_endpoints s)
    \<and> (eip \<longrightarrow> ep_supports_eip1898 e) \<and> can_serve_block e hb \<and> answered env e method params j"
  using call_loop_post [OF assms(1) assms(2) [unfolded call_def]] by (simp add: call_post_def)

lemma sample_call:
  "\<exists>s'. call sample_env \<lparr>cc_max_retries = 3, cc_retry_base_seconds = 1\<rparr> ''eth_call'' [] (Some 7) True
     sample_state = (Inr (JNull, sample_endpoint ''b''), s')"
  by (simp add: call_def select_def sample_state_def sample_endpoint_def can_serve_def
      can_serve_block_def upt_rec numeral_3_eq_3 call_on_endpoint_def next_id_def post_def throttle_def
      now_def sample_env_def sample_post_def bind_io_def update_endpoint_def endpoint_named_def
      Let_def request_payload_def obj_get_def obj_has_def read_response_def read_body_def
      json_eq_int_def record_success_def)

theorem call_authentic_witness:
  "answered sample_env (sample_endpoint ''b'') ''eth_call'' [] JNull"
  using sample_call call_authentic [OF sample_state_ok] by blast

text \<open>
  C22: one \<open>call\<close> issues at most \<open>max_retries\<close> requests and at most one per endpoint of
  the pool (every retryable failure also excludes the endpoint that failed, so the retry
  budget beyond the pool's size is never used), keeps every endpoint's configuration, and what
  it raises is \<open>ArchiveStateUnavailable\<close>, \<open>RpcAttemptsExhausted\<close>, or an error that is neither
  retryable nor worth a failover: a transient failure never escapes as such.
\<close>

theorem call_attempts_and_errors:
  assumes "pool_ok s" and "call env cfg method params hb eip s = (r, s')"
  shows "st_request_id s' - st_request_id s
      \<le> int (min (cc_max_retries cfg) (length (st_endpoints s)))
    \<and> map static (st_endpoints s') = map static (st_endpoints s) \<and> pool_ok s'
    \<and> (\<forall>x. r = Inl x \<longrightarrow>
        isinstance x ArchiveStateUnavailable \<or> exn_class_of x = RpcAttemptsExhausted
        \<or> \<not> rf_retryable (classify_rpc_failure x) \<and> \<not> rf_failover (classify_rpc_failure x))"
proof -
  have post: "call_post env method params hb eip [] (cc_max_retries cfg) s r s'"
    using call_loop_post assms unfolding call_def by blast
  have "card (ep_name ` set (st_endpoints s)) \<le> length (st_endpoints s)"
    by (metis card_length length_map list.set_map)
  with post show ?thesis unfolding call_post_def by (auto split: sum.splits)
qed

theorem call_attempts_and_errors_witness:
  "\<exists>s'. st_request_id (s' :: nat rpc_state) - st_request_id sample_state \<le> 2 \<and> pool_ok s'"
proof -
  from sample_call obtain s' where c: "call sample_env \<lparr>cc_max_retries = 3, cc_retry_base_seconds = 1\<rparr>
     ''eth_call'' [] (Some 7) True sample_state = (Inr (JNull, sample_endpoint ''b''), s')" by blast
  from call_attempts_and_errors [OF sample_state_ok c] show ?thesis
    by (auto simp: sample_state_def)
qed

text \<open>
  Promoting a failure to a stable exception type does not change how it is
  treated: \<open>normalize_rpc_error\<close> keeps the classification, it yields \<open>RpcProviderLimit\<close> (on which
  the scanner and the executors split their work) exactly for provider limits, and no
  classification asks for a retry without a failover.
\<close>

theorem normalize_keeps_classification:
  "classify_rpc_failure (normalize_rpc_error e) = classify_rpc_failure e
   \<and> (isinstance (normalize_rpc_error e) RpcProviderLimit
        \<longleftrightarrow> rf_kind (classify_rpc_failure e) = PROVIDER_LIMIT)
   \<and> \<not> (rf_retryable (classify_rpc_failure e) \<and> \<not> rf_failover (classify_rpc_failure e))"
proof -
  have "isinstance e RpcProviderLimit \<Longrightarrow> rf_kind (classify_rpc_failure e) = PROVIDER_LIMIT"
    by (cases e) (auto simp: is_subclass_def classify_rpc_failure_def)
  then have "isinstance (normalize_rpc_error e) RpcProviderLimit
        \<longleftrightarrow> rf_kind (classify_rpc_failure e) = PROVIDER_LIMIT"
    by (auto simp: normalize_rpc_error_def Let_def is_subclass_def)
  then show ?thesis using classify_normalize retryable_failover by blast
qed

text \<open>
  C28: a quorum is a quorum of independent providers. When \<open>select_distinct_groups\<close>
  returns, it returns exactly the requested number of endpoints of the pool, no two of the same
  provider group, each healthy or past its cooldown and able to serve the historical block.
\<close>

theorem quorum_independent:
  assumes "select_distinct_groups env needed hb s = (Inr chosen, s')"
  shows "int (length chosen) = needed \<and> distinct (map ep_provider_group chosen)
    \<and> set chosen \<subseteq> set (st_endpoints s) \<and> list_all (eligible env hb False []) chosen"
proof -
  from assms have n: "1 \<le> needed" and d: "distinct_loop env (nat needed) hb (st_endpoints s) [] [] s
      = (Inr chosen, s')"
    by (auto simp: select_distinct_groups_def split: if_splits)
  then show ?thesis using distinct_loop_spec [OF d] by auto
qed

theorem quorum_independent_witness:
  "list_all (eligible sample_env (Some 7) False []) [sample_endpoint ''a'', sample_endpoint ''b'']"
proof -
  have "select_distinct_groups sample_env 2 (Some 7) sample_state
      = (Inr [sample_endpoint ''a'', sample_endpoint ''b''], sample_state)"
    by (simp add: select_distinct_groups_def sample_state_def sample_endpoint_def can_serve_def
        can_serve_block_def)
  from quorum_independent [OF this] show ?thesis by simp
qed

end
