(* ===== verification/Discovery.thy ===== *)
theory Discovery
  imports Coverage Rpc
begin

text \<open>
  Strict log scanning (\<open>core/discovery.py\<close>): log filters, parsing and validation of
  \<open>eth_getLogs\<close> entries, deduplication, holder extraction, and \<open>StrictLogScanner\<close>, which splits
  a range the provider cannot serve and never skips a block. The scanner's \<open>RpcCaller\<close> is the
  parameter \<open>rpc_call\<close> on an arbitrary state.
\<close>

type_synonym 's rpc_caller =
  "string \<Rightarrow> json list \<Rightarrow> int option \<Rightarrow> bool \<Rightarrow> ('s, json \<times> rpc_endpoint) io"

subsection \<open>Filters and logs\<close>

record log_filter =
  lf_address :: "string option"
  lf_topics :: "string list option list"

definition valid_topic :: "string \<Rightarrow> bool" where
  "valid_topic t \<longleftrightarrow> HASH_RE t \<and> t = str_lower t"

text \<open>The loop over the constraints in \<open>LogFilter.__post_init__\<close>.\<close>

fun check_constraints :: "string list option list \<Rightarrow> unit res" where
  "check_constraints [] = Inr ()"
| "check_constraints (None # cs) = check_constraints cs"
| "check_constraints (Some ts # cs) =
     (if ts = [] then raise_res ValueError ''a topic constraint cannot be empty''
      else if \<not> list_all valid_topic ts
      then raise_res ValueError ''topic constraints must be lowercase 32-byte words''
      else check_constraints cs)"

definition mk_log_filter :: "string option \<Rightarrow> string list option list \<Rightarrow> log_filter res" where
  "mk_log_filter address topics =
     (if (case address of None \<Rightarrow> False | Some a \<Rightarrow> \<not> LOWER_ADDRESS_RE a)
      then raise_res ValueError ''filter address must be normalized lowercase 0x hex''
      else if length topics > 4 then raise_res ValueError ''a log has at most four topics''
      else if list_all (\<lambda>c. c = None) topics
      then raise_res ValueError ''filter must constrain at least one topic position''
      else bind_res (check_constraints topics) (\<lambda>_.
             Inr \<lparr>lf_address = address, lf_topics = topics\<rparr>))"

definition filter_params :: "log_filter \<Rightarrow> block_range \<Rightarrow> json" where
  "filter_params f r =
     (let constraints = rev (dropWhile (\<lambda>c. c = None) (rev (lf_topics f)));
          topics = map (\<lambda>c. case c of None \<Rightarrow> JNull | Some ts \<Rightarrow> JArr (map JStr ts)) constraints in
      JObj ([(''topics'', JArr topics), (''fromBlock'', JStr (py_hex (br_start r))),
             (''toBlock'', JStr (py_hex (br_end r - 1)))]
            @ (case lf_address f of None \<Rightarrow> [] | Some a \<Rightarrow> [(''address'', JStr a)])))"

fun matches_from :: "string list option list \<Rightarrow> string list \<Rightarrow> bool" where
  "matches_from [] topics = True"
| "matches_from (None # cs) topics = matches_from cs (drop 1 topics)"
| "matches_from (Some ts # cs) topics =
     (case topics of [] \<Rightarrow> False | t # rest \<Rightarrow> t \<in> set ts \<and> matches_from cs rest)"

definition matches_topics :: "log_filter \<Rightarrow> string list \<Rightarrow> bool" where
  "matches_topics f topics = matches_from (lf_topics f) topics"

record normalized_log =
  lg_address :: string
  lg_topic0 :: string
  lg_topics :: "string list"
  lg_data :: string
  lg_block_number :: int
  lg_block_hash :: string
  lg_transaction_hash :: string
  lg_transaction_index :: int
  lg_log_index :: int

definition log_identity :: "normalized_log \<Rightarrow> string \<times> string \<times> int" where
  "log_identity l = (lg_block_hash l, lg_transaction_hash l, lg_log_index l)"

definition log_sort_key :: "normalized_log \<Rightarrow> int \<times> int \<times> int \<times> string" where
  "log_sort_key l =
     (lg_block_number l, lg_transaction_index l, lg_log_index l, lg_transaction_hash l)"

definition holder_at :: "normalized_log \<Rightarrow> int \<Rightarrow> string res" where
  "holder_at l position =
     (if position < 1 \<or> position \<ge> int (length (lg_topics l))
      then raise_res DiscoveryResponseError
             (''holder topic position '' @ py_int position @ '' missing from log'')
      else let topic = lg_topics l ! nat position in
      if take 24 (drop 2 topic) \<noteq> replicate 24 (CHR ''0'')
      then raise_res DiscoveryResponseError ''indexed holder is not a canonical address word''
      else Inr (''0x'' @ str_lower (drop (length topic - 40) topic)))"

definition log_holders :: "normalized_log \<Rightarrow> int list \<Rightarrow> bool \<Rightarrow> string list res" where
  "log_holders l positions include_zero =
     bind_res (map_res (holder_at l) positions) (\<lambda>addresses.
       Inr (filter (\<lambda>a. include_zero \<or> a \<noteq> ZERO_ADDRESS) addresses))"

record completed_range =
  cr_block_range :: block_range
  cr_log_count :: nat
  cr_endpoint_fingerprint :: string

record discovery_scan =
  ds_requested_range :: block_range
  ds_completed_ranges :: "completed_range list"
  ds_logs :: "normalized_log list"

definition scan_frontier :: "discovery_scan \<Rightarrow> int res" where
  "scan_frontier d =
     contiguous_frontier (br_start (ds_requested_range d)) (map cr_block_range (ds_completed_ranges d))"

subsection \<open>Parsing\<close>

definition parse_quantity :: "json \<Rightarrow> string \<Rightarrow> int res" where
  "parse_quantity value field =
     (case value of
        JStr s \<Rightarrow>
          if HEX_QUANTITY_RE s then Inr (hex_int (drop 2 s))
          else raise_res DiscoveryResponseError (''log '' @ field @ '' is not a canonical hex quantity'')
      | _ \<Rightarrow> raise_res DiscoveryResponseError (''log '' @ field @ '' is not a canonical hex quantity''))"

definition parse_hash :: "json \<Rightarrow> string \<Rightarrow> string res" where
  "parse_hash value field =
     (case value of
        JStr s \<Rightarrow>
          if HASH_RE s then Inr (str_lower s)
          else raise_res DiscoveryResponseError (''log '' @ field @ '' is not a 32-byte hash'')
      | _ \<Rightarrow> raise_res DiscoveryResponseError (''log '' @ field @ '' is not a 32-byte hash''))"

definition parse_log_address :: "log_filter \<Rightarrow> json \<Rightarrow> string res" where
  "parse_log_address f raw =
     (case raw of
        JStr a \<Rightarrow>
          if \<not> LOWER_ADDRESS_RE (str_lower a)
          then raise_res DiscoveryResponseError ''log address is not a canonical EVM address''
          else if lf_address f \<noteq> None \<and> lf_address f \<noteq> Some (str_lower a)
          then raise_res DiscoveryResponseError ''eth_getLogs returned an unexpected contract address''
          else Inr (str_lower a)
      | _ \<Rightarrow> raise_res DiscoveryResponseError ''log address is not a canonical EVM address'')"

definition check_removed :: "json \<Rightarrow> unit res" where
  "check_removed removed =
     (case removed of
        JBool b \<Rightarrow>
          if b then raise_res DiscoveryResponseError ''eth_getLogs returned a removed log for finalized history''
          else Inr ()
      | _ \<Rightarrow> raise_res DiscoveryResponseError ''log removed flag must be a boolean'')"

definition parse_topics :: "log_filter \<Rightarrow> json \<Rightarrow> string list res" where
  "parse_topics f raw =
     (case raw of
        JArr (t # ts) \<Rightarrow>
          bind_res (map_res (\<lambda>t. parse_hash t ''topic'') (t # ts)) (\<lambda>topics.
            if \<not> matches_topics f topics
            then raise_res DiscoveryResponseError ''eth_getLogs returned a log outside the topic filter''
            else Inr topics)
      | _ \<Rightarrow> raise_res DiscoveryResponseError ''eth_getLogs entry has no topics'')"

definition parse_log_data :: "json \<Rightarrow> string res" where
  "parse_log_data raw =
     (case raw of
        JStr d \<Rightarrow> if HEX_DATA_RE d then Inr (str_lower d)
                  else raise_res DiscoveryResponseError ''log data is not even-length hex''
      | _ \<Rightarrow> raise_res DiscoveryResponseError ''log data is not even-length hex'')"

definition parse_log :: "log_filter \<Rightarrow> block_range \<Rightarrow> json \<Rightarrow> normalized_log res" where
  "parse_log f requested value =
     (case value of
        JObj kvs \<Rightarrow>
          bind_res (parse_log_address f (obj_get kvs ''address'')) (\<lambda>address.
          bind_res (check_removed (obj_get kvs ''removed'')) (\<lambda>_.
          bind_res (parse_topics f (obj_get kvs ''topics'')) (\<lambda>topics.
          bind_res (parse_log_data (obj_get kvs ''data'')) (\<lambda>data.
          bind_res (parse_quantity (obj_get kvs ''blockNumber'') ''blockNumber'') (\<lambda>block_number.
          if \<not> (br_start requested \<le> block_number \<and> block_number < br_end requested)
          then raise_res DiscoveryResponseError ''eth_getLogs returned a block outside the requested range''
          else
          bind_res (parse_quantity (obj_get kvs ''transactionIndex'') ''transactionIndex'')
            (\<lambda>transaction_index.
          bind_res (parse_quantity (obj_get kvs ''logIndex'') ''logIndex'') (\<lambda>log_index.
          bind_res (parse_hash (obj_get kvs ''blockHash'') ''blockHash'') (\<lambda>block_hash.
          bind_res (parse_hash (obj_get kvs ''transactionHash'') ''transactionHash'')
            (\<lambda>transaction_hash.
            Inr \<lparr>lg_address = address, lg_topic0 = hd topics, lg_topics = topics, lg_data = data,
                 lg_block_number = block_number, lg_block_hash = block_hash,
                 lg_transaction_hash = transaction_hash,
                 lg_transaction_index = transaction_index, lg_log_index = log_index\<rparr>)))))))))
      | _ \<Rightarrow> raise_res DiscoveryResponseError ''eth_getLogs entry must be an object'')"

subsection \<open>Deduplication and holders\<close>

text \<open>The dictionary \<open>by_identity\<close> in insertion order.\<close>

fun dedup_loop ::
  "((string \<times> string \<times> int) \<times> normalized_log) list \<Rightarrow> normalized_log list
   \<Rightarrow> ((string \<times> string \<times> int) \<times> normalized_log) list res" where
  "dedup_loop seen [] = Inr seen"
| "dedup_loop seen (l # ls) =
     (case map_of seen (log_identity l) of
        None \<Rightarrow> dedup_loop (seen @ [(log_identity l, l)]) ls
      | Some previous \<Rightarrow>
          if previous \<noteq> l
          then raise_res DiscoveryResponseError ''conflicting logs share one canonical identity''
          else dedup_loop seen ls)"

definition deduplicate_logs :: "normalized_log list \<Rightarrow> normalized_log list res" where
  "deduplicate_logs logs =
     bind_res (dedup_loop [] logs) (\<lambda>seen. Inr (sort_key log_sort_key (map snd seen)))"

definition extract_holders :: "normalized_log list \<Rightarrow> int list \<Rightarrow> bool \<Rightarrow> string list res" where
  "extract_holders logs positions include_zero =
     (if positions = [] \<or> list_ex (\<lambda>p. p < 1) positions
      then raise_res ValueError ''holder topic positions must be positive''
      else bind_res (map_res (\<lambda>l. log_holders l positions include_zero) logs) (\<lambda>hss.
             Inr (sort (remdups (concat hss)))))"

subsection \<open>The scanner\<close>

definition read_range ::
  "'s rpc_caller \<Rightarrow> log_filter \<Rightarrow> block_range \<Rightarrow> ('s, json list \<times> rpc_endpoint) io" where
  "read_range rpc_call f r =
     bind_io (rpc_call ''eth_getLogs'' [filter_params f r] (Some (br_end r - 1)) False) (\<lambda>(raw, endpoint).
       case raw of
         JArr items \<Rightarrow> ret (items, endpoint)
       | _ \<Rightarrow> raise (Exn DiscoveryResponseError ''eth_getLogs response must be an array''))"

text \<open>The initial chunks, lowest first; \<open>chunk_size\<close> is positive by the constructor's check.\<close>

function chunk_ranges :: "int \<Rightarrow> int \<Rightarrow> int \<Rightarrow> block_range list" where
  "chunk_ranges chunk_size cursor stop =
     (if cursor < stop \<and> 0 < chunk_size
      then let chunk_end = min (cursor + chunk_size) stop in
           BlockRange cursor chunk_end # chunk_ranges chunk_size chunk_end stop
      else [])"
  by auto
termination by (relation "measure (\<lambda>(_, c, e). nat (e - c))") auto

declare chunk_ranges.simps [simp del]

definition range_failed :: "block_range \<Rightarrow> exn" where
  "range_failed r =
     Exn DiscoveryRangeFailed
       (''RPC failed for ['' @ py_int (br_start r) @ '', '' @ py_int (br_end r) @
        ''); coverage was not advanced'')"

definition limit_failed :: "block_range \<Rightarrow> exn" where
  "limit_failed r =
     Exn DiscoveryRangeFailed
       (''provider cannot return complete logs for block '' @ py_int (br_start r))"

definition cap_failed :: "block_range \<Rightarrow> exn" where
  "cap_failed r =
     Exn DiscoveryRangeFailed
       (''block '' @ py_int (br_start r) @ '' reached the provider result cap'')"

text \<open>
  What one turn of the loop does with a range: split it, fail, or complete it with the
  parsed logs and the endpoint's fingerprint.
\<close>

datatype turn =
    Split block_range block_range
  | Fail exn
  | Complete "normalized_log list" string

definition split_or_fail :: "block_range \<Rightarrow> exn \<Rightarrow> turn" where
  "split_or_fail r e =
     (if br_size r = 1 then Fail e
      else case split_range r of Inl x \<Rightarrow> Fail x | Inr (left, right) \<Rightarrow> Split left right)"

definition scan_turn ::
  "'s rpc_caller \<Rightarrow> int \<Rightarrow> log_filter \<Rightarrow> block_range \<Rightarrow> 's \<Rightarrow> turn \<times> 's" where
  "scan_turn rpc_call result_cap f r s =
     (case read_range rpc_call f r s of
        (Inl e, s1) \<Rightarrow>
          (if isinstance e RpcProviderLimit then split_or_fail r (limit_failed r)
           else if isinstance e DiscoveryError then Fail e
           else Fail (range_failed r), s1)
      | (Inr (raw_logs, endpoint), s1) \<Rightarrow>
          (if int (length raw_logs) \<ge> result_cap then split_or_fail r (cap_failed r)
           else case map_res (parse_log f r) raw_logs of
                  Inl e \<Rightarrow> Fail e
                | Inr parsed \<Rightarrow>
                    (case fingerprint endpoint of
                       Inl e \<Rightarrow> Fail e | Inr fp \<Rightarrow> Complete parsed fp), s1))"

lemma split_or_fail_sizes:
  "split_or_fail r e = Split l q \<Longrightarrow> 2 \<le> br_size r \<and> br_size l + br_size q = br_size r
     \<and> 1 \<le> br_size l \<and> 1 \<le> br_size q"
  by (auto simp: split_or_fail_def split_range_def br_size_def Let_def raise_res_def
      split: if_splits sum.splits)

lemma scan_turn_sizes:
  "scan_turn rpc_call cap f r s = (Split l q, s') \<Longrightarrow> 2 \<le> br_size r \<and> br_size l + br_size q = br_size r
     \<and> 1 \<le> br_size l \<and> 1 \<le> br_size q"
  by (auto simp: scan_turn_def dest: split_or_fail_sizes split: prod.splits sum.splits if_splits)

text \<open>
  The work left: a range of \<open>n\<close> blocks is read at most \<open>2 n - 1\<close> times, whatever the provider
  does.
\<close>

definition work :: "block_range list \<Rightarrow> nat" where
  "work rs = sum_list (map (\<lambda>r. nat (max 1 (2 * br_size r - 1))) rs)"

text \<open>
  The \<open>while pending\<close> loop. The head of \<open>pending\<close> is the range \<open>pop()\<close> returns: the code keeps the
  stack reversed and pushes \<open>right\<close> before \<open>left\<close>.
\<close>

function scan_loop ::
  "'s rpc_caller \<Rightarrow> int \<Rightarrow> log_filter \<Rightarrow> block_range list \<Rightarrow> completed_range list
   \<Rightarrow> normalized_log list \<Rightarrow> ('s, completed_range list \<times> normalized_log list) io" where
  "scan_loop rpc_call cap f [] completed logs s = (Inr (completed, logs), s)"
| "scan_loop rpc_call cap f (r # pending) completed logs s =
     (case scan_turn rpc_call cap f r s of
        (Fail e, s1) \<Rightarrow> (Inl e, s1)
      | (Split left right, s1) \<Rightarrow>
          scan_loop rpc_call cap f (left # right # pending) completed logs s1
      | (Complete parsed fp, s1) \<Rightarrow>
          scan_loop rpc_call cap f pending
            (completed @ [\<lparr>cr_block_range = r, cr_log_count = length parsed,
                           cr_endpoint_fingerprint = fp\<rparr>])
            (logs @ parsed) s1)"
  by pat_completeness auto
termination
  by (relation "measure (\<lambda>(_, _, _, pending, _). work pending)")
    (auto simp: work_def dest!: scan_turn_sizes [OF sym])

declare scan_loop.simps(2) [simp del]

lemma scan_loop_turns:
  "scan_turn rpc_call cap f r s = (Split l q, s1) \<Longrightarrow>
     scan_loop rpc_call cap f (r # pending) completed logs s
       = scan_loop rpc_call cap f (l # q # pending) completed logs s1"
  "scan_turn rpc_call cap f r s = (Fail e, s1) \<Longrightarrow>
     scan_loop rpc_call cap f (r # pending) completed logs s = (Inl e, s1)"
  "scan_turn rpc_call cap f r s = (Complete parsed fp, s1) \<Longrightarrow>
     scan_loop rpc_call cap f (r # pending) completed logs s
       = scan_loop rpc_call cap f pending
           (completed @ [\<lparr>cr_block_range = r, cr_log_count = length parsed,
                          cr_endpoint_fingerprint = fp\<rparr>]) (logs @ parsed) s1"
  by (simp_all add: scan_loop.simps(2))

definition uncovered_failed :: "block_range list \<Rightarrow> exn" where
  "uncovered_failed gaps =
     Exn DiscoveryRangeFailed
       (''scanner finished with uncovered ranges: ('' @
        join '', '' (map (\<lambda>g. ''BlockRange(start='' @ py_int (br_start g) @ '', end_exclusive='' @
          py_int (br_end g) @ '')'') gaps) @ (if length gaps = 1 then '',)'' else '')''))"

definition scan_filter ::
  "'s rpc_caller \<Rightarrow> int \<Rightarrow> int \<Rightarrow> log_filter \<Rightarrow> int \<Rightarrow> int \<Rightarrow> ('s, discovery_scan) io" where
  "scan_filter rpc_call chunk_size result_cap f start_block end_block =
     bind_io (lift_res (mk_block_range start_block end_block)) (\<lambda>requested.
     bind_io (scan_loop rpc_call result_cap f
                (chunk_ranges chunk_size (br_start requested) (br_end requested)) [] [])
       (\<lambda>(completed, logs).
       let ordered = sort_key cr_block_range completed;
           gaps = coverage_gaps requested (map cr_block_range ordered) in
       if gaps \<noteq> [] then raise (uncovered_failed gaps)
       else bind_io (lift_res (deduplicate_logs logs)) (\<lambda>unique.
              ret \<lparr>ds_requested_range = requested, ds_completed_ranges = ordered,
                   ds_logs = unique\<rparr>)))"

definition mk_scanner :: "int \<Rightarrow> int \<Rightarrow> (int \<times> int) res" where
  "mk_scanner chunk_size result_cap =
     (if chunk_size < 1 \<or> result_cap < 1
      then raise_res ValueError ''chunk size and provider result cap must be positive''
      else Inr (chunk_size, result_cap))"

definition scan ::
  "'s rpc_caller \<Rightarrow> int \<Rightarrow> int \<Rightarrow> string \<Rightarrow> string \<Rightarrow> int \<Rightarrow> int \<Rightarrow> ('s, discovery_scan) io" where
  "scan rpc_call chunk_size result_cap token_address topic0 start_block end_block =
     (if \<not> LOWER_ADDRESS_RE token_address
      then raise (Exn ValueError ''token_address must be normalized lowercase 0x hex'')
      else bind_io (lift_res (parse_hash (JStr topic0) ''topic0'')) (\<lambda>normalized_topic0.
           bind_io (lift_res (mk_log_filter (Some token_address) [Some [normalized_topic0]])) (\<lambda>f.
             scan_filter rpc_call chunk_size result_cap f start_block end_block)))"

subsection \<open>Lemmas: parsing\<close>

text \<open>A log the filter asks for.\<close>

definition in_scope :: "log_filter \<Rightarrow> normalized_log \<Rightarrow> bool" where
  "in_scope f l \<longleftrightarrow> matches_topics f (lg_topics l)
     \<and> (case lf_address f of None \<Rightarrow> True | Some a \<Rightarrow> lg_address l = a)"

lemma parse_log_scope:
  assumes "parse_log f r v = Inr l"
  shows "lg_block_number l \<in> blocks_of r \<and> in_scope f l"
proof -
  from assms obtain kvs where v: "v = JObj kvs" by (cases v) (auto simp: parse_log_def)
  have a: "parse_log_address f j = Inr a \<Longrightarrow> lf_address f = Some b \<Longrightarrow> a = b" for j a b
    by (auto simp: parse_log_address_def split: json.splits if_splits option.splits)
  have t: "parse_topics f j = Inr ts \<Longrightarrow> matches_topics f ts" for j ts
    by (auto simp: parse_topics_def bind_res_def split: json.splits list.splits if_splits sum.splits)
  from assms show ?thesis unfolding v parse_log_def
    by (auto simp: res_simps in_scope_def blocks_of_def dest: a t split: if_splits option.splits)
qed

lemma map_res_parse_scope:
  "map_res (parse_log f r) raw = Inr ls \<Longrightarrow> l \<in> set ls \<Longrightarrow> lg_block_number l \<in> blocks_of r \<and> in_scope f l"
  by (auto simp: res_simps list_all2_conv_all_nth in_set_conv_nth dest!: parse_log_scope)

subsection \<open>Lemmas: deduplication\<close>

definition dict_ok :: "((string \<times> string \<times> int) \<times> normalized_log) list \<Rightarrow> bool" where
  "dict_ok d \<longleftrightarrow> distinct (map fst d) \<and> (\<forall>(k, l) \<in> set d. k = log_identity l)"

lemma dedup_loop_spec:
  assumes "dict_ok seen" and "dedup_loop seen ls = Inr d"
  shows "dict_ok d \<and> snd ` set d = snd ` set seen \<union> set ls"
  using assms
proof (induction seen ls rule: dedup_loop.induct)
  case (2 seen l ls)
  show ?case
  proof (cases "map_of seen (log_identity l)")
    case None
    then have "dict_ok (seen @ [(log_identity l, l)])"
      using 2(3) by (auto simp: dict_ok_def map_of_eq_None_iff)
    from 2(1) [OF None this] None 2(4) show ?thesis by auto
  next
    case (Some p)
    with 2(4) have "p = l" "dedup_loop seen ls = Inr d" by (auto split: if_splits)
    moreover have "l \<in> snd ` set seen" using Some \<open>p = l\<close> by (force dest: map_of_SomeD)
    ultimately show ?thesis using 2(2) [OF Some] 2(3) by auto
  qed
qed auto

lemma dedup_loop_returns:
  assumes "dict_ok seen" and "inj_on log_identity (snd ` set seen \<union> set ls)"
  shows "\<exists>d. dedup_loop seen ls = Inr d"
  using assms
proof (induction seen ls rule: dedup_loop.induct)
  case (2 seen l ls)
  show ?case
  proof (cases "map_of seen (log_identity l)")
    case None
    then have "dict_ok (seen @ [(log_identity l, l)])"
      using 2(3) by (auto simp: dict_ok_def map_of_eq_None_iff)
    with 2(1) [OF None] 2(4) None show ?thesis by (simp add: insert_commute)
  next
    case (Some p)
    then have m: "(log_identity l, p) \<in> set seen" by (rule map_of_SomeD)
    with 2(3) have "log_identity p = log_identity l" by (auto simp: dict_ok_def)
    moreover have "p \<in> snd ` set seen" using m by force
    ultimately have "p = l" using inj_onD [OF 2(4), of p l] by simp
    with Some 2(2) [OF Some] 2(3,4) m show ?thesis
      by (auto intro: inj_on_subset)
  qed
qed auto

lemma deduplicate_logs_spec:
  assumes "deduplicate_logs ls = Inr us"
  shows "set us = set ls \<and> distinct (map log_identity us) \<and> sorted (map log_sort_key us)"
proof -
  from assms obtain d where d: "dedup_loop [] ls = Inr d" and us: "us = sort_key log_sort_key (map snd d)"
    by (auto simp: deduplicate_logs_def res_simps)
  have ok: "dict_ok d" "snd ` set d = set ls"
    using dedup_loop_spec [OF _ d] by (auto simp: dict_ok_def)
  have ids: "map log_identity (map snd d) = map fst d"
    using ok(1) by (auto simp: dict_ok_def)
  have "distinct (map log_identity (map snd d))" unfolding ids using ok(1) by (simp add: dict_ok_def)
  moreover have "mset (map log_identity us) = mset (map log_identity (map snd d))"
    unfolding us by (metis mset_map mset_sort)
  ultimately have "distinct (map log_identity us)" by (metis mset_eq_imp_distinct_iff)
  then show ?thesis using ok us by simp
qed

lemma deduplicate_logs_returns: "inj_on log_identity (set ls) \<Longrightarrow> \<exists>us. deduplicate_logs ls = Inr us"
  using dedup_loop_returns [of "[]" ls] by (auto simp: deduplicate_logs_def dict_ok_def)

subsection \<open>Lemmas: the scan\<close>

text \<open>\<open>tiles a b rs\<close>: the ranges follow one another from \<open>a\<close> to \<open>b\<close> without gap or overlap.\<close>

fun tiles :: "int \<Rightarrow> int \<Rightarrow> block_range list \<Rightarrow> bool" where
  "tiles a b [] \<longleftrightarrow> a = b"
| "tiles a b (r # rs) \<longleftrightarrow> br_start r = a \<and> valid_range r \<and> tiles (br_end r) b rs"

lemma tiles_le: "tiles a b rs \<Longrightarrow> a \<le> b"
  by (induction rs arbitrary: a) (fastforce simp: valid_range_def)+

lemma tiles_blocks: "tiles a b rs \<Longrightarrow> blocks rs = {a..<b} \<and> list_all valid_range rs"
proof (induction rs arbitrary: a)
  case (Cons r rs)
  then have r: "valid_range r" "br_start r = a" "tiles (br_end r) b rs" by auto
  with Cons.IH tiles_le have "blocks rs = {br_end r..<b}" "list_all valid_range rs" "br_end r \<le> b"
    by blast+
  moreover have "a < br_end r" using r by (simp add: valid_range_def)
  ultimately show ?case using r by (auto simp: blocks_of_def)
qed simp

lemma tiles_sorted: "tiles a b rs \<Longrightarrow> sorted rs \<and> distinct rs \<and> (\<forall>r \<in> set rs. a \<le> br_start r)"
proof (induction rs arbitrary: a)
  case (Cons r rs)
  then have ih: "sorted rs" "distinct rs" "\<forall>q \<in> set rs. br_end r \<le> br_start q"
    and r: "br_start r = a" "a < br_end r" by (auto simp: valid_range_def)
  have "\<forall>q \<in> set rs. r \<le> q \<and> r \<noteq> q \<and> a \<le> br_start q"
    using ih(3) r by (auto simp: less_eq_block_range_def)
  with ih r show ?case by auto
qed simp

lemma tiles_chunk_ranges:
  "0 < n \<Longrightarrow> 0 \<le> a \<Longrightarrow> a \<le> b \<Longrightarrow> tiles a b (chunk_ranges n a b)"
proof (induction n a b rule: chunk_ranges.induct)
  case (1 n a b)
  show ?case
  proof (cases "a < b")
    case True
    then have "tiles (min (a + n) b) b (chunk_ranges n (min (a + n) b) b)"
      using 1 by simp
    with True 1(2,3) show ?thesis
      by (subst chunk_ranges.simps) (simp add: Let_def valid_range_def)
  next
    case False
    with 1(4) show ?thesis by (subst chunk_ranges.simps) simp
  qed
qed

lemma tiles_split:
  assumes "tiles a b (r # rs)" and "split_range r = Inr (l, q)"
  shows "tiles a b (l # q # rs)"
  using split_range_spec [OF assms(2)] assms(1) by simp

text \<open>A completed range is one that the caller answered, below the cap, with entries that all
  parse.\<close>

definition reads ::
  "'s rpc_caller \<Rightarrow> int \<Rightarrow> log_filter \<Rightarrow> block_range \<Rightarrow> normalized_log list \<Rightarrow> string \<Rightarrow> bool" where
  "reads rpc_call cap f r parsed fp \<longleftrightarrow>
     (\<exists>s s1 raw ep. read_range rpc_call f r s = (Inr (raw, ep), s1) \<and> int (length raw) < cap
        \<and> map_res (parse_log f r) raw = Inr parsed \<and> fingerprint ep = Inr fp)"

lemma scan_turn_Complete:
  "scan_turn rpc_call cap f r s = (Complete parsed fp, s') \<Longrightarrow> reads rpc_call cap f r parsed fp"
  by (force simp: scan_turn_def reads_def split_or_fail_def
      split: prod.splits sum.splits if_splits)

lemma scan_turn_Split:
  "scan_turn rpc_call cap f r s = (Split l q, s') \<Longrightarrow> split_range r = Inr (l, q)"
  by (auto simp: scan_turn_def split_or_fail_def split: prod.splits sum.splits if_splits)

definition completes ::
  "'s rpc_caller \<Rightarrow> int \<Rightarrow> log_filter \<Rightarrow> completed_range list \<Rightarrow> normalized_log list list \<Rightarrow> bool" where
  "completes rpc_call cap f cs ps \<longleftrightarrow>
     list_all2 (\<lambda>c p. reads rpc_call cap f (cr_block_range c) p (cr_endpoint_fingerprint c)
                   \<and> cr_log_count c = length p) cs ps"

lemma scan_loop_spec:
  assumes "scan_loop rpc_call cap f pending completed logs s = (Inr (completed', logs'), s')"
    and "tiles a b pending"
  shows "\<exists>cs ps. completed' = completed @ cs \<and> logs' = logs @ concat ps
    \<and> tiles a b (map cr_block_range cs) \<and> completes rpc_call cap f cs ps"
  using assms
proof (induction rpc_call cap f pending completed logs s arbitrary: a rule: scan_loop.induct)
  case (1 rpc_call cap f completed logs s)
  then show ?case by (auto simp: completes_def intro!: exI [of _ "[]"])
next
  case (2 rpc_call cap f r pending completed logs s)
  note IHsplit = 2(1) and IHdone = 2(2) and run = 2(3) and tl = 2(4)
  obtain t s1 where t: "scan_turn rpc_call cap f r s = (t, s1)" by fastforce
  show ?case
  proof (cases t)
    case (Split l q)
    with t run have "scan_loop rpc_call cap f (l # q # pending) completed logs s1
        = (Inr (completed', logs'), s')" by (simp add: scan_loop_turns)
    from IHsplit [OF t [symmetric] Split this tiles_split [OF tl scan_turn_Split]] t Split
    show ?thesis by simp
  next
    case (Complete parsed fp)
    let ?c = "\<lparr>cr_block_range = r, cr_log_count = length parsed, cr_endpoint_fingerprint = fp\<rparr>"
    from Complete t run have "scan_loop rpc_call cap f pending (completed @ [?c]) (logs @ parsed) s1
        = (Inr (completed', logs'), s')" by (simp add: scan_loop_turns)
    from IHdone [OF t [symmetric] Complete this, of "br_end r"] tl obtain cs ps where
      ih: "completed' = completed @ ?c # cs" "logs' = logs @ parsed @ concat ps"
        "tiles (br_end r) b (map cr_block_range cs)" "completes rpc_call cap f cs ps" by auto
    have "reads rpc_call cap f r parsed fp" by (rule scan_turn_Complete [OF t [unfolded Complete]])
    with ih tl have "completed' = completed @ (?c # cs)" "logs' = logs @ concat (parsed # ps)"
      "tiles a b (map cr_block_range (?c # cs))" "completes rpc_call cap f (?c # cs) (parsed # ps)"
      by (auto simp: completes_def)
    then show ?thesis by blast
  qed (use t run in \<open>simp add: scan_loop_turns\<close>)
qed

lemma sort_completed: "tiles a b (map cr_block_range cs) \<Longrightarrow> sort_key cr_block_range cs = cs"
  by (rule sort_key_id_if_sorted) (simp add: tiles_sorted)

lemma no_gaps_tiles:
  assumes "valid_range req" and "tiles (br_start req) (br_end req) rs"
  shows "coverage_gaps req rs = []"
  using cov.no_gap_iff [OF assms(1)] tiles_blocks [OF assms(2)] by (simp add: blocks_of_def)

text \<open>The final gap check of \<open>scan_filter\<close> never fires: what the loop completes tiles the request.\<close>

lemma scan_filter_unfold:
  assumes "0 < n" and "valid_range (BlockRange a b)"
  shows "scan_filter rpc_call n cap f a b s =
    (case scan_loop rpc_call cap f (chunk_ranges n a b) [] [] s of
       (Inl e, s1) \<Rightarrow> (Inl e, s1)
     | (Inr (completed, logs), s1) \<Rightarrow>
         (bind_res (deduplicate_logs logs) (\<lambda>us. Inr \<lparr>ds_requested_range = BlockRange a b,
            ds_completed_ranges = completed, ds_logs = us\<rparr>), s1))"
proof -
  have req: "mk_block_range a b = Inr (BlockRange a b)" using assms(2) by (simp add: res_simps)
  have "tiles a b (chunk_ranges n a b)"
    using assms by (intro tiles_chunk_ranges) (auto simp: valid_range_def)
  then have "tiles a b (map cr_block_range completed)"
    if "scan_loop rpc_call cap f (chunk_ranges n a b) [] [] s = (Inr (completed, logs), s1)"
    for completed logs s1
    using scan_loop_spec [OF that] by auto
  then have "sort_key cr_block_range completed = completed"
    "coverage_gaps (BlockRange a b) (map cr_block_range completed) = []"
    if "scan_loop rpc_call cap f (chunk_ranges n a b) [] [] s = (Inr (completed, logs), s1)"
    for completed logs s1
    using that sort_completed no_gaps_tiles [OF assms(2)] by fastforce+
  then show ?thesis
    by (auto simp: scan_filter_def req bind_io_def bind_res_def Let_def split: prod.splits sum.splits)
qed

lemma scan_filter_spec:
  assumes "0 < n" and "scan_filter rpc_call n cap f a b s = (Inr d, s')"
  shows "ds_requested_range d = BlockRange a b \<and> valid_range (BlockRange a b)
    \<and> (\<exists>ps. tiles a b (map cr_block_range (ds_completed_ranges d))
         \<and> completes rpc_call cap f (ds_completed_ranges d) ps
         \<and> deduplicate_logs (concat ps) = Inr (ds_logs d))"
proof -
  from assms(2) have v: "valid_range (BlockRange a b)"
    by (auto simp: scan_filter_def io_simps res_simps)
  have t: "tiles a b (chunk_ranges n a b)"
    using assms(1) v by (intro tiles_chunk_ranges) (auto simp: valid_range_def)
  from assms(2) obtain completed logs s1 where
    run: "scan_loop rpc_call cap f (chunk_ranges n a b) [] [] s = (Inr (completed, logs), s1)"
    and us: "deduplicate_logs logs = Inr (ds_logs d)"
    and d: "ds_requested_range d = BlockRange a b" "ds_completed_ranges d = completed"
    unfolding scan_filter_unfold [OF assms(1) v]
    by (auto simp: res_simps split: prod.splits sum.splits)
  from scan_loop_spec [OF run t] obtain ps where "logs = concat ps"
    "tiles a b (map cr_block_range completed)" "completes rpc_call cap f completed ps" by auto
  with us d v show ?thesis by auto
qed

subsection \<open>Lemmas: progress under an honest provider\<close>

text \<open>
  The documented behaviour of \<open>eth_getLogs\<close>, as the scanner sees it: over the required blocks a
  read either reports a provider limit (never for a single block) or answers; an answer below
  the cap holds exactly the chain's logs of that range that are in the filter's scope.
\<close>

definition honest_provider ::
  "'s rpc_caller \<Rightarrow> int \<Rightarrow> log_filter \<Rightarrow> normalized_log set \<Rightarrow> block_range \<Rightarrow> bool" where
  "honest_provider rpc_call cap f chain req \<longleftrightarrow>
     (\<forall>r s. valid_range r \<and> blocks_of r \<subseteq> blocks_of req \<longrightarrow>
        (case fst (read_range rpc_call f r s) of
           Inl e \<Rightarrow> isinstance e RpcProviderLimit \<and> 1 < br_size r
         | Inr (raw, ep) \<Rightarrow> returned (fingerprint ep) \<and> (br_size r = 1 \<longrightarrow> int (length raw) < cap)
             \<and> (int (length raw) < cap \<longrightarrow>
                 (\<exists>ls. map_res (parse_log f r) raw = Inr ls
                    \<and> set ls = {l \<in> chain. lg_block_number l \<in> blocks_of r \<and> in_scope f l}))))"

lemma split_or_fail_large: "valid_range r \<Longrightarrow> br_size r \<noteq> 1 \<Longrightarrow> \<exists>l q. split_or_fail r e = Split l q"
  by (auto simp: split_or_fail_def split_range_def Let_def valid_range_def br_size_def)

lemma honest_turn:
  assumes "honest_provider rpc_call cap f chain req" and "valid_range r" and "blocks_of r \<subseteq> blocks_of req"
  shows "\<exists>t s1. scan_turn rpc_call cap f r s = (t, s1) \<and> (\<forall>e. t \<noteq> Fail e)"
proof -
  obtain x s1 where rr: "read_range rpc_call f r s = (x, s1)" by fastforce
  have h: "case x of
           Inl e \<Rightarrow> isinstance e RpcProviderLimit \<and> 1 < br_size r
         | Inr (raw, ep) \<Rightarrow> returned (fingerprint ep) \<and> (br_size r = 1 \<longrightarrow> int (length raw) < cap)
             \<and> (int (length raw) < cap \<longrightarrow> (\<exists>ls. map_res (parse_log f r) raw = Inr ls))"
    using assms(1) [unfolded honest_provider_def, rule_format, OF conjI [OF assms(2,3)], of s] rr
    by (auto split: sum.splits)
  show ?thesis
  proof (cases x)
    case (Inl e)
    with h have "isinstance e RpcProviderLimit" "br_size r \<noteq> 1" by auto
    with Inl rr split_or_fail_large [OF assms(2)] show ?thesis by (fastforce simp: scan_turn_def)
  next
    case (Inr p)
    then obtain raw ep where p: "x = Inr (raw, ep)" by (cases p) auto
    show ?thesis
    proof (cases "int (length raw) < cap")
      case True
      with h p obtain ls fp where "map_res (parse_log f r) raw = Inr ls" "fingerprint ep = Inr fp"
        by (auto simp: returned_def)
      with True rr p show ?thesis by (simp add: scan_turn_def)
    next
      case False
      with h p have "br_size r \<noteq> 1" by auto
      with False rr p split_or_fail_large [OF assms(2)] show ?thesis by (fastforce simp: scan_turn_def)
    qed
  qed
qed

lemma honest_scan_loop:
  assumes "honest_provider rpc_call cap f chain req"
    and "list_all (\<lambda>r. valid_range r \<and> blocks_of r \<subseteq> blocks_of req) pending"
  shows "\<exists>x s'. scan_loop rpc_call cap f pending completed logs s = (Inr x, s')"
  using assms
proof (induction rpc_call cap f pending completed logs s rule: scan_loop.induct)
  case (2 rpc_call cap f r pending completed logs s)
  note IHsplit = 2(1) and IHdone = 2(2) and hon = 2(3) and all = 2(4)
  from honest_turn [OF hon, of r s] all obtain t s1 where
    t: "scan_turn rpc_call cap f r s = (t, s1)" "\<forall>e. t \<noteq> Fail e" by auto
  show ?case
  proof (cases t)
    case (Split l q)
    have "valid_range l \<and> valid_range q \<and> blocks_of l \<union> blocks_of q = blocks_of r"
      using split_range_spec [OF scan_turn_Split [OF t(1) [unfolded Split]]] all by simp
    then have "list_all (\<lambda>r. valid_range r \<and> blocks_of r \<subseteq> blocks_of req) (l # q # pending)"
      using all by auto
    from IHsplit [OF t(1) [symmetric] Split hon this] t(1) Split show ?thesis
      by (simp add: scan_loop_turns(1))
  next
    case (Complete parsed fp)
    with IHdone [OF t(1) [symmetric] Complete hon] all t(1) show ?thesis by (simp add: scan_loop_turns)
  qed (use t in simp)
qed auto

lemma honest_reads:
  assumes "honest_provider rpc_call cap f chain req" and "valid_range r" and "blocks_of r \<subseteq> blocks_of req"
    and "reads rpc_call cap f r parsed fp"
  shows "set parsed = {l \<in> chain. lg_block_number l \<in> blocks_of r \<and> in_scope f l}"
proof -
  from assms(4) obtain s s1 raw ep where r: "read_range rpc_call f r s = (Inr (raw, ep), s1)"
    "int (length raw) < cap" "map_res (parse_log f r) raw = Inr parsed"
    unfolding reads_def by blast
  from assms(1) [unfolded honest_provider_def, rule_format, OF conjI [OF assms(2,3)], of s] r
  show ?thesis by auto
qed

lemma honest_completes:
  assumes "honest_provider rpc_call cap f chain req"
    and "list_all valid_range (map cr_block_range cs)" and "blocks (map cr_block_range cs) \<subseteq> blocks_of req"
    and "completes rpc_call cap f cs ps"
  shows "set (concat ps)
    = {l \<in> chain. lg_block_number l \<in> blocks (map cr_block_range cs) \<and> in_scope f l}"
  using assms(4,2,3) unfolding completes_def
proof (induction cs ps rule: list_all2_induct)
  case (Cons c cs p ps)
  then have "set p = {l \<in> chain. lg_block_number l \<in> blocks_of (cr_block_range c) \<and> in_scope f l}"
    using honest_reads [OF assms(1)] by auto
  with Cons show ?case by auto
qed simp

lemma tiles_frontier:
  assumes "tiles a b rs" and "0 \<le> a"
  shows "contiguous_frontier a rs = Inr b"
proof -
  note t = tiles_blocks [OF assms(1)]
  have "list_all valid_range rs" using t by blast
  note m = merge_coverage_spec [OF this]
  let ?f = "frontier_loop a (merge_coverage rs)"
  have f: "a \<le> ?f" "{a ..< ?f} \<subseteq> {a..<b}" "?f \<notin> {a..<b}"
    using frontier_loop_spec [OF m(3,2), of a] m(1) t by auto
  have "?f = b"
  proof (rule antisym)
    show "?f \<le> b" using f(2) tiles_le [OF assms(1)] f(1) by (cases "a < ?f") auto
    show "b \<le> ?f" using f(1,3) by auto
  qed
  with assms(2) show ?thesis by (simp add: contiguous_frontier_def)
qed

lemma reads_scope:
  "reads rpc_call cap f r p fp \<Longrightarrow> l \<in> set p \<Longrightarrow> lg_block_number l \<in> blocks_of r \<and> in_scope f l"
  unfolding reads_def using map_res_parse_scope by blast

lemma completes_scope:
  assumes "completes rpc_call cap f cs ps" and "l \<in> set (concat ps)"
  shows "lg_block_number l \<in> blocks (map cr_block_range cs) \<and> in_scope f l"
  using assms unfolding completes_def
  by (induction cs ps rule: list_all2_induct) (auto dest: reads_scope)

subsection \<open>Properties\<close>

text \<open>A provider with no matching logs that refuses every range of more than one block.\<close>

definition one_block_caller :: "unit rpc_caller" where
  "one_block_caller method params hb eip s =
     (case params of
        [JObj kvs] \<Rightarrow>
          if obj_get kvs ''fromBlock'' = obj_get kvs ''toBlock''
          then (Inr (JArr [], sample_endpoint ''http://a''), s)
          else (Inl (Exn RpcProviderLimit ''block range too wide''), s)
      | _ \<Rightarrow> (Inl (Exn TypeError ''parameters''), s))"

lemma sample_fingerprint: "returned (fingerprint (sample_endpoint ''http://a''))"
  by (simp add: fingerprint_def sample_endpoint_def sanitized_url_def url_scheme_rest_def url_clean_def
      url_netloc_def url_hostport_def after_last_def before_first_def after_first_def is_letter_def
      is_scheme_char_def is_digit_def lower_char_def Let_def char_nat_def)

lemma one_block_honest: "honest_provider one_block_caller 10 f {} req"
proof -
  have wide: "1 < br_end r - br_start r"
    if "valid_range r" "py_hex (br_start r) \<noteq> py_hex (br_end r - 1)" for r
  proof (rule ccontr)
    assume "\<not> 1 < br_end r - br_start r"
    with that(1) have "br_start r = br_end r - 1" by (auto simp: valid_range_def)
    with that(2) show False by simp
  qed
  then show ?thesis unfolding honest_provider_def
    by (auto simp: read_range_def one_block_caller_def bind_io_def filter_params_def Let_def obj_get_def
        sample_fingerprint is_subclass_def br_size_def dest: wide split: option.splits)
qed

text \<open>
  C5: a scan never skips a block. When \<open>scan_filter\<close> returns, whatever the caller did, the
  completed ranges follow one another from the first to the last requested block without gap
  or overlap, so the frontier is the end of the request; each was answered below the result
  cap with entries that all parsed; the logs are exactly those entries, one per identity, all
  in the requested range and in the filter's scope.
\<close>

theorem scan_gap_free:
  assumes "0 < chunk_size" and "scan_filter rpc_call chunk_size cap f a b s = (Inr d, s')"
  shows "tiles a b (map cr_block_range (ds_completed_ranges d)) \<and> scan_frontier d = Inr b
    \<and> (\<exists>ps. completes rpc_call cap f (ds_completed_ranges d) ps
         \<and> set (ds_logs d) = set (concat ps))
    \<and> distinct (map log_identity (ds_logs d))
    \<and> (\<forall>l \<in> set (ds_logs d). a \<le> lg_block_number l \<and> lg_block_number l < b \<and> in_scope f l)"
proof -
  from scan_filter_spec [OF assms] obtain ps where
    t: "tiles a b (map cr_block_range (ds_completed_ranges d))"
    and c: "completes rpc_call cap f (ds_completed_ranges d) ps"
    and u: "deduplicate_logs (concat ps) = Inr (ds_logs d)"
    and req: "ds_requested_range d = BlockRange a b" "valid_range (BlockRange a b)" by blast
  note us = deduplicate_logs_spec [OF u]
  have "scan_frontier d = Inr b"
    using tiles_frontier [OF t] req by (simp add: scan_frontier_def valid_range_def)
  moreover have "a \<le> lg_block_number l \<and> lg_block_number l < b \<and> in_scope f l"
    if "l \<in> set (ds_logs d)" for l
    using completes_scope [OF c, of l] that us tiles_blocks [OF t] by auto
  ultimately show ?thesis using t c us by blast
qed

theorem scan_gap_free_witness:
  "\<exists>d. scan_frontier d = Inr 4 \<and> tiles 0 4 (map cr_block_range (ds_completed_ranges d))"
proof -
  let ?f = "\<lparr>lf_address = None, lf_topics = []\<rparr>"
  have v: "valid_range (BlockRange 0 4)" by (simp add: valid_range_def)
  have t: "tiles 0 4 (chunk_ranges 3 0 4)" by (rule tiles_chunk_ranges) auto
  then have "list_all (\<lambda>r. valid_range r \<and> blocks_of r \<subseteq> blocks_of (BlockRange 0 4)) (chunk_ranges 3 0 4)"
    using tiles_blocks [OF t] by (auto simp: list_all_iff blocks_def)
  from honest_scan_loop [OF one_block_honest this] obtain c ls s1 where
    l: "scan_loop one_block_caller 10 ?f (chunk_ranges 3 0 4) [] [] () = (Inr (c, ls), s1)" by fastforce
  from scan_loop_spec [OF l t] obtain cs ps where "completes one_block_caller 10 ?f cs ps"
    "tiles 0 4 (map cr_block_range cs)" "ls = concat ps" by auto
  with honest_completes [OF one_block_honest [of ?f "BlockRange 0 4"], of cs ps] tiles_blocks
  have "set ls = {}" by auto
  then have "ls = []" by simp
  with l scan_filter_unfold [of 3 0 4 one_block_caller 10 ?f "()"] v
  obtain d s' where "scan_filter one_block_caller 3 10 ?f 0 4 () = (Inr d, s')"
    by (auto simp: deduplicate_logs_def)
  from scan_gap_free [OF _ this] show ?thesis by auto
qed

text \<open>
  C19: the adaptive scan is total and complete. Under a provider that behaves as
  documented (answers below the cap are complete; limits are reported, and a single block can
  always be read) and a chain whose log identities are unique, every scan of a valid range
  returns, however often ranges are refused or truncated at the cap, and the logs it returns
  are exactly the chain's logs of the requested blocks in the filter's scope.
\<close>

theorem scan_total_and_complete:
  assumes "honest_provider rpc_call cap f chain (BlockRange a b)" and "0 < chunk_size"
    and "0 \<le> a" and "a < b" and "inj_on log_identity chain"
  shows "\<exists>d s'. scan_filter rpc_call chunk_size cap f a b s = (Inr d, s')
    \<and> set (ds_logs d) = {l \<in> chain. a \<le> lg_block_number l \<and> lg_block_number l < b \<and> in_scope f l}"
proof -
  have v: "valid_range (BlockRange a b)" using assms by (simp add: valid_range_def)
  have t: "tiles a b (chunk_ranges chunk_size a b)" using assms by (intro tiles_chunk_ranges) auto
  then have "list_all (\<lambda>r. valid_range r \<and> blocks_of r \<subseteq> blocks_of (BlockRange a b))
      (chunk_ranges chunk_size a b)"
    using tiles_blocks [OF t] by (auto simp: list_all_iff blocks_def)
  from honest_scan_loop [OF assms(1) this] obtain cs ls s1 where
    l: "scan_loop rpc_call cap f (chunk_ranges chunk_size a b) [] [] s = (Inr (cs, ls), s1)" by fastforce
  from scan_loop_spec [OF l t] obtain ps where c: "completes rpc_call cap f cs ps"
    "tiles a b (map cr_block_range cs)" "ls = concat ps" by auto
  have ls: "set ls = {l \<in> chain. lg_block_number l \<in> {a..<b} \<and> in_scope f l}"
    using honest_completes [OF assms(1) _ _ c(1)] tiles_blocks [OF c(2)] c(3) by simp
  have "inj_on log_identity (set ls)" using assms(5) ls by (auto intro: inj_on_subset)
  with deduplicate_logs_returns obtain us where us: "deduplicate_logs ls = Inr us" by blast
  with l scan_filter_unfold [OF assms(2) v, of rpc_call cap f s]
  have "scan_filter rpc_call chunk_size cap f a b s = (Inr \<lparr>ds_requested_range = BlockRange a b,
      ds_completed_ranges = cs, ds_logs = us\<rparr>, s1)" by simp
  then show ?thesis using deduplicate_logs_spec [OF us] ls by auto
qed

theorem scan_total_and_complete_witness:
  "\<exists>d s'. scan_filter one_block_caller 3 10 \<lparr>lf_address = None, lf_topics = []\<rparr> 0 4 ()
     = (Inr d, s') \<and> ds_logs d = []"
  using scan_total_and_complete [OF one_block_honest, of 3 0 4 "\<lparr>lf_address = None, lf_topics = []\<rparr>" "()"]
  by auto

text \<open>
  \<open>deduplicate_logs\<close> returns exactly when no two different logs share an identity
  (block hash, transaction hash, log index); it then keeps every log once, in chain order.
\<close>

theorem deduplicate_logs_exact:
  "(\<exists>us. deduplicate_logs ls = Inr us) = inj_on log_identity (set ls)
   \<and> (\<forall>us. deduplicate_logs ls = Inr us \<longrightarrow>
        set us = set ls \<and> distinct (map log_identity us) \<and> sorted (map log_sort_key us))"
proof -
  have "inj_on log_identity (set ls)" if "deduplicate_logs ls = Inr us" for us
    using deduplicate_logs_spec [OF that] by (auto simp: distinct_map)
  then show ?thesis using deduplicate_logs_returns deduplicate_logs_spec by blast
qed

definition sample_log :: "int \<Rightarrow> normalized_log" where
  "sample_log n = \<lparr>lg_address = [], lg_topic0 = [], lg_topics = [], lg_data = [],
     lg_block_number = n, lg_block_hash = [], lg_transaction_hash = [],
     lg_transaction_index = 0, lg_log_index = n\<rparr>"

theorem deduplicate_logs_exact_witness:
  "\<exists>us. deduplicate_logs [sample_log 2, sample_log 1, sample_log 2] = Inr us
     \<and> set us = {sample_log 1, sample_log 2}"
proof -
  have "inj_on log_identity (set [sample_log 2, sample_log 1, sample_log 2])"
    by (auto simp: inj_on_def log_identity_def sample_log_def)
  then show ?thesis using deduplicate_logs_exact [of "[sample_log 2, sample_log 1, sample_log 2]"]
    by auto
qed

end
