(* ===== verification/Anchors.thy ===== *)
theory Anchors
  imports Discovery
begin

text \<open>
  Day anchors (\<open>core/anchors.py\<close>): a UTC day is resolved to its last block by binary search
  over block timestamps below a safe tip, and the boundary is proved by two adjacent blocks.
  A date is the number of days since 1970-01-01; the caller is the scanner's \<open>rpc_caller\<close>.
\<close>

type_synonym date = int

record resolved_anchor =
  ra_snapshot_date :: date
  ra_anchor :: block_ref
  ra_next_block :: block_ref
  ra_safe_tip :: block_ref
  ra_finality_source :: string
  ra_endpoint_fingerprints :: "string list"

text \<open>\<open>date.max\<close> is 9999-12-31; adding a day to it overflows.\<close>

definition date_max :: date where
  "date_max = 2932896"

definition utc_day_end_timestamp :: "date \<Rightarrow> int res" where
  "utc_day_end_timestamp d =
     (if d \<ge> date_max then raise_res OverflowError ''date value out of range''
      else Inr ((d + 1) * 86400))"

definition block_quantity :: "json \<Rightarrow> string \<Rightarrow> int res" where
  "block_quantity value field =
     (case value of
        JStr s \<Rightarrow>
          if HEX_QUANTITY_RE s then Inr (hex_int (drop 2 s))
          else raise_res AnchorValidationError (''block '' @ field @ '' is not a canonical hex quantity'')
      | _ \<Rightarrow> raise_res AnchorValidationError (''block '' @ field @ '' is not a canonical hex quantity''))"

definition block_hash_field :: "json \<Rightarrow> string \<Rightarrow> string res" where
  "block_hash_field value field =
     (case value of
        JStr s \<Rightarrow>
          if HASH_RE s then Inr (str_lower s)
          else raise_res AnchorValidationError (''block '' @ field @ '' is not a 32-byte hash'')
      | _ \<Rightarrow> raise_res AnchorValidationError (''block '' @ field @ '' is not a 32-byte hash''))"

definition parse_block :: "json \<Rightarrow> int option \<Rightarrow> block_ref res" where
  "parse_block value expected_number =
     (case value of
        JObj kvs \<Rightarrow>
          bind_res (block_quantity (obj_get kvs ''number'') ''number'') (\<lambda>n.
          bind_res (block_quantity (obj_get kvs ''timestamp'') ''timestamp'') (\<lambda>t.
          bind_res (block_hash_field (obj_get kvs ''hash'') ''hash'') (\<lambda>h.
          bind_res (block_hash_field (obj_get kvs ''parentHash'') ''parentHash'') (\<lambda>p.
          if (case expected_number of None \<Rightarrow> False | Some e \<Rightarrow> n \<noteq> e)
          then raise_res AnchorValidationError
                 (''requested block '' @ py_int (the expected_number) @
                  '', endpoint returned block '' @ py_int n)
          else Inr \<lparr>number = n, block_hash = h, parent_hash = p, timestamp = t\<rparr>))))
      | _ \<Rightarrow> raise_res AnchorValidationError ''block lookup returned no block object'')"

definition validate_resolved_anchor :: "resolved_anchor \<Rightarrow> unit res" where
  "validate_resolved_anchor resolved =
     bind_res (utc_day_end_timestamp (ra_snapshot_date resolved)) (\<lambda>boundary.
     let anchor = ra_anchor resolved; next_block = ra_next_block resolved in
     if timestamp anchor \<ge> boundary
     then raise_res AnchorValidationError ''anchor timestamp is not before the UTC boundary''
     else if timestamp next_block < boundary
     then raise_res AnchorValidationError ''block after anchor is still before the UTC boundary''
     else if number next_block \<noteq> number anchor + 1
     then raise_res AnchorValidationError ''anchor proof blocks are not adjacent''
     else if parent_hash next_block \<noteq> block_hash anchor
     then raise_res AnchorValidationError ''block after anchor does not reference anchor hash''
     else if number next_block > number (ra_safe_tip resolved)
     then raise_res AnchorNotFinalized ''UTC boundary is newer than the safe block tip''
     else Inr ())"

definition assert_anchor_immutable :: "block_ref \<Rightarrow> block_ref \<Rightarrow> unit res" where
  "assert_anchor_immutable existing candidate =
     (if existing \<noteq> candidate
      then raise_res AnchorConflict
             ''stored day anchor differs from newly resolved block; manual reorg review required''
      else Inr ())"

record resolver =
  rs_finality_tag :: string
  rs_confirmation_depth :: int

definition mk_resolver :: "string \<Rightarrow> int \<Rightarrow> resolver res" where
  "mk_resolver tag depth =
     (if tag = [] then raise_res ValueError ''finality_tag cannot be empty''
      else if depth < 1 then raise_res ValueError ''fallback_confirmation_depth must be positive''
      else Inr \<lparr>rs_finality_tag = tag, rs_confirmation_depth = depth\<rparr>)"

definition read_by_tag :: "'s rpc_caller \<Rightarrow> string \<Rightarrow> ('s, block_ref \<times> rpc_endpoint) io" where
  "read_by_tag rpc_call tag =
     bind_io (rpc_call ''eth_getBlockByNumber'' [JStr tag, JBool False] None False) (\<lambda>(raw, endpoint).
       if raw = JNull \<and> tag \<noteq> ''latest'' then raise (Exn FinalityTagUnavailable tag)
       else bind_io (lift_res (parse_block raw None)) (\<lambda>b. ret (b, endpoint)))"

definition read_by_number :: "'s rpc_caller \<Rightarrow> int \<Rightarrow> ('s, block_ref \<times> rpc_endpoint) io" where
  "read_by_number rpc_call n =
     bind_io (rpc_call ''eth_getBlockByNumber'' [JStr (py_hex n), JBool False] None False)
       (\<lambda>(raw, endpoint).
       bind_io (lift_res (parse_block raw (Some n))) (\<lambda>b. ret (b, endpoint)))"

definition safe_tip_by_depth ::
  "'s rpc_caller \<Rightarrow> resolver \<Rightarrow> ('s, block_ref \<times> string \<times> string list) io" where
  "safe_tip_by_depth rpc_call cfg =
     bind_io (read_by_tag rpc_call ''latest'') (\<lambda>(latest, latest_endpoint).
     if number latest < rs_confirmation_depth cfg
     then raise (Exn AnchorNotFinalized ''chain height is below configured confirmation depth'')
     else bind_io (read_by_number rpc_call (number latest - rs_confirmation_depth cfg))
       (\<lambda>(safe, safe_endpoint).
       bind_io (lift_res (fingerprint latest_endpoint)) (\<lambda>f1.
       bind_io (lift_res (fingerprint safe_endpoint)) (\<lambda>f2.
         ret (safe, ''confirmations:'' @ py_int (rs_confirmation_depth cfg),
              if f1 = f2 then [f1] else [f1, f2])))))"

definition safe_tip ::
  "'s rpc_caller \<Rightarrow> resolver \<Rightarrow> ('s, block_ref \<times> string \<times> string list) io" where
  "safe_tip rpc_call cfg = (\<lambda>s.
     case read_by_tag rpc_call (rs_finality_tag cfg) s of
       (Inl e, s1) \<Rightarrow>
         if isinstance e RpcResponseError \<or> isinstance e FinalityTagUnavailable
         then safe_tip_by_depth rpc_call cfg s1
         else (Inl e, s1)
     | (Inr (finalized, endpoint), s1) \<Rightarrow>
         bind_io (lift_res (fingerprint endpoint)) (\<lambda>f.
           ret (finalized, ''tag:'' @ rs_finality_tag cfg, [f])) s1)"

text \<open>The local state of \<open>resolve\<close>: the block cache and the fingerprints seen.\<close>

type_synonym search_state = "(int \<rightharpoonup> block_ref) \<times> string list"

definition note_fingerprint :: "rpc_endpoint \<Rightarrow> string list \<Rightarrow> string list res" where
  "note_fingerprint endpoint fps =
     bind_res (fingerprint endpoint) (\<lambda>f. Inr (if f \<in> set fps then fps else fps @ [f]))"

definition read_cached ::
  "'s rpc_caller \<Rightarrow> int \<Rightarrow> search_state \<Rightarrow> ('s, block_ref \<times> search_state) io" where
  "read_cached rpc_call n st =
     (case fst st n of
        Some b \<Rightarrow> ret (b, st)
      | None \<Rightarrow>
          bind_io (read_by_number rpc_call n) (\<lambda>(b, endpoint).
          bind_io (lift_res (note_fingerprint endpoint (snd st))) (\<lambda>fps.
            ret (b, ((fst st)(n \<mapsto> b), fps)))))"

function search_boundary ::
  "'s rpc_caller \<Rightarrow> int \<Rightarrow> int \<Rightarrow> int \<Rightarrow> search_state \<Rightarrow> ('s, int \<times> int \<times> search_state) io" where
  "search_boundary rpc_call boundary low high st s =
     (if high - low > 1
      then let middle = low + (high - low) div 2 in
           case read_cached rpc_call middle st s of
             (Inl e, s1) \<Rightarrow> (Inl e, s1)
           | (Inr (candidate, st1), s1) \<Rightarrow>
               if timestamp candidate < boundary
               then search_boundary rpc_call boundary middle high st1 s1
               else search_boundary rpc_call boundary low middle st1 s1
      else (Inr (low, high, st), s))"
  by auto
termination by (relation "measure (\<lambda>(_, _, low, high, _). nat (high - low))") auto

declare search_boundary.simps [simp del]

definition resolve :: "'s rpc_caller \<Rightarrow> resolver \<Rightarrow> date \<Rightarrow> ('s, resolved_anchor) io" where
  "resolve rpc_call cfg d =
     bind_io (lift_res (utc_day_end_timestamp d)) (\<lambda>boundary.
     bind_io (safe_tip rpc_call cfg) (\<lambda>(tip, finality_source, safety_endpoints).
     if timestamp tip < boundary
     then raise (Exn AnchorNotFinalized ''safe chain tip has not reached the end of the requested UTC day'')
     else
     bind_io (read_cached rpc_call 0 ([number tip \<mapsto> tip], safety_endpoints)) (\<lambda>(genesis, st0).
     if timestamp genesis \<ge> boundary
     then raise (Exn AnchorValidationError ''requested UTC day ends before chain genesis'')
     else
     bind_io (search_boundary rpc_call boundary 0 (number tip) st0) (\<lambda>(low, high, st1).
     bind_io (read_cached rpc_call low st1) (\<lambda>(anchor, st2).
     bind_io (read_cached rpc_call high st2) (\<lambda>(next_block, st3).
     bind_io (read_by_number rpc_call (number anchor)) (\<lambda>(confirmed_anchor, anchor_endpoint).
     bind_io (read_by_number rpc_call (number next_block)) (\<lambda>(confirmed_next, next_endpoint).
     if confirmed_anchor \<noteq> anchor \<or> confirmed_next \<noteq> next_block
     then raise (Exn AnchorConflict ''canonical blocks changed during anchor resolution'')
     else
     bind_io (lift_res (note_fingerprint anchor_endpoint (snd st3))) (\<lambda>fps1.
     bind_io (lift_res (note_fingerprint next_endpoint fps1)) (\<lambda>fps2.
     let resolved = \<lparr>ra_snapshot_date = d, ra_anchor = confirmed_anchor,
           ra_next_block = confirmed_next, ra_safe_tip = tip,
           ra_finality_source = finality_source, ra_endpoint_fingerprints = fps2\<rparr> in
     bind_io (lift_res (validate_resolved_anchor resolved)) (\<lambda>_. ret resolved)))))))))))"

subsection \<open>Lemmas: what was read\<close>

text \<open>The caller answered this read with a block that parses to \<open>b\<close>.\<close>

definition read_as :: "'s rpc_caller \<Rightarrow> string \<Rightarrow> block_ref \<Rightarrow> bool" where
  "read_as rpc_call selector b \<longleftrightarrow>
     (\<exists>s s' raw ep. rpc_call ''eth_getBlockByNumber'' [JStr selector, JBool False] None False s
        = (Inr (raw, ep), s') \<and> parse_block raw None = Inr b)"

lemma parse_block_expected: "parse_block raw (Some n) = Inr b \<Longrightarrow> parse_block raw None = Inr b \<and> number b = n"
  by (auto simp: parse_block_def res_simps split: json.splits if_splits)

lemma read_by_number_Inr:
  "read_by_number rpc_call n s = (Inr (b, ep), s') \<Longrightarrow> number b = n \<and> read_as rpc_call (py_hex n) b"
  unfolding read_by_number_def read_as_def
  by (auto simp: io_simps dest!: parse_block_expected)

lemma read_by_tag_Inr: "read_by_tag rpc_call tag s = (Inr (b, ep), s') \<Longrightarrow> read_as rpc_call tag b"
  unfolding read_by_tag_def read_as_def by (auto simp: io_simps split: if_splits)

lemma safe_tip_Inr:
  assumes "safe_tip rpc_call cfg s = (Inr (tip, source, fps), s')"
  shows "(source = ''tag:'' @ rs_finality_tag cfg \<and> read_as rpc_call (rs_finality_tag cfg) tip)
    \<or> (source = ''confirmations:'' @ py_int (rs_confirmation_depth cfg)
        \<and> (\<exists>latest. read_as rpc_call ''latest'' latest
             \<and> number tip = number latest - rs_confirmation_depth cfg \<and> 0 \<le> number tip)
        \<and> read_as rpc_call (py_hex (number tip)) tip)"
proof (cases "read_by_tag rpc_call (rs_finality_tag cfg) s")
  case (Pair r s1)
  show ?thesis
  proof (cases r)
    case (Inr p)
    with Pair assms show ?thesis
      by (cases p) (auto simp: safe_tip_def io_simps dest: read_by_tag_Inr)
  next
    case (Inl e)
    with Pair assms have "safe_tip_by_depth rpc_call cfg s1 = (Inr (tip, source, fps), s')"
      by (auto simp: safe_tip_def split: if_splits)
    then show ?thesis
      by (auto simp: safe_tip_by_depth_def io_simps dest!: read_by_tag_Inr read_by_number_Inr
          split: if_splits)
  qed
qed

lemma validate_resolved_anchor_Inr [res_simps]:
  "validate_resolved_anchor r = Inr u \<longleftrightarrow>
     (\<exists>boundary. utc_day_end_timestamp (ra_snapshot_date r) = Inr boundary
        \<and> timestamp (ra_anchor r) < boundary \<and> boundary \<le> timestamp (ra_next_block r)
        \<and> number (ra_next_block r) = number (ra_anchor r) + 1
        \<and> parent_hash (ra_next_block r) = block_hash (ra_anchor r)
        \<and> number (ra_next_block r) \<le> number (ra_safe_tip r))"
  by (cases "utc_day_end_timestamp (ra_snapshot_date r)")
    (auto simp: validate_resolved_anchor_def Let_def)

lemma resolve_Inr:
  assumes "resolve rpc_call cfg d s = (Inr r, s')"
  shows "ra_snapshot_date r = d \<and> (\<exists>u. validate_resolved_anchor r = Inr u)
    \<and> read_as rpc_call (py_hex (number (ra_anchor r))) (ra_anchor r)
    \<and> read_as rpc_call (py_hex (number (ra_next_block r))) (ra_next_block r)
    \<and> (\<exists>s0 s1 fps. safe_tip rpc_call cfg s0
          = (Inr (ra_safe_tip r, ra_finality_source r, fps), s1))"
  using assms unfolding resolve_def Let_def
  by (auto simp: io_simps dest!: read_by_number_Inr split: if_splits) blast+

subsection \<open>Lemmas: an honest chain\<close>

text \<open>
  The documented behaviour of \<open>eth_getBlockByNumber\<close> on a chain whose finalized block is
  \<open>chain n\<close>: every read up to the tip returns that block, and the finality tag returns the tip.
  Consecutive blocks are linked by their hashes.
\<close>

definition linked :: "block_ref \<Rightarrow> block_ref \<Rightarrow> bool" where
  "linked a b \<longleftrightarrow> parent_hash b = block_hash a"

definition answers_block ::
  "'s rpc_caller \<Rightarrow> string \<Rightarrow> block_ref \<Rightarrow> bool" where
  "answers_block rpc_call selector b \<longleftrightarrow>
     (\<forall>s. \<exists>raw ep s'. rpc_call ''eth_getBlockByNumber'' [JStr selector, JBool False] None False s
        = (Inr (raw, ep), s') \<and> parse_block raw None = Inr b \<and> returned (fingerprint ep))"

definition honest_chain :: "'s rpc_caller \<Rightarrow> string \<Rightarrow> (int \<Rightarrow> block_ref) \<Rightarrow> int \<Rightarrow> bool" where
  "honest_chain rpc_call tag chain tip \<longleftrightarrow>
     answers_block rpc_call tag (chain tip)
     \<and> (\<forall>n. 0 \<le> n \<and> n \<le> tip \<longrightarrow> answers_block rpc_call (py_hex n) (chain n) \<and> number (chain n) = n)
     \<and> (\<forall>n. 0 \<le> n \<and> n < tip \<longrightarrow> linked (chain n) (chain (n + 1)))"

lemma parse_block_JNull [simp]: "parse_block JNull e \<noteq> Inr b"
  by (simp add: parse_block_def)

lemma parse_block_with_number:
  "parse_block raw None = Inr b \<Longrightarrow> number b = n \<Longrightarrow> parse_block raw (Some n) = Inr b"
  by (auto simp: parse_block_def res_simps split: json.splits if_splits)

lemma answers_read_by_number:
  assumes "answers_block rpc_call (py_hex n) b" and "number b = n"
  shows "\<exists>ep s'. read_by_number rpc_call n s = (Inr (b, ep), s') \<and> returned (fingerprint ep)"
proof -
  from assms(1) obtain raw ep s' where "rpc_call ''eth_getBlockByNumber'' [JStr (py_hex n), JBool False]
      None False s = (Inr (raw, ep), s')" "parse_block raw None = Inr b" "returned (fingerprint ep)"
    unfolding answers_block_def by blast
  with parse_block_with_number [OF _ assms(2)] show ?thesis
    by (auto simp: read_by_number_def bind_io_def)
qed

lemma answers_safe_tip:
  assumes "answers_block rpc_call (rs_finality_tag cfg) b"
  shows "\<exists>source fps s'. safe_tip rpc_call cfg s = (Inr (b, source, fps), s')"
proof -
  from assms obtain raw ep s1 where "rpc_call ''eth_getBlockByNumber''
      [JStr (rs_finality_tag cfg), JBool False] None False s = (Inr (raw, ep), s1)"
    "parse_block raw None = Inr b" "returned (fingerprint ep)"
    unfolding answers_block_def by blast
  then have "read_by_tag rpc_call (rs_finality_tag cfg) s = (Inr (b, ep), s1)"
    by (cases "raw = JNull") (auto simp: read_by_tag_def bind_io_def)
  with \<open>returned (fingerprint ep)\<close> show ?thesis
    by (auto simp: safe_tip_def bind_io_def returned_def)
qed

definition cache_ok :: "(int \<Rightarrow> block_ref) \<Rightarrow> int \<Rightarrow> search_state \<Rightarrow> bool" where
  "cache_ok chain tip st \<longleftrightarrow> (\<forall>n b. fst st n = Some b \<longrightarrow> b = chain n)"

lemma honest_read_cached:
  assumes "honest_chain rpc_call tag chain tip" and "0 \<le> n" "n \<le> tip" and "cache_ok chain tip st"
  shows "\<exists>st' s'. read_cached rpc_call n st s = (Inr (chain n, st'), s') \<and> cache_ok chain tip st'"
proof (cases "fst st n")
  case None
  from assms(1-3) have "answers_block rpc_call (py_hex n) (chain n)" "number (chain n) = n"
    unfolding honest_chain_def by auto
  from answers_read_by_number [OF this, of s] obtain ep s1 fp where
    "read_by_number rpc_call n s = (Inr (chain n, ep), s1)" "fingerprint ep = Inr fp"
    by (auto simp: returned_def)
  with None assms(4) show ?thesis
    by (auto simp: read_cached_def bind_io_def note_fingerprint_def cache_ok_def)
qed (use assms in \<open>auto simp: read_cached_def cache_ok_def\<close>)

lemma honest_search:
  assumes "honest_chain rpc_call tag chain tip" and "cache_ok chain tip st"
    and "0 \<le> low" "low < high" "high \<le> tip"
    and "timestamp (chain low) < boundary" "boundary \<le> timestamp (chain high)"
  shows "\<exists>k st' s'. search_boundary rpc_call boundary low high st s = (Inr (k, k + 1, st'), s')
    \<and> 0 \<le> k \<and> k + 1 \<le> tip \<and> cache_ok chain tip st'
    \<and> timestamp (chain k) < boundary \<and> boundary \<le> timestamp (chain (k + 1))"
  using assms
proof (induction rpc_call boundary low high st s rule: search_boundary.induct)
  case (1 rpc_call boundary low high st s)
  note hon = 1(3) and prems = 1(4-)
  show ?case
  proof (cases "high - low > 1")
    case False
    with prems have "high = low + 1" by linarith
    with prems show ?thesis by (auto simp: search_boundary.simps)
  next
    case True
    let ?m = "low + (high - low) div 2"
    have m: "low < ?m" "?m < high" using True by auto
    from honest_read_cached [OF hon _ _ prems(1), of ?m s] m prems obtain st1 s1 where
      rd: "read_cached rpc_call ?m st s = (Inr (chain ?m, st1), s1)" "cache_ok chain tip st1" by auto
    show ?thesis
    proof (cases "timestamp (chain ?m) < boundary")
      case lt: True
      with True rd have "search_boundary rpc_call boundary low high st s
          = search_boundary rpc_call boundary ?m high st1 s1"
        by (subst search_boundary.simps) (simp add: Let_def)
      with 1(1) [OF True refl rd(1) [symmetric] refl refl lt hon rd(2)] m prems lt show ?thesis by simp
    next
      case ge: False
      with True rd have "search_boundary rpc_call boundary low high st s
          = search_boundary rpc_call boundary low ?m st1 s1"
        by (subst search_boundary.simps) (simp add: Let_def)
      with 1(2) [OF True refl rd(1) [symmetric] refl refl ge hon rd(2)] m prems ge show ?thesis by simp
    qed
  qed
qed

lemma honest_resolve:
  assumes hon: "honest_chain rpc_call (rs_finality_tag cfg) chain tip" and tip: "0 \<le> tip"
    and d: "utc_day_end_timestamp d = Inr boundary"
    and ts: "timestamp (chain 0) < boundary" "boundary \<le> timestamp (chain tip)"
  shows "\<exists>r s' k. resolve rpc_call cfg d s = (Inr r, s') \<and> 0 \<le> k \<and> k < tip
    \<and> ra_anchor r = chain k \<and> ra_next_block r = chain (k + 1)
    \<and> timestamp (chain k) < boundary \<and> boundary \<le> timestamp (chain (k + 1))"
proof -
  have "tip \<noteq> 0" using ts by auto
  with tip have tip0: "0 < tip" by simp
  have num: "number (chain n) = n" "answers_block rpc_call (py_hex n) (chain n)"
    if "0 \<le> n" "n \<le> tip" for n
    using hon that unfolding honest_chain_def by auto
  from hon have "answers_block rpc_call (rs_finality_tag cfg) (chain tip)"
    unfolding honest_chain_def by blast
  from answers_safe_tip [OF this, of s] obtain src fps s1 where
    t: "safe_tip rpc_call cfg s = (Inr (chain tip, src, fps), s1)" by blast
  let ?st = "([tip \<mapsto> chain tip], fps)"
  have "cache_ok chain tip ?st" by (simp add: cache_ok_def)
  from honest_read_cached [OF hon _ _ this, of 0 s1] tip obtain st0 s2 where
    g: "read_cached rpc_call 0 ?st s1 = (Inr (chain 0, st0), s2)" "cache_ok chain tip st0" by auto
  from honest_search [OF hon g(2) _ tip0 _ ts] obtain k st1 s3 where
    sb: "search_boundary rpc_call boundary 0 tip st0 s2 = (Inr (k, k + 1, st1), s3)"
    and k: "0 \<le> k" "k + 1 \<le> tip" "cache_ok chain tip st1"
      "timestamp (chain k) < boundary" "boundary \<le> timestamp (chain (k + 1))" by fastforce
  from honest_read_cached [OF hon k(1) _ k(3), of s3] k(2) obtain st2 s4 where
    a: "read_cached rpc_call k st1 s3 = (Inr (chain k, st2), s4)" "cache_ok chain tip st2" by auto
  from honest_read_cached [OF hon _ k(2) a(2), of s4] k(1) obtain st3 s5 where
    b: "read_cached rpc_call (k + 1) st2 s4 = (Inr (chain (k + 1), st3), s5)" by auto
  have nk: "number (chain k) = k" "number (chain (k + 1)) = k + 1" using num k by auto
  from answers_read_by_number [OF num(2) num(1), of k s5] k obtain e1 f1 s6 where
    c: "read_by_number rpc_call k s5 = (Inr (chain k, e1), s6)" "fingerprint e1 = Inr f1"
    by (auto simp: returned_def)
  from answers_read_by_number [OF num(2) num(1), of "k + 1" s6] k obtain e2 f2 s7 where
    e: "read_by_number rpc_call (k + 1) s6 = (Inr (chain (k + 1), e2), s7)" "fingerprint e2 = Inr f2"
    by (auto simp: returned_def)
  have link: "parent_hash (chain (k + 1)) = block_hash (chain k)"
    using hon k unfolding honest_chain_def linked_def by auto
  have nt: "number (chain tip) = tip" using num tip by simp
  have fp: "note_fingerprint e1 fs = Inr (if f1 \<in> set fs then fs else fs @ [f1])"
    "note_fingerprint e2 fs = Inr (if f2 \<in> set fs then fs else fs @ [f2])" for fs
    using c e by (simp_all add: note_fingerprint_def)
  note steps = bind_io_apply(1) [of "safe_tip rpc_call cfg" s, OF t]
    bind_io_apply(1) [of "read_cached rpc_call 0 ?st" s1, OF g(1)]
    bind_io_apply(1) [of "search_boundary rpc_call boundary 0 tip st0" s2, OF sb]
    bind_io_apply(1) [of "read_cached rpc_call k st1" s3, OF a(1)]
    bind_io_apply(1) [of "read_cached rpc_call (k + 1) st2" s4, OF b]
    bind_io_apply(1) [of "read_by_number rpc_call k" s5, OF c(1)]
    bind_io_apply(1) [of "read_by_number rpc_call (k + 1)" s6, OF e(1)]
  have guards: "(timestamp (chain tip) < boundary) = False" "(boundary \<le> timestamp (chain 0)) = False"
    using ts by auto
  have valid: "validate_resolved_anchor \<lparr>ra_snapshot_date = d, ra_anchor = chain k,
      ra_next_block = chain (k + 1), ra_safe_tip = chain tip, ra_finality_source = src,
      ra_endpoint_fingerprints = F\<rparr> = Inr ()" for F
    using k link nk nt by (simp add: validate_resolved_anchor_def d Let_def)
  have "\<exists>r s'. resolve rpc_call cfg d s = (Inr r, s') \<and> ra_anchor r = chain k
      \<and> ra_next_block r = chain (k + 1)"
    unfolding resolve_def d bind_io_prim
    by (simp only: steps prod.case nt nk guards if_False if_True fp bind_io_prim simp_thms Let_def valid)
      simp
  with k show ?thesis by fastforce
qed

subsection \<open>Properties\<close>


text \<open>A chain of blocks one day apart.\<close>

definition sample_hash :: "int \<Rightarrow> string" where
  "sample_hash n = ''0x'' @ replicate 63 (CHR ''0'') @ (if n mod 2 = 0 then ''a'' else ''b'')"

definition sample_block :: "int \<Rightarrow> block_ref" where
  "sample_block n = \<lparr>number = n, block_hash = sample_hash n, parent_hash = sample_hash (n - 1),
     timestamp = n * 86400\<rparr>"

definition block_json :: "block_ref \<Rightarrow> json" where
  "block_json b = JObj [(''number'', JStr (py_hex (number b))), (''hash'', JStr (block_hash b)),
     (''parentHash'', JStr (parent_hash b)), (''timestamp'', JStr (py_hex (timestamp b)))]"

definition sample_chain_caller :: "unit rpc_caller" where
  "sample_chain_caller method params hb eip s =
     (let n = (if params = [JStr ''0x0'', JBool False] then 0
               else if params = [JStr ''0x1'', JBool False] then 1 else 2) in
      (Inr (block_json (sample_block n), sample_endpoint ''http://a''), s))"

lemma hexchar_0: "hexchar 0 = CHR ''0''"
  by code_simp

lemma hex_digits_shape:
  "hex_digits n \<noteq> [] \<and> list_all is_hex (hex_digits n) \<and> (0 < n \<longrightarrow> hd (hex_digits n) \<noteq> CHR ''0'')"
proof (induction n rule: hex_digits.induct)
  case (1 n)
  show ?case
  proof (cases "n < 16")
    case True
    have "hexchar n \<noteq> CHR ''0''" if "0 < n"
    proof
      assume "hexchar n = CHR ''0''"
      then have "hexval (hexchar n) = hexval (hexchar 0)" by (simp only: hexchar_0)
      with True that show False by simp
    qed
    with True show ?thesis by (simp add: hex_digits.simps [of n])
  next
    case False
    then have "hex_digits n = hex_digits (n div 16) @ [hexchar (n mod 16)]" "0 < n div 16"
      by (simp_all add: hex_digits.simps [of n])
    with False 1 show ?thesis by simp
  qed
qed

lemma hex_quantity_py_hex: "0 \<le> n \<Longrightarrow> HEX_QUANTITY_RE (py_hex n)"
proof (cases "n = 0")
  case True
  then show ?thesis
    by (simp add: HEX_QUANTITY_RE_def py_hex_def hex_digits.simps hexchar_0 flip: hexchar_0)
next
  case False
  moreover assume "0 \<le> n"
  ultimately show ?thesis
    using hex_digits_shape [of "nat n"] by (simp add: HEX_QUANTITY_RE_def py_hex_def)
qed

lemma hex_int_py_hex: "0 \<le> n \<Longrightarrow> hex_int (drop 2 (py_hex n)) = n"
  by (simp add: py_hex_def bytes_simps)

lemma block_json_parses:
  assumes "0 \<le> number b" "0 \<le> timestamp b"
    and "HASH_RE (block_hash b)" "str_lower (block_hash b) = block_hash b"
    and "HASH_RE (parent_hash b)" "str_lower (parent_hash b) = parent_hash b"
  shows "parse_block (block_json b) None = Inr b"
proof -
  have "block_quantity (JStr (py_hex n)) field = Inr n" if "0 \<le> n" for n field
    using that by (simp add: block_quantity_def hex_quantity_py_hex hex_int_py_hex)
  then show ?thesis
    using assms by (simp add: parse_block_def block_json_def obj_get_def block_hash_field_def)
qed

lemma sample_hash_ok: "HASH_RE (sample_hash n) \<and> str_lower (sample_hash n) = sample_hash n"
proof -
  have "HASH_RE (''0x'' @ replicate 63 (CHR ''0'') @ ''a'')" "HASH_RE (''0x'' @ replicate 63 (CHR ''0'') @ ''b'')"
    "str_lower (''0x'' @ replicate 63 (CHR ''0'') @ ''a'') = ''0x'' @ replicate 63 (CHR ''0'') @ ''a''"
    "str_lower (''0x'' @ replicate 63 (CHR ''0'') @ ''b'') = ''0x'' @ replicate 63 (CHR ''0'') @ ''b''"
    by code_simp+
  then show ?thesis unfolding sample_hash_def by presburger
qed

lemma sample_parses: "0 \<le> n \<Longrightarrow> parse_block (block_json (sample_block n)) None = Inr (sample_block n)"
  by (rule block_json_parses) (simp_all add: sample_block_def sample_hash_ok)

lemma sample_answers:
  "answers_block sample_chain_caller ''0x0'' (sample_block 0)"
  "answers_block sample_chain_caller ''0x1'' (sample_block 1)"
  "answers_block sample_chain_caller ''0x2'' (sample_block 2)"
  "answers_block sample_chain_caller ''finalized'' (sample_block 2)"
  by (auto simp: answers_block_def sample_chain_caller_def Let_def sample_fingerprint intro: sample_parses)

lemma sample_chain_honest: "honest_chain sample_chain_caller ''finalized'' sample_block 2"
proof -
  have hex: "py_hex 0 = ''0x0''" "py_hex 1 = ''0x1''" "py_hex 2 = ''0x2''" by code_simp+
  have "n = 0 \<or> n = 1 \<or> n = 2" if "0 \<le> n" "n \<le> 2" for n :: int using that by presburger
  then have "answers_block sample_chain_caller (py_hex n) (sample_block n)" if "0 \<le> n" "n \<le> 2" for n
    using that sample_answers hex by metis
  moreover have "number (sample_block n) = n" "linked (sample_block n) (sample_block (n + 1))" for n
    by (simp_all add: linked_def sample_block_def)
  ultimately show ?thesis using sample_answers(4) by (simp add: honest_chain_def)
qed

definition sample_resolver :: resolver where
  "sample_resolver = \<lparr>rs_finality_tag = ''finalized'', rs_confirmation_depth = 64\<rparr>"

lemma sample_resolve:
  "\<exists>r s'. resolve sample_chain_caller sample_resolver 0 () = (Inr r, s')"
proof -
  have "utc_day_end_timestamp 0 = Inr 86400" by (simp add: utc_day_end_timestamp_def date_max_def)
  from honest_resolve [of sample_chain_caller sample_resolver sample_block 2, OF _ _ this]
  show ?thesis using sample_chain_honest by (fastforce simp: sample_resolver_def sample_block_def)
qed


text \<open>
  C20: on an honest chain the binary search finds the day's last block. If the caller
  serves a hash-linked chain with non-decreasing timestamps whose finalized tip has reached
  the end of the day and whose genesis precedes it, then \<open>resolve\<close> returns (the search ends, the
  re-read agrees and the proof validates) and the anchor is exactly the last block below the
  tip whose timestamp is before midnight: every block up to it is, no later block is.
\<close>

theorem resolve_finds_last_block:
  assumes "honest_chain rpc_call (rs_finality_tag cfg) chain tip" and "0 \<le> tip"
    and "utc_day_end_timestamp d = Inr boundary"
    and "timestamp (chain 0) < boundary" and "boundary \<le> timestamp (chain tip)"
    and mono: "\<And>i j. 0 \<le> i \<Longrightarrow> i \<le> j \<Longrightarrow> j \<le> tip \<Longrightarrow> timestamp (chain i) \<le> timestamp (chain j)"
  shows "\<exists>r s' k. resolve rpc_call cfg d s = (Inr r, s') \<and> ra_anchor r = chain k
    \<and> (\<forall>i. 0 \<le> i \<and> i \<le> tip \<longrightarrow> (timestamp (chain i) < boundary \<longleftrightarrow> i \<le> k))"
proof -
  from honest_resolve [OF assms(1-5), of s] obtain r s' k where
    r: "resolve rpc_call cfg d s = (Inr r, s')" "ra_anchor r = chain k"
    and k: "0 \<le> k" "k < tip" "timestamp (chain k) < boundary" "boundary \<le> timestamp (chain (k + 1))"
    by blast
  have "timestamp (chain i) < boundary \<longleftrightarrow> i \<le> k" if "0 \<le> i" "i \<le> tip" for i
  proof
    assume "timestamp (chain i) < boundary"
    then show "i \<le> k" using mono [of "k + 1" i] k that by fastforce
  next
    assume "i \<le> k"
    then show "timestamp (chain i) < boundary" using mono [of i k] k that by fastforce
  qed
  with r show ?thesis by blast
qed

theorem resolve_finds_last_block_witness:
  "\<exists>r s' k. resolve sample_chain_caller sample_resolver 0 () = (Inr r, s')
     \<and> ra_anchor r = sample_block k
     \<and> (\<forall>i. 0 \<le> i \<and> i \<le> 2 \<longrightarrow> (timestamp (sample_block i) < 86400 \<longleftrightarrow> i \<le> k))"
  by (rule resolve_finds_last_block [of sample_chain_caller sample_resolver sample_block 2 0 86400])
    (simp_all add: sample_resolver_def sample_chain_honest utc_day_end_timestamp_def date_max_def
      sample_block_def)

end
