(* ===== verification/Encoding.thy ===== *)
theory Encoding
  imports Sha256
begin

text \<open>
  Self-delimiting byte encodings. The program hashes concatenations of length-prefixed and
  fixed-width fields (\<open>execution/base.py\<close>, \<open>storage/digests.py\<close>); the locale \<open>prefix_code\<close> states
  what makes such a concatenation unambiguous, and is interpreted on each row encoding.
\<close>

definition self_delimiting :: "('a \<Rightarrow> bool) \<Rightarrow> ('a \<Rightarrow> bytes) \<Rightarrow> bool" where
  "self_delimiting P enc \<longleftrightarrow>
     (\<forall>x y a b. P x \<and> P y \<and> enc x @ a = enc y @ b \<longrightarrow> x = y \<and> a = b)"

lemma self_delimitingD:
  "self_delimiting P enc \<Longrightarrow> P x \<Longrightarrow> P y \<Longrightarrow> enc x @ a = enc y @ b \<Longrightarrow> x = y \<and> a = b"
  unfolding self_delimiting_def by blast

lemma self_delimiting_fixed:
  assumes "\<And>x. P x \<Longrightarrow> length (enc x) = n" and "\<And>x y. P x \<Longrightarrow> P y \<Longrightarrow> enc x = enc y \<Longrightarrow> x = y"
  shows "self_delimiting P enc"
  unfolding self_delimiting_def
proof (intro allI impI)
  fix x y a b assume h: "P x \<and> P y \<and> enc x @ a = enc y @ b"
  then have "length (enc x) = length (enc y)" using assms(1) by simp
  with h have "enc x = enc y \<and> a = b" by (simp add: append_eq_append_conv)
  with h assms(2) show "x = y \<and> a = b" by blast
qed

text \<open>Two encodings one after the other.\<close>

lemma self_delimiting_pair:
  assumes "self_delimiting P f" and "self_delimiting Q g"
  shows "self_delimiting (\<lambda>(x, y). P x \<and> Q y) (\<lambda>(x, y). f x @ g y)"
  unfolding self_delimiting_def
proof (intro allI impI)
  fix p q a b
  assume h: "(case p of (x, y) \<Rightarrow> P x \<and> Q y) \<and> (case q of (x, y) \<Rightarrow> P x \<and> Q y)
    \<and> (case p of (x, y) \<Rightarrow> f x @ g y) @ a = (case q of (x, y) \<Rightarrow> f x @ g y) @ b"
  obtain x y x' y' where pq: "p = (x, y)" "q = (x', y')" by (cases p, cases q)
  with h have "P x" "P x'" "f x @ (g y @ a) = f x' @ (g y' @ b)" by simp_all
  from self_delimitingD [OF assms(1) this] have "x = x' \<and> g y @ a = g y' @ b" .
  with h pq show "p = q \<and> a = b" using self_delimitingD [OF assms(2), of y y' a b] by simp
qed

text \<open>\<open>len(data).to_bytes(w, "big") + data\<close>\<close>

definition length_prefixed :: "nat \<Rightarrow> bytes \<Rightarrow> bytes" where
  "length_prefixed w data = to_bytes w (int (length data)) @ data"

lemma to_bytes_eq_iff:
  assumes "0 \<le> x" "x < 256 ^ w" "0 \<le> y" "y < 256 ^ w"
  shows "to_bytes w x = to_bytes w y \<longleftrightarrow> x = y"
  using assms from_to_bytes_id by metis

lemma self_delimiting_length_prefixed:
  "self_delimiting (\<lambda>d. int (length d) < 256 ^ w) (length_prefixed w)"
  unfolding self_delimiting_def
proof (intro allI impI)
  fix x y a b :: bytes
  assume h: "int (length x) < 256 ^ w \<and> int (length y) < 256 ^ w
    \<and> length_prefixed w x @ a = length_prefixed w y @ b"
  then have eq: "to_bytes w (int (length x)) @ (x @ a) = to_bytes w (int (length y)) @ (y @ b)"
    by (simp add: length_prefixed_def)
  have "length (to_bytes w (int (length x))) = length (to_bytes w (int (length y)))" by simp
  with eq have "to_bytes w (int (length x)) = to_bytes w (int (length y))" and xy: "x @ a = y @ b"
    by (simp_all add: append_eq_append_conv)
  with h have "length x = length y" by (simp add: to_bytes_eq_iff)
  with xy show "x = y \<and> a = b" by (simp add: append_eq_append_conv)
qed

lemma self_delimiting_image:
  assumes "self_delimiting P f" and "\<And>x. Q x \<Longrightarrow> P (h x) \<and> g x = f (h x)"
    and "\<And>x y. Q x \<Longrightarrow> Q y \<Longrightarrow> h x = h y \<Longrightarrow> x = y"
  shows "self_delimiting Q g"
  unfolding self_delimiting_def
proof (intro allI impI)
  fix x y a b assume q: "Q x \<and> Q y \<and> g x @ a = g y @ b"
  with assms(2) have "P (h x)" "P (h y)" "f (h x) @ a = f (h y) @ b" by metis+
  from self_delimitingD [OF assms(1) this] have "h x = h y \<and> a = b" .
  with q assms(3) show "x = y \<and> a = b" by blast
qed

locale prefix_code =
  fixes valid :: "'a \<Rightarrow> bool" and enc :: "'a \<Rightarrow> bytes"
  assumes delimiting: "self_delimiting valid enc"
    and nonempty: "valid x \<Longrightarrow> enc x \<noteq> []"
begin

text \<open>The concatenation of the encodings determines the list, even with data after it.\<close>

lemma concat_inject:
  assumes "list_all valid xs" and "list_all valid ys"
    and "concat (map enc xs) = concat (map enc ys)"
  shows "xs = ys"
  using assms
proof (induction xs arbitrary: ys)
  case Nil
  then show ?case using nonempty by (cases ys) auto
next
  case (Cons x xs)
  show ?case
  proof (cases ys)
    case Nil
    with Cons.prems nonempty show ?thesis by simp
  next
    case ys: (Cons y zs)
    with Cons.prems have "valid x" "valid y" "enc x @ concat (map enc xs) = enc y @ concat (map enc zs)"
      by simp_all
    from self_delimitingD [OF delimiting this]
    have "x = y \<and> concat (map enc xs) = concat (map enc zs)" .
    with ys Cons.IH [of zs] Cons.prems show ?thesis by simp
  qed
qed

end

subsection \<open>Tags, alternatives, options and counted lists\<close>

lemma self_delimiting_tag: "self_delimiting P f \<Longrightarrow> self_delimiting P (\<lambda>x. t # f x)"
  unfolding self_delimiting_def append_Cons list.inject by blast

lemma self_delimiting_sum:
  assumes "self_delimiting P f" and "self_delimiting Q g" and "t \<noteq> u"
  shows "self_delimiting (case_sum P Q) (case_sum (\<lambda>x. t # f x) (\<lambda>y. u # g y))"
  unfolding self_delimiting_def
proof (intro allI impI)
  fix x y a b
  assume "case_sum P Q x \<and> case_sum P Q y
    \<and> case_sum (\<lambda>x. t # f x) (\<lambda>y. u # g y) x @ a = case_sum (\<lambda>x. t # f x) (\<lambda>y. u # g y) y @ b"
  then show "x = y \<and> a = b"
    using assms(3)
    by (cases x; cases y) (auto dest: self_delimitingD [OF assms(1)] self_delimitingD [OF assms(2)])
qed

lemma self_delimiting_option:
  assumes "self_delimiting P f" and "t \<noteq> u"
  shows "self_delimiting (case_option True P) (case_option [t] (\<lambda>x. u # f x))"
  unfolding self_delimiting_def
proof (intro allI impI)
  fix x y a b
  assume "case_option True P x \<and> case_option True P y
    \<and> case_option [t] (\<lambda>x. u # f x) x @ a = case_option [t] (\<lambda>x. u # f x) y @ b"
  then show "x = y \<and> a = b"
    using assms(2) by (cases x; cases y) (auto dest: self_delimitingD [OF assms(1)])
qed

lemma self_delimiting_replicate:
  assumes "self_delimiting P f" and "length xs = length ys" and "list_all P xs" and "list_all P ys"
    and "concat (map f xs) @ a = concat (map f ys) @ b"
  shows "xs = ys \<and> a = b"
  using assms(2-)
proof (induction xs ys rule: list_induct2)
  case (Cons x xs y ys)
  then have "P x" "P y" "f x @ concat (map f xs) @ a = f y @ concat (map f ys) @ b" by simp_all
  from self_delimitingD [OF assms(1) this] Cons show ?case by simp
qed simp

lemma self_delimiting_counted:
  assumes "self_delimiting P f"
  shows "self_delimiting (\<lambda>xs. list_all P xs \<and> int (length xs) < 256 ^ w)
           (\<lambda>xs. to_bytes w (int (length xs)) @ concat (map f xs))"
  unfolding self_delimiting_def
proof (intro allI impI)
  fix xs ys a b
  assume h: "(list_all P xs \<and> int (length xs) < 256 ^ w) \<and> (list_all P ys \<and> int (length ys) < 256 ^ w)
    \<and> (to_bytes w (int (length xs)) @ concat (map f xs)) @ a
      = (to_bytes w (int (length ys)) @ concat (map f ys)) @ b"
  then have "to_bytes w (int (length xs)) = to_bytes w (int (length ys))"
    and rest: "concat (map f xs) @ a = concat (map f ys) @ b"
    by (simp_all add: append_eq_append_conv)
  with h have "length xs = length ys" by (simp add: to_bytes_eq_iff)
  from self_delimiting_replicate [OF assms this _ _ rest] h show "xs = ys \<and> a = b" by blast
qed

text \<open>
  Rows hashed in a canonical order: when the sort key determines a valid row, the joined
  encodings are equal exactly for equal multisets of rows.
\<close>

locale canonical_code = prefix_code +
  fixes key :: "'a \<Rightarrow> 'k :: linorder"
  assumes key_inject: "valid x \<Longrightarrow> valid y \<Longrightarrow> key x = key y \<Longrightarrow> x = y"
begin

lemma sort_canonical:
  assumes "list_all valid xs" and "mset xs = mset ys"
  shows "sort_key key xs = sort_key key ys"
proof (rule sort_key_inj_key_eq)
  show "mset xs = mset (sort_key key ys)" using assms(2) by simp
  show "inj_on key (set xs)" using assms(1) key_inject by (auto simp: inj_on_def list_all_iff)
qed simp

lemma canonical:
  assumes "list_all valid xs" and "list_all valid ys"
  shows "concat (map enc (sort_key key xs)) = concat (map enc (sort_key key ys)) \<longleftrightarrow> mset xs = mset ys"
proof
  assume "concat (map enc (sort_key key xs)) = concat (map enc (sort_key key ys))"
  then have "sort_key key xs = sort_key key ys"
    by (rule concat_inject [rotated 2]) (use assms in \<open>auto simp: list_all_iff\<close>)
  then show "mset xs = mset ys" by (metis mset_sort)
next
  assume "mset xs = mset ys"
  with assms(1) show "concat (map enc (sort_key key xs)) = concat (map enc (sort_key key ys))"
    by (simp add: sort_canonical)
qed

end

end
