(* ===== verification/Execution.thy ===== *)
theory Execution
  imports Anchors Encoding
begin

text \<open>
  Historical execution: the transport-neutral contract (\<open>execution/base.py\<close>), batching
  (\<open>execution/batch_planner.py\<close>), anchor checks (\<open>execution/verification.py\<close>), the historical
  code verifier with its per-anchor cache (\<open>execution/code.py\<close>) and the router
  (\<open>execution/router.py\<close>). The locale \<open>executor\<close> is the protocol \<open>HistoricalCallExecutor\<close>.
  Third-party code is the record \<open>ext\<close>: Keccak-256 and the ABI codec of \<open>eth_abi\<close>. Concurrent
  reads (\<open>asyncio.gather\<close>, \<open>TaskGroup\<close>) are modelled in the order in which they are started.
\<close>

record ext =
  ext_keccak :: "bytes \<Rightarrow> bytes"
  ext_abi_encode :: "(string \<times> bool \<times> bytes) list \<Rightarrow> bytes res"
  ext_abi_decode :: "bytes \<Rightarrow> (bool \<times> bytes) list res"

subsection \<open>Calls and results\<close>

record contract_call =
  cc_key :: string
  cc_target :: string
  cc_calldata :: bytes
  cc_allow_failure :: bool

record raw_call_result =
  rr_key :: string
  rr_success :: bool
  rr_returndata :: bytes
  rr_error_code :: "int option"
  rr_error_message :: "string option"

record verification_evidence =
  ve_executor_kind :: executor_kind
  ve_block_reference_kind :: string
  ve_anchor_hash :: string
  ve_provider_groups :: "string list"
  ve_result_digest :: string
  ve_verified :: bool

record verified_batch_result =
  vb_results :: "raw_call_result list"
  vb_evidence :: verification_evidence

text \<open>\<open>int.to_bytes(n, "big")\<close> and its signed form, with the overflow the call raises.\<close>

definition to_bytes_res :: "nat \<Rightarrow> int \<Rightarrow> bytes res" where
  "to_bytes_res w v =
     (if v < 0 then raise_res OverflowError ''can't convert negative int to unsigned''
      else if v \<ge> 256 ^ w then raise_res OverflowError ''int too big to convert''
      else Inr (to_bytes w v))"

definition to_bytes_signed :: "nat \<Rightarrow> int \<Rightarrow> bytes res" where
  "to_bytes_signed w v =
     (if v < - (2 ^ (8 * w - 1)) \<or> v \<ge> 2 ^ (8 * w - 1)
      then raise_res OverflowError ''int too big to convert''
      else Inr (to_bytes w (v mod 2 ^ (8 * w))))"

definition result_code :: "raw_call_result \<Rightarrow> int" where
  "result_code r = (case rr_error_code r of Some c \<Rightarrow> c | None \<Rightarrow> - (2 ^ 31))"

definition result_message :: "raw_call_result \<Rightarrow> string" where
  "result_message r = (case rr_error_message r of Some m \<Rightarrow> m | None \<Rightarrow> [])"

text \<open>The bytes one result adds to the digest.\<close>

definition result_bytes :: "raw_call_result \<Rightarrow> bytes res" where
  "result_bytes r =
     (let key = utf8 (rr_key r); message = utf8 (result_message r) in
      bind_res (to_bytes_res 4 (int (length key))) (\<lambda>key_len.
      bind_res (to_bytes_res 4 (int (length (rr_returndata r)))) (\<lambda>data_len.
      bind_res (to_bytes_signed 8 (result_code r)) (\<lambda>code.
      bind_res (to_bytes_res 4 (int (length message))) (\<lambda>message_len.
        Inr (key_len @ key @ [if rr_success r then 1 else 0] @ data_len @ rr_returndata r
             @ code @ message_len @ message))))))"

definition digest_raw_results :: "raw_call_result list \<Rightarrow> string res" where
  "digest_raw_results results =
     bind_res (map_res result_bytes results) (\<lambda>parts. Inr (sha256_hex (concat parts)))"

text \<open>\<open>chunked\<close>: slices of the given size, the last one possibly shorter.\<close>

function chunks :: "nat \<Rightarrow> 'a list \<Rightarrow> 'a list list" where
  "chunks width xs = (if xs = [] \<or> width = 0 then [] else take width xs # chunks width (drop width xs))"
  by auto
termination by (relation "measure (length \<circ> snd)") auto

declare chunks.simps [simp del]

definition chunked :: "'a list \<Rightarrow> int \<Rightarrow> 'a list list res" where
  "chunked xs width =
     (if width < 1 then raise_res ValueError ''batch width must be positive''
      else Inr (chunks (nat width) xs))"

subsection \<open>Anchor checks\<close>

definition normalize_hash :: "json \<Rightarrow> string res" where
  "normalize_hash value =
     (case value of
        JStr s \<Rightarrow> if HASH_RE s then Inr (str_lower s)
                  else raise_res AnchorHashMismatch ''invalid block hash''
      | _ \<Rightarrow> raise_res AnchorHashMismatch ''invalid block hash'')"

definition eip1898_reference :: "block_ref \<Rightarrow> json res" where
  "eip1898_reference anchor =
     bind_res (normalize_hash (JStr (block_hash anchor))) (\<lambda>h.
       Inr (JObj [(''blockHash'', JStr h), (''requireCanonical'', JBool True)]))"

definition number_reference :: "block_ref \<Rightarrow> json" where
  "number_reference anchor = JStr (py_hex (number anchor))"

definition read_block_hash :: "'w env \<Rightarrow> rpc_endpoint \<Rightarrow> int \<Rightarrow> ('w, string) rpc" where
  "read_block_hash env endpoint block_number =
     bind_io (call_on_endpoint env endpoint ''eth_getBlockByNumber''
                [JStr (py_hex block_number), JBool False]) (\<lambda>result.
       case result of
         JObj kvs \<Rightarrow> lift_res (normalize_hash (obj_get kvs ''hash''))
       | _ \<Rightarrow> raise (Exn AnchorHashMismatch ''block lookup returned no object''))"

definition assert_anchor_hash :: "'w env \<Rightarrow> rpc_endpoint \<Rightarrow> block_ref \<Rightarrow> ('w, unit) rpc" where
  "assert_anchor_hash env endpoint anchor =
     bind_io (read_block_hash env endpoint (number anchor)) (\<lambda>observed.
     bind_io (lift_res (normalize_hash (JStr (block_hash anchor)))) (\<lambda>expected.
       if observed \<noteq> expected
       then raise (Exn AnchorHashMismatch (''endpoint '' @ ep_name endpoint @ '' anchor hash mismatch''))
       else ret ()))"

subsection \<open>Historical code\<close>

record code_evidence =
  ce_address :: string
  ce_code_hash :: string
  ce_provider_groups :: "string list"
  ce_reference_kind :: string

definition decode_code :: "json \<Rightarrow> string \<Rightarrow> bytes res" where
  "decode_code encoded address =
     (case encoded of
        JStr s \<Rightarrow>
          (case hex_data_to_bytes s of
             Inl _ \<Rightarrow> raise_res HistoricalCodeError (''eth_getCode for '' @ address @ '' returned malformed hex'')
           | Inr code \<Rightarrow>
               if code = [] then raise_res ContractNotDeployed (''no code at '' @ address)
               else Inr code)
      | _ \<Rightarrow> raise_res HistoricalCodeError (''eth_getCode for '' @ address @ '' was not hex data''))"

definition check_code_hash :: "ext \<Rightarrow> bytes \<Rightarrow> string \<Rightarrow> string option \<Rightarrow> string res" where
  "check_code_hash ex code address expected =
     (let actual = ''0x'' @ bytes_hex (ext_keccak ex code) in
      if (case expected of None \<Rightarrow> False | Some h \<Rightarrow> actual \<noteq> str_lower h)
      then raise_res RuntimeCodeHashMismatch
             (''runtime code hash mismatch for '' @ address @ '': '' @ actual)
      else Inr actual)"

definition read_code_sandwich ::
  "'w env \<Rightarrow> block_ref \<Rightarrow> string \<Rightarrow> rpc_endpoint \<Rightarrow> ('w, bytes) rpc" where
  "read_code_sandwich env anchor address endpoint =
     bind_io (assert_anchor_hash env endpoint anchor) (\<lambda>_.
     bind_io (call_on_endpoint env endpoint ''eth_getCode'' [JStr address, number_reference anchor])
       (\<lambda>encoded.
     bind_io (assert_anchor_hash env endpoint anchor) (\<lambda>_.
       lift_res (decode_code encoded address))))"

definition verify_number_quorum ::
  "'w env \<Rightarrow> ext \<Rightarrow> int \<Rightarrow> string \<Rightarrow> block_ref \<Rightarrow> string option \<Rightarrow> ('w, code_evidence) rpc" where
  "verify_number_quorum env ex quorum address anchor expected =
     bind_io (select_distinct_groups env quorum (Some (number anchor))) (\<lambda>endpoints.
     bind_io (map_io (read_code_sandwich env anchor address) endpoints) (\<lambda>values.
       if list_ex (\<lambda>v. v \<noteq> hd values) (tl values)
       then raise (Exn ArchiveStateUnavailable (''providers disagree on historical code for '' @ address))
       else bind_io (lift_res (check_code_hash ex (hd values) address expected)) (\<lambda>code_hash.
         ret \<lparr>ce_address = address, ce_code_hash = code_hash,
              ce_provider_groups = map ep_provider_group endpoints,
              ce_reference_kind = ''number_quorum''\<rparr>)))"

definition verify_eip1898 ::
  "'w env \<Rightarrow> ext \<Rightarrow> rpc_endpoint \<Rightarrow> string \<Rightarrow> block_ref \<Rightarrow> string option \<Rightarrow> ('w, code_evidence) rpc" where
  "verify_eip1898 env ex endpoint address anchor expected =
     bind_io (lift_res (eip1898_reference anchor)) (\<lambda>reference.
     bind_io (call_on_endpoint env endpoint ''eth_getCode'' [JStr address, reference]) (\<lambda>encoded.
     bind_io (lift_res (decode_code encoded address)) (\<lambda>code.
     bind_io (lift_res (check_code_hash ex code address expected)) (\<lambda>code_hash.
       ret \<lparr>ce_address = address, ce_code_hash = code_hash,
            ce_provider_groups = [ep_provider_group endpoint], ce_reference_kind = ''eip1898''\<rparr>))))"

definition verify_uncached ::
  "'w env \<Rightarrow> ext \<Rightarrow> int \<Rightarrow> string \<Rightarrow> block_ref \<Rightarrow> string option \<Rightarrow> ('w, code_evidence) rpc" where
  "verify_uncached env ex quorum address anchor expected = (\<lambda>s.
     case select env (Some (number anchor)) True [] s of
       (Inl e, s1) \<Rightarrow>
         if isinstance e RpcNoHealthyEndpoint
         then verify_number_quorum env ex quorum address anchor expected s1
         else (Inl e, s1)
     | (Inr endpoint, s1) \<Rightarrow> verify_eip1898 env ex endpoint address anchor expected s1)"

text \<open>The verifier's state: the client's, and the cache \<open>anchor hash \<mapsto> (address, expected) \<mapsto> evidence\<close>.\<close>

type_synonym code_bucket = "((string \<times> string option) \<times> code_evidence) list"

record 'w code_state =
  cv_rpc :: "'w rpc_state"
  cv_cache :: "(string \<times> code_bucket) list"

definition on_rpc :: "('w, 'a) rpc \<Rightarrow> ('w code_state, 'a) io" where
  "on_rpc m = (\<lambda>s. case m (cv_rpc s) of (r, rs) \<Rightarrow> (r, s\<lparr>cv_rpc := rs\<rparr>))"

definition verify ::
  "'w env \<Rightarrow> ext \<Rightarrow> int \<Rightarrow> string \<Rightarrow> block_ref \<Rightarrow> string option \<Rightarrow> ('w code_state, code_evidence) io" where
  "verify env ex quorum address anchor expected = (\<lambda>s.
     let normalized = str_lower address; key = (normalized, expected);
         bucket = map_of (cv_cache s) (block_hash anchor) in
     case Option.bind bucket (\<lambda>b. map_of b key) of
       Some evidence \<Rightarrow> (Inr evidence, s)
     | None \<Rightarrow>
         bind_io (on_rpc (verify_uncached env ex quorum normalized anchor expected)) (\<lambda>evidence s1.
           (Inr evidence,
            s1\<lparr>cv_cache :=
              (case bucket of
                 None \<Rightarrow> [(block_hash anchor, [(key, evidence)])]
               | Some b \<Rightarrow> AList.update (block_hash anchor) (AList.update key evidence b) (cv_cache s1))\<rparr>)) s)"

subsection \<open>The router\<close>

text \<open>An executor is the model of a \<open>HistoricalCallExecutor\<close>'s \<open>execute\<close> method.\<close>

type_synonym 's executor_fun = "contract_call list \<Rightarrow> block_ref \<Rightarrow> ('s, verified_batch_result list) io"

definition for_anchor :: "int \<Rightarrow> 's executor_fun \<Rightarrow> 's executor_fun \<Rightarrow> block_ref \<Rightarrow> 's executor_fun" where
  "for_anchor deployment_block multicall legacy anchor =
     (if number anchor \<ge> deployment_block then multicall else legacy)"

definition router_execute :: "int \<Rightarrow> 's executor_fun \<Rightarrow> 's executor_fun \<Rightarrow> 's executor_fun" where
  "router_execute deployment_block multicall legacy calls anchor =
     for_anchor deployment_block multicall legacy anchor calls anchor"

subsection \<open>Lemmas: batches\<close>

lemma concat_chunks [simp]: "0 < n \<Longrightarrow> concat (chunks n xs) = xs"
proof (induction n xs rule: chunks.induct)
  case (1 n xs)
  then show ?case by (subst chunks.simps) auto
qed

lemma chunks_sizes: "c \<in> set (chunks n xs) \<Longrightarrow> c \<noteq> [] \<and> length c \<le> n"
proof (induction n xs rule: chunks.induct)
  case (1 n xs)
  from "1.prems" have ne: "\<not> (xs = [] \<or> n = 0)" by (subst (asm) chunks.simps) (auto split: if_splits)
  with "1.prems" have "c = take n xs \<or> c \<in> set (chunks n (drop n xs))"
    by (subst (asm) chunks.simps) simp
  with ne "1.IH" show ?case by auto
qed

lemma chunked_Inr [res_simps]: "chunked xs n = Inr cs \<longleftrightarrow> 1 \<le> n \<and> cs = chunks (nat n) xs"
  by (auto simp: chunked_def)

subsection \<open>Lemmas: the result digest\<close>

text \<open>
  What the digest distinguishes of a result: an absent error code reads as \<open>-2^31\<close>, an absent
  message as the empty one.
\<close>

type_synonym digest_fields = "string \<times> bool \<times> bytes \<times> int \<times> string"

definition digest_fields :: "raw_call_result \<Rightarrow> digest_fields" where
  "digest_fields r = (rr_key r, rr_success r, rr_returndata r, result_code r, result_message r)"

definition fields_ok :: "digest_fields \<Rightarrow> bool" where
  "fields_ok = (\<lambda>(k, s, d, c, m). int (length (utf8 k)) < 256 ^ 4 \<and> True \<and> int (length d) < 256 ^ 4
     \<and> (- (2 ^ 63) \<le> c \<and> c < 2 ^ 63) \<and> int (length (utf8 m)) < 256 ^ 4)"

definition fields_bytes :: "digest_fields \<Rightarrow> bytes" where
  "fields_bytes = (\<lambda>(k, s, d, c, m). length_prefixed 4 (utf8 k) @ [if s then 1 else 0]
     @ length_prefixed 4 d @ to_bytes 8 (c mod 2 ^ 64) @ length_prefixed 4 (utf8 m))"

lemma self_delimiting_utf8: "self_delimiting (\<lambda>k. int (length (utf8 k)) < 256 ^ w) (\<lambda>k. length_prefixed w (utf8 k))"
  by (rule self_delimiting_image [OF self_delimiting_length_prefixed]) (auto dest: inj_utf8)

lemma self_delimiting_flag: "self_delimiting (\<lambda>s. True) (\<lambda>s. [if s then 1 else 0 :: byte])"
  by (rule self_delimiting_fixed [where n = 1]) (auto split: if_splits)

lemma mod_window_inject:
  fixes x y m :: int
  assumes "x mod m = y mod m" and "a \<le> x" "x < a + m" "a \<le> y" "y < a + m"
  shows "x = y"
proof -
  have "(x - a) mod m = (y - a) mod m" using assms(1) by (metis mod_diff_left_eq)
  then show ?thesis using assms by simp
qed

lemma self_delimiting_signed64:
  "self_delimiting (\<lambda>c. - (2 ^ 63) \<le> c \<and> c < 2 ^ 63) (\<lambda>c :: int. to_bytes 8 (c mod 2 ^ 64))"
proof (rule self_delimiting_fixed [where n = 8])
  fix x y :: int
  assume b: "- (2 ^ 63) \<le> x \<and> x < 2 ^ 63" "- (2 ^ 63) \<le> y \<and> y < 2 ^ 63"
    and eq: "to_bytes 8 (x mod 2 ^ 64) = to_bytes 8 (y mod 2 ^ 64)"
  have "x mod 2 ^ 64 = y mod 2 ^ 64"
    using eq by (subst (asm) to_bytes_eq_iff) auto
  then show "x = y" by (rule mod_window_inject [where a = "- (2 ^ 63)"]) (use b in simp_all)
qed simp

lemma self_delimiting_fields: "self_delimiting fields_ok fields_bytes"
  unfolding fields_ok_def fields_bytes_def
  using self_delimiting_pair [OF self_delimiting_utf8 [of 4]
      self_delimiting_pair [OF self_delimiting_flag
        self_delimiting_pair [OF self_delimiting_length_prefixed [of 4]
          self_delimiting_pair [OF self_delimiting_signed64 self_delimiting_utf8 [of 4]]]]]
  by (simp add: case_prod_beta')

interpretation rb: prefix_code fields_ok fields_bytes
  by unfold_locales (rule self_delimiting_fields, auto simp: fields_bytes_def split: prod.splits)

lemma result_bytes_Inr [res_simps]:
  "result_bytes r = Inr b \<longleftrightarrow> fields_ok (digest_fields r) \<and> b = fields_bytes (digest_fields r)"
  by (auto simp: result_bytes_def fields_ok_def fields_bytes_def digest_fields_def to_bytes_res_def
      to_bytes_signed_def length_prefixed_def Let_def res_simps)

lemma digest_raw_results_Inr [res_simps]:
  "digest_raw_results rs = Inr d \<longleftrightarrow>
     list_all (fields_ok \<circ> digest_fields) rs
     \<and> d = sha256_hex (concat (map (fields_bytes \<circ> digest_fields) rs))"
proof -
  have "list_all2 (\<lambda>r b. result_bytes r = Inr b) rs ps \<longleftrightarrow>
      list_all (fields_ok \<circ> digest_fields) rs \<and> ps = map (fields_bytes \<circ> digest_fields) rs" for ps
    by (induction rs arbitrary: ps) (auto simp: list_all2_Cons1 result_bytes_Inr)
  then show ?thesis by (auto simp: digest_raw_results_def bind_res_Inr map_res_Inr)
qed

subsection \<open>The executor contract\<close>

text \<open>
  What a collector relies on: the results answer the calls in order, and each batch carries
  verified evidence for this anchor whose digest is the digest of the batch's own results.
\<close>

definition evidence_ok :: "block_ref \<Rightarrow> verified_batch_result \<Rightarrow> bool" where
  "evidence_ok anchor b \<longleftrightarrow> ve_verified (vb_evidence b)
     \<and> normalize_hash (JStr (block_hash anchor)) = Inr (ve_anchor_hash (vb_evidence b))
     \<and> digest_raw_results (vb_results b) = Inr (ve_result_digest (vb_evidence b))"

definition results_of :: "verified_batch_result list \<Rightarrow> raw_call_result list" where
  "results_of bs = concat (map vb_results bs)"

lemma results_of_simps [simp]:
  "results_of [] = []" "results_of (b # bs) = vb_results b @ results_of bs"
  "results_of (as @ bs) = results_of as @ results_of bs"
  by (simp_all add: results_of_def)

locale executor =
  fixes execute :: "'s executor_fun"
  assumes answers_in_order:
      "execute calls anchor s = (Inr bs, s') \<Longrightarrow> map rr_key (results_of bs) = map cc_key calls"
    and verified:
      "execute calls anchor s = (Inr bs, s') \<Longrightarrow> list_all (evidence_ok anchor) bs"
begin

lemma result_count: "execute calls anchor s = (Inr bs, s') \<Longrightarrow> length (results_of bs) = length calls"
  by (drule answers_in_order) (metis length_map)

lemma same_anchor:
  "execute calls anchor s = (Inr bs, s') \<Longrightarrow> b \<in> set bs \<Longrightarrow> c \<in> set bs \<Longrightarrow>
     ve_anchor_hash (vb_evidence b) = ve_anchor_hash (vb_evidence c)"
  by (drule verified) (metis (mono_tags, lifting) list_all_iff evidence_ok_def sum.inject(2))

end

text \<open>A router between two executors is an executor.\<close>

lemma router_executor:
  assumes "executor m" and "executor l"
  shows "executor (router_execute n m l)"
  using assms
  by (auto simp: executor_def router_execute_def for_anchor_def)

subsection \<open>Lemmas: the code verifier\<close>

text \<open>
  A read by block number between two checks that the endpoint still has the anchor's hash there.
\<close>

definition sandwiched ::
  "'w env \<Rightarrow> block_ref \<Rightarrow> rpc_endpoint \<Rightarrow> ('w, 'a) rpc \<Rightarrow> 'a \<Rightarrow> bool" where
  "sandwiched env anchor e read r \<longleftrightarrow>
     (\<exists>s0 s1 s2 s3. assert_anchor_hash env e anchor s0 = (Inr (), s1) \<and> read s1 = (Inr r, s2)
        \<and> assert_anchor_hash env e anchor s2 = (Inr (), s3))"

lemma sandwichedI:
  assumes "bind_io (assert_anchor_hash env e anchor) (\<lambda>_. bind_io read (\<lambda>r.
      bind_io (assert_anchor_hash env e anchor) (\<lambda>_. k r))) s = (Inr y, s')"
  shows "\<exists>r s4. sandwiched env anchor e read r \<and> k r s4 = (Inr y, s')"
proof -
  from assms obtain r s1 s2 s4 where "assert_anchor_hash env e anchor s = (Inr (), s1)" "read s1 = (Inr r, s2)"
    "assert_anchor_hash env e anchor s2 = (Inr (), s4)" "k r s4 = (Inr y, s')"
    by (auto simp: bind_io_Inr)
  then show ?thesis unfolding sandwiched_def by blast
qed

text \<open>The endpoint's answer to a code query, and the evidence for an address at an anchor.\<close>

definition code_answer :: "'w env \<Rightarrow> rpc_endpoint \<Rightarrow> string \<Rightarrow> json \<Rightarrow> bytes \<Rightarrow> bool" where
  "code_answer env e address reference code \<longleftrightarrow>
     (\<exists>encoded. answered env e ''eth_getCode'' [JStr address, reference] encoded
        \<and> decode_code encoded address = Inr code)"

definition hash_pinned :: "'w env \<Rightarrow> block_ref \<Rightarrow> string \<Rightarrow> bytes \<Rightarrow> code_evidence \<Rightarrow> bool" where
  "hash_pinned env anchor address code ev \<longleftrightarrow> ce_reference_kind ev = ''eip1898''
     \<and> (\<exists>e reference. ce_provider_groups ev = [ep_provider_group e]
          \<and> eip1898_reference anchor = Inr reference \<and> code_answer env e address reference code)"

definition quorum_agreed :: "'w env \<Rightarrow> int \<Rightarrow> block_ref \<Rightarrow> string \<Rightarrow> bytes \<Rightarrow> code_evidence \<Rightarrow> bool" where
  "quorum_agreed env quorum anchor address code ev \<longleftrightarrow> ce_reference_kind ev = ''number_quorum''
     \<and> distinct (ce_provider_groups ev) \<and> int (length (ce_provider_groups ev)) = quorum
     \<and> (\<exists>es. ce_provider_groups ev = map ep_provider_group es \<and> (\<forall>e \<in> set es. \<exists>encoded.
          sandwiched env anchor e
            (call_on_endpoint env e ''eth_getCode'' [JStr address, number_reference anchor]) encoded
          \<and> decode_code encoded address = Inr code))"

definition code_ok ::
  "'w env \<Rightarrow> ext \<Rightarrow> int \<Rightarrow> string \<Rightarrow> string \<times> string option \<Rightarrow> code_evidence \<Rightarrow> bool" where
  "code_ok env ex quorum bh key ev \<longleftrightarrow>
     ce_address ev = fst key
     \<and> (\<forall>h. snd key = Some h \<longrightarrow> ce_code_hash ev = str_lower h)
     \<and> (\<exists>code anchor. code \<noteq> [] \<and> ce_code_hash ev = ''0x'' @ bytes_hex (ext_keccak ex code)
          \<and> block_hash anchor = bh
          \<and> (hash_pinned env anchor (fst key) code ev \<or> quorum_agreed env quorum anchor (fst key) code ev))"

definition cache_sound :: "'w env \<Rightarrow> ext \<Rightarrow> int \<Rightarrow> 'w code_state \<Rightarrow> bool" where
  "cache_sound env ex quorum s \<longleftrightarrow>
     (\<forall>bh bucket. map_of (cv_cache s) bh = Some bucket \<longrightarrow>
        (\<forall>key ev. map_of bucket key = Some ev \<longrightarrow> code_ok env ex quorum bh key ev))"

lemma decode_code_Inr: "decode_code j a = Inr code \<Longrightarrow> code \<noteq> []"
  by (auto simp: decode_code_def split: json.splits sum.splits if_splits)

lemma check_code_hash_Inr:
  "check_code_hash ex code a e = Inr h \<longleftrightarrow>
     h = ''0x'' @ bytes_hex (ext_keccak ex code) \<and> (\<forall>x. e = Some x \<longrightarrow> h = str_lower x)"
  by (auto simp: check_code_hash_def Let_def split: option.splits)

lemma verify_eip1898_ok:
  assumes "verify_eip1898 env ex ep a anchor e s = (Inr ev, s')"
  shows "code_ok env ex q (block_hash anchor) (a, e) ev"
proof -
  from assms obtain reference encoded code h s1 s2 where
    ref: "eip1898_reference anchor = Inr reference"
    and get: "call_on_endpoint env ep ''eth_getCode'' [JStr a, reference] s1 = (Inr encoded, s2)"
    and code: "decode_code encoded a = Inr code" and h: "check_code_hash ex code a e = Inr h"
    and ev: "ev = \<lparr>ce_address = a, ce_code_hash = h, ce_provider_groups = [ep_provider_group ep],
      ce_reference_kind = ''eip1898''\<rparr>"
    by (auto simp: verify_eip1898_def io_simps)
  have "hash_pinned env anchor a code ev"
    using ref code call_on_endpoint_answered [OF get] unfolding hash_pinned_def code_answer_def ev by auto
  with h decode_code_Inr [OF code] show ?thesis by (auto simp: code_ok_def check_code_hash_Inr ev)
qed

lemma verify_number_quorum_ok:
  assumes "verify_number_quorum env ex q a anchor e s = (Inr ev, s')"
  shows "code_ok env ex q (block_hash anchor) (a, e) ev"
proof -
  from assms obtain eps s1 vals s2 h where
    sel: "select_distinct_groups env q (Some (number anchor)) s = (Inr eps, s1)"
    and rd: "map_io (read_code_sandwich env anchor a) eps s1 = (Inr vals, s2)"
    and h: "check_code_hash ex (hd vals) a e = Inr h"
    and agree: "\<not> list_ex (\<lambda>v. v \<noteq> hd vals) (tl vals)"
    and ev: "ev = \<lparr>ce_address = a, ce_code_hash = h, ce_provider_groups = map ep_provider_group eps,
      ce_reference_kind = ''number_quorum''\<rparr>"
    by (auto simp: verify_number_quorum_def io_simps split: if_splits)
  from sel have n: "1 \<le> q" and d: "distinct_loop env (nat q) (Some (number anchor)) (st_endpoints s) [] [] s
      = (Inr eps, s1)"
    by (auto simp: select_distinct_groups_def split: if_splits)
  have eps: "int (length eps) = q" "distinct (map ep_provider_group eps)"
    using distinct_loop_spec [OF d] n by auto
  have all: "list_all2 (\<lambda>ep code. \<exists>encoded. sandwiched env anchor ep
      (call_on_endpoint env ep ''eth_getCode'' [JStr a, number_reference anchor]) encoded
      \<and> decode_code encoded a = Inr code) eps vals" (is "list_all2 ?P _ _")
    by (rule map_io_all [OF rd]) (auto simp: read_code_sandwich_def lift_res_Inr dest!: sandwichedI)
  then have len: "vals \<noteq> []" using eps n by (cases vals) auto
  with agree have same: "\<forall>v \<in> set vals. v = hd vals" by (cases vals) (auto simp: list_ex_iff)
  have each: "\<forall>ep \<in> set eps. ?P ep (hd vals)"
    using same list_all2_each [OF all] by metis
  moreover from eps n obtain ep where "ep \<in> set eps" by (cases eps) auto
  ultimately have "hd vals \<noteq> []" using decode_code_Inr by blast
  moreover have "quorum_agreed env q anchor a (hd vals) ev"
    using each eps unfolding quorum_agreed_def ev by auto
  ultimately show ?thesis using h by (auto simp: code_ok_def check_code_hash_Inr ev)
qed

lemma verify_uncached_ok:
  "verify_uncached env ex q a anchor e s = (Inr ev, s') \<Longrightarrow> code_ok env ex q (block_hash anchor) (a, e) ev"
  by (auto simp: verify_uncached_def split: prod.splits sum.splits if_splits
      intro: verify_eip1898_ok verify_number_quorum_ok)

lemma verify_sound:
  assumes "cache_sound env ex q s" and "verify env ex q a anchor e s = (Inr ev, s')"
  shows "code_ok env ex q (block_hash anchor) (str_lower a, e) ev \<and> cache_sound env ex q s'"
proof -
  let ?key = "(str_lower a, e)" and ?b = "map_of (cv_cache s) (block_hash anchor)"
  show ?thesis
  proof (cases "Option.bind ?b (\<lambda>b. map_of b ?key)")
    case (Some x)
    with assms(2) have "ev = x" "s' = s" by (auto simp: verify_def Let_def)
    with Some assms(1) show ?thesis by (auto simp: cache_sound_def Option.bind_eq_Some_conv)
  next
    case None
    then obtain s1 where u: "on_rpc (verify_uncached env ex q (str_lower a) anchor e) s = (Inr ev, s1)"
      and s': "s' = s1\<lparr>cv_cache := (case ?b of
                 None \<Rightarrow> [(block_hash anchor, [(?key, ev)])]
               | Some b \<Rightarrow> AList.update (block_hash anchor) (AList.update ?key ev b) (cv_cache s1))\<rparr>"
      using assms(2) by (auto simp: verify_def Let_def bind_io_def split: prod.splits sum.splits)
    from u have ok: "code_ok env ex q (block_hash anchor) ?key ev" and c: "cv_cache s1 = cv_cache s"
      by (auto simp: on_rpc_def split: prod.splits dest: verify_uncached_ok)
    have "cache_sound env ex q s'"
      using assms(1) ok unfolding cache_sound_def s' c
      by (auto simp: update_conv' split: option.splits if_splits)
    with ok show ?thesis by blast
  qed
qed

subsection \<open>Properties\<close>

text \<open>
  The result digest commits to everything a result says. Two batches whose hashed
  byte strings are equal have the same results one by one: key, success flag, return data,
  error code (an absent code reading as \<open>-2^31\<close>) and message (an absent one as empty). No
  two different batches share an encoding, whatever the field contents.
\<close>

theorem digest_preimage_unambiguous:
  assumes "digest_raw_results rs = Inr d" and "digest_raw_results qs = Inr e"
    and "concat (map (fields_bytes \<circ> digest_fields) rs) = concat (map (fields_bytes \<circ> digest_fields) qs)"
  shows "map digest_fields rs = map digest_fields qs \<and> d = e"
proof -
  have "list_all fields_ok (map digest_fields rs)" "list_all fields_ok (map digest_fields qs)"
    using assms(1,2) by (simp_all add: digest_raw_results_Inr list_all_iff)
  moreover have "concat (map fields_bytes (map digest_fields rs))
      = concat (map fields_bytes (map digest_fields qs))" using assms(3) by simp
  ultimately have "map digest_fields rs = map digest_fields qs" by (rule rb.concat_inject)
  with assms show ?thesis by (simp add: digest_raw_results_Inr)
qed

definition sample_keccak_ext :: ext where
  "sample_keccak_ext = \<lparr>ext_keccak = take 2, ext_abi_encode = (\<lambda>_. Inr []), ext_abi_decode = (\<lambda>_. Inr [])\<rparr>"

definition sample_evidence :: code_evidence where
  "sample_evidence = \<lparr>ce_address = ''0xab'', ce_code_hash = ''0x6001'', ce_provider_groups = [''one''],
     ce_reference_kind = ''eip1898''\<rparr>"

definition sample_code_state :: "nat code_state" where
  "sample_code_state = \<lparr>cv_rpc = sample_state,
     cv_cache = [(block_hash (sample_block 1), [((''0xab'', Some ''0x6001''), sample_evidence)])]\<rparr>"

definition sample_result :: raw_call_result where
  "sample_result = \<lparr>rr_key = ''a'', rr_success = True, rr_returndata = [1], rr_error_code = None,
     rr_error_message = None\<rparr>"

lemma sample_result_ok: "fields_ok (digest_fields sample_result)"
  by (simp add: fields_ok_def digest_fields_def sample_result_def result_code_def result_message_def)

theorem digest_preimage_unambiguous_witness:
  "\<exists>d. digest_raw_results [sample_result] = Inr d
     \<and> map digest_fields [sample_result] = map digest_fields [sample_result]"
proof -
  have "digest_raw_results [sample_result]
      = Inr (sha256_hex (concat (map (fields_bytes \<circ> digest_fields) [sample_result])))"
    by (simp add: digest_raw_results_Inr sample_result_ok)
  from digest_preimage_unambiguous [OF this this refl] this show ?thesis by blast
qed

text \<open>
  C23: the code verifier's cache is sound. From a sound cache (the empty one is), every
  evidence \<open>verify\<close> returns, cached or fresh, is about the requested address in lower case, is the
  hash of some non-empty runtime code, and equals the pinned hash when one is given. That code is
  what an endpoint answered to a query pinned to the anchor's hash, or what every one of exactly
  the configured number of endpoints of distinct provider groups answered by block number between
  two checks of the anchor's hash. The cache, keyed by anchor hash, stays sound; failures are
  never cached.
\<close>

theorem code_evidence_sound:
  assumes "cache_sound env ex q s"
  shows "(\<forall>ev s'. verify env ex q a anchor e s = (Inr ev, s') \<longrightarrow>
            code_ok env ex q (block_hash anchor) (str_lower a, e) ev \<and> cache_sound env ex q s')
       \<and> (\<forall>x s'. verify env ex q a anchor e s = (Inl x, s') \<longrightarrow> cv_cache s' = cv_cache s)"
proof -
  have "cv_cache s' = cv_cache s" if "verify env ex q a anchor e s = (Inl x, s')" for x s'
    using that by (auto simp: verify_def Let_def bind_io_def on_rpc_def
        split: prod.splits sum.splits option.splits)
  with verify_sound [OF assms] show ?thesis by blast
qed

definition code_env :: "nat env" where
  "code_env = \<lparr>monotonic = (\<lambda>w. (of_nat w, w + 1)), sleep = (\<lambda>d w. w),
     http_post = (\<lambda>url payload w. (Response 200 ''OK'' None
       (Some (JObj [(''id'', JInt 1), (''result'', JStr ''0x6001'')])), w))\<rparr>"

lemma code_env_answered: "answered code_env e m ps (JStr ''0x6001'')"
  unfolding answered_def answers_def code_env_def
  by (rule exI [of _ 1]) (simp add: obj_get_def obj_has_def json_eq_int_def)

lemma sample_code: "hex_data_to_bytes ''0x6001'' = Inr [0x60, 0x01]" "bytes_hex (take 2 [0x60, 0x01]) = ''6001''"
  by code_simp+

lemma sample_reference: "\<exists>r. eip1898_reference (sample_block 1) = Inr r"
proof -
  have "\<not> isl (normalize_hash (JStr (block_hash (sample_block 1))))" by code_simp
  then show ?thesis by (cases "normalize_hash (JStr (block_hash (sample_block 1)))") (auto simp: eip1898_reference_def)
qed

lemma sample_cache_sound: "cache_sound code_env sample_keccak_ext 2 sample_code_state"
proof -
  obtain r where r: "eip1898_reference (sample_block 1) = Inr r" using sample_reference by blast
  have lower: "str_lower ''0x6001'' = ''0x6001''" by code_simp
  have "code_answer code_env (sample_endpoint ''one'') ''0xab'' r [0x60, 0x01]"
    unfolding code_answer_def using code_env_answered
    by (intro exI [of _ "JStr ''0x6001''"]) (simp add: decode_code_def sample_code(1))
  then have "hash_pinned code_env (sample_block 1) ''0xab'' [0x60, 0x01] sample_evidence"
    unfolding hash_pinned_def using r
    by (auto simp: sample_evidence_def sample_endpoint_def intro!: exI [of _ "sample_endpoint ''one''"])
  then have "code_ok code_env sample_keccak_ext 2 (block_hash (sample_block 1)) (''0xab'', Some ''0x6001'') sample_evidence"
    unfolding code_ok_def
    by (intro conjI exI [of _ "[0x60, 0x01]"] exI [of _ "sample_block 1"] disjI1)
      (auto simp: sample_evidence_def sample_keccak_ext_def lower [simplified] sample_code(2) [simplified])
  then show ?thesis
    by (auto simp: cache_sound_def sample_code_state_def split: if_splits)
qed

theorem code_evidence_sound_witness:
  "verify code_env sample_keccak_ext 2 ''0xAB'' (sample_block 1) (Some ''0x6001'') sample_code_state
       = (Inr sample_evidence, sample_code_state)
   \<and> code_ok code_env sample_keccak_ext 2 (block_hash (sample_block 1)) (''0xab'', Some ''0x6001'') sample_evidence"
proof -
  have lower: "str_lower ''0xAB'' = ''0xab''" by code_simp
  have v: "verify code_env sample_keccak_ext 2 ''0xAB'' (sample_block 1) (Some ''0x6001'') sample_code_state
      = (Inr sample_evidence, sample_code_state)"
    by (simp add: verify_def sample_code_state_def lower Let_def)
  from code_evidence_sound [OF sample_cache_sound] v lower show ?thesis by metis
qed

end
