(* ===== verification/Legacy.thy ===== *)
theory Legacy
  imports Execution
begin

text \<open>
  The pre-Multicall executor (\<open>execution/legacy_rpc_batch.py\<close>): JSON-RPC batches pinned to the
  anchor's hash (EIP-1898), or sandwiched between hash checks on a quorum of distinct
  providers; batches a provider refuses are split. Latency metrics are left out.
\<close>

subsection \<open>Adaptive splitting\<close>

text \<open>
  \<open>_execute_adaptive\<close>, shared by both executors, which differ in \<open>on_error\<close>: an exception is either
  raised (as the given one) or, being a provider limit, answered by halving the batch; a limit
  on a single call is raised. An empty batch would recurse for ever in Python.
\<close>

datatype adaptive_action = RaiseNow exn | Halve exn

function adaptive ::
  "(exn \<Rightarrow> adaptive_action) \<Rightarrow> (contract_call list \<Rightarrow> ('s, verified_batch_result) io)
   \<Rightarrow> contract_call list \<Rightarrow> ('s, verified_batch_result list) io" where
  "adaptive on_error once calls s =
     (case once calls s of
        (Inr result, s1) \<Rightarrow> (Inr [result], s1)
      | (Inl e, s1) \<Rightarrow>
          (case on_error e of
             RaiseNow x \<Rightarrow> (Inl x, s1)
           | Halve x \<Rightarrow>
               if length calls = 1 then (Inl x, s1)
               else if calls = [] then (Inl (Exn RuntimeError ''maximum recursion depth exceeded''), s1)
               else let midpoint = length calls div 2 in
               case adaptive on_error once (take midpoint calls) s1 of
                 (Inl y, s2) \<Rightarrow> (Inl y, s2)
               | (Inr left, s2) \<Rightarrow>
                   (case adaptive on_error once (drop midpoint calls) s2 of
                      (Inl y, s3) \<Rightarrow> (Inl y, s3)
                    | (Inr right, s3) \<Rightarrow> (Inr (left @ right), s3))))"
  by auto
termination
  by (relation "measure (\<lambda>(_, _, calls, _). length calls)")
    (auto simp: Suc_lessI neq_Nil_conv intro: gr0I)

declare adaptive.simps [simp del]

definition legacy_on_error :: "exn \<Rightarrow> adaptive_action" where
  "legacy_on_error e =
     (let normalized = normalize_rpc_error e in
      if rf_kind (classify_rpc_failure normalized) \<noteq> PROVIDER_LIMIT then RaiseNow normalized
      else Halve (Exn RpcProviderLimit (exn_str normalized)))"

subsection \<open>Batches\<close>

definition call_json :: "contract_call \<Rightarrow> json" where
  "call_json c = JObj [(''to'', JStr (cc_target c)), (''data'', JStr (''0x'' @ bytes_hex (cc_calldata c)))]"

definition block_reference :: "block_ref \<Rightarrow> bool \<Rightarrow> json res" where
  "block_reference anchor eip1898 =
     (if eip1898 then eip1898_reference anchor else Inr (number_reference anchor))"

definition build_batch_requests ::
  "contract_call list \<Rightarrow> block_ref \<Rightarrow> bool \<Rightarrow> (json list \<times> (int \<times> contract_call) list) res" where
  "build_batch_requests calls anchor eip1898 =
     bind_res (block_reference anchor eip1898) (\<lambda>reference.
       let calls_by_id = zip (map int [1..<length calls + 1]) calls in
       Inr (map (\<lambda>(i, c). JObj [(''jsonrpc'', JStr ''2.0''), (''id'', JInt i),
                  (''method'', JStr ''eth_call''), (''params'', JArr [call_json c, reference])])
              calls_by_id,
            calls_by_id))"

definition version_check :: "json \<Rightarrow> exn_class \<Rightarrow> unit res" where
  "version_check version c =
     (case version of
        JArr _ \<Rightarrow> raise_res TypeError (''unhashable type: '' @ repr_str ''list'')
      | JObj _ \<Rightarrow> raise_res TypeError (''unhashable type: '' @ repr_str ''dict'')
      | _ \<Rightarrow> if version \<noteq> JNull \<and> version \<noteq> JStr ''2.0''
             then raise_res c ''unexpected JSON-RPC version'' else Inr ())"

text \<open>The responses collected so far, by identifier.\<close>

fun collect_responses ::
  "int list \<Rightarrow> (int \<times> (string \<times> json) list) list \<Rightarrow> (string \<times> json) list list
   \<Rightarrow> (int \<times> (string \<times> json) list) list res" where
  "collect_responses ids by_id [] = Inr by_id"
| "collect_responses ids by_id (response # rest) =
     (case obj_get response ''id'' of
        JInt i \<Rightarrow>
          if i \<notin> set ids
          then raise_res UnknownBatchResponseId (''unknown response ID '' @ py_int i)
          else if i \<in> set (map fst by_id)
          then raise_res DuplicateBatchResponseId (''duplicate response ID '' @ py_int i)
          else bind_res (version_check (obj_get response ''jsonrpc'') MalformedBatchResponse) (\<lambda>_.
                 collect_responses ids (by_id @ [(i, response)]) rest)
      | other \<Rightarrow> raise_res UnknownBatchResponseId (''unknown response ID '' @ py_repr other))"

definition failed_result :: "string \<Rightarrow> int \<Rightarrow> string \<Rightarrow> raw_call_result" where
  "failed_result key code message =
     \<lparr>rr_key = key, rr_success = False, rr_returndata = [], rr_error_code = Some code,
      rr_error_message = Some message\<rparr>"

definition ok_result :: "string \<Rightarrow> bytes \<Rightarrow> raw_call_result" where
  "ok_result key raw =
     \<lparr>rr_key = key, rr_success = True, rr_returndata = raw, rr_error_code = None,
      rr_error_message = None\<rparr>"

definition decode_response :: "int \<Rightarrow> contract_call \<Rightarrow> (string \<times> json) list \<Rightarrow> raw_call_result res" where
  "decode_response i c response =
     (let label = ''response '' @ py_int i in
      if obj_has response ''result'' = obj_has response ''error''
      then raise_res MalformedBatchResponse (label @ '' must contain exactly one of result/error'')
      else if obj_has response ''error''
      then case obj_get response ''error'' of
             JObj error \<Rightarrow>
               (case (obj_get error ''code'', obj_get error ''message'') of
                  (JInt code, JStr message) \<Rightarrow> Inr (failed_result (cc_key c) code message)
                | _ \<Rightarrow> raise_res MalformedBatchResponse (label @ '' has malformed error''))
           | _ \<Rightarrow> raise_res MalformedBatchResponse (label @ '' error is not an object'')
      else case obj_get response ''result'' of
             JStr encoded \<Rightarrow>
               (case hex_data_to_bytes encoded of
                  Inl _ \<Rightarrow> raise_res MalformedBatchResponse (label @ '' result is malformed'')
                | Inr raw \<Rightarrow> Inr (ok_result (cc_key c) raw))
           | _ \<Rightarrow> raise_res MalformedBatchResponse (label @ '' result is not hex''))"

definition decode_batch_responses ::
  "(string \<times> json) list list \<Rightarrow> (int \<times> contract_call) list \<Rightarrow> raw_call_result list res" where
  "decode_batch_responses responses calls_by_id =
     bind_res (collect_responses (map fst calls_by_id) [] responses) (\<lambda>by_id.
       let missing = filter (\<lambda>i. i \<notin> set (map fst by_id)) (sort (map fst calls_by_id)) in
       if missing \<noteq> []
       then raise_res MissingBatchResponses
              (''missing response IDs: ['' @ join '', '' (map py_int missing) @ '']'')
       else map_res (\<lambda>(i, c). decode_response i c (the (map_of by_id i))) (sort_key fst calls_by_id))"

subsection \<open>One endpoint\<close>

definition obj_fields :: "json \<Rightarrow> (string \<times> json) list" where
  "obj_fields j = (case j of JObj kvs \<Rightarrow> kvs | _ \<Rightarrow> [])"

definition call_one ::
  "'w env \<Rightarrow> rpc_endpoint \<Rightarrow> json \<Rightarrow> contract_call \<Rightarrow> ('w, raw_call_result) rpc" where
  "call_one env endpoint reference c = (\<lambda>s.
     case call_on_endpoint env endpoint ''eth_call'' [call_json c, reference] s of
       (Inl (ResponseExn code message data), s1) \<Rightarrow> (Inr (failed_result (cc_key c) code message), s1)
     | (Inl e, s1) \<Rightarrow> (Inl e, s1)
     | (Inr (JStr encoded), s1) \<Rightarrow>
         (case hex_data_to_bytes encoded of
            Inl _ \<Rightarrow> (raise_res MalformedBatchResponse ''individual eth_call result is malformed'', s1)
          | Inr raw \<Rightarrow> (Inr (ok_result (cc_key c) raw), s1))
     | (Inr _, s1) \<Rightarrow> (raise_res MalformedBatchResponse ''individual eth_call result is not hex'', s1))"

text \<open>\<open>RpcResponseError(result.error_code or -1, result.error_message or "")\<close>\<close>

definition probe_error :: "raw_call_result \<Rightarrow> exn" where
  "probe_error r =
     ResponseExn (case rr_error_code r of Some c \<Rightarrow> if c = 0 then - 1 else c | None \<Rightarrow> - 1)
       (result_message r) JNull"

fun check_limits :: "raw_call_result list \<Rightarrow> unit res" where
  "check_limits [] = Inr ()"
| "check_limits (r # rs) =
     (if \<not> rr_success r \<and> rf_kind (classify_rpc_failure (probe_error r)) = PROVIDER_LIMIT
      then raise_res RpcProviderLimit (exn_str (probe_error r))
      else check_limits rs)"

definition run_on_endpoint ::
  "'w env \<Rightarrow> rpc_endpoint \<Rightarrow> contract_call list \<Rightarrow> block_ref \<Rightarrow> bool \<Rightarrow> ('w, raw_call_result list) rpc" where
  "run_on_endpoint env endpoint calls anchor eip1898 =
     bind_io
       (if ep_supports_http_batch endpoint
        then bind_io (lift_res (build_batch_requests calls anchor eip1898)) (\<lambda>(requests, calls_by_id).
             bind_io (batch_on_endpoint env endpoint requests) (\<lambda>responses.
               lift_res (decode_batch_responses (map obj_fields responses) calls_by_id)))
        else bind_io (lift_res (block_reference anchor eip1898)) (\<lambda>reference.
               map_io (call_one env endpoint reference) calls))
       (\<lambda>results. bind_io (lift_res (check_limits results)) (\<lambda>_. ret results))"

definition legacy_evidence ::
  "string \<Rightarrow> string \<Rightarrow> string list \<Rightarrow> string \<Rightarrow> verification_evidence" where
  "legacy_evidence reference_kind anchor_hash groups digest =
     \<lparr>ve_executor_kind = LEGACY_RPC_BATCH, ve_block_reference_kind = reference_kind,
      ve_anchor_hash = anchor_hash, ve_provider_groups = groups, ve_result_digest = digest,
      ve_verified = True\<rparr>"

definition execute_eip1898 ::
  "'w env \<Rightarrow> rpc_endpoint \<Rightarrow> contract_call list \<Rightarrow> block_ref \<Rightarrow> ('w, verified_batch_result) rpc" where
  "execute_eip1898 env endpoint calls anchor =
     bind_io (run_on_endpoint env endpoint calls anchor True) (\<lambda>results.
     bind_io (lift_res (digest_raw_results results)) (\<lambda>digest.
     bind_io (lift_res (normalize_hash (JStr (block_hash anchor)))) (\<lambda>h.
       ret \<lparr>vb_results = results,
            vb_evidence = legacy_evidence ''eip1898'' h [ep_provider_group endpoint] digest\<rparr>)))"

definition run_number_sandwich ::
  "'w env \<Rightarrow> contract_call list \<Rightarrow> block_ref \<Rightarrow> rpc_endpoint \<Rightarrow> ('w, raw_call_result list) rpc" where
  "run_number_sandwich env calls anchor endpoint =
     bind_io (assert_anchor_hash env endpoint anchor) (\<lambda>_.
     bind_io (run_on_endpoint env endpoint calls anchor False) (\<lambda>results.
     bind_io (assert_anchor_hash env endpoint anchor) (\<lambda>_. ret results)))"

definition execute_number_quorum ::
  "'w env \<Rightarrow> int \<Rightarrow> contract_call list \<Rightarrow> block_ref \<Rightarrow> ('w, verified_batch_result) rpc" where
  "execute_number_quorum env quorum calls anchor =
     bind_io (select_distinct_groups env quorum (Some (number anchor))) (\<lambda>endpoints.
     bind_io (map_io (run_number_sandwich env calls anchor) endpoints) (\<lambda>executions.
     bind_io (lift_res (map_res digest_raw_results executions)) (\<lambda>digests.
       if length (remdups digests) \<noteq> 1
       then raise (Exn ProviderQuorumMismatch ''legacy providers returned different state'')
       else bind_io (lift_res (digest_raw_results (hd executions))) (\<lambda>digest.
            bind_io (lift_res (normalize_hash (JStr (block_hash anchor)))) (\<lambda>h.
              ret \<lparr>vb_results = hd executions,
                   vb_evidence = legacy_evidence ''number_quorum'' h
                     (map ep_provider_group endpoints) digest\<rparr>)))))"

text \<open>The quorum fallback at the end of \<open>_execute_once\<close>.\<close>

definition quorum_fallback ::
  "'w env \<Rightarrow> int \<Rightarrow> contract_call list \<Rightarrow> block_ref \<Rightarrow> exn option \<Rightarrow> ('w, verified_batch_result) rpc" where
  "quorum_fallback env quorum calls anchor last_error =
     catch_io (execute_number_quorum env quorum calls anchor) (\<lambda>e.
       if isinstance e RpcNoHealthyEndpoint \<and> last_error \<noteq> None
       then raise (Exn RpcNoHealthyEndpoint ''no verified legacy execution path is available'')
       else raise e)"

fun legacy_once_loop ::
  "'w env \<Rightarrow> client_config \<Rightarrow> int \<Rightarrow> contract_call list \<Rightarrow> block_ref \<Rightarrow> nat \<Rightarrow> nat \<Rightarrow> string list
   \<Rightarrow> exn option \<Rightarrow> ('w, verified_batch_result) rpc" where
  "legacy_once_loop env cfg quorum calls anchor attempt 0 excluded last_error =
     quorum_fallback env quorum calls anchor last_error"
| "legacy_once_loop env cfg quorum calls anchor attempt (Suc fuel) excluded last_error = (\<lambda>s.
     case select env (Some (number anchor)) True excluded s of
       (Inl e, s1) \<Rightarrow>
         if isinstance e RpcNoHealthyEndpoint then quorum_fallback env quorum calls anchor last_error s1
         else (Inl e, s1)
     | (Inr endpoint, s1) \<Rightarrow>
         (case execute_eip1898 env endpoint calls anchor s1 of
            (Inr result, s2) \<Rightarrow> bind_io (record_success endpoint) (\<lambda>_. ret result) s2
          | (Inl exc, s2) \<Rightarrow>
              let normalized = normalize_rpc_error exc;
                  failure = classify_rpc_failure normalized in
              bind_io (record_failure env endpoint (rf_failover failure) (Some (number anchor))
                         (rf_kind failure = ARCHIVE_UNAVAILABLE)) (\<lambda>_.
                if rf_kind failure = PROVIDER_LIMIT
                then raise (Exn RpcProviderLimit (exn_str normalized))
                else if \<not> rf_failover failure \<and> \<not> rf_retryable failure then raise normalized
                else bind_io (pause env (min 2 (cc_retry_base_seconds cfg * 2 ^ attempt))) (\<lambda>_.
                  legacy_once_loop env cfg quorum calls anchor (attempt + 1) fuel
                    (ep_name endpoint # excluded) (Some normalized))) s2))"

definition legacy_once ::
  "'w env \<Rightarrow> client_config \<Rightarrow> int \<Rightarrow> block_ref \<Rightarrow> contract_call list \<Rightarrow> ('w, verified_batch_result) rpc" where
  "legacy_once env cfg quorum anchor calls =
     legacy_once_loop env cfg quorum calls anchor 0 (cc_max_retries cfg) [] None"

record legacy_config =
  lc_batch_size :: int
  lc_required_provider_quorum :: int

definition mk_legacy :: "int \<Rightarrow> int \<Rightarrow> legacy_config res" where
  "mk_legacy batch_size quorum =
     (if batch_size < 1 \<or> quorum < 2
      then raise_res ValueError ''legacy batch size must be positive and quorum at least two''
      else Inr \<lparr>lc_batch_size = batch_size, lc_required_provider_quorum = quorum\<rparr>)"

definition legacy_execute ::
  "'w env \<Rightarrow> client_config \<Rightarrow> legacy_config \<Rightarrow> 'w rpc_state executor_fun" where
  "legacy_execute env cfg lc calls anchor =
     bind_io (lift_res (chunked calls (lc_batch_size lc))) (\<lambda>batches.
     bind_io (map_io (adaptive legacy_on_error
                (legacy_once env cfg (lc_required_provider_quorum lc) anchor)) batches) (\<lambda>outputs.
       ret (concat outputs)))"

subsection \<open>Lemmas: splitting\<close>

text \<open>Whatever \<open>once\<close> guarantees of a batch holds of every part of an adaptive execution, and the
  parts make up the batch in order.\<close>

lemma adaptive_halves:
  assumes "adaptive on_error once calls s = (Inr bs, s')" and "once calls s = (Inl e, s1)"
  shows "\<exists>left s2 right. 1 < length calls
    \<and> adaptive on_error once (take (length calls div 2) calls) s1 = (Inr left, s2)
    \<and> adaptive on_error once (drop (length calls div 2) calls) s2 = (Inr right, s')
    \<and> bs = left @ right"
proof -
  let ?rec = "\<lambda>s1. case adaptive on_error once (take (length calls div 2) calls) s1 of
                 (Inl y, s2) \<Rightarrow> (Inl y, s2)
               | (Inr left, s2) \<Rightarrow>
                   (case adaptive on_error once (drop (length calls div 2) calls) s2 of
                      (Inl y, s3) \<Rightarrow> (Inl y, s3)
                    | (Inr right, s3) \<Rightarrow> (Inr (left @ right), s3))"
  have "adaptive on_error once calls s = (case on_error e of
             RaiseNow x \<Rightarrow> (Inl x, s1)
           | Halve x \<Rightarrow>
               if length calls = 1 then (Inl x, s1)
               else if calls = [] then (Inl (Exn RuntimeError ''maximum recursion depth exceeded''), s1)
               else ?rec s1)"
    unfolding adaptive.simps [of on_error once calls s] assms(2) Let_def by (simp only: prod.case sum.case)
  with assms(1) have len: "length calls \<noteq> 1" "calls \<noteq> []" and rec: "?rec s1 = (Inr bs, s')"
    by (auto split: adaptive_action.splits if_splits)
  from len have "1 < length calls" by (cases calls) auto
  moreover from rec obtain left s2 where
    l: "adaptive on_error once (take (length calls div 2) calls) s1 = (Inr left, s2)"
    by (auto split: prod.splits sum.splits)
  moreover from rec l obtain right where
    "adaptive on_error once (drop (length calls div 2) calls) s2 = (Inr right, s')" "bs = left @ right"
    by (auto split: prod.splits sum.splits)
  ultimately show ?thesis by blast
qed

lemma adaptive_parts:
  assumes "adaptive on_error once calls s = (Inr bs, s')"
    and once: "\<And>calls s b s'. once calls s = (Inr b, s') \<Longrightarrow> P calls b"
  shows "\<exists>parts. concat parts = calls \<and> list_all2 P parts bs"
  using assms(1)
proof (induction "length calls" arbitrary: calls bs s s' rule: less_induct)
  case less
  show ?case
  proof (cases "once calls s")
    case (Pair r s1)
    show ?thesis
    proof (cases r)
      case (Inr b)
      with Pair less.prems have "bs = [b]" by (simp add: adaptive.simps [of on_error once calls s])
      moreover have "P calls b" by (rule once) (use Pair Inr in simp)
      ultimately have "concat [calls] = calls" "list_all2 P [calls] bs" by auto
      then show ?thesis by blast
    next
      case (Inl e)
      let ?m = "length calls div 2"
      from adaptive_halves [OF less.prems Pair [unfolded Inl]] obtain left s2 right where
        len: "1 < length calls"
        and l: "adaptive on_error once (take ?m calls) s1 = (Inr left, s2)"
        and r: "adaptive on_error once (drop ?m calls) s2 = (Inr right, s')"
        and bs: "bs = left @ right" by blast
      have half: "0 < ?m" "?m < length calls" using len by linarith+
      from half have "length (take ?m calls) < length calls" "length (drop ?m calls) < length calls"
        by simp_all
      with less.hyps [OF _ l] less.hyps [OF _ r] obtain p q where
        p: "concat p = take ?m calls" "list_all2 P p left"
        and q: "concat q = drop ?m calls" "list_all2 P q right" by blast
      from p q bs have "concat (p @ q) = calls" "list_all2 P (p @ q) bs"
        by (auto simp: list_all2_appendI)
      then show ?thesis by blast
    qed
  qed
qed

text \<open>The contract of one batch, and how it gives the executor contract.\<close>

definition batch_ok :: "block_ref \<Rightarrow> contract_call list \<Rightarrow> verified_batch_result \<Rightarrow> bool" where
  "batch_ok anchor calls b \<longleftrightarrow> map rr_key (vb_results b) = map cc_key calls \<and> evidence_ok anchor b"

lemma batches_ok:
  assumes "list_all2 (batch_ok anchor) parts bs"
  shows "map rr_key (results_of bs) = map cc_key (concat parts) \<and> list_all (evidence_ok anchor) bs"
  using assms by (induction rule: list_all2_induct) (auto simp: batch_ok_def)

lemma adaptive_groups_parts:
  assumes "map_io (adaptive on_error once) groups s = (Inr outs, s')"
    and once: "\<And>calls s b s'. once calls s = (Inr b, s') \<Longrightarrow> P calls b"
  shows "\<exists>parts. concat parts = concat groups \<and> list_all2 P parts (concat outs)"
proof -
  have "list_all2 (\<lambda>g out. \<exists>parts. concat parts = g \<and> list_all2 P parts out) groups outs"
    by (rule map_io_all [OF assms(1)]) (rule adaptive_parts [OF _ once])
  then show ?thesis
  proof (induction rule: list_all2_induct)
    case (Cons g gs out outs)
    then obtain p q where "concat p = g" "list_all2 P p out" "concat q = concat gs"
      "list_all2 P q (concat outs)" by blast
    then have "concat (p @ q) = concat (g # gs)" "list_all2 P (p @ q) (concat (out # outs))"
      by (simp_all add: list_all2_appendI)
    then show ?case by blast
  qed simp
qed

text \<open>If single calls can be served and every other failure is a limit, splitting succeeds.\<close>

lemma adaptive_returns:
  assumes once: "\<And>calls s. calls \<noteq> [] \<Longrightarrow> (\<exists>b s'. once calls s = (Inr b, s'))
      \<or> (1 < length calls \<and> (\<exists>e s' x. once calls s = (Inl e, s') \<and> on_error e = Halve x))"
    and "calls \<noteq> []"
  shows "\<exists>bs s'. adaptive on_error once calls s = (Inr bs, s')"
  using assms(2)
proof (induction "length calls" arbitrary: calls s rule: less_induct)
  case less
  from once [OF less.prems, of s] show ?case
  proof
    assume "\<exists>b s'. once calls s = (Inr b, s')"
    then show ?thesis by (auto simp: adaptive.simps [of on_error once calls s])
  next
    assume "1 < length calls \<and> (\<exists>e s' x. once calls s = (Inl e, s') \<and> on_error e = Halve x)"
    then obtain e s1 x where len: "1 < length calls" and e: "once calls s = (Inl e, s1)" "on_error e = Halve x"
      by blast
    let ?m = "length calls div 2"
    have half: "0 < ?m" "?m < length calls" using len by linarith+
    then have "take ?m calls \<noteq> []" "drop ?m calls \<noteq> []" "length (take ?m calls) < length calls"
      "length (drop ?m calls) < length calls" by auto
    with less.hyps obtain l s2 where l: "adaptive on_error once (take ?m calls) s1 = (Inr l, s2)" by blast
    with less.hyps \<open>drop ?m calls \<noteq> []\<close> \<open>length (drop ?m calls) < length calls\<close>
    obtain r s3 where r: "adaptive on_error once (drop ?m calls) s2 = (Inr r, s3)" by blast
    from len have "length calls \<noteq> 1" "calls \<noteq> []" by auto
    with l r have "adaptive on_error once calls s = (Inr (l @ r), s3)"
      unfolding adaptive.simps [of on_error once calls s] e(1) Let_def
      by (simp only: prod.case sum.case e(2) adaptive_action.case if_False)
    then show ?thesis by blast
  qed
qed

subsection \<open>Lemmas: batch responses\<close>

definition response_id :: "(string \<times> json) list \<Rightarrow> int" where
  "response_id r = (case obj_get r ''id'' of JInt i \<Rightarrow> i | _ \<Rightarrow> 0)"

definition response_ok :: "int list \<Rightarrow> (string \<times> json) list \<Rightarrow> bool" where
  "response_ok ids r \<longleftrightarrow> (\<exists>i. obj_get r ''id'' = JInt i \<and> i \<in> set ids)
     \<and> version_check (obj_get r ''jsonrpc'') MalformedBatchResponse = Inr ()"

lemma collect_responses_Inr:
  "collect_responses ids by_id rs = Inr d \<longleftrightarrow>
     list_all (response_ok ids) rs \<and> distinct (map response_id rs)
     \<and> set (map response_id rs) \<inter> set (map fst by_id) = {}
     \<and> d = by_id @ map (\<lambda>r. (response_id r, r)) rs"
proof (induction ids by_id rs rule: collect_responses.induct)
  case (2 ids by_id r rs)
  show ?case
  proof (cases "response_ok ids r \<and> response_id r \<notin> set (map fst by_id)")
    case True
    then obtain i where i: "obj_get r ''id'' = JInt i" "i \<in> set ids" "response_id r = i"
      "i \<notin> set (map fst by_id)" "version_check (obj_get r ''jsonrpc'') MalformedBatchResponse = Inr ()"
      by (auto simp: response_ok_def response_id_def)
    from i have step: "collect_responses ids by_id (r # rs) = collect_responses ids (by_id @ [(i, r)]) rs"
      by simp
    show ?thesis unfolding step using 2 [OF i(1)] i True by auto
  next
    case False
    then show ?thesis
      by (auto simp: response_ok_def response_id_def bind_res_Inr split: json.splits)
  qed
qed auto

lemma decode_response_key: "decode_response i c r = Inr x \<Longrightarrow> rr_key x = cc_key c"
  by (auto simp: decode_response_def Let_def failed_result_def ok_result_def
      split: if_splits json.splits prod.splits sum.splits)

lemma decode_batch_keys:
  assumes "decode_batch_responses rs ids = Inr out"
  shows "map rr_key out = map (cc_key \<circ> snd) (sort_key fst ids)"
proof -
  from assms obtain by_id where
    "list_all2 (\<lambda>x y. (case x of (i, c) \<Rightarrow> decode_response i c (the (map_of by_id i))) = Inr y)
       (sort_key fst ids) out"
    by (auto simp: decode_batch_responses_def res_simps Let_def split: if_splits)
  then have "list_all2 (\<lambda>x y. rr_key y = (cc_key \<circ> snd) x) (sort_key fst ids) out"
    by (rule list_all2_mono) (auto dest: decode_response_key)
  then show ?thesis by (rule list_all2_map_eq)
qed

lemma request_ids_sorted: "sort_key fst (zip (map int [1..<n]) xs) = zip (map int [1..<n]) xs"
proof (rule sort_key_id_if_sorted)
  have "map fst (zip (map int [1..<n]) xs) = take (length xs) (map int [1..<n])"
    by (simp add: map_fst_zip_take min_def take_all)
  moreover have "sorted (map int [1..<n])" by (simp add: sorted_map)
  ultimately show "sorted (map fst (zip (map int [1..<n]) xs))" by (simp add: sorted_wrt_take)
qed

lemma run_on_endpoint_keys:
  assumes "run_on_endpoint env ep calls anchor e s = (Inr rs, s')"
  shows "map rr_key rs = map cc_key calls"
proof (cases "ep_supports_http_batch ep")
  case True
  with assms obtain resp where
    "decode_batch_responses resp (zip (map int [1..<length calls + 1]) calls) = Inr rs"
    by (auto simp: run_on_endpoint_def io_simps build_batch_requests_def res_simps Let_def)
  from decode_batch_keys [OF this]
  have "map rr_key rs = map cc_key (map snd (zip (map int [1..<length calls + 1]) calls))"
    unfolding request_ids_sorted by simp
  also have "map snd (zip (map int [1..<length calls + 1]) calls) = calls" by (rule map_snd_zip) (simp only: length_map length_upt diff_add_inverse2)
  finally show ?thesis .
next
  case False
  with assms obtain reference s1 s2 where
    "map_io (call_one env ep reference) calls s1 = (Inr rs, s2)"
    by (auto simp: run_on_endpoint_def io_simps)
  then have "list_all2 (\<lambda>c r. rr_key r = cc_key c) calls rs"
    by (rule map_io_all)
      (auto simp: call_one_def failed_result_def ok_result_def
        split: prod.splits sum.splits exn.splits json.splits)
  then show ?thesis by (rule list_all2_map_eq)
qed

text \<open>What a legacy batch adds: pinned by hash, or agreed by a quorum of distinct providers.\<close>

definition results_pinned ::
  "'w env \<Rightarrow> block_ref \<Rightarrow> contract_call list \<Rightarrow> verified_batch_result \<Rightarrow> bool" where
  "results_pinned env anchor calls b \<longleftrightarrow> ve_block_reference_kind (vb_evidence b) = ''eip1898''
     \<and> (\<exists>e s s'. ve_provider_groups (vb_evidence b) = [ep_provider_group e]
          \<and> run_on_endpoint env e calls anchor True s = (Inr (vb_results b), s'))"

definition results_agreed ::
  "'w env \<Rightarrow> int \<Rightarrow> block_ref \<Rightarrow> contract_call list \<Rightarrow> verified_batch_result \<Rightarrow> bool" where
  "results_agreed env quorum anchor calls b \<longleftrightarrow>
     ve_block_reference_kind (vb_evidence b) = ''number_quorum''
     \<and> distinct (ve_provider_groups (vb_evidence b))
     \<and> int (length (ve_provider_groups (vb_evidence b))) = quorum
     \<and> (\<exists>es. ve_provider_groups (vb_evidence b) = map ep_provider_group es
          \<and> (\<forall>e \<in> set es. \<exists>rs. sandwiched env anchor e (run_on_endpoint env e calls anchor False) rs
               \<and> digest_raw_results rs = Inr (ve_result_digest (vb_evidence b))))"

definition legacy_ok ::
  "'w env \<Rightarrow> int \<Rightarrow> block_ref \<Rightarrow> contract_call list \<Rightarrow> verified_batch_result \<Rightarrow> bool" where
  "legacy_ok env quorum anchor calls b \<longleftrightarrow> batch_ok anchor calls b
     \<and> (results_pinned env anchor calls b \<or> results_agreed env quorum anchor calls b)"

lemma execute_eip1898_ok:
  assumes "execute_eip1898 env ep calls anchor s = (Inr b, s')"
  shows "legacy_ok env q anchor calls b"
proof -
  from assms obtain rs s1 d h where run: "run_on_endpoint env ep calls anchor True s = (Inr rs, s1)"
    and d: "digest_raw_results rs = Inr d" and h: "normalize_hash (JStr (block_hash anchor)) = Inr h"
    and b: "b = \<lparr>vb_results = rs, vb_evidence = legacy_evidence ''eip1898'' h [ep_provider_group ep] d\<rparr>"
    by (auto simp: execute_eip1898_def io_simps)
  then have "results_pinned env anchor calls b"
    unfolding results_pinned_def by (auto simp: legacy_evidence_def)
  with d h b run_on_endpoint_keys [OF run] show ?thesis
    by (simp add: legacy_ok_def batch_ok_def evidence_ok_def legacy_evidence_def)
qed

lemma execute_number_quorum_ok:
  assumes "execute_number_quorum env q calls anchor s = (Inr b, s')"
  shows "legacy_ok env q anchor calls b"
proof -
  from assms obtain eps s1 exs s2 d h ds where
    sel: "select_distinct_groups env q (Some (number anchor)) s = (Inr eps, s1)"
    and run: "map_io (run_number_sandwich env calls anchor) eps s1 = (Inr exs, s2)"
    and ds: "list_all2 (\<lambda>rs d. digest_raw_results rs = Inr d) exs ds" "length (remdups ds) = 1"
    and d: "digest_raw_results (hd exs) = Inr d" and h: "normalize_hash (JStr (block_hash anchor)) = Inr h"
    and b: "b = \<lparr>vb_results = hd exs, vb_evidence = legacy_evidence ''number_quorum'' h
      (map ep_provider_group eps) d\<rparr>"
    by (auto simp: execute_number_quorum_def io_simps res_simps split: if_splits)
  from sel have n: "1 \<le> q" and dl: "distinct_loop env (nat q) (Some (number anchor)) (st_endpoints s) [] [] s
      = (Inr eps, s1)"
    by (auto simp: select_distinct_groups_def split: if_splits)
  have eps: "int (length eps) = q" "distinct (map ep_provider_group eps)"
    using distinct_loop_spec [OF dl] n by auto
  have all: "list_all2 (\<lambda>ep. sandwiched env anchor ep (run_on_endpoint env ep calls anchor False)) eps exs"
    by (rule map_io_all [OF run]) (auto simp: run_number_sandwich_def dest!: sandwichedI)
  then have "exs \<noteq> []" using eps n by (cases exs) auto
  with all have keys: "map rr_key (hd exs) = map cc_key calls"
    by (cases exs) (auto simp: list_all2_Cons2 sandwiched_def dest: run_on_endpoint_keys)
  have "\<forall>rs \<in> set exs. digest_raw_results rs = Inr d"
  proof
    fix rs assume rs: "rs \<in> set exs"
    with ds(1) obtain x where x: "x \<in> set ds" "digest_raw_results rs = Inr x"
      using list_all2_each [OF ds(1) rs] by blast
    from \<open>exs \<noteq> []\<close> ds(1) d have "d \<in> set ds" by (cases exs) (auto simp: list_all2_Cons1)
    with x ds(2) have "x = d" by (metis card_1_singletonE length_remdups_card_conv singletonD)
    with x show "digest_raw_results rs = Inr d" by simp
  qed
  with all have "\<forall>ep \<in> set eps. \<exists>rs. sandwiched env anchor ep (run_on_endpoint env ep calls anchor False) rs
      \<and> digest_raw_results rs = Inr d"
    by (blast dest: list_all2_each)
  with eps have "results_agreed env q anchor calls b"
    unfolding results_agreed_def b by (auto simp: legacy_evidence_def)
  with d h b keys show ?thesis
    by (simp add: legacy_ok_def batch_ok_def evidence_ok_def legacy_evidence_def)
qed

lemma legacy_once_loop_ok:
  "legacy_once_loop env cfg q calls anchor attempt fuel excluded l s = (Inr b, s')
     \<Longrightarrow> legacy_ok env q anchor calls b"
proof (induction fuel arbitrary: attempt excluded l s)
  case 0
  then show ?case by (auto simp: quorum_fallback_def io_simps split: if_splits dest: execute_number_quorum_ok)
next
  case (Suc fuel)
  obtain r s1 where sel: "select env (Some (number anchor)) True excluded s = (r, s1)" by fastforce
  show ?case
  proof (cases r)
    case (Inl e)
    with Suc.prems sel show ?thesis
      by (auto simp: quorum_fallback_def io_simps split: if_splits dest: execute_number_quorum_ok)
  next
    case (Inr ep)
    obtain x s2 where ex: "execute_eip1898 env ep calls anchor s1 = (x, s2)" by fastforce
    show ?thesis
    proof (cases x)
      case ok: (Inr b')
      with Suc.prems sel Inr ex have "b = b'" by (auto simp: bind_io_Inr)
      with ok ex execute_eip1898_ok show ?thesis by blast
    next
      case (Inl exc)
      with Suc.prems sel Inr ex show ?thesis
        by (auto simp: bind_io_Inr Let_def split: if_splits dest: Suc.IH)
    qed
  qed
qed

lemma legacy_once_ok: "legacy_once env cfg q anchor calls s = (Inr b, s') \<Longrightarrow> legacy_ok env q anchor calls b"
  unfolding legacy_once_def by (rule legacy_once_loop_ok)

lemma legacy_execute_parts:
  assumes "legacy_execute env cfg lc calls anchor s = (Inr bs, s')"
  shows "\<exists>parts. concat parts = calls
    \<and> list_all2 (legacy_ok env (lc_required_provider_quorum lc) anchor) parts bs"
proof -
  from assms obtain outs s2 where n: "1 \<le> lc_batch_size lc"
    and run: "map_io (adaptive legacy_on_error (legacy_once env cfg (lc_required_provider_quorum lc) anchor))
      (chunks (nat (lc_batch_size lc)) calls) s = (Inr outs, s2)" and bs: "bs = concat outs"
    by (auto simp: legacy_execute_def io_simps chunked_Inr)
  from adaptive_groups_parts [OF run legacy_once_ok] n bs show ?thesis by simp
qed

lemma legacy_execute_ok:
  assumes "legacy_execute env cfg lc calls anchor s = (Inr bs, s')"
  shows "map rr_key (results_of bs) = map cc_key calls \<and> list_all (evidence_ok anchor) bs"
proof -
  from legacy_execute_parts [OF assms] obtain parts where p: "concat parts = calls"
    "list_all2 (legacy_ok env (lc_required_provider_quorum lc) anchor) parts bs" by blast
  then have "list_all2 (batch_ok anchor) parts bs"
    by (auto simp: legacy_ok_def elim: list_all2_mono)
  with p batches_ok show ?thesis by blast
qed

interpretation leg: executor "legacy_execute env cfg lc" for env :: "'w env" and cfg lc
  by unfold_locales (auto dest: legacy_execute_ok)

subsection \<open>Properties\<close>

text \<open>
  C18: what the pre-Multicall executor returns is verified. The batches answer the calls
  one by one in order (each batch the calls of one contiguous part), each batch's evidence is
  marked verified, names this anchor's hash and digests exactly the batch's own results, and
  its results are what one endpoint answered to calls pinned to the anchor's hash, or what each of
  exactly the required number of endpoints of pairwise distinct provider groups answered, up to
  the digest, between two checks that the endpoint has the anchor's hash at its number.
\<close>

theorem legacy_execute_verified:
  assumes "legacy_execute env cfg lc calls anchor s = (Inr bs, s')"
  shows "map rr_key (results_of bs) = map cc_key calls
    \<and> (\<exists>parts. concat parts = calls
        \<and> list_all2 (legacy_ok env (lc_required_provider_quorum lc) anchor) parts bs)"
  using legacy_execute_parts [OF assms] legacy_execute_ok [OF assms] by blast

definition hex_env :: "nat env" where
  "hex_env = \<lparr>monotonic = (\<lambda>w. (of_nat w, w + 1)), sleep = (\<lambda>d w. w),
     http_post = (\<lambda>url payload w. (Response 200 ''OK'' None
       (Some (JObj [(''id'', obj_get (obj_fields payload) ''id''), (''result'', JStr ''0x01'')])), w))\<rparr>"

definition single_state :: "nat rpc_state" where
  "single_state = \<lparr>st_endpoints = [(sample_endpoint ''a'')\<lparr>ep_supports_http_batch := False,
     ep_archive_from_block := None\<rparr>], st_cursor = 0, st_request_id = 0, st_world = 0\<rparr>"

definition sample_call_of :: "string \<Rightarrow> contract_call" where
  "sample_call_of key = \<lparr>cc_key = key, cc_target = ''0x'', cc_calldata = [], cc_allow_failure = True\<rparr>"

lemma hex_one: "hex_data_to_bytes ''0x01'' = Inr [1]"
  by code_simp

lemma sample_block_hash: "normalize_hash (JStr (block_hash (sample_block n))) = Inr (sample_hash n)"
  using sample_hash_ok [of n] by (simp add: normalize_hash_def sample_block_def)

lemma sample_run_on_endpoint:
  "\<exists>s'. run_on_endpoint hex_env (hd (st_endpoints single_state)) [sample_call_of ''k''] (sample_block 1) True
     single_state = (Inr [ok_result ''k'' [1]], s')"
  by (simp add: run_on_endpoint_def single_state_def sample_endpoint_def block_reference_def
      eip1898_reference_def sample_block_hash call_one_def call_on_endpoint_def next_id_def post_def
      throttle_def now_def hex_env_def bind_io_def update_endpoint_def endpoint_named_def Let_def
      request_payload_def obj_get_def obj_has_def obj_fields_def read_response_def read_body_def
      json_eq_int_def hex_one ok_result_def sample_call_of_def)

lemma sample_legacy_once:
  "\<exists>b s'. legacy_once hex_env \<lparr>cc_max_retries = 1, cc_retry_base_seconds = 1\<rparr> 2 (sample_block 1)
     [sample_call_of ''k''] single_state = (Inr b, s')"
proof -
  let ?ep = "hd (st_endpoints single_state)"
  have sel: "select hex_env (Some (number (sample_block 1))) True [] single_state = (Inr ?ep, single_state)"
    by (simp add: select_def single_state_def sample_endpoint_def can_serve_def can_serve_block_def
        sample_block_def Let_def)
  obtain s1 where run: "run_on_endpoint hex_env ?ep [sample_call_of ''k''] (sample_block 1) True
      single_state = (Inr [ok_result ''k'' [1]], s1)" using sample_run_on_endpoint by blast
  have "\<exists>d. digest_raw_results [ok_result ''k'' [1]] = Inr d"
    by (simp add: digest_raw_results_Inr fields_ok_def digest_fields_def ok_result_def result_code_def
        result_message_def)
  with run have "\<exists>b. execute_eip1898 hex_env ?ep [sample_call_of ''k''] (sample_block 1) single_state
      = (Inr b, s1)"
    by (auto simp: execute_eip1898_def bind_io_def sample_block_hash)
  with sel show ?thesis
    by (auto simp: legacy_once_def bind_io_def record_success_def update_endpoint_def)
qed

lemma sample_legacy_execute:
  "\<exists>bs s'. legacy_execute hex_env \<lparr>cc_max_retries = 1, cc_retry_base_seconds = 1\<rparr>
     \<lparr>lc_batch_size = 5, lc_required_provider_quorum = 2\<rparr> [sample_call_of ''k''] (sample_block 1)
     single_state = (Inr bs, s')"
proof -
  let ?once = "legacy_once hex_env \<lparr>cc_max_retries = 1, cc_retry_base_seconds = 1\<rparr> 2 (sample_block 1)"
  obtain b s1 where "?once [sample_call_of ''k''] single_state = (Inr b, s1)"
    using sample_legacy_once by blast
  then have "adaptive legacy_on_error ?once [sample_call_of ''k''] single_state = (Inr [b], s1)"
    by (simp add: adaptive.simps)
  then show ?thesis by (simp add: legacy_execute_def chunked_def chunks.simps bind_io_def)
qed

theorem legacy_execute_verified_witness:
  "\<exists>bs :: verified_batch_result list. map rr_key (results_of bs) = [''k'']"
proof -
  obtain bs s' where "legacy_execute hex_env \<lparr>cc_max_retries = 1, cc_retry_base_seconds = 1\<rparr>
     \<lparr>lc_batch_size = 5, lc_required_provider_quorum = 2\<rparr> [sample_call_of ''k''] (sample_block 1)
     single_state = (Inr bs, s')" using sample_legacy_execute by blast
  from legacy_execute_verified [OF this] have "map rr_key (results_of bs) = [''k'']"
    by (simp add: sample_call_of_def)
  then show ?thesis by (rule exI)
qed

text \<open>
  Batch decoding does not depend on the order of the responses. If a batch decodes,
  then any permutation of its responses decodes to the same results, and these are in the
  order of the request identifiers, one per call.
\<close>

theorem decode_batch_order_independent:
  assumes "decode_batch_responses rs ids = Inr out" and "mset qs = mset rs"
  shows "decode_batch_responses qs ids = Inr out
    \<and> map rr_key out = map (cc_key \<circ> snd) (sort_key fst ids)"
proof -
  let ?d = "\<lambda>rs. map (\<lambda>r. (response_id r, r)) rs"
  from assms(1) have c: "collect_responses (map fst ids) [] rs = Inr (?d rs)"
    by (auto simp: decode_batch_responses_def bind_res_Inr collect_responses_Inr)
  have set: "set qs = set rs" using assms(2) by (metis set_mset_mset)
  have "distinct (map response_id rs)" using c by (simp add: collect_responses_Inr)
  moreover have "mset (map response_id qs) = mset (map response_id rs)" using assms(2) by simp
  ultimately have dq: "distinct (map response_id qs)" by (metis mset_eq_imp_distinct_iff)
  with c set have cq: "collect_responses (map fst ids) [] qs = Inr (?d qs)"
    by (simp add: collect_responses_Inr list_all_iff)
  have "map_of (?d qs) = map_of (?d rs)"
    using set dq c by (subst map_of_inject_set) (auto simp: comp_def collect_responses_Inr)
  moreover have "set (map fst (?d qs)) = set (map fst (?d rs))" using set by auto
  ultimately have "decode_batch_responses qs ids = decode_batch_responses rs ids"
    unfolding decode_batch_responses_def c cq by (simp only: bind_res_simps)
  with assms(1) decode_batch_keys show ?thesis by simp
qed

theorem decode_batch_order_independent_witness:
  "decode_batch_responses
     [[(''id'', JInt 2), (''result'', JStr ''0x01'')], [(''id'', JInt 1), (''result'', JStr ''0x01'')]]
     [(1, sample_call_of ''a''), (2, sample_call_of ''b'')]
   = Inr [ok_result ''a'' [1], ok_result ''b'' [1]]"
proof -
  let ?r1 = "[(''id'', JInt 1), (''result'', JStr ''0x01'')]"
  let ?r2 = "[(''id'', JInt 2), (''result'', JStr ''0x01'')]"
  have d: "decode_response 1 (sample_call_of ''a'') ?r1 = Inr (ok_result ''a'' [1])"
    "decode_response 2 (sample_call_of ''b'') ?r2 = Inr (ok_result ''b'' [1])"
    by (simp_all add: decode_response_def Let_def obj_has_def obj_get_def hex_one sample_call_of_def)
  have "decode_batch_responses [?r1, ?r2] [(1, sample_call_of ''a''), (2, sample_call_of ''b'')]
      = Inr [ok_result ''a'' [1], ok_result ''b'' [1]]"
    using d by (simp add: decode_batch_responses_def obj_get_def version_check_def)
  from decode_batch_order_independent [OF this, of "[?r2, ?r1]"] show ?thesis by simp
qed

text \<open>
  C29: splitting terminates with a result. If the provider can serve any single call and
  refuses larger batches only with limits, \<open>_execute_adaptive\<close> returns on every non-empty batch,
  and the batches it returns cover the calls in order, each as \<open>_execute_once\<close> verified it.
\<close>

theorem adaptive_splitting_total:
  assumes once: "\<And>calls s. calls \<noteq> [] \<Longrightarrow> (\<exists>b s'. once calls s = (Inr b, s') \<and> P calls b)
      \<or> (1 < length calls \<and> (\<exists>e s' x. once calls s = (Inl e, s') \<and> on_error e = Halve x))"
    and empty: "\<And>s b s'. once [] s = (Inr b, s') \<Longrightarrow> P [] b"
    and "calls \<noteq> []"
  shows "\<exists>bs s' parts. adaptive on_error once calls s = (Inr bs, s')
    \<and> concat parts = calls \<and> list_all2 P parts bs"
proof -
  have "\<exists>bs s'. adaptive on_error once calls s = (Inr bs, s')"
    by (rule adaptive_returns [OF _ assms(3)]) (use once in blast)
  moreover have "P calls b" if "once calls s = (Inr b, s')" for calls s b s'
    using once [of calls s] empty that by (cases "calls = []") auto
  ultimately show ?thesis using adaptive_parts [of on_error once calls s] by blast
qed

definition one_at_a_time :: "contract_call list \<Rightarrow> (unit, verified_batch_result) io" where
  "one_at_a_time calls s =
     (if length calls = 1
      then (Inr \<lparr>vb_results = map (\<lambda>c. ok_result (cc_key c) []) calls,
                 vb_evidence = legacy_evidence ''eip1898'' [] [] []\<rparr>, s)
      else (Inl (Exn RpcProviderLimit ''too many results''), s))"

theorem adaptive_splitting_total_witness:
  "\<exists>bs s' parts. adaptive legacy_on_error one_at_a_time [sample_call_of ''a'', sample_call_of ''b''] ()
     = (Inr bs, s') \<and> concat parts = [sample_call_of ''a'', sample_call_of ''b'']
     \<and> list_all2 (\<lambda>calls b. length calls = 1) parts bs"
proof (rule adaptive_splitting_total)
  fix calls :: "contract_call list" and s :: unit
  assume ne: "calls \<noteq> []"
  have "legacy_on_error (Exn RpcProviderLimit ''too many results'')
      = Halve (Exn RpcProviderLimit ''too many results'')"
    by (simp add: legacy_on_error_def Let_def normalize_rpc_error_def)
  with ne show "(\<exists>b s'. one_at_a_time calls s = (Inr b, s') \<and> length calls = 1)
      \<or> (1 < length calls \<and> (\<exists>e s' x. one_at_a_time calls s = (Inl e, s') \<and> legacy_on_error e = Halve x))"
    by (cases "length calls = 1") (auto simp: one_at_a_time_def Suc_lessI)
qed (auto simp: one_at_a_time_def split: if_splits)

end
