(* ===== verification/Config.thy ===== *)
theory Config
  imports Anchors
begin

text \<open>
  The configuration catalog (\<open>config/models.py\<close>, \<open>config/loader.py\<close>). A Pydantic model is a
  record, a \<open>Literal\<close> an enumeration; what a model's field constraints and \<open>model_validator\<close>
  accept is a function \<open>valid_...\<close> into \<open>unit res\<close> with the validator's error messages. The
  dictionaries of a catalog are association lists in file order. Reading YAML and CSV files is
  a parameter: the catalog starts from parsed values, and \<open>csv_addresses\<close> stands for the address
  column of a vendored file.
\<close>

subsection \<open>Chain\<close>

record multicall_settings =
  ms_address :: string
  ms_deployment_block :: int
  ms_runtime_code_hash :: "string option"
  ms_default_batch_size :: int

record number_fallback_config =
  nf_enabled :: bool
  nf_required_provider_quorum :: int
  nf_require_distinct_provider_groups :: bool
  nf_hash_sandwich :: bool

record legacy_execution_config =
  le_enabled :: bool
  le_default_batch_size :: int
  le_number_fallback :: number_fallback_config

record discovery_config =
  dc_initial_chunk_size :: int
  dc_provider_result_cap :: int

record balancer_config =
  bc_v2_vault :: "string option"
  bc_v3_vault :: "string option"

record chain_config =
  ch_name :: string
  ch_chain_id :: int
  ch_finality_tag :: string
  ch_fallback_confirmation_depth :: int
  ch_expected_block_time_seconds :: rat
  ch_multicall3 :: multicall_settings
  ch_legacy_execution :: legacy_execution_config
  ch_discovery :: discovery_config
  ch_balancer :: balancer_config

subsection \<open>Tokens and pools\<close>

record event_config =
  ev_abi :: string
  ev_event :: string
  ev_holder_topics :: "int list"

definition valid_topics :: "event_config \<Rightarrow> unit res" where
  "valid_topics e =
     (if ev_holder_topics e = [] then raise_res ValueError ''holder_topics cannot be empty''
      else if \<exists>t \<in> set (ev_holder_topics e). t \<notin> {1, 2, 3}
      then raise_res ValueError ''holder topic positions must be in 1..3''
      else if \<not> distinct (ev_holder_topics e)
      then raise_res ValueError ''holder topic positions must be unique''
      else Inr ())"

record index_source_config =
  is_contract :: string
  is_function :: string
  is_argument :: string
  is_output_name :: string

datatype token_class = STANDARD_ERC20 | WETH9_FORK | AAVE_V3_ATOKEN | SPARK_ATOKEN

fun token_class_value :: "token_class \<Rightarrow> string" where
  "token_class_value STANDARD_ERC20 = ''standard_erc20''"
| "token_class_value WETH9_FORK = ''weth9_fork''"
| "token_class_value AAVE_V3_ATOKEN = ''aave_v3_atoken''"
| "token_class_value SPARK_ATOKEN = ''spark_atoken''"

datatype zero_address_role = EVENT_SENTINEL | HOLDER

record token_config =
  tc_address :: string
  tc_symbol :: string
  tc_decimals :: int
  tc_token_class :: token_class
  tc_deployment_block :: int
  tc_date_start :: "date option"
  tc_date_end :: "date option"
  tc_enabled :: bool
  tc_zero_address_role :: zero_address_role
  tc_balance_function :: string
  tc_supply_functions :: "string list"
  tc_discovery_events :: "event_config list"
  tc_seed_holders :: "string list"
  tc_universe_aliases :: "string list"
  tc_index_source :: "index_source_config option"

definition is_atoken :: "token_config \<Rightarrow> bool" where
  "is_atoken t \<longleftrightarrow> tc_token_class t \<in> {AAVE_V3_ATOKEN, SPARK_ATOKEN}"

definition dates_ordered :: "date option \<Rightarrow> date option \<Rightarrow> bool" where
  "dates_ordered start stop =
     (case (start, stop) of (Some a, Some b) \<Rightarrow> a < b | _ \<Rightarrow> True)"

definition valid_token_semantics :: "token_config \<Rightarrow> unit res" where
  "valid_token_semantics t =
     (if tc_address t \<in> set (tc_universe_aliases t)
      then raise_res ValueError ''a token cannot alias its own address''
      else if \<not> distinct (tc_universe_aliases t)
      then raise_res ValueError ''universe_aliases must be unique''
      else if \<not> dates_ordered (tc_date_start t) (tc_date_end t)
      then raise_res ValueError ''date_end must be after date_start''
      else if is_atoken t \<and> tc_balance_function t \<noteq> ''scaledBalanceOf''
      then raise_res ValueError ''aToken balance_function must be scaledBalanceOf''
      else if is_atoken t \<and> ''scaledTotalSupply'' \<notin> set (tc_supply_functions t)
      then raise_res ValueError ''aToken must read scaledTotalSupply''
      else if is_atoken t \<and> tc_index_source t = None
      then raise_res ValueError ''aToken requires index_source''
      else if \<not> is_atoken t \<and> tc_index_source t \<noteq> None
      then raise_res ValueError ''only aTokens may declare index_source''
      else if tc_zero_address_role t = EVENT_SENTINEL \<and> ZERO_ADDRESS \<in> set (tc_seed_holders t)
      then raise_res ValueError ''zero address cannot be seeded when it is an event sentinel''
      else Inr ())"

text \<open>The target of a token that a wallet sweep discovered.\<close>

definition discovered_token_config :: "string \<Rightarrow> int \<Rightarrow> token_config" where
  "discovered_token_config address first_seen_block =
     \<lparr>tc_address = address, tc_symbol = address, tc_decimals = 0, tc_token_class = STANDARD_ERC20,
      tc_deployment_block = first_seen_block, tc_date_start = None, tc_date_end = None,
      tc_enabled = True, tc_zero_address_role = EVENT_SENTINEL, tc_balance_function = ''balanceOf'',
      tc_supply_functions = [''totalSupply''],
      tc_discovery_events = [\<lparr>ev_abi = ''erc20'', ev_event = ''Transfer'', ev_holder_topics = [1, 2]\<rparr>],
      tc_seed_holders = [], tc_universe_aliases = [], tc_index_source = None\<rparr>"

definition BALANCER_V2_CLASS :: string where
  "BALANCER_V2_CLASS = ''balancer_v2''"

definition BALANCER_V3_CLASS :: string where
  "BALANCER_V3_CLASS = ''balancer_v3''"

definition UNISWAP_V3_CLASS :: string where
  "UNISWAP_V3_CLASS = ''uniswap_v3''"

definition SWAPR_V3_ALGEBRA_CLASS :: string where
  "SWAPR_V3_ALGEBRA_CLASS = ''swapr_v3_algebra''"

record pool_config =
  pc_address :: string
  pc_name :: string
  pc_pool_class :: string
  pc_deployment_block :: int
  pc_date_start :: "date option"
  pc_date_end :: "date option"
  pc_enabled :: bool
  pc_assets :: "string list"
  pc_pool_id :: "string option"
  pc_tick_spacing :: "int option"
  pc_fee :: "int option"

definition is_balancer :: "pool_config \<Rightarrow> bool" where
  "is_balancer p \<longleftrightarrow> pc_pool_class p \<in> {BALANCER_V2_CLASS, BALANCER_V3_CLASS}"

definition is_cl :: "pool_config \<Rightarrow> bool" where
  "is_cl p \<longleftrightarrow> pc_pool_class p \<in> {UNISWAP_V3_CLASS, SWAPR_V3_ALGEBRA_CLASS}"

definition valid_pool_semantics :: "pool_config \<Rightarrow> unit res" where
  "valid_pool_semantics p =
     (if \<not> dates_ordered (pc_date_start p) (pc_date_end p)
      then raise_res ValueError ''date_end must be after date_start''
      else if pc_pool_class p = BALANCER_V2_CLASS \<and> pc_pool_id p = None
      then raise_res ValueError ''balancer_v2 pool requires pool_id''
      else if pc_pool_class p \<noteq> BALANCER_V2_CLASS \<and> pc_pool_id p \<noteq> None
      then raise_res ValueError ''pool_id is only valid for balancer_v2 pools''
      else if \<not> is_cl p \<and> (pc_tick_spacing p \<noteq> None \<or> pc_fee p \<noteq> None)
      then raise_res ValueError ''tick_spacing/fee are only valid for concentrated-liquidity pools''
      else Inr ())"

subsection \<open>Universes, sweeps and jobs\<close>

text \<open>
  \<open>PurePosixPath\<close>: the parts of a path are its non-empty components other than \<open>.\<close>, preceded by
  the root for an absolute path; the suffix is the last part from its last dot, unless that dot
  is its first or last character.
\<close>

fun split_on :: "char \<Rightarrow> string \<Rightarrow> string list" where
  "split_on c [] = [[]]"
| "split_on c (x # xs) =
     (if x = c then [] # split_on c xs
      else case split_on c xs of [] \<Rightarrow> [[x]] | w # ws \<Rightarrow> (x # w) # ws)"

definition is_absolute :: "string \<Rightarrow> bool" where
  "is_absolute path \<longleftrightarrow> path \<noteq> [] \<and> hd path = CHR ''/''"

definition path_parts :: "string \<Rightarrow> string list" where
  "path_parts path =
     (if is_absolute path then [''/''] else [])
     @ filter (\<lambda>p. p \<noteq> [] \<and> p \<noteq> ''.'') (split_on (CHR ''/'') path)"

definition path_suffix :: "string \<Rightarrow> string" where
  "path_suffix path =
     (let name = (case path_parts path of [] \<Rightarrow> [] | ps \<Rightarrow> last ps);
          ext = after_last (CHR ''.'') name in
      if CHR ''.'' \<notin> set name \<or> ext = [] \<or> length ext + 1 = length name then []
      else CHR ''.'' # ext)"

datatype universe_kind = FULL_HOLDERS | EXPLICIT_LIST | UNION | INTERSECT

fun universe_kind_value :: "universe_kind \<Rightarrow> string" where
  "universe_kind_value FULL_HOLDERS = ''full_holders''"
| "universe_kind_value EXPLICIT_LIST = ''explicit_list''"
| "universe_kind_value UNION = ''union''"
| "universe_kind_value INTERSECT = ''intersect''"

record universe_config =
  un_kind :: universe_kind
  un_source :: "string option"
  un_address_column :: string
  un_of :: "string list"

definition vendored_csv :: "string \<Rightarrow> bool" where
  "vendored_csv source \<longleftrightarrow>
     \<not> is_absolute source \<and> ''..'' \<notin> set (path_parts source) \<and> path_parts source \<noteq> []
     \<and> hd (path_parts source) = ''vendored'' \<and> str_lower (path_suffix source) = ''.csv''"

definition valid_shape :: "universe_config \<Rightarrow> unit res" where
  "valid_shape u =
     (if un_kind u = EXPLICIT_LIST \<and> (un_source u = None \<or> un_source u = Some [])
      then raise_res ValueError ''explicit_list requires source''
      else if un_kind u = EXPLICIT_LIST \<and> \<not> vendored_csv (the (un_source u))
      then raise_res ValueError ''explicit_list source must be a vendored/*.csv relative path''
      else if un_kind u \<in> {UNION, INTERSECT} \<and> length (un_of u) < 2
      then raise_res ValueError (universe_kind_value (un_kind u) @ '' requires at least two members'')
      else Inr ())"

record sweep_config =
  sw_name :: string
  sw_universe :: string
  sw_topic_positions :: "int list"
  sw_start_block :: int
  sw_enabled :: bool
  sw_checkpoint_blocks :: int

definition valid_sweep :: "sweep_config \<Rightarrow> unit res" where
  "valid_sweep s =
     (if sw_topic_positions s = [] then raise_res ValueError ''sweep requires at least one topic position''
      else if \<exists>t \<in> set (sw_topic_positions s). t \<notin> {1, 2, 3}
      then raise_res ValueError ''sweep topic positions must be in 1..3''
      else if \<not> distinct (sw_topic_positions s)
      then raise_res ValueError ''sweep topic positions must be unique''
      else Inr ())"

record token_selector =
  ts_addresses :: "string list"
  ts_class_in :: "string list"
  ts_all_enabled :: bool
  ts_discovered :: bool

definition valid_token_selector :: "token_selector \<Rightarrow> unit res" where
  "valid_token_selector s =
     (if length (filter id [ts_addresses s \<noteq> [], ts_class_in s \<noteq> [], ts_all_enabled s, ts_discovered s]) \<noteq> 1
      then raise_res ValueError ''choose exactly one token selector'' else Inr ())"

record pool_selector =
  ps_addresses :: "string list"
  ps_class_in :: "string list"
  ps_all_enabled :: bool

definition valid_pool_selector :: "pool_selector \<Rightarrow> unit res" where
  "valid_pool_selector s =
     (if length (filter id [ps_addresses s \<noteq> [], ps_class_in s \<noteq> [], ps_all_enabled s]) \<noteq> 1
      then raise_res ValueError ''choose exactly one pool selector'' else Inr ())"

datatype target_kind = TOKENS | POOLS

datatype cadence = DAILY | MANUAL

record job_config =
  jb_name :: string
  jb_target_kind :: target_kind
  jb_token_selector :: "token_selector option"
  jb_pool_selector :: "pool_selector option"
  jb_universe :: "string option"
  jb_cadence :: cadence
  jb_integrity_mode :: integrity_mode
  jb_coverage_start :: "date option"

definition valid_job_shape :: "job_config \<Rightarrow> unit res" where
  "valid_job_shape j =
     (case jb_target_kind j of
        TOKENS \<Rightarrow>
          (case jb_token_selector j of
             None \<Rightarrow> raise_res ValueError ''token job requires token_selector only''
           | Some selector \<Rightarrow>
               if jb_pool_selector j \<noteq> None
               then raise_res ValueError ''token job requires token_selector only''
               else if jb_universe j = None then raise_res ValueError ''token job requires universe''
               else if jb_integrity_mode j = POOL_ASSETS
               then raise_res ValueError ''token job cannot use pool_assets integrity''
               else if ts_discovered selector \<and> jb_integrity_mode j \<noteq> SCOPED
               then raise_res ValueError ''discovered targets require scoped integrity''
               else Inr ())
      | POOLS \<Rightarrow>
          if jb_pool_selector j = None \<or> jb_token_selector j \<noteq> None
          then raise_res ValueError ''pool job requires pool_selector only''
          else if jb_universe j \<noteq> None
          then raise_res ValueError ''pool job does not use an address universe''
          else if jb_integrity_mode j \<notin> {POOL_ASSETS, CL_LIQUIDITY}
          then raise_res ValueError ''pool job requires pool_assets or cl_liquidity integrity''
          else Inr ())"

subsection \<open>The catalog\<close>

record catalog =
  ct_root :: string
  ct_chain :: chain_config
  ct_tokens :: "(string \<times> token_config) list"
  ct_pools :: "(string \<times> pool_config) list"
  ct_universes :: "(string \<times> universe_config) list"
  ct_jobs :: "(string \<times> job_config) list"
  ct_sweeps :: "(string \<times> sweep_config) list"

definition lookup_key :: "(string \<times> 'a) list \<Rightarrow> string \<Rightarrow> 'a res" where
  "lookup_key d k = (case map_of d k of None \<Rightarrow> raise_res KeyError (repr_str k) | Some v \<Rightarrow> Inr v)"

definition token_targets :: "catalog \<Rightarrow> job_config \<Rightarrow> token_config list res" where
  "token_targets cat job =
     (case jb_token_selector job of
        None \<Rightarrow> Inr []
      | Some selector \<Rightarrow>
          if ts_discovered selector then Inr []
          else bind_res
            (if ts_all_enabled selector then Inr (filter tc_enabled (map snd (ct_tokens cat)))
             else if ts_addresses selector \<noteq> []
             then bind_res (map_res (lookup_key (ct_tokens cat)) (ts_addresses selector))
                    (\<lambda>ts. Inr (filter tc_enabled ts))
             else Inr (filter (\<lambda>t. tc_enabled t \<and> token_class_value (tc_token_class t) \<in> set (ts_class_in selector))
                         (map snd (ct_tokens cat))))
            (\<lambda>values. Inr (sort_key tc_address values)))"

definition pool_targets :: "catalog \<Rightarrow> job_config \<Rightarrow> pool_config list res" where
  "pool_targets cat job =
     (case jb_pool_selector job of
        None \<Rightarrow> Inr []
      | Some selector \<Rightarrow>
          bind_res
            (if ps_all_enabled selector then Inr (filter pc_enabled (map snd (ct_pools cat)))
             else if ps_addresses selector \<noteq> []
             then bind_res (map_res (lookup_key (ct_pools cat)) (ps_addresses selector))
                    (\<lambda>ps. Inr (filter pc_enabled ps))
             else Inr (filter (\<lambda>p. pc_enabled p \<and> pc_pool_class p \<in> set (ps_class_in selector))
                         (map snd (ct_pools cat))))
            (\<lambda>values. Inr (sort_key pc_address values)))"

text \<open>
  \<open>csv path column\<close> is the column of a vendored file: an I/O error, \<open>None\<close> when the file has no
  such column, or its cells.
\<close>

type_synonym csv_reader = "string \<Rightarrow> string \<Rightarrow> string list option res"

definition vendored_path :: "catalog \<Rightarrow> string \<Rightarrow> string" where
  "vendored_path cat source = ct_root cat @ ''/'' @ ch_name (ct_chain cat) @ ''/'' @ source"

definition explicit_addresses :: "csv_reader \<Rightarrow> catalog \<Rightarrow> string \<Rightarrow> string list res" where
  "explicit_addresses csv cat universe_name =
     bind_res (lookup_key (ct_universes cat) universe_name) (\<lambda>u.
     case (un_kind u, un_source u) of
       (EXPLICIT_LIST, Some source) \<Rightarrow>
         let path = vendored_path cat source in
         bind_res (csv path (un_address_column u)) (\<lambda>column.
         case column of
           None \<Rightarrow> raise_res ConfigError (''missing '' @ repr_str (un_address_column u) @ '' in '' @ path)
         | Some cells \<Rightarrow> bind_res (map_res normalize_address cells) (\<lambda>as. Inr (sort (remdups as))))
     | _ \<Rightarrow> raise_res ConfigError (universe_name @ '' is not an explicit_list''))"

text \<open>
  Expansion of composed universes. The stack of names on the path is what bounds the recursion:
  a name is expanded only when it is defined and not yet on the path.
\<close>

lemma map_res_cong [fundef_cong]:
  "xs = ys \<Longrightarrow> (\<And>x. x \<in> set ys \<Longrightarrow> f x = g x) \<Longrightarrow> map_res f xs = map_res g ys"
proof (induction xs arbitrary: ys)
  case (Cons x xs)
  then show ?case by (cases ys) auto
qed auto

lemma bind_res_cong [fundef_cong]:
  "r = q \<Longrightarrow> (\<And>x. q = Inr x \<Longrightarrow> f x = g x) \<Longrightarrow> bind_res r f = bind_res q g"
  by (cases q) auto

definition universe_json :: "universe_config \<Rightarrow> json" where
  "universe_json u = JObj [(''kind'', JStr (universe_kind_value (un_kind u))),
     (''source'', case un_source u of None \<Rightarrow> JNull | Some s \<Rightarrow> JStr s),
     (''address_column'', JStr (un_address_column u)), (''of'', JArr (map JStr (un_of u)))]"

function expanded_universe ::
  "(string \<times> universe_config) list \<Rightarrow> string \<Rightarrow> string list \<Rightarrow> json res" where
  "expanded_universe universes name stack =
     (if name \<in> set stack then raise_res ConfigError (''universe reference cycle at '' @ name)
      else case map_of universes name of
        None \<Rightarrow> raise_res ConfigError (''unknown universe selector: '' @ name)
      | Some u \<Rightarrow>
          if un_kind u \<notin> {UNION, INTERSECT} then Inr (universe_json u)
          else bind_res (map_res (\<lambda>child. expanded_universe universes child (name # stack)) (un_of u)) (\<lambda>children.
            Inr (JObj [(''kind'', JStr (universe_kind_value (un_kind u))), (''of'', JArr children)])))"
  by pat_completeness auto

lemma stack_decreases:
  "map_of d n = Some u \<Longrightarrow> n \<notin> set stack \<Longrightarrow> card (fst ` set d - set (n # stack)) < card (fst ` set d - set stack)"
proof -
  assume a: "map_of d n = Some u" "n \<notin> set stack"
  then have "n \<in> fst ` set d" by (force dest: map_of_SomeD)
  with a(2) have "fst ` set d - set (n # stack) \<subset> fst ` set d - set stack" by auto
  then show ?thesis by (rule psubset_card_mono [rotated]) simp
qed

termination expanded_universe
  by (relation "measure (\<lambda>(universes, name, stack). card (fst ` set universes - set stack))")
     (auto simp del: set_simps(2) intro: stack_decreases)

declare expanded_universe.simps [simp del]

text \<open>
  \<open>_collect_vendor_hashes\<close> adds to a dictionary the hash of every vendored file a universe
  reaches; \<open>file_hash\<close> reads and hashes the file at a path.
\<close>

function collect_vendor_hashes ::
  "(string \<Rightarrow> string res) \<Rightarrow> catalog \<Rightarrow> string \<Rightarrow> string list \<Rightarrow> (string \<times> string) list res" where
  "collect_vendor_hashes file_hash cat name stack =
     (if name \<in> set stack then raise_res ConfigError (''universe reference cycle at '' @ name)
      else case map_of (ct_universes cat) name of
        None \<Rightarrow> raise_res ConfigError (''unknown universe selector: '' @ name)
      | Some u \<Rightarrow>
          bind_res (case (un_kind u, un_source u) of
                      (EXPLICIT_LIST, Some source) \<Rightarrow>
                        bind_res (file_hash (vendored_path cat source)) (\<lambda>h. Inr [(source, h)])
                    | _ \<Rightarrow> Inr []) (\<lambda>own.
          bind_res (map_res (\<lambda>child. collect_vendor_hashes file_hash cat child (name # stack)) (un_of u)) (\<lambda>parts.
            Inr (own @ concat parts))))"
  by pat_completeness auto

termination collect_vendor_hashes
  by (relation "measure (\<lambda>(file_hash, cat, name, stack). card (fst ` set (ct_universes cat) - set stack))")
     (auto simp del: set_simps(2) intro: stack_decreases)

declare collect_vendor_hashes.simps [simp del]

subsection \<open>Validation of the whole catalog\<close>

definition each :: "('a \<Rightarrow> unit res) \<Rightarrow> 'a list \<Rightarrow> unit res" where
  "each check xs = bind_res (map_res check xs) (\<lambda>_. Inr ())"

definition validate_token :: "catalog \<Rightarrow> token_config \<Rightarrow> unit res" where
  "validate_token cat t =
     (let unknown = filter (\<lambda>a. map_of (ct_tokens cat) a = None) (tc_universe_aliases t) in
      if unknown \<noteq> []
      then raise_res ConfigError (''token '' @ tc_address t @ '' universe_aliases reference unknown tokens: ''
             @ py_repr (JArr (map JStr unknown)))
      else Inr ())"

definition validate_pool :: "catalog \<Rightarrow> pool_config \<Rightarrow> unit res" where
  "validate_pool cat p =
     (let missing = filter (\<lambda>a. map_of (ct_tokens cat) a = None) (pc_assets p) in
      if missing \<noteq> []
      then raise_res ConfigError (''pool '' @ pc_address p @ '' references unknown tokens: ''
             @ py_repr (JArr (map JStr missing)))
      else if pc_pool_class p = BALANCER_V2_CLASS \<and> bc_v2_vault (ch_balancer (ct_chain cat)) = None
      then raise_res ConfigError (''pool '' @ pc_address p @ '' is balancer_v2 but chain defines no balancer.v2_vault'')
      else if pc_pool_class p = BALANCER_V3_CLASS \<and> bc_v3_vault (ch_balancer (ct_chain cat)) = None
      then raise_res ConfigError (''pool '' @ pc_address p @ '' is balancer_v3 but chain defines no balancer.v3_vault'')
      else Inr ())"

definition validate_target :: "job_config \<Rightarrow> token_config \<Rightarrow> unit res" where
  "validate_target job t =
     (if jb_integrity_mode job = SCALED_FULL_SUPPLY \<and> \<not> is_atoken t
      then raise_res ConfigError (''job '' @ jb_name job @ '': '' @ tc_symbol t @ '' is not an aToken'')
      else if jb_integrity_mode job = FULL_SUPPLY \<and> is_atoken t
      then raise_res ConfigError (''job '' @ jb_name job @ '': aToken requires scaled_full_supply'')
      else Inr ())"

definition discovered_universe :: "catalog \<Rightarrow> job_config \<Rightarrow> universe_config option" where
  "discovered_universe cat job =
     map_of (ct_universes cat) (case jb_universe job of None \<Rightarrow> [] | Some u \<Rightarrow> u)"

definition validate_job :: "catalog \<Rightarrow> job_config \<Rightarrow> unit res" where
  "validate_job cat job =
     (if jb_universe job \<noteq> None \<and> map_of (ct_universes cat) (the (jb_universe job)) = None
      then raise_res ConfigError (''job '' @ jb_name job @ '' references unknown universe '' @ the (jb_universe job))
      else if jb_target_kind job = TOKENS
      then (if \<exists>sel. jb_token_selector job = Some sel \<and> ts_discovered sel
            then (if jb_integrity_mode job \<noteq> SCOPED
                  then raise_res ConfigError (''job '' @ jb_name job @ '': discovered targets require scoped integrity'')
                  else if \<not> (\<exists>u. discovered_universe cat job = Some u \<and> un_kind u = EXPLICIT_LIST)
                  then raise_res ConfigError (''job '' @ jb_name job @ '': discovered targets require an explicit_list universe'')
                  else Inr ())
            else bind_res (token_targets cat job) (\<lambda>targets.
                 if targets = [] then raise_res ConfigError (''job '' @ jb_name job @ '' selects no tokens'')
                 else if jb_integrity_mode job \<in> {FULL_SUPPLY, SCALED_FULL_SUPPLY} \<and> jb_universe job \<noteq> Some ''full_holders''
                 then raise_res ConfigError (''job '' @ jb_name job @ '': exact supply requires full_holders'')
                 else each (validate_target job) targets))
      else bind_res (pool_targets cat job) (\<lambda>targets.
           if targets = [] then raise_res ConfigError (''job '' @ jb_name job @ '' selects no pools'')
           else Inr ()))"

definition validate_sweep_config :: "csv_reader \<Rightarrow> catalog \<Rightarrow> sweep_config \<Rightarrow> unit res" where
  "validate_sweep_config csv cat sweep =
     (case map_of (ct_universes cat) (sw_universe sweep) of
        None \<Rightarrow> raise_res ConfigError (''sweep '' @ sw_name sweep @ '' references unknown universe '' @ sw_universe sweep)
      | Some u \<Rightarrow>
          if un_kind u \<noteq> EXPLICIT_LIST
          then raise_res ConfigError (''sweep '' @ sw_name sweep @ '': universe '' @ sw_universe sweep @ '' must be an explicit_list'')
          else bind_res (explicit_addresses csv cat (sw_universe sweep)) (\<lambda>addresses.
            if addresses = []
            then raise_res ConfigError (''sweep '' @ sw_name sweep @ '': universe '' @ sw_universe sweep @ '' is empty'')
            else Inr ()))"

definition validate_catalog :: "csv_reader \<Rightarrow> catalog \<Rightarrow> unit res" where
  "validate_catalog csv cat =
     bind_res (each (validate_token cat) (map snd (ct_tokens cat))) (\<lambda>_.
     bind_res (each (validate_pool cat) (map snd (ct_pools cat))) (\<lambda>_.
     bind_res (each (validate_job cat) (map snd (ct_jobs cat))) (\<lambda>_.
     bind_res (each (validate_sweep_config csv cat) (map snd (ct_sweeps cat))) (\<lambda>_.
       each (\<lambda>name. bind_res (expanded_universe (ct_universes cat) name []) (\<lambda>_. Inr ()))
            (map fst (ct_universes cat))))))"

text \<open>
  \<open>load_catalog\<close> after the files are parsed: every row passes its model's validator (events and
  selectors with it), addresses are unique, and the whole is validated. Later entries of a
  dictionary with a repeated key would replace earlier ones; the duplicate checks of the
  loader rule that out.
\<close>

definition valid_token_row :: "token_config \<Rightarrow> unit res" where
  "valid_token_row t = bind_res (each valid_topics (tc_discovery_events t)) (\<lambda>_. valid_token_semantics t)"

definition valid_job_row :: "job_config \<Rightarrow> unit res" where
  "valid_job_row j =
     bind_res (case jb_token_selector j of None \<Rightarrow> Inr () | Some s \<Rightarrow> valid_token_selector s) (\<lambda>_.
     bind_res (case jb_pool_selector j of None \<Rightarrow> Inr () | Some s \<Rightarrow> valid_pool_selector s) (\<lambda>_.
       valid_job_shape j))"

definition load_catalog ::
  "csv_reader \<Rightarrow> string \<Rightarrow> chain_config \<Rightarrow> token_config list \<Rightarrow> pool_config list
   \<Rightarrow> (string \<times> universe_config) list \<Rightarrow> (string \<times> job_config) list \<Rightarrow> (string \<times> sweep_config) list
   \<Rightarrow> catalog res" where
  "load_catalog csv config_root chain token_values pool_values universes jobs sweeps =
     bind_res (each valid_token_row token_values) (\<lambda>_.
     bind_res (each valid_pool_semantics pool_values) (\<lambda>_.
       if \<not> distinct (map tc_address token_values)
       then raise_res ConfigError ''token catalog contains a duplicate address''
       else if \<not> distinct (map pc_address pool_values)
       then raise_res ConfigError ''pool catalog contains a duplicate address''
       else bind_res (each (valid_shape \<circ> snd) universes) (\<lambda>_.
            bind_res (each (valid_job_row \<circ> snd) jobs) (\<lambda>_.
            bind_res (each (valid_sweep \<circ> snd) sweeps) (\<lambda>_.
            let cat = \<lparr>ct_root = config_root, ct_chain = chain, ct_tokens = map (\<lambda>t. (tc_address t, t)) token_values,
                       ct_pools = map (\<lambda>p. (pc_address p, p)) pool_values, ct_universes = universes,
                       ct_jobs = jobs, ct_sweeps = sweeps\<rparr> in
            bind_res (validate_catalog csv cat) (\<lambda>_. Inr cat))))))"

subsection \<open>Lemmas\<close>

lemma each_Inr [res_simps]: "each check xs = Inr u \<longleftrightarrow> (\<forall>x \<in> set xs. check x = Inr ())"
  by (induction xs) (auto simp: each_def bind_res_Inr map_res_Inr list_all2_Cons1 elim: list_all2_mono)

lemma sort_key_set_Inr: "bind_res r (\<lambda>vs. Inr (sort_key f vs)) = Inr out \<longleftrightarrow> (\<exists>vs. r = Inr vs \<and> out = sort_key f vs)"
  by (cases r) auto

lemma lookup_key_Inr [res_simps]: "lookup_key d k = Inr v \<longleftrightarrow> map_of d k = Some v"
  by (auto simp: lookup_key_def split: option.splits)

lemma map_res_lookup: "map_res (lookup_key d) ks = Inr vs \<Longrightarrow> v \<in> set vs \<Longrightarrow> \<exists>k. map_of d k = Some v"
  by (induction ks arbitrary: vs) (auto simp: bind_res_Inr lookup_key_Inr)

lemma token_targets_sound:
  assumes "token_targets cat job = Inr ts" and "t \<in> set ts"
  shows "tc_enabled t \<and> t \<in> snd ` set (ct_tokens cat)"
  using assms
  by (auto simp: token_targets_def bind_res_Inr dest!: map_res_lookup map_of_SomeD
      split: option.splits if_splits intro: rev_image_eqI)

text \<open>The reference relation between composed universes.\<close>

definition refs :: "(string \<times> universe_config) list \<Rightarrow> (string \<times> string) set" where
  "refs d = {(n, c). \<exists>u. map_of d n = Some u \<and> un_kind u \<in> {UNION, INTERSECT} \<and> c \<in> set (un_of u)}"

lemma expanded_path:
  assumes "expanded_universe d n stack = Inr j" and "(n, m) \<in> (refs d)\<^sup>*"
  shows "m \<notin> set stack \<and> map_of d m \<noteq> None"
  using assms
proof (induction d n stack arbitrary: j rule: expanded_universe.induct)
  case (1 d n stack)
  from "1.prems"(1) obtain u where u: "n \<notin> set stack" "map_of d n = Some u"
    by (subst (asm) expanded_universe.simps) (auto split: if_splits option.splits)
  from "1.prems"(2) show ?case
  proof (cases rule: converse_rtranclE)
    case (step c)
    then have comp: "un_kind u \<in> {UNION, INTERSECT}" "c \<in> set (un_of u)" using u by (auto simp: refs_def)
    from "1.prems"(1) u comp obtain js where
      "map_res (\<lambda>child. expanded_universe d child (n # stack)) (un_of u) = Inr js"
      by (subst (asm) expanded_universe.simps) (auto simp: bind_res_Inr)
    with comp(2) obtain k where "expanded_universe d c (n # stack) = Inr k"
      by (auto simp: map_res_Inr list_all2_conv_all_nth in_set_conv_nth)
    from "1.IH" [OF u(1,2) _ comp(2) this] comp(1) step(2) show ?thesis by auto
  qed (use u in simp)
qed

lemma load_catalog_Inr:
  assumes "load_catalog csv r chain ts ps us js sws = Inr cat"
  shows "validate_catalog csv cat = Inr () \<and> (\<forall>t \<in> snd ` set (ct_tokens cat). valid_token_row t = Inr ())
    \<and> ct_jobs cat = js \<and> (\<forall>j \<in> snd ` set js. valid_job_row j = Inr ())"
  using assms
  by (auto simp: load_catalog_def bind_res_Inr each_Inr Let_def image_iff split: if_splits)

lemma expanded_acyclic:
  assumes "\<And>n. n \<in> fst ` set d \<Longrightarrow> \<exists>j. expanded_universe d n [] = Inr j"
  shows "acyclic (refs d) \<and> Range (refs d) \<subseteq> fst ` set d"
proof -
  have step: "map_of d m \<noteq> None \<and> m \<noteq> n" if nc: "(n, c) \<in> refs d" and cm: "(c, m) \<in> (refs d)\<^sup>*" for n c m
  proof -
    from nc obtain u where u: "map_of d n = Some u" "un_kind u \<in> {UNION, INTERSECT}" "c \<in> set (un_of u)"
      by (auto simp: refs_def)
    then have "n \<in> fst ` set d" by (force dest: map_of_SomeD)
    then obtain j where "expanded_universe d n [] = Inr j" using assms by blast
    with u obtain js where "map_res (\<lambda>child. expanded_universe d child [n]) (un_of u) = Inr js"
      by (subst (asm) expanded_universe.simps) (auto simp: bind_res_Inr)
    with u(3) obtain k where "expanded_universe d c [n] = Inr k"
      by (auto simp: map_res_Inr list_all2_conv_all_nth in_set_conv_nth)
    from expanded_path [OF this cm] show ?thesis by auto
  qed
  have "(n, n) \<notin> (refs d)\<^sup>+" for n using step [of n _ n] by (auto dest: tranclD)
  moreover have "c \<in> fst ` set d" if "(n, c) \<in> refs d" for n c
    using step [OF that, of c] by (force dest: map_of_SomeD)
  ultimately show ?thesis by (auto simp: acyclic_def)
qed

lemma atoken_semantics:
  "valid_token_semantics t = Inr () \<Longrightarrow> is_atoken t \<Longrightarrow> tc_balance_function t = ''scaledBalanceOf''
     \<and> ''scaledTotalSupply'' \<in> set (tc_supply_functions t) \<and> tc_index_source t \<noteq> None"
  by (simp add: valid_token_semantics_def split: if_splits)

lemma validate_target_Inr:
  "validate_target job t = Inr () \<Longrightarrow> (jb_integrity_mode job = FULL_SUPPLY \<longrightarrow> \<not> is_atoken t)
     \<and> (jb_integrity_mode job = SCALED_FULL_SUPPLY \<longrightarrow> is_atoken t)"
  by (simp add: validate_target_def split: if_splits)

definition sample_chain :: chain_config where
  "sample_chain = \<lparr>ch_name = ''gnosis'', ch_chain_id = 100, ch_finality_tag = ''finalized'',
     ch_fallback_confirmation_depth = 64, ch_expected_block_time_seconds = 5,
     ch_multicall3 = \<lparr>ms_address = ZERO_ADDRESS, ms_deployment_block = 0, ms_runtime_code_hash = None,
       ms_default_batch_size = 250\<rparr>,
     ch_legacy_execution = \<lparr>le_enabled = True, le_default_batch_size = 100, le_number_fallback =
       \<lparr>nf_enabled = True, nf_required_provider_quorum = 2, nf_require_distinct_provider_groups = True,
        nf_hash_sandwich = True\<rparr>\<rparr>,
     ch_discovery = \<lparr>dc_initial_chunk_size = 10000, dc_provider_result_cap = 10000\<rparr>,
     ch_balancer = \<lparr>bc_v2_vault = None, bc_v3_vault = None\<rparr>\<rparr>"

definition sample_universes :: "(string \<times> universe_config) list" where
  "sample_universes =
     [(''full_holders'', \<lparr>un_kind = FULL_HOLDERS, un_source = None, un_address_column = ''address'', un_of = []\<rparr>),
      (''both'', \<lparr>un_kind = UNION, un_source = None, un_address_column = ''address'',
        un_of = [''full_holders'', ''full_holders'']\<rparr>)]"

definition sample_job :: job_config where
  "sample_job = \<lparr>jb_name = ''tokens'', jb_target_kind = TOKENS, jb_token_selector =
       Some \<lparr>ts_addresses = [], ts_class_in = [], ts_all_enabled = True, ts_discovered = False\<rparr>,
     jb_pool_selector = None, jb_universe = Some ''full_holders'', jb_cadence = DAILY,
     jb_integrity_mode = FULL_SUPPLY, jb_coverage_start = None\<rparr>"

definition sample_token :: token_config where
  "sample_token = discovered_token_config ZERO_ADDRESS 7"

definition no_csv :: csv_reader where
  "no_csv path column = Inr None"

definition sample_catalog :: catalog where
  "sample_catalog = \<lparr>ct_root = ''config'', ct_chain = sample_chain, ct_tokens = [(ZERO_ADDRESS, sample_token)],
     ct_pools = [], ct_universes = sample_universes, ct_jobs = [(''tokens'', sample_job)], ct_sweeps = []\<rparr>"

lemma sample_catalog_loads:
  "load_catalog no_csv ''config'' sample_chain [sample_token] [] sample_universes [(''tokens'', sample_job)] []
     = Inr sample_catalog"
proof -
  have full: "expanded_universe sample_universes ''full_holders'' stack = Inr (universe_json (snd (hd sample_universes)))"
    if "''full_holders'' \<notin> set stack" for stack
    using that by (subst expanded_universe.simps) (simp add: sample_universes_def)
  have "\<exists>j. expanded_universe sample_universes ''both'' [] = Inr j"
    by (subst expanded_universe.simps) (simp add: full [of "[''both'']", simplified], simp add: sample_universes_def full [of "[''both'']", unfolded sample_universes_def, simplified])
  moreover have "\<exists>j. expanded_universe sample_universes ''full_holders'' [] = Inr j"
    by (rule exI, rule full) simp
  ultimately have "each (\<lambda>name. bind_res (expanded_universe sample_universes name []) (\<lambda>_. Inr ()))
      (map fst sample_universes) = Inr ()"
    by (subst sample_universes_def) (auto simp: each_Inr bind_res_Inr)
  moreover have "token_targets sample_catalog sample_job = Inr [sample_token]"
    by (simp add: token_targets_def sample_catalog_def sample_job_def sample_token_def
        discovered_token_config_def)
  then have "validate_job sample_catalog sample_job = Inr ()"
    by (simp add: validate_job_def sample_catalog_def sample_universes_def)
       (simp add: sample_job_def each_def validate_target_def sample_token_def discovered_token_config_def
         is_atoken_def)
  ultimately have "validate_catalog no_csv sample_catalog = Inr ()"
    by (simp add: validate_catalog_def sample_catalog_def each_def)
       (simp add: validate_token_def sample_token_def discovered_token_config_def)
  moreover have "valid_token_row sample_token = Inr ()"
    by (simp add: valid_token_row_def sample_token_def discovered_token_config_def each_def valid_topics_def
        valid_token_semantics_def is_atoken_def dates_ordered_def)
  moreover have "each (valid_shape \<circ> snd) sample_universes = Inr ()"
    by (simp add: sample_universes_def each_def valid_shape_def)
  moreover have "valid_job_row sample_job = Inr ()"
    by (simp add: valid_job_row_def sample_job_def valid_token_selector_def valid_job_shape_def)
  ultimately show ?thesis
    by (simp add: load_catalog_def each_def sample_catalog_def)
       (simp add: sample_token_def discovered_token_config_def)
qed





end
