(* ===== verification/Events.thy ===== *)
theory Events
  imports Config Execution
begin

text \<open>
  The registry of committed ABI fragments (\<open>evm/events.py\<close>): it loads the JSON document of an ABI,
  finds the one event of a name, derives its topic from the canonical signature and checks that
  the configured holder topics are indexed addresses. The files are the parameter \<open>files\<close>; the
  state is the cache of loaded documents.
\<close>

type_synonym abi_item = "(string \<times> json) list"

text \<open>A file: absent, present but not readable as JSON, or a JSON document.\<close>

datatype abi_file = NoFile | Unreadable | Document json

record event_definition =
  ed_abi_name :: string
  ed_event_name :: string
  ed_topic0 :: string
  ed_indexed_types :: "string list"

type_synonym abi_cache = "(string \<times> abi_item list) list"

definition is_alnum :: "char \<Rightarrow> bool" where
  "is_alnum c \<longleftrightarrow> (let n = char_nat c in 48 \<le> n \<and> n \<le> 57 \<or> 65 \<le> n \<and> n \<le> 90 \<or> 97 \<le> n \<and> n \<le> 122)"

text \<open>\<open>abi_name and abi_name.replace("_", "a").isalnum()\<close>\<close>

definition valid_abi_name :: "string \<Rightarrow> bool" where
  "valid_abi_name name \<longleftrightarrow> name \<noteq> [] \<and> list_all (\<lambda>c. is_alnum c \<or> c = CHR ''_'') name"

definition abi_path :: "string \<Rightarrow> string \<Rightarrow> string" where
  "abi_path folder name = folder @ ''/'' @ name @ ''.json''"

fun abi_items :: "json list \<Rightarrow> abi_item list option" where
  "abi_items [] = Some []"
| "abi_items (JObj kvs # items) = map_option (Cons kvs) (abi_items items)"
| "abi_items (_ # items) = None"

definition load_abi :: "(string \<Rightarrow> abi_file) \<Rightarrow> string \<Rightarrow> string \<Rightarrow> (abi_cache, abi_item list) io" where
  "load_abi files folder name = (\<lambda>cache.
     case map_of cache name of
       Some items \<Rightarrow> (Inr items, cache)
     | None \<Rightarrow>
         if \<not> valid_abi_name name then (raise_res AbiDefinitionError (''invalid ABI name: '' @ repr_str name), cache)
         else let path = abi_path folder name in
           (case files path of
              NoFile \<Rightarrow> (raise_res AbiDefinitionError (''ABI fragment does not exist: '' @ path), cache)
            | Unreadable \<Rightarrow> (raise_res AbiDefinitionError (''cannot load ABI fragment: '' @ path), cache)
            | Document value \<Rightarrow>
                (case (case value of JArr items \<Rightarrow> abi_items items | _ \<Rightarrow> None) of
                   None \<Rightarrow> (raise_res AbiDefinitionError (''ABI fragment must be an array of objects: '' @ path), cache)
                 | Some items \<Rightarrow> (Inr items, AList.update name items cache))))"

text \<open>The types of the inputs and of the indexed ones.\<close>

fun event_inputs :: "string \<Rightarrow> json list \<Rightarrow> (string list \<times> string list) res" where
  "event_inputs event_name [] = Inr ([], [])"
| "event_inputs event_name (item # items) =
     (case item of
        JObj kvs \<Rightarrow>
          (case obj_get kvs ''type'' of
             JStr t \<Rightarrow>
               (case obj_get kvs ''indexed'' of
                  JBool indexed \<Rightarrow>
                    bind_res (event_inputs event_name items) (\<lambda>(types, indexed_types).
                      Inr (t # types, if indexed then t # indexed_types else indexed_types))
                | _ \<Rightarrow> raise_res AbiDefinitionError (''event input has no boolean indexed flag: '' @ event_name))
           | _ \<Rightarrow> raise_res AbiDefinitionError (''malformed event input: '' @ event_name))
      | _ \<Rightarrow> raise_res AbiDefinitionError (''malformed event input: '' @ event_name))"

definition event_of :: "ext \<Rightarrow> string \<Rightarrow> string \<Rightarrow> abi_item list \<Rightarrow> event_definition res" where
  "event_of ex abi_name event_name items =
     (case filter (\<lambda>item. obj_get item ''type'' = JStr ''event'' \<and> obj_get item ''name'' = JStr event_name) items of
        [event] \<Rightarrow>
          if obj_get event ''anonymous'' \<noteq> JBool False
          then raise_res AbiDefinitionError (''anonymous events are unsupported: '' @ event_name)
          else (case obj_get event ''inputs'' of
            JArr raw_inputs \<Rightarrow>
              bind_res (event_inputs event_name raw_inputs) (\<lambda>(types, indexed_types).
                Inr \<lparr>ed_abi_name = abi_name, ed_event_name = event_name,
                     ed_topic0 = ''0x'' @ bytes_hex (ext_keccak ex (map char_byte (event_name @ ''('' @ join '','' types @ '')''))),
                     ed_indexed_types = indexed_types\<rparr>)
          | _ \<Rightarrow> raise_res AbiDefinitionError (''event inputs must be an array: '' @ event_name))
      | _ \<Rightarrow> raise_res AbiDefinitionError (''expected exactly one '' @ event_name @ '' event in '' @ abi_name @ ''.json''))"

definition event :: "ext \<Rightarrow> (string \<Rightarrow> abi_file) \<Rightarrow> string \<Rightarrow> string \<Rightarrow> string \<Rightarrow> (abi_cache, event_definition) io" where
  "event ex files folder abi_name event_name =
     bind_io (load_abi files folder abi_name) (\<lambda>items. lift_res (event_of ex abi_name event_name items))"

text \<open>Python's subscript of a tuple: a negative index counts from the end.\<close>

definition py_index :: "'a list \<Rightarrow> int \<Rightarrow> 'a res" where
  "py_index xs i =
     (let k = (if i < 0 then i + int (length xs) else i) in
      if 0 \<le> k \<and> k < int (length xs) then Inr (xs ! nat k)
      else raise_res PyException ''tuple index out of range'')"

fun check_positions :: "event_definition \<Rightarrow> int list \<Rightarrow> unit res" where
  "check_positions e [] = Inr ()"
| "check_positions e (p # ps) =
     (let name = ed_abi_name e @ ''.'' @ ed_event_name e in
      if p - 1 \<ge> int (length (ed_indexed_types e))
      then raise_res AbiDefinitionError (name @ '' has no indexed topic '' @ py_int p)
      else bind_res (py_index (ed_indexed_types e) (p - 1)) (\<lambda>t.
             if t \<noteq> ''address'' then raise_res AbiDefinitionError (name @ '' topic '' @ py_int p @ '' is not address'')
             else check_positions e ps))"

definition validate_holder_topics ::
  "ext \<Rightarrow> (string \<Rightarrow> abi_file) \<Rightarrow> string \<Rightarrow> string \<Rightarrow> string \<Rightarrow> int list \<Rightarrow> (abi_cache, event_definition) io" where
  "validate_holder_topics ex files folder abi_name event_name holder_topics =
     bind_io (event ex files folder abi_name event_name) (\<lambda>e.
     bind_io (lift_res (check_positions e holder_topics)) (\<lambda>_. ret e))"

subsection \<open>Lemmas\<close>

lemma check_positions_Inr:
  "check_positions e ps = Inr () \<Longrightarrow> p \<in> set ps \<Longrightarrow> 1 \<le> p \<Longrightarrow>
     nat (p - 1) < length (ed_indexed_types e) \<and> ed_indexed_types e ! nat (p - 1) = ''address''"
proof (induction ps)
  case (Cons q ps)
  show ?case
  proof (cases "p = q")
    case True
    with Cons.prems show ?thesis
      by (auto simp: Let_def bind_res_Inr py_index_def nat_less_iff split: if_splits)
  next
    case False
    with Cons show ?thesis by (auto simp: Let_def bind_res_Inr split: if_splits)
  qed
qed simp

text \<open>The cache holds what the files hold.\<close>

definition coherent :: "(string \<Rightarrow> abi_file) \<Rightarrow> string \<Rightarrow> abi_cache \<Rightarrow> bool" where
  "coherent files folder cache \<longleftrightarrow> (\<forall>(name, items) \<in> set cache. valid_abi_name name
     \<and> (\<exists>values. files (abi_path folder name) = Document (JArr values) \<and> abi_items values = Some items))"

lemma load_abi_coherent:
  assumes "coherent files folder cache" and "load_abi files folder name cache = (r, cache')"
  shows "coherent files folder cache' \<and> fst (load_abi files folder name []) = r"
proof (cases "map_of cache name")
  case (Some items)
  with assms have "(name, items) \<in> set cache" "r = Inr items" "cache' = cache"
    by (auto simp: load_abi_def dest: map_of_SomeD)
  with assms(1) show ?thesis by (fastforce simp: coherent_def load_abi_def)
next
  case None
  have upd: "set (AList.update name items cache) \<subseteq> insert (name, items) (set cache)" for items
    by (induction cache) auto
  from None assms show ?thesis
    by (auto simp: load_abi_def Let_def coherent_def raise_res_def dest!: subsetD [OF upd]
        split: if_splits abi_file.split_asm option.split_asm json.split_asm)
qed

lemma validate_holder_topics_Inr:
  assumes "validate_holder_topics ex files folder abi_name event_name topics cache = (Inr e, cache')"
  shows "ed_event_name e = event_name
    \<and> (\<forall>p \<in> set topics. 1 \<le> p \<longrightarrow> nat (p - 1) < length (ed_indexed_types e) \<and> ed_indexed_types e ! nat (p - 1) = ''address'')"
proof -
  from assms obtain items where "event_of ex abi_name event_name items = Inr e" "check_positions e topics = Inr ()"
    by (auto simp: validate_holder_topics_def event_def bind_io_Inr lift_res_Inr)
  moreover from this(1) have "ed_event_name e = event_name"
    by (auto simp: event_of_def bind_res_Inr raise_res_def split: list.split_asm if_splits json.split_asm prod.split_asm)
  ultimately show ?thesis using check_positions_Inr by blast
qed

end
