(* ===== verification/Multicall.thy ===== *)
theory Multicall
  imports Legacy
begin

text \<open>
  The Multicall3 executor (\<open>execution/multicall3.py\<close>, \<open>evm/abi.py\<close>): each batch of calls travels in
  one \<open>aggregate3\<close> between two sentinel triples that read the block number, timestamp and parent
  hash the calls were executed under. The batches of one \<open>execute\<close> are independent; the model
  runs them in order. Metrics are left out; task cancellation is not modelled.
\<close>

record multicall_config =
  mc_address :: string
  mc_deployment_block :: int
  mc_batch_size :: int
  mc_max_parallel_batches :: int

definition mk_multicall :: "string \<Rightarrow> int \<Rightarrow> int \<Rightarrow> int \<Rightarrow> multicall_config res" where
  "mk_multicall address deployment_block batch_size max_parallel_batches =
     (if batch_size < 1 then raise_res ValueError ''batch size must be positive''
      else if max_parallel_batches < 1
      then raise_res ValueError ''max parallel batches must be positive''
      else Inr \<lparr>mc_address = str_lower address, mc_deployment_block = deployment_block,
                mc_batch_size = batch_size, mc_max_parallel_batches = max_parallel_batches\<rparr>)"

subsection \<open>The aggregate3 codec\<close>

definition encode_aggregate3 :: "ext \<Rightarrow> (string \<times> bool \<times> bytes) list \<Rightarrow> bytes res" where
  "encode_aggregate3 ex calls =
     bind_res (ext_abi_encode ex calls) (\<lambda>b. Inr (AGGREGATE3_SELECTOR @ b))"

definition decode_aggregate3 :: "ext \<Rightarrow> bytes \<Rightarrow> (bool \<times> bytes) list res" where
  "decode_aggregate3 ex r =
     (if r = [] then raise_res ValueError ''aggregate3 returned empty data''
      else case ext_abi_decode ex r of
             Inl _ \<Rightarrow> raise_res ValueError ''malformed aggregate3 return data''
           | Inr decoded \<Rightarrow> Inr decoded)"

subsection \<open>Sentinels\<close>

definition sentinel_call :: "multicall_config \<Rightarrow> string \<Rightarrow> string \<Rightarrow> bytes \<Rightarrow> contract_call" where
  "sentinel_call mc position suffix data =
     \<lparr>cc_key = ''__sentinel_'' @ position @ suffix, cc_target = mc_address mc,
      cc_calldata = data, cc_allow_failure = False\<rparr>"

definition sentinels :: "multicall_config \<Rightarrow> string \<Rightarrow> block_ref \<Rightarrow> contract_call list res" where
  "sentinels mc position anchor =
     bind_res (get_block_hash_calldata (number anchor - 1)) (\<lambda>parent.
       Inr [sentinel_call mc position ''_block'' GET_BLOCK_NUMBER_SELECTOR,
            sentinel_call mc position ''_timestamp'' GET_CURRENT_BLOCK_TIMESTAMP_SELECTOR,
            sentinel_call mc position ''_parent'' parent])"

definition verify_sentinels ::
  "(bool \<times> bytes) list \<Rightarrow> block_ref \<Rightarrow> string \<Rightarrow> unit res" where
  "verify_sentinels results anchor position =
     (if length results \<noteq> 3 \<or> \<not> list_all fst results
      then raise_res SentinelMismatch (position @ '' sentinel reverted'')
      else let block = decode_uint256 True (RetBytes (snd (results ! 0)));
               ts = decode_uint256 True (RetBytes (snd (results ! 1)));
               parent = snd (results ! 2) in
      if \<not> obs_ok block \<or> obs_value block \<noteq> Some (number anchor)
      then raise_res SentinelMismatch (position @ '' block sentinel mismatch'')
      else if \<not> obs_ok ts \<or> obs_value ts \<noteq> Some (timestamp anchor)
      then raise_res SentinelMismatch (position @ '' timestamp sentinel mismatch'')
      else if length parent \<noteq> 32
      then raise_res SentinelMismatch (position @ '' parent-hash sentinel mismatch'')
      else bind_res (normalize_hash (JStr (parent_hash anchor))) (\<lambda>expected.
        if ''0x'' @ bytes_hex parent \<noteq> expected
        then raise_res SentinelMismatch (position @ '' parent-hash sentinel mismatch'')
        else Inr ()))"

subsection \<open>One eth_call\<close>

definition mc_select ::
  "'w env \<Rightarrow> block_ref \<Rightarrow> string list \<Rightarrow> ('w, rpc_endpoint) rpc" where
  "mc_select env anchor excluded =
     catch_io (select env (Some (number anchor)) True excluded) (\<lambda>e.
       if isinstance e RpcNoHealthyEndpoint then select env (Some (number anchor)) False excluded
       else raise e)"

definition mc_retry_delay :: "client_config \<Rightarrow> nat \<Rightarrow> rpc_failure \<Rightarrow> bool \<Rightarrow> rat" where
  "mc_retry_delay cfg attempt failure same_endpoint =
     (let backoff = cc_retry_base_seconds cfg * 2 ^ (attempt - 1) in
      if \<not> same_endpoint then min 2 backoff
      else min 60 (max (case rf_retry_after failure of Some a \<Rightarrow> a | None \<Rightarrow> 0) backoff))"

text \<open>The guarded body of one attempt: the call, sandwiched between hash checks on an endpoint
  that cannot pin by hash.\<close>

definition mc_attempt ::
  "'w env \<Rightarrow> multicall_config \<Rightarrow> rpc_endpoint \<Rightarrow> bytes \<Rightarrow> block_ref \<Rightarrow> json \<Rightarrow> ('w, string) rpc" where
  "mc_attempt env mc endpoint calldata anchor reference =
     (let check = (if ep_supports_eip1898 endpoint then ret () else assert_anchor_hash env endpoint anchor) in
      bind_io check (\<lambda>_.
      bind_io (call_on_endpoint env endpoint ''eth_call''
                 [JObj [(''to'', JStr (mc_address mc)), (''data'', JStr (''0x'' @ bytes_hex calldata))],
                  reference]) (\<lambda>result.
      bind_io check (\<lambda>_.
        case result of
          JStr s \<Rightarrow> ret s
        | _ \<Rightarrow> raise (Exn ValueError ''eth_call result must be hex data'')))))"

definition mc_exhausted :: exn where
  "mc_exhausted = Exn RpcNoHealthyEndpoint ''Multicall3 exhausted endpoints''"

text \<open>The endpoint an attempt uses: the selected one, or the last one when it was only busy.\<close>

definition mc_pick ::
  "'w env \<Rightarrow> block_ref \<Rightarrow> string list \<Rightarrow> (rpc_failure \<times> rpc_endpoint) option \<Rightarrow> ('w, rpc_endpoint) rpc" where
  "mc_pick env anchor excluded last_failed =
     catch_io (mc_select env anchor excluded) (\<lambda>e.
       if isinstance e RpcNoHealthyEndpoint
       then case last_failed of
              Some (failure, endpoint) \<Rightarrow> if rf_retryable failure then ret endpoint else raise mc_exhausted
            | None \<Rightarrow> raise mc_exhausted
       else raise mc_exhausted)"

fun mc_eth_call ::
  "'w env \<Rightarrow> client_config \<Rightarrow> multicall_config \<Rightarrow> bytes \<Rightarrow> block_ref \<Rightarrow> nat \<Rightarrow> nat \<Rightarrow> string list
   \<Rightarrow> (rpc_failure \<times> rpc_endpoint) option \<Rightarrow> ('w, string \<times> rpc_endpoint \<times> string) rpc" where
  "mc_eth_call env cfg mc calldata anchor attempt 0 excluded last_failed = raise mc_exhausted"
| "mc_eth_call env cfg mc calldata anchor attempt (Suc fuel) excluded last_failed =
     bind_io (mc_pick env anchor excluded last_failed) (\<lambda>endpoint.
     bind_io (case last_failed of
                None \<Rightarrow> ret ()
              | Some (failure, previous) \<Rightarrow>
                  pause env (mc_retry_delay cfg attempt failure (ep_name endpoint = ep_name previous))) (\<lambda>_.
     bind_io (lift_res (block_reference anchor (ep_supports_eip1898 endpoint))) (\<lambda>reference s.
       case mc_attempt env mc endpoint calldata anchor reference s of
         (Inr result, s1) \<Rightarrow>
           bind_io (record_success endpoint) (\<lambda>_.
             ret (result, endpoint,
                  if ep_supports_eip1898 endpoint then ''eip1898'' else ''number_hash_sandwich'')) s1
       | (Inl exc, s1) \<Rightarrow>
           let normalized = normalize_rpc_error exc; failure = classify_rpc_failure normalized in
           bind_io (record_failure env endpoint (rf_failover failure) (Some (number anchor))
                      (rf_kind failure = ARCHIVE_UNAVAILABLE)) (\<lambda>_.
             if rf_kind failure = PROVIDER_LIMIT then raise (Exn RpcProviderLimit (exn_str normalized))
             else if \<not> rf_retryable failure \<and> \<not> rf_failover failure then raise normalized
             else mc_eth_call env cfg mc calldata anchor (attempt + 1) fuel
                    (if rf_failover failure then ep_name endpoint # excluded else excluded)
                    (Some (failure, endpoint))) s1)))"

subsection \<open>One batch\<close>

text \<open>Decoding and verification of a response; the caught exceptions are the \<open>Inl\<close> results.\<close>

definition mc_verify ::
  "ext \<Rightarrow> block_ref \<Rightarrow> nat \<Rightarrow> string \<Rightarrow> (bool \<times> bytes) list res" where
  "mc_verify ex anchor expected encoded =
     bind_res (hex_data_to_bytes encoded) (\<lambda>raw.
     bind_res (decode_aggregate3 ex raw) (\<lambda>decoded.
       if length decoded \<noteq> expected
       then raise_res BatchResultCountMismatch
              (''expected '' @ py_int (int expected) @ '' results, got '' @ py_int (int (length decoded)))
       else bind_res (verify_sentinels (take 3 decoded) anchor ''head'') (\<lambda>_.
            bind_res (verify_sentinels (drop (length decoded - 3) decoded) anchor ''tail'') (\<lambda>_.
              Inr decoded))))"

definition mc_body :: "contract_call list \<Rightarrow> (bool \<times> bytes) list \<Rightarrow> raw_call_result list" where
  "mc_body calls decoded =
     map (\<lambda>(c, success, r). \<lparr>rr_key = cc_key c, rr_success = success, rr_returndata = r,
            rr_error_code = None, rr_error_message = None\<rparr>)
       (zip calls (take (length decoded - 6) (drop 3 decoded)))"

text \<open>Escalation of a failed subcall: its result and the provider groups it adds.\<close>

definition mc_escalate ::
  "(contract_call \<Rightarrow> ('w, verified_batch_result) rpc) option \<Rightarrow> contract_call \<times> raw_call_result
   \<Rightarrow> ('w, raw_call_result \<times> string list) rpc" where
  "mc_escalate single cr =
     (case single of
        None \<Rightarrow> ret (snd cr, [])
      | Some run \<Rightarrow>
          if rr_success (snd cr) then ret (snd cr, [])
          else bind_io (run (fst cr)) (\<lambda>retry.
            case vb_results retry of
              [r] \<Rightarrow> ret (r, ve_provider_groups (vb_evidence retry))
            | _ \<Rightarrow> raise (Exn BatchResultCountMismatch
                     ''single-call escalation returned the wrong result count'')))"

definition mc_caught :: "exn \<Rightarrow> bool" where
  "mc_caught e \<longleftrightarrow> isinstance e BatchVerificationError \<or> isinstance e ValueError"

fun mc_loop ::
  "'w env \<Rightarrow> client_config \<Rightarrow> ext \<Rightarrow> multicall_config
   \<Rightarrow> (contract_call \<Rightarrow> ('w, verified_batch_result) rpc) option
   \<Rightarrow> contract_call list \<Rightarrow> nat \<Rightarrow> bytes \<Rightarrow> block_ref \<Rightarrow> nat \<Rightarrow> nat \<Rightarrow> string list
   \<Rightarrow> ('w, verified_batch_result) rpc" where
  "mc_loop env cfg ex mc single calls packed calldata anchor attempt 0 excluded =
     raise (Exn BatchVerificationError ''Multicall3 could not verify the pinned anchor on any endpoint'')"
| "mc_loop env cfg ex mc single calls packed calldata anchor attempt (Suc fuel) excluded =
     bind_io (mc_eth_call env cfg mc calldata anchor 0 (cc_max_retries cfg) excluded None)
       (\<lambda>(encoded, endpoint, reference_kind).
       case mc_verify ex anchor packed encoded of
         Inl e \<Rightarrow>
           if \<not> mc_caught e then raise e
           else bind_io (record_failure env endpoint True None False) (\<lambda>_.
                bind_io (pause env (min 2 (cc_retry_base_seconds cfg * 2 ^ attempt))) (\<lambda>_.
                  mc_loop env cfg ex mc single calls packed calldata anchor (attempt + 1) fuel
                    (ep_name endpoint # excluded)))
       | Inr decoded \<Rightarrow>
           bind_io (map_io (mc_escalate single) (zip calls (mc_body calls decoded))) (\<lambda>escalated.
           bind_io (lift_res (normalize_hash (JStr (block_hash anchor)))) (\<lambda>h.
           bind_io (lift_res (digest_raw_results (map fst escalated))) (\<lambda>digest.
             ret \<lparr>vb_results = map fst escalated,
                  vb_evidence = \<lparr>ve_executor_kind = MULTICALL3, ve_block_reference_kind = reference_kind,
                    ve_anchor_hash = h,
                    ve_provider_groups =
                      sort (remdups (ep_provider_group endpoint # concat (map snd escalated))),
                    ve_result_digest = digest, ve_verified = True\<rparr>\<rparr>))))"

definition mc_once_with ::
  "'w env \<Rightarrow> client_config \<Rightarrow> ext \<Rightarrow> multicall_config
   \<Rightarrow> (contract_call \<Rightarrow> ('w, verified_batch_result) rpc) option
   \<Rightarrow> block_ref \<Rightarrow> contract_call list \<Rightarrow> ('w, verified_batch_result) rpc" where
  "mc_once_with env cfg ex mc single anchor calls =
     bind_io (lift_res (sentinels mc ''head'' anchor)) (\<lambda>head.
     bind_io (lift_res (sentinels mc ''tail'' anchor)) (\<lambda>tail.
     let packed = head @ calls @ tail in
     bind_io (lift_res (encode_aggregate3 ex
                (map (\<lambda>c. (cc_target c, cc_allow_failure c, cc_calldata c)) packed))) (\<lambda>calldata.
       mc_loop env cfg ex mc single calls (length packed) calldata anchor 0 (cc_max_retries cfg) [])))"

text \<open>\<open>_execute_once\<close>: a failed subcall is executed once more on its own, without escalation.\<close>

definition mc_once ::
  "'w env \<Rightarrow> client_config \<Rightarrow> ext \<Rightarrow> multicall_config \<Rightarrow> block_ref \<Rightarrow> contract_call list
   \<Rightarrow> ('w, verified_batch_result) rpc" where
  "mc_once env cfg ex mc anchor =
     mc_once_with env cfg ex mc (Some (\<lambda>c. mc_once_with env cfg ex mc None anchor [c])) anchor"

definition mc_on_error :: "exn \<Rightarrow> adaptive_action" where
  "mc_on_error e = (if isinstance e RpcProviderLimit then Halve e else RaiseNow e)"

definition mc_execute ::
  "'w env \<Rightarrow> client_config \<Rightarrow> ext \<Rightarrow> multicall_config \<Rightarrow> 'w rpc_state executor_fun" where
  "mc_execute env cfg ex mc calls anchor =
     (if number anchor < mc_deployment_block mc
      then raise (Exn UnsupportedExecutionRange ''Multicall3 is not deployed at the anchor'')
      else if number anchor = 0
      then raise (Exn UnsupportedExecutionRange ''Multicall sentinels require anchor block > 0'')
      else bind_io (lift_res (chunked calls (mc_batch_size mc))) (\<lambda>batches.
           bind_io (map_io (adaptive mc_on_error (mc_once env cfg ex mc anchor)) batches) (\<lambda>outputs.
             ret (concat outputs))))"

subsection \<open>Lemmas\<close>

text \<open>What a sentinel triple proves: the EVM context was the anchor's block.\<close>

definition block_context :: "block_ref \<Rightarrow> (bool \<times> bytes) list \<Rightarrow> bool" where
  "block_context anchor rs \<longleftrightarrow>
     (\<exists>b t p. rs = [(True, b), (True, t), (True, p)] \<and> length b = 32 \<and> length t = 32 \<and> length p = 32
        \<and> from_bytes b = number anchor \<and> from_bytes t = timestamp anchor
        \<and> ''0x'' @ bytes_hex p = str_lower (parent_hash anchor) \<and> HASH_RE (parent_hash anchor))"

lemma normalize_hash_Inr [res_simps]:
  "normalize_hash (JStr h) = Inr x \<longleftrightarrow> HASH_RE h \<and> x = str_lower h"
  by (auto simp: normalize_hash_def)

lemma decode_uint256_bytes [simp]:
  "obs_ok (decode_uint256 True (RetBytes b)) \<longleftrightarrow> length b = 32"
  "obs_value (decode_uint256 True (RetBytes b)) = Some v \<longleftrightarrow> length b = 32 \<and> from_bytes b = v"
  by (auto simp: decode_uint256_cases returndata_bytes_def failed_observation_def obs_ok_def)

lemma list_all2_right: "list_all2 P xs ys \<Longrightarrow> (\<And>x y. P x y \<Longrightarrow> Q y) \<Longrightarrow> list_all Q ys"
  by (induction rule: list_all2_induct) auto

lemma verify_sentinels_Inr: "verify_sentinels rs anchor pos = Inr u \<longleftrightarrow> block_context anchor rs"
proof (cases "length rs = 3 \<and> list_all fst rs")
  case True
  then obtain b t p where rs: "rs = [(True, b), (True, t), (True, p)]"
    by (cases rs rule: list.exhaust; auto simp: length_Suc_conv numeral_3_eq_3)
  show ?thesis unfolding rs verify_sentinels_def Let_def
    by (auto simp: block_context_def res_simps split: if_splits)
next
  case False
  then show ?thesis by (auto simp: verify_sentinels_def block_context_def)
qed

text \<open>A result that was decoded between two verified sentinel triples.\<close>

definition sandwiched :: "ext \<Rightarrow> block_ref \<Rightarrow> raw_call_result \<Rightarrow> bool" where
  "sandwiched ex anchor r \<longleftrightarrow>
     (\<exists>raw decoded. ext_abi_decode ex raw = Inr decoded
        \<and> block_context anchor (take 3 decoded) \<and> block_context anchor (drop (length decoded - 3) decoded)
        \<and> (rr_success r, rr_returndata r) \<in> set (take (length decoded - 6) (drop 3 decoded)))"

definition mc_ok :: "ext \<Rightarrow> block_ref \<Rightarrow> contract_call list \<Rightarrow> verified_batch_result \<Rightarrow> bool" where
  "mc_ok ex anchor calls b \<longleftrightarrow> batch_ok anchor calls b \<and> list_all (sandwiched ex anchor) (vb_results b)"

lemma mc_verify_Inr:
  assumes "mc_verify ex anchor n encoded = Inr decoded"
  shows "length decoded = n \<and> block_context anchor (take 3 decoded)
    \<and> block_context anchor (drop (length decoded - 3) decoded)
    \<and> (\<exists>raw. ext_abi_decode ex raw = Inr decoded)"
  using assms
  by (auto simp: mc_verify_def bind_res_Inr verify_sentinels_Inr decode_aggregate3_def
      split: if_splits sum.splits)

lemma mc_body_keys: "length decoded = length calls + 6 \<Longrightarrow> map rr_key (mc_body calls decoded) = map cc_key calls"
  unfolding mc_body_def by (rule nth_equalityI) (auto split: prod.splits)

lemma mc_body_sandwiched:
  assumes "mc_verify ex anchor n encoded = Inr decoded" and "r \<in> set (mc_body calls decoded)"
  shows "sandwiched ex anchor r"
proof -
  from assms(2) have "(rr_success r, rr_returndata r) \<in> set (take (length decoded - 6) (drop 3 decoded))"
    unfolding mc_body_def by (auto dest!: set_zip_rightD)
  with mc_verify_Inr [OF assms(1)] show ?thesis unfolding sandwiched_def by blast
qed

lemma mc_escalate_ok:
  assumes "mc_escalate single (c, r) s = (Inr (r', gs), s')"
    and "rr_key r = cc_key c" and "sandwiched ex anchor r"
    and "\<And>run s b s'. single = Some run \<Longrightarrow> run c s = (Inr b, s') \<Longrightarrow> mc_ok ex anchor [c] b"
  shows "rr_key r' = cc_key c \<and> sandwiched ex anchor r'"
proof (cases "single = None \<or> rr_success r")
  case True
  with assms(1-3) show ?thesis by (auto simp: mc_escalate_def split: option.splits)
next
  case False
  then obtain run where run: "single = Some run" by auto
  with False assms(1) obtain b s1 where b: "run c s = (Inr b, s1)"
    and rest: "(case vb_results b of [r] \<Rightarrow> ret (r, ve_provider_groups (vb_evidence b))
      | _ \<Rightarrow> raise (Exn BatchResultCountMismatch
          ''single-call escalation returned the wrong result count'')) s1 = (Inr (r', gs), s')"
    by (auto simp: mc_escalate_def bind_io_Inr)
  from rest have r: "vb_results b = [r']"
    by (cases "vb_results b"; cases "tl (vb_results b)") auto
  from assms(4) [OF run b] r show ?thesis by (auto simp: mc_ok_def batch_ok_def)
qed

lemma mc_loop_ok:
  assumes "mc_loop env cfg ex mc single calls n calldata anchor attempt fuel excluded s = (Inr b, s')"
    and "n = length calls + 6"
    and single: "\<And>run c s b s'. single = Some run \<Longrightarrow> run c s = (Inr b, s') \<Longrightarrow> mc_ok ex anchor [c] b"
  shows "mc_ok ex anchor calls b"
  using assms(1)
proof (induction fuel arbitrary: attempt excluded s)
  case (Suc fuel)
  from Suc.prems obtain encoded ep kind s1 where
    rest: "(case mc_verify ex anchor n encoded of
         Inl e \<Rightarrow>
           if \<not> mc_caught e then raise e
           else bind_io (record_failure env ep True None False) (\<lambda>_.
                bind_io (pause env (min 2 (cc_retry_base_seconds cfg * 2 ^ attempt))) (\<lambda>_.
                  mc_loop env cfg ex mc single calls n calldata anchor (attempt + 1) fuel
                    (ep_name ep # excluded)))
       | Inr decoded \<Rightarrow>
           bind_io (map_io (mc_escalate single) (zip calls (mc_body calls decoded))) (\<lambda>escalated.
           bind_io (lift_res (normalize_hash (JStr (block_hash anchor)))) (\<lambda>h.
           bind_io (lift_res (digest_raw_results (map fst escalated))) (\<lambda>digest.
             ret \<lparr>vb_results = map fst escalated,
                  vb_evidence = \<lparr>ve_executor_kind = MULTICALL3, ve_block_reference_kind = kind,
                    ve_anchor_hash = h,
                    ve_provider_groups =
                      sort (remdups (ep_provider_group ep # concat (map snd escalated))),
                    ve_result_digest = digest, ve_verified = True\<rparr>\<rparr>)))) s1 = (Inr b, s')"
    by (auto simp only: mc_loop.simps bind_io_Inr prod.case split_paired_Ex)
  show ?case
  proof (cases "mc_verify ex anchor n encoded")
    case (Inl e)
    with rest show ?thesis by (auto simp: bind_io_Inr split: if_splits dest: Suc.IH)
  next
    case (Inr decoded)
    let ?body = "mc_body calls decoded"
    from rest Inr obtain esc s2 h d where
      esc: "map_io (mc_escalate single) (zip calls ?body) s1 = (Inr esc, s2)"
      and h: "normalize_hash (JStr (block_hash anchor)) = Inr h" and d: "digest_raw_results (map fst esc) = Inr d"
      and b: "vb_results b = map fst esc" "ve_anchor_hash (vb_evidence b) = h"
        "ve_result_digest (vb_evidence b) = d" "ve_verified (vb_evidence b)"
      by (auto simp: bind_io_Inr)
    have keys: "map rr_key ?body = map cc_key calls"
      using mc_body_keys mc_verify_Inr [OF Inr] assms(2) by blast
    have "list_all2 (\<lambda>cr e. rr_key (fst e) = cc_key (fst cr) \<and> sandwiched ex anchor (fst e)) (zip calls ?body) esc"
    proof (rule map_io_all [OF esc])
      fix cr s e s'' assume cr: "cr \<in> set (zip calls ?body)" and e: "mc_escalate single cr s = (Inr e, s'')"
      obtain c r where c: "cr = (c, r)" by (cases cr)
      from cr c have "rr_key r = cc_key c"
        using keys by (auto simp: set_zip) (metis nth_map)
      moreover have "sandwiched ex anchor r"
        using mc_body_sandwiched [OF Inr] cr c by (auto dest: set_zip_rightD)
      ultimately show "rr_key (fst e) = cc_key (fst cr) \<and> sandwiched ex anchor (fst e)"
        using mc_escalate_ok [of single c r s "fst e" "snd e"] e c single by simp
    qed
    note esc_ok = this
    have "map (rr_key \<circ> fst) esc = map (cc_key \<circ> fst) (zip calls ?body)"
      by (rule list_all2_map_eq) (use esc_ok in \<open>auto elim: list_all2_mono\<close>)
    moreover have "list_all (sandwiched ex anchor \<circ> fst) esc"
      by (rule list_all2_right [OF esc_ok]) simp
    moreover have "map (cc_key \<circ> fst) (zip calls ?body) = map cc_key calls"
      using keys by (metis length_map map_fst_zip map_map)
    ultimately show ?thesis using b h d
      by (simp add: mc_ok_def batch_ok_def evidence_ok_def list_all_iff)
  qed
qed simp

lemma mc_once_with_ok:
  assumes "mc_once_with env cfg ex mc single anchor calls s = (Inr b, s')"
    and "\<And>run c s b s'. single = Some run \<Longrightarrow> run c s = (Inr b, s') \<Longrightarrow> mc_ok ex anchor [c] b"
  shows "mc_ok ex anchor calls b"
proof -
  from assms(1) obtain head tail calldata s1 where
    h: "sentinels mc ''head'' anchor = Inr head" and t: "sentinels mc ''tail'' anchor = Inr tail"
    and run: "mc_loop env cfg ex mc single calls (length (head @ calls @ tail)) calldata anchor 0
      (cc_max_retries cfg) [] s1 = (Inr b, s')"
    by (auto simp: mc_once_with_def io_simps Let_def)
  have "length (head @ calls @ tail) = length calls + 6"
    using h t by (auto simp: sentinels_def res_simps)
  from mc_loop_ok [OF run this assms(2)] show ?thesis .
qed

lemma mc_once_ok: "mc_once env cfg ex mc anchor calls s = (Inr b, s') \<Longrightarrow> mc_ok ex anchor calls b"
  unfolding mc_once_def by (erule mc_once_with_ok) (auto intro: mc_once_with_ok)

lemma mc_execute_parts:
  assumes "mc_execute env cfg ex mc calls anchor s = (Inr bs, s')"
  shows "mc_deployment_block mc \<le> number anchor \<and> number anchor \<noteq> 0
    \<and> (\<exists>parts. concat parts = calls \<and> list_all2 (mc_ok ex anchor) parts bs)"
proof -
  from assms obtain outs s2 where n: "1 \<le> mc_batch_size mc"
    and g: "mc_deployment_block mc \<le> number anchor" "number anchor \<noteq> 0"
    and run: "map_io (adaptive mc_on_error (mc_once env cfg ex mc anchor))
      (chunks (nat (mc_batch_size mc)) calls) s = (Inr outs, s2)" and bs: "bs = concat outs"
    by (auto simp: mc_execute_def io_simps chunked_Inr split: if_splits)
  from adaptive_groups_parts [OF run mc_once_ok] n bs g show ?thesis by simp
qed

lemma mc_execute_ok:
  assumes "mc_execute env cfg ex mc calls anchor s = (Inr bs, s')"
  shows "map rr_key (results_of bs) = map cc_key calls \<and> list_all (evidence_ok anchor) bs"
proof -
  from mc_execute_parts [OF assms] obtain parts where p: "concat parts = calls"
    "list_all2 (mc_ok ex anchor) parts bs" by blast
  then have "list_all2 (batch_ok anchor) parts bs"
    by (auto simp: mc_ok_def elim: list_all2_mono)
  with p batches_ok show ?thesis by blast
qed

interpretation mcx: executor "mc_execute env cfg ex mc" for env :: "'w env" and cfg ex mc
  by unfold_locales (auto dest: mc_execute_ok)

text \<open>The router of the two executors satisfies the same contract.\<close>

interpretation rtx: executor
  "router_execute n (mc_execute env cfg ex mc) (legacy_execute env cfg lc)"
  for n and env :: "'w env" and cfg ex mc lc
  by (rule router_executor) (rule mcx.executor_axioms, rule leg.executor_axioms)

subsection \<open>Properties\<close>

text \<open>An ABI codec that decodes every return to one result between the sentinels of block 1.\<close>

definition sample_triple :: "(bool \<times> bytes) list" where
  "sample_triple = [(True, to_bytes 32 1), (True, to_bytes 32 86400), (True, replicate 31 0 @ [0x0a])]"

definition sample_ext :: ext where
  "sample_ext = \<lparr>ext_keccak = sha256, ext_abi_encode = (\<lambda>_. Inr []),
     ext_abi_decode = (\<lambda>_. Inr (sample_triple @ [(True, [7])] @ sample_triple))\<rparr>"

definition sample_mc :: multicall_config where
  "sample_mc = \<lparr>mc_address = ''0xca11'', mc_deployment_block = 1, mc_batch_size = 5,
     mc_max_parallel_batches = 1\<rparr>"

definition sample_cfg :: client_config where
  "sample_cfg = \<lparr>cc_max_retries = 1, cc_retry_base_seconds = 1\<rparr>"

lemma sample_context: "block_context (sample_block 1) sample_triple"
proof -
  have "''0x'' @ bytes_hex (replicate 31 0 @ [0x0a]) = ''0x'' @ replicate 63 (CHR ''0'') @ ''a''"
    by code_simp
  then have p: "''0x'' @ bytes_hex (replicate 31 0 @ [0x0a]) = sample_hash 0"
    by (simp add: sample_hash_def)
  have "from_bytes (to_bytes 32 1) = 1" "from_bytes (to_bytes 32 86400) = 86400"
    by (rule from_to_bytes_id; simp)+
  moreover have "str_lower (parent_hash (sample_block 1)) = sample_hash 0"
    "HASH_RE (parent_hash (sample_block 1))"
    using sample_hash_ok [of 0] by (simp_all add: sample_block_def)
  moreover have "number (sample_block 1) = 1" "timestamp (sample_block 1) = 86400"
    by (simp_all add: sample_block_def)
  ultimately show ?thesis unfolding block_context_def sample_triple_def using p
    by (metis length_append length_replicate length_to_bytes One_nat_def list.size(3) list.size(4)
        add.commute Suc_eq_plus1 numeral_plus_one semiring_norm(2,4,5,8))
qed

lemma sample_mc_verify: "mc_verify sample_ext (sample_block 1) 7 ''0x01''
    = Inr (sample_triple @ [(True, [7])] @ sample_triple)"
proof -
  have v: "verify_sentinels sample_triple (sample_block 1) pos = Inr ()" for pos
    using sample_context verify_sentinels_Inr by simp
  have l: "length sample_triple = 3" by (simp add: sample_triple_def)
  show ?thesis
    using v l by (simp add: mc_verify_def hex_one decode_aggregate3_def sample_ext_def)
qed

lemma sample_mc_attempt:
  "\<exists>s'. mc_attempt hex_env sample_mc (hd (st_endpoints single_state)) calldata (sample_block 1) reference
     single_state = (Inr ''0x01'', s')"
  by (simp add: mc_attempt_def single_state_def sample_endpoint_def call_on_endpoint_def next_id_def
      post_def throttle_def now_def hex_env_def bind_io_def update_endpoint_def endpoint_named_def Let_def
      request_payload_def obj_get_def obj_has_def obj_fields_def read_response_def read_body_def
      json_eq_int_def)

lemma sample_mc_eth_call:
  "\<exists>s'. mc_eth_call hex_env sample_cfg sample_mc calldata (sample_block 1) 0 (Suc 0) [] None single_state
     = (Inr (''0x01'', hd (st_endpoints single_state), ''eip1898''), s')"
proof -
  let ?ep = "hd (st_endpoints single_state)"
  have ep: "ep_supports_eip1898 ?ep" by (simp add: single_state_def sample_endpoint_def)
  have "select hex_env (Some (number (sample_block 1))) True [] single_state = (Inr ?ep, single_state)"
    by (simp add: select_def single_state_def sample_endpoint_def can_serve_def can_serve_block_def
        sample_block_def Let_def)
  then have pick: "mc_pick hex_env (sample_block 1) [] None single_state = (Inr ?ep, single_state)"
    by (simp add: mc_pick_def mc_select_def catch_io_def)
  obtain j where "block_reference (sample_block 1) True = Inr j"
    by (simp add: block_reference_def eip1898_reference_def sample_block_hash)
  with pick ep sample_mc_attempt [of calldata j] show ?thesis
    by (auto simp: bind_io_def record_success_def update_endpoint_def)
qed

lemma sample_mc_once:
  "\<exists>b s'. mc_once hex_env sample_cfg sample_ext sample_mc (sample_block 1) [sample_call_of ''k''] single_state
     = (Inr b, s')"
proof -
  have cd: "\<exists>w. get_block_hash_calldata (number (sample_block 1) - 1) = Inr w"
    by (simp add: get_block_hash_calldata_def uint256_word_def sample_block_def)
  then obtain hd_s tl_s where st: "sentinels sample_mc ''head'' (sample_block 1) = Inr hd_s" "length hd_s = 3"
    "sentinels sample_mc ''tail'' (sample_block 1) = Inr tl_s" "length tl_s = 3"
    by (auto simp: sentinels_def)
  have body: "mc_body [sample_call_of ''k''] (sample_triple @ [(True, [7])] @ sample_triple)
      = [ok_result ''k'' [7]]"
    by (simp add: mc_body_def sample_triple_def ok_result_def sample_call_of_def)
  have "\<exists>d. digest_raw_results [ok_result ''k'' [7]] = Inr d"
    by (simp add: digest_raw_results_Inr fields_ok_def digest_fields_def ok_result_def result_code_def
        result_message_def)
  moreover obtain s1 where "mc_eth_call hex_env sample_cfg sample_mc AGGREGATE3_SELECTOR (sample_block 1) 0
      (Suc 0) [] None single_state = (Inr (''0x01'', hd (st_endpoints single_state), ''eip1898''), s1)"
    using sample_mc_eth_call by blast
  moreover have "rr_success (ok_result ''k'' [7])" by (simp add: ok_result_def)
  moreover have "encode_aggregate3 sample_ext cs = Inr AGGREGATE3_SELECTOR" for cs
    by (simp add: encode_aggregate3_def sample_ext_def)
  moreover have "cc_max_retries sample_cfg = Suc 0" by (simp add: sample_cfg_def)
  ultimately show ?thesis
    using st sample_mc_verify body
    by (auto simp: mc_once_def mc_once_with_def bind_io_def Let_def mc_escalate_def sample_block_hash
        simp del: mc_eth_call.simps)
qed

text \<open>
  C4: no Multicall result is accepted from another block's state. When \<open>execute\<close>
  returns, the anchor is at or after the Multicall deployment; the batches answer the calls in
  order with evidence for this anchor; and every single result, escalated ones included, was
  decoded from an \<open>aggregate3\<close> return in which both sentinel triples before and after it report
  the anchor's number, timestamp and parent hash.
\<close>

theorem multicall_sandwiched:
  assumes "mc_execute env cfg ex mc calls anchor s = (Inr bs, s')"
  shows "mc_deployment_block mc \<le> number anchor \<and> number anchor \<noteq> 0
    \<and> (\<exists>parts. concat parts = calls \<and> list_all2 (batch_ok anchor) parts bs)
    \<and> (\<forall>r \<in> set (results_of bs). sandwiched ex anchor r)"
proof -
  from mc_execute_parts [OF assms] obtain parts where g: "mc_deployment_block mc \<le> number anchor"
    "number anchor \<noteq> 0" and p: "concat parts = calls" "list_all2 (mc_ok ex anchor) parts bs" by blast
  have "list_all2 (batch_ok anchor) parts bs" using p(2) by (auto simp: mc_ok_def elim: list_all2_mono)
  moreover have "list_all (\<lambda>b. list_all (sandwiched ex anchor) (vb_results b)) bs"
    by (rule list_all2_right [OF p(2)]) (simp add: mc_ok_def)
  ultimately show ?thesis using g p(1) by (auto simp: results_of_def list_all_iff)
qed

theorem multicall_sandwiched_witness:
  "\<exists>bs s'. mc_execute hex_env sample_cfg sample_ext sample_mc [sample_call_of ''k''] (sample_block 1)
       single_state = (Inr bs, s')
     \<and> (\<forall>r \<in> set (results_of bs). sandwiched sample_ext (sample_block 1) r)"
proof -
  obtain b s1 where "mc_once hex_env sample_cfg sample_ext sample_mc (sample_block 1) [sample_call_of ''k'']
      single_state = (Inr b, s1)" using sample_mc_once by blast
  then have "adaptive mc_on_error (mc_once hex_env sample_cfg sample_ext sample_mc (sample_block 1))
      [sample_call_of ''k''] single_state = (Inr [b], s1)"
    by (simp add: adaptive.simps)
  then have run: "mc_execute hex_env sample_cfg sample_ext sample_mc [sample_call_of ''k''] (sample_block 1)
      single_state = (Inr [b], s1)"
    by (simp add: mc_execute_def chunked_def chunks.simps bind_io_def sample_mc_def sample_block_def)
  from multicall_sandwiched [OF this] run show ?thesis by blast
qed

end
