(* ===== verification/Digests.thy ===== *)
theory Digests
  imports Execution
begin

text \<open>
  The canonical digests of the publication protocol (\<open>storage/digests.py\<close>): a frozen universe,
  token observations, pool balances and concentrated-liquidity state are each sorted, encoded
  field by field and hashed with SHA-256. A published digest is compared with the digest of
  the rows read back, so the lemmas show both halves of what that comparison needs: the hashed
  bytes do not depend on the order of the rows, and they determine the rows.

  The rows of this file are the dataclasses of \<open>storage/digests.py\<close>. Their integer fields are
  HOL integers, so the \<open>TypeError\<close> branches for values that are not integers do not arise.
\<close>

record balance_digest_row =
  bd_holder_address :: string
  bd_balance_raw :: int
  bd_scaled_balance_raw :: "int option"
  bd_value_kind :: string

record scalar_digest_row =
  sd_scalar_name :: string
  sd_scalar_raw :: int

record pool_balance_digest_row =
  pd_pool_address :: string
  pd_token_address :: string
  pd_balance_raw :: int

record pool_cl_state_digest_row =
  cd_pool_address :: string
  cd_sqrt_price_x96 :: int
  cd_current_tick :: int
  cd_liquidity :: int
  cd_fee_growth_global_0_x128 :: int
  cd_fee_growth_global_1_x128 :: int
  cd_tick_spacing :: int
  cd_fee :: int
  cd_tick_count :: int

record pool_tick_digest_row =
  td_pool_address :: string
  td_tick :: int
  td_liquidity_gross :: int
  td_liquidity_net :: int
  td_fee_growth_outside_0_x128 :: int
  td_fee_growth_outside_1_x128 :: int

definition UINT256_MAX :: int where
  "UINT256_MAX = 2 ^ 256 - 1"

definition address_bytes :: "string \<Rightarrow> bytes res" where
  "address_bytes v =
     (if \<not> LOWER_ADDRESS_RE v
      then raise_res ValueError (''address must be normalized lowercase 0x hex: '' @ repr_str v)
      else fromhex_res (drop 2 v))"

definition uint256_bytes :: "int \<Rightarrow> bytes res" where
  "uint256_bytes v =
     (if \<not> (0 \<le> v \<and> v \<le> UINT256_MAX) then raise_res ValueError ''value is outside UInt256''
      else Inr (to_bytes 32 v))"

definition int256_bytes :: "int \<Rightarrow> bytes res" where
  "int256_bytes v =
     (if \<not> (- (2 ^ 255) \<le> v \<and> v \<le> 2 ^ 255 - 1)
      then raise_res ValueError ''value is outside Int256''
      else Inr (to_bytes 32 (v mod 2 ^ 256)))"

definition text_bytes :: "string \<Rightarrow> bytes res" where
  "text_bytes v =
     (if length (utf8 v) > 0xFFFFFFFF then raise_res ValueError ''digest text field is too large''
      else Inr (to_bytes 4 (int (length (utf8 v))) @ utf8 v))"

text \<open>\<open>sorted(rows, key=...)\<close> with a key that may raise: the keys are computed first, in order.\<close>

definition sorted_by :: "('a \<Rightarrow> 'k :: linorder res) \<Rightarrow> 'a list \<Rightarrow> 'a list res" where
  "sorted_by key rows = bind_res (map_res key rows) (\<lambda>ks. Inr (map snd (sort_key fst (zip ks rows))))"

text \<open>A sequence of digest updates that may raise: the first error wins, the bytes are joined.\<close>

definition updates :: "bytes res list \<Rightarrow> bytes res" where
  "updates parts = bind_res (map_res id parts) (\<lambda>bs. Inr (concat bs))"

definition header_bytes :: "string \<Rightarrow> bytes" where
  "header_bytes title = utf8 title @ [0]"

subsection \<open>The frozen universe\<close>

fun canonical_members ::
  "string list \<Rightarrow> (string \<times> string list) list \<Rightarrow> (bytes \<times> string list) list res" where
  "canonical_members seen [] = Inr []"
| "canonical_members seen ((address, sources) # rest) =
     (if address \<in> set seen then raise_res ValueError (''duplicate universe member: '' @ address)
      else bind_res (address_bytes address) (\<lambda>a.
           bind_res (canonical_members (address # seen) rest) (\<lambda>ms.
             Inr ((a, sort (remdups sources)) # ms))))"

definition member_bytes :: "bytes \<times> string list \<Rightarrow> bytes res" where
  "member_bytes = (\<lambda>(address, sources).
     updates ([Inr [0x55], Inr address, to_bytes_res 4 (int (length sources))] @ map text_bytes sources))"

definition universe_preimage :: "(string \<times> string list) list \<Rightarrow> bytes res" where
  "universe_preimage members =
     bind_res (canonical_members [] members) (\<lambda>canonical.
     bind_res (map_res member_bytes (sort_key fst canonical)) (\<lambda>parts.
       Inr (header_bytes ''rpc-state-indexer/universe/v1'' @ concat parts)))"

definition digest_universe :: "(string \<times> string list) list \<Rightarrow> string res" where
  "digest_universe members = bind_res (universe_preimage members) (\<lambda>p. Inr (sha256_hex p))"

subsection \<open>Token observations\<close>

definition balance_key :: "balance_digest_row \<Rightarrow> (bytes \<times> string \<times> int \<times> int) res" where
  "balance_key row =
     bind_res (address_bytes (bd_holder_address row)) (\<lambda>a.
       Inr (a, bd_value_kind row, bd_balance_raw row,
            (case bd_scaled_balance_raw row of None \<Rightarrow> -1 | Some v \<Rightarrow> v)))"

definition balance_row_bytes :: "balance_digest_row \<Rightarrow> bytes res" where
  "balance_row_bytes row =
     updates ([Inr [0x42], address_bytes (bd_holder_address row), text_bytes (bd_value_kind row),
               uint256_bytes (bd_balance_raw row)]
              @ (case bd_scaled_balance_raw row of
                   None \<Rightarrow> [Inr [0]] | Some v \<Rightarrow> [Inr [1], uint256_bytes v]))"

definition scalar_row_bytes :: "scalar_digest_row \<Rightarrow> bytes res" where
  "scalar_row_bytes row =
     updates [Inr [0x53], text_bytes (sd_scalar_name row), uint256_bytes (sd_scalar_raw row)]"

definition token_preimage ::
  "balance_digest_row list \<Rightarrow> scalar_digest_row list \<Rightarrow> bytes res" where
  "token_preimage balances scalars =
     bind_res (sorted_by balance_key balances) (\<lambda>balance_rows.
     bind_res (sorted_by (\<lambda>row. Inr (sd_scalar_name row, sd_scalar_raw row)) scalars) (\<lambda>scalar_rows.
     bind_res (map_res balance_row_bytes balance_rows) (\<lambda>bs.
     bind_res (map_res scalar_row_bytes scalar_rows) (\<lambda>ss.
       Inr (header_bytes ''rpc-state-indexer/token-observations/v1'' @ concat bs @ concat ss)))))"

definition digest_token_observations ::
  "balance_digest_row list \<Rightarrow> scalar_digest_row list \<Rightarrow> string res" where
  "digest_token_observations balances scalars =
     bind_res (token_preimage balances scalars) (\<lambda>p. Inr (sha256_hex p))"

subsection \<open>Pool balances\<close>

definition pool_key :: "pool_balance_digest_row \<Rightarrow> (bytes \<times> bytes \<times> int) res" where
  "pool_key row =
     bind_res (address_bytes (pd_pool_address row)) (\<lambda>p.
     bind_res (address_bytes (pd_token_address row)) (\<lambda>t. Inr (p, t, pd_balance_raw row)))"

definition pool_row_bytes :: "pool_balance_digest_row \<Rightarrow> bytes res" where
  "pool_row_bytes row =
     updates [Inr [0x50], address_bytes (pd_pool_address row), address_bytes (pd_token_address row),
              uint256_bytes (pd_balance_raw row)]"

definition pool_preimage :: "pool_balance_digest_row list \<Rightarrow> bytes res" where
  "pool_preimage rows =
     bind_res (sorted_by pool_key rows) (\<lambda>canonical.
     bind_res (map_res pool_row_bytes canonical) (\<lambda>parts.
       Inr (header_bytes ''rpc-state-indexer/pool-observations/v1'' @ concat parts)))"

definition digest_pool_observations :: "pool_balance_digest_row list \<Rightarrow> string res" where
  "digest_pool_observations rows = bind_res (pool_preimage rows) (\<lambda>p. Inr (sha256_hex p))"

subsection \<open>Concentrated-liquidity state and ticks\<close>

definition cl_state_bytes :: "pool_cl_state_digest_row \<Rightarrow> bytes res" where
  "cl_state_bytes state =
     updates [Inr [0x43], address_bytes (cd_pool_address state), uint256_bytes (cd_sqrt_price_x96 state),
              int256_bytes (cd_current_tick state), uint256_bytes (cd_liquidity state),
              uint256_bytes (cd_fee_growth_global_0_x128 state),
              uint256_bytes (cd_fee_growth_global_1_x128 state), int256_bytes (cd_tick_spacing state),
              uint256_bytes (cd_fee state), uint256_bytes (cd_tick_count state)]"

definition tick_row_bytes :: "string \<Rightarrow> pool_tick_digest_row \<Rightarrow> bytes res" where
  "tick_row_bytes pool row =
     (if td_pool_address row \<noteq> pool
      then raise_res ValueError ''tick row pool address does not match the state row''
      else updates [Inr [0x54], int256_bytes (td_tick row), uint256_bytes (td_liquidity_gross row),
                    int256_bytes (td_liquidity_net row), uint256_bytes (td_fee_growth_outside_0_x128 row),
                    uint256_bytes (td_fee_growth_outside_1_x128 row)])"

definition cl_preimage :: "pool_cl_state_digest_row \<Rightarrow> pool_tick_digest_row list \<Rightarrow> bytes res" where
  "cl_preimage state ticks =
     bind_res (cl_state_bytes state) (\<lambda>s.
     bind_res (map_res (tick_row_bytes (cd_pool_address state)) (sort_key td_tick ticks)) (\<lambda>ts.
       Inr (header_bytes ''rpc-state-indexer/cl-observations/v1'' @ s @ concat ts)))"

definition digest_cl_observations ::
  "pool_cl_state_digest_row \<Rightarrow> pool_tick_digest_row list \<Rightarrow> string res" where
  "digest_cl_observations state ticks = bind_res (cl_preimage state ticks) (\<lambda>p. Inr (sha256_hex p))"

subsection \<open>Field encoders\<close>

definition adr :: "string \<Rightarrow> bytes" where
  "adr a = the (fromhex (drop 2 a))"

definition is_u256 :: "int \<Rightarrow> bool" where
  "is_u256 v \<longleftrightarrow> 0 \<le> v \<and> v < 256 ^ 32"

definition is_i256 :: "int \<Rightarrow> bool" where
  "is_i256 v \<longleftrightarrow> - (2 ^ 255) \<le> v \<and> v < 2 ^ 255"

definition text_ok :: "string \<Rightarrow> bool" where
  "text_ok v \<longleftrightarrow> int (length (utf8 v)) < 256 ^ 4"

lemma fromhex_address: "LOWER_ADDRESS_RE a \<Longrightarrow> fromhex (drop 2 a) = Some (adr a) \<and> length (adr a) = 20"
  using fromhex_all_hex [of "drop 2 a"] by (auto simp: LOWER_ADDRESS_RE_def adr_def)

lemma address_bytes_Inr [res_simps]: "address_bytes a = Inr b \<longleftrightarrow> LOWER_ADDRESS_RE a \<and> b = adr a"
  using fromhex_address [of a] by (auto simp: address_bytes_def fromhex_res_def)

lemma adr_inject: "LOWER_ADDRESS_RE a \<Longrightarrow> LOWER_ADDRESS_RE b \<Longrightarrow> adr a = adr b \<Longrightarrow> a = b"
  using bytes_hex_fromhex [of "drop 2 a" "adr a"] bytes_hex_fromhex [of "drop 2 b" "adr b"]
    fromhex_address [of a] fromhex_address [of b]
  by (metis LOWER_ADDRESS_RE_def append_take_drop_id)

lemma uint256_bytes_Inr [res_simps]: "uint256_bytes v = Inr b \<longleftrightarrow> is_u256 v \<and> b = to_bytes 32 v"
  by (auto simp: uint256_bytes_def is_u256_def UINT256_MAX_def)

lemma int256_bytes_Inr [res_simps]:
  "int256_bytes v = Inr b \<longleftrightarrow> is_i256 v \<and> b = to_bytes 32 (v mod 2 ^ 256)"
  by (auto simp: int256_bytes_def is_i256_def)

lemma text_bytes_Inr [res_simps]: "text_bytes v = Inr b \<longleftrightarrow> text_ok v \<and> b = length_prefixed 4 (utf8 v)"
  by (auto simp: text_bytes_def text_ok_def length_prefixed_def)

lemma to_bytes_res_Inr [res_simps]: "to_bytes_res w v = Inr b \<longleftrightarrow> 0 \<le> v \<and> v < 256 ^ w \<and> b = to_bytes w v"
  by (auto simp: to_bytes_res_def)

lemma updates_simps [simp]:
  "updates [] = Inr []"
  "updates (p # ps) = bind_res p (\<lambda>b. bind_res (updates ps) (\<lambda>c. Inr (b @ c)))"
  by (auto simp: updates_def bind_res_def split: sum.splits)

lemma sd_address: "self_delimiting LOWER_ADDRESS_RE adr"
  by (rule self_delimiting_fixed [where n = 20]) (auto simp: fromhex_address adr_inject)

lemma sd_u256: "self_delimiting is_u256 (to_bytes 32)"
  by (rule self_delimiting_fixed [where n = 32]) (auto simp: is_u256_def to_bytes_eq_iff)

lemma sd_i256: "self_delimiting is_i256 (\<lambda>v. to_bytes 32 (v mod 2 ^ 256))"
proof (rule self_delimiting_fixed [where n = 32])
  fix x y assume b: "is_i256 x" "is_i256 y" and "to_bytes 32 (x mod 2 ^ 256) = to_bytes 32 (y mod 2 ^ 256)"
  then have "x mod 2 ^ 256 = y mod 2 ^ 256" by (subst (asm) to_bytes_eq_iff) auto
  then show "x = y" by (rule mod_window_inject [where a = "- (2 ^ 255)"]) (use b in \<open>simp_all add: is_i256_def\<close>)
qed simp

lemma sd_text: "self_delimiting text_ok (\<lambda>v. length_prefixed 4 (utf8 v))"
  using self_delimiting_utf8 [of 4] by (simp add: text_ok_def [abs_def])

lemmas sd_fields = self_delimiting_pair sd_address sd_u256 sd_i256 sd_text self_delimiting_option

subsection \<open>Row encoders\<close>

definition bal_ok :: "balance_digest_row \<Rightarrow> bool" where
  "bal_ok r \<longleftrightarrow> LOWER_ADDRESS_RE (bd_holder_address r) \<and> text_ok (bd_value_kind r)
     \<and> is_u256 (bd_balance_raw r) \<and> (case bd_scaled_balance_raw r of None \<Rightarrow> True | Some v \<Rightarrow> is_u256 v)"

definition bal_body :: "balance_digest_row \<Rightarrow> bytes" where
  "bal_body r = adr (bd_holder_address r) @ length_prefixed 4 (utf8 (bd_value_kind r))
     @ to_bytes 32 (bd_balance_raw r)
     @ (case bd_scaled_balance_raw r of None \<Rightarrow> [0] | Some v \<Rightarrow> 1 # to_bytes 32 v)"

definition bal_key :: "balance_digest_row \<Rightarrow> bytes \<times> string \<times> int \<times> int" where
  "bal_key r = (adr (bd_holder_address r), bd_value_kind r, bd_balance_raw r,
     (case bd_scaled_balance_raw r of None \<Rightarrow> -1 | Some v \<Rightarrow> v))"

definition scal_ok :: "scalar_digest_row \<Rightarrow> bool" where
  "scal_ok r \<longleftrightarrow> text_ok (sd_scalar_name r) \<and> is_u256 (sd_scalar_raw r)"

definition scal_body :: "scalar_digest_row \<Rightarrow> bytes" where
  "scal_body r = length_prefixed 4 (utf8 (sd_scalar_name r)) @ to_bytes 32 (sd_scalar_raw r)"

definition prow_ok :: "pool_balance_digest_row \<Rightarrow> bool" where
  "prow_ok r \<longleftrightarrow> LOWER_ADDRESS_RE (pd_pool_address r) \<and> LOWER_ADDRESS_RE (pd_token_address r)
     \<and> is_u256 (pd_balance_raw r)"

definition prow_enc :: "pool_balance_digest_row \<Rightarrow> bytes" where
  "prow_enc r = 0x50 # adr (pd_pool_address r) @ adr (pd_token_address r) @ to_bytes 32 (pd_balance_raw r)"

definition prow_key :: "pool_balance_digest_row \<Rightarrow> bytes \<times> bytes \<times> int" where
  "prow_key r = (adr (pd_pool_address r), adr (pd_token_address r), pd_balance_raw r)"

lemma balance_row_bytes_Inr [res_simps]: "balance_row_bytes r = Inr b \<longleftrightarrow> bal_ok r \<and> b = 0x42 # bal_body r"
  by (auto simp: balance_row_bytes_def bal_ok_def bal_body_def res_simps split: option.splits)

lemma scalar_row_bytes_Inr [res_simps]: "scalar_row_bytes r = Inr b \<longleftrightarrow> scal_ok r \<and> b = 0x53 # scal_body r"
  by (auto simp: scalar_row_bytes_def scal_ok_def scal_body_def res_simps)

lemma pool_row_bytes_Inr [res_simps]: "pool_row_bytes r = Inr b \<longleftrightarrow> prow_ok r \<and> b = prow_enc r"
  by (auto simp: pool_row_bytes_def prow_ok_def prow_enc_def res_simps)

lemma sd_balance: "self_delimiting bal_ok bal_body"
proof (rule self_delimiting_image)
  show "self_delimiting
      (\<lambda>(a, k, v, s). LOWER_ADDRESS_RE a \<and> text_ok k \<and> is_u256 v \<and> (case s of None \<Rightarrow> True | Some w \<Rightarrow> is_u256 w))
      (\<lambda>(a, k, v, s). adr a @ length_prefixed 4 (utf8 k) @ to_bytes 32 v
         @ (case s of None \<Rightarrow> [0] | Some w \<Rightarrow> 1 # to_bytes 32 w))"
    using self_delimiting_pair [OF sd_address self_delimiting_pair [OF sd_text self_delimiting_pair
        [OF sd_u256 self_delimiting_option [OF sd_u256, of 0 1]]]]
    by (simp add: case_prod_beta')
qed (auto simp: bal_ok_def bal_body_def intro!: balance_digest_row.equality)

lemma sd_scalar: "self_delimiting scal_ok scal_body"
proof (rule self_delimiting_image)
  show "self_delimiting (\<lambda>(n, v). text_ok n \<and> is_u256 v)
      (\<lambda>(n, v). length_prefixed 4 (utf8 n) @ to_bytes 32 v)"
    by (rule self_delimiting_pair [OF sd_text sd_u256])
qed (auto simp: scal_ok_def scal_body_def intro!: scalar_digest_row.equality)

lemma sd_pool: "self_delimiting prow_ok prow_enc"
proof -
  have "self_delimiting prow_ok
      (\<lambda>r. adr (pd_pool_address r) @ adr (pd_token_address r) @ to_bytes 32 (pd_balance_raw r))"
  proof (rule self_delimiting_image [where h = "\<lambda>r. (pd_pool_address r, pd_token_address r, pd_balance_raw r)"])
    show "self_delimiting (\<lambda>(p, t, v). LOWER_ADDRESS_RE p \<and> LOWER_ADDRESS_RE t \<and> is_u256 v)
        (\<lambda>(p, t, v). adr p @ adr t @ to_bytes 32 v)"
      using self_delimiting_pair [OF sd_address self_delimiting_pair [OF sd_address sd_u256]]
      by (simp add: case_prod_beta')
  qed (auto simp: prow_ok_def intro!: pool_balance_digest_row.equality)
  then show ?thesis unfolding prow_enc_def [abs_def] by (rule self_delimiting_tag)
qed

interpretation bal: canonical_code bal_ok "\<lambda>r. 0x42 # bal_body r" bal_key
proof unfold_locales
  show "self_delimiting bal_ok (\<lambda>r. 0x42 # bal_body r)" by (rule self_delimiting_tag [OF sd_balance])
  fix x y assume ok: "bal_ok x" "bal_ok y" and key: "bal_key x = bal_key y"
  then have "bd_scaled_balance_raw x = bd_scaled_balance_raw y"
    by (auto simp: bal_key_def bal_ok_def is_u256_def split: option.splits)
  with ok key show "x = y"
    by (auto simp: bal_key_def bal_ok_def dest: adr_inject intro!: balance_digest_row.equality)
qed simp

interpretation sca: canonical_code scal_ok "\<lambda>r. 0x53 # scal_body r" "\<lambda>r. (sd_scalar_name r, sd_scalar_raw r)"
  by unfold_locales (auto intro: self_delimiting_tag [OF sd_scalar] scalar_digest_row.equality)

interpretation prow: canonical_code prow_ok prow_enc prow_key
  by unfold_locales (auto simp: sd_pool prow_enc_def prow_key_def prow_ok_def dest: adr_inject
      intro!: pool_balance_digest_row.equality)

text \<open>A token preimage is a list of tagged balance and scalar rows.\<close>

interpretation tok: prefix_code "case_sum bal_ok scal_ok"
    "case_sum (\<lambda>r. 0x42 # bal_body r) (\<lambda>r. 0x53 # scal_body r)"
  by unfold_locales (auto intro!: self_delimiting_sum sd_balance sd_scalar split: sum.splits)

subsection \<open>What the digests commit to\<close>

lemma insort_key_map: "insort_key h (g x) (map g xs) = map g (insort_key (\<lambda>y. h (g y)) x xs)"
  by (induction xs) auto

lemma sort_key_map: "sort_key h (map g xs) = map g (sort_key (\<lambda>y. h (g y)) xs)"
  by (induction xs) (auto simp: insort_key_map)

lemma sorted_by_Inr:
  assumes "\<And>r k. key r = Inr k \<longleftrightarrow> P r \<and> k = f r"
  shows "sorted_by key rows = Inr out \<longleftrightarrow> list_all P rows \<and> out = sort_key f rows"
proof -
  have "map_res key rows = Inr ks \<longleftrightarrow> list_all P rows \<and> ks = map f rows" for ks
    by (induction rows arbitrary: ks) (auto simp: bind_res_Inr assms)
  moreover have "map snd (sort_key fst (zip (map f rows) rows)) = sort_key f rows"
    by (simp add: zip_map1 zip_same_conv_map sort_key_map comp_def)
  ultimately show ?thesis by (auto simp: sorted_by_def bind_res_Inr)
qed

lemma sorted_by_total: "sorted_by (\<lambda>r. Inr (f r)) rows = Inr (sort_key f rows)"
proof -
  have "sorted_by (\<lambda>r. Inr (f r)) rows = Inr out \<longleftrightarrow> list_all (\<lambda>_. True) rows \<and> out = sort_key f rows" for out
    by (rule sorted_by_Inr) auto
  then show ?thesis by (simp add: list_all_iff)
qed

lemma map_res_rows:
  assumes "\<And>r b. enc r = Inr b \<longleftrightarrow> P r \<and> b = f r"
  shows "map_res enc rows = Inr bs \<longleftrightarrow> list_all P rows \<and> bs = map f rows"
  by (induction rows arbitrary: bs) (auto simp: bind_res_Inr assms)

lemma list_all_sort_key [simp]: "list_all P (sort_key f xs) = list_all P xs"
  by (simp add: list_all_iff)

lemma balance_key_Inr: "balance_key r = Inr k \<longleftrightarrow> LOWER_ADDRESS_RE (bd_holder_address r) \<and> k = bal_key r"
  by (auto simp: balance_key_def bal_key_def res_simps)

lemma pool_key_Inr:
  "pool_key r = Inr k \<longleftrightarrow>
     (LOWER_ADDRESS_RE (pd_pool_address r) \<and> LOWER_ADDRESS_RE (pd_token_address r)) \<and> k = prow_key r"
  by (auto simp: pool_key_def prow_key_def res_simps)

lemma list_all_imp: "list_all P xs \<Longrightarrow> (\<And>x. P x \<Longrightarrow> Q x) \<Longrightarrow> list_all Q xs"
  by (simp add: list_all_iff)

lemma bal_ok_address: "list_all bal_ok rs \<Longrightarrow> list_all (\<lambda>r. LOWER_ADDRESS_RE (bd_holder_address r)) rs"
  by (erule list_all_imp) (simp add: bal_ok_def)

lemma prow_ok_address:
  "list_all prow_ok rs \<Longrightarrow>
     list_all (\<lambda>r. LOWER_ADDRESS_RE (pd_pool_address r) \<and> LOWER_ADDRESS_RE (pd_token_address r)) rs"
  by (erule list_all_imp) (simp add: prow_ok_def)

lemma token_preimage_Inr:
  "token_preimage bs ss = Inr p \<longleftrightarrow> list_all bal_ok bs \<and> list_all scal_ok ss
     \<and> p = header_bytes ''rpc-state-indexer/token-observations/v1''
         @ concat (map (\<lambda>r. 0x42 # bal_body r) (sort_key bal_key bs))
         @ concat (map (\<lambda>r. 0x53 # scal_body r) (sort_key (\<lambda>r. (sd_scalar_name r, sd_scalar_raw r)) ss))"
  by (auto simp: token_preimage_def bind_res_Inr sorted_by_Inr [OF balance_key_Inr]
      sorted_by_total map_res_rows [OF balance_row_bytes_Inr]
      map_res_rows [OF scalar_row_bytes_Inr] dest: bal_ok_address)

lemma pool_preimage_Inr:
  "pool_preimage rs = Inr p \<longleftrightarrow> list_all prow_ok rs
     \<and> p = header_bytes ''rpc-state-indexer/pool-observations/v1''
         @ concat (map prow_enc (sort_key prow_key rs))"
  by (auto simp: pool_preimage_def bind_res_Inr sorted_by_Inr [OF pool_key_Inr]
      map_res_rows [OF pool_row_bytes_Inr] dest: prow_ok_address)

lemma map_sum_split: "map Inl xs @ map Inr ys = map Inl us @ map Inr vs \<longleftrightarrow> xs = us \<and> ys = vs"
proof (induction xs arbitrary: us)
  case Nil
  show ?case by (cases us; cases ys) (auto simp: inj_map_eq_map)
next
  case (Cons x xs)
  then show ?case by (cases us; cases vs) auto
qed

lemma token_rows_commit:
  assumes "list_all bal_ok bs" "list_all scal_ok ss" "list_all bal_ok bs'" "list_all scal_ok ss'"
  shows "concat (map (\<lambda>r. 0x42 # bal_body r) bs) @ concat (map (\<lambda>r. 0x53 # scal_body r) ss)
       = concat (map (\<lambda>r. 0x42 # bal_body r) bs') @ concat (map (\<lambda>r. 0x53 # scal_body r) ss')
     \<longleftrightarrow> bs = bs' \<and> ss = ss'"
proof -
  let ?enc = "case_sum (\<lambda>r. 0x42 # bal_body r) (\<lambda>r. 0x53 # scal_body r) :: _ \<Rightarrow> bytes"
  have join: "concat (map (\<lambda>r. 0x42 # bal_body r) us) @ concat (map (\<lambda>r. 0x53 # scal_body r) vs)
      = concat (map ?enc (map Inl us @ map Inr vs))" for us vs
    by (simp add: comp_def)
  have ok: "list_all (case_sum bal_ok scal_ok) (map Inl us @ map Inr vs)"
    if "list_all bal_ok us" "list_all scal_ok vs" for us vs
    using that by (auto simp: list_all_iff)
  show ?thesis
    unfolding join using tok.concat_inject [OF ok [OF assms(1,2)] ok [OF assms(3,4)]] map_sum_split
    by blast
qed

subsection \<open>The universe\<close>

definition member_ok :: "bytes \<times> string list \<Rightarrow> bool" where
  "member_ok = (\<lambda>(a, ss). length a = 20 \<and> list_all text_ok ss \<and> int (length ss) < 256 ^ 4)"

definition member_enc :: "bytes \<times> string list \<Rightarrow> bytes" where
  "member_enc = (\<lambda>(a, ss). 0x55 # a @ to_bytes 4 (int (length ss))
     @ concat (map (\<lambda>v. length_prefixed 4 (utf8 v)) ss))"

definition canonical_member :: "string \<times> string list \<Rightarrow> bytes \<times> string list" where
  "canonical_member = (\<lambda>(a, ss). (adr a, sort (remdups ss)))"

lemma updates_texts:
  "updates (map text_bytes ss) = Inr b \<longleftrightarrow>
     list_all text_ok ss \<and> b = concat (map (\<lambda>v. length_prefixed 4 (utf8 v)) ss)"
  by (induction ss arbitrary: b) (auto simp: bind_res_Inr text_bytes_Inr)

lemma member_bytes_Inr:
  "length a = 20 \<Longrightarrow> member_bytes (a, ss) = Inr b \<longleftrightarrow> member_ok (a, ss) \<and> b = member_enc (a, ss)"
  by (auto simp: member_bytes_def member_ok_def member_enc_def bind_res_Inr to_bytes_res_Inr updates_texts)

lemma sd_member: "self_delimiting member_ok member_enc"
proof -
  have fixed: "self_delimiting (\<lambda>a. length a = 20) (\<lambda>a. a)"
    by (rule self_delimiting_fixed [where n = 20]) auto
  have "self_delimiting member_ok (\<lambda>(a, ss). a @ to_bytes 4 (int (length ss))
     @ concat (map (\<lambda>v. length_prefixed 4 (utf8 v)) ss))"
    using self_delimiting_pair [OF fixed self_delimiting_counted [OF sd_text, of 4]]
    by (simp add: member_ok_def case_prod_beta')
  note body = self_delimiting_tag [OF this, of "0x55"]
  have "member_enc = (\<lambda>p. 0x55 # (case p of (a, ss) \<Rightarrow> a @ to_bytes 4 (int (length ss))
     @ concat (map (\<lambda>v. length_prefixed 4 (utf8 v)) ss)))"
    by (simp add: member_enc_def fun_eq_iff)
  with body show ?thesis by (simp only:)
qed

interpretation mem: prefix_code member_ok member_enc
  by unfold_locales (rule sd_member, auto simp: member_enc_def split: prod.splits)

lemma canonical_members_Inr:
  "canonical_members seen ms = Inr cs \<longleftrightarrow>
     distinct (map fst ms) \<and> set (map fst ms) \<inter> set seen = {}
     \<and> list_all (LOWER_ADDRESS_RE \<circ> fst) ms \<and> cs = map canonical_member ms"
  by (induction seen ms arbitrary: cs rule: canonical_members.induct)
     (auto simp: bind_res_Inr address_bytes_Inr canonical_member_def)

lemma universe_preimage_Inr:
  "universe_preimage ms = Inr p \<longleftrightarrow> distinct (map fst ms) \<and> list_all (LOWER_ADDRESS_RE \<circ> fst) ms
     \<and> list_all member_ok (map canonical_member ms)
     \<and> p = header_bytes ''rpc-state-indexer/universe/v1''
         @ concat (map member_enc (sort_key fst (map canonical_member ms)))"
proof -
  have rows: "map_res member_bytes cs = Inr bs \<longleftrightarrow> list_all member_ok cs \<and> bs = map member_enc cs"
    if "list_all (\<lambda>c. length (fst c) = 20) cs" for cs bs
    using that by (induction cs arbitrary: bs) (auto simp: bind_res_Inr member_bytes_Inr)
  have len: "list_all (\<lambda>c. length (fst c) = 20) (sort_key fst (map canonical_member ms))"
    if "list_all (LOWER_ADDRESS_RE \<circ> fst) ms"
    using that by (auto simp: list_all_iff canonical_member_def fromhex_address)
  show ?thesis
  proof (cases "list_all (LOWER_ADDRESS_RE \<circ> fst) ms")
    case True
    from rows [OF len [OF True]] True show ?thesis
      by (auto simp: universe_preimage_def bind_res_Inr canonical_members_Inr)
  qed (auto simp: universe_preimage_def bind_res_Inr canonical_members_Inr)
qed

lemma sorted_sources_eq: "sort (remdups ss) = sort (remdups ts) \<longleftrightarrow> set ss = set ts"
  by (metis set_remdups set_sort sorted_list_of_set_sort_remdups)

lemma canonical_view:
  assumes "distinct (map fst ms)" "distinct (map fst ns)"
    and "list_all (LOWER_ADDRESS_RE \<circ> fst) ms" "list_all (LOWER_ADDRESS_RE \<circ> fst) ns"
    and "canonical_member ` set ms \<subseteq> canonical_member ` set ns" and "map_of ms a = Some ss"
  shows "\<exists>ts. map_of ns a = Some ts \<and> set ts = set ss"
proof -
  from assms(6) have mem: "(a, ss) \<in> set ms" by (rule map_of_SomeD)
  with assms(5) obtain b ts where b: "(b, ts) \<in> set ns" "canonical_member (a, ss) = canonical_member (b, ts)"
    by fastforce
  with mem assms(3,4) have "LOWER_ADDRESS_RE a" "LOWER_ADDRESS_RE b" by (auto simp: list_all_iff)
  with b have "a = b" by (auto simp: canonical_member_def dest: adr_inject)
  with b assms(2) show ?thesis by (auto simp: canonical_member_def sorted_sources_eq)
qed

lemma canonical_subset:
  assumes "\<And>a ss. map_of ms a = Some ss \<Longrightarrow> \<exists>ts. map_of ns a = Some ts \<and> set ts = set ss"
    and "distinct (map fst ms)"
  shows "canonical_member ` set ms \<subseteq> canonical_member ` set ns"
proof
  fix c assume "c \<in> canonical_member ` set ms"
  then obtain a ss where c: "(a, ss) \<in> set ms" "c = canonical_member (a, ss)" by auto
  with assms obtain ts where "map_of ns a = Some ts" "set ts = set ss" by fastforce
  with c show "c \<in> canonical_member ` set ns"
    by (intro image_eqI [of _ _ "(a, ts)"])
       (auto simp: canonical_member_def sorted_sources_eq dest: map_of_SomeD)
qed

lemma distinct_canonical:
  "distinct (map fst ms) \<Longrightarrow> list_all (LOWER_ADDRESS_RE \<circ> fst) ms \<Longrightarrow> distinct (map fst (map canonical_member ms))"
  by (induction ms) (auto simp: canonical_member_def list_all_iff dest: adr_inject)

lemma sort_fst_eq:
  assumes "distinct (map fst xs)" and "distinct (map fst ys)"
  shows "sort_key fst xs = sort_key fst ys \<longleftrightarrow> set xs = set ys"
proof
  assume "set xs = set ys"
  with assms have "mset xs = mset ys" by (simp add: distinct_map set_eq_iff_mset_eq_distinct)
  then show "sort_key fst xs = sort_key fst ys"
    using assms(1) by (intro sort_key_inj_key_eq) (auto simp: distinct_map)
qed (metis set_sort)

lemma universe_view:
  assumes "distinct (map fst ms)" "distinct (map fst ns)"
    and "list_all (LOWER_ADDRESS_RE \<circ> fst) ms" "list_all (LOWER_ADDRESS_RE \<circ> fst) ns"
  shows "set (map canonical_member ms) = set (map canonical_member ns)
    \<longleftrightarrow> map_option set \<circ> map_of ms = map_option set \<circ> map_of ns" (is "?L \<longleftrightarrow> ?R")
proof
  assume ?L
  then have sub: "canonical_member ` set ms \<subseteq> canonical_member ` set ns"
      "canonical_member ` set ns \<subseteq> canonical_member ` set ms" by auto
  show ?R
  proof
    fix a show "(map_option set \<circ> map_of ms) a = (map_option set \<circ> map_of ns) a"
      using canonical_view [OF assms sub(1), of a] canonical_view [OF assms(2,1,4,3) sub(2), of a]
      by (cases "map_of ms a"; cases "map_of ns a") auto
  qed
next
  assume R: ?R
  have "map_option set (map_of ms a) = map_option set (map_of ns a)" for a
    using fun_cong [OF R, of a] by simp
  then have "\<exists>ts. map_of ns a = Some ts \<and> set ts = set ss" if "map_of ms a = Some ss" for a ss
    using that by (metis map_option_eq_Some)
  moreover have "\<exists>ts. map_of ms a = Some ts \<and> set ts = set ss" if "map_of ns a = Some ss" for a ss
    using that \<open>\<And>a. map_option set (map_of ms a) = map_option set (map_of ns a)\<close> by (metis map_option_eq_Some)
  ultimately show ?L
    using canonical_subset [of ms ns] canonical_subset [of ns ms] assms(1,2) by (simp add: subset_antisym)
qed

subsection \<open>Concentrated liquidity\<close>

definition st_ok :: "pool_cl_state_digest_row \<Rightarrow> bool" where
  "st_ok r \<longleftrightarrow> LOWER_ADDRESS_RE (cd_pool_address r) \<and> is_u256 (cd_sqrt_price_x96 r)
     \<and> is_i256 (cd_current_tick r) \<and> is_u256 (cd_liquidity r) \<and> is_u256 (cd_fee_growth_global_0_x128 r)
     \<and> is_u256 (cd_fee_growth_global_1_x128 r) \<and> is_i256 (cd_tick_spacing r) \<and> is_u256 (cd_fee r)
     \<and> is_u256 (cd_tick_count r)"

definition st_enc :: "pool_cl_state_digest_row \<Rightarrow> bytes" where
  "st_enc r = 0x43 # adr (cd_pool_address r) @ to_bytes 32 (cd_sqrt_price_x96 r)
     @ to_bytes 32 (cd_current_tick r mod 2 ^ 256) @ to_bytes 32 (cd_liquidity r)
     @ to_bytes 32 (cd_fee_growth_global_0_x128 r) @ to_bytes 32 (cd_fee_growth_global_1_x128 r)
     @ to_bytes 32 (cd_tick_spacing r mod 2 ^ 256) @ to_bytes 32 (cd_fee r) @ to_bytes 32 (cd_tick_count r)"

definition trow_ok :: "string \<Rightarrow> pool_tick_digest_row \<Rightarrow> bool" where
  "trow_ok pool r \<longleftrightarrow> td_pool_address r = pool \<and> is_i256 (td_tick r) \<and> is_u256 (td_liquidity_gross r)
     \<and> is_i256 (td_liquidity_net r) \<and> is_u256 (td_fee_growth_outside_0_x128 r)
     \<and> is_u256 (td_fee_growth_outside_1_x128 r)"

definition trow_enc :: "pool_tick_digest_row \<Rightarrow> bytes" where
  "trow_enc r = 0x54 # to_bytes 32 (td_tick r mod 2 ^ 256) @ to_bytes 32 (td_liquidity_gross r)
     @ to_bytes 32 (td_liquidity_net r mod 2 ^ 256) @ to_bytes 32 (td_fee_growth_outside_0_x128 r)
     @ to_bytes 32 (td_fee_growth_outside_1_x128 r)"

lemmas sd_cons =
  self_delimiting_pair [OF sd_u256] self_delimiting_pair [OF sd_i256] self_delimiting_pair [OF sd_address]

lemma sd_state: "self_delimiting st_ok st_enc"
proof -
  have "self_delimiting st_ok (\<lambda>r. tl (st_enc r))"
    by (rule self_delimiting_image [where h = "\<lambda>r. (cd_pool_address r, cd_sqrt_price_x96 r,
          cd_current_tick r, cd_liquidity r, cd_fee_growth_global_0_x128 r, cd_fee_growth_global_1_x128 r,
          cd_tick_spacing r, cd_fee r, cd_tick_count r)",
        OF sd_cons(3) [OF sd_cons(1) [OF sd_cons(2) [OF sd_cons(1) [OF sd_cons(1) [OF sd_cons(1)
            [OF sd_cons(2) [OF sd_cons(1) [OF sd_u256]]]]]]]]])
       (simp_all add: st_ok_def st_enc_def)
  from self_delimiting_tag [OF this, of "0x43"] show ?thesis by (simp add: st_enc_def [abs_def])
qed

lemma sd_tick: "self_delimiting (trow_ok pool) trow_enc"
proof -
  have "self_delimiting (trow_ok pool) (\<lambda>r. tl (trow_enc r))"
    by (rule self_delimiting_image [where h = "\<lambda>r. (td_tick r, td_liquidity_gross r, td_liquidity_net r,
          td_fee_growth_outside_0_x128 r, td_fee_growth_outside_1_x128 r)",
        OF sd_cons(2) [OF sd_cons(1) [OF sd_cons(2) [OF sd_cons(1) [OF sd_u256]]]]])
       (simp_all add: trow_ok_def trow_enc_def)
  from self_delimiting_tag [OF this, of "0x54"] show ?thesis by (simp add: trow_enc_def [abs_def])
qed

interpretation trow: prefix_code "trow_ok pool" trow_enc for pool
  by unfold_locales (rule sd_tick, simp add: trow_enc_def)

lemma cl_preimage_Inr:
  "cl_preimage st ts = Inr p \<longleftrightarrow> st_ok st \<and> list_all (trow_ok (cd_pool_address st)) ts
     \<and> p = header_bytes ''rpc-state-indexer/cl-observations/v1'' @ st_enc st
         @ concat (map trow_enc (sort_key td_tick ts))"
proof -
  have "cl_state_bytes st = Inr b \<longleftrightarrow> st_ok st \<and> b = st_enc st" for b
    by (auto simp: cl_state_bytes_def st_ok_def st_enc_def res_simps)
  moreover have "tick_row_bytes pool r = Inr b \<longleftrightarrow> trow_ok pool r \<and> b = trow_enc r" for pool r b
    by (auto simp: tick_row_bytes_def trow_ok_def trow_enc_def res_simps)
  ultimately show ?thesis by (auto simp: cl_preimage_def bind_res_Inr map_res_rows)
qed

definition sample_address :: "nat \<Rightarrow> string" where
  "sample_address n = ''0x'' @ replicate 39 (CHR ''0'') @ [hexchar (n mod 16)]"

definition sample_balance :: "nat \<Rightarrow> balance_digest_row" where
  "sample_balance n = \<lparr>bd_holder_address = sample_address n, bd_balance_raw = int n,
     bd_scaled_balance_raw = None, bd_value_kind = ''direct''\<rparr>"

definition sample_tick :: "int \<Rightarrow> pool_tick_digest_row" where
  "sample_tick t = \<lparr>td_pool_address = sample_address 3, td_tick = t, td_liquidity_gross = 5,
     td_liquidity_net = - t, td_fee_growth_outside_0_x128 = 0, td_fee_growth_outside_1_x128 = 0\<rparr>"

definition sample_cl_state :: pool_cl_state_digest_row where
  "sample_cl_state = \<lparr>cd_pool_address = sample_address 3, cd_sqrt_price_x96 = 7, cd_current_tick = -3,
     cd_liquidity = 5, cd_fee_growth_global_0_x128 = 0, cd_fee_growth_global_1_x128 = 0,
     cd_tick_spacing = 1, cd_fee = 3000, cd_tick_count = 2\<rparr>"

lemma sample_address_ok [simp]: "LOWER_ADDRESS_RE (sample_address n)"
proof -
  have "is_lower_hex (CHR ''0'')" by code_simp
  then show ?thesis by (simp add: LOWER_ADDRESS_RE_def sample_address_def list_all_iff)
qed

lemma sample_rows_ok [simp]:
  "bal_ok (sample_balance 3)" "bal_ok (sample_balance 2)" "st_ok sample_cl_state"
  "trow_ok (sample_address 3) (sample_tick 4)" "trow_ok (sample_address 3) (sample_tick (- 4))"
  by (simp_all add: bal_ok_def sample_balance_def text_ok_def is_u256_def is_i256_def st_ok_def
      sample_cl_state_def trow_ok_def sample_tick_def)

text \<open>
  C33: a token or pool digest identifies the observations. Two observation sets that can be
  encoded hash the same bytes exactly when they hold the same balance rows and the same scalar
  rows with the same multiplicities, in whatever order they were collected or read back; the
  digest is the SHA-256 of those bytes. The same holds for pool balances.
\<close>

theorem observation_digests_commit:
  assumes "token_preimage bs ss = Inr p" and "token_preimage bs' ss' = Inr q"
    and "pool_preimage rs = Inr u" and "pool_preimage rs' = Inr v"
  shows "(p = q \<longleftrightarrow> mset bs = mset bs' \<and> mset ss = mset ss')
    \<and> digest_token_observations bs ss = Inr (sha256_hex p)
    \<and> (u = v \<longleftrightarrow> mset rs = mset rs') \<and> digest_pool_observations rs = Inr (sha256_hex u)"
proof -
  have tok: "list_all bal_ok bs" "list_all scal_ok ss" "list_all bal_ok bs'" "list_all scal_ok ss'"
    using assms(1,2) by (auto simp: token_preimage_Inr)
  have "p = q \<longleftrightarrow> sort_key bal_key bs = sort_key bal_key bs'
      \<and> sort_key (\<lambda>r. (sd_scalar_name r, sd_scalar_raw r)) ss = sort_key (\<lambda>r. (sd_scalar_name r, sd_scalar_raw r)) ss'"
    using assms(1,2) tok by (auto simp: token_preimage_Inr token_rows_commit)
  also have "\<dots> \<longleftrightarrow> mset bs = mset bs' \<and> mset ss = mset ss'"
    using bal.sort_canonical [OF tok(1), of bs'] sca.sort_canonical [OF tok(2), of ss']
      arg_cong [where f = mset, of "sort_key bal_key bs" "sort_key bal_key bs'"]
      arg_cong [where f = mset, of "sort_key (\<lambda>r. (sd_scalar_name r, sd_scalar_raw r)) ss"
        "sort_key (\<lambda>r. (sd_scalar_name r, sd_scalar_raw r)) ss'"]
    unfolding mset_sort by blast
  finally have "p = q \<longleftrightarrow> mset bs = mset bs' \<and> mset ss = mset ss'" .
  moreover have "u = v \<longleftrightarrow> mset rs = mset rs'"
    using assms(3,4) prow.canonical [of rs rs'] by (auto simp: pool_preimage_Inr)
  ultimately show ?thesis
    using assms(1,3) by (simp add: digest_token_observations_def digest_pool_observations_def)
qed

theorem observation_digests_commit_witness:
  "digest_token_observations [sample_balance 3, sample_balance 2] []
     = digest_token_observations [sample_balance 2, sample_balance 3] []
   \<and> token_preimage [sample_balance 3, sample_balance 2] [] \<noteq> token_preimage [sample_balance 3] []"
proof -
  have pre: "\<exists>p. token_preimage bs [] = Inr p" if "list_all bal_ok bs" for bs
    using that by (auto simp: token_preimage_Inr)
  have "\<exists>p. token_preimage [sample_balance 3, sample_balance 2] [] = Inr p"
    and "\<exists>p. token_preimage [sample_balance 2, sample_balance 3] [] = Inr p"
    and "\<exists>p. token_preimage [sample_balance 3] [] = Inr p"
    by (rule pre, simp)+
  then obtain p q r where p: "token_preimage [sample_balance 3, sample_balance 2] [] = Inr p"
    and q: "token_preimage [sample_balance 2, sample_balance 3] [] = Inr q"
    and r: "token_preimage [sample_balance 3] [] = Inr r" by blast
  have "pool_preimage [] = Inr (header_bytes ''rpc-state-indexer/pool-observations/v1'')"
    by (simp add: pool_preimage_Inr)
  note e = observation_digests_commit [OF _ _ this this]
  from e [OF p q] have "p = q" by (simp add: add_mset_commute)
  moreover from e [OF p r] have "p \<noteq> r" by simp
  ultimately show ?thesis using e [OF p q] e [OF q p] p r by auto
qed

text \<open>
  The universe digest identifies the universe. Two member lists that can be encoded
  hash the same bytes exactly when they give every address the same set of provenance labels,
  however the members and their labels are ordered or repeated; a duplicated address is
  refused.
\<close>

theorem universe_digest_commits:
  assumes "universe_preimage ms = Inr p" and "universe_preimage ns = Inr q"
  shows "(p = q \<longleftrightarrow> map_option set \<circ> map_of ms = map_option set \<circ> map_of ns)
    \<and> digest_universe ms = Inr (sha256_hex p) \<and> distinct (map fst ms)"
proof -
  from assms have ok: "distinct (map fst ms)" "distinct (map fst ns)"
    "list_all (LOWER_ADDRESS_RE \<circ> fst) ms" "list_all (LOWER_ADDRESS_RE \<circ> fst) ns"
    "list_all member_ok (map canonical_member ms)" "list_all member_ok (map canonical_member ns)"
    by (simp_all add: universe_preimage_Inr)
  have "p = q \<longleftrightarrow> sort_key fst (map canonical_member ms) = sort_key fst (map canonical_member ns)"
    using assms ok(5,6) mem.concat_inject [of "sort_key fst (map canonical_member ms)"
        "sort_key fst (map canonical_member ns)"]
    by (auto simp: universe_preimage_Inr)
  also have "\<dots> \<longleftrightarrow> set (map canonical_member ms) = set (map canonical_member ns)"
    by (rule sort_fst_eq) (use ok distinct_canonical in blast)+
  also have "\<dots> \<longleftrightarrow> map_option set \<circ> map_of ms = map_option set \<circ> map_of ns"
    by (rule universe_view [OF ok(1-4)])
  finally show ?thesis using assms(1) ok(1) by (simp add: digest_universe_def)
qed

theorem universe_digest_commits_witness:
  "universe_preimage [(sample_address 3, [''b'', ''a'', ''b'']), (sample_address 2, [''c''])]
     = universe_preimage [(sample_address 2, [''c'']), (sample_address 3, [''a'', ''b''])]"
proof -
  let ?m = "[(sample_address 3, [''b'', ''a'', ''b'']), (sample_address 2, [''c''])]"
  let ?n = "[(sample_address 2, [''c'']), (sample_address 3, [''a'', ''b''])]"
  have ne: "sample_address 3 \<noteq> sample_address 2" by (simp add: sample_address_def hexchar_def)
  have len: "list_all text_ok (sort (remdups ss)) \<and> int (length (sort (remdups ss))) < 256 ^ 4"
    if "length ss \<le> 3" "list_all text_ok ss" for ss
  proof -
    have "length (remdups ss) \<le> 3" using length_remdups_leq that(1) by (rule order_trans)
    with that(2) show ?thesis by (simp add: list_all_iff)
  qed
  have "member_ok (canonical_member (sample_address n, ss))" if "length ss \<le> 3" "list_all text_ok ss" for n ss
    using len [OF that] by (simp add: member_ok_def canonical_member_def fromhex_address)
  then have "\<exists>p. universe_preimage ?m = Inr p" "\<exists>q. universe_preimage ?n = Inr q"
    using ne by (simp_all add: universe_preimage_Inr text_ok_def)
  then obtain p q where pq: "universe_preimage ?m = Inr p" "universe_preimage ?n = Inr q" by blast
  have "map_option set \<circ> map_of ?m = map_option set \<circ> map_of ?n"
    using ne by (auto simp: fun_eq_iff)
  with universe_digest_commits [OF pq] pq show ?thesis by simp
qed

text \<open>
  The concentrated-liquidity digest identifies the state row and the tick rows,
  signs included: with one row per tick, two encodable observations hash the same bytes exactly
  when their state rows are equal and they hold the same tick rows, in any order.
\<close>

theorem cl_digest_commits:
  assumes "cl_preimage st ts = Inr p" and "cl_preimage st' ts' = Inr q" and "distinct (map td_tick ts)"
  shows "(p = q \<longleftrightarrow> st = st' \<and> mset ts = mset ts') \<and> digest_cl_observations st ts = Inr (sha256_hex p)"
proof -
  let ?s = "sort_key td_tick ts" and ?s' = "sort_key td_tick ts'"
  from assms(1,2) have ok: "st_ok st" "st_ok st'" "list_all (trow_ok (cd_pool_address st)) ?s"
    "list_all (trow_ok (cd_pool_address st')) ?s'"
    and eq: "p = q \<longleftrightarrow> st_enc st @ concat (map trow_enc ?s) = st_enc st' @ concat (map trow_enc ?s')"
    by (auto simp: cl_preimage_Inr)
  have "p = q \<longleftrightarrow> st = st' \<and> ?s = ?s'"
  proof
    assume "p = q"
    with eq have "st_enc st @ concat (map trow_enc ?s) = st_enc st' @ concat (map trow_enc ?s')" by simp
    from self_delimitingD [OF sd_state ok(1,2) this]
    show "st = st' \<and> ?s = ?s'" using trow.concat_inject ok(3,4) by blast
  qed (use eq in simp)
  also have "\<dots> \<longleftrightarrow> st = st' \<and> mset ts = mset ts'"
  proof -
    have "?s = ?s' \<longleftrightarrow> mset ts = mset ts'"
      using assms(3) sort_key_inj_key_eq [of ts ?s' td_tick] by (metis distinct_map mset_sort sorted_sort_key)
    then show ?thesis by simp
  qed
  finally show ?thesis using assms(1) by (simp add: digest_cl_observations_def)
qed

theorem cl_digest_commits_witness:
  "digest_cl_observations sample_cl_state [sample_tick 4, sample_tick (- 4)]
     = digest_cl_observations sample_cl_state [sample_tick (- 4), sample_tick 4]"
proof -
  have pool: "cd_pool_address sample_cl_state = sample_address 3" by (simp add: sample_cl_state_def)
  have "\<exists>p. cl_preimage sample_cl_state [sample_tick 4, sample_tick (- 4)] = Inr p"
    and "\<exists>p. cl_preimage sample_cl_state [sample_tick (- 4), sample_tick 4] = Inr p"
    using sample_rows_ok by (simp_all add: cl_preimage_Inr pool)
  then obtain p q where pq: "cl_preimage sample_cl_state [sample_tick 4, sample_tick (- 4)] = Inr p"
    "cl_preimage sample_cl_state [sample_tick (- 4), sample_tick 4] = Inr q" by blast
  have "distinct (map td_tick [sample_tick 4, sample_tick (- 4)])"
    "distinct (map td_tick [sample_tick (- 4), sample_tick 4])" by (simp_all add: sample_tick_def)
  with cl_digest_commits [OF pq] cl_digest_commits [OF pq(2,1)] show ?thesis
    by (simp add: add_mset_commute)
qed

end
