(* ===== verification/Collection.thy ===== *)
theory Collection
  imports Multicall Digests Config
begin

text \<open>
  The collectors' shared layer (\<open>collectors/models.py\<close>, \<open>collectors/common.py\<close>) and the ERC-20,
  aToken and pool reserve collectors (\<open>collectors/erc20.py\<close>, \<open>collectors/atoken.py\<close>,
  \<open>collectors/pools.py\<close>). A collector plans its calls, has an executor answer them, refuses any
  structurally partial answer, and turns the decoded observations into rows, errors and
  integrity checks. The executor is a parameter of every operation; the locale \<open>executor\<close> states
  what the collectors rely on and the lemmas proved in it hold for the router of the two
  modelled executors.
\<close>

subsection \<open>Collection results\<close>

record collection_batch_evidence =
  cb_batch_sequence :: nat
  cb_body_call_count :: nat
  cb_evidence :: verification_evidence

record collection_error =
  er_subject_address :: string
  er_call_kind :: string
  er_status :: observation_status
  er_batch_sequence :: nat
  er_message :: string
  er_rpc_code :: "int option"
  er_return_data :: bytes

record token_collection_result =
  tr_token_address :: string
  tr_universe_hash :: string
  tr_integrity_mode :: integrity_mode
  tr_expected_calls :: nat
  tr_balances :: "balance_row list"
  tr_scalars :: "scalar_row list"
  tr_errors :: "collection_error list"
  tr_batches :: "collection_batch_evidence list"
  tr_integrity_checks :: "integrity_result list"

record pool_collection_result =
  pr_pool_address :: string
  pr_integrity_mode :: integrity_mode
  pr_expected_calls :: nat
  pr_balances :: "pool_balance_row list"
  pr_errors :: "collection_error list"
  pr_batches :: "collection_batch_evidence list"
  pr_integrity_checks :: "integrity_result list"

record pool_cl_collection_result =
  cr_pool_address :: string
  cr_integrity_mode :: integrity_mode
  cr_expected_calls :: nat
  cr_state :: pool_cl_state_row
  cr_ticks :: "pool_tick_row list"
  cr_errors :: "collection_error list"
  cr_batches :: "collection_batch_evidence list"
  cr_integrity_checks :: "integrity_result list"

text \<open>The \<open>verified\<close> property, the same for the three results.\<close>

definition all_verified ::
  "collection_error list \<Rightarrow> collection_batch_evidence list \<Rightarrow> integrity_result list \<Rightarrow> bool" where
  "all_verified errors batches checks \<longleftrightarrow>
     errors = [] \<and> list_all (ve_verified \<circ> cb_evidence) batches \<and> list_all ir_passed checks"

definition tr_successful_calls :: "token_collection_result \<Rightarrow> nat" where
  "tr_successful_calls r = length (tr_balances r) + length (tr_scalars r)"

definition tr_verified :: "token_collection_result \<Rightarrow> bool" where
  "tr_verified r = all_verified (tr_errors r) (tr_batches r) (tr_integrity_checks r)"

definition balance_digest_row :: "balance_row \<Rightarrow> balance_digest_row" where
  "balance_digest_row row = \<lparr>bd_holder_address = bal_holder_address row, bd_balance_raw = bal_balance_raw row,
     bd_scaled_balance_raw = bal_scaled_balance_raw row, bd_value_kind = bal_value_kind row\<rparr>"

definition scalar_digest_row :: "scalar_row \<Rightarrow> scalar_digest_row" where
  "scalar_digest_row row = \<lparr>sd_scalar_name = sc_scalar_name row, sd_scalar_raw = sc_scalar_raw row\<rparr>"

definition tr_result_digest :: "token_collection_result \<Rightarrow> string res" where
  "tr_result_digest r =
     digest_token_observations (map balance_digest_row (tr_balances r)) (map scalar_digest_row (tr_scalars r))"

definition pr_successful_calls :: "pool_collection_result \<Rightarrow> nat" where
  "pr_successful_calls r = length (pr_balances r)"

definition pr_verified :: "pool_collection_result \<Rightarrow> bool" where
  "pr_verified r = all_verified (pr_errors r) (pr_batches r) (pr_integrity_checks r)"

definition pool_digest_row :: "pool_balance_row \<Rightarrow> pool_balance_digest_row" where
  "pool_digest_row row = \<lparr>pd_pool_address = pb_pool_address row, pd_token_address = pb_token_address row,
     pd_balance_raw = pb_balance_raw row\<rparr>"

definition pr_result_digest :: "pool_collection_result \<Rightarrow> string res" where
  "pr_result_digest r = digest_pool_observations (map pool_digest_row (pr_balances r))"

definition cr_successful_calls :: "pool_cl_collection_result \<Rightarrow> nat" where
  "cr_successful_calls r = 1 + length (cr_ticks r)"

definition cr_verified :: "pool_cl_collection_result \<Rightarrow> bool" where
  "cr_verified r = all_verified (cr_errors r) (cr_batches r) (cr_integrity_checks r)"

definition cl_state_digest_row :: "pool_cl_state_row \<Rightarrow> pool_cl_state_digest_row" where
  "cl_state_digest_row row = \<lparr>cd_pool_address = cs_pool_address row, cd_sqrt_price_x96 = cs_sqrt_price_x96 row,
     cd_current_tick = cs_current_tick row, cd_liquidity = cs_liquidity row,
     cd_fee_growth_global_0_x128 = cs_fee_growth_global_0_x128 row,
     cd_fee_growth_global_1_x128 = cs_fee_growth_global_1_x128 row, cd_tick_spacing = cs_tick_spacing row,
     cd_fee = cs_fee row, cd_tick_count = int (cs_tick_count row)\<rparr>"

definition tick_digest_row :: "pool_tick_row \<Rightarrow> pool_tick_digest_row" where
  "tick_digest_row row = \<lparr>td_pool_address = tk_pool_address row, td_tick = tk_tick row,
     td_liquidity_gross = tk_liquidity_gross row, td_liquidity_net = tk_liquidity_net row,
     td_fee_growth_outside_0_x128 = tk_fee_growth_outside_0_x128 row,
     td_fee_growth_outside_1_x128 = tk_fee_growth_outside_1_x128 row\<rparr>"

definition cr_result_digest :: "pool_cl_collection_result \<Rightarrow> string res" where
  "cr_result_digest r =
     digest_cl_observations (cl_state_digest_row (cr_state r)) (map tick_digest_row (cr_ticks r))"

subsection \<open>Strict execution of uint256 calls\<close>

record uint_call_spec =
  us_call :: contract_call
  us_subject_address :: string
  us_call_kind :: string

record decoded_uint_call =
  du_spec :: uint_call_spec
  du_observation :: uint_observation
  du_batch_sequence :: nat
  du_rpc_code :: "int option"
  du_rpc_message :: "string option"

record decoded_execution =
  dx_calls :: "(string \<times> decoded_uint_call) list"
  dx_batches :: "collection_batch_evidence list"

text \<open>\<open>a or b\<close> on an optional text and an optional code: an empty text and a zero are false.\<close>

definition or_text :: "string option \<Rightarrow> string \<Rightarrow> string" where
  "or_text a b = (case a of Some (c # cs) \<Rightarrow> c # cs | _ \<Rightarrow> b)"

definition or_code :: "int option \<Rightarrow> int \<Rightarrow> int" where
  "or_code a b = (case a of Some c \<Rightarrow> if c = 0 then b else c | None \<Rightarrow> b)"

definition as_error :: "decoded_uint_call \<Rightarrow> collection_error res" where
  "as_error c =
     (if obs_ok (du_observation c)
      then raise_res ValueError ''successful call cannot be materialized as an error''
      else Inr \<lparr>er_subject_address = us_subject_address (du_spec c), er_call_kind = us_call_kind (du_spec c),
                er_status = obs_status (du_observation c), er_batch_sequence = du_batch_sequence c,
                er_message = or_text (obs_detail (du_observation c))
                  (or_text (du_rpc_message c) (status_value (obs_status (du_observation c)))),
                er_rpc_code = du_rpc_code c, er_return_data = obs_raw (du_observation c)\<rparr>)"

text \<open>The status of a failed call: a revert, or any other provider error.\<close>

definition failed_status :: "raw_call_result \<Rightarrow> string \<Rightarrow> observation_status" where
  "failed_status raw fallback =
     (if rf_kind (classify_rpc_failure
            (ResponseExn (or_code (rr_error_code raw) (-1)) (or_text (rr_error_message raw) fallback) JNull))
         = EXECUTION_REVERT
      then REVERTED else RPC_ERROR)"

definition decode_raw :: "uint_call_spec \<Rightarrow> raw_call_result \<Rightarrow> nat \<Rightarrow> decoded_uint_call" where
  "decode_raw spec raw sequence =
     \<lparr>du_spec = spec,
      du_observation =
        (if rr_success raw then decode_uint256 True (RetBytes (rr_returndata raw))
         else \<lparr>obs_status = failed_status raw ''call failed'', obs_value = None, obs_raw = rr_returndata raw,
               obs_detail = Some (or_text (rr_error_message raw) ''contract call failed'')\<rparr>),
      du_batch_sequence = sequence, du_rpc_code = rr_error_code raw, du_rpc_message = rr_error_message raw\<rparr>"

fun expected_specs ::
  "(string \<times> uint_call_spec) list \<Rightarrow> uint_call_spec list \<Rightarrow> (string \<times> uint_call_spec) list res" where
  "expected_specs expected [] = Inr expected"
| "expected_specs expected (spec # specs) =
     (let key = cc_key (us_call spec) in
      if key \<in> set (map fst expected) then raise_res ValueError (''duplicate collector call key: '' @ key)
      else expected_specs (expected @ [(key, spec)]) specs)"

text \<open>The checks on one batch of an executor's answer, shared by the collectors.\<close>

definition check_batch :: "block_ref \<Rightarrow> nat \<Rightarrow> verified_batch_result \<Rightarrow> unit res" where
  "check_batch anchor sequence batch =
     (if \<not> ve_verified (vb_evidence batch)
      then raise_res CollectionProtocolError (''batch '' @ py_int (int sequence) @ '' is not verified'')
      else if str_lower (ve_anchor_hash (vb_evidence batch)) \<noteq> str_lower (block_hash anchor)
      then raise_res CollectionProtocolError (''batch '' @ py_int (int sequence) @ '' anchor hash mismatch'')
      else bind_res (digest_raw_results (vb_results batch)) (\<lambda>digest.
        if ve_result_digest (vb_evidence batch) \<noteq> digest
        then raise_res CollectionProtocolError (''batch '' @ py_int (int sequence) @ '' result digest mismatch'')
        else Inr ()))"

definition batch_evidence :: "nat \<Rightarrow> verified_batch_result \<Rightarrow> collection_batch_evidence" where
  "batch_evidence sequence batch =
     \<lparr>cb_batch_sequence = sequence, cb_body_call_count = length (vb_results batch),
      cb_evidence = vb_evidence batch\<rparr>"

fun decode_results ::
  "(string \<times> uint_call_spec) list \<Rightarrow> nat \<Rightarrow> raw_call_result list
   \<Rightarrow> (string \<times> decoded_uint_call) list \<Rightarrow> (string \<times> decoded_uint_call) list res" where
  "decode_results expected sequence [] decoded = Inr decoded"
| "decode_results expected sequence (raw # raws) decoded =
     (case map_of expected (rr_key raw) of
        None \<Rightarrow> raise_res CollectionProtocolError
                  (''batch '' @ py_int (int sequence) @ '' returned unexpected key '' @ repr_str (rr_key raw))
      | Some spec \<Rightarrow>
          if rr_key raw \<in> set (map fst decoded)
          then raise_res CollectionProtocolError
                 (''collector received duplicate result for '' @ repr_str (rr_key raw))
          else decode_results expected sequence raws
                 (decoded @ [(rr_key raw, decode_raw spec raw sequence)]))"

fun decode_batches ::
  "block_ref \<Rightarrow> (string \<times> uint_call_spec) list \<Rightarrow> nat \<Rightarrow> verified_batch_result list
   \<Rightarrow> (string \<times> decoded_uint_call) list \<Rightarrow> (string \<times> decoded_uint_call) list res" where
  "decode_batches anchor expected sequence [] decoded = Inr decoded"
| "decode_batches anchor expected sequence (batch # batches) decoded =
     bind_res (check_batch anchor sequence batch) (\<lambda>_.
     bind_res (decode_results expected sequence (vb_results batch) decoded) (\<lambda>decoded'.
       decode_batches anchor expected (sequence + 1) batches decoded'))"

fun evidence_of :: "nat \<Rightarrow> verified_batch_result list \<Rightarrow> collection_batch_evidence list" where
  "evidence_of sequence [] = []"
| "evidence_of sequence (batch # batches) = batch_evidence sequence batch # evidence_of (sequence + 1) batches"

definition missing_keys :: "string list \<Rightarrow> string list \<Rightarrow> string list" where
  "missing_keys expected received = sort (filter (\<lambda>k. k \<notin> set received) (remdups expected))"

definition execute_uint_calls ::
  "'s executor_fun \<Rightarrow> uint_call_spec list \<Rightarrow> block_ref \<Rightarrow> ('s, decoded_execution) io" where
  "execute_uint_calls execute specs anchor =
     bind_io (lift_res (expected_specs [] specs)) (\<lambda>expected.
     bind_io (execute (map us_call specs) anchor) (\<lambda>batches.
     bind_io (lift_res (decode_batches anchor expected 0 batches [])) (\<lambda>decoded.
     let missing = missing_keys (map fst expected) (map fst decoded) in
     if missing \<noteq> []
     then raise (Exn CollectionProtocolError (''collector results are missing keys: '' @ py_repr (JArr (map JStr missing))))
     else ret \<lparr>dx_calls = decoded, dx_batches = evidence_of 0 batches\<rparr>)))"

definition completeness_check :: "nat \<Rightarrow> decoded_execution \<Rightarrow> bool \<times> nat" where
  "completeness_check expected_calls decoded =
     (let successful = length (filter (obs_ok \<circ> du_observation \<circ> snd) (dx_calls decoded)) in
      (successful = expected_calls, successful))"

subsection \<open>Lemmas: what a strict execution returns\<close>

abbreviation spec_key :: "uint_call_spec \<Rightarrow> string" where
  "spec_key spec \<equiv> cc_key (us_call spec)"

fun decoded_of ::
  "(string \<times> uint_call_spec) list \<Rightarrow> nat \<Rightarrow> verified_batch_result list \<Rightarrow> (string \<times> decoded_uint_call) list" where
  "decoded_of expected sequence [] = []"
| "decoded_of expected sequence (b # bs) =
     map (\<lambda>r. (rr_key r, decode_raw (the (map_of expected (rr_key r))) r sequence)) (vb_results b)
     @ decoded_of expected (Suc sequence) bs"

lemma map_fst_decoded_of [simp]: "map fst (decoded_of expected q bs) = map rr_key (results_of bs)"
  by (induction bs arbitrary: q) (simp_all add: comp_def)

lemma set_fst_decoded_of [simp]: "fst ` set (decoded_of expected q bs) = rr_key ` set (results_of bs)"
  by (metis list.set_map map_fst_decoded_of)

lemma expected_specs_Inr:
  "expected_specs acc specs = Inr e \<longleftrightarrow>
     distinct (map spec_key specs) \<and> set (map spec_key specs) \<inter> set (map fst acc) = {}
     \<and> e = acc @ map (\<lambda>p. (spec_key p, p)) specs"
  by (induction acc specs rule: expected_specs.induct) (auto simp: Let_def)

lemma decode_results_Inr:
  "decode_results expected q raws decoded = Inr out \<longleftrightarrow>
     set (map rr_key raws) \<subseteq> fst ` set expected \<and> distinct (map rr_key raws)
     \<and> set (map rr_key raws) \<inter> set (map fst decoded) = {}
     \<and> out = decoded @ map (\<lambda>r. (rr_key r, decode_raw (the (map_of expected (rr_key r))) r q)) raws"
proof (induction expected q raws decoded rule: decode_results.induct)
  case (2 expected q raw raws decoded)
  show ?case
  proof (cases "map_of expected (rr_key raw)")
    case None
    then have "rr_key raw \<notin> fst ` set expected" by (simp add: map_of_eq_None_iff)
    with None show ?thesis by simp
  next
    case (Some spec)
    then have "rr_key raw \<in> fst ` set expected" by (metis map_of_eq_None_iff option.distinct(1))
    with "2.IH" [OF Some] Some show ?thesis by auto
  qed
qed auto

lemma decode_batches_Inr:
  "decode_batches anchor expected q bs decoded = Inr out \<longleftrightarrow>
     (\<forall>i < length bs. check_batch anchor (q + i) (bs ! i) = Inr ())
     \<and> set (map rr_key (results_of bs)) \<subseteq> fst ` set expected
     \<and> distinct (map rr_key (results_of bs)) \<and> set (map rr_key (results_of bs)) \<inter> set (map fst decoded) = {}
     \<and> out = decoded @ decoded_of expected q bs"
proof (induction bs arbitrary: q decoded)
  case (Cons b bs)
  have all: "(\<forall>i < length (b # bs). check_batch anchor (q + i) ((b # bs) ! i) = Inr ()) \<longleftrightarrow>
      check_batch anchor q b = Inr () \<and> (\<forall>i < length bs. check_batch anchor (q + 1 + i) (bs ! i) = Inr ())"
    by (auto simp: less_Suc_eq_0_disj)
  let ?f = "\<lambda>r. (rr_key r, decode_raw (the (map_of expected (rr_key r))) r q)"
  have "set (map fst (decoded @ map ?f (vb_results b))) = set (map fst decoded) \<union> set (map rr_key (vb_results b))"
    by (simp add: image_image)
  note IH = Cons.IH [of "q + 1" "decoded @ map ?f (vb_results b)", unfolded this]
  have "decode_batches anchor expected q (b # bs) decoded = Inr out \<longleftrightarrow>
      check_batch anchor q b = Inr () \<and> set (map rr_key (vb_results b)) \<subseteq> fst ` set expected
      \<and> distinct (map rr_key (vb_results b)) \<and> set (map rr_key (vb_results b)) \<inter> set (map fst decoded) = {}
      \<and> decode_batches anchor expected (q + 1) bs (decoded @ map ?f (vb_results b)) = Inr out"
    by (simp add: bind_res_Inr decode_results_Inr)
  then show ?case
    unfolding all IH results_of_simps map_append set_append distinct_append decoded_of.simps append_assoc
      Suc_eq_plus1
    by (simp only: Int_Un_distrib Int_Un_distrib2 Un_subset_iff Un_empty conj_ac inf_commute)
qed auto

lemma missing_keys_Nil: "missing_keys expected received = [] \<longleftrightarrow> set expected \<subseteq> set received"
proof -
  have "missing_keys expected received = [] \<longleftrightarrow> set (missing_keys expected received) = {}" by simp
  also have "\<dots> \<longleftrightarrow> set expected \<subseteq> set received" by (auto simp: missing_keys_def)
  finally show ?thesis .
qed

text \<open>When the batches of an answer pass the collector's checks.\<close>

definition answer_ok :: "block_ref \<Rightarrow> verified_batch_result list \<Rightarrow> bool" where
  "answer_ok anchor bs \<longleftrightarrow> (\<forall>b \<in> set bs. ve_verified (vb_evidence b)
     \<and> str_lower (ve_anchor_hash (vb_evidence b)) = str_lower (block_hash anchor)
     \<and> digest_raw_results (vb_results b) = Inr (ve_result_digest (vb_evidence b)))"

lemma check_batch_Inr:
  "check_batch anchor q b = Inr () \<longleftrightarrow> ve_verified (vb_evidence b)
     \<and> str_lower (ve_anchor_hash (vb_evidence b)) = str_lower (block_hash anchor)
     \<and> digest_raw_results (vb_results b) = Inr (ve_result_digest (vb_evidence b))"
  by (auto simp: check_batch_def bind_res_Inr split: if_splits)

lemma check_batches_answer_ok:
  "(\<forall>i < length bs. check_batch anchor (q + i) (bs ! i) = Inr ()) \<longleftrightarrow> answer_ok anchor bs"
  unfolding check_batch_Inr answer_ok_def by (metis in_set_conv_nth)

lemma execute_uint_calls_Inr:
  "execute_uint_calls execute specs anchor s = (Inr d, s') \<longleftrightarrow>
     distinct (map spec_key specs)
     \<and> (\<exists>bs. execute (map us_call specs) anchor s = (Inr bs, s') \<and> answer_ok anchor bs
          \<and> distinct (map rr_key (results_of bs))
          \<and> set (map rr_key (results_of bs)) = set (map spec_key specs)
          \<and> d = \<lparr>dx_calls = decoded_of (map (\<lambda>p. (spec_key p, p)) specs) 0 bs, dx_batches = evidence_of 0 bs\<rparr>)"
  (is "?L \<longleftrightarrow> ?R")
proof -
  have keys: "fst ` set (map (\<lambda>p. (spec_key p, p)) specs) = set (map spec_key specs)" by (simp add: image_image)
  have step: "execute_uint_calls execute specs anchor s = (Inr d, s') \<longleftrightarrow>
      distinct (map spec_key specs) \<and> (\<exists>bs. execute (map us_call specs) anchor s = (Inr bs, s')
        \<and> (\<exists>out. decode_batches anchor (map (\<lambda>p. (spec_key p, p)) specs) 0 bs [] = Inr out
          \<and> missing_keys (map spec_key specs) (map fst out) = []
          \<and> d = \<lparr>dx_calls = out, dx_batches = evidence_of 0 bs\<rparr>))"
    by (auto simp: execute_uint_calls_def bind_io_Inr expected_specs_Inr Let_def comp_def split: if_splits)
  let ?e = "map (\<lambda>p. (spec_key p, p)) specs"
  have out: "(\<exists>out. decode_batches anchor ?e 0 bs [] = Inr out
        \<and> missing_keys (map spec_key specs) (map fst out) = [] \<and> d = \<lparr>dx_calls = out, dx_batches = evidence_of 0 bs\<rparr>)
      \<longleftrightarrow> answer_ok anchor bs \<and> distinct (map rr_key (results_of bs))
          \<and> set (map rr_key (results_of bs)) = set (map spec_key specs)
          \<and> d = \<lparr>dx_calls = decoded_of ?e 0 bs, dx_batches = evidence_of 0 bs\<rparr>" (is "?A \<longleftrightarrow> ?B") for bs
  proof
    assume ?A
    then show ?B unfolding decode_batches_Inr check_batches_answer_ok missing_keys_Nil keys
      by (simp add: subset_antisym)
  next
    assume ?B
    then show ?A unfolding decode_batches_Inr check_batches_answer_ok missing_keys_Nil keys by simp
  qed
  show ?thesis unfolding step out ..
qed

lemma evidence_of_verified: "answer_ok anchor bs \<Longrightarrow> list_all (ve_verified \<circ> cb_evidence) (evidence_of q bs)"
  by (induction bs arbitrary: q) (auto simp: answer_ok_def batch_evidence_def)

text \<open>
  For an executor that keeps the contract the checks cannot fail, and the decoded calls are the
  planned ones, in the planned order.
\<close>

context executor
begin

lemma answer_ok:
  assumes "execute calls anchor s = (Inr bs, s')"
  shows "answer_ok anchor bs"
proof -
  have "str_lower h = str_lower (block_hash anchor)" if "normalize_hash (JStr (block_hash anchor)) = Inr h" for h
    using that by (auto simp: normalize_hash_def split: if_splits)
  with verified [OF assms] show ?thesis by (auto simp: answer_ok_def evidence_ok_def list_all_iff)
qed

lemma uint_calls_return:
  assumes "distinct (map spec_key specs)" and "execute (map us_call specs) anchor s = (Inr bs, s')"
  shows "execute_uint_calls execute specs anchor s
    = (Inr \<lparr>dx_calls = decoded_of (map (\<lambda>p. (spec_key p, p)) specs) 0 bs, dx_batches = evidence_of 0 bs\<rparr>, s')"
proof -
  have "map rr_key (results_of bs) = map spec_key specs"
    using answers_in_order [OF assms(2)] by (simp add: comp_def)
  then have "distinct (map rr_key (results_of bs))" "set (map rr_key (results_of bs)) = set (map spec_key specs)"
    using assms(1) by simp_all
  then show ?thesis unfolding execute_uint_calls_Inr using assms answer_ok [OF assms(2)] by blast
qed

lemma uint_calls_in_order:
  assumes "execute_uint_calls execute specs anchor s = (Inr d, s')"
  shows "map fst (dx_calls d) = map spec_key specs"
  using assms answers_in_order by (auto simp: execute_uint_calls_Inr comp_def)

end

text \<open>How a decoded call relates to the raw results it was decoded from.\<close>

lemma decoded_of_lookup:
  assumes "distinct (map fst expected)"
    and "set (map rr_key (results_of bs)) \<subseteq> fst ` set expected"
    and "map_of (decoded_of expected q bs) k = Some c"
  shows "\<exists>spec raw n. (k, spec) \<in> set expected \<and> raw \<in> set (results_of bs) \<and> rr_key raw = k \<and> c = decode_raw spec raw n"
  using assms(2,3)
proof (induction bs arbitrary: q)
  case (Cons b bs)
  let ?f = "\<lambda>r. (rr_key r, decode_raw (the (map_of expected (rr_key r))) r q)"
  show ?case
  proof (cases "map_of (map ?f (vb_results b)) k")
    case None
    with Cons.prems(2) have "map_of (decoded_of expected (Suc q) bs) k = Some c" by (simp add: map_add_Some_iff)
    with Cons.IH [of "Suc q"] Cons.prems(1) show ?thesis by auto
  next
    case (Some c')
    with Cons.prems(2) have "c' = c" by (simp add: map_add_Some_iff)
    with Some obtain r where r: "r \<in> set (vb_results b)" "k = rr_key r"
      "c = decode_raw (the (map_of expected (rr_key r))) r q"
      by (auto dest!: map_of_SomeD)
    with Cons.prems(1) have "rr_key r \<in> fst ` set expected" by auto
    with assms(1) obtain spec where "(rr_key r, spec) \<in> set expected" "map_of expected (rr_key r) = Some spec"
      by auto
    with r show ?thesis by auto
  qed
qed simp

text \<open>
  A strict execution is complete and verified, whatever the executor does. When
  \<open>execute_uint_calls\<close> returns, the call keys were distinct; every planned call, and nothing
  else, was answered exactly once; the decoded observation of each key comes from a result with
  that key of the executor's answer, decoded against the call planned under that key; and every
  batch of the answer was marked verified, named the anchor's hash and digests to the digest in
  its evidence.
\<close>

theorem uint_calls_complete:
  assumes "execute_uint_calls execute specs anchor s = (Inr d, s')"
  shows "\<exists>bs. execute (map us_call specs) anchor s = (Inr bs, s') \<and> answer_ok anchor bs
    \<and> dx_batches d = evidence_of 0 bs
    \<and> distinct (map fst (dx_calls d)) \<and> set (map fst (dx_calls d)) = set (map spec_key specs)
    \<and> distinct (map spec_key specs)
    \<and> (\<forall>k c. map_of (dx_calls d) k = Some c \<longrightarrow>
         (\<exists>spec \<in> set specs. \<exists>raw \<in> set (results_of bs). \<exists>n.
            spec_key spec = k \<and> rr_key raw = k \<and> c = decode_raw spec raw n))"
proof -
  from assms obtain bs where bs: "distinct (map spec_key specs)"
    "execute (map us_call specs) anchor s = (Inr bs, s')" "answer_ok anchor bs"
    "distinct (map rr_key (results_of bs))" "set (map rr_key (results_of bs)) = set (map spec_key specs)"
    and d: "d = \<lparr>dx_calls = decoded_of (map (\<lambda>p. (spec_key p, p)) specs) 0 bs, dx_batches = evidence_of 0 bs\<rparr>"
    by (auto simp: execute_uint_calls_Inr)
  have "\<exists>spec \<in> set specs. \<exists>raw \<in> set (results_of bs). \<exists>n.
      spec_key spec = k \<and> rr_key raw = k \<and> c = decode_raw spec raw n"
    if c: "map_of (dx_calls d) k = Some c" for k c
  proof -
    have "distinct (map fst (map (\<lambda>p. (spec_key p, p)) specs))" using bs(1) by (simp add: comp_def)
    moreover have "set (map rr_key (results_of bs)) \<subseteq> fst ` set (map (\<lambda>p. (spec_key p, p)) specs)"
      using bs(5) by (simp add: image_image)
    moreover have "map_of (decoded_of (map (\<lambda>p. (spec_key p, p)) specs) 0 bs) k = Some c" using c d by simp
    ultimately have "\<exists>spec raw n. (k, spec) \<in> set (map (\<lambda>p. (spec_key p, p)) specs)
        \<and> raw \<in> set (results_of bs) \<and> rr_key raw = k \<and> c = decode_raw spec raw n"
      by (rule decoded_of_lookup)
    then show ?thesis by auto
  qed
  with bs d show ?thesis by (intro exI [of _ bs]) simp
qed

definition echo_executor :: "unit executor_fun" where
  "echo_executor calls anchor = (\<lambda>s.
     let results = map (\<lambda>c. ok_result (cc_key c) (to_bytes 32 7)) calls in
     (bind_res (digest_raw_results results) (\<lambda>digest.
      bind_res (normalize_hash (JStr (block_hash anchor))) (\<lambda>h.
        Inr [\<lparr>vb_results = results, vb_evidence = legacy_evidence ''eip1898'' h [''one''] digest\<rparr>])), s))"

lemma echo_executor: "executor echo_executor"
  by unfold_locales
     (auto simp: echo_executor_def Let_def bind_res_Inr evidence_ok_def legacy_evidence_def ok_result_def comp_def)

lemma echo_executor_returns:
  assumes "list_all (\<lambda>c. length (cc_key c) < 1000) calls"
  shows "\<exists>bs. echo_executor calls (sample_block n) s = (Inr bs, s)"
proof -
  let ?rs = "map (\<lambda>c. ok_result (cc_key c) (to_bytes 32 7)) calls"
  have "list_all (fields_ok \<circ> digest_fields) ?rs"
    using assms by (auto simp: list_all_iff fields_ok_def digest_fields_def ok_result_def result_code_def
        result_message_def)
  then have "\<exists>digest. digest_raw_results ?rs = Inr digest" by (auto simp: digest_raw_results_Inr)
  moreover have "\<exists>h. normalize_hash (JStr (block_hash (sample_block n))) = Inr h"
    using sample_hash_ok by (auto simp: normalize_hash_def sample_block_def)
  ultimately show ?thesis by (auto simp: echo_executor_def Let_def)
qed

definition sample_spec :: uint_call_spec where
  "sample_spec = \<lparr>us_call = sample_call_of ''k'', us_subject_address = ZERO_ADDRESS, us_call_kind = ''balanceOf''\<rparr>"

lemma sample_spec_returns:
  "\<exists>d. execute_uint_calls echo_executor [sample_spec] (sample_block 1) () = (Inr d, ())"
proof -
  have "\<exists>bs. echo_executor (map us_call [sample_spec]) (sample_block 1) () = (Inr bs, ())"
    by (rule echo_executor_returns) (simp add: sample_spec_def sample_call_of_def)
  then obtain bs where "echo_executor (map us_call [sample_spec]) (sample_block 1) () = (Inr bs, ())" ..
  from executor.uint_calls_return [OF echo_executor _ this] show ?thesis by simp
qed

theorem uint_calls_complete_witness:
  "\<exists>d. execute_uint_calls echo_executor [sample_spec] (sample_block 1) () = (Inr d, ())
     \<and> set (map fst (dx_calls d)) = {''k''}"
proof -
  obtain d where d: "execute_uint_calls echo_executor [sample_spec] (sample_block 1) () = (Inr d, ())"
    using sample_spec_returns ..
  from uint_calls_complete [OF d] have "set (map fst (dx_calls d)) = set (map spec_key [sample_spec])" by blast
  then have "set (map fst (dx_calls d)) = {''k''}" by (simp add: sample_spec_def sample_call_of_def)
  with d show ?thesis by blast
qed

text \<open>What the echoing executor of the witnesses makes a strict execution return.\<close>

lemma echo_uint_calls:
  assumes "distinct (map spec_key specs)" and "list_all (\<lambda>p. length (spec_key p) < 1000) specs"
  shows "\<exists>d. execute_uint_calls echo_executor specs (sample_block n) s = (Inr d, s)
    \<and> length (dx_calls d) = length specs \<and> list_all (ve_verified \<circ> cb_evidence) (dx_batches d)
    \<and> (\<forall>k c. map_of (dx_calls d) k = Some c \<longrightarrow> du_observation c = decode_uint256 True (RetBytes (to_bytes 32 7)))
    \<and> map fst (dx_calls d) = map spec_key specs"
proof -
  have "\<exists>bs. echo_executor (map us_call specs) (sample_block n) s = (Inr bs, s)"
    using assms(2) by (intro echo_executor_returns) (simp add: list_all_iff)
  then obtain bs where bs: "echo_executor (map us_call specs) (sample_block n) s = (Inr bs, s)" ..
  let ?e = "map (\<lambda>p. (spec_key p, p)) specs"
  let ?d = "\<lparr>dx_calls = decoded_of ?e 0 bs, dx_batches = evidence_of 0 bs\<rparr>"
  note ret = executor.uint_calls_return [OF echo_executor assms(1) bs]
  note keys = executor.uint_calls_in_order [OF echo_executor ret]
  have raw: "rr_success raw \<and> rr_returndata raw = to_bytes 32 7" if "raw \<in> set (results_of bs)" for raw
    using that bs by (auto simp: echo_executor_def Let_def bind_res_Inr ok_result_def)
  have "du_observation c = decode_uint256 True (RetBytes (to_bytes 32 7))" if c: "map_of (dx_calls ?d) k = Some c" for k c
  proof -
    have "distinct (map fst ?e)" using assms(1) by (simp add: comp_def)
    moreover have "set (map rr_key (results_of bs)) \<subseteq> fst ` set ?e"
      using keys by (simp add: image_image)
    ultimately obtain spec raw m where "raw \<in> set (results_of bs)" "c = decode_raw spec raw m"
      using decoded_of_lookup [of ?e bs 0 k c] c by auto
    then have "rr_success raw" "rr_returndata raw = to_bytes 32 7"
      using raw by blast+
    with \<open>c = decode_raw spec raw m\<close> show ?thesis by (simp add: decode_raw_def)
  qed
  moreover have "length (dx_calls ?d) = length specs"
    using arg_cong [OF keys, of length] by (simp only: length_map)
  moreover have "list_all (ve_verified \<circ> cb_evidence) (dx_batches ?d)"
    using executor.answer_ok [OF echo_executor bs] by (simp add: evidence_of_verified)
  ultimately show ?thesis using ret keys by (intro exI [of _ ?d] conjI) simp_all
qed

end
