(* ===== verification/Tokens.thy ===== *)
theory Tokens
  imports Collection
begin

text \<open>
  The ERC-20, aToken and pool reserve collectors (\<open>collectors/erc20.py\<close>, \<open>collectors/atoken.py\<close>,
  \<open>collectors/pools.py\<close>). Each plans one call per holder, scalar or asset, and each ends with the
  integrity checks that gate publication.
\<close>

subsection \<open>The holder-sum tolerance\<close>

text \<open>
  A decimal is a coefficient and a power of ten, as \<open>Decimal(repr(x))\<close> gives for a finite float.
  The product of two decimals is rounded half-even to the context's 28 significant digits, and
  \<open>int()\<close> truncates towards zero.
\<close>

type_synonym decimal = "int \<times> int"

definition round_half_even :: "int \<Rightarrow> int \<Rightarrow> int" where
  "round_half_even n d =
     (let q = n div d; r = n mod d in if 2 * r > d \<or> (2 * r = d \<and> odd q) then q + 1 else q)"

definition decimal_mul :: "int \<Rightarrow> decimal \<Rightarrow> decimal" where
  "decimal_mul x d =
     (let c = \<bar>x * fst d\<bar>; k = length (dec_digits (nat c)) - 28;
          c' = (if k = 0 then c else round_half_even c (10 ^ k)) in
      ((if x * fst d < 0 then - c' else c'), snd d + int k))"

definition decimal_int :: "decimal \<Rightarrow> int" where
  "decimal_int d =
     (let m = (if snd d \<ge> 0 then \<bar>fst d\<bar> * 10 ^ nat (snd d) else \<bar>fst d\<bar> div 10 ^ nat (- snd d)) in
      if fst d < 0 then - m else m)"

definition holder_sum_within_tolerance :: "int \<Rightarrow> int \<Rightarrow> decimal \<Rightarrow> bool res" where
  "holder_sum_within_tolerance observed expected tolerance =
     (if fst tolerance < 0 then raise_res ValueError ''relative tolerance must be >= 0''
      else Inr (\<bar>observed - expected\<bar> \<le> decimal_int (decimal_mul expected tolerance)))"

subsection \<open>Call planning\<close>

definition scalar_calldata :: "ext \<Rightarrow> string \<Rightarrow> bytes res" where
  "scalar_calldata ex function_name =
     (if function_name = ''totalSupply'' then Inr TOTAL_SUPPLY_SELECTOR
      else if function_name = ''scaledTotalSupply''
      then Inr (function_selector (ext_keccak ex) ''scaledTotalSupply()'')
      else raise_res ValueError (''unsupported uint256 scalar function: '' @ function_name))"

definition assert_universe :: "frozen_universe \<Rightarrow> unit res" where
  "assert_universe u =
     (if fu_addresses u \<noteq> sort (remdups (fu_addresses u))
      then raise_res ValueError ''frozen universe addresses must be unique and sorted''
      else if fst ` set (fu_sources u) \<noteq> set (fu_addresses u)
      then raise_res ValueError ''frozen universe provenance must cover every address exactly''
      else Inr ())"

definition uint_spec :: "string \<Rightarrow> string \<Rightarrow> bytes \<Rightarrow> string \<Rightarrow> string \<Rightarrow> uint_call_spec" where
  "uint_spec key target calldata subject kind =
     \<lparr>us_call = \<lparr>cc_key = key, cc_target = target, cc_calldata = calldata, cc_allow_failure = True\<rparr>,
      us_subject_address = subject, us_call_kind = kind\<rparr>"

definition balance_spec :: "token_config \<Rightarrow> string \<Rightarrow> uint_call_spec res" where
  "balance_spec token holder =
     bind_res (balance_of_calldata holder) (\<lambda>calldata.
       Inr (uint_spec (''balanceOf/'' @ holder) (tc_address token) calldata holder ''balanceOf''))"

fun scalar_specs :: "ext \<Rightarrow> token_config \<Rightarrow> string list \<Rightarrow> string list \<Rightarrow> uint_call_spec list res" where
  "scalar_specs ex token seen [] = Inr []"
| "scalar_specs ex token seen (name # names) =
     (if name \<in> set seen then raise_res ValueError (''duplicate supply function: '' @ name)
      else bind_res (scalar_calldata ex name) (\<lambda>calldata.
           bind_res (scalar_specs ex token (name # seen) names) (\<lambda>specs.
             Inr (uint_spec (''scalar/'' @ name) (tc_address token) calldata (tc_address token) name # specs))))"

definition sentinel_key :: string where
  "sentinel_key = ''sentinel/'' @ ZERO_ADDRESS"

definition reads_sentinel :: "token_config \<Rightarrow> integrity_mode \<Rightarrow> bool" where
  "reads_sentinel token mode \<longleftrightarrow> mode = FULL_SUPPLY \<and> tc_zero_address_role token = EVENT_SENTINEL"

definition sentinel_spec :: "token_config \<Rightarrow> uint_call_spec res" where
  "sentinel_spec token =
     bind_res (balance_of_calldata ZERO_ADDRESS) (\<lambda>calldata.
       Inr (uint_spec sentinel_key (tc_address token) calldata ZERO_ADDRESS ''balanceOf_sentinel''))"

definition erc20_specs :: "ext \<Rightarrow> token_config \<Rightarrow> frozen_universe \<Rightarrow> integrity_mode \<Rightarrow> uint_call_spec list res" where
  "erc20_specs ex token universe mode =
     bind_res (map_res (balance_spec token) (fu_addresses universe)) (\<lambda>balances.
     bind_res (scalar_specs ex token [] (tc_supply_functions token)) (\<lambda>scalars.
     bind_res (if reads_sentinel token mode then bind_res (sentinel_spec token) (\<lambda>s. Inr [s]) else Inr []) (\<lambda>sentinel.
       Inr (balances @ scalars @ sentinel))))"

subsection \<open>Materialisation\<close>

text \<open>
  One step of the loops over decoded calls: the observed value with its batch, or the error
  row. \<open>decoded.calls[key]\<close> raises \<open>KeyError\<close> for an unknown key.
\<close>

definition observe :: "decoded_execution \<Rightarrow> string \<Rightarrow> (collection_error + int \<times> nat) res" where
  "observe decoded key =
     bind_res (lookup_key (dx_calls decoded) key) (\<lambda>c.
       if \<not> obs_ok (du_observation c) then bind_res (as_error c) (\<lambda>e. Inr (Inl e))
       else case obs_value (du_observation c) of
              None \<Rightarrow> raise_res AssertionError ''successful uint256 observation has no value''
            | Some v \<Rightarrow> Inr (Inr (v, du_batch_sequence c)))"

fun observe_all ::
  "decoded_execution \<Rightarrow> ('a \<times> string) list \<Rightarrow> (('a \<times> int \<times> nat) list \<times> collection_error list) res" where
  "observe_all decoded [] = Inr ([], [])"
| "observe_all decoded ((subject, key) # rest) =
     bind_res (observe decoded key) (\<lambda>o1.
     bind_res (observe_all decoded rest) (\<lambda>(rows, errors).
       case o1 of Inl e \<Rightarrow> Inr (rows, e # errors) | Inr v \<Rightarrow> Inr ((subject, v) # rows, errors)))"

definition direct_row :: "string \<times> int \<times> nat \<Rightarrow> balance_row" where
  "direct_row = (\<lambda>(holder, v, sequence).
     \<lparr>bal_holder_address = holder, bal_balance_raw = v, bal_scaled_balance_raw = None,
      bal_value_kind = ''direct'', bal_batch_sequence = sequence\<rparr>)"

definition scalar_row_of :: "string \<times> int \<times> nat \<Rightarrow> scalar_row" where
  "scalar_row_of = (\<lambda>(name, v, sequence).
     \<lparr>sc_scalar_name = name, sc_scalar_raw = v, sc_batch_sequence = sequence\<rparr>)"

definition scalar_value :: "(string \<times> int \<times> nat) list \<Rightarrow> string \<Rightarrow> int option" where
  "scalar_value rows name = map_option fst (map_of rows name)"

definition complete_check :: "string \<Rightarrow> bool \<Rightarrow> nat \<Rightarrow> nat \<Rightarrow> integrity_result" where
  "complete_check check passed observed expected =
     \<lparr>ir_passed = passed, ir_check = check, ir_observed = Some (int observed), ir_expected = Some (int expected)\<rparr>"

text \<open>
  The supply check of a \<open>full_supply\<close> census. \<open>and\<close> is lazy: the tolerance is evaluated only for
  a complete collection with a known supply.
\<close>

definition erc20_supply_check ::
  "decimal \<Rightarrow> bool \<Rightarrow> int \<Rightarrow> int option \<Rightarrow> int option \<Rightarrow> integrity_result res" where
  "erc20_supply_check tolerance is_complete observed_sum total_supply sentinel_balance =
     (let expected = (case (total_supply, sentinel_balance) of
                        (Some t, Some z) \<Rightarrow> Some (t - z) | _ \<Rightarrow> total_supply) in
      bind_res (if is_complete \<and> expected \<noteq> None
                then holder_sum_within_tolerance observed_sum (the expected) tolerance else Inr False) (\<lambda>passed.
        Inr \<lparr>ir_passed = passed, ir_check = ''holder_sum_equals_total_supply'',
             ir_observed = Some observed_sum, ir_expected = expected\<rparr>))"

definition erc20_guards :: "token_config \<Rightarrow> frozen_universe \<Rightarrow> block_ref \<Rightarrow> integrity_mode \<Rightarrow> unit res" where
  "erc20_guards token universe anchor mode =
     (if is_atoken token then raise_res ValueError ''aTokens must use ATokenCollector''
      else if tc_balance_function token \<noteq> ''balanceOf''
      then raise_res ValueError ''ERC-20 collector requires balanceOf''
      else if mode \<notin> {FULL_SUPPLY, SCOPED}
      then raise_res ValueError (''unsupported ERC-20 integrity mode: '' @ integrity_mode_value mode)
      else if number anchor < tc_deployment_block token
      then raise_res ValueError ''token is not deployed at the requested anchor''
      else assert_universe universe)"

definition erc20_result ::
  "decimal \<Rightarrow> token_config \<Rightarrow> frozen_universe \<Rightarrow> integrity_mode \<Rightarrow> uint_call_spec list
   \<Rightarrow> decoded_execution \<Rightarrow> token_collection_result res" where
  "erc20_result tolerance token universe mode specs decoded =
     bind_res (observe_all decoded (map (\<lambda>h. (h, ''balanceOf/'' @ h)) (fu_addresses universe))) (\<lambda>(balances, balance_errors).
     bind_res (observe_all decoded (map (\<lambda>n. (n, ''scalar/'' @ n)) (tc_supply_functions token))) (\<lambda>(scalars, scalar_errors).
     let (is_complete, successful) = completeness_check (length specs) decoded in
     bind_res (if reads_sentinel token mode then observe_all decoded [((), sentinel_key)] else Inr ([], [])) (\<lambda>(sentinel, sentinel_errors).
     bind_res (if mode = FULL_SUPPLY
               then erc20_supply_check tolerance is_complete (sum_list (map (fst \<circ> snd) balances))
                      (scalar_value scalars ''totalSupply'')
                      (case sentinel of [] \<Rightarrow> None | (_, z, _) # _ \<Rightarrow> Some z)
               else Inr (integrity_complete ''scoped_coverage_no_supply_invariant'')) (\<lambda>check.
       Inr \<lparr>tr_token_address = tc_address token, tr_universe_hash = fu_universe_hash universe,
            tr_integrity_mode = mode, tr_expected_calls = length specs,
            tr_balances = map direct_row balances, tr_scalars = map scalar_row_of scalars,
            tr_errors = balance_errors @ scalar_errors @ sentinel_errors, tr_batches = dx_batches decoded,
            tr_integrity_checks =
              [complete_check ''observations_complete'' is_complete successful (length specs), check]\<rparr>))))"

definition erc20_collect ::
  "'s executor_fun \<Rightarrow> ext \<Rightarrow> decimal \<Rightarrow> token_config \<Rightarrow> frozen_universe \<Rightarrow> block_ref \<Rightarrow> integrity_mode
   \<Rightarrow> ('s, token_collection_result) io" where
  "erc20_collect execute ex tolerance token universe anchor mode =
     bind_io (lift_res (erc20_guards token universe anchor mode)) (\<lambda>_.
     bind_io (lift_res (erc20_specs ex token universe mode)) (\<lambda>specs.
     bind_io (execute_uint_calls execute specs anchor) (\<lambda>decoded.
       lift_res (erc20_result tolerance token universe mode specs decoded))))"

subsection \<open>The aToken collector\<close>

definition RAY :: int where
  "RAY = 10 ^ 27"

definition HALF_RAY :: int where
  "HALF_RAY = 5 * 10 ^ 26"

definition ray_mul_half_up :: "int \<Rightarrow> int \<Rightarrow> int res" where
  "ray_mul_half_up v ray_factor =
     (if \<not> (0 \<le> v \<and> v \<le> UINT256_MAX) \<or> \<not> (0 \<le> ray_factor \<and> ray_factor \<le> UINT256_MAX)
      then raise_res ValueError ''rayMul operand is outside uint256''
      else let out = (v * ray_factor + HALF_RAY) div RAY in
           if out > UINT256_MAX then raise_res OverflowError ''rayMul result is outside uint256''
           else Inr out)"

definition atoken_guards :: "token_config \<Rightarrow> frozen_universe \<Rightarrow> block_ref \<Rightarrow> integrity_mode \<Rightarrow> index_source_config res" where
  "atoken_guards token universe anchor mode =
     (if \<not> is_atoken token then raise_res ValueError ''ATokenCollector requires an aToken config''
      else if tc_balance_function token \<noteq> ''scaledBalanceOf''
      then raise_res ValueError ''aToken collector requires scaledBalanceOf''
      else case tc_index_source token of
        None \<Rightarrow> raise_res ValueError ''aToken config has no index source''
      | Some index \<Rightarrow>
          if mode \<notin> {SCALED_FULL_SUPPLY, SCOPED}
          then raise_res ValueError (''unsupported aToken integrity mode: '' @ integrity_mode_value mode)
          else if number anchor < tc_deployment_block token
          then raise_res ValueError ''token is not deployed at the requested anchor''
          else bind_res (assert_universe universe) (\<lambda>_. Inr index))"

definition scaled_spec :: "ext \<Rightarrow> token_config \<Rightarrow> string \<Rightarrow> uint_call_spec res" where
  "scaled_spec ex token holder =
     bind_res (address_word holder) (\<lambda>w.
       Inr (uint_spec (''scaledBalanceOf/'' @ holder) (tc_address token)
              (function_selector (ext_keccak ex) ''scaledBalanceOf(address)'' @ w) holder ''scaledBalanceOf''))"

definition index_spec :: "ext \<Rightarrow> index_source_config \<Rightarrow> uint_call_spec res" where
  "index_spec ex index =
     bind_res (address_word (is_argument index)) (\<lambda>w.
       Inr (uint_spec (''scalar/'' @ is_output_name index) (is_contract index)
              (function_selector (ext_keccak ex) ''getReserveNormalizedIncome(address)'' @ w)
              (is_contract index) (is_function index)))"

definition atoken_specs :: "ext \<Rightarrow> token_config \<Rightarrow> frozen_universe \<Rightarrow> index_source_config \<Rightarrow> uint_call_spec list res" where
  "atoken_specs ex token universe index =
     bind_res (map_res (scaled_spec ex token) (fu_addresses universe)) (\<lambda>balances.
     bind_res (scalar_specs ex token [] (tc_supply_functions token)) (\<lambda>scalars.
     bind_res (index_spec ex index) (\<lambda>i.
       Inr (balances @ scalars @ [i]))))"

definition reconstruct_error :: "observation_status \<Rightarrow> string \<Rightarrow> string \<Rightarrow> nat \<Rightarrow> collection_error" where
  "reconstruct_error status message holder sequence =
     \<lparr>er_subject_address = holder, er_call_kind = ''ray_reconstruct'', er_status = status,
      er_batch_sequence = sequence, er_message = message, er_rpc_code = None, er_return_data = []\<rparr>"

fun reconstruct :: "int \<Rightarrow> (string \<times> int \<times> nat) list \<Rightarrow> balance_row list \<times> collection_error list" where
  "reconstruct index [] = ([], [])"
| "reconstruct index ((holder, scaled, sequence) # rest) =
     (let (rows, errors) = reconstruct index rest in
      case ray_mul_half_up scaled index of
        Inl e \<Rightarrow> (rows, reconstruct_error MALFORMED_RETURN (exn_str e) holder sequence # errors)
      | Inr v \<Rightarrow>
          (\<lparr>bal_holder_address = holder, bal_balance_raw = v, bal_scaled_balance_raw = Some scaled,
            bal_value_kind = ''ray_reconstructed'', bal_batch_sequence = sequence\<rparr> # rows, errors))"

definition reconstruct_balances ::
  "string \<Rightarrow> int option \<Rightarrow> (string \<times> int \<times> nat) list \<Rightarrow> balance_row list \<times> collection_error list" where
  "reconstruct_balances output_name liquidity_index scaled_values =
     (case liquidity_index of
        None \<Rightarrow> ([], map (\<lambda>(holder, _, sequence).
                   reconstruct_error RPC_ERROR (output_name @ '' is unavailable'') holder sequence) scaled_values)
      | Some i \<Rightarrow> reconstruct i scaled_values)"

definition atoken_finish ::
  "token_config \<Rightarrow> frozen_universe \<Rightarrow> integrity_mode \<Rightarrow> index_source_config \<Rightarrow> uint_call_spec list
   \<Rightarrow> decoded_execution \<Rightarrow> (string \<times> int \<times> nat) list \<times> collection_error list
   \<Rightarrow> (string \<times> int \<times> nat) list \<times> collection_error list \<Rightarrow> token_collection_result" where
  "atoken_finish token universe mode index specs decoded scaled scalars =
     (let ray = reconstruct_balances (is_output_name index) (scalar_value (fst scalars) (is_output_name index)) (fst scaled);
          errors = snd scaled @ snd scalars @ snd ray;
          (calls_complete, successful) = completeness_check (length specs) decoded;
          is_complete = (calls_complete \<and> length (fst ray) = fu_size universe \<and> errors = []);
          scaled_sum = sum_list (map (fst \<circ> snd) (fst scaled));
          expected = scalar_value (fst scalars) ''scaledTotalSupply'';
          check = (if mode = SCALED_FULL_SUPPLY
                   then \<lparr>ir_passed = (is_complete \<and> expected = Some scaled_sum),
                         ir_check = ''scaled_holder_sum_equals_scaled_total_supply'',
                         ir_observed = Some scaled_sum, ir_expected = expected\<rparr>
                   else integrity_complete ''scoped_coverage_no_supply_invariant'') in
      \<lparr>tr_token_address = tc_address token, tr_universe_hash = fu_universe_hash universe,
       tr_integrity_mode = mode, tr_expected_calls = length specs,
       tr_balances = fst ray, tr_scalars = map scalar_row_of (fst scalars),
       tr_errors = errors, tr_batches = dx_batches decoded,
       tr_integrity_checks =
         [complete_check ''observations_complete'' is_complete successful (length specs), check]\<rparr>)"

definition atoken_result ::
  "token_config \<Rightarrow> frozen_universe \<Rightarrow> integrity_mode \<Rightarrow> index_source_config \<Rightarrow> uint_call_spec list
   \<Rightarrow> decoded_execution \<Rightarrow> token_collection_result res" where
  "atoken_result token universe mode index specs decoded =
     bind_res (observe_all decoded (map (\<lambda>h. (h, ''scaledBalanceOf/'' @ h)) (fu_addresses universe))) (\<lambda>scaled.
     bind_res (observe_all decoded (map (\<lambda>n. (n, ''scalar/'' @ n)) (tc_supply_functions token @ [is_output_name index]))) (\<lambda>scalars.
       Inr (atoken_finish token universe mode index specs decoded scaled scalars)))"

definition atoken_collect ::
  "'s executor_fun \<Rightarrow> ext \<Rightarrow> token_config \<Rightarrow> frozen_universe \<Rightarrow> block_ref \<Rightarrow> integrity_mode
   \<Rightarrow> ('s, token_collection_result) io" where
  "atoken_collect execute ex token universe anchor mode =
     bind_io (lift_res (atoken_guards token universe anchor mode)) (\<lambda>index.
     bind_io (lift_res (atoken_specs ex token universe index)) (\<lambda>specs.
     bind_io (execute_uint_calls execute specs anchor) (\<lambda>decoded.
       lift_res (atoken_result token universe mode index specs decoded))))"

subsection \<open>The pool reserve collector\<close>

definition reserve_key :: "pool_config \<Rightarrow> string \<Rightarrow> string" where
  "reserve_key pool token_address = ''reserve/'' @ pc_address pool @ ''/'' @ token_address"

definition reserve_spec :: "pool_config \<Rightarrow> string \<Rightarrow> uint_call_spec res" where
  "reserve_spec pool token_address =
     bind_res (balance_of_calldata (pc_address pool)) (\<lambda>calldata.
       Inr (uint_spec (reserve_key pool token_address) token_address calldata token_address ''balanceOf(pool)''))"

definition pool_guards :: "pool_config \<Rightarrow> block_ref \<Rightarrow> integrity_mode \<Rightarrow> string list res" where
  "pool_guards pool anchor mode =
     (if mode \<noteq> POOL_ASSETS then raise_res ValueError ''pool reserve collection requires pool_assets integrity''
      else if number anchor < pc_deployment_block pool
      then raise_res ValueError ''pool is not deployed at the requested anchor''
      else let assets = sort (pc_assets pool) in
           if \<not> distinct assets then raise_res ValueError ''pool asset list contains duplicate token addresses''
           else Inr assets)"

definition pool_row :: "pool_config \<Rightarrow> string \<times> int \<times> nat \<Rightarrow> pool_balance_row" where
  "pool_row pool = (\<lambda>(token_address, v, sequence).
     \<lparr>pb_pool_address = pc_address pool, pb_token_address = token_address, pb_balance_raw = v,
      pb_batch_sequence = sequence\<rparr>)"

definition pool_collect ::
  "'s executor_fun \<Rightarrow> pool_config \<Rightarrow> block_ref \<Rightarrow> integrity_mode \<Rightarrow> ('s, pool_collection_result) io" where
  "pool_collect execute pool anchor mode =
     bind_io (lift_res (pool_guards pool anchor mode)) (\<lambda>assets.
     bind_io (lift_res (map_res (reserve_spec pool) assets)) (\<lambda>specs.
     bind_io (execute_uint_calls execute specs anchor) (\<lambda>decoded.
     bind_io (lift_res (observe_all decoded (map (\<lambda>a. (a, reserve_key pool a)) assets))) (\<lambda>(balances, errors).
     let (is_complete, successful) = completeness_check (length specs) decoded in
       ret \<lparr>pr_pool_address = pc_address pool, pr_integrity_mode = mode, pr_expected_calls = length specs,
            pr_balances = map (pool_row pool) balances, pr_errors = errors, pr_batches = dx_batches decoded,
            pr_integrity_checks =
              [complete_check ''pool_asset_observations_complete'' is_complete successful (length specs)]\<rparr>))))"

subsection \<open>Lemmas\<close>

definition observed :: "decoded_execution \<Rightarrow> string \<Rightarrow> int \<Rightarrow> bool" where
  "observed d key v \<longleftrightarrow> (\<exists>q. observe d key = Inr (Inr (v, q)))"

lemma observe_all_complete:
  assumes "observe_all d ps = Inr (rows, [])"
  shows "map fst rows = map fst ps \<and> list_all2 (\<lambda>p r. observed d (snd p) (fst (snd r))) ps rows"
  using assms
proof (induction ps arbitrary: rows)
  case (Cons p ps)
  obtain x k where p: "p = (x, k)" by (cases p)
  from Cons.prems obtain o1 rs es where o: "observe d k = Inr o1" "observe_all d ps = Inr (rs, es)"
    and c: "(case o1 of Inl e \<Rightarrow> Inr (rs, e # es) | Inr v \<Rightarrow> Inr ((x, v) # rs, es)) = (Inr (rows, []) :: _ res)"
    by (auto simp: p bind_res_Inr)
  from c obtain v where "o1 = Inr v" "rows = (x, v) # rs" "es = []" by (cases o1) auto
  with o Cons.IH [of rs] show ?case by (cases v) (auto simp: p observed_def)
qed simp

lemma list_all2_witness: "list_all2 P xs ys \<Longrightarrow> x \<in> set xs \<Longrightarrow> \<exists>y \<in> set ys. P x y"
  by (induction rule: list_all2_induct) auto

lemma scalar_value_observed:
  assumes "observe_all d (map (\<lambda>n. (n, ''scalar/'' @ n)) names) = Inr (rows, [])" and "scalar_value rows n = Some v"
  shows "observed d (''scalar/'' @ n) v"
proof -
  from assms(2) obtain q where "(n, v, q) \<in> set rows" by (auto simp: scalar_value_def dest: map_of_SomeD)
  then obtain i where i: "i < length rows" "rows ! i = (n, v, q)" by (auto simp: in_set_conv_nth)
  from observe_all_complete [OF assms(1)] have eq: "map fst rows = names"
    and all: "list_all2 (\<lambda>p r. observed d (snd p) (fst (snd r))) (map (\<lambda>n. (n, ''scalar/'' @ n)) names) rows"
    by (simp_all add: comp_def)
  from eq i have "i < length names" "names ! i = n" by (auto simp: list_eq_iff_nth_eq)
  with all i show ?thesis by (auto simp: list_all2_conv_all_nth)
qed

lemma decimal_zero [simp]: "decimal_int (decimal_mul x (0, e)) = 0"
  by (auto simp: decimal_int_def decimal_mul_def Let_def round_half_even_def)

text \<open>
  The allowance of a tolerance \<open>c * 10^-k\<close> on a supply is exact as long as the product has at most
  28 digits.
\<close>

lemma tolerance_exact:
  assumes "0 \<le> x" and "0 \<le> c" and "length (dec_digits (nat (x * c))) \<le> 28"
  shows "decimal_int (decimal_mul x (c, - int k)) = x * c div 10 ^ k"
proof -
  have "0 \<le> x * c" using assms(1,2) by simp
  then show ?thesis using assms(3) by (auto simp: decimal_int_def decimal_mul_def Let_def)
qed

lemma all_verified_iff:
  "tr_verified r \<longleftrightarrow> tr_errors r = [] \<and> list_all (ve_verified \<circ> cb_evidence) (tr_batches r)
     \<and> list_all ir_passed (tr_integrity_checks r)"
  by (simp add: tr_verified_def all_verified_def)

lemma assert_universe_Inr:
  "assert_universe u = Inr () \<longleftrightarrow> sorted (fu_addresses u) \<and> distinct (fu_addresses u)
     \<and> fst ` set (fu_sources u) = set (fu_addresses u)"
proof -
  have "fu_addresses u = sort (remdups (fu_addresses u)) \<longleftrightarrow> sorted (fu_addresses u) \<and> distinct (fu_addresses u)"
    by (metis distinct_remdups distinct_remdups_id distinct_sort sorted_sort sorted_sort_id)
  then show ?thesis by (auto simp: assert_universe_def)
qed

subsection \<open>The integrity of an ERC-20 census\<close>

lemma list_all2_rows:
  assumes "list_all2 (\<lambda>p r. Q (snd p) (fst (snd r))) (map (\<lambda>h. (h, key h)) hs) rows" and "map fst rows = hs"
  shows "list_all2 (\<lambda>h r. fst r = h \<and> Q (key h) (fst (snd r))) hs rows"
  using assms by (auto simp: list_all2_conv_all_nth list_eq_iff_nth_eq)

lemma erc20_result_full_supply:
  assumes "erc20_result (0, e) token u FULL_SUPPLY specs d = Inr r" and "tr_verified r"
  shows "\<exists>total zero. observed d ''scalar/totalSupply'' total
    \<and> (if tc_zero_address_role token = EVENT_SENTINEL then observed d sentinel_key zero else zero = 0)
    \<and> sum_list (map bal_balance_raw (tr_balances r)) + zero = total"
proof -
  from assms(1) obtain bs be ss se zs ze check where
    b: "observe_all d (map (\<lambda>h. (h, ''balanceOf/'' @ h)) (fu_addresses u)) = Inr (bs, be)"
    and s: "observe_all d (map (\<lambda>n. (n, ''scalar/'' @ n)) (tc_supply_functions token)) = Inr (ss, se)"
    and z: "(if reads_sentinel token FULL_SUPPLY then observe_all d [((), sentinel_key)] else Inr ([], [])) = Inr (zs, ze)"
    and c: "erc20_supply_check (0, e) (fst (completeness_check (length specs) d)) (sum_list (map (fst \<circ> snd) bs))
        (scalar_value ss ''totalSupply'') (case zs of [] \<Rightarrow> None | (_, z, _) # _ \<Rightarrow> Some z) = Inr check"
    and r: "tr_balances r = map direct_row bs" "tr_errors r = be @ se @ ze" "check \<in> set (tr_integrity_checks r)"
    by (auto simp: erc20_result_def bind_res_Inr Let_def case_prod_unfold)
  from assms(2) r have no: "be = []" "se = []" "ze = []" and passed: "ir_passed check"
    by (auto simp: all_verified_iff list_all_iff)
  from c passed obtain total where total: "scalar_value ss ''totalSupply'' = Some total"
    by (cases "scalar_value ss ''totalSupply''")
       (auto simp: erc20_supply_check_def Let_def bind_res_Inr split: option.splits)
  have sum: "sum_list (map bal_balance_raw (tr_balances r)) = sum_list (map (fst \<circ> snd) bs)"
    by (simp add: r direct_row_def comp_def case_prod_unfold)
  have tot: "observed d ''scalar/totalSupply'' total"
    using scalar_value_observed [OF s [unfolded no] total] by simp
  show ?thesis
  proof (cases "tc_zero_address_role token = EVENT_SENTINEL")
    case True
    with z no have "observe_all d [((), sentinel_key)] = Inr (zs, [])" by (simp add: reads_sentinel_def)
    from observe_all_complete [OF this] obtain zero q where zs: "zs = [((), zero, q)]" "observed d sentinel_key zero"
      by (auto simp: list_all2_Cons1)
    with c passed total have "sum_list (map (fst \<circ> snd) bs) = total - zero"
      by (auto simp: erc20_supply_check_def Let_def bind_res_Inr holder_sum_within_tolerance_def split: if_splits)
    with sum tot zs True show ?thesis by (intro exI [of _ total] exI [of _ zero]) simp
  next
    case False
    with z have "zs = []" by (simp add: reads_sentinel_def)
    with c passed total have "sum_list (map (fst \<circ> snd) bs) = total"
      by (auto simp: erc20_supply_check_def Let_def bind_res_Inr holder_sum_within_tolerance_def split: if_splits)
    with sum tot False show ?thesis by (intro exI [of _ total] exI [of _ 0]) simp
  qed
qed

lemma erc20_result_rows:
  assumes "erc20_result tol token u mode specs d = Inr r" and "tr_verified r"
  shows "map bal_holder_address (tr_balances r) = fu_addresses u
    \<and> list_all2 (\<lambda>h row. observed d (''balanceOf/'' @ h) (bal_balance_raw row)) (fu_addresses u) (tr_balances r)
    \<and> map sc_scalar_name (tr_scalars r) = tc_supply_functions token
    \<and> list_all2 (\<lambda>n row. observed d (''scalar/'' @ n) (sc_scalar_raw row)) (tc_supply_functions token) (tr_scalars r)"
proof -
  from assms(1) obtain bs be ss se ze where
    b: "observe_all d (map (\<lambda>h. (h, ''balanceOf/'' @ h)) (fu_addresses u)) = Inr (bs, be)"
    and s: "observe_all d (map (\<lambda>n. (n, ''scalar/'' @ n)) (tc_supply_functions token)) = Inr (ss, se)"
    and r: "tr_balances r = map direct_row bs" "tr_scalars r = map scalar_row_of ss" "tr_errors r = be @ se @ ze"
    by (auto simp: erc20_result_def bind_res_Inr Let_def case_prod_unfold)
  from assms(2) r have no: "be = []" "se = []" by (auto simp: all_verified_iff)
  from observe_all_complete [OF b [unfolded no]] observe_all_complete [OF s [unfolded no]] show ?thesis
    by (auto simp: r direct_row_def scalar_row_of_def comp_def case_prod_unfold list_all2_map1 list_all2_map2)
qed

lemma erc20_collect_Inr:
  "erc20_collect execute ex tol token u anchor mode s = (Inr r, s') \<longleftrightarrow>
     erc20_guards token u anchor mode = Inr () \<and> (\<exists>specs d. erc20_specs ex token u mode = Inr specs
       \<and> execute_uint_calls execute specs anchor s = (Inr d, s') \<and> erc20_result tol token u mode specs d = Inr r)"
  by (auto simp: erc20_collect_def bind_io_Inr)


lemma decode_seven: "decode_uint256 True (RetBytes (to_bytes 32 7)) =
    \<lparr>obs_status = OK, obs_value = Some 7, obs_raw = to_bytes 32 7, obs_detail = None\<rparr>"
proof -
  have "from_bytes (to_bytes 32 7) = 7" by (simp add: from_to_bytes)
  moreover have "to_bytes 32 7 \<noteq> []" by (metis length_to_bytes list.size(3) zero_neq_numeral)
  ultimately show ?thesis by (simp add: decode_uint256_def returndata_bytes_def)
qed

text \<open>Every call of a plan observed as seven.\<close>

definition all_seven :: "decoded_execution \<Rightarrow> uint_call_spec list \<Rightarrow> bool" where
  "all_seven d specs \<longleftrightarrow> length (dx_calls d) = length specs \<and> list_all (ve_verified \<circ> cb_evidence) (dx_batches d)
     \<and> map fst (dx_calls d) = map spec_key specs
     \<and> (\<forall>k c. map_of (dx_calls d) k = Some c \<longrightarrow> du_observation c = decode_uint256 True (RetBytes (to_bytes 32 7)))"

lemma all_seven_observe:
  assumes "all_seven d specs" and "k \<in> set (map spec_key specs)"
  shows "\<exists>q. observe d k = Inr (Inr (7, q))"
proof -
  from assms have "map_of (dx_calls d) k \<noteq> None"
    by (metis all_seven_def list.set_map map_of_eq_None_iff)
  then obtain c where c: "map_of (dx_calls d) k = Some c" by blast
  with assms(1) have "du_observation c = decode_uint256 True (RetBytes (to_bytes 32 7))" by (simp add: all_seven_def)
  with c show ?thesis by (simp add: observe_def lookup_key_def decode_seven obs_ok_def)
qed

lemma all_seven_observe_all:
  assumes "all_seven d specs" and "snd ` set ps \<subseteq> set (map spec_key specs)"
  shows "\<exists>rows. observe_all d ps = Inr (rows, []) \<and> map fst rows = map fst ps
    \<and> map (\<lambda>r. fst (snd r)) rows = map (\<lambda>_. 7) ps"
  using assms(2)
proof (induction ps)
  case (Cons p ps)
  then have "\<exists>rows. observe_all d ps = Inr (rows, []) \<and> map fst rows = map fst ps
    \<and> map (\<lambda>r. fst (snd r)) rows = map (\<lambda>_. 7) ps" by (simp add: comp_def)
  then obtain rows where "observe_all d ps = Inr (rows, [])" "map fst rows = map fst ps"
    "map (\<lambda>r. fst (snd r)) rows = map (\<lambda>_. 7) ps" by blast
  moreover obtain q where "observe d (snd p) = Inr (Inr (7, q))"
    using all_seven_observe [OF assms(1), of "snd p"] Cons.prems by auto
  ultimately show ?case by (cases p) auto
qed simp

lemma all_seven_complete:
  assumes "all_seven d specs" and "distinct (map spec_key specs)"
  shows "completeness_check (length specs) d = (True, length specs)"
proof -
  have "obs_ok (du_observation c)" if "(k, c) \<in> set (dx_calls d)" for k c
  proof -
    have "map_of (dx_calls d) k = Some c"
      using assms that by (intro map_of_is_SomeI) (simp_all add: all_seven_def)
    with assms(1) show ?thesis by (simp add: all_seven_def decode_seven obs_ok_def)
  qed
  then have "filter (obs_ok \<circ> du_observation \<circ> snd) (dx_calls d) = dx_calls d"
    by (auto simp: filter_id_conv)
  with assms(1) show ?thesis by (simp add: completeness_check_def all_seven_def)
qed

definition plain_token :: token_config where
  "plain_token = (discovered_token_config (sample_address 2) 0)\<lparr>tc_zero_address_role := HOLDER\<rparr>"

definition one_holder :: frozen_universe where
  "one_holder = \<lparr>fu_addresses = [sample_address 3], fu_sources = [(sample_address 3, [''seed''])],
     fu_universe_hash = ''h''\<rparr>"

lemma balance_of_returns: "LOWER_ADDRESS_RE a \<Longrightarrow> \<exists>cd. balance_of_calldata a = Inr cd"
  using fromhex_address [of a]
  by (simp add: balance_of_calldata_def address_word_def fromhex_res_def)

lemma plain_specs:
  assumes "fu_addresses u = [sample_address 3]"
  shows "\<exists>x y. erc20_specs ex plain_token u FULL_SUPPLY = Inr [x, y]
     \<and> spec_key x = ''balanceOf/'' @ sample_address 3 \<and> spec_key y = ''scalar/totalSupply''"
proof -
  obtain cd where "balance_of_calldata (sample_address 3) = Inr cd"
    using balance_of_returns [OF sample_address_ok] by blast
  with assms show ?thesis
    by (simp add: erc20_specs_def plain_token_def discovered_token_config_def balance_spec_def
        reads_sentinel_def scalar_calldata_def uint_spec_def)
qed

lemma echo_first_batch:
  assumes "execute_uint_calls echo_executor specs anchor s = (Inr d, s')" and "observe d k = Inr (Inr (v, q))"
  shows "q = 0 \<and> (\<exists>b. dx_batches d = [b])"
proof -
  from assms(1) obtain bs where bs: "echo_executor (map us_call specs) anchor s = (Inr bs, s')"
    and d: "d = \<lparr>dx_calls = decoded_of (map (\<lambda>p. (spec_key p, p)) specs) 0 bs, dx_batches = evidence_of 0 bs\<rparr>"
    by (auto simp: execute_uint_calls_Inr)
  from bs obtain b where b: "bs = [b]" by (auto simp: echo_executor_def Let_def bind_res_Inr)
  from assms(2) obtain c where "map_of (dx_calls d) k = Some c" "q = du_batch_sequence c"
    by (auto simp: observe_def bind_res_Inr lookup_key_def split: option.split_asm if_splits)
  then show ?thesis by (auto simp: d b decode_raw_def dest!: map_of_SomeD)
qed

lemma plain_census:
  assumes u: "fu_addresses u = [sample_address 3]" "assert_universe u = Inr ()"
  shows "\<exists>r b. erc20_collect echo_executor ex (0, 0) plain_token u (sample_block 1) FULL_SUPPLY () = (Inr r, ())
     \<and> tr_verified r \<and> tr_balances r = [direct_row (sample_address 3, 7, 0)]
     \<and> tr_scalars r = [scalar_row_of (''totalSupply'', 7, 0)] \<and> tr_batches r = [b]"
proof -
  obtain x y where xy: "erc20_specs ex plain_token u FULL_SUPPLY = Inr [x, y]"
    "spec_key x = ''balanceOf/'' @ sample_address 3" "spec_key y = ''scalar/totalSupply''"
    using plain_specs [OF u(1)] by blast
  have dist: "distinct (map spec_key [x, y])" using xy by simp
  have "\<exists>d. execute_uint_calls echo_executor [x, y] (sample_block 1) () = (Inr d, ()) \<and> all_seven d [x, y]"
    using echo_uint_calls [OF dist, of 1 "()"] xy(2,3)
    by (auto simp: all_seven_def sample_address_def)
  then obtain d where d: "execute_uint_calls echo_executor [x, y] (sample_block 1) () = (Inr d, ())"
    and seven: "all_seven d [x, y]" by blast
  have obs: "observe d k = Inr (Inr (7, 0)) \<and> (\<exists>b. dx_batches d = [b])"
    if "k \<in> {''balanceOf/'' @ sample_address 3, ''scalar/totalSupply''}" for k
    using all_seven_observe [OF seven, of k] echo_first_batch [OF d] that xy(2,3) by fastforce
  then have b: "observe_all d [(sample_address 3, ''balanceOf/'' @ sample_address 3)] = Inr ([(sample_address 3, 7, 0)], [])"
    and s: "observe_all d [(''totalSupply'', ''scalar/totalSupply'')] = Inr ([(''totalSupply'', 7, 0)], [])" by auto
  from obs obtain ev where ev: "dx_batches d = [ev]" by blast
  have guards: "erc20_guards plain_token u (sample_block 1) FULL_SUPPLY = Inr ()"
    using u(2) by (simp add: erc20_guards_def plain_token_def discovered_token_config_def is_atoken_def sample_block_def)
  have names: "tc_supply_functions plain_token = [''totalSupply'']" "\<not> reads_sentinel plain_token FULL_SUPPLY"
    by (simp_all add: plain_token_def discovered_token_config_def reads_sentinel_def)
  have check: "erc20_supply_check (0, 0) True 7 (Some 7) None
      = Inr \<lparr>ir_passed = True, ir_check = ''holder_sum_equals_total_supply'', ir_observed = Some 7, ir_expected = Some 7\<rparr>"
    by (simp add: erc20_supply_check_def holder_sum_within_tolerance_def Let_def)
  have comp: "completeness_check (length [x, y]) d = (True, length [x, y])"
    by (rule all_seven_complete [OF seven dist])
  have "\<exists>r. erc20_result (0, 0) plain_token u FULL_SUPPLY [x, y] d = Inr r \<and> tr_verified r
      \<and> tr_balances r = [direct_row (sample_address 3, 7, 0)]
      \<and> tr_scalars r = [scalar_row_of (''totalSupply'', 7, 0)] \<and> tr_batches r = [ev]"
    unfolding erc20_result_def comp u(1) names list.map
    using seven by (simp add: b s check all_verified_iff complete_check_def all_seven_def names comp_def scalar_value_def ev
        b(1) [simplified append.simps] del: observe_all.simps)
  then show ?thesis using guards xy(1) d by (auto simp: erc20_collect_Inr)
qed


subsection \<open>The integrity of an aToken census\<close>

lemma int_div_eq_iff:
  fixes a b q :: int
  assumes "0 < b"
  shows "a div b = q \<longleftrightarrow> q * b \<le> a \<and> a < (q + 1) * b"
proof -
  have a: "a = a div b * b + a mod b" by simp
  have r: "0 \<le> a mod b" "a mod b < b" using assms by simp_all
  show ?thesis
  proof
    assume "q * b \<le> a \<and> a < (q + 1) * b"
    then have "q * b < (a div b + 1) * b \<and> a div b * b < (q + 1) * b"
      unfolding distrib_right mult_1 using a r by linarith
    then have "q < a div b + 1" "a div b < q + 1" using assms by (auto simp: mult_less_cancel_right_pos)
    then show "a div b = q" by simp
  qed (use a r in \<open>auto simp: distrib_right\<close>)
qed

lemma ray_mul_Inr:
  "ray_mul_half_up v f = Inr w \<longleftrightarrow> 0 \<le> v \<and> v \<le> UINT256_MAX \<and> 0 \<le> f \<and> f \<le> UINT256_MAX \<and> w \<le> UINT256_MAX
     \<and> v * f - HALF_RAY < w * RAY \<and> w * RAY \<le> v * f + HALF_RAY"
proof -
  have "(v * f + HALF_RAY) div RAY = w \<longleftrightarrow> v * f - HALF_RAY < w * RAY \<and> w * RAY \<le> v * f + HALF_RAY"
    by (subst int_div_eq_iff) (auto simp: RAY_def HALF_RAY_def distrib_right)
  then show ?thesis by (auto simp: ray_mul_half_up_def Let_def split: if_splits)
qed

text \<open>A reconstructed row, and how far the rows may be from the exact products.\<close>

definition ray_row :: "int \<Rightarrow> string \<times> int \<times> nat \<Rightarrow> balance_row \<Rightarrow> bool" where
  "ray_row i = (\<lambda>(h, scaled, q) row. bal_holder_address row = h \<and> bal_scaled_balance_raw row = Some scaled
     \<and> ray_mul_half_up scaled i = Inr (bal_balance_raw row))"

lemma reconstruct_complete: "reconstruct i xs = (rows, []) \<Longrightarrow> list_all2 (ray_row i) xs rows"
proof (induction i xs arbitrary: rows rule: reconstruct.induct)
  case (2 i h scaled q rest)
  then obtain rs where "reconstruct i rest = (rs, [])" "list_all2 (ray_row i) rest rs"
    by (auto simp: Let_def split: sum.split_asm prod.split_asm)
  with "2.prems" show ?case by (auto simp: ray_row_def split: sum.split_asm)
qed simp

lemma abs_sum_bound:
  fixes a b c d :: int
  shows "2 * \<bar>a\<bar> \<le> c \<Longrightarrow> 2 * \<bar>b\<bar> \<le> d \<Longrightarrow> 2 * \<bar>a + b\<bar> \<le> c + d"
  by arith

lemma ray_rows_error:
  assumes "list_all2 (ray_row i) xs rows"
  shows "2 * \<bar>RAY * sum_list (map bal_balance_raw rows) - i * sum_list (map (fst \<circ> snd) xs)\<bar> \<le> RAY * int (length xs)"
  using assms
proof (induction rule: list_all2_induct)
  case (Cons x xs row rows)
  obtain h v q where x: "x = (h, v, q)" by (cases x)
  with Cons.hyps have "2 * \<bar>RAY * bal_balance_raw row - i * v\<bar> \<le> RAY"
    by (auto simp: ray_row_def ray_mul_Inr RAY_def HALF_RAY_def algebra_simps)
  from abs_sum_bound [OF this Cons.IH] x show ?case by (simp add: algebra_simps)
qed simp

lemma atoken_result_verified:
  assumes "atoken_result token u SCALED_FULL_SUPPLY index specs d = Inr r" and "tr_verified r"
  shows "\<exists>liquidity rows. observed d (''scalar/'' @ is_output_name index) liquidity
    \<and> observed d ''scalar/scaledTotalSupply'' (sum_list (map (fst \<circ> snd) rows))
    \<and> map fst rows = fu_addresses u
    \<and> list_all2 (\<lambda>h r. observed d (''scaledBalanceOf/'' @ h) (fst (snd r))) (fu_addresses u) rows
    \<and> list_all2 (ray_row liquidity) rows (tr_balances r)"
proof -
  let ?names = "tc_supply_functions token @ [is_output_name index]"
  let ?ray = "\<lambda>ss sv. reconstruct_balances (is_output_name index) (scalar_value ss (is_output_name index)) sv"
  from assms(1) obtain sv se ss ce where
    fin: "r = atoken_finish token u SCALED_FULL_SUPPLY index specs d (sv, se) (ss, ce)"
    and v: "observe_all d (map (\<lambda>h. (h, ''scaledBalanceOf/'' @ h)) (fu_addresses u)) = Inr (sv, se)"
    and s: "observe_all d (map (\<lambda>n. (n, ''scalar/'' @ n)) ?names) = Inr (ss, ce)"
    by (force simp: atoken_result_def bind_res_Inr)
  from fin have r: "tr_errors r = se @ ce @ snd (?ray ss sv)" "tr_balances r = fst (?ray ss sv)"
    and c: "length (tr_integrity_checks r) = 2" "ir_passed (tr_integrity_checks r ! 1) \<longrightarrow>
      scalar_value ss ''scaledTotalSupply'' = Some (sum_list (map (fst \<circ> snd) sv))"
    by (simp_all add: atoken_finish_def Let_def case_prod_unfold)
  from assms(2) r have no: "se = []" "ce = []" and b: "?ray ss sv = (tr_balances r, [])"
    by (auto simp: all_verified_iff prod_eq_iff)
  from assms(2) c have tot: "scalar_value ss ''scaledTotalSupply'' = Some (sum_list (map (fst \<circ> snd) sv))"
    by (simp add: all_verified_iff list_all_length)
  have complete_v: "map fst sv = fu_addresses u"
    "list_all2 (\<lambda>h r. observed d (''scaledBalanceOf/'' @ h) (fst (snd r))) (fu_addresses u) sv"
    using observe_all_complete [OF v [unfolded no]] by (simp_all add: comp_def list_all2_map1)
  have "map fst ss = ?names"
    using observe_all_complete [OF s [unfolded no]] by (simp add: comp_def)
  then have "is_output_name index \<in> fst ` set ss" by (metis in_set_conv_decomp list.set_map)
  then obtain liquidity where l: "scalar_value ss (is_output_name index) = Some liquidity"
    by (cases "map_of ss (is_output_name index)") (auto simp: scalar_value_def map_of_eq_None_iff)
  with b have "reconstruct liquidity sv = (tr_balances r, [])" by (simp add: reconstruct_balances_def)
  then have "list_all2 (ray_row liquidity) sv (tr_balances r)" by (rule reconstruct_complete)
  with complete_v scalar_value_observed [OF s [unfolded no] l] scalar_value_observed [OF s [unfolded no] tot]
  show ?thesis by (intro exI [of _ liquidity] exI [of _ sv]) simp
qed

lemma atoken_collect_Inr:
  "atoken_collect execute ex token u anchor mode s = (Inr r, s') \<longleftrightarrow>
     (\<exists>index specs d. atoken_guards token u anchor mode = Inr index \<and> atoken_specs ex token u index = Inr specs
       \<and> execute_uint_calls execute specs anchor s = (Inr d, s') \<and> atoken_result token u mode index specs d = Inr r)"
  by (auto simp: atoken_collect_def bind_io_Inr)

text \<open>
  \<open>ray_mul_half_up\<close> is Aave's \<open>rayMul\<close>: on two uint256 operands it returns \<open>w\<close> exactly when \<open>w\<close>
  is the integer nearest to \<open>value * factor / 10^27\<close>, a tie rounding up, and fits uint256; operands
  outside uint256 are refused with \<open>ValueError\<close> and only a result outside uint256 raises
  \<open>OverflowError\<close>.
\<close>

theorem ray_mul_rounds_half_up:
  "(ray_mul_half_up v f = Inr w \<longleftrightarrow> 0 \<le> v \<and> v \<le> UINT256_MAX \<and> 0 \<le> f \<and> f \<le> UINT256_MAX \<and> w \<le> UINT256_MAX
      \<and> v * f - HALF_RAY < w * RAY \<and> w * RAY \<le> v * f + HALF_RAY)
   \<and> ((\<exists>m. ray_mul_half_up v f = Inl (Exn OverflowError m)) \<longleftrightarrow>
        0 \<le> v \<and> v \<le> UINT256_MAX \<and> 0 \<le> f \<and> f \<le> UINT256_MAX \<and> (UINT256_MAX + 1) * RAY \<le> v * f + HALF_RAY)"
proof -
  have "(v * f + HALF_RAY) div RAY > UINT256_MAX \<longleftrightarrow> (UINT256_MAX + 1) * RAY \<le> v * f + HALF_RAY"
    using int_div_eq_iff [of RAY "v * f + HALF_RAY" "(v * f + HALF_RAY) div RAY"]
    by (simp add: RAY_def UINT256_MAX_def) linarith
  then have "(\<exists>m. ray_mul_half_up v f = Inl (Exn OverflowError m)) \<longleftrightarrow>
      0 \<le> v \<and> v \<le> UINT256_MAX \<and> 0 \<le> f \<and> f \<le> UINT256_MAX \<and> (UINT256_MAX + 1) * RAY \<le> v * f + HALF_RAY"
    by (auto simp: ray_mul_half_up_def Let_def raise_res_def)
  with ray_mul_Inr show ?thesis by blast
qed

text \<open>
  C31: a verified \<open>scaled_full_supply\<close> census accounts for the whole scaled supply, and its
  reconstructed balances are within half a unit per holder of it. There is one row per address
  of the universe, in order; each keeps the scaled balance observed for that holder next to its
  product with the one liquidity index observed at the same block, rounded half up; the scaled
  balances add up exactly to the observed \<open>scaledTotalSupply\<close>; so the sum of the reconstructed
  balances differs from \<open>scaledTotalSupply * index / 10^27\<close> by at most half the number of holders.
\<close>

theorem atoken_scaled_supply_exact:
  assumes "atoken_collect execute ex token u anchor SCALED_FULL_SUPPLY s = (Inr r, s')" and "tr_verified r"
  shows "\<exists>index specs d liquidity rows. tc_index_source token = Some index
    \<and> execute_uint_calls execute specs anchor s = (Inr d, s')
    \<and> observed d (''scalar/'' @ is_output_name index) liquidity
    \<and> map fst rows = fu_addresses u
    \<and> list_all2 (\<lambda>h r. observed d (''scaledBalanceOf/'' @ h) (fst (snd r))) (fu_addresses u) rows
    \<and> list_all2 (ray_row liquidity) rows (tr_balances r)
    \<and> observed d ''scalar/scaledTotalSupply'' (sum_list (map (fst \<circ> snd) rows))
    \<and> 2 * \<bar>RAY * sum_list (map bal_balance_raw (tr_balances r)) - liquidity * sum_list (map (fst \<circ> snd) rows)\<bar>
        \<le> RAY * int (length (fu_addresses u))"
proof -
  from assms(1) obtain index specs d where
    d: "atoken_guards token u anchor SCALED_FULL_SUPPLY = Inr index"
    "execute_uint_calls execute specs anchor s = (Inr d, s')" "atoken_result token u SCALED_FULL_SUPPLY index specs d = Inr r"
    by (auto simp: atoken_collect_Inr)
  from d(1) have "tc_index_source token = Some index"
    by (auto simp: atoken_guards_def bind_res_Inr split: if_splits option.splits)
  moreover obtain liquidity rows where l: "observed d (''scalar/'' @ is_output_name index) liquidity"
    "observed d ''scalar/scaledTotalSupply'' (sum_list (map (fst \<circ> snd) rows))" "map fst rows = fu_addresses u"
    "list_all2 (\<lambda>h r. observed d (''scaledBalanceOf/'' @ h) (fst (snd r))) (fu_addresses u) rows"
    "list_all2 (ray_row liquidity) rows (tr_balances r)"
    using atoken_result_verified [OF d(3) assms(2)] by blast
  moreover have "length rows = length (fu_addresses u)" using l(3) by (metis length_map)
  ultimately show ?thesis using d(2) ray_rows_error [OF l(5)] by metis
qed

definition atoken_sample :: token_config where
  "atoken_sample = (discovered_token_config (sample_address 2) 0)\<lparr>tc_token_class := AAVE_V3_ATOKEN,
     tc_balance_function := ''scaledBalanceOf'', tc_supply_functions := [''scaledTotalSupply''],
     tc_index_source := Some \<lparr>is_contract = sample_address 4, is_function = ''getReserveNormalizedIncome'',
       is_argument = sample_address 5, is_output_name = ''liquidity_index_ray''\<rparr>\<rparr>"

lemma address_word_returns: "LOWER_ADDRESS_RE a \<Longrightarrow> \<exists>w. address_word a = Inr w"
  using fromhex_address [of a] by (simp add: address_word_def fromhex_res_def)

lemma atoken_plan:
  "\<exists>index x y z. atoken_guards atoken_sample one_holder (sample_block 1) SCALED_FULL_SUPPLY = Inr index
     \<and> atoken_specs ex atoken_sample one_holder index = Inr [x, y, z] \<and> is_output_name index = ''liquidity_index_ray''
     \<and> spec_key x = ''scaledBalanceOf/'' @ sample_address 3 \<and> spec_key y = ''scalar/scaledTotalSupply''
     \<and> spec_key z = ''scalar/liquidity_index_ray''"
proof -
  obtain v w where "address_word (sample_address 3) = Inr v" "address_word (sample_address 5) = Inr w"
    using address_word_returns [OF sample_address_ok] by blast
  then show ?thesis
    by (simp add: atoken_guards_def atoken_specs_def atoken_sample_def one_holder_def discovered_token_config_def
        is_atoken_def sample_block_def assert_universe_def scaled_spec_def index_spec_def scalar_calldata_def uint_spec_def)
qed

theorem atoken_scaled_supply_exact_witness:
  "\<exists>r. atoken_collect echo_executor sample_ext atoken_sample one_holder (sample_block 1) SCALED_FULL_SUPPLY () = (Inr r, ())
     \<and> tr_verified r \<and> (\<exists>liquidity rows. map fst rows = [sample_address 3] \<and> list_all2 (ray_row liquidity) rows (tr_balances r))"
proof -
  obtain index x y z where p: "atoken_guards atoken_sample one_holder (sample_block 1) SCALED_FULL_SUPPLY = Inr index"
    "atoken_specs sample_ext atoken_sample one_holder index = Inr [x, y, z]" "is_output_name index = ''liquidity_index_ray''"
    "spec_key x = ''scaledBalanceOf/'' @ sample_address 3" "spec_key y = ''scalar/scaledTotalSupply''"
    "spec_key z = ''scalar/liquidity_index_ray''" using atoken_plan by blast
  have dist: "distinct (map spec_key [x, y, z])" using p by simp
  have "\<exists>d. execute_uint_calls echo_executor [x, y, z] (sample_block 1) () = (Inr d, ()) \<and> all_seven d [x, y, z]"
    using echo_uint_calls [OF dist, of 1 "()"] p(4-6) by (auto simp: all_seven_def sample_address_def)
  then obtain d where d: "execute_uint_calls echo_executor [x, y, z] (sample_block 1) () = (Inr d, ())"
    and seven: "all_seven d [x, y, z]" by blast
  let ?hs = "map (\<lambda>h. (h, ''scaledBalanceOf/'' @ h)) (fu_addresses one_holder)"
  let ?ns = "map (\<lambda>n. (n, ''scalar/'' @ n)) (tc_supply_functions atoken_sample @ [is_output_name index])"
  have names: "fu_addresses one_holder = [sample_address 3]" "tc_supply_functions atoken_sample = [''scaledTotalSupply'']"
    by (simp_all add: one_holder_def atoken_sample_def)
  obtain sv where sv: "observe_all d ?hs = Inr (sv, [])" "map fst sv = [sample_address 3]" "map (\<lambda>r. fst (snd r)) sv = [7]"
    using all_seven_observe_all [OF seven, of ?hs] p names by auto
  obtain ss where ss: "observe_all d ?ns = Inr (ss, [])" "map fst ss = [''scaledTotalSupply'', ''liquidity_index_ray'']"
      "map (\<lambda>r. fst (snd r)) ss = [7, 7]"
    using all_seven_observe_all [OF seven, of ?ns] p names by auto
  have svals: "scalar_value ss ''scaledTotalSupply'' = Some 7" "scalar_value ss ''liquidity_index_ray'' = Some 7"
    using ss(2,3) by (auto simp: scalar_value_def)
  have seven': "ray_mul_half_up 7 7 = Inr 0"
    by (simp add: ray_mul_half_up_def UINT256_MAX_def RAY_def HALF_RAY_def)
  obtain q where q: "sv = [(sample_address 3, 7, q)]" using sv(2,3) by auto
  have comp: "completeness_check (length [x, y, z]) d = (True, length [x, y, z])"
    by (rule all_seven_complete [OF seven dist])
  let ?r = "atoken_finish atoken_sample one_holder SCALED_FULL_SUPPLY index [x, y, z] d (sv, []) (ss, [])"
  have "tr_verified ?r"
    using seven comp unfolding atoken_finish_def q p(3)
    by (simp add: svals reconstruct_balances_def seven' all_verified_iff complete_check_def all_seven_def
        fu_size_def names Let_def)
  note ver = this
  have ret: "atoken_collect echo_executor sample_ext atoken_sample one_holder (sample_block 1) SCALED_FULL_SUPPLY () = (Inr ?r, ())"
    unfolding atoken_collect_Inr using p d sv(1) ss(1) by (auto simp: atoken_result_def)
  have "\<exists>liquidity rows. map fst rows = fu_addresses one_holder \<and> list_all2 (ray_row liquidity) rows (tr_balances ?r)"
    using atoken_scaled_supply_exact [OF ret ver] by blast
  with ret ver names(1) show ?thesis by metis
qed

end
