(* ===== verification/Pools.thy ===== *)
theory Pools
  imports Tokens
begin

text \<open>
  The Balancer and concentrated-liquidity pool collectors (\<open>collectors/balancer.py\<close>,
  \<open>collectors/cl_liquidity.py\<close>). A Balancer pool is one Vault call; a concentrated-liquidity
  pool is read in up to three rounds (state, tick bitmap, initialised ticks), each round a
  verified execution, and is reconciled against its own active liquidity.
\<close>

subsection \<open>Balancer\<close>

record balancer_collector =
  bp_v2_vault :: "string option"
  bp_v3_vault :: "string option"

record balancer_plan =
  pl_vault :: string
  pl_calldata :: bytes
  pl_call_kind :: string
  pl_decoder :: "bytes \<Rightarrow> (string \<times> int) list res"

definition balancer_plan_of :: "ext \<Rightarrow> balancer_collector \<Rightarrow> pool_config \<Rightarrow> balancer_plan res" where
  "balancer_plan_of ex bc pool =
     (if pc_pool_class pool = BALANCER_V2_CLASS
      then (case bp_v2_vault bc of
              None \<Rightarrow> raise_res ValueError ''balancer_v2 vault is not configured for this chain''
            | Some vault \<Rightarrow>
                (case pc_pool_id pool of
                   None \<Rightarrow> raise_res ValueError ''balancer_v2 pool is missing pool_id''
                 | Some pool_id \<Rightarrow>
                     bind_res (get_pool_tokens_calldata (ext_keccak ex) pool_id) (\<lambda>calldata.
                       Inr \<lparr>pl_vault = vault, pl_calldata = calldata, pl_call_kind = ''getPoolTokens'',
                            pl_decoder = decode_balancer_v2_pool_tokens\<rparr>)))
      else if pc_pool_class pool = BALANCER_V3_CLASS
      then (case bp_v3_vault bc of
              None \<Rightarrow> raise_res ValueError ''balancer_v3 vault is not configured for this chain''
            | Some vault \<Rightarrow>
                bind_res (get_pool_token_info_calldata (ext_keccak ex) (pc_address pool)) (\<lambda>calldata.
                  Inr \<lparr>pl_vault = vault, pl_calldata = calldata, pl_call_kind = ''getPoolTokenInfo'',
                       pl_decoder = decode_balancer_v3_pool_token_info\<rparr>))
      else raise_res ValueError
             (''BalancerPoolCollector cannot handle pool_class '' @ repr_str (pc_pool_class pool)))"

definition vault_target :: "ext \<Rightarrow> balancer_collector \<Rightarrow> pool_config \<Rightarrow> string res" where
  "vault_target ex bc pool = bind_res (balancer_plan_of ex bc pool) (\<lambda>p. Inr (pl_vault p))"

fun find_result ::
  "string \<Rightarrow> nat \<Rightarrow> raw_call_result list \<Rightarrow> (raw_call_result \<times> nat) option
   \<Rightarrow> (raw_call_result \<times> nat) option res" where
  "find_result key sequence [] found = Inr found"
| "find_result key sequence (raw # raws) found =
     (if rr_key raw \<noteq> key
      then raise_res CollectionProtocolError (''unexpected result key '' @ repr_str (rr_key raw))
      else if found \<noteq> None
      then raise_res CollectionProtocolError ''collector received a duplicate result''
      else find_result key sequence raws (Some (raw, sequence)))"

fun find_in_batches ::
  "block_ref \<Rightarrow> string \<Rightarrow> nat \<Rightarrow> verified_batch_result list \<Rightarrow> (raw_call_result \<times> nat) option
   \<Rightarrow> (raw_call_result \<times> nat) option res" where
  "find_in_batches anchor key sequence [] found = Inr found"
| "find_in_batches anchor key sequence (batch # batches) found =
     bind_res (check_batch anchor sequence batch) (\<lambda>_.
     bind_res (find_result key sequence (vb_results batch) found) (\<lambda>found'.
       find_in_batches anchor key (sequence + 1) batches found'))"

definition vault_error ::
  "pool_config \<Rightarrow> string \<Rightarrow> raw_call_result \<Rightarrow> nat \<Rightarrow> observation_status \<Rightarrow> string \<Rightarrow> collection_error" where
  "vault_error pool call_kind raw sequence status message =
     \<lparr>er_subject_address = pc_address pool, er_call_kind = call_kind, er_status = status,
      er_batch_sequence = sequence, er_message = message, er_rpc_code = rr_error_code raw,
      er_return_data = rr_returndata raw\<rparr>"

definition materialize_vault ::
  "pool_config \<Rightarrow> string list \<Rightarrow> balancer_plan \<Rightarrow> raw_call_result \<Rightarrow> nat
   \<Rightarrow> (pool_balance_row list \<times> collection_error list) res" where
  "materialize_vault pool expected_tokens plan raw sequence =
     (let err = vault_error pool (pl_call_kind plan) raw sequence in
      if \<not> rr_success raw
      then Inr ([], [err (failed_status raw ''vault call failed'') (or_text (rr_error_message raw) ''vault call failed'')])
      else case pl_decoder plan (rr_returndata raw) of
        Inl e \<Rightarrow> if isinstance e BalancerDecodeError then Inr ([], [err MALFORMED_RETURN (exn_str e)]) else Inl e
      | Inr pairs \<Rightarrow>
          if \<not> distinct (map fst pairs) then Inr ([], [err MALFORMED_RETURN ''vault returned a duplicate token''])
          else if \<not> set expected_tokens \<subseteq> set (map fst pairs)
          then Inr ([], [err MALFORMED_RETURN (''configured assets absent from vault return: ''
                 @ py_repr (JArr (map JStr (missing_keys expected_tokens (map fst pairs)))))])
          else Inr (map (\<lambda>t. \<lparr>pb_pool_address = pc_address pool, pb_token_address = t,
                             pb_balance_raw = the (map_of pairs t), pb_batch_sequence = sequence\<rparr>) expected_tokens, []))"

definition balancer_collect ::
  "'s executor_fun \<Rightarrow> ext \<Rightarrow> balancer_collector \<Rightarrow> pool_config \<Rightarrow> block_ref \<Rightarrow> integrity_mode
   \<Rightarrow> ('s, pool_collection_result) io" where
  "balancer_collect execute ex bc pool anchor mode =
     bind_io (lift_res (pool_guards pool anchor mode)) (\<lambda>expected_tokens.
     bind_io (lift_res (balancer_plan_of ex bc pool)) (\<lambda>plan.
     let key = ''balancer/'' @ pc_address pool in
     bind_io (execute [\<lparr>cc_key = key, cc_target = pl_vault plan, cc_calldata = pl_calldata plan,
                        cc_allow_failure = True\<rparr>] anchor) (\<lambda>batches.
     bind_io (lift_res (find_in_batches anchor key 0 batches None)) (\<lambda>found.
     case found of
       None \<Rightarrow> raise (Exn CollectionProtocolError ''collector received no result for the pool'')
     | Some (raw, sequence) \<Rightarrow>
         bind_io (lift_res (materialize_vault pool expected_tokens plan raw sequence)) (\<lambda>(balances, errors).
           ret \<lparr>pr_pool_address = pc_address pool, pr_integrity_mode = mode,
                pr_expected_calls = length expected_tokens, pr_balances = balances, pr_errors = errors,
                pr_batches = evidence_of 0 batches,
                pr_integrity_checks =
                  [complete_check ''pool_asset_observations_complete''
                     (length balances = length expected_tokens \<and> errors = []) (length balances)
                     (length expected_tokens)]\<rparr>)))))"

subsection \<open>Concentrated liquidity: rounds\<close>

type_synonym round_results = "(string \<times> raw_call_result \<times> nat) list"

fun round_batch ::
  "string list \<Rightarrow> nat \<Rightarrow> raw_call_result list \<Rightarrow> round_results \<Rightarrow> round_results res" where
  "round_batch expected sequence [] results = Inr results"
| "round_batch expected sequence (raw # raws) results =
     (if rr_key raw \<notin> set expected
      then raise_res CollectionProtocolError (''unexpected result key '' @ repr_str (rr_key raw))
      else if rr_key raw \<in> set (map fst results)
      then raise_res CollectionProtocolError (''duplicate result for '' @ repr_str (rr_key raw))
      else round_batch expected sequence raws (results @ [(rr_key raw, raw, sequence)]))"

fun round_batches ::
  "block_ref \<Rightarrow> string list \<Rightarrow> nat \<Rightarrow> verified_batch_result list \<Rightarrow> round_results \<Rightarrow> round_results res" where
  "round_batches anchor expected sequence [] results = Inr results"
| "round_batches anchor expected sequence (batch # batches) results =
     bind_res (check_batch anchor sequence batch) (\<lambda>_.
     bind_res (round_batch expected sequence (vb_results batch) results) (\<lambda>results'.
       round_batches anchor expected (sequence + 1) batches results'))"

text \<open>
  One round: the results by key, the evidence of its batches, and the next batch number.
\<close>

definition run_round ::
  "'s executor_fun \<Rightarrow> block_ref \<Rightarrow> contract_call list \<Rightarrow> nat
   \<Rightarrow> ('s, round_results \<times> collection_batch_evidence list \<times> nat) io" where
  "run_round execute anchor calls start_sequence =
     (if \<not> distinct (map cc_key calls) then raise (Exn ValueError ''CL round has duplicate call keys'')
      else bind_io (execute calls anchor) (\<lambda>batches.
           bind_io (lift_res (round_batches anchor (map cc_key calls) start_sequence batches [])) (\<lambda>results.
           let missing = missing_keys (map cc_key calls) (map fst results) in
           if missing \<noteq> []
           then raise (Exn CollectionProtocolError (''round is missing result keys: '' @ py_repr (JArr (map JStr missing))))
           else ret (results, evidence_of start_sequence batches, start_sequence + length batches))))"

subsection \<open>Concentrated liquidity: the state round\<close>

definition pool_call :: "pool_config \<Rightarrow> string \<Rightarrow> bytes \<Rightarrow> contract_call" where
  "pool_call pool key calldata =
     \<lparr>cc_key = key, cc_target = pc_address pool, cc_calldata = calldata, cc_allow_failure = True\<rparr>"

definition state_calls :: "ext \<Rightarrow> pool_config \<Rightarrow> contract_call list" where
  "state_calls ex pool =
     (let sel = function_selector (ext_keccak ex);
          shared = [pool_call pool ''liquidity'' (sel ''liquidity()''),
                    pool_call pool ''tickSpacing'' (sel ''tickSpacing()'')] in
      if pc_pool_class pool = UNISWAP_V3_CLASS
      then [pool_call pool ''slot0'' (sel ''slot0()''), pool_call pool ''fee'' (sel ''fee()''),
            pool_call pool ''feeGrowth0'' (sel ''feeGrowthGlobal0X128()''),
            pool_call pool ''feeGrowth1'' (sel ''feeGrowthGlobal1X128()'')] @ shared
      else [pool_call pool ''globalState'' (sel ''globalState()''),
            pool_call pool ''feeGrowth0'' (sel ''totalFeeGrowth0Token()''),
            pool_call pool ''feeGrowth1'' (sel ''totalFeeGrowth1Token()'')] @ shared)"

definition state_value :: "pool_config \<Rightarrow> round_results \<Rightarrow> string \<Rightarrow> bytes res" where
  "state_value pool raw key =
     bind_res (lookup_key raw key) (\<lambda>(result, _).
       if \<not> rr_success result
       then raise_res ValueError (''CL state read '' @ repr_str key @ '' failed for '' @ pc_address pool @ '': ''
              @ or_text (rr_error_message result) ''reverted'')
       else Inr (rr_returndata result))"

definition read_price :: "pool_config \<Rightarrow> round_results \<Rightarrow> (int \<times> int \<times> int \<times> nat) res" where
  "read_price pool raw =
     (if pc_pool_class pool = UNISWAP_V3_CLASS
      then bind_res (state_value pool raw ''slot0'') (\<lambda>b.
           bind_res (decode_slot0 b) (\<lambda>slot0.
           bind_res (state_value pool raw ''fee'') (\<lambda>f.
           bind_res (decode_uint_return f 24) (\<lambda>fee.
           bind_res (lookup_key raw ''slot0'') (\<lambda>(_, sequence).
             Inr (s0_sqrt_price_x96 slot0, s0_tick slot0, fee, sequence))))))
      else bind_res (state_value pool raw ''globalState'') (\<lambda>b.
           bind_res (decode_global_state b) (\<lambda>gs.
           bind_res (lookup_key raw ''globalState'') (\<lambda>(_, sequence).
             Inr (gs_sqrt_price_x96 gs, gs_tick gs, gs_fee gs, sequence)))))"

definition read_scalars :: "pool_config \<Rightarrow> round_results \<Rightarrow> (int \<times> int \<times> int \<times> int) res" where
  "read_scalars pool raw =
     bind_res (bind_res (state_value pool raw ''liquidity'') (\<lambda>b. decode_uint_return b 128)) (\<lambda>liquidity.
     bind_res (bind_res (state_value pool raw ''tickSpacing'') (\<lambda>b. decode_int_return b 24)) (\<lambda>tick_spacing.
     bind_res (bind_res (state_value pool raw ''feeGrowth0'') (\<lambda>b. decode_uint_return b 256)) (\<lambda>g0.
     bind_res (bind_res (state_value pool raw ''feeGrowth1'') (\<lambda>b. decode_uint_return b 256)) (\<lambda>g1.
       Inr (liquidity, tick_spacing, g0, g1)))))"

definition decode_state :: "pool_config \<Rightarrow> round_results \<Rightarrow> pool_cl_state_row res" where
  "decode_state pool raw =
     (case bind_res (read_price pool raw) (\<lambda>price. bind_res (read_scalars pool raw) (\<lambda>scalars. Inr (price, scalars))) of
        Inl e \<Rightarrow>
          if isinstance e ClDecodeError
          then raise_res ValueError (''CL state decode failed for '' @ pc_address pool @ '': '' @ exn_str e)
          else Inl e
      | Inr ((sqrt_price, current_tick, fee, sequence), (liquidity, tick_spacing, g0, g1)) \<Rightarrow>
          if tick_spacing \<le> 0
          then raise_res ValueError (''CL pool '' @ pc_address pool @ '' reported non-positive tickSpacing'')
          else Inr \<lparr>cs_pool_address = pc_address pool, cs_pool_class = pc_pool_class pool,
                    cs_sqrt_price_x96 = sqrt_price, cs_current_tick = current_tick, cs_liquidity = liquidity,
                    cs_fee_growth_global_0_x128 = g0, cs_fee_growth_global_1_x128 = g1,
                    cs_tick_spacing = tick_spacing, cs_fee = fee, cs_tick_count = 0,
                    cs_batch_sequence = sequence\<rparr>)"

subsection \<open>Concentrated liquidity: tick discovery\<close>

definition bitmap_words :: "pool_config \<Rightarrow> int \<Rightarrow> int list" where
  "bitmap_words pool tick_spacing =
     (if pc_pool_class pool = UNISWAP_V3_CLASS
      then [drop_bit 8 (MIN_TICK div tick_spacing) .. drop_bit 8 (MAX_TICK div tick_spacing)]
      else [drop_bit 8 MIN_TICK .. drop_bit 8 MAX_TICK])"

definition bitmap_call :: "ext \<Rightarrow> pool_config \<Rightarrow> int \<Rightarrow> contract_call res" where
  "bitmap_call ex pool wp =
     bind_res (if pc_pool_class pool = UNISWAP_V3_CLASS then tick_bitmap_calldata (ext_keccak ex) wp
               else tick_table_calldata (ext_keccak ex) wp) (\<lambda>calldata.
       Inr (pool_call pool (''bm/'' @ py_int wp) calldata))"

definition bitmap_calls :: "ext \<Rightarrow> pool_config \<Rightarrow> int \<Rightarrow> contract_call list res" where
  "bitmap_calls ex pool tick_spacing = map_res (bitmap_call ex pool) (bitmap_words pool tick_spacing)"

text \<open>\<open>int(key.split("/", 1)[1])\<close> on the keys the bitmap round builds.\<close>

definition parse_int :: "string \<Rightarrow> int" where
  "parse_int s = (case s of c # cs \<Rightarrow> if c = CHR ''-'' then - digits_val cs else digits_val s | [] \<Rightarrow> 0)"

definition word_position :: "string \<Rightarrow> int" where
  "word_position key = parse_int (after_first (CHR ''/'') key)"

definition round_error ::
  "pool_config \<Rightarrow> string \<Rightarrow> raw_call_result \<Rightarrow> nat \<Rightarrow> string \<Rightarrow> observation_status option \<Rightarrow> collection_error" where
  "round_error pool call_kind result sequence detail status =
     \<lparr>er_subject_address = pc_address pool, er_call_kind = call_kind,
      er_status = (case status of Some st \<Rightarrow> st | None \<Rightarrow> failed_status result ''call failed''),
      er_batch_sequence = sequence,
      er_message = (case rr_error_message result of Some (c # cs) \<Rightarrow> detail @ '': '' @ (c # cs) | _ \<Rightarrow> detail),
      er_rpc_code = rr_error_code result, er_return_data = rr_returndata result\<rparr>"

definition word_ticks :: "pool_config \<Rightarrow> int \<Rightarrow> int \<Rightarrow> nat list \<Rightarrow> int list" where
  "word_ticks pool tick_spacing wp bits =
     filter (\<lambda>t. MIN_TICK \<le> t \<and> t \<le> MAX_TICK)
       (map (\<lambda>b. let index = wp * 256 + int b in
              if pc_pool_class pool = UNISWAP_V3_CLASS then index * tick_spacing else index) bits)"

fun discover_loop ::
  "pool_config \<Rightarrow> int \<Rightarrow> round_results \<Rightarrow> (int list \<times> collection_error list) res" where
  "discover_loop pool tick_spacing [] = Inr ([], [])"
| "discover_loop pool tick_spacing ((key, result, sequence) # rest) =
     bind_res (discover_loop pool tick_spacing rest) (\<lambda>(found, errors).
     let wp = word_position key in
     if \<not> rr_success result
     then Inr (found, round_error pool ''tickBitmap'' result sequence (''word '' @ py_int wp) None # errors)
     else case decode_bitmap_word (rr_returndata result) of
            Inl e \<Rightarrow>
              if isinstance e ClDecodeError
              then Inr (found, round_error pool ''tickBitmap'' result sequence (exn_str e) (Some MALFORMED_RETURN) # errors)
              else Inl e
          | Inr bits \<Rightarrow> Inr (word_ticks pool tick_spacing wp bits @ found, errors))"

definition discover_ticks ::
  "pool_config \<Rightarrow> int \<Rightarrow> round_results \<Rightarrow> (int list \<times> collection_error list) res" where
  "discover_ticks pool tick_spacing raw =
     bind_res (discover_loop pool tick_spacing raw) (\<lambda>(found, errors). Inr (sort (remdups found), errors))"

subsection \<open>Concentrated liquidity: the tick round and reconciliation\<close>

definition tick_call :: "ext \<Rightarrow> pool_config \<Rightarrow> int \<Rightarrow> contract_call res" where
  "tick_call ex pool tick =
     bind_res (ticks_calldata (ext_keccak ex) tick) (\<lambda>calldata. Inr (pool_call pool (''tk/'' @ py_int tick) calldata))"

definition tick_row_of :: "pool_config \<Rightarrow> int \<Rightarrow> decoded_tick \<Rightarrow> nat \<Rightarrow> pool_tick_row" where
  "tick_row_of pool tick decoded sequence =
     \<lparr>tk_pool_address = pc_address pool, tk_tick = tick, tk_liquidity_gross = dt_liquidity_gross decoded,
      tk_liquidity_net = dt_liquidity_net decoded,
      tk_fee_growth_outside_0_x128 = dt_fee_growth_outside_0_x128 decoded,
      tk_fee_growth_outside_1_x128 = dt_fee_growth_outside_1_x128 decoded, tk_batch_sequence = sequence\<rparr>"

definition materialize_tick ::
  "pool_config \<Rightarrow> round_results \<Rightarrow> int \<Rightarrow> (collection_error + pool_tick_row) res" where
  "materialize_tick pool raw tick =
     bind_res (lookup_key raw (''tk/'' @ py_int tick)) (\<lambda>(result, sequence).
       if \<not> rr_success result
       then Inr (Inl (round_error pool ''ticks'' result sequence (''tick '' @ py_int tick) None))
       else case decode_ticks (rr_returndata result) of
              Inl e \<Rightarrow>
                if isinstance e ClDecodeError
                then Inr (Inl (round_error pool ''ticks'' result sequence
                       (''tick '' @ py_int tick @ '': '' @ exn_str e) (Some MALFORMED_RETURN)))
                else Inl e
            | Inr decoded \<Rightarrow>
                if \<not> dt_initialized decoded \<or> dt_liquidity_gross decoded = 0
                then Inr (Inl (round_error pool ''ticks'' result sequence
                       (''tick '' @ py_int tick @ '' flagged in bitmap but not initialized'') (Some MALFORMED_RETURN)))
                else Inr (Inr (tick_row_of pool tick decoded sequence)))"

fun materialize_ticks ::
  "pool_config \<Rightarrow> int list \<Rightarrow> round_results \<Rightarrow> (pool_tick_row list \<times> collection_error list) res" where
  "materialize_ticks pool [] raw = Inr ([], [])"
| "materialize_ticks pool (tick # rest) raw =
     bind_res (materialize_tick pool raw tick) (\<lambda>o1.
     bind_res (materialize_ticks pool rest raw) (\<lambda>(ticks, errors).
       case o1 of Inl e \<Rightarrow> Inr (ticks, e # errors) | Inr row \<Rightarrow> Inr (row # ticks, errors)))"

definition reconcile :: "pool_cl_state_row \<Rightarrow> pool_tick_row list \<Rightarrow> integrity_result list" where
  "reconcile state ticks =
     (let net_sum = sum_list (map tk_liquidity_net ticks);
          active = sum_list (map tk_liquidity_net (filter (\<lambda>row. tk_tick row \<le> cs_current_tick state) ticks)) in
      [\<lparr>ir_passed = (net_sum = 0), ir_check = ''cl_liquidity_net_sum_zero'',
        ir_observed = Some net_sum, ir_expected = Some 0\<rparr>,
       \<lparr>ir_passed = (active = cs_liquidity state), ir_check = ''cl_active_liquidity_reconciles'',
        ir_observed = Some active, ir_expected = Some (cs_liquidity state)\<rparr>])"

subsection \<open>Concentrated liquidity: the collector\<close>

definition cl_guards :: "pool_config \<Rightarrow> block_ref \<Rightarrow> integrity_mode \<Rightarrow> unit res" where
  "cl_guards pool anchor mode =
     (if mode \<noteq> CL_LIQUIDITY then raise_res ValueError ''CL collection requires cl_liquidity integrity''
      else if \<not> is_cl pool
      then raise_res ValueError (''ClLiquidityCollector cannot handle pool_class '' @ repr_str (pc_pool_class pool))
      else if number anchor < pc_deployment_block pool
      then raise_res ValueError ''pool is not deployed at the requested anchor''
      else Inr ())"

text \<open>
  The bitmap and tick rounds: the tick rows, the errors, the evidence, and the number of calls
  made.
\<close>

record tick_sweep =
  tw_ticks :: "pool_tick_row list"
  tw_errors :: "collection_error list"
  tw_evidence :: "collection_batch_evidence list"
  tw_calls :: nat

definition sweep_ticks ::
  "'s executor_fun \<Rightarrow> ext \<Rightarrow> pool_config \<Rightarrow> block_ref \<Rightarrow> int \<Rightarrow> nat \<Rightarrow> ('s, tick_sweep) io" where
  "sweep_ticks execute ex pool anchor tick_spacing sequence =
     bind_io (lift_res (bitmap_calls ex pool tick_spacing)) (\<lambda>bm_calls.
     bind_io (run_round execute anchor bm_calls sequence) (\<lambda>(bitmap_raw, bm_evidence, sequence2).
     bind_io (lift_res (discover_ticks pool tick_spacing bitmap_raw)) (\<lambda>(discovered, discovery_errors).
     bind_io (lift_res (map_res (tick_call ex pool) discovered)) (\<lambda>tk_calls.
       if tk_calls = []
       then ret \<lparr>tw_ticks = [], tw_errors = discovery_errors, tw_evidence = bm_evidence, tw_calls = length bm_calls\<rparr>
       else bind_io (run_round execute anchor tk_calls sequence2) (\<lambda>(tick_raw, tk_evidence, _).
            bind_io (lift_res (materialize_ticks pool discovered tick_raw)) (\<lambda>(ticks, tick_errors).
              ret \<lparr>tw_ticks = ticks, tw_errors = discovery_errors @ tick_errors,
                   tw_evidence = bm_evidence @ tk_evidence, tw_calls = length bm_calls + length tk_calls\<rparr>))))))"

definition observed_check :: integrity_result where
  "observed_check = \<lparr>ir_passed = True, ir_check = ''cl_state_observed'', ir_observed = None, ir_expected = None\<rparr>"

definition cl_finish ::
  "'s executor_fun \<Rightarrow> ext \<Rightarrow> int \<Rightarrow> pool_config \<Rightarrow> block_ref \<Rightarrow> integrity_mode \<Rightarrow> collection_batch_evidence list
   \<Rightarrow> nat \<Rightarrow> pool_cl_state_row \<Rightarrow> ('s, pool_cl_collection_result) io" where
  "cl_finish execute ex threshold pool anchor mode evidence sequence state =
     (let state_calls = length (state_calls ex pool) in
      if cs_liquidity state < threshold
      then ret \<lparr>cr_pool_address = pc_address pool, cr_integrity_mode = mode, cr_expected_calls = state_calls,
                cr_state = state, cr_ticks = [], cr_errors = [], cr_batches = evidence,
                cr_integrity_checks =
                  [observed_check,
                   \<lparr>ir_passed = True, ir_check = ''cl_below_active_threshold'',
                    ir_observed = Some (cs_liquidity state), ir_expected = Some threshold\<rparr>]\<rparr>
      else bind_io (sweep_ticks execute ex pool anchor (cs_tick_spacing state) sequence) (\<lambda>tw.
           ret \<lparr>cr_pool_address = pc_address pool, cr_integrity_mode = mode,
                cr_expected_calls = state_calls + tw_calls tw,
                cr_state = state\<lparr>cs_tick_count := length (tw_ticks tw)\<rparr>, cr_ticks = tw_ticks tw,
                cr_errors = tw_errors tw, cr_batches = evidence @ tw_evidence tw,
                cr_integrity_checks = observed_check # reconcile state (tw_ticks tw)\<rparr>))"

definition cl_collect ::
  "'s executor_fun \<Rightarrow> ext \<Rightarrow> int \<Rightarrow> pool_config \<Rightarrow> block_ref \<Rightarrow> integrity_mode
   \<Rightarrow> ('s, pool_cl_collection_result) io" where
  "cl_collect execute ex min_active_liquidity pool anchor mode =
     bind_io (lift_res (cl_guards pool anchor mode)) (\<lambda>_.
     bind_io (run_round execute anchor (state_calls ex pool) 0) (\<lambda>(state_raw, evidence, sequence).
     bind_io (lift_res (decode_state pool state_raw)) (\<lambda>state.
       cl_finish execute ex (max 0 min_active_liquidity) pool anchor mode evidence sequence state)))"

subsection \<open>Lemmas: decimal keys\<close>

lemma digits_val_append: "digits_val (s @ [c]) = 10 * digits_val s + (int (char_nat c) - 48)"
  by (simp add: digits_val_def)

lemma digits_val_dec_digits [simp]: "digits_val (dec_digits n) = int n"
proof (induction n rule: dec_digits.induct)
  case (1 n)
  show ?case
  proof (cases "n < 10")
    case True
    then show ?thesis by (subst dec_digits.simps) (simp add: digits_val_def)
  next
    case False
    then show ?thesis using "1.IH" by (subst dec_digits.simps) (simp add: digits_val_append, presburger)
  qed
qed

lemma dec_digits_no_sign: "dec_digits n \<noteq> [] \<and> hd (dec_digits n) \<noteq> CHR ''-'' \<and> CHR ''/'' \<notin> set (dec_digits n)"
proof (induction n rule: dec_digits.induct)
  case (1 n)
  have d: "char_of (k + 48) \<noteq> CHR ''-''" "char_of (k + 48) \<noteq> CHR ''/''" if "k < 10" for k :: nat
  proof -
    have "char_nat (char_of (k + 48)) = k + 48" using that by simp
    moreover have "char_nat (CHR ''-'') = 45" "char_nat (CHR ''/'') = 47" by (simp_all add: char_nat_def)
    ultimately show "char_of (k + 48) \<noteq> CHR ''-''" "char_of (k + 48) \<noteq> CHR ''/''" by auto
  qed
  show ?case
  proof (cases "n < 10")
    case True
    with d [of n] show ?thesis by (subst (1 2 3) dec_digits.simps) (simp add: add.commute)
  next
    case False
    with 1 d [of "n mod 10"] show ?thesis by (subst (1 2 3) dec_digits.simps) (auto simp: add.commute)
  qed
qed

lemma parse_py_int [simp]: "parse_int (py_int n) = n"
proof (cases "n < 0")
  case False
  obtain c cs where c: "dec_digits (nat n) = c # cs" "c \<noteq> CHR ''-''"
    using dec_digits_no_sign [of "nat n"] by (cases "dec_digits (nat n)") auto
  with digits_val_dec_digits [of "nat n"] False show ?thesis by (simp add: parse_int_def py_int_def)
qed (simp add: parse_int_def py_int_def)

lemma word_position_key [simp]: "word_position (''bm/'' @ py_int wp) = wp"
  by (simp add: word_position_def after_first_def)

lemma py_int_inject [simp]: "py_int m = py_int n \<longleftrightarrow> m = n"
  by (metis parse_py_int)

subsection \<open>Lemmas: rounds\<close>

fun rounds_of :: "nat \<Rightarrow> verified_batch_result list \<Rightarrow> round_results" where
  "rounds_of q [] = []"
| "rounds_of q (b # bs) = map (\<lambda>r. (rr_key r, r, q)) (vb_results b) @ rounds_of (q + 1) bs"

lemma map_fst_rounds_of [simp]: "map fst (rounds_of q bs) = map rr_key (results_of bs)"
  by (induction bs arbitrary: q) (simp_all add: comp_def)

lemma round_batch_Inr:
  "round_batch expected q raws results = Inr out \<longleftrightarrow>
     set (map rr_key raws) \<subseteq> set expected \<and> distinct (map rr_key raws)
     \<and> set (map rr_key raws) \<inter> set (map fst results) = {} \<and> out = results @ map (\<lambda>r. (rr_key r, r, q)) raws"
  by (induction expected q raws results rule: round_batch.induct) auto

lemma round_batches_keys:
  assumes "round_batches anchor expected q bs results = Inr out" and "distinct (map fst results)"
  shows "answer_ok anchor bs \<and> out = results @ rounds_of q bs \<and> distinct (map fst out)
    \<and> set (map rr_key (results_of bs)) \<subseteq> set expected"
  using assms
proof (induction bs arbitrary: q results)
  case (Cons b bs)
  let ?r = "results @ map (\<lambda>r. (rr_key r, r, q)) (vb_results b)"
  from Cons.prems(1) have b: "check_batch anchor q b = Inr ()" "set (map rr_key (vb_results b)) \<subseteq> set expected"
    "distinct (map rr_key (vb_results b))" "set (map rr_key (vb_results b)) \<inter> set (map fst results) = {}"
    "round_batches anchor expected (q + 1) bs ?r = Inr out"
    by (auto simp: bind_res_Inr round_batch_Inr)
  have "distinct (map fst ?r)" using Cons.prems(2) b(3,4) by (auto simp: comp_def)
  from Cons.IH [OF b(5) this] have ih: "answer_ok anchor bs" "out = ?r @ rounds_of (q + 1) bs"
    "distinct (map fst out)" "set (map rr_key (results_of bs)) \<subseteq> set expected" by blast+
  from ih(1) b(1) have "answer_ok anchor (b # bs)" by (auto simp: check_batch_Inr answer_ok_def)
  moreover from ih(2) have "out = results @ rounds_of q (b # bs)" by simp
  moreover from ih(4) b(2) have "set (map rr_key (results_of (b # bs))) \<subseteq> set expected" by simp
  ultimately show ?case using ih(3) by blast
qed (auto simp: answer_ok_def)

lemma run_round_Inr:
  assumes "run_round execute anchor calls q s = (Inr (results, ev, q'), s')"
  shows "\<exists>bs. execute calls anchor s = (Inr bs, s') \<and> answer_ok anchor bs \<and> ev = evidence_of q bs
    \<and> results = rounds_of q bs \<and> distinct (map fst results) \<and> set (map fst results) = set (map cc_key calls)
    \<and> distinct (map cc_key calls)"
proof -
  from assms obtain bs where bs: "distinct (map cc_key calls)" "execute calls anchor s = (Inr bs, s')"
    "round_batches anchor (map cc_key calls) q bs [] = Inr results" "ev = evidence_of q bs"
    "set (map cc_key calls) \<subseteq> set (map fst results)"
    by (auto simp: run_round_def bind_io_Inr Let_def missing_keys_Nil split: if_splits)
  have "distinct (map fst ([] :: round_results))" by simp
  from round_batches_keys [OF bs(3) this] have "answer_ok anchor bs" "results = rounds_of q bs"
    "distinct (map fst results)" "set (map rr_key (results_of bs)) \<subseteq> set (map cc_key calls)"
    unfolding append_Nil by blast+
  with bs show ?thesis by (metis map_fst_rounds_of subset_antisym)
qed

subsection \<open>Lemmas: the tick sweep\<close>

text \<open>The index of a tick in the bitmap, and what the returned words say of it.\<close>

definition tick_index :: "pool_config \<Rightarrow> int \<Rightarrow> int \<Rightarrow> int" where
  "tick_index pool tick_spacing t = (if pc_pool_class pool = UNISWAP_V3_CLASS then t div tick_spacing else t)"

definition aligned :: "pool_config \<Rightarrow> int \<Rightarrow> int \<Rightarrow> bool" where
  "aligned pool tick_spacing t \<longleftrightarrow> (pc_pool_class pool = UNISWAP_V3_CLASS \<longrightarrow> tick_spacing dvd t)"

definition word_key :: "pool_config \<Rightarrow> int \<Rightarrow> int \<Rightarrow> string" where
  "word_key pool tick_spacing t = ''bm/'' @ py_int (tick_index pool tick_spacing t div 256)"

definition flagged :: "pool_config \<Rightarrow> int \<Rightarrow> raw_call_result list \<Rightarrow> int \<Rightarrow> bool" where
  "flagged pool tick_spacing words t \<longleftrightarrow> aligned pool tick_spacing t
     \<and> (\<exists>r \<in> set words. rr_key r = word_key pool tick_spacing t
          \<and> bit (from_bytes (rr_returndata r)) (nat (tick_index pool tick_spacing t mod 256)))"

text \<open>The words of the bitmap round cover the whole tick range of the protocol.\<close>

lemma bitmap_words_cover:
  assumes "0 < tick_spacing" and "MIN_TICK \<le> t" and "t \<le> MAX_TICK" and "aligned pool tick_spacing t"
  shows "tick_index pool tick_spacing t div 256 \<in> set (bitmap_words pool tick_spacing)"
proof -
  have shift: "drop_bit 8 x = x div 256" for x :: int by (simp add: drop_bit_eq_div)
  show ?thesis
    using assms zdiv_mono1 [OF assms(2,1)] zdiv_mono1 [OF assms(3,1)]
    by (auto simp: bitmap_words_def tick_index_def shift intro: zdiv_mono1)
qed

lemma mem_word_ticks:
  assumes "0 < tick_spacing"
  shows "t \<in> set (word_ticks pool tick_spacing wp bits) \<longleftrightarrow> MIN_TICK \<le> t \<and> t \<le> MAX_TICK
    \<and> aligned pool tick_spacing t \<and> (\<exists>b \<in> set bits. tick_index pool tick_spacing t = wp * 256 + int b)"
  using assms by (auto simp: word_ticks_def aligned_def tick_index_def Let_def image_iff elim!: dvdE)

lemma discover_loop_complete:
  assumes "discover_loop pool tick_spacing raw = Inr (found, [])" and "0 < tick_spacing"
  shows "set found = {t. MIN_TICK \<le> t \<and> t \<le> MAX_TICK \<and> aligned pool tick_spacing t
    \<and> (\<exists>(k, r, q) \<in> set raw. word_position k = tick_index pool tick_spacing t div 256
         \<and> bit (from_bytes (rr_returndata r)) (nat (tick_index pool tick_spacing t mod 256)))}"
  using assms(1)
proof (induction raw arbitrary: found)
  case (Cons e raw)
  obtain k r q where e: "e = (k, r, q)" by (cases e)
  from Cons.prems obtain found' bits where f: "discover_loop pool tick_spacing raw = Inr (found', [])"
    "decode_bitmap_word (rr_returndata r) = Inr bits"
    "found = word_ticks pool tick_spacing (word_position k) bits @ found'"
    by (auto simp: e bind_res_Inr Let_def split: if_splits sum.split_asm)
  have bits: "b \<in> set bits \<longleftrightarrow> b < 256 \<and> bit (from_bytes (rr_returndata r)) b" for b
    using f(2) by (auto simp: decode_bitmap_word_Inr)
  have "(\<exists>b \<in> set bits. i = word_position k * 256 + int b) \<longleftrightarrow>
      word_position k = i div 256 \<and> bit (from_bytes (rr_returndata r)) (nat (i mod 256))" for i
  proof
    assume "\<exists>b \<in> set bits. i = word_position k * 256 + int b"
    then obtain b where "b < 256" "bit (from_bytes (rr_returndata r)) b" "i = word_position k * 256 + int b"
      using bits by blast
    then show "word_position k = i div 256 \<and> bit (from_bytes (rr_returndata r)) (nat (i mod 256))" by simp
  next
    assume "word_position k = i div 256 \<and> bit (from_bytes (rr_returndata r)) (nat (i mod 256))"
    then show "\<exists>b \<in> set bits. i = word_position k * 256 + int b"
      by (intro bexI [of _ "nat (i mod 256)"]) (auto simp: bits nat_less_iff)
  qed
  with Cons.IH [OF f(1)] f(3) assms(2) show ?case by (auto simp: e mem_word_ticks)
qed simp

lemma set_rounds_of: "(k, r, m) \<in> set (rounds_of q bs) \<Longrightarrow> r \<in> set (results_of bs) \<and> k = rr_key r"
  by (induction bs arbitrary: q) auto

lemma results_rounds_of: "r \<in> set (results_of bs) \<Longrightarrow> \<exists>m. (rr_key r, r, m) \<in> set (rounds_of q bs)"
  by (induction bs arbitrary: q) fastforce+

lemma discover_ticks_exact:
  assumes "discover_ticks pool tick_spacing (rounds_of q bs) = Inr (found, [])" and "0 < tick_spacing"
    and keys: "set (map rr_key (results_of bs)) \<subseteq> (\<lambda>wp. ''bm/'' @ py_int wp) ` W"
  shows "sorted_wrt (<) found"
    and "t \<in> set found \<longleftrightarrow> MIN_TICK \<le> t \<and> t \<le> MAX_TICK \<and> flagged pool tick_spacing (results_of bs) t"
proof -
  from assms(1) obtain fs where fs: "discover_loop pool tick_spacing (rounds_of q bs) = Inr (fs, [])"
    "found = sort (remdups fs)" by (auto simp: discover_ticks_def bind_res_Inr)
  show "sorted_wrt (<) found" unfolding fs(2) strict_sorted_iff by simp
  have key: "word_position k = tick_index pool tick_spacing t div 256 \<longleftrightarrow> k = word_key pool tick_spacing t"
    if "k \<in> set (map rr_key (results_of bs))" for k
  proof -
    from that keys obtain wp where "k = ''bm/'' @ py_int wp" by blast
    then show ?thesis by (simp only: word_key_def word_position_key append_same_eq same_append_eq py_int_inject)
  qed
  have "(\<exists>(k, r, m) \<in> set (rounds_of q bs). word_position k = tick_index pool tick_spacing t div 256 \<and> P r)
      \<longleftrightarrow> (\<exists>r \<in> set (results_of bs). rr_key r = word_key pool tick_spacing t \<and> P r)" for P
  proof
    assume "\<exists>(k, r, m) \<in> set (rounds_of q bs). word_position k = tick_index pool tick_spacing t div 256 \<and> P r"
    then obtain k r m where r: "(k, r, m) \<in> set (rounds_of q bs)"
      "word_position k = tick_index pool tick_spacing t div 256" "P r" by blast
    from set_rounds_of [OF r(1)] have "r \<in> set (results_of bs)" "k = rr_key r" by blast+
    with r(2,3) key [of k] show "\<exists>r \<in> set (results_of bs). rr_key r = word_key pool tick_spacing t \<and> P r" by auto
  next
    assume "\<exists>r \<in> set (results_of bs). rr_key r = word_key pool tick_spacing t \<and> P r"
    then obtain r where r: "r \<in> set (results_of bs)" "rr_key r = word_key pool tick_spacing t" "P r" by blast
    from results_rounds_of [OF r(1)] obtain m where "(rr_key r, r, m) \<in> set (rounds_of q bs)" ..
    moreover have "word_position (rr_key r) = tick_index pool tick_spacing t div 256"
      unfolding r(2) word_key_def by (rule word_position_key)
    ultimately show "\<exists>(k, r, m) \<in> set (rounds_of q bs). word_position k = tick_index pool tick_spacing t div 256 \<and> P r"
      using r(3) by blast
  qed
  with discover_loop_complete [OF fs(1) assms(2)] fs(2)
  show "t \<in> set found \<longleftrightarrow> MIN_TICK \<le> t \<and> t \<le> MAX_TICK \<and> flagged pool tick_spacing (results_of bs) t"
    by (simp add: flagged_def)
qed

lemma materialize_tick_row:
  "materialize_tick pool raw t = Inr (Inr row) \<Longrightarrow> tk_tick row = t \<and> tk_liquidity_gross row \<noteq> 0"
  by (auto simp: materialize_tick_def bind_res_Inr tick_row_of_def split: if_splits sum.split_asm)

lemma materialize_ticks_complete:
  "materialize_ticks pool ts raw = Inr (rows, []) \<Longrightarrow>
     map tk_tick rows = ts \<and> (\<forall>row \<in> set rows. tk_liquidity_gross row \<noteq> 0)"
proof (induction ts arbitrary: rows)
  case (Cons t ts)
  from Cons.prems obtain o1 rs es where m: "materialize_tick pool raw t = Inr o1"
    "materialize_ticks pool ts raw = Inr (rs, es)"
    "(case o1 of Inl e \<Rightarrow> Inr (rs, e # es) | Inr row \<Rightarrow> Inr (row # rs, es)) = (Inr (rows, []) :: (pool_tick_row list \<times> collection_error list) res)"
    by (auto simp: bind_res_Inr)
  then obtain row where "o1 = Inr row" "rows = row # rs" "es = []" by (cases o1) auto
  with m Cons.IH [of rs] materialize_tick_row [of pool raw t row] show ?case by simp
qed simp

lemma decode_state_spacing: "decode_state pool raw = Inr state \<Longrightarrow> 0 < cs_tick_spacing state"
  by (auto simp: decode_state_def split: sum.split_asm prod.split_asm if_splits)

lemma bitmap_calls_keys:
  "bitmap_calls ex pool sp = Inr calls \<Longrightarrow> map cc_key calls = map (\<lambda>wp. ''bm/'' @ py_int wp) (bitmap_words pool sp)"
  by (intro list_all2_map_eq)
     (auto simp: bitmap_calls_def map_res_Inr bitmap_call_def bind_res_Inr pool_call_def elim!: list_all2_mono)

lemma tick_calls_Nil: "map_res (tick_call ex pool) ts = Inr [] \<longleftrightarrow> ts = []"
  by (cases ts) (auto simp: bind_res_Inr)

text \<open>
  What one sweep that reports no error found: the bitmap round answered every word of the
  protocol's tick range once, and the rows are exactly the ticks those words flag.
\<close>

definition exact_ticks ::
  "pool_config \<Rightarrow> block_ref \<Rightarrow> int \<Rightarrow> verified_batch_result list \<Rightarrow> pool_tick_row list \<Rightarrow> bool" where
  "exact_ticks pool anchor tick_spacing bs ticks \<longleftrightarrow>
     answer_ok anchor bs \<and> distinct (map rr_key (results_of bs))
     \<and> (\<forall>t. MIN_TICK \<le> t \<and> t \<le> MAX_TICK \<and> aligned pool tick_spacing t
          \<longrightarrow> word_key pool tick_spacing t \<in> set (map rr_key (results_of bs)))
     \<and> sorted_wrt (<) (map tk_tick ticks)
     \<and> (\<forall>t. t \<in> set (map tk_tick ticks) \<longleftrightarrow>
          MIN_TICK \<le> t \<and> t \<le> MAX_TICK \<and> flagged pool tick_spacing (results_of bs) t)
     \<and> (\<forall>row \<in> set ticks. tk_liquidity_gross row \<noteq> 0)"

lemma sweep_ticks_exact:
  assumes "sweep_ticks execute ex pool anchor sp q s = (Inr tw, s')" and "0 < sp" and "tw_errors tw = []"
  shows "\<exists>calls bs s1. bitmap_calls ex pool sp = Inr calls \<and> execute calls anchor s = (Inr bs, s1)
    \<and> exact_ticks pool anchor sp bs (tw_ticks tw)"
proof -
  from assms(1) obtain calls words ev q2 s1 found errors tk_calls where
    r: "bitmap_calls ex pool sp = Inr calls" "run_round execute anchor calls q s = (Inr (words, ev, q2), s1)"
      "discover_ticks pool sp words = Inr (found, errors)" "map_res (tick_call ex pool) found = Inr tk_calls"
    and cont: "(if tk_calls = []
       then ret \<lparr>tw_ticks = [], tw_errors = errors, tw_evidence = ev, tw_calls = length calls\<rparr>
       else bind_io (run_round execute anchor tk_calls q2) (\<lambda>(tick_raw, tk_evidence, _).
            bind_io (lift_res (materialize_ticks pool found tick_raw)) (\<lambda>(ticks, tick_errors).
              ret \<lparr>tw_ticks = ticks, tw_errors = errors @ tick_errors,
                   tw_evidence = ev @ tk_evidence, tw_calls = length calls + length tk_calls\<rparr>))) s1 = (Inr tw, s')"
    by (auto simp: sweep_ticks_def bind_io_Inr lift_res_Inr)
  have "errors = [] \<and> map tk_tick (tw_ticks tw) = found \<and> (\<forall>row \<in> set (tw_ticks tw). tk_liquidity_gross row \<noteq> 0)"
  proof (cases "tk_calls = []")
    case True
    with cont r(4) assms(3) show ?thesis by (auto simp: tick_calls_Nil)
  next
    case False
    with cont assms(3) show ?thesis
      by (auto simp: bind_io_Inr lift_res_Inr dest!: materialize_ticks_complete)
  qed
  then have rows: "errors = []" "map tk_tick (tw_ticks tw) = found"
    "\<forall>row \<in> set (tw_ticks tw). tk_liquidity_gross row \<noteq> 0" by blast+
  from run_round_Inr [OF r(2)] obtain bs where bs: "execute calls anchor s = (Inr bs, s1)" "answer_ok anchor bs"
    "words = rounds_of q bs" "distinct (map rr_key (results_of bs))"
    "set (map rr_key (results_of bs)) = set (map cc_key calls)"
    by (metis map_fst_rounds_of)
  have keys: "set (map rr_key (results_of bs)) = (\<lambda>wp. ''bm/'' @ py_int wp) ` set (bitmap_words pool sp)"
    using bs(5) bitmap_calls_keys [OF r(1)] by (simp only: set_map)
  note found = discover_ticks_exact [OF r(3) [unfolded bs(3) rows(1)] assms(2) equalityD1 [OF keys]]
  have "word_key pool sp t \<in> set (map rr_key (results_of bs))"
    if "MIN_TICK \<le> t" "t \<le> MAX_TICK" "aligned pool sp t" for t
    unfolding keys word_key_def using bitmap_words_cover [OF assms(2) that] by blast
  then have "exact_ticks pool anchor sp bs (tw_ticks tw)"
    unfolding exact_ticks_def rows(2) using bs(2,4) found rows(3) by blast
  with r(1) bs(1) show ?thesis by blast
qed

lemma cl_collect_swept:
  assumes "cl_collect execute ex m pool anchor mode s = (Inr r, s')" and "max 0 m \<le> cs_liquidity (cr_state r)"
  shows "\<exists>state q tw s1. 0 < cs_tick_spacing state
    \<and> sweep_ticks execute ex pool anchor (cs_tick_spacing state) q s1 = (Inr tw, s')
    \<and> cr_state r = state\<lparr>cs_tick_count := length (tw_ticks tw)\<rparr> \<and> cr_ticks r = tw_ticks tw
    \<and> cr_errors r = tw_errors tw \<and> set (reconcile state (tw_ticks tw)) \<subseteq> set (cr_integrity_checks r)"
proof -
  from assms(1) obtain raw ev q s1 state where st: "decode_state pool raw = Inr state"
    and cont: "cl_finish execute ex (max 0 m) pool anchor mode ev q state s1 = (Inr r, s')"
    by (auto simp: cl_collect_def bind_io_Inr lift_res_Inr)
  have "\<not> cs_liquidity state < max 0 m"
  proof
    assume "cs_liquidity state < max 0 m"
    with cont have "cr_state r = state" by (auto simp: cl_finish_def)
    with \<open>cs_liquidity state < max 0 m\<close> assms(2) show False by (simp add: less_max_iff_disj)
  qed
  with cont obtain tw where "sweep_ticks execute ex pool anchor (cs_tick_spacing state) q s1 = (Inr tw, s')"
    "cr_state r = state\<lparr>cs_tick_count := length (tw_ticks tw)\<rparr>" "cr_ticks r = tw_ticks tw"
    "cr_errors r = tw_errors tw" "cr_integrity_checks r = observed_check # reconcile state (tw_ticks tw)"
    by (auto simp: cl_finish_def bind_io_Inr)
  moreover from this(5) have "set (reconcile state (tw_ticks tw)) \<subseteq> set (cr_integrity_checks r)" by auto
  ultimately show ?thesis using decode_state_spacing [OF st] by blast
qed

text \<open>
  C32: a verified concentrated-liquidity result at or above the activity threshold lists exactly
  the initialised ticks of the pool: the bitmap round asked for every word of the protocol's tick
  range, each was answered once in a verified batch for this anchor, and the tick rows, in
  increasing order and each with non-zero gross liquidity, are the in-range ticks whose bit is
  set. Their net liquidity sums to zero over the whole range and to the pool's active liquidity up to
  the current tick, and the recorded tick count is their number.
\<close>
theorem cl_ticks_exact:
  assumes "cl_collect execute ex m pool anchor mode s = (Inr r, s')" and "cr_verified r"
    and "max 0 m \<le> cs_liquidity (cr_state r)"
  shows "(\<exists>calls bs s1 s2. bitmap_calls ex pool (cs_tick_spacing (cr_state r)) = Inr calls
        \<and> execute calls anchor s1 = (Inr bs, s2)
        \<and> exact_ticks pool anchor (cs_tick_spacing (cr_state r)) bs (cr_ticks r))
    \<and> sum_list (map tk_liquidity_net (cr_ticks r)) = 0
    \<and> sum_list (map tk_liquidity_net (filter (\<lambda>row. tk_tick row \<le> cs_current_tick (cr_state r)) (cr_ticks r)))
      = cs_liquidity (cr_state r)
    \<and> cs_tick_count (cr_state r) = length (cr_ticks r)"
proof -
  from cl_collect_swept [OF assms(1,3)] obtain state q tw s1 where
    sp: "0 < cs_tick_spacing state"
    and sw: "sweep_ticks execute ex pool anchor (cs_tick_spacing state) q s1 = (Inr tw, s')"
    and r: "cr_state r = state\<lparr>cs_tick_count := length (tw_ticks tw)\<rparr>" "cr_ticks r = tw_ticks tw"
      "cr_errors r = tw_errors tw"
    and checks: "set (reconcile state (tw_ticks tw)) \<subseteq> set (cr_integrity_checks r)" by blast
  from assms(2) have v: "cr_errors r = []" "\<forall>c \<in> set (cr_integrity_checks r). ir_passed c"
    by (simp_all add: cr_verified_def all_verified_def list_all_iff)
  have "tw_errors tw = []" using v(1) r(3) by simp
  from sweep_ticks_exact [OF sw sp this] r
  have "\<exists>calls bs s1 s2. bitmap_calls ex pool (cs_tick_spacing (cr_state r)) = Inr calls
      \<and> execute calls anchor s1 = (Inr bs, s2)
      \<and> exact_ticks pool anchor (cs_tick_spacing (cr_state r)) bs (cr_ticks r)" by auto
  moreover have "\<forall>c \<in> set (reconcile state (tw_ticks tw)). ir_passed c" using v(2) checks by blast
  then have "sum_list (map tk_liquidity_net (cr_ticks r)) = 0"
    and "sum_list (map tk_liquidity_net (filter (\<lambda>row. tk_tick row \<le> cs_current_tick (cr_state r)) (cr_ticks r)))
      = cs_liquidity (cr_state r)"
    using r by (simp_all add: reconcile_def Let_def)
  moreover have "cs_tick_count (cr_state r) = length (cr_ticks r)" using r by simp
  ultimately show ?thesis by blast
qed

text \<open>A pool with one initialised tick, read through an executor that answers by key.\<close>

definition keyed_executor :: "(string \<Rightarrow> bytes) \<Rightarrow> unit executor_fun" where
  "keyed_executor answer calls anchor = (\<lambda>s.
     let results = map (\<lambda>c. ok_result (cc_key c) (answer (cc_key c))) calls in
     (bind_res (digest_raw_results results) (\<lambda>digest.
      bind_res (normalize_hash (JStr (block_hash anchor))) (\<lambda>h.
        Inr [\<lparr>vb_results = results, vb_evidence = legacy_evidence ''eip1898'' h [''one''] digest\<rparr>])), s))"

lemma keyed_round:
  assumes "distinct (map cc_key calls)" and "list_all (\<lambda>c. length (cc_key c) < 1000) calls"
    and "\<And>k. length (answer k) < 1000"
  shows "\<exists>ev. run_round (keyed_executor answer) (sample_block n) calls q s =
      (Inr (map (\<lambda>c. (cc_key c, ok_result (cc_key c) (answer (cc_key c)), q)) calls, ev, q + 1), s)
    \<and> list_all (ve_verified \<circ> cb_evidence) ev"
proof -
  let ?rs = "map (\<lambda>c. ok_result (cc_key c) (answer (cc_key c))) calls"
  have "list_all (fields_ok \<circ> digest_fields) ?rs"
    using assms(2) less_trans [OF assms(3), of "2 ^ 32"]
    by (auto simp: list_all_iff fields_ok_def digest_fields_def ok_result_def result_code_def result_message_def)
  then obtain digest where digest: "digest_raw_results ?rs = Inr digest" by (auto simp: digest_raw_results_Inr)
  obtain h where h: "normalize_hash (JStr (block_hash (sample_block n))) = Inr h"
    using sample_hash_ok by (auto simp: normalize_hash_def sample_block_def)
  let ?b = "\<lparr>vb_results = ?rs, vb_evidence = legacy_evidence ''eip1898'' h [''one''] digest\<rparr>"
  have ex: "keyed_executor answer calls (sample_block n) s = (Inr [?b], s)"
    using digest h by (simp add: keyed_executor_def)
  have "check_batch (sample_block n) q ?b = Inr ()"
    using digest h by (auto simp: check_batch_Inr legacy_evidence_def normalize_hash_def split: if_splits)
  moreover have "round_batch (map cc_key calls) q ?rs [] = Inr (map (\<lambda>r. (rr_key r, r, q)) ?rs)"
    using assms(1) by (auto simp: round_batch_Inr comp_def ok_result_def)
  ultimately have "round_batches (sample_block n) (map cc_key calls) q [?b] [] = Inr (map (\<lambda>r. (rr_key r, r, q)) ?rs)"
    by simp
  moreover have "missing_keys (map cc_key calls) (map fst (map (\<lambda>r. (rr_key r, r, q)) ?rs)) = []"
    by (auto simp: missing_keys_Nil ok_result_def)
  ultimately have "run_round (keyed_executor answer) (sample_block n) calls q s =
      (Inr (map (\<lambda>r. (rr_key r, r, q)) ?rs, evidence_of q [?b], q + 1), s)"
    using assms(1) ex by (simp add: run_round_def bind_io_apply Let_def)
  moreover have "list_all (ve_verified \<circ> cb_evidence) (evidence_of q [?b])"
    by (simp add: batch_evidence_def legacy_evidence_def)
  ultimately show ?thesis by (intro exI [of _ "evidence_of q [?b]"]) (simp add: comp_def ok_result_def)
qed

definition one_tick :: "string \<Rightarrow> bytes" where
  "one_tick k =
     (if k = ''slot0'' then replicate 64 0
      else if k = ''tickSpacing'' then to_bytes 32 8388607
      else if k = ''bm/0'' then to_bytes 32 1
      else if k = ''tk/0'' then to_bytes 32 1 @ replicate 192 0 @ to_bytes 32 1
      else replicate 32 0)"

definition sample_pool :: pool_config where
  "sample_pool = \<lparr>pc_address = sample_address 3, pc_name = ''p'', pc_pool_class = UNISWAP_V3_CLASS,
     pc_deployment_block = 0, pc_date_start = None, pc_date_end = None, pc_enabled = True,
     pc_assets = [sample_address 4], pc_pool_id = None, pc_tick_spacing = None, pc_fee = None\<rparr>"

lemma sample_decodes:
  "decode_slot0 (replicate 64 0) = Inr \<lparr>s0_sqrt_price_x96 = 0, s0_tick = 0\<rparr>"
  "decode_int_return (to_bytes 32 8388607) 24 = Inr 8388607"
  "decode_uint_return (replicate 32 0) 24 = Inr 0"
  "decode_uint_return (replicate 32 0) 128 = Inr 0"
  "decode_uint_return (replicate 32 0) 256 = Inr 0"
  "decode_bitmap_word (to_bytes 32 1) = Inr [0]"
  "decode_bitmap_word (replicate 32 0) = Inr []"
  "decode_ticks (to_bytes 32 1 @ replicate 192 0 @ to_bytes 32 1) =
     Inr \<lparr>dt_liquidity_gross = 1, dt_liquidity_net = 0, dt_fee_growth_outside_0_x128 = 0,
          dt_fee_growth_outside_1_x128 = 0, dt_initialized = True\<rparr>"
  by code_simp+

definition sample_cl_state_row :: pool_cl_state_row where
  "sample_cl_state_row = \<lparr>cs_pool_address = sample_address 3, cs_pool_class = UNISWAP_V3_CLASS, cs_sqrt_price_x96 = 0,
     cs_current_tick = 0, cs_liquidity = 0, cs_fee_growth_global_0_x128 = 0, cs_fee_growth_global_1_x128 = 0,
     cs_tick_spacing = 8388607, cs_fee = 0, cs_tick_count = 0, cs_batch_sequence = 0\<rparr>"

lemma one_tick_short: "length (one_tick k) < 1000"
  by (simp add: one_tick_def)

lemma sample_state_round:
  "decode_state sample_pool (map (\<lambda>c. (cc_key c, ok_result (cc_key c) (one_tick (cc_key c)), 0)) (state_calls ex sample_pool))
     = Inr sample_cl_state_row"
  by (simp add: decode_state_def read_price_def read_scalars_def state_value_def lookup_key_def state_calls_def
      pool_call_def sample_pool_def ok_result_def one_tick_def sample_decodes sample_cl_state_row_def Let_def)

lemma sample_class [simp]: "pc_pool_class sample_pool = UNISWAP_V3_CLASS" "pc_address sample_pool = sample_address 3"
  by (simp_all add: sample_pool_def)

lemma sample_words: "bitmap_words sample_pool 8388607 = [-1, 0]"
  by code_simp

lemma sample_keys: "py_int (-1) = ''-1''" "py_int 0 = ''0''" "word_position ''bm/-1'' = -1" "word_position ''bm/0'' = 0"
  by code_simp+

lemma sample_calldata:
  "\<exists>d. tick_bitmap_calldata k (-1) = Inr d" "\<exists>d. tick_bitmap_calldata k 0 = Inr d" "\<exists>d. ticks_calldata k 0 = Inr d"
  by (simp_all add: tick_bitmap_calldata_def ticks_calldata_def signed_word_def)

lemma sample_sweep:
  "\<exists>tw. sweep_ticks (keyed_executor one_tick) ex sample_pool (sample_block n) 8388607 1 () = (Inr tw, ())
     \<and> tw_errors tw = [] \<and> list_all (ve_verified \<circ> cb_evidence) (tw_evidence tw)
     \<and> map tk_tick (tw_ticks tw) = [0] \<and> map tk_liquidity_net (tw_ticks tw) = [0]"
proof -
  obtain d1 d2 d3 where d: "tick_bitmap_calldata (ext_keccak ex) (-1) = Inr d1"
    "tick_bitmap_calldata (ext_keccak ex) 0 = Inr d2" "ticks_calldata (ext_keccak ex) 0 = Inr d3"
    using sample_calldata by metis
  let ?bm = "[pool_call sample_pool ''bm/-1'' d1, pool_call sample_pool ''bm/0'' d2]"
  let ?tk = "[pool_call sample_pool ''tk/0'' d3]"
  have bm: "bitmap_calls ex sample_pool 8388607 = Inr ?bm"
    by (simp add: bitmap_calls_def sample_words bitmap_call_def sample_keys d sample_class)
  have tk: "map_res (tick_call ex sample_pool) [0] = Inr ?tk" by (simp add: tick_call_def sample_keys d)
  obtain ev1 where r1: "run_round (keyed_executor one_tick) (sample_block n) ?bm 1 () =
      (Inr ([(''bm/-1'', ok_result ''bm/-1'' (one_tick ''bm/-1''), 1), (''bm/0'', ok_result ''bm/0'' (one_tick ''bm/0''), 1)], ev1, 2), ())"
    "list_all (ve_verified \<circ> cb_evidence) ev1"
    using keyed_round [of ?bm one_tick n 1 "()"] one_tick_short by (auto simp: pool_call_def numeral_2_eq_2)
  obtain ev2 where r2: "run_round (keyed_executor one_tick) (sample_block n) ?tk 2 () =
      (Inr ([(''tk/0'', ok_result ''tk/0'' (one_tick ''tk/0''), 2)], ev2, 3), ())"
    "list_all (ve_verified \<circ> cb_evidence) ev2"
    using keyed_round [of ?tk one_tick n 2 "()"] one_tick_short by (auto simp: pool_call_def numeral_3_eq_3)
  have "discover_ticks sample_pool 8388607 [(''bm/-1'', ok_result ''bm/-1'' (one_tick ''bm/-1''), 1),
      (''bm/0'', ok_result ''bm/0'' (one_tick ''bm/0''), 1)] = Inr ([0], [])"
    by (simp add: discover_ticks_def one_tick_def ok_result_def sample_decodes sample_keys word_ticks_def
        MIN_TICK_def MAX_TICK_def)
  moreover have "materialize_ticks sample_pool [0] [(''tk/0'', ok_result ''tk/0'' (one_tick ''tk/0''), 2)] =
      Inr ([\<lparr>tk_pool_address = sample_address 3, tk_tick = 0, tk_liquidity_gross = 1, tk_liquidity_net = 0,
        tk_fee_growth_outside_0_x128 = 0, tk_fee_growth_outside_1_x128 = 0, tk_batch_sequence = 2\<rparr>], [])"
    by (simp add: materialize_tick_def lookup_key_def sample_keys one_tick_def ok_result_def sample_decodes
        tick_row_of_def sample_pool_def)
  ultimately show ?thesis
    using bm tk r1 r2 by (simp add: sweep_ticks_def bind_io_apply)
qed

theorem cl_ticks_exact_witness:
  "\<exists>r. cl_collect (keyed_executor one_tick) sample_ext 0 sample_pool (sample_block 1) CL_LIQUIDITY () = (Inr r, ())
     \<and> cr_verified r \<and> map tk_tick (cr_ticks r) = [0] \<and> cs_tick_count (cr_state r) = 1"
proof -
  let ?calls = "state_calls sample_ext sample_pool"
  obtain ev where r: "run_round (keyed_executor one_tick) (sample_block 1) ?calls 0 () =
      (Inr (map (\<lambda>c. (cc_key c, ok_result (cc_key c) (one_tick (cc_key c)), 0)) ?calls, ev, 1), ())"
    "list_all (ve_verified \<circ> cb_evidence) ev"
    using keyed_round [of ?calls one_tick 1 0 "()"] one_tick_short
    by (auto simp: state_calls_def pool_call_def sample_pool_def Let_def)
  have g: "cl_guards sample_pool (sample_block 1) CL_LIQUIDITY = Inr ()"
    by (simp add: cl_guards_def sample_pool_def is_cl_def sample_block_def)
  obtain tw where tw: "sweep_ticks (keyed_executor one_tick) sample_ext sample_pool (sample_block 1) 8388607 1 () = (Inr tw, ())"
    "tw_errors tw = []" "list_all (ve_verified \<circ> cb_evidence) (tw_evidence tw)"
    "map tk_tick (tw_ticks tw) = [0]" "map tk_liquidity_net (tw_ticks tw) = [0]"
    using sample_sweep [of sample_ext 1] by (elim exE conjE)
  then obtain row where row: "tw_ticks tw = [row]" "tk_tick row = 0" "tk_liquidity_net row = 0" by auto
  from r g sample_state_round tw row have "\<exists>r. cl_collect (keyed_executor one_tick) sample_ext 0 sample_pool (sample_block 1) CL_LIQUIDITY () = (Inr r, ())
     \<and> cr_verified r \<and> map tk_tick (cr_ticks r) = [0] \<and> cs_liquidity (cr_state r) = 0"
    by (simp add: cl_collect_def bind_io_apply cl_finish_def sample_cl_state_row_def cr_verified_def all_verified_def
        reconcile_def observed_check_def)
  then obtain r where "cl_collect (keyed_executor one_tick) sample_ext 0 sample_pool (sample_block 1) CL_LIQUIDITY () = (Inr r, ())"
    "cr_verified r" "map tk_tick (cr_ticks r) = [0]" "cs_liquidity (cr_state r) = 0" by (elim exE conjE)
  moreover from cl_ticks_exact [OF this(1,2)] this(4) have "cs_tick_count (cr_state r) = length (map tk_tick (cr_ticks r))"
    by (simp only: length_map)
  ultimately show ?thesis by (intro exI [of _ r]) (simp del: length_map)
qed

end
