(* ===== verification/Repository.thy ===== *)
theory Repository
  imports Collection
begin

text \<open>
  The typed table boundary of \<open>storage/repositories.py\<close>. ClickHouse is outside the program: the
  client is a parameter, one function that receives the inserts and one that answers the
  queries. A session keeps, beside the state of the outside world, the journal of every insert
  the repository handed to the client, in order, so that a property can speak about what the
  program wrote and when, whatever the database does with it.
\<close>

subsection \<open>Rows and the client\<close>

text \<open>
  A row is a Python dictionary from column names to cells. A datetime is its POSIX time in
  seconds, a UUID is a number.
\<close>

datatype cell =
    CNull
  | CInt int
  | CText string
  | CTexts "string list"
  | CDate date
  | CTime int
  | CUuid nat

type_synonym row = "(string \<times> cell) list"

text \<open>The queries of the repository, one name per SQL text, with their parameters.\<close>

datatype sql =
    SQL_discovery_ranges | SQL_sweep_ranges | SQL_resolved_metadata | SQL_discovered_candidates
  | SQL_quarantined | SQL_holder_members | SQL_holder_addresses | SQL_published_targets
  | SQL_publications_current | SQL_publication_exists | SQL_fresh_writers | SQL_canonical_anchor
  | SQL_active_config_hash | SQL_terminal_errors | SQL_universe_members | SQL_token_balances
  | SQL_token_scalars | SQL_pool_balances | SQL_cl_state | SQL_cl_ticks
  | SQL_published_cl_states | SQL_published_ticks | SQL_census_sources

record 'w client =
  db_insert :: "string \<Rightarrow> string list \<Rightarrow> cell list list \<Rightarrow> string option \<Rightarrow> ('w, unit) io"
  db_query :: "sql \<Rightarrow> row \<Rightarrow> bool \<Rightarrow> ('w, row list) io"
  db_now :: "('w, int) io"
  db_uuid4 :: "('w, nat) io"

text \<open>An insert as it was sent: table and rows.\<close>

type_synonym insertion = "string \<times> row list"

record 'w session =
  ss_world :: 'w
  ss_journal :: "insertion list"

definition on_world :: "('w, 'a) io \<Rightarrow> ('w session, 'a) io" where
  "on_world m = (\<lambda>s. case m (ss_world s) of (r, w) \<Rightarrow> (r, s\<lparr>ss_world := w\<rparr>))"

definition sent :: "insertion \<Rightarrow> ('w session, unit) io" where
  "sent i = (\<lambda>s. (Inr (), s\<lparr>ss_journal := ss_journal s @ [i]\<rparr>))"

subsection \<open>Inserting\<close>

definition TABLE_RE :: "string \<Rightarrow> bool" where
  "TABLE_RE t \<longleftrightarrow> (case t of [] \<Rightarrow> False
     | c # cs \<Rightarrow> char_nat c \<in> {97..122}
         \<and> list_all (\<lambda>d. char_nat d \<in> {97..122} \<or> char_nat d \<in> {48..57} \<or> d = CHR ''_'') cs)"

definition TABLE_COLUMNS :: "(string \<times> string list) list" where
  "TABLE_COLUMNS = [
     (''config_registry'', [''chain_id'', ''job_name'', ''target_kind'', ''target_address'', ''cadence'',
        ''integrity_mode'', ''coverage_start'', ''coverage_end'', ''config_hash'',
        ''canonical_config_json'', ''enabled'', ''registered_at'']),
     (''day_anchors'', [''chain_id'', ''snapshot_date'', ''resolution_id'', ''block_number'', ''block_hash'',
        ''parent_hash'', ''block_timestamp'', ''next_block_number'', ''next_block_hash'',
        ''next_block_timestamp'', ''finalized_at_resolution'', ''resolution_source'',
        ''endpoint_fingerprint'', ''resolved_at'']),
     (''discovery_ranges'', [''chain_id'', ''token_address'', ''topic0'', ''range_start_block'',
        ''range_end_block_exclusive'', ''scan_id'', ''status'', ''anchor_block'', ''anchor_hash'',
        ''log_count'', ''holder_count'', ''attempt_count'', ''endpoint_fingerprint'', ''error_class'',
        ''error_message'', ''started_at'', ''heartbeat_at'', ''finished_at'']),
     (''holder_universe'', [''chain_id'', ''token_address'', ''holder_address'', ''source'', ''source_detail'',
        ''first_seen_block'', ''last_seen_block'', ''observations'']),
     (''token_metadata'', [''chain_id'', ''token_address'', ''symbol'', ''name'', ''decimals'', ''resolution_status'',
        ''symbol_encoding'', ''name_encoding'', ''anchor_block'', ''anchor_hash'', ''error_class'',
        ''error_message'', ''observed_at'']),
     (''sweep_ranges'', [''chain_id'', ''wallet_address'', ''topic_position'', ''range_start_block'',
        ''range_end_block_exclusive'', ''scan_id'', ''status'', ''anchor_block'', ''anchor_hash'',
        ''log_count'', ''attempt_count'', ''endpoint_fingerprint'', ''error_class'', ''error_message'',
        ''started_at'', ''heartbeat_at'', ''finished_at'']),
     (''wallet_interaction_logs'', [''chain_id'', ''wallet_address'', ''topic_position'', ''contract_address'', ''topic0'',
        ''topic_count'', ''block_number'', ''block_hash'', ''transaction_hash'', ''log_index'',
        ''topics'', ''observed_at'']),
     (''census_attempts'', [''chain_id'', ''job_name'', ''target_kind'', ''target_address'', ''snapshot_date'',
        ''attempt_id'', ''status'', ''integrity_mode'', ''config_hash'', ''anchor_block'',
        ''anchor_hash'', ''executor_kind'', ''block_reference_kind'', ''universe_hash'',
        ''universe_size'', ''batches_total'', ''batches_verified'', ''observations_ok'',
        ''observations_failed'', ''result_digest'', ''batches_json'', ''error_class'',
        ''error_message'', ''started_at'', ''heartbeat_at'', ''finished_at'']),
     (''census_universe_members'', [''chain_id'', ''job_name'', ''target_kind'', ''target_address'', ''snapshot_date'',
        ''attempt_id'', ''holder_address'', ''member_sources'', ''member_ordinal'', ''inserted_at'']),
     (''census_errors'', [''chain_id'', ''job_name'', ''target_kind'', ''target_address'', ''snapshot_date'',
        ''attempt_id'', ''subject_address'', ''call_kind'', ''batch_sequence'', ''error_class'',
        ''rpc_code'', ''return_data'', ''error_message'', ''terminal_at'']),
     (''token_balances'', [''chain_id'', ''job_name'', ''token_address'', ''snapshot_date'', ''attempt_id'',
        ''holder_address'', ''balance_raw'', ''scaled_balance_raw'', ''value_kind'', ''probe_source'',
        ''batch_sequence'', ''observed_at'']),
     (''token_scalars'', [''chain_id'', ''job_name'', ''token_address'', ''snapshot_date'', ''attempt_id'',
        ''scalar_name'', ''scalar_raw'', ''probe_source'', ''batch_sequence'', ''observed_at'']),
     (''pool_token_balances'', [''chain_id'', ''job_name'', ''pool_address'', ''token_address'', ''snapshot_date'',
        ''attempt_id'', ''balance_raw'', ''probe_source'', ''batch_sequence'', ''observed_at'']),
     (''pool_cl_state'', [''chain_id'', ''job_name'', ''pool_address'', ''snapshot_date'', ''attempt_id'', ''pool_class'',
        ''sqrt_price_x96'', ''current_tick'', ''liquidity'', ''fee_growth_global_0_x128'',
        ''fee_growth_global_1_x128'', ''tick_spacing'', ''fee'', ''tick_count'', ''probe_source'',
        ''batch_sequence'', ''observed_at'']),
     (''pool_tick_liquidity'', [''chain_id'', ''job_name'', ''pool_address'', ''snapshot_date'', ''attempt_id'', ''tick'',
        ''liquidity_gross'', ''liquidity_net'', ''fee_growth_outside_0_x128'',
        ''fee_growth_outside_1_x128'', ''probe_source'', ''batch_sequence'', ''observed_at'']),
     (''pool_liquidity_profile'', [''chain_id'', ''pool_address'', ''snapshot_date'', ''tick_lower'', ''tick_upper'',
        ''active_liquidity'', ''source_attempt_id'', ''source_result_digest'', ''computed_at'']),
     (''census_publications'', [''chain_id'', ''job_name'', ''target_kind'', ''target_address'', ''snapshot_date'',
        ''publication_id'', ''attempt_id'', ''executor_kind'', ''block_reference_kind'',
        ''integrity_mode'', ''config_hash'', ''anchor_block'', ''anchor_hash'', ''universe_hash'',
        ''universe_size'', ''result_digest'', ''observed_sum_raw'', ''reference_supply_raw'',
        ''batches_total'', ''observations_total'', ''provider_groups'', ''checks_passed'',
        ''published_at'']),
     (''writer_heartbeats'', [''chain_id'', ''process_id'', ''operation'', ''hostname'', ''details_json'', ''started_at'',
        ''heartbeat_at''])]"

definition columns_of :: "row \<Rightarrow> string set" where
  "columns_of row = fst ` set row"

fun same_columns :: "string \<Rightarrow> string set \<Rightarrow> nat \<Rightarrow> row list \<Rightarrow> unit res" where
  "same_columns table supplied index [] = Inr ()"
| "same_columns table supplied index (row # rows) =
     (if columns_of row \<noteq> supplied
      then raise_res ValueError
             (''row '' @ py_int (int index) @ '' for '' @ table @ '' has different columns from the first row'')
      else same_columns table supplied (index + 1) rows)"

definition check_rows :: "string \<Rightarrow> row list \<Rightarrow> string list res" where
  "check_rows table rows =
     (case map_of TABLE_COLUMNS table of
        None \<Rightarrow> raise_res ValueError (''unsupported persistence table: '' @ repr_str table)
      | Some allowed \<Rightarrow>
          if \<not> TABLE_RE table then raise_res ValueError (''unsupported persistence table: '' @ repr_str table)
          else case rows of
            [] \<Rightarrow> Inr []
          | first # rest \<Rightarrow>
              let supplied = columns_of first;
                  unknown = filter (\<lambda>c. c \<notin> set allowed) (remdups (map fst first)) in
              if unknown \<noteq> []
              then raise_res ValueError
                     (''unknown columns for '' @ table @ '': '' @ py_repr (JArr (map JStr (sort unknown))))
              else if ''insert_version'' \<in> supplied
              then raise_res ValueError ''insert_version is materialized and must not be supplied''
              else bind_res (same_columns table supplied 1 rest) (\<lambda>_.
                     Inr (filter (\<lambda>c. c \<in> supplied) allowed)))"

definition insert_rows ::
  "'w client \<Rightarrow> string \<Rightarrow> row list \<Rightarrow> string option \<Rightarrow> ('w session, nat) io" where
  "insert_rows db table rows token =
     bind_io (lift_res (check_rows table rows)) (\<lambda>columns.
       if rows = [] then ret 0
       else if token = Some [] then raise (Exn ValueError ''deduplication token cannot be empty'')
       else bind_io (sent (table, rows)) (\<lambda>_.
            bind_io (on_world (db_insert db table columns
                       (map (\<lambda>row. map (\<lambda>c. the (map_of row c)) columns) rows) token)) (\<lambda>_.
              ret (length rows))))"

subsection \<open>Cells\<close>

text \<open>
  The text of a UUID, and the conversions \<open>str(...)\<close> and \<open>int(...)\<close> of a returned cell. The client
  returns the cells of a String column as text and those of an integer column as integers.
\<close>

definition uuid_str :: "nat \<Rightarrow> string" where
  "uuid_str u = (let h = bytes_hex (to_bytes 16 (int u)) in
     take 8 h @ ''-'' @ take 4 (drop 8 h) @ ''-'' @ take 4 (drop 12 h) @ ''-'' @ take 4 (drop 16 h) @ ''-'' @ drop 20 h)"

definition cell_str :: "cell \<Rightarrow> string res" where
  "cell_str c = (case c of CText s \<Rightarrow> Inr s | CInt n \<Rightarrow> Inr (py_int n) | CUuid u \<Rightarrow> Inr (uuid_str u)
     | CNull \<Rightarrow> Inr ''None'' | _ \<Rightarrow> raise_res TypeError ''not a text column'')"

definition cell_int :: "cell \<Rightarrow> int res" where
  "cell_int c = (case c of CInt n \<Rightarrow> Inr n | CTime t \<Rightarrow> Inr t | _ \<Rightarrow> raise_res TypeError ''not an integer column'')"

definition cell_texts :: "cell \<Rightarrow> string list res" where
  "cell_texts c = (case c of CTexts l \<Rightarrow> Inr l | _ \<Rightarrow> raise_res TypeError ''not an array column'')"

definition col_str :: "row \<Rightarrow> string \<Rightarrow> string res" where
  "col_str row c = bind_res (lookup_key row c) cell_str"

definition col_int :: "row \<Rightarrow> string \<Rightarrow> int res" where
  "col_int row c = bind_res (lookup_key row c) cell_int"

definition col_texts :: "row \<Rightarrow> string \<Rightarrow> string list res" where
  "col_texts row c = bind_res (lookup_key row c) cell_texts"

subsection \<open>Attempt scope\<close>

record attempt_scope =
  sc_chain_id :: int
  sc_job_name :: string
  sc_target_address :: string
  sc_snapshot_date :: date
  sc_attempt_id :: nat

definition scope_parameters :: "attempt_scope \<Rightarrow> row" where
  "scope_parameters s = [(''chain_id'', CInt (sc_chain_id s)), (''job_name'', CText (sc_job_name s)),
     (''target_address'', CText (sc_target_address s)), (''snapshot_date'', CDate (sc_snapshot_date s)),
     (''attempt_id'', CUuid (sc_attempt_id s))]"

subsection \<open>Insert operations\<close>

definition register_configs :: "'w client \<Rightarrow> row list \<Rightarrow> ('w session, nat) io" where
  "register_configs db rows = insert_rows db ''config_registry'' rows None"

definition insert_anchor :: "'w client \<Rightarrow> row \<Rightarrow> ('w session, nat) io" where
  "insert_anchor db row = insert_rows db ''day_anchors'' [row] None"

definition insert_discovery_ranges :: "'w client \<Rightarrow> row list \<Rightarrow> ('w session, nat) io" where
  "insert_discovery_ranges db rows = insert_rows db ''discovery_ranges'' rows None"

definition insert_holder_observations :: "'w client \<Rightarrow> row list \<Rightarrow> ('w session, nat) io" where
  "insert_holder_observations db rows = insert_rows db ''holder_universe'' rows None"

definition insert_token_metadata :: "'w client \<Rightarrow> row list \<Rightarrow> ('w session, nat) io" where
  "insert_token_metadata db rows = insert_rows db ''token_metadata'' rows None"

definition insert_sweep_ranges :: "'w client \<Rightarrow> row list \<Rightarrow> ('w session, nat) io" where
  "insert_sweep_ranges db rows = insert_rows db ''sweep_ranges'' rows None"

definition insert_wallet_interaction_logs :: "'w client \<Rightarrow> row list \<Rightarrow> ('w session, nat) io" where
  "insert_wallet_interaction_logs db rows = insert_rows db ''wallet_interaction_logs'' rows None"

definition insert_attempt_state :: "'w client \<Rightarrow> row \<Rightarrow> ('w session, nat) io" where
  "insert_attempt_state db row = insert_rows db ''census_attempts'' [row] None"

definition insert_universe_members :: "'w client \<Rightarrow> row list \<Rightarrow> nat \<Rightarrow> ('w session, nat) io" where
  "insert_universe_members db rows attempt_id =
     insert_rows db ''census_universe_members'' rows (Some (''universe:'' @ uuid_str attempt_id))"

definition insert_token_balances :: "'w client \<Rightarrow> row list \<Rightarrow> nat \<Rightarrow> nat \<Rightarrow> ('w session, nat) io" where
  "insert_token_balances db rows attempt_id chunk_index =
     insert_rows db ''token_balances'' rows (Some (uuid_str attempt_id @ '':balances:'' @ py_int (int chunk_index)))"

definition insert_token_scalars :: "'w client \<Rightarrow> row list \<Rightarrow> nat \<Rightarrow> nat \<Rightarrow> ('w session, nat) io" where
  "insert_token_scalars db rows attempt_id batch_sequence =
     insert_rows db ''token_scalars'' rows (Some (uuid_str attempt_id @ '':scalars:'' @ py_int (int batch_sequence)))"

definition insert_pool_balances :: "'w client \<Rightarrow> row list \<Rightarrow> nat \<Rightarrow> nat \<Rightarrow> ('w session, nat) io" where
  "insert_pool_balances db rows attempt_id chunk_index =
     insert_rows db ''pool_token_balances'' rows (Some (uuid_str attempt_id @ '':pools:'' @ py_int (int chunk_index)))"

definition insert_pool_cl_state :: "'w client \<Rightarrow> row list \<Rightarrow> nat \<Rightarrow> ('w session, nat) io" where
  "insert_pool_cl_state db rows attempt_id =
     insert_rows db ''pool_cl_state'' rows (Some (uuid_str attempt_id @ '':cl_state''))"

definition insert_pool_ticks :: "'w client \<Rightarrow> row list \<Rightarrow> nat \<Rightarrow> nat \<Rightarrow> ('w session, nat) io" where
  "insert_pool_ticks db rows attempt_id chunk_index =
     insert_rows db ''pool_tick_liquidity'' rows (Some (uuid_str attempt_id @ '':cl_ticks:'' @ py_int (int chunk_index)))"

definition insert_terminal_errors :: "'w client \<Rightarrow> row list \<Rightarrow> ('w session, nat) io" where
  "insert_terminal_errors db rows = insert_rows db ''census_errors'' rows None"

definition append_publication :: "'w client \<Rightarrow> row \<Rightarrow> ('w session, nat) io" where
  "append_publication db row = insert_rows db ''census_publications'' [row] None"

definition heartbeat :: "'w client \<Rightarrow> row \<Rightarrow> ('w session, nat) io" where
  "heartbeat db row = insert_rows db ''writer_heartbeats'' [row] None"

subsection \<open>Queries\<close>

definition query_rows :: "'w client \<Rightarrow> sql \<Rightarrow> row \<Rightarrow> bool \<Rightarrow> ('w session, row list) io" where
  "query_rows db text parameters consistent = on_world (db_query db text parameters consistent)"

definition query_map :: "'w client \<Rightarrow> sql \<Rightarrow> row \<Rightarrow> bool \<Rightarrow> (row \<Rightarrow> 'a res) \<Rightarrow> ('w session, 'a list) io" where
  "query_map db text parameters consistent f =
     bind_io (query_rows db text parameters consistent) (\<lambda>rows. lift_res (map_res f rows))"

definition range_of_row :: "row \<Rightarrow> (int \<times> int) res" where
  "range_of_row row = bind_res (col_int row ''range_start_block'') (\<lambda>a.
     bind_res (col_int row ''range_end_block_exclusive'') (\<lambda>b. Inr (a, b)))"

definition completed_discovery_ranges ::
  "'w client \<Rightarrow> int \<Rightarrow> string \<Rightarrow> string \<Rightarrow> ('w session, (int \<times> int) list) io" where
  "completed_discovery_ranges db chain_id token_address topic0 =
     query_map db SQL_discovery_ranges
       [(''chain_id'', CInt chain_id), (''token_address'', CText token_address), (''topic0'', CText topic0)]
       False range_of_row"

definition completed_sweep_ranges ::
  "'w client \<Rightarrow> int \<Rightarrow> string \<Rightarrow> int \<Rightarrow> ('w session, (int \<times> int) list) io" where
  "completed_sweep_ranges db chain_id wallet_address topic_position =
     query_map db SQL_sweep_ranges
       [(''chain_id'', CInt chain_id), (''wallet_address'', CText wallet_address),
        (''topic_position'', CInt topic_position)] False range_of_row"

definition unresolved_metadata_addresses ::
  "'w client \<Rightarrow> int \<Rightarrow> string list \<Rightarrow> ('w session, string list) io" where
  "unresolved_metadata_addresses db chain_id addresses =
     (let candidates = sort (remdups addresses) in
      if candidates = [] then ret []
      else bind_io (query_map db SQL_resolved_metadata
                      [(''chain_id'', CInt chain_id), (''addresses'', CTexts candidates)] False
                      (\<lambda>row. col_str row ''token_address'')) (\<lambda>resolved.
             ret (filter (\<lambda>a. a \<notin> set resolved) candidates)))"

definition discovered_token_candidates :: "'w client \<Rightarrow> int \<Rightarrow> ('w session, (string \<times> int) list) io" where
  "discovered_token_candidates db chain_id =
     query_map db SQL_discovered_candidates [(''chain_id'', CInt chain_id)] False
       (\<lambda>row. bind_res (col_str row ''contract_address'') (\<lambda>a.
              bind_res (col_int row ''first_seen_block'') (\<lambda>b. Inr (a, b))))"

definition quarantined_token_targets ::
  "'w client \<Rightarrow> int \<Rightarrow> string \<Rightarrow> int \<Rightarrow> ('w session, string list) io" where
  "quarantined_token_targets db chain_id job_name threshold =
     (if threshold < 1 then raise (Exn ValueError ''quarantine threshold must be positive'')
      else query_map db SQL_quarantined
             [(''chain_id'', CInt chain_id), (''job_name'', CText job_name), (''threshold'', CInt threshold)] False
             (\<lambda>row. col_str row ''target_address''))"

definition holder_addresses :: "'w client \<Rightarrow> int \<Rightarrow> string \<Rightarrow> ('w session, string list) io" where
  "holder_addresses db chain_id token_address =
     query_map db SQL_holder_addresses
       [(''chain_id'', CInt chain_id), (''token_address'', CText token_address)] False
       (\<lambda>row. col_str row ''holder_address'')"

definition published_target_addresses ::
  "'w client \<Rightarrow> int \<Rightarrow> string \<Rightarrow> string \<Rightarrow> date \<Rightarrow> bool \<Rightarrow> ('w session, string list) io" where
  "published_target_addresses db chain_id job_name target_kind snapshot_date any_config_hash =
     query_map db (if any_config_hash then SQL_published_targets else SQL_publications_current)
       [(''chain_id'', CInt chain_id), (''job_name'', CText job_name), (''target_kind'', CText target_kind),
        (''snapshot_date'', CDate snapshot_date)] True (\<lambda>row. col_str row ''target_address'')"

definition publication_exists ::
  "'w client \<Rightarrow> int \<Rightarrow> string \<Rightarrow> string \<Rightarrow> string \<Rightarrow> date \<Rightarrow> ('w session, bool) io" where
  "publication_exists db chain_id job_name target_kind target_address snapshot_date =
     bind_io (query_rows db SQL_publication_exists
       [(''chain_id'', CInt chain_id), (''job_name'', CText job_name), (''target_kind'', CText target_kind),
        (''target_address'', CText target_address), (''snapshot_date'', CDate snapshot_date)] False) (\<lambda>rows.
       case rows of [] \<Rightarrow> ret False
       | row # _ \<Rightarrow> bind_io (lift_res (col_int row ''publications'')) (\<lambda>n. ret (n > 0)))"

definition fresh_writer_processes :: "'w client \<Rightarrow> int \<Rightarrow> int \<Rightarrow> bool \<Rightarrow> ('w session, string list) io" where
  "fresh_writer_processes db chain_id stale_seconds discovery_scope =
     query_map db SQL_fresh_writers
       [(''chain_id'', CInt chain_id), (''stale_seconds'', CInt stale_seconds),
        (''discovery_scope'', CInt (if discovery_scope then 1 else 0))] False
       (\<lambda>row. col_str row ''process_id'')"

definition canonical_anchor :: "'w client \<Rightarrow> int \<Rightarrow> date \<Rightarrow> ('w session, row option) io" where
  "canonical_anchor db chain_id snapshot_date =
     bind_io (query_rows db SQL_canonical_anchor
       [(''chain_id'', CInt chain_id), (''snapshot_date'', CDate snapshot_date)] False) (\<lambda>rows.
       ret (case rows of [] \<Rightarrow> None | row # _ \<Rightarrow> Some row))"

definition active_config_hash ::
  "'w client \<Rightarrow> int \<Rightarrow> string \<Rightarrow> string \<Rightarrow> string \<Rightarrow> ('w session, string option) io" where
  "active_config_hash db chain_id job_name target_kind target_address =
     bind_io (query_rows db SQL_active_config_hash
       [(''chain_id'', CInt chain_id), (''job_name'', CText job_name), (''target_kind'', CText target_kind),
        (''target_address'', CText target_address)] False) (\<lambda>rows.
       case rows of [] \<Rightarrow> ret None
       | row # _ \<Rightarrow> bind_io (lift_res (col_str row ''config_hash'')) (\<lambda>h. ret (Some h)))"

subsection \<open>Read-backs of one attempt\<close>

definition terminal_error_count :: "'w client \<Rightarrow> attempt_scope \<Rightarrow> bool \<Rightarrow> ('w session, int) io" where
  "terminal_error_count db scope consistent =
     bind_io (query_rows db SQL_terminal_errors (scope_parameters scope) consistent) (\<lambda>rows.
       case rows of
         ((c, n) # _) # _ \<Rightarrow> lift_res (cell_int n)
       | _ \<Rightarrow> raise (Exn PyException ''list index out of range''))"

definition readback_universe_digest :: "'w client \<Rightarrow> attempt_scope \<Rightarrow> bool \<Rightarrow> ('w session, string) io" where
  "readback_universe_digest db scope consistent =
     bind_io (query_map db SQL_universe_members (scope_parameters scope) consistent
       (\<lambda>row. bind_res (col_str row ''holder_address'') (\<lambda>a.
              bind_res (col_texts row ''member_sources'') (\<lambda>l. Inr (a, l))))) (\<lambda>members.
       lift_res (digest_universe members))"

definition balance_of_row :: "row \<Rightarrow> balance_digest_row res" where
  "balance_of_row row =
     bind_res (col_str row ''holder_address'') (\<lambda>a.
     bind_res (col_int row ''balance_raw'') (\<lambda>b.
     bind_res (lookup_key row ''scaled_balance_raw'') (\<lambda>c.
     bind_res (if c = CNull then Inr None else bind_res (cell_int c) (\<lambda>n. Inr (Some n))) (\<lambda>sb.
     bind_res (col_str row ''value_kind'') (\<lambda>k.
       Inr \<lparr>bd_holder_address = a, bd_balance_raw = b, bd_scaled_balance_raw = sb, bd_value_kind = k\<rparr>)))))"

definition scalar_of_row :: "row \<Rightarrow> scalar_digest_row res" where
  "scalar_of_row row =
     bind_res (col_str row ''scalar_name'') (\<lambda>n.
     bind_res (col_int row ''scalar_raw'') (\<lambda>v. Inr \<lparr>sd_scalar_name = n, sd_scalar_raw = v\<rparr>))"

definition readback_token_digest :: "'w client \<Rightarrow> attempt_scope \<Rightarrow> bool \<Rightarrow> ('w session, string) io" where
  "readback_token_digest db scope consistent =
     bind_io (query_rows db SQL_token_balances (scope_parameters scope) consistent) (\<lambda>balances.
     bind_io (query_rows db SQL_token_scalars (scope_parameters scope) consistent) (\<lambda>scalars.
     bind_io (lift_res (map_res balance_of_row balances)) (\<lambda>bs.
     bind_io (lift_res (map_res scalar_of_row scalars)) (\<lambda>ss.
       lift_res (digest_token_observations bs ss)))))"

definition pool_balance_of_row :: "row \<Rightarrow> pool_balance_digest_row res" where
  "pool_balance_of_row row =
     bind_res (col_str row ''pool_address'') (\<lambda>p.
     bind_res (col_str row ''token_address'') (\<lambda>t.
     bind_res (col_int row ''balance_raw'') (\<lambda>b.
       Inr \<lparr>pd_pool_address = p, pd_token_address = t, pd_balance_raw = b\<rparr>)))"

definition readback_pool_digest :: "'w client \<Rightarrow> attempt_scope \<Rightarrow> bool \<Rightarrow> ('w session, string) io" where
  "readback_pool_digest db scope consistent =
     bind_io (query_map db SQL_pool_balances (scope_parameters scope) consistent pool_balance_of_row) (\<lambda>rows.
       lift_res (digest_pool_observations rows))"

definition cl_state_of_row :: "row \<Rightarrow> pool_cl_state_digest_row res" where
  "cl_state_of_row row =
     bind_res (col_str row ''pool_address'') (\<lambda>p.
     bind_res (col_int row ''sqrt_price_x96'') (\<lambda>price.
     bind_res (col_int row ''current_tick'') (\<lambda>tick.
     bind_res (col_int row ''liquidity'') (\<lambda>liq.
     bind_res (col_int row ''fee_growth_global_0_x128'') (\<lambda>g0.
     bind_res (col_int row ''fee_growth_global_1_x128'') (\<lambda>g1.
     bind_res (col_int row ''tick_spacing'') (\<lambda>sp.
     bind_res (col_int row ''fee'') (\<lambda>fee.
     bind_res (col_int row ''tick_count'') (\<lambda>n.
       Inr \<lparr>cd_pool_address = p, cd_sqrt_price_x96 = price, cd_current_tick = tick, cd_liquidity = liq,
            cd_fee_growth_global_0_x128 = g0, cd_fee_growth_global_1_x128 = g1, cd_tick_spacing = sp,
            cd_fee = fee, cd_tick_count = n\<rparr>)))))))))"

definition tick_of_row :: "row \<Rightarrow> pool_tick_digest_row res" where
  "tick_of_row row =
     bind_res (col_str row ''pool_address'') (\<lambda>p.
     bind_res (col_int row ''tick'') (\<lambda>tick.
     bind_res (col_int row ''liquidity_gross'') (\<lambda>gross.
     bind_res (col_int row ''liquidity_net'') (\<lambda>net.
     bind_res (col_int row ''fee_growth_outside_0_x128'') (\<lambda>g0.
     bind_res (col_int row ''fee_growth_outside_1_x128'') (\<lambda>g1.
       Inr \<lparr>td_pool_address = p, td_tick = tick, td_liquidity_gross = gross, td_liquidity_net = net,
            td_fee_growth_outside_0_x128 = g0, td_fee_growth_outside_1_x128 = g1\<rparr>))))))"

definition readback_cl_digest :: "'w client \<Rightarrow> attempt_scope \<Rightarrow> bool \<Rightarrow> ('w session, string) io" where
  "readback_cl_digest db scope consistent =
     bind_io (query_rows db SQL_cl_state (scope_parameters scope) consistent) (\<lambda>state_rows.
     case state_rows of
       [] \<Rightarrow> raise (Exn ValueError (''no persisted CL state for attempt '' @ uuid_str (sc_attempt_id scope)))
     | row # _ \<Rightarrow>
         bind_io (lift_res (cl_state_of_row row)) (\<lambda>state.
         bind_io (query_map db SQL_cl_ticks (scope_parameters scope) consistent tick_of_row) (\<lambda>ticks.
           lift_res (digest_cl_observations state ticks))))"

subsection \<open>What a computation writes\<close>

text \<open>
  \<open>writes P m\<close>: the computation only appends to the journal, and every insertion it appends
  satisfies \<open>P\<close>, whether it returns or raises.
\<close>

definition writes :: "(insertion \<Rightarrow> bool) \<Rightarrow> ('w session, 'a) io \<Rightarrow> bool" where
  "writes P m \<longleftrightarrow> (\<forall>s r s'. m s = (r, s') \<longrightarrow> (\<exists>l. ss_journal s' = ss_journal s @ l \<and> list_all P l))"

named_theorems writes_intros \<open>composition of write footprints\<close>

lemma writesD: "writes P m \<Longrightarrow> m s = (r, s') \<Longrightarrow> \<exists>l. ss_journal s' = ss_journal s @ l \<and> list_all P l"
  by (simp add: writes_def)

lemma writes_mono: "writes P m \<Longrightarrow> (\<And>i. P i \<Longrightarrow> Q i) \<Longrightarrow> writes Q m"
  unfolding writes_def by (metis list.pred_mono_strong)

lemma writes_prim [writes_intros]: "writes P (ret x)" "writes P (raise e)" "writes P (lift_res r)"
  by (simp_all add: writes_def ret_def raise_def lift_res_def)

lemma writes_on_world [writes_intros]: "writes P (on_world m)"
  by (auto simp: writes_def on_world_def split: prod.split_asm)

lemma writes_sent [writes_intros]: "P i \<Longrightarrow> writes P (sent i)"
  by (simp add: writes_def sent_def)

lemma writes_bind [writes_intros]:
  assumes "writes P m" and "\<And>x. writes P (f x)"
  shows "writes P (bind_io m f)"
  unfolding writes_def
proof (intro allI impI)
  fix s r s'
  assume b: "bind_io m f s = (r, s')"
  obtain r1 s1 where m: "m s = (r1, s1)" by fastforce
  from writesD [OF assms(1) m] obtain l1 where l1: "ss_journal s1 = ss_journal s @ l1" "list_all P l1" by blast
  show "\<exists>l. ss_journal s' = ss_journal s @ l \<and> list_all P l"
  proof (cases r1)
    case (Inl e)
    with b m l1 show ?thesis by (auto simp: bind_io_def)
  next
    case (Inr x)
    with b m have "f x s1 = (r, s')" by (simp add: bind_io_def)
    from writesD [OF assms(2) this] l1 show ?thesis by (metis append.assoc list_all_append)
  qed
qed

lemma writes_catch [writes_intros]:
  assumes "writes P m" and "\<And>e. writes P (h e)"
  shows "writes P (catch_io m h)"
  unfolding writes_def
proof (intro allI impI)
  fix s r s'
  assume b: "catch_io m h s = (r, s')"
  obtain r1 s1 where m: "m s = (r1, s1)" by fastforce
  from writesD [OF assms(1) m] obtain l1 where l1: "ss_journal s1 = ss_journal s @ l1" "list_all P l1" by blast
  show "\<exists>l. ss_journal s' = ss_journal s @ l \<and> list_all P l"
  proof (cases r1)
    case (Inl e)
    with b m have "h e s1 = (r, s')" by (simp add: catch_io_def)
    from writesD [OF assms(2) this] l1 show ?thesis by (metis append.assoc list_all_append)
  next
    case (Inr x)
    with b m l1 show ?thesis by (auto simp: catch_io_def)
  qed
qed

lemma writes_map_io [writes_intros]: "(\<And>x. x \<in> set xs \<Longrightarrow> writes P (f x)) \<Longrightarrow> writes P (map_io f xs)"
  by (induction xs) (auto intro!: writes_intros)

lemma writes_insert_rows [writes_intros]: "P (table, rows) \<Longrightarrow> writes P (insert_rows db table rows token)"
  unfolding insert_rows_def by (auto intro!: writes_intros)

lemma writes_query [writes_intros]: "writes P (query_rows db q ps c)" "writes P (query_map db q ps c f)"
  unfolding query_rows_def query_map_def by (auto intro!: writes_intros)

lemma writes_readback [writes_intros]:
  "writes P (terminal_error_count db scope c)" "writes P (readback_universe_digest db scope c)"
  "writes P (readback_token_digest db scope c)" "writes P (readback_pool_digest db scope c)"
  "writes P (readback_cl_digest db scope c)"
  unfolding terminal_error_count_def readback_universe_digest_def readback_token_digest_def
    readback_pool_digest_def readback_cl_digest_def
  by (auto intro!: writes_intros split: list.split prod.split)

text \<open>A computation that writes nothing keeps the journal.\<close>

lemma list_all_False: "list_all (\<lambda>_. False) l \<longleftrightarrow> l = []"
  by (cases l) auto

lemma writes_nothing: "writes (\<lambda>_. False) m \<Longrightarrow> m s = (r, s') \<Longrightarrow> ss_journal s' = ss_journal s"
  by (drule writesD) (auto simp: list_all_False)

text \<open>An insert that returned was handed to the client, after a check of its columns.\<close>

lemma insert_rows_Inr:
  assumes "insert_rows db table rows token s = (Inr n, s')"
  shows "ss_journal s' = ss_journal s @ (if rows = [] then [] else [(table, rows)]) \<and> n = length rows"
  using assms
  by (auto simp: insert_rows_def bind_io_Inr lift_res_Inr sent_def on_world_def split: if_splits prod.split_asm)

end
