(* ===== verification/Universes.thy ===== *)
theory Universes
  imports Repository Tokens
begin

text \<open>
  Resolution of named address universes (\<open>core/universes.py\<close>): full holders of a token and its
  aliases, vendored lists, unions and intersections, each address with the labels of the sources
  that named it. The resolved universe is what the collectors and the digests take.
\<close>

subsection \<open>Members and the resolver\<close>

record universe_member =
  um_address :: string
  um_sources :: "string list"

definition holder_members :: "'w client \<Rightarrow> int \<Rightarrow> string \<Rightarrow> int \<Rightarrow> ('w session, universe_member list) io" where
  "holder_members db chain_id token_address anchor_block =
     bind_io (lift_res (normalize_address token_address)) (\<lambda>token.
       query_map db SQL_holder_members
         [(''chain_id'', CInt chain_id), (''token_address'', CText token), (''anchor_block'', CInt anchor_block)] False
         (\<lambda>row. bind_res (col_str row ''holder_address'') (\<lambda>a.
                bind_res (col_texts row ''member_sources'') (\<lambda>l. Inr \<lparr>um_address = a, um_sources = l\<rparr>))))"

record 's universe_resolver =
  ur_universes :: "(string \<times> universe_config) list"
  ur_holder_members :: "string \<Rightarrow> int \<Rightarrow> ('s, universe_member list) io"
  ur_explicit_list :: "string \<Rightarrow> string list res"
  ur_seed_holders :: "(string \<times> string list) list"
  ur_universe_aliases :: "(string \<times> string list) list"

text \<open>The constructor normalises the keys and values of its dictionaries.\<close>

fun normalize_dict :: "(string \<times> string list) list \<Rightarrow> (string \<times> string list) list \<Rightarrow> (string \<times> string list) list res" where
  "normalize_dict [] acc = Inr acc"
| "normalize_dict ((token, items) # rest) acc =
     bind_res (normalize_address token) (\<lambda>t.
     bind_res (map_res normalize_address items) (\<lambda>is. normalize_dict rest (AList.update t is acc)))"

definition mk_universe_resolver ::
  "int \<Rightarrow> (string \<times> universe_config) list \<Rightarrow> (int \<Rightarrow> string \<Rightarrow> int \<Rightarrow> ('s, universe_member list) io)
   \<Rightarrow> (string \<Rightarrow> string list res) \<Rightarrow> (string \<times> string list) list \<Rightarrow> (string \<times> string list) list
   \<Rightarrow> 's universe_resolver res" where
  "mk_universe_resolver chain_id universes holders explicit_list seeds aliases =
     (if chain_id < 1 then raise_res ValueError ''chain_id must be positive''
      else bind_res (normalize_dict seeds []) (\<lambda>sd.
           bind_res (normalize_dict aliases []) (\<lambda>al.
             Inr \<lparr>ur_universes = universes, ur_holder_members = holders chain_id,
                  ur_explicit_list = explicit_list, ur_seed_holders = sd, ur_universe_aliases = al\<rparr>)))"

subsection \<open>Resolving\<close>

type_synonym member_map = "(string \<times> string set) list"

definition dict_get :: "('k \<times> 'v list) list \<Rightarrow> 'k \<Rightarrow> 'v list" where
  "dict_get d k = (case map_of d k of None \<Rightarrow> [] | Some v \<Rightarrow> v)"

text \<open>\<open>output.setdefault(address, set()).update(labels)\<close>\<close>

definition add_labels :: "string \<Rightarrow> string set \<Rightarrow> member_map \<Rightarrow> member_map" where
  "add_labels a labels d =
     AList.update a (labels \<union> (case map_of d a of None \<Rightarrow> {} | Some l \<Rightarrow> l)) d"

fun add_members :: "string \<Rightarrow> universe_member list \<Rightarrow> member_map \<Rightarrow> member_map res" where
  "add_members name [] d = Inr d"
| "add_members name (m # ms) d =
     bind_res (normalize_address (um_address m)) (\<lambda>a.
       if um_sources m = []
       then raise_res ConfigError (''holder repository returned no provenance for '' @ a)
       else let labels = set (map (\<lambda>src. ''full_holders:'' @ name @ '':'' @ src) (filter (\<lambda>src. src \<noteq> []) (um_sources m))) in
       if card labels \<noteq> card (set (um_sources m))
       then raise_res ConfigError (''holder repository returned empty provenance for '' @ a)
       else add_members name ms (add_labels a labels d))"

definition full_holders ::
  "'s universe_resolver \<Rightarrow> string \<Rightarrow> string \<Rightarrow> int \<Rightarrow> ('s, member_map) io" where
  "full_holders r name token anchor_block =
     bind_io (map_io (\<lambda>ledger. ur_holder_members r ledger anchor_block)
                (token # dict_get (ur_universe_aliases r) token)) (\<lambda>members.
     bind_io (lift_res (add_members name (concat members) [])) (\<lambda>out.
       ret (fold (\<lambda>a. add_labels a {''full_holders:config_seed''}) (dict_get (ur_seed_holders r) token) out)))"

definition explicit_map :: "'s universe_resolver \<Rightarrow> string \<Rightarrow> universe_config \<Rightarrow> member_map res" where
  "explicit_map r name selector =
     bind_res (ur_explicit_list r name) (\<lambda>as.
     bind_res (map_res normalize_address as) (\<lambda>ns.
       Inr (fold (\<lambda>a. AList.update a
              {''explicit_list:'' @ name @ '':'' @ (case un_source selector of None \<Rightarrow> ''None'' | Some s \<Rightarrow> s)}) ns [])))"

definition union_maps :: "member_map list \<Rightarrow> member_map" where
  "union_maps children = fold (\<lambda>child. fold (\<lambda>(a, labels). add_labels a labels) child) children []"

definition intersect_maps :: "member_map list \<Rightarrow> member_map" where
  "intersect_maps children =
     map (\<lambda>a. (a, \<Union>child \<in> set children. the (map_of child a)))
       (filter (\<lambda>a. \<forall>child \<in> set children. a \<in> fst ` set child) (map fst (hd children)))"

lemma bind_io_cong [fundef_cong]: "m = m' \<Longrightarrow> (\<And>x. f x = f' x) \<Longrightarrow> bind_io m f = bind_io m' f'"
  by (simp add: bind_io_def fun_eq_iff split: prod.split sum.split)

lemma map_io_cong [fundef_cong]:
  "xs = ys \<Longrightarrow> (\<And>x. x \<in> set ys \<Longrightarrow> f x = g x) \<Longrightarrow> map_io f xs = map_io g ys"
proof (induction xs arbitrary: ys)
  case (Cons x xs)
  then show ?case by (cases ys) auto
qed auto

function resolve_map ::
  "'s universe_resolver \<Rightarrow> string \<Rightarrow> string \<Rightarrow> int \<Rightarrow> string list \<Rightarrow> ('s, member_map) io" where
  "resolve_map r name token anchor_block stack =
     (if name \<in> set stack
      then raise (Exn ConfigError (''universe selector cycle: '' @ join '' -> '' (stack @ [name])))
      else case map_of (ur_universes r) name of
        None \<Rightarrow> raise (Exn ConfigError (''unknown universe selector: '' @ name))
      | Some selector \<Rightarrow>
          if un_kind selector = FULL_HOLDERS then full_holders r name token anchor_block
          else if un_kind selector = EXPLICIT_LIST then lift_res (explicit_map r name selector)
          else bind_io (map_io (\<lambda>child. resolve_map r child token anchor_block (stack @ [name])) (un_of selector))
                 (\<lambda>children.
                    if children = []
                    then raise (Exn ConfigError (universe_kind_value (un_kind selector) @ '' universe '' @ name
                           @ '' has no children''))
                    else ret (if un_kind selector = UNION then union_maps children else intersect_maps children)))"
  by pat_completeness auto

lemma stack_append_decreases:
  "map_of d n = Some u \<Longrightarrow> n \<notin> set stack \<Longrightarrow> card (fst ` set d - set (stack @ [n])) < card (fst ` set d - set stack)"
  using stack_decreases [of d n u stack] by simp

termination resolve_map
  by (relation "measure (\<lambda>(r, name, token, anchor_block, stack). card (fst ` set (ur_universes r) - set stack))")
     (auto simp del: set_append intro: stack_append_decreases)

declare resolve_map.simps [simp del]

definition resolve_universe ::
  "'s universe_resolver \<Rightarrow> string \<Rightarrow> string \<Rightarrow> int \<Rightarrow> ('s, frozen_universe) io" where
  "resolve_universe r universe_name token_address anchor_block =
     (if anchor_block < 0 then raise (Exn ValueError ''anchor_block cannot be negative'')
      else bind_io (lift_res (normalize_address token_address)) (\<lambda>token.
           bind_io (resolve_map r universe_name token anchor_block []) (\<lambda>members.
           let addresses = sort (remdups (map fst members));
               sources = map (\<lambda>a. (a, sorted_list_of_set (the (map_of members a)))) addresses in
           bind_io (lift_res (digest_universe sources)) (\<lambda>h.
             ret \<lparr>fu_addresses = addresses, fu_sources = sources, fu_universe_hash = h\<rparr>))))"

subsection \<open>The set a selector denotes\<close>

text \<open>
  The reference semantics of a selector, as an inductive predicate over a fixed reading \<open>H\<close> of the
  holder tables: the holders of the token and its aliases and the configured seeds; the vendored
  addresses; the union or the intersection of the parts.
\<close>

inductive member_of ::
  "'s universe_resolver \<Rightarrow> (string \<Rightarrow> universe_member list) \<Rightarrow> string \<Rightarrow> string \<Rightarrow> string \<Rightarrow> bool"
  for r H token where
  holder: "member_of r H token n a"
    if "map_of (ur_universes r) n = Some u" "un_kind u = FULL_HOLDERS"
       "ledger \<in> set (token # dict_get (ur_universe_aliases r) token)" "m \<in> set (H ledger)"
       "normalize_address (um_address m) = Inr a"
| seed: "member_of r H token n a"
    if "map_of (ur_universes r) n = Some u" "un_kind u = FULL_HOLDERS" "a \<in> set (dict_get (ur_seed_holders r) token)"
| listed: "member_of r H token n a"
    if "map_of (ur_universes r) n = Some u" "un_kind u = EXPLICIT_LIST" "ur_explicit_list r n = Inr as"
       "x \<in> set as" "normalize_address x = Inr a"
| union: "member_of r H token n a"
    if "map_of (ur_universes r) n = Some u" "un_kind u = UNION" "c \<in> set (un_of u)" "member_of r H token c a"
| intersect: "member_of r H token n a"
    if "map_of (ur_universes r) n = Some u" "un_kind u = INTERSECT"
       "\<forall>c \<in> set (un_of u). member_of r H token c a"

inductive_simps member_of_iff: "member_of r H token n a"

lemma dom_add_labels [simp]: "fst ` set (add_labels a l d) = insert a (fst ` set d)"
  by (simp add: add_labels_def dom_update)

lemma dom_add_members:
  "add_members name ms d = Inr out \<Longrightarrow>
     fst ` set out = fst ` set d \<union> {a. \<exists>m \<in> set ms. normalize_address (um_address m) = Inr a}"
proof (induction ms arbitrary: d)
  case (Cons m ms)
  from Cons.prems obtain a labels where a: "normalize_address (um_address m) = Inr a"
    "add_members name ms (add_labels a labels d) = Inr out"
    by (auto simp: bind_res_Inr Let_def split: if_splits)
  from Cons.IH [OF a(2)] a(1) show ?case by auto
qed simp

lemma dom_fold_add: "fst ` set (fold (\<lambda>a. add_labels a l) as d) = set as \<union> fst ` set d"
  by (induction as arbitrary: d) auto

lemma dom_fold_pairs: "fst ` set (fold (\<lambda>(a, l). add_labels a l) ps d) = fst ` set ps \<union> fst ` set d"
  by (induction ps arbitrary: d) (simp_all add: case_prod_unfold)

lemma dom_union_maps: "fst ` set (union_maps ds) = (\<Union>d \<in> set ds. fst ` set d)"
proof -
  have "fst ` set (fold (\<lambda>child. fold (\<lambda>(a, l). add_labels a l) child) ds acc) = fst ` set acc \<union> (\<Union>d \<in> set ds. fst ` set d)"
    for acc by (induction ds arbitrary: acc) (auto simp: dom_fold_pairs)
  from this [of "[]"] show ?thesis by (simp add: union_maps_def)
qed

lemma dom_intersect_maps: "ds \<noteq> [] \<Longrightarrow> fst ` set (intersect_maps ds) = (\<Inter>d \<in> set ds. fst ` set d)"
  by (cases ds) (auto simp: intersect_maps_def image_image)

lemma dom_fold_update: "fst ` set (fold (\<lambda>a. AList.update a v) as d) = set as \<union> fst ` set d"
  by (induction as arbitrary: d) (auto simp: dom_update)

text \<open>The holder tables do not change during one resolution.\<close>

definition stable_holders :: "'s universe_resolver \<Rightarrow> int \<Rightarrow> (string \<Rightarrow> universe_member list) \<Rightarrow> bool" where
  "stable_holders r b H \<longleftrightarrow> (\<forall>ledger s. ur_holder_members r ledger b s = (Inr (H ledger), s))"

lemma map_io_pure: "(\<And>x s. x \<in> set xs \<Longrightarrow> f x s = (Inr (g x), s)) \<Longrightarrow> map_io f xs s = (Inr (map g xs), s)"
  by (induction xs) (simp_all add: bind_io_apply)

lemma full_holders_exact:
  assumes "stable_holders r b H" and "full_holders r n token b s = (Inr d, s')"
    and "map_of (ur_universes r) n = Some u" and "un_kind u = FULL_HOLDERS"
  shows "a \<in> fst ` set d \<longleftrightarrow> member_of r H token n a"
proof -
  let ?ls = "token # dict_get (ur_universe_aliases r) token"
  have m: "map_io (\<lambda>ledger. ur_holder_members r ledger b) ?ls s = (Inr (map H ?ls), s)"
    using assms(1) by (intro map_io_pure) (simp add: stable_holders_def)
  from assms(2) obtain out where out: "add_members n (concat (map H ?ls)) [] = Inr out"
    "d = fold (\<lambda>a. add_labels a {''full_holders:config_seed''}) (dict_get (ur_seed_holders r) token) out"
    unfolding full_holders_def bind_io_Inr m by (auto simp: lift_res_Inr)
  have "fst ` set d = set (dict_get (ur_seed_holders r) token)
      \<union> {a. \<exists>m \<in> set (concat (map H ?ls)). normalize_address (um_address m) = Inr a}"
    unfolding out(2) dom_fold_add dom_add_members [OF out(1)] by simp
  then show ?thesis using assms(3,4) by (subst member_of_iff) auto
qed

lemma explicit_map_exact:
  assumes "explicit_map r n u = Inr d" and "map_of (ur_universes r) n = Some u" and "un_kind u = EXPLICIT_LIST"
  shows "a \<in> fst ` set d \<longleftrightarrow> member_of r H token n a"
proof -
  from assms(1) obtain as ns where "ur_explicit_list r n = Inr as" "map_res normalize_address as = Inr ns"
    "fst ` set d = set ns" by (auto simp: explicit_map_def bind_res_Inr dom_fold_update)
  moreover from this(2) have "set ns = {a. \<exists>x \<in> set as. normalize_address x = Inr a}"
    by (induction as arbitrary: ns) (auto simp: bind_res_Inr)
  ultimately show ?thesis using assms(2,3) by (subst member_of_iff) auto
qed

lemma resolve_map_exact:
  assumes "stable_holders r b H" and "resolve_map r n token b stack s = (Inr d, s')"
  shows "a \<in> fst ` set d \<longleftrightarrow> member_of r H token n a"
  using assms
proof (induction r n token b stack arbitrary: s d s' a rule: resolve_map.induct)
  case (1 r n token b stack)
  from "1.prems"(2) obtain u where u: "n \<notin> set stack" "map_of (ur_universes r) n = Some u"
    by (subst (asm) resolve_map.simps) (auto split: if_splits option.splits)
  consider (full) "un_kind u = FULL_HOLDERS" | (listed) "un_kind u = EXPLICIT_LIST"
    | (composed) "un_kind u = UNION \<or> un_kind u = INTERSECT" by (cases "un_kind u") auto
  then show ?case
  proof cases
    case full
    with "1.prems"(2) u have "full_holders r n token b s = (Inr d, s')" by (subst (asm) resolve_map.simps) simp
    from full_holders_exact [OF "1.prems"(1) this u(2) full] show ?thesis .
  next
    case listed
    with "1.prems"(2) u have "explicit_map r n u = Inr d" by (subst (asm) resolve_map.simps) (simp add: lift_res_Inr)
    from explicit_map_exact [OF this u(2) listed] show ?thesis .
  next
    case composed
    let ?step = "\<lambda>child. resolve_map r child token b (stack @ [n])"
    from composed "1.prems"(2) u obtain ds s1 where ds: "map_io ?step (un_of u) s = (Inr ds, s1)" "ds \<noteq> []"
      "d = (if un_kind u = UNION then union_maps ds else intersect_maps ds)"
      by (subst (asm) resolve_map.simps) (auto simp: bind_io_Inr split: if_splits)
    have "list_all2 (\<lambda>c e. \<forall>a. a \<in> fst ` set e \<longleftrightarrow> member_of r H token c a) (un_of u) ds"
    proof (rule map_io_all [OF ds(1)], intro allI)
      fix c s2 e s3 x
      assume "c \<in> set (un_of u)" "?step c s2 = (Inr e, s3)"
      with "1.IH" [OF u(1,2) _ _ _ "1.prems"(1), of c s2 e s3 x] composed
      show "x \<in> fst ` set e \<longleftrightarrow> member_of r H token c x" by fastforce
    qed
    then have "(\<Union>e \<in> set ds. fst ` set e) = {a. \<exists>c \<in> set (un_of u). member_of r H token c a}"
      and "(\<Inter>e \<in> set ds. fst ` set e) = {a. \<forall>c \<in> set (un_of u). member_of r H token c a}"
      by (induction rule: list_all2_induct) auto
    then show ?thesis
      using composed ds(2,3) u(2) by (subst member_of_iff) (auto simp: dom_union_maps dom_intersect_maps)
  qed
qed

text \<open>
  C36: a resolved universe is exactly the set its selector denotes. Whatever the holder
  repository answers, the addresses come out unique and sorted, the provenance covers exactly
  them, so the collectors accept the universe, and the hash is the digest of that provenance;
  and while the holder tables stay as they are, the addresses are the members of the selector:
  holders of the token and its aliases with the configured seeds, vendored lists, and unions and
  intersections of these.
\<close>
theorem resolve_universe_exact:
  assumes "resolve_universe r n token b s = (Inr u, s')"
  shows "assert_universe u = Inr () \<and> digest_universe (fu_sources u) = Inr (fu_universe_hash u)
    \<and> (stable_holders r b H \<longrightarrow> (\<exists>t. normalize_address token = Inr t
         \<and> set (fu_addresses u) = {a. member_of r H t n a}))"
proof -
  from assms obtain t d where t: "normalize_address token = Inr t" "resolve_map r n t b [] s = (Inr d, s')"
    "fu_addresses u = sort (remdups (map fst d))"
    "fu_sources u = map (\<lambda>a. (a, sorted_list_of_set (the (map_of d a)))) (fu_addresses u)"
    "digest_universe (fu_sources u) = Inr (fu_universe_hash u)"
    by (auto simp: resolve_universe_def bind_io_Inr lift_res_Inr Let_def split: if_splits)
  have sorted: "sort (remdups (fu_addresses u)) = fu_addresses u"
    unfolding t(3) by (simp add: distinct_remdups_id sorted_sort_id)
  have cover: "fst ` set (fu_sources u) = set (fu_addresses u)"
    unfolding t(4) by (simp add: image_image)
  from sorted cover have "assert_universe u = Inr ()" by (simp add: assert_universe_def)
  moreover have "set (fu_addresses u) = {a. member_of r H t n a}" if "stable_holders r b H"
    using resolve_map_exact [OF that t(2)] t(3) by auto
  ultimately show ?thesis using t(1,5) by blast
qed

definition sample_universe_resolver :: "unit universe_resolver" where
  "sample_universe_resolver = \<lparr>ur_universes = [(''all'', \<lparr>un_kind = FULL_HOLDERS, un_source = None,
        un_address_column = ''address'', un_of = []\<rparr>)],
     ur_holder_members = (\<lambda>_ _. ret [\<lparr>um_address = sample_address 4, um_sources = [''own_scan'']\<rparr>]),
     ur_explicit_list = (\<lambda>_. Inr []), ur_seed_holders = [(sample_address 3, [sample_address 5])],
     ur_universe_aliases = []\<rparr>"

lemma sample_addresses: "normalize_address (sample_address 3) = Inr (sample_address 3)"
  "normalize_address (sample_address 4) = Inr (sample_address 4)"
  by code_simp+

lemma sample_resolves:
  "\<exists>u. resolve_universe sample_universe_resolver ''all'' (sample_address 3) 9 () = (Inr u, ())"
proof -
  let ?d = "add_labels (sample_address 5) {''full_holders:config_seed''}
     (add_labels (sample_address 4) {''full_holders:all:own_scan''} [])"
  have "add_members ''all'' [\<lparr>um_address = sample_address 4, um_sources = [''own_scan'']\<rparr>] []
      = Inr (add_labels (sample_address 4) {''full_holders:all:own_scan''} [])" by (simp add: sample_addresses)
  then have "full_holders sample_universe_resolver ''all'' (sample_address 3) 9 () = (Inr ?d, ())"
    by (simp add: full_holders_def sample_universe_resolver_def dict_get_def bind_io_apply ret_def lift_res_def
        del: add_members.simps)
  then have "resolve_map sample_universe_resolver ''all'' (sample_address 3) 9 [] () = (Inr ?d, ())"
    by (subst resolve_map.simps) (simp add: sample_universe_resolver_def)
  moreover have "\<exists>h. digest_universe (map (\<lambda>a. (a, sorted_list_of_set (the (map_of ?d a))))
      (sort (remdups (map fst ?d)))) = Inr h"
  proof -
    have "map (\<lambda>a. (a, sorted_list_of_set (the (map_of ?d a)))) (sort (remdups (map fst ?d)))
        = [(sample_address 4, [''full_holders:all:own_scan'']), (sample_address 5, [''full_holders:config_seed''])]"
      by code_simp
    moreover obtain p where "universe_preimage [(sample_address 4, [''full_holders:all:own_scan'']),
        (sample_address 5, [''full_holders:config_seed''])] = Inr p"
    proof -
      let ?ms = "[(sample_address 4, [''full_holders:all:own_scan'']), (sample_address 5, [''full_holders:config_seed''])]"
      have "distinct (map fst ?ms)" "list_all (LOWER_ADDRESS_RE \<circ> fst) ?ms"
        "list_all member_ok (map canonical_member ?ms)" by code_simp+
      then show thesis using that universe_preimage_Inr [of ?ms] by blast
    qed
    ultimately show ?thesis by (auto simp: digest_universe_def)
  qed
  ultimately show ?thesis
    by (auto simp: resolve_universe_def bind_io_apply lift_res_def sample_addresses Let_def ret_def)
qed

theorem resolve_universe_exact_witness:
  "\<exists>u. resolve_universe sample_universe_resolver ''all'' (sample_address 3) 9 () = (Inr u, ())
     \<and> {sample_address 4, sample_address 5} \<subseteq> set (fu_addresses u) \<and> assert_universe u = Inr ()"
proof -
  let ?H = "\<lambda>_. [\<lparr>um_address = sample_address 4, um_sources = [''own_scan'']\<rparr>]"
  obtain u where u: "resolve_universe sample_universe_resolver ''all'' (sample_address 3) 9 () = (Inr u, ())"
    using sample_resolves ..
  have "stable_holders sample_universe_resolver 9 ?H"
    by (simp add: stable_holders_def sample_universe_resolver_def ret_def)
  with resolve_universe_exact [OF u, of ?H]
  have "set (fu_addresses u) = {a. member_of sample_universe_resolver ?H (sample_address 3) ''all'' a}"
    by (simp add: sample_addresses)
  moreover have "member_of sample_universe_resolver ?H (sample_address 3) ''all'' (sample_address 4)"
    "member_of sample_universe_resolver ?H (sample_address 3) ''all'' (sample_address 5)"
    by (subst member_of_iff, simp add: sample_universe_resolver_def sample_addresses dict_get_def)+
  ultimately show ?thesis using u resolve_universe_exact [OF u] by blast
qed

end
