(* ===== verification/Hashing.thy ===== *)
theory Hashing
  imports Config Sha256
begin

text \<open>
  The identity of what a job measures: canonical JSON and its hash (\<open>config/hashing.py\<close>) and the
  effective configuration of a target (\<open>Catalog.target_effective_config\<close>). A publication is served
  only while its \<open>config_hash\<close> is the current one of its target, so what the hash covers, and what
  it leaves out, decides which history stays visible.
\<close>

subsection \<open>Canonical JSON\<close>

text \<open>\<open>json.dumps(value, sort_keys=True, separators=(",", ":"), ensure_ascii=True)\<close>\<close>

definition dump_char :: "char \<Rightarrow> string" where
  "dump_char c =
     (let n = char_nat c in
      if n = 34 then [backslash, c]
      else if c = backslash then [backslash, backslash]
      else if n = 10 then [backslash, CHR ''n'']
      else if n = 13 then [backslash, CHR ''r'']
      else if n = 9 then [backslash, CHR ''t'']
      else if n = 12 then [backslash, CHR ''f'']
      else if n = 8 then [backslash, CHR ''b'']
      else if n < 32 \<or> n > 126 then [backslash] @ ''u00'' @ byte_hex (of_nat n)
      else [c])"

definition dump_str :: "string \<Rightarrow> string" where
  "dump_str s = [dquote_char] @ concat (map dump_char s) @ [dquote_char]"

fun canonical_json :: "json \<Rightarrow> string" where
  "canonical_json JNull = ''null''"
| "canonical_json (JBool b) = (if b then ''true'' else ''false'')"
| "canonical_json (JInt n) = py_int n"
| "canonical_json (JFloat t) = t"
| "canonical_json (JStr s) = dump_str s"
| "canonical_json (JArr xs) = ''['' @ join '','' (map canonical_json xs) @ '']''"
| "canonical_json (JObj kvs) =
     ''{'' @ join '','' (map snd (sort_key fst (map (\<lambda>(k, v). (k, dump_str k @ '':'' @ canonical_json v)) kvs))) @ ''}''"

definition canonical_hash :: "json \<Rightarrow> string" where
  "canonical_hash v = sha256_hex (utf8 (canonical_json v))"

definition file_hash :: "(string \<Rightarrow> bytes res) \<Rightarrow> string \<Rightarrow> string res" where
  "file_hash read_bytes path = bind_res (read_bytes path) (\<lambda>b. Inr (sha256_hex b))"

subsection \<open>Model dumps\<close>

text \<open>
  \<open>model_dump(mode="json")\<close> of the configuration models. A date is written in ISO form; the text of
  the one float, \<open>expected_block_time_seconds\<close>, is a parameter, and the field is dropped again.
\<close>

definition civil_of_date :: "date \<Rightarrow> int \<times> int \<times> int" where
  "civil_of_date d =
     (let z = d + 719468; era = z div 146097; doe = z mod 146097;
          yoe = (doe - doe div 1460 + doe div 36524 - doe div 146096) div 365;
          doy = doe - (365 * yoe + yoe div 4 - yoe div 100);
          mp = (5 * doy + 2) div 153; m = (if mp < 10 then mp + 3 else mp - 9) in
      (yoe + era * 400 + (if m \<le> 2 then 1 else 0), m, doy - (153 * mp + 2) div 5 + 1))"

definition zero_pad :: "nat \<Rightarrow> int \<Rightarrow> string" where
  "zero_pad w n = (let t = py_int n in replicate (w - length t) (CHR ''0'') @ t)"

definition date_iso :: "date \<Rightarrow> string" where
  "date_iso d = (case civil_of_date d of (y, m, dd) \<Rightarrow> zero_pad 4 y @ ''-'' @ zero_pad 2 m @ ''-'' @ zero_pad 2 dd)"

definition opt_json :: "('a \<Rightarrow> json) \<Rightarrow> 'a option \<Rightarrow> json" where
  "opt_json f x = (case x of None \<Rightarrow> JNull | Some v \<Rightarrow> f v)"

definition strs_json :: "string list \<Rightarrow> json" where
  "strs_json xs = JArr (map JStr xs)"

definition date_json :: "date option \<Rightarrow> json" where
  "date_json = opt_json (\<lambda>d. JStr (date_iso d))"

definition multicall_json :: "multicall_settings \<Rightarrow> json" where
  "multicall_json m = JObj [(''address'', JStr (ms_address m)), (''deployment_block'', JInt (ms_deployment_block m)),
     (''runtime_code_hash'', opt_json JStr (ms_runtime_code_hash m)),
     (''default_batch_size'', JInt (ms_default_batch_size m))]"

definition number_fallback_json :: "number_fallback_config \<Rightarrow> json" where
  "number_fallback_json n = JObj [(''enabled'', JBool (nf_enabled n)),
     (''required_provider_quorum'', JInt (nf_required_provider_quorum n)),
     (''require_distinct_provider_groups'', JBool (nf_require_distinct_provider_groups n)),
     (''hash_sandwich'', JBool (nf_hash_sandwich n))]"

definition legacy_json :: "legacy_execution_config \<Rightarrow> json" where
  "legacy_json l = JObj [(''enabled'', JBool (le_enabled l)), (''default_batch_size'', JInt (le_default_batch_size l)),
     (''preferred_block_reference'', JStr ''eip1898''),
     (''number_fallback'', number_fallback_json (le_number_fallback l))]"

definition discovery_json :: "discovery_config \<Rightarrow> json" where
  "discovery_json d = JObj [(''initial_chunk_size'', JInt (dc_initial_chunk_size d)),
     (''provider_result_cap'', JInt (dc_provider_result_cap d))]"

definition balancer_json :: "balancer_config \<Rightarrow> json" where
  "balancer_json b = JObj [(''v2_vault'', opt_json JStr (bc_v2_vault b)), (''v3_vault'', opt_json JStr (bc_v3_vault b))]"

definition chain_json :: "(rat \<Rightarrow> string) \<Rightarrow> chain_config \<Rightarrow> json" where
  "chain_json float_text c = JObj [(''name'', JStr (ch_name c)), (''chain_id'', JInt (ch_chain_id c)),
     (''finality_tag'', JStr (ch_finality_tag c)),
     (''fallback_confirmation_depth'', JInt (ch_fallback_confirmation_depth c)),
     (''expected_block_time_seconds'', JFloat (float_text (ch_expected_block_time_seconds c))),
     (''multicall3'', multicall_json (ch_multicall3 c)), (''legacy_execution'', legacy_json (ch_legacy_execution c)),
     (''discovery'', discovery_json (ch_discovery c)), (''balancer'', balancer_json (ch_balancer c))]"

definition event_json :: "event_config \<Rightarrow> json" where
  "event_json e = JObj [(''abi'', JStr (ev_abi e)), (''event'', JStr (ev_event e)),
     (''holder_topics'', JArr (map JInt (ev_holder_topics e)))]"

definition index_source_json :: "index_source_config \<Rightarrow> json" where
  "index_source_json i = JObj [(''contract'', JStr (is_contract i)), (''function'', JStr (is_function i)),
     (''argument'', JStr (is_argument i)), (''output_name'', JStr (is_output_name i))]"

definition zero_address_role_value :: "zero_address_role \<Rightarrow> string" where
  "zero_address_role_value z = (case z of EVENT_SENTINEL \<Rightarrow> ''event_sentinel'' | HOLDER \<Rightarrow> ''holder'')"

definition token_json :: "token_config \<Rightarrow> json" where
  "token_json t = JObj [(''address'', JStr (tc_address t)), (''symbol'', JStr (tc_symbol t)),
     (''decimals'', JInt (tc_decimals t)), (''token_class'', JStr (token_class_value (tc_token_class t))),
     (''deployment_block'', JInt (tc_deployment_block t)), (''date_start'', date_json (tc_date_start t)),
     (''date_end'', date_json (tc_date_end t)), (''enabled'', JBool (tc_enabled t)),
     (''zero_address_role'', JStr (zero_address_role_value (tc_zero_address_role t))),
     (''balance_function'', JStr (tc_balance_function t)), (''supply_functions'', strs_json (tc_supply_functions t)),
     (''discovery_events'', JArr (map event_json (tc_discovery_events t))),
     (''seed_holders'', strs_json (tc_seed_holders t)), (''universe_aliases'', strs_json (tc_universe_aliases t)),
     (''index_source'', opt_json index_source_json (tc_index_source t))]"

definition pool_json :: "pool_config \<Rightarrow> json" where
  "pool_json p = JObj [(''address'', JStr (pc_address p)), (''name'', JStr (pc_name p)),
     (''pool_class'', JStr (pc_pool_class p)), (''deployment_block'', JInt (pc_deployment_block p)),
     (''date_start'', date_json (pc_date_start p)), (''date_end'', date_json (pc_date_end p)),
     (''enabled'', JBool (pc_enabled p)),
     (''assets'', JArr (map (\<lambda>a. JObj [(''token'', JStr a)]) (pc_assets p))),
     (''pool_id'', opt_json JStr (pc_pool_id p)), (''tick_spacing'', opt_json JInt (pc_tick_spacing p)),
     (''fee'', opt_json JInt (pc_fee p))]"

definition token_selector_json :: "token_selector \<Rightarrow> json" where
  "token_selector_json s = JObj [(''addresses'', strs_json (ts_addresses s)), (''class_in'', strs_json (ts_class_in s)),
     (''all_enabled'', JBool (ts_all_enabled s)), (''discovered'', JBool (ts_discovered s))]"

definition pool_selector_json :: "pool_selector \<Rightarrow> json" where
  "pool_selector_json s = JObj [(''addresses'', strs_json (ps_addresses s)), (''class_in'', strs_json (ps_class_in s)),
     (''all_enabled'', JBool (ps_all_enabled s))]"

definition target_kind_value :: "target_kind \<Rightarrow> string" where
  "target_kind_value k = (case k of TOKENS \<Rightarrow> ''tokens'' | POOLS \<Rightarrow> ''pools'')"

definition cadence_value :: "cadence \<Rightarrow> string" where
  "cadence_value c = (case c of DAILY \<Rightarrow> ''daily'' | MANUAL \<Rightarrow> ''manual'')"

definition job_json :: "job_config \<Rightarrow> json" where
  "job_json j = JObj [(''name'', JStr (jb_name j)), (''target_kind'', JStr (target_kind_value (jb_target_kind j))),
     (''token_selector'', opt_json token_selector_json (jb_token_selector j)),
     (''pool_selector'', opt_json pool_selector_json (jb_pool_selector j)),
     (''universe'', opt_json JStr (jb_universe j)), (''cadence'', JStr (cadence_value (jb_cadence j))),
     (''integrity_mode'', JStr (integrity_mode_value (jb_integrity_mode j))),
     (''coverage_start'', date_json (jb_coverage_start j))]"

subsection \<open>The effective configuration\<close>

datatype target = TokenTarget token_config | PoolTarget pool_config

definition target_json :: "target \<Rightarrow> json" where
  "target_json t = (case t of TokenTarget c \<Rightarrow> token_json c | PoolTarget p \<Rightarrow> pool_json p)"

text \<open>\<open>value.pop(key, None)\<close> and an edit of one entry.\<close>

fun pop :: "string \<Rightarrow> json \<Rightarrow> json" where
  "pop k (JObj kvs) = JObj (filter (\<lambda>(k', _). k' \<noteq> k) kvs)"
| "pop k j = j"

fun edit :: "string \<Rightarrow> (json \<Rightarrow> json) \<Rightarrow> json \<Rightarrow> json" where
  "edit k f (JObj kvs) = JObj (map (\<lambda>(k', v). (k', if k' = k then f v else v)) kvs)"
| "edit k f j = j"

definition HASH_NEUTRAL_WHEN_EMPTY_TARGET_FIELDS :: "string list" where
  "HASH_NEUTRAL_WHEN_EMPTY_TARGET_FIELDS = [''universe_aliases'']"

fun falsy :: "json \<Rightarrow> bool" where
  "falsy JNull = True"
| "falsy (JBool b) = (\<not> b)"
| "falsy (JInt n) = (n = 0)"
| "falsy (JStr s) = (s = [])"
| "falsy (JArr xs) = (xs = [])"
| "falsy (JObj kvs) = (kvs = [])"
| "falsy (JFloat t) = False"

fun drop_if_empty :: "string \<Rightarrow> json \<Rightarrow> json" where
  "drop_if_empty k (JObj kvs) =
     (case map_of kvs k of None \<Rightarrow> JObj kvs | Some v \<Rightarrow> if falsy v then pop k (JObj kvs) else JObj kvs)"
| "drop_if_empty k j = j"

definition chain_value :: "(rat \<Rightarrow> string) \<Rightarrow> chain_config \<Rightarrow> json" where
  "chain_value float_text c =
     edit ''legacy_execution'' (pop ''default_batch_size'') (edit ''multicall3'' (pop ''default_batch_size'')
       (pop ''discovery'' (pop ''expected_block_time_seconds'' (chain_json float_text c))))"

definition job_value :: "job_config \<Rightarrow> json" where
  "job_value j = edit ''token_selector'' (drop_if_empty ''discovered'') (pop ''cadence'' (job_json j))"

definition target_value :: "target \<Rightarrow> json" where
  "target_value t = fold drop_if_empty HASH_NEUTRAL_WHEN_EMPTY_TARGET_FIELDS (target_json t)"

definition dict_of :: "(string \<times> string) list \<Rightarrow> (string \<times> string) list" where
  "dict_of kvs = fold (\<lambda>(k, v). AList.update k v) kvs []"

definition target_effective_config ::
  "(string \<Rightarrow> bytes res) \<Rightarrow> (rat \<Rightarrow> string) \<Rightarrow> catalog \<Rightarrow> job_config \<Rightarrow> target \<Rightarrow> json res" where
  "target_effective_config read_bytes float_text cat job target =
     bind_res (case jb_universe job of
                 None \<Rightarrow> Inr (JNull, [])
               | Some name \<Rightarrow>
                   bind_res (expanded_universe (ct_universes cat) name []) (\<lambda>u.
                   bind_res (collect_vendor_hashes (file_hash read_bytes) cat name []) (\<lambda>h. Inr (u, h)))) (\<lambda>(u, h).
       Inr (JObj [(''chain'', chain_value float_text (ct_chain cat)), (''job'', job_value job),
                  (''target'', target_value target), (''universe'', u),
                  (''vendor_hashes'', JObj (map (\<lambda>(k, v). (k, JStr v)) (dict_of h)))]))"

definition target_config_hash ::
  "(string \<Rightarrow> bytes res) \<Rightarrow> (rat \<Rightarrow> string) \<Rightarrow> catalog \<Rightarrow> job_config \<Rightarrow> target \<Rightarrow> string res" where
  "target_config_hash read_bytes float_text cat job target =
     bind_res (target_effective_config read_bytes float_text cat job target) (\<lambda>e. Inr (canonical_hash e))"

subsection \<open>What the hash covers\<close>

text \<open>
  The scopes: each configuration with the fields that only change throughput erased, and dates
  read as the text they are hashed as.
\<close>

definition chain_scope :: "chain_config \<Rightarrow> chain_config" where
  "chain_scope c = c\<lparr>ch_expected_block_time_seconds := 0,
     ch_multicall3 := (ch_multicall3 c)\<lparr>ms_default_batch_size := 0\<rparr>,
     ch_legacy_execution := (ch_legacy_execution c)\<lparr>le_default_batch_size := 0\<rparr>,
     ch_discovery := \<lparr>dc_initial_chunk_size = 0, dc_provider_result_cap = 0\<rparr>\<rparr>"

definition job_scope :: "job_config \<Rightarrow> job_config \<times> string option" where
  "job_scope j = (j\<lparr>jb_cadence := DAILY, jb_coverage_start := None\<rparr>, map_option date_iso (jb_coverage_start j))"

definition target_scope :: "target \<Rightarrow> target \<times> string option \<times> string option" where
  "target_scope t = (case t of
     TokenTarget c \<Rightarrow> (TokenTarget (c\<lparr>tc_date_start := None, tc_date_end := None\<rparr>),
       map_option date_iso (tc_date_start c), map_option date_iso (tc_date_end c))
   | PoolTarget p \<Rightarrow> (PoolTarget (p\<lparr>pc_date_start := None, pc_date_end := None\<rparr>),
       map_option date_iso (pc_date_start p), map_option date_iso (pc_date_end p)))"

lemma opt_json_eq:
  assumes "\<And>v w. f v = f w \<longleftrightarrow> v = w" and "\<And>v. f v \<noteq> JNull"
  shows "opt_json f x = opt_json f y \<longleftrightarrow> x = y"
  using assms assms(2) [symmetric] by (auto simp: opt_json_def split: option.split)

lemma inj_map_eq: "(\<And>v w. f v = f w \<longleftrightarrow> v = w) \<Longrightarrow> map f xs = map f ys \<longleftrightarrow> xs = ys"
  by (metis injI inj_map_eq_map)

lemma strs_json_eq [simp]: "strs_json xs = strs_json ys \<longleftrightarrow> xs = ys"
  by (simp add: strs_json_def inj_map_eq)

lemma opt_str_eq [simp]: "opt_json JStr x = opt_json JStr y \<longleftrightarrow> x = y" "opt_json JInt v = opt_json JInt w \<longleftrightarrow> v = w"
  by (simp_all add: opt_json_eq)

lemma date_json_eq [simp]: "date_json x = date_json y \<longleftrightarrow> map_option date_iso x = map_option date_iso y"
  by (auto simp: date_json_def opt_json_def split: option.split)

lemma index_source_json_eq [simp]: "index_source_json i = index_source_json j \<longleftrightarrow> i = j"
  by (auto simp: index_source_json_def)

lemma index_opt_eq [simp]: "opt_json index_source_json x = opt_json index_source_json y \<longleftrightarrow> x = y"
  by (rule opt_json_eq) (simp_all, simp add: index_source_json_def)

lemma event_json_eq [simp]: "event_json e = event_json f \<longleftrightarrow> e = f"
  by (auto simp: event_json_def inj_map_eq)

lemma token_class_value_eq [simp]: "token_class_value a = token_class_value b \<longleftrightarrow> a = b"
  by (cases a; cases b) simp_all

lemma integrity_mode_value_eq [simp]: "integrity_mode_value a = integrity_mode_value b \<longleftrightarrow> a = b"
  by (cases a; cases b) simp_all

lemma enum_values_eq [simp]:
  "zero_address_role_value c = zero_address_role_value d \<longleftrightarrow> c = d"
  "target_kind_value e = target_kind_value f \<longleftrightarrow> e = f"
  by (auto simp: zero_address_role_value_def target_kind_value_def split: zero_address_role.splits target_kind.splits)

lemma chain_value_eq: "chain_value ft c = chain_value ft d \<longleftrightarrow> chain_scope c = chain_scope d"
proof -
  have [simp]: "number_fallback_json m = number_fallback_json n \<longleftrightarrow> m = n" for m n
    by (auto simp: number_fallback_json_def)
  have [simp]: "balancer_json m = balancer_json n \<longleftrightarrow> m = n" for m n by (auto simp: balancer_json_def)
  have [simp]: "pop ''default_batch_size'' (multicall_json m) = pop ''default_batch_size'' (multicall_json n)
      \<longleftrightarrow> m\<lparr>ms_default_batch_size := 0\<rparr> = n\<lparr>ms_default_batch_size := 0\<rparr>" for m n
    by (cases m; cases n) (simp add: multicall_json_def)
  have [simp]: "pop ''default_batch_size'' (legacy_json m) = pop ''default_batch_size'' (legacy_json n)
      \<longleftrightarrow> m\<lparr>le_default_batch_size := 0\<rparr> = n\<lparr>le_default_batch_size := 0\<rparr>" for m n
    by (cases m; cases n) (simp add: legacy_json_def)
  show ?thesis by (cases c; cases d) (simp add: chain_value_def chain_json_def chain_scope_def)
qed

lemma job_value_eq: "job_value i = job_value j \<longleftrightarrow> job_scope i = job_scope j"
proof -
  let ?ts = "\<lambda>x. drop_if_empty ''discovered'' (opt_json token_selector_json x)"
  have "drop_if_empty ''discovered'' (token_selector_json a) = drop_if_empty ''discovered'' (token_selector_json b) \<longleftrightarrow> a = b"
    "drop_if_empty ''discovered'' (token_selector_json a) \<noteq> JNull" for a b
    by (cases a; cases b; auto simp: token_selector_json_def)+
  then have ts: "?ts x = ?ts y \<longleftrightarrow> x = y" for x y
    by (auto simp: opt_json_def split: option.split) metis+
  have [simp]: "pool_selector_json a = pool_selector_json b \<longleftrightarrow> a = b" "pool_selector_json a \<noteq> JNull" for a b
    by (auto simp: pool_selector_json_def)
  show ?thesis
    by (cases i; cases j) (auto simp: job_value_def job_json_def job_scope_def opt_json_eq ts)
qed

lemma target_value_eq: "target_value t = target_value u \<longleftrightarrow> target_scope t = target_scope u"
proof -
  have nil: "falsy (strs_json xs) \<longleftrightarrow> xs = []" for xs by (simp add: strs_json_def)
  have token: "drop_if_empty ''universe_aliases'' (token_json a) = drop_if_empty ''universe_aliases'' (token_json b)
      \<longleftrightarrow> target_scope (TokenTarget a) = target_scope (TokenTarget b)" for a b
    by (cases a; cases b) (auto simp: token_json_def target_scope_def nil inj_map_eq)
  have assets: "(\<lambda>a. JObj [(''token'', JStr a)]) v = (\<lambda>a. JObj [(''token'', JStr a)]) w \<longleftrightarrow> v = w" for v w by simp
  have pool: "drop_if_empty ''universe_aliases'' (pool_json a) = drop_if_empty ''universe_aliases'' (pool_json b)
      \<longleftrightarrow> target_scope (PoolTarget a) = target_scope (PoolTarget b)" for a b
    by (cases a; cases b) (auto simp: pool_json_def target_scope_def inj_map_eq [OF assets])
  have cross: "drop_if_empty ''universe_aliases'' (token_json a) \<noteq> drop_if_empty ''universe_aliases'' (pool_json b)" for a b
    by (simp add: token_json_def pool_json_def)
  show ?thesis
    by (cases t; cases u)
       (simp_all add: target_value_def target_json_def HASH_NEUTRAL_WHEN_EMPTY_TARGET_FIELDS_def token pool cross
         cross [symmetric], simp_all add: target_scope_def)
qed

fun json_field :: "json \<Rightarrow> string \<Rightarrow> json" where
  "json_field (JObj kvs) k = obj_get kvs k"
| "json_field j k = JNull"

text \<open>Settings of the throughput knobs of a chain.\<close>

definition retuned :: "rat \<Rightarrow> discovery_config \<Rightarrow> int \<Rightarrow> int \<Rightarrow> chain_config \<Rightarrow> chain_config" where
  "retuned seconds discovery multicall_batch legacy_batch c = c\<lparr>ch_expected_block_time_seconds := seconds,
     ch_multicall3 := (ch_multicall3 c)\<lparr>ms_default_batch_size := multicall_batch\<rparr>,
     ch_legacy_execution := (ch_legacy_execution c)\<lparr>le_default_batch_size := legacy_batch\<rparr>,
     ch_discovery := discovery\<rparr>"

lemma vendored_path_retuned [simp]:
  "vendored_path (cat\<lparr>ct_chain := retuned x d m l (ct_chain cat)\<rparr>) source = vendored_path cat source"
  by (simp add: vendored_path_def retuned_def)

lemma vendor_hashes_retuned:
  "collect_vendor_hashes fh (cat\<lparr>ct_chain := retuned x d m l (ct_chain cat)\<rparr>) n stack = collect_vendor_hashes fh cat n stack"
proof (induction fh cat n stack rule: collect_vendor_hashes.induct)
  case (1 fh cat n stack)
  then show ?case
    by (subst (1 2) collect_vendor_hashes.simps)
       (auto split: option.split universe_kind.split intro!: bind_res_cong map_res_cong)
qed

text \<open>
  C37: the configuration hash identifies what is measured and nothing else. Two effective
  configurations are the same value exactly when the chain, the job and the target agree on every
  field but the throughput settings and the cadence, the expanded universe is the same and the
  vendored files have the same hashes; in particular an empty \<open>universe_aliases\<close> and a false
  \<open>discovered\<close> leave no trace. And retuning batch sizes, discovery chunking, the expected block
  time or the cadence keeps the hash of every target, so no published history is hidden.
\<close>
theorem config_hash_scope:
  assumes "target_effective_config rb ft cat job t = Inr e" and "target_effective_config rb ft cat' job' t' = Inr e'"
  shows "(e = e' \<longleftrightarrow> chain_scope (ct_chain cat) = chain_scope (ct_chain cat') \<and> job_scope job = job_scope job'
      \<and> target_scope t = target_scope t' \<and> json_field e ''universe'' = json_field e' ''universe''
      \<and> json_field e ''vendor_hashes'' = json_field e' ''vendor_hashes'')
    \<and> target_config_hash rb ft (cat\<lparr>ct_chain := retuned x d m l (ct_chain cat)\<rparr>) (job\<lparr>jb_cadence := c\<rparr>) t
      = target_config_hash rb ft cat job t"
proof -
  have scope: "e = e' \<longleftrightarrow> chain_scope (ct_chain cat) = chain_scope (ct_chain cat') \<and> job_scope job = job_scope job'
      \<and> target_scope t = target_scope t' \<and> json_field e ''universe'' = json_field e' ''universe''
      \<and> json_field e ''vendor_hashes'' = json_field e' ''vendor_hashes''"
    using assms
    by (auto simp: target_effective_config_def bind_res_Inr obj_get_def
        chain_value_eq [of ft, symmetric] job_value_eq [symmetric] target_value_eq [symmetric] split: option.split_asm)
  have "chain_value ft (retuned x d m l (ct_chain cat)) = chain_value ft (ct_chain cat)"
    by (simp add: chain_value_eq chain_scope_def retuned_def)
  moreover have "job_value (job\<lparr>jb_cadence := c\<rparr>) = job_value job" by (simp add: job_value_eq job_scope_def)
  ultimately have "target_config_hash rb ft (cat\<lparr>ct_chain := retuned x d m l (ct_chain cat)\<rparr>) (job\<lparr>jb_cadence := c\<rparr>) t
      = target_config_hash rb ft cat job t"
    by (cases "jb_universe job")
       (simp_all add: target_config_hash_def target_effective_config_def vendor_hashes_retuned)
  with scope show ?thesis by blast
qed

theorem config_hash_scope_witness:
  "\<exists>e. target_effective_config (\<lambda>_. Inr []) (\<lambda>_. ''5.0'') sample_catalog sample_job (TokenTarget sample_token) = Inr e
     \<and> target_config_hash (\<lambda>_. Inr []) (\<lambda>_. ''5.0'')
         (sample_catalog\<lparr>ct_chain := retuned 1 \<lparr>dc_initial_chunk_size = 5, dc_provider_result_cap = 9\<rparr> 10 20 (ct_chain sample_catalog)\<rparr>)
         (sample_job\<lparr>jb_cadence := MANUAL\<rparr>) (TokenTarget sample_token) = Inr (canonical_hash e)"
proof -
  let ?u = "jb_universe sample_job"
  have "\<exists>u h. jb_universe sample_job = Some u \<and> (\<exists>j. expanded_universe (ct_universes sample_catalog) u [] = Inr j)
      \<and> (\<exists>h. collect_vendor_hashes (file_hash (\<lambda>_. Inr [])) sample_catalog u [] = Inr h)"
    by (simp add: sample_job_def sample_catalog_def sample_universes_def expanded_universe.simps collect_vendor_hashes.simps)
  then obtain e where e: "target_effective_config (\<lambda>_. Inr []) (\<lambda>_. ''5.0'') sample_catalog sample_job (TokenTarget sample_token) = Inr e"
    by (auto simp: target_effective_config_def)
  from config_hash_scope [OF e e] e show ?thesis by (simp add: target_config_hash_def)
qed

end
