(* ===== verification/Census.thy ===== *)
theory Census
  imports Pools Universes Hashing
begin

text \<open>
  The census of one target at one anchor (\<open>core/census.py\<close>): an attempt is recorded, its contracts
  and observations are collected, persisted, read back, checked and only then published. The
  journal of the session is what the properties speak about: what was written, in which order.
\<close>

subsection \<open>Class names\<close>

text \<open>\<open>type(exc).__name__\<close>\<close>

primrec exn_name :: "exn_class \<Rightarrow> string" where
  "exn_name PyException = ''Exception''"
| "exn_name RuntimeError = ''RuntimeError''"
| "exn_name ValueError = ''ValueError''"
| "exn_name TypeError = ''TypeError''"
| "exn_name OverflowError = ''OverflowError''"
| "exn_name KeyError = ''KeyError''"
| "exn_name AssertionError = ''AssertionError''"
| "exn_name IndexerError = ''IndexerError''"
| "exn_name ConfigError = ''ConfigError''"
| "exn_name RpcError = ''RpcError''"
| "exn_name RpcAttemptsExhausted = ''RpcAttemptsExhausted''"
| "exn_name ArchiveStateUnavailable = ''ArchiveStateUnavailable''"
| "exn_name AnchorError = ''AnchorError''"
| "exn_name AnchorNotFinalized = ''AnchorNotFinalized''"
| "exn_name AnchorConflict = ''AnchorConflict''"
| "exn_name AnchorValidationError = ''AnchorValidationError''"
| "exn_name BatchError = ''BatchError''"
| "exn_name BatchVerificationError = ''BatchVerificationError''"
| "exn_name DiscoveryError = ''DiscoveryError''"
| "exn_name ObservationError = ''ObservationError''"
| "exn_name IntegrityError = ''IntegrityError''"
| "exn_name PublicationBlocked = ''PublicationBlocked''"
| "exn_name RpcTransportError = ''RpcTransportError''"
| "exn_name RpcProtocolError = ''RpcProtocolError''"
| "exn_name RpcHttpError = ''RpcHttpError''"
| "exn_name RpcResponseError = ''RpcResponseError''"
| "exn_name RpcRateLimited = ''RpcRateLimited''"
| "exn_name RpcProviderLimit = ''RpcProviderLimit''"
| "exn_name RpcNoHealthyEndpoint = ''RpcNoHealthyEndpoint''"
| "exn_name HistoricalExecutionError = ''HistoricalExecutionError''"
| "exn_name UnsupportedExecutionRange = ''UnsupportedExecutionRange''"
| "exn_name BatchResultCountMismatch = ''BatchResultCountMismatch''"
| "exn_name SentinelMismatch = ''SentinelMismatch''"
| "exn_name AnchorHashMismatch = ''AnchorHashMismatch''"
| "exn_name LegacyBatchResponseError = ''LegacyBatchResponseError''"
| "exn_name MissingBatchResponses = ''MissingBatchResponses''"
| "exn_name DuplicateBatchResponseId = ''DuplicateBatchResponseId''"
| "exn_name UnknownBatchResponseId = ''UnknownBatchResponseId''"
| "exn_name MalformedBatchResponse = ''MalformedBatchResponse''"
| "exn_name ProviderQuorumMismatch = ''ProviderQuorumMismatch''"
| "exn_name HistoricalCodeError = ''HistoricalCodeError''"
| "exn_name ContractNotDeployed = ''ContractNotDeployed''"
| "exn_name RuntimeCodeHashMismatch = ''RuntimeCodeHashMismatch''"
| "exn_name DiscoveryRangeFailed = ''DiscoveryRangeFailed''"
| "exn_name DiscoveryResponseError = ''DiscoveryResponseError''"
| "exn_name FinalityTagUnavailable = ''FinalityTagUnavailable''"
| "exn_name CollectionProtocolError = ''CollectionProtocolError''"
| "exn_name BalancerDecodeError = ''BalancerDecodeError''"
| "exn_name ClDecodeError = ''ClDecodeError''"
| "exn_name StoreFailure = ''DatabaseError''"
| "exn_name HttpxTimeoutException = ''TimeoutException''"
| "exn_name HttpxNetworkError = ''NetworkError''"
| "exn_name ServiceError = ''ServiceError''"
| "exn_name JobRunError = ''JobRunError''"
| "exn_name MigrationError = ''MigrationError''"
| "exn_name MigrationChecksumError = ''MigrationChecksumError''"
| "exn_name AbiDefinitionError = ''AbiDefinitionError''"

subsection \<open>The runner\<close>

definition INSERT_CHUNK_ROWS :: nat where
  "INSERT_CHUNK_ROWS = 200000"

definition executor_kind_for_anchor :: "catalog \<Rightarrow> block_ref \<Rightarrow> executor_kind" where
  "executor_kind_for_anchor cat anchor =
     (if number anchor \<ge> ms_deployment_block (ch_multicall3 (ct_chain cat)) then MULTICALL3 else LEGACY_RPC_BATCH)"

text \<open>
  The collaborators of a runner: the catalog, the database client, the universe resolver, the
  executor and the code verifier, and the parameters of the collectors.
\<close>

record 'w census_runner =
  cn_catalog :: catalog
  cn_read_bytes :: "string \<Rightarrow> bytes res"
  cn_float_text :: "rat \<Rightarrow> string"
  cn_store :: "'w client"
  cn_universes :: "'w session universe_resolver"
  cn_execute :: "'w executor_fun"
  cn_ext :: ext
  cn_tolerance :: decimal
  cn_verify :: "string \<Rightarrow> block_ref \<Rightarrow> string option \<Rightarrow> ('w, code_evidence) io"
  cn_balancer :: "balancer_collector option"
  cn_cl :: "int option"

definition cn_chain_id :: "'w census_runner \<Rightarrow> int" where
  "cn_chain_id r = ch_chain_id (ct_chain (cn_catalog r))"

definition now_utc :: "'w census_runner \<Rightarrow> ('w session, int) io" where
  "now_utc r = on_world (db_now (cn_store r))"

definition uuid4 :: "'w census_runner \<Rightarrow> ('w session, nat) io" where
  "uuid4 r = on_world (db_uuid4 (cn_store r))"

text \<open>\<open>{**base, key: value, ...}\<close>\<close>

definition with_items :: "row \<Rightarrow> row \<Rightarrow> row" where
  "with_items base items = fold (\<lambda>(k, v). AList.update k v) items base"

subsection \<open>Anchors and the configuration registry\<close>

definition stored_block :: "row \<Rightarrow> block_ref res" where
  "stored_block row =
     bind_res (col_int row ''block_number'') (\<lambda>n.
     bind_res (col_str row ''block_hash'') (\<lambda>h.
     bind_res (col_str row ''parent_hash'') (\<lambda>p.
     bind_res (col_int row ''block_timestamp'') (\<lambda>t.
       Inr \<lparr>number = n, block_hash = h, parent_hash = p, timestamp = t\<rparr>))))"

definition persist_anchor :: "'w client \<Rightarrow> int \<Rightarrow> resolved_anchor \<Rightarrow> ('w session, block_ref) io" where
  "persist_anchor db chain_id resolved =
     bind_io (canonical_anchor db chain_id (ra_snapshot_date resolved)) (\<lambda>existing.
     case existing of
       Some row \<Rightarrow>
         bind_io (lift_res (stored_block row)) (\<lambda>stored.
         bind_io (lift_res (assert_anchor_immutable stored (ra_anchor resolved))) (\<lambda>_. ret stored))
     | None \<Rightarrow>
         bind_io (on_world (db_uuid4 db)) (\<lambda>resolution_id.
         bind_io (on_world (db_now db)) (\<lambda>resolved_at.
         let anchor = ra_anchor resolved; next_block = ra_next_block resolved;
             fingerprint = sha256_hex (utf8 (join [CHR 0x00] (ra_endpoint_fingerprints resolved))) in
         bind_io (insert_anchor db
           [(''chain_id'', CInt chain_id), (''snapshot_date'', CDate (ra_snapshot_date resolved)),
            (''resolution_id'', CUuid resolution_id), (''block_number'', CInt (number anchor)),
            (''block_hash'', CText (block_hash anchor)), (''parent_hash'', CText (parent_hash anchor)),
            (''block_timestamp'', CTime (timestamp anchor)),
            (''next_block_number'', CInt (number next_block)), (''next_block_hash'', CText (block_hash next_block)),
            (''next_block_timestamp'', CTime (timestamp next_block)),
            (''finalized_at_resolution'', CInt 1), (''resolution_source'', CText (ra_finality_source resolved)),
            (''endpoint_fingerprint'', CText fingerprint), (''resolved_at'', CTime resolved_at)]) (\<lambda>_.
           ret anchor))))"

definition opt_date :: "date option \<Rightarrow> cell" where
  "opt_date d = (case d of None \<Rightarrow> CNull | Some x \<Rightarrow> CDate x)"

definition target_addr :: "target \<Rightarrow> string" where
  "target_addr t = (case t of TokenTarget c \<Rightarrow> tc_address c | PoolTarget p \<Rightarrow> pc_address p)"

definition target_dates :: "target \<Rightarrow> date option \<times> date option" where
  "target_dates t = (case t of TokenTarget c \<Rightarrow> (tc_date_start c, tc_date_end c)
     | PoolTarget p \<Rightarrow> (pc_date_start p, pc_date_end p))"

definition target_enabled :: "target \<Rightarrow> bool" where
  "target_enabled t = (case t of TokenTarget c \<Rightarrow> tc_enabled c | PoolTarget p \<Rightarrow> pc_enabled p)"

definition later_start :: "date option \<Rightarrow> date option \<Rightarrow> date option" where
  "later_start a b = (case (a, b) of (Some x, Some y) \<Rightarrow> Some (max x y) | (Some x, None) \<Rightarrow> Some x | (None, y) \<Rightarrow> y)"

definition registry_row :: "'w census_runner \<Rightarrow> job_config \<Rightarrow> string \<Rightarrow> int \<Rightarrow> target \<Rightarrow> row res" where
  "registry_row r job target_kind now_at target =
     bind_res (target_effective_config (cn_read_bytes r) (cn_float_text r) (cn_catalog r) job target) (\<lambda>effective.
       Inr [(''chain_id'', CInt (cn_chain_id r)), (''job_name'', CText (jb_name job)),
            (''target_kind'', CText target_kind), (''target_address'', CText (target_addr target)),
            (''cadence'', CText (cadence_value (jb_cadence job))),
            (''integrity_mode'', CText (integrity_mode_value (jb_integrity_mode job))),
            (''coverage_start'', opt_date (later_start (jb_coverage_start job) (fst (target_dates target)))),
            (''coverage_end'', opt_date (snd (target_dates target))),
            (''config_hash'', CText (canonical_hash effective)),
            (''canonical_config_json'', CText (canonical_json effective)),
            (''enabled'', CInt (if target_enabled target then 1 else 0)), (''registered_at'', CTime now_at)])"

definition registry_rows :: "'w census_runner \<Rightarrow> job_config \<Rightarrow> target list \<Rightarrow> string \<Rightarrow> ('w session, row list) io" where
  "registry_rows r job targets target_kind =
     bind_io (now_utc r) (\<lambda>now_at. lift_res (map_res (registry_row r job target_kind now_at) targets))"

definition job_rows :: "'w census_runner \<Rightarrow> job_config \<Rightarrow> ('w session, row list) io" where
  "job_rows r job =
     (case jb_target_kind job of
        TOKENS \<Rightarrow> bind_io (lift_res (token_targets (cn_catalog r) job)) (\<lambda>ts.
                    registry_rows r job (map TokenTarget ts) ''token'')
      | POOLS \<Rightarrow> bind_io (lift_res (pool_targets (cn_catalog r) job)) (\<lambda>ps.
                    registry_rows r job (map PoolTarget ps) ''pool''))"

definition register_catalog :: "'w census_runner \<Rightarrow> ('w session, nat) io" where
  "register_catalog r =
     bind_io (map_io (job_rows r) (map snd (ct_jobs (cn_catalog r)))) (\<lambda>configs.
       register_configs (cn_store r) (concat configs))"

definition register_targets :: "'w census_runner \<Rightarrow> job_config \<Rightarrow> target list \<Rightarrow> ('w session, unit) io" where
  "register_targets r job targets =
     bind_io (registry_rows r job targets (if jb_target_kind job = TOKENS then ''token'' else ''pool'')) (\<lambda>rows.
       if rows = [] then ret () else bind_io (register_configs (cn_store r) rows) (\<lambda>_. ret ()))"

subsection \<open>What a collector returns\<close>

datatype collected =
    TokenCollected token_collection_result
  | PoolCollected pool_collection_result
  | ClCollected pool_cl_collection_result

fun co_errors :: "collected \<Rightarrow> collection_error list" where
  "co_errors (TokenCollected r) = tr_errors r"
| "co_errors (PoolCollected r) = pr_errors r"
| "co_errors (ClCollected r) = cr_errors r"

fun co_batches :: "collected \<Rightarrow> collection_batch_evidence list" where
  "co_batches (TokenCollected r) = tr_batches r"
| "co_batches (PoolCollected r) = pr_batches r"
| "co_batches (ClCollected r) = cr_batches r"

fun co_checks :: "collected \<Rightarrow> integrity_result list" where
  "co_checks (TokenCollected r) = tr_integrity_checks r"
| "co_checks (PoolCollected r) = pr_integrity_checks r"
| "co_checks (ClCollected r) = cr_integrity_checks r"

fun co_verified :: "collected \<Rightarrow> bool" where
  "co_verified (TokenCollected r) = tr_verified r"
| "co_verified (PoolCollected r) = pr_verified r"
| "co_verified (ClCollected r) = cr_verified r"

fun co_successful :: "collected \<Rightarrow> nat" where
  "co_successful (TokenCollected r) = tr_successful_calls r"
| "co_successful (PoolCollected r) = pr_successful_calls r"
| "co_successful (ClCollected r) = cr_successful_calls r"

fun co_digest :: "collected \<Rightarrow> string res" where
  "co_digest (TokenCollected r) = tr_result_digest r"
| "co_digest (PoolCollected r) = pr_result_digest r"
| "co_digest (ClCollected r) = cr_result_digest r"

subsection \<open>Attempts\<close>

definition check_date_window :: "target \<Rightarrow> date \<Rightarrow> unit res" where
  "check_date_window target value =
     (case target_dates target of (start, stop) \<Rightarrow>
        if start \<noteq> None \<and> value < the start
        then raise_res ValueError ''snapshot is before the entity date_start''
        else if stop \<noteq> None \<and> value \<ge> the stop
        then raise_res ValueError ''snapshot is outside the entity date_end''
        else Inr ())"

text \<open>The columns that name an attempt, and the ones that open an observation row.\<close>

definition attempt_columns :: "'w census_runner \<Rightarrow> job_config \<Rightarrow> string \<Rightarrow> string \<Rightarrow> date \<Rightarrow> nat \<Rightarrow> row" where
  "attempt_columns r job target_kind target_address snapshot_date attempt_id =
     [(''chain_id'', CInt (cn_chain_id r)), (''job_name'', CText (jb_name job)),
      (''target_kind'', CText target_kind), (''target_address'', CText target_address),
      (''snapshot_date'', CDate snapshot_date), (''attempt_id'', CUuid attempt_id)]"

definition attempt_base ::
  "'w census_runner \<Rightarrow> nat \<Rightarrow> job_config \<Rightarrow> string \<Rightarrow> string \<Rightarrow> date \<Rightarrow> block_ref \<Rightarrow> string \<Rightarrow> frozen_universe
   \<Rightarrow> executor_kind \<Rightarrow> int \<Rightarrow> row" where
  "attempt_base r attempt_id job target_kind target_address snapshot_date anchor config_hash universe kind started =
     attempt_columns r job target_kind target_address snapshot_date attempt_id @
     [(''integrity_mode'', CText (integrity_mode_value (jb_integrity_mode job))),
      (''config_hash'', CText config_hash), (''anchor_block'', CInt (number anchor)),
      (''anchor_hash'', CText (block_hash anchor)), (''executor_kind'', CText (executor_kind_value kind)),
      (''block_reference_kind'', CText ''pending''), (''universe_hash'', CText (fu_universe_hash universe)),
      (''universe_size'', CInt (int (fu_size universe))), (''batches_total'', CInt 0),
      (''batches_verified'', CInt 0), (''observations_ok'', CInt 0), (''observations_failed'', CInt 0),
      (''result_digest'', CNull), (''error_class'', CText []), (''error_message'', CText []),
      (''started_at'', CTime started), (''heartbeat_at'', CTime started), (''finished_at'', CNull)]"

definition scope_of ::
  "'w census_runner \<Rightarrow> job_config \<Rightarrow> string \<Rightarrow> date \<Rightarrow> nat \<Rightarrow> attempt_scope" where
  "scope_of r job target_address snapshot_date attempt_id =
     \<lparr>sc_chain_id = cn_chain_id r, sc_job_name = jb_name job, sc_target_address = target_address,
      sc_snapshot_date = snapshot_date, sc_attempt_id = attempt_id\<rparr>"

definition batch_json :: "collection_batch_evidence \<Rightarrow> json" where
  "batch_json b = (let e = cb_evidence b in JObj
     [(''batch_sequence'', JInt (int (cb_batch_sequence b))),
      (''executor_kind'', JStr (executor_kind_value (ve_executor_kind e))),
      (''block_reference_kind'', JStr (ve_block_reference_kind e)), (''anchor_hash'', JStr (ve_anchor_hash e)),
      (''body_call_count'', JInt (int (cb_body_call_count b))), (''provider_groups'', strs_json (ve_provider_groups e)),
      (''result_digest'', JStr (ve_result_digest e)), (''verified'', JInt (if ve_verified e then 1 else 0))])"

definition batches_json :: "collection_batch_evidence list \<Rightarrow> string" where
  "batches_json batches = canonical_json (JArr (map batch_json batches))"

definition record_failure :: "'w census_runner \<Rightarrow> row \<Rightarrow> exn \<Rightarrow> ('w session, unit) io" where
  "record_failure r base e =
     bind_io (now_utc r) (\<lambda>finished.
     bind_io (insert_attempt_state (cn_store r) (with_items base
       [(''status'', CText ''failed''), (''error_class'', CText (exn_name (exn_class_of e))),
        (''error_message'', CText (take 4096 (exn_str e))), (''finished_at'', CTime finished)])) (\<lambda>_. ret ()))"

subsection \<open>Code verification\<close>

definition verify_code :: "'w census_runner \<Rightarrow> string \<Rightarrow> block_ref \<Rightarrow> string option \<Rightarrow> ('w session, unit) io" where
  "verify_code r address anchor expected = bind_io (on_world (cn_verify r address anchor expected)) (\<lambda>_. ret ())"

definition verify_multicall_code :: "'w census_runner \<Rightarrow> block_ref \<Rightarrow> ('w session, unit) io" where
  "verify_multicall_code r anchor =
     (let config = ch_multicall3 (ct_chain (cn_catalog r)) in
      case ms_runtime_code_hash config of
        None \<Rightarrow> raise (Exn ValueError ''Multicall3 runtime code hash is not configured'')
      | Some h \<Rightarrow> verify_code r (ms_address config) anchor (Some h))"

definition verify_token_code ::
  "'w census_runner \<Rightarrow> token_config \<Rightarrow> block_ref \<Rightarrow> executor_kind \<Rightarrow> ('w session, unit) io" where
  "verify_token_code r token anchor kind =
     bind_io (verify_code r (tc_address token) anchor None) (\<lambda>_.
     bind_io (case tc_index_source token of
                None \<Rightarrow> ret () | Some index \<Rightarrow> verify_code r (is_contract index) anchor None) (\<lambda>_.
       if kind = MULTICALL3 then verify_multicall_code r anchor else ret ()))"

subsection \<open>Persisting an attempt\<close>

definition universe_rows :: "'w census_runner \<Rightarrow> nat \<Rightarrow> job_config \<Rightarrow> string \<Rightarrow> date \<Rightarrow> frozen_universe \<Rightarrow> int \<Rightarrow> row list res" where
  "universe_rows r attempt_id job token_address snapshot_date universe now_at =
     map_res (\<lambda>(ordinal, holder).
       bind_res (lookup_key (fu_sources universe) holder) (\<lambda>sources.
         Inr (attempt_columns r job ''token'' token_address snapshot_date attempt_id @
              [(''holder_address'', CText holder), (''member_sources'', CTexts sources),
               (''member_ordinal'', CInt (int ordinal)), (''inserted_at'', CTime now_at)])))
       (enumerate 0 (fu_addresses universe))"

definition persist_universe ::
  "'w census_runner \<Rightarrow> nat \<Rightarrow> job_config \<Rightarrow> string \<Rightarrow> date \<Rightarrow> frozen_universe \<Rightarrow> ('w session, unit) io" where
  "persist_universe r attempt_id job token_address snapshot_date universe =
     bind_io (now_utc r) (\<lambda>now_at.
     bind_io (lift_res (universe_rows r attempt_id job token_address snapshot_date universe now_at)) (\<lambda>rows.
       if rows = [] then ret ()
       else bind_io (insert_universe_members (cn_store r) rows attempt_id) (\<lambda>_. ret ())))"

definition error_row ::
  "'w census_runner \<Rightarrow> nat \<Rightarrow> job_config \<Rightarrow> string \<Rightarrow> string \<Rightarrow> date \<Rightarrow> int \<Rightarrow> collection_error \<Rightarrow> row" where
  "error_row r attempt_id job target_kind target_address snapshot_date now_at e =
     attempt_columns r job target_kind target_address snapshot_date attempt_id @
     [(''subject_address'', CText (er_subject_address e)), (''call_kind'', CText (er_call_kind e)),
      (''batch_sequence'', CInt (int (er_batch_sequence e))), (''error_class'', CText (status_value (er_status e))),
      (''rpc_code'', case er_rpc_code e of None \<Rightarrow> CNull | Some c \<Rightarrow> CInt c),
      (''return_data'', CText (''0x'' @ bytes_hex (er_return_data e))),
      (''error_message'', CText (take 4096 (er_message e))), (''terminal_at'', CTime now_at)]"

definition insert_errors ::
  "'w census_runner \<Rightarrow> nat \<Rightarrow> job_config \<Rightarrow> string \<Rightarrow> string \<Rightarrow> date \<Rightarrow> collection_error list \<Rightarrow> ('w session, unit) io" where
  "insert_errors r attempt_id job target_kind target_address snapshot_date errors =
     bind_io (now_utc r) (\<lambda>now_at.
     let rows = map (error_row r attempt_id job target_kind target_address snapshot_date now_at) errors in
     if rows = [] then ret () else bind_io (insert_terminal_errors (cn_store r) rows) (\<lambda>_. ret ()))"

definition insert_chunked ::
  "(row list \<Rightarrow> nat \<Rightarrow> nat \<Rightarrow> ('w session, nat) io) \<Rightarrow> row list \<Rightarrow> nat \<Rightarrow> ('w session, unit) io" where
  "insert_chunked ins rows attempt_id =
     bind_io (map_io (\<lambda>(chunk_index, chunk). ins chunk attempt_id chunk_index)
                (enumerate 0 (chunks INSERT_CHUNK_ROWS rows))) (\<lambda>_. ret ())"

text \<open>\<open>result.batches[sequence].evidence.executor_kind.value\<close>\<close>

definition probe_source :: "collection_batch_evidence list \<Rightarrow> nat \<Rightarrow> string res" where
  "probe_source batches sequence =
     (if sequence < length batches
      then Inr (executor_kind_value (ve_executor_kind (cb_evidence (batches ! sequence))))
      else raise_res PyException ''tuple index out of range'')"

definition observation_columns ::
  "'w census_runner \<Rightarrow> job_config \<Rightarrow> string \<Rightarrow> string \<Rightarrow> date \<Rightarrow> nat \<Rightarrow> row" where
  "observation_columns r job address_column address snapshot_date attempt_id =
     [(''chain_id'', CInt (cn_chain_id r)), (''job_name'', CText (jb_name job)), (address_column, CText address),
      (''snapshot_date'', CDate snapshot_date), (''attempt_id'', CUuid attempt_id)]"

definition balance_insert_row ::
  "'w census_runner \<Rightarrow> nat \<Rightarrow> job_config \<Rightarrow> token_config \<Rightarrow> date \<Rightarrow> int \<Rightarrow> token_collection_result \<Rightarrow> balance_row
   \<Rightarrow> row res" where
  "balance_insert_row r attempt_id job token snapshot_date now_at result b =
     bind_res (probe_source (tr_batches result) (bal_batch_sequence b)) (\<lambda>source.
       Inr (observation_columns r job ''token_address'' (tc_address token) snapshot_date attempt_id @
         [(''holder_address'', CText (bal_holder_address b)), (''balance_raw'', CInt (bal_balance_raw b)),
          (''scaled_balance_raw'', case bal_scaled_balance_raw b of None \<Rightarrow> CNull | Some v \<Rightarrow> CInt v),
          (''value_kind'', CText (bal_value_kind b)), (''probe_source'', CText source),
          (''batch_sequence'', CInt (int (bal_batch_sequence b))), (''observed_at'', CTime now_at)]))"

definition scalar_insert_row ::
  "'w census_runner \<Rightarrow> nat \<Rightarrow> job_config \<Rightarrow> token_config \<Rightarrow> date \<Rightarrow> int \<Rightarrow> token_collection_result \<Rightarrow> scalar_row
   \<Rightarrow> row res" where
  "scalar_insert_row r attempt_id job token snapshot_date now_at result b =
     bind_res (probe_source (tr_batches result) (sc_batch_sequence b)) (\<lambda>source.
       Inr (observation_columns r job ''token_address'' (tc_address token) snapshot_date attempt_id @
         [(''scalar_name'', CText (sc_scalar_name b)), (''scalar_raw'', CInt (sc_scalar_raw b)),
          (''probe_source'', CText source), (''batch_sequence'', CInt (int (sc_batch_sequence b))),
          (''observed_at'', CTime now_at)]))"

text \<open>\<open>scalars_by_batch\<close>: a \<open>defaultdict(list)\<close> from batch to rows, in the order of first use.\<close>

fun by_batch :: "(nat \<times> 'b) list \<Rightarrow> (nat \<times> 'b list) list \<Rightarrow> (nat \<times> 'b list) list" where
  "by_batch [] d = d"
| "by_batch ((q, x) # rest) d = by_batch rest (AList.update q (dict_get d q @ [x]) d)"

definition persist_token_result ::
  "'w census_runner \<Rightarrow> nat \<Rightarrow> job_config \<Rightarrow> token_config \<Rightarrow> date \<Rightarrow> token_collection_result \<Rightarrow> ('w session, unit) io" where
  "persist_token_result r attempt_id job token snapshot_date result =
     bind_io (now_utc r) (\<lambda>now_at.
     bind_io (lift_res (map_res (balance_insert_row r attempt_id job token snapshot_date now_at result) (tr_balances result))) (\<lambda>balances.
     bind_io (insert_chunked (insert_token_balances (cn_store r)) balances attempt_id) (\<lambda>_.
     bind_io (lift_res (map_res (scalar_insert_row r attempt_id job token snapshot_date now_at result) (tr_scalars result))) (\<lambda>scalars.
     bind_io (map_io (\<lambda>(sequence, rows). insert_token_scalars (cn_store r) rows attempt_id sequence)
                (by_batch (zip (map sc_batch_sequence (tr_scalars result)) scalars) [])) (\<lambda>_.
       insert_errors r attempt_id job ''token'' (tc_address token) snapshot_date (tr_errors result))))))"

definition pool_insert_row ::
  "'w census_runner \<Rightarrow> nat \<Rightarrow> job_config \<Rightarrow> pool_config \<Rightarrow> date \<Rightarrow> int \<Rightarrow> pool_collection_result \<Rightarrow> pool_balance_row
   \<Rightarrow> row res" where
  "pool_insert_row r attempt_id job pool snapshot_date now_at result b =
     bind_res (probe_source (pr_batches result) (pb_batch_sequence b)) (\<lambda>source.
       Inr ([(''chain_id'', CInt (cn_chain_id r)), (''job_name'', CText (jb_name job)),
          (''pool_address'', CText (pc_address pool)), (''token_address'', CText (pb_token_address b)),
          (''snapshot_date'', CDate snapshot_date), (''attempt_id'', CUuid attempt_id),
          (''balance_raw'', CInt (pb_balance_raw b)), (''probe_source'', CText source),
          (''batch_sequence'', CInt (int (pb_batch_sequence b))), (''observed_at'', CTime now_at)]))"

definition persist_pool_result ::
  "'w census_runner \<Rightarrow> nat \<Rightarrow> job_config \<Rightarrow> pool_config \<Rightarrow> date \<Rightarrow> pool_collection_result \<Rightarrow> ('w session, unit) io" where
  "persist_pool_result r attempt_id job pool snapshot_date result =
     bind_io (now_utc r) (\<lambda>now_at.
     bind_io (lift_res (map_res (pool_insert_row r attempt_id job pool snapshot_date now_at result) (pr_balances result))) (\<lambda>balances.
     bind_io (insert_chunked (insert_pool_balances (cn_store r)) balances attempt_id) (\<lambda>_.
       insert_errors r attempt_id job ''pool'' (pc_address pool) snapshot_date (pr_errors result))))"

definition cl_state_insert_row ::
  "'w census_runner \<Rightarrow> nat \<Rightarrow> job_config \<Rightarrow> pool_config \<Rightarrow> date \<Rightarrow> int \<Rightarrow> pool_cl_collection_result \<Rightarrow> row res" where
  "cl_state_insert_row r attempt_id job pool snapshot_date now_at result =
     (let st = cr_state result in
      bind_res (probe_source (cr_batches result) (cs_batch_sequence st)) (\<lambda>source.
        Inr (observation_columns r job ''pool_address'' (pc_address pool) snapshot_date attempt_id @
          [(''pool_class'', CText (cs_pool_class st)), (''sqrt_price_x96'', CInt (cs_sqrt_price_x96 st)),
           (''current_tick'', CInt (cs_current_tick st)), (''liquidity'', CInt (cs_liquidity st)),
           (''fee_growth_global_0_x128'', CInt (cs_fee_growth_global_0_x128 st)),
           (''fee_growth_global_1_x128'', CInt (cs_fee_growth_global_1_x128 st)),
           (''tick_spacing'', CInt (cs_tick_spacing st)), (''fee'', CInt (cs_fee st)),
           (''tick_count'', CInt (int (cs_tick_count st))), (''probe_source'', CText source),
           (''batch_sequence'', CInt (int (cs_batch_sequence st))), (''observed_at'', CTime now_at)])))"

definition tick_insert_row ::
  "'w census_runner \<Rightarrow> nat \<Rightarrow> job_config \<Rightarrow> pool_config \<Rightarrow> date \<Rightarrow> int \<Rightarrow> pool_cl_collection_result \<Rightarrow> pool_tick_row
   \<Rightarrow> row res" where
  "tick_insert_row r attempt_id job pool snapshot_date now_at result t =
     bind_res (probe_source (cr_batches result) (tk_batch_sequence t)) (\<lambda>source.
       Inr (observation_columns r job ''pool_address'' (pc_address pool) snapshot_date attempt_id @
         [(''tick'', CInt (tk_tick t)), (''liquidity_gross'', CInt (tk_liquidity_gross t)),
          (''liquidity_net'', CInt (tk_liquidity_net t)),
          (''fee_growth_outside_0_x128'', CInt (tk_fee_growth_outside_0_x128 t)),
          (''fee_growth_outside_1_x128'', CInt (tk_fee_growth_outside_1_x128 t)),
          (''probe_source'', CText source), (''batch_sequence'', CInt (int (tk_batch_sequence t))),
          (''observed_at'', CTime now_at)]))"

definition persist_pool_cl_result ::
  "'w census_runner \<Rightarrow> nat \<Rightarrow> job_config \<Rightarrow> pool_config \<Rightarrow> date \<Rightarrow> pool_cl_collection_result \<Rightarrow> ('w session, unit) io" where
  "persist_pool_cl_result r attempt_id job pool snapshot_date result =
     bind_io (now_utc r) (\<lambda>now_at.
     bind_io (lift_res (cl_state_insert_row r attempt_id job pool snapshot_date now_at result)) (\<lambda>state_row.
     bind_io (insert_pool_cl_state (cn_store r) [state_row] attempt_id) (\<lambda>_.
     bind_io (lift_res (map_res (tick_insert_row r attempt_id job pool snapshot_date now_at result) (cr_ticks result))) (\<lambda>ticks.
     bind_io (insert_chunked (insert_pool_ticks (cn_store r)) ticks attempt_id) (\<lambda>_.
       insert_errors r attempt_id job ''pool'' (pc_address pool) snapshot_date (cr_errors result))))))"

subsection \<open>Publishing\<close>

definition sorted_set :: "string list \<Rightarrow> string list" where
  "sorted_set xs = sort (remdups xs)"

definition publication_context :: "collection_batch_evidence list \<Rightarrow> string \<times> string \<times> string list" where
  "publication_context batches =
     (join ''+'' (sorted_set (map (\<lambda>b. executor_kind_value (ve_executor_kind (cb_evidence b))) batches)),
      join ''+'' (sorted_set (map (\<lambda>b. ve_block_reference_kind (cb_evidence b)) batches)),
      sorted_set (concat (map (\<lambda>b. ve_provider_groups (cb_evidence b)) batches)))"

text \<open>A read-back that differs is read once more, consistently.\<close>

definition verified_readback :: "(bool \<Rightarrow> ('w session, string) io) \<Rightarrow> string \<Rightarrow> ('w session, string) io" where
  "verified_readback read expected =
     bind_io (read False) (\<lambda>digest. if digest = expected then ret digest else read True)"

definition terminal_errors :: "'w census_runner \<Rightarrow> attempt_scope \<Rightarrow> collected \<Rightarrow> ('w session, int) io" where
  "terminal_errors r scope result =
     bind_io (terminal_error_count (cn_store r) scope False) (\<lambda>n.
       if n \<noteq> int (length (co_errors result)) then terminal_error_count (cn_store r) scope True else ret n)"

text \<open>The verdict of the checks: the ones that passed and the ones that failed, in the order of the code.\<close>

definition outcome :: "bool \<Rightarrow> string \<Rightarrow> string \<Rightarrow> string list \<times> string list" where
  "outcome good passed_name failed_name = (if good then ([passed_name], []) else ([], [failed_name]))"

definition integrity_outcome :: "integrity_result \<Rightarrow> string list \<times> string list" where
  "integrity_outcome c = outcome (ir_passed c) (ir_check c) (ir_check c)"

definition publication_checks ::
  "'w census_runner \<Rightarrow> attempt_scope \<Rightarrow> frozen_universe \<Rightarrow> collected \<Rightarrow> string \<Rightarrow> string \<Rightarrow> ('w session, string list) io" where
  "publication_checks r scope universe result digest readback =
     bind_io (terminal_errors r scope result) (\<lambda>error_count.
     bind_io (case result of
                TokenCollected _ \<Rightarrow>
                  bind_io (verified_readback (readback_universe_digest (cn_store r) scope) (fu_universe_hash universe)) (\<lambda>d.
                    ret [outcome (d = fu_universe_hash universe) ''universe_readback_digest'' ''universe_readback_digest''])
              | _ \<Rightarrow> ret []) (\<lambda>universe_outcome.
     let outcomes =
           [outcome (error_count = 0) ''zero_terminal_errors'' ''terminal_errors_present'',
            outcome (list_all (\<lambda>b. ve_verified (cb_evidence b)) (co_batches result)) ''all_batches_verified'' ''unverified_batch'']
           @ map integrity_outcome (co_checks result)
           @ [outcome (readback = digest) ''observation_readback_digest'' ''observation_readback_digest'']
           @ universe_outcome;
         passed = ''historical_code_verified'' # concat (map fst outcomes); failed = concat (map snd outcomes) in
     if failed \<noteq> [] \<or> \<not> co_verified result
     then raise (BlockedExn (if failed = [] then [''collector_not_verified''] else failed))
     else ret passed))"

definition verified_items :: "collected \<Rightarrow> string \<Rightarrow> string \<Rightarrow> int \<Rightarrow> row" where
  "verified_items result digest reference finished =
     [(''status'', CText ''verified''), (''block_reference_kind'', CText reference),
      (''batches_total'', CInt (int (length (co_batches result)))),
      (''batches_verified'', CInt (int (length (filter (\<lambda>b. ve_verified (cb_evidence b)) (co_batches result))))),
      (''observations_ok'', CInt (int (co_successful result))),
      (''observations_failed'', CInt (int (length (co_errors result)))), (''result_digest'', CText digest),
      (''batches_json'', CText (batches_json (co_batches result))), (''heartbeat_at'', CTime finished),
      (''finished_at'', CTime finished)]"

definition opt_int :: "int option \<Rightarrow> cell" where
  "opt_int x = (case x of None \<Rightarrow> CNull | Some n \<Rightarrow> CInt n)"

definition base_cell :: "row \<Rightarrow> string \<Rightarrow> cell" where
  "base_cell base c = the (map_of base c)"

definition publication_row ::
  "row \<Rightarrow> nat \<Rightarrow> collected \<Rightarrow> string \<Rightarrow> frozen_universe \<Rightarrow> nat \<Rightarrow> int option \<Rightarrow> int option \<Rightarrow> string list \<Rightarrow> int \<Rightarrow> row" where
  "publication_row base publication_id result digest universe universe_size observed_sum reference_supply checks finished =
     (case publication_context (co_batches result) of (kinds, reference, providers) \<Rightarrow>
       [(''chain_id'', base_cell base ''chain_id''), (''job_name'', base_cell base ''job_name''),
        (''target_kind'', base_cell base ''target_kind''), (''target_address'', base_cell base ''target_address''),
        (''snapshot_date'', base_cell base ''snapshot_date''), (''publication_id'', CUuid publication_id),
        (''attempt_id'', base_cell base ''attempt_id''), (''executor_kind'', CText kinds),
        (''block_reference_kind'', CText reference), (''integrity_mode'', base_cell base ''integrity_mode''),
        (''config_hash'', base_cell base ''config_hash''), (''anchor_block'', base_cell base ''anchor_block''),
        (''anchor_hash'', base_cell base ''anchor_hash''), (''universe_hash'', CText (fu_universe_hash universe)),
        (''universe_size'', CInt (int universe_size)), (''result_digest'', CText digest),
        (''observed_sum_raw'', opt_int observed_sum), (''reference_supply_raw'', opt_int reference_supply),
        (''batches_total'', CInt (int (length (co_batches result)))),
        (''observations_total'', CInt (int (co_successful result))), (''provider_groups'', CTexts providers),
        (''checks_passed'', CTexts checks), (''published_at'', CTime finished)])"

text \<open>The verified attempt row first, the publication row last.\<close>

definition publish_attempt ::
  "'w census_runner \<Rightarrow> row \<Rightarrow> collected \<Rightarrow> string \<Rightarrow> frozen_universe \<Rightarrow> nat \<Rightarrow> int option \<Rightarrow> int option \<Rightarrow> string list
   \<Rightarrow> ('w session, unit) io" where
  "publish_attempt r base result digest universe universe_size observed_sum reference_supply checks =
     bind_io (now_utc r) (\<lambda>finished.
     let reference = fst (snd (publication_context (co_batches result))) in
     bind_io (insert_attempt_state (cn_store r) (with_items base (verified_items result digest reference finished))) (\<lambda>_.
     bind_io (uuid4 r) (\<lambda>publication_id.
     bind_io (append_publication (cn_store r)
       (publication_row base publication_id result digest universe universe_size observed_sum reference_supply checks finished)) (\<lambda>_.
       ret ()))))"

definition token_sums :: "job_config \<Rightarrow> token_collection_result \<Rightarrow> (int \<times> int option) res" where
  "token_sums job result =
     (let scalars = rev (map (\<lambda>s. (sc_scalar_name s, sc_scalar_raw s)) (tr_scalars result)) in
      if jb_integrity_mode job = SCALED_FULL_SUPPLY
      then if \<exists>b \<in> set (tr_balances result). bal_scaled_balance_raw b = None
           then Inl (BlockedExn [''scaled_balance_missing''])
           else Inr (sum_list (map (\<lambda>b. the (bal_scaled_balance_raw b)) (tr_balances result)),
                     map_of scalars ''scaledTotalSupply'')
      else Inr (sum_list (map bal_balance_raw (tr_balances result)), map_of scalars ''totalSupply''))"

definition publish_token ::
  "'w census_runner \<Rightarrow> row \<Rightarrow> attempt_scope \<Rightarrow> job_config \<Rightarrow> frozen_universe \<Rightarrow> token_collection_result
   \<Rightarrow> ('w session, unit) io" where
  "publish_token r base scope job universe result =
     bind_io (lift_res (tr_result_digest result)) (\<lambda>digest.
     bind_io (verified_readback (readback_token_digest (cn_store r) scope) digest) (\<lambda>readback.
     bind_io (publication_checks r scope universe (TokenCollected result) digest readback) (\<lambda>checks.
     bind_io (lift_res (token_sums job result)) (\<lambda>(observed_sum, reference_supply).
       if observed_sum > UINT256_MAX then raise (BlockedExn [''observed_sum_overflow''])
       else publish_attempt r base (TokenCollected result) digest universe (fu_size universe)
              (Some observed_sum) reference_supply checks))))"

definition publish_pool ::
  "'w census_runner \<Rightarrow> row \<Rightarrow> attempt_scope \<Rightarrow> frozen_universe \<Rightarrow> pool_collection_result \<Rightarrow> ('w session, unit) io" where
  "publish_pool r base scope universe result =
     bind_io (lift_res (pr_result_digest result)) (\<lambda>digest.
     bind_io (verified_readback (readback_pool_digest (cn_store r) scope) digest) (\<lambda>readback.
     bind_io (publication_checks r scope universe (PoolCollected result) digest readback) (\<lambda>checks.
       publish_attempt r base (PoolCollected result) digest universe 0 None None checks)))"

definition publish_pool_cl ::
  "'w census_runner \<Rightarrow> row \<Rightarrow> attempt_scope \<Rightarrow> frozen_universe \<Rightarrow> pool_cl_collection_result \<Rightarrow> ('w session, unit) io" where
  "publish_pool_cl r base scope universe result =
     bind_io (lift_res (cr_result_digest result)) (\<lambda>digest.
     bind_io (verified_readback (readback_cl_digest (cn_store r) scope) digest) (\<lambda>readback.
     bind_io (publication_checks r scope universe (ClCollected result) digest readback) (\<lambda>checks.
       publish_attempt r base (ClCollected result) digest universe 0 None None checks)))"

subsection \<open>Running a census\<close>

text \<open>
  \<open>try: body except BaseException as exc: record the failure; raise\<close>, after the attempt was
  recorded as started.
\<close>

definition run_attempt :: "'w census_runner \<Rightarrow> row \<Rightarrow> ('w session, unit) io \<Rightarrow> ('w session, unit) io" where
  "run_attempt r base body =
     bind_io (insert_attempt_state (cn_store r) (with_items base [(''status'', CText ''started'')])) (\<lambda>_.
       catch_io body (\<lambda>e. bind_io (record_failure r base e) (\<lambda>_. raise e)))"

definition collect_token ::
  "'w census_runner \<Rightarrow> job_config \<Rightarrow> token_config \<Rightarrow> frozen_universe \<Rightarrow> block_ref \<Rightarrow> ('w, token_collection_result) io" where
  "collect_token r job token universe anchor =
     (if is_atoken token then atoken_collect (cn_execute r) (cn_ext r) token universe anchor (jb_integrity_mode job)
      else erc20_collect (cn_execute r) (cn_ext r) (cn_tolerance r) token universe anchor (jb_integrity_mode job))"

definition token_body ::
  "'w census_runner \<Rightarrow> row \<Rightarrow> nat \<Rightarrow> job_config \<Rightarrow> token_config \<Rightarrow> date \<Rightarrow> block_ref \<Rightarrow> frozen_universe
   \<Rightarrow> executor_kind \<Rightarrow> ('w session, unit) io" where
  "token_body r base attempt_id job token snapshot_date anchor universe kind =
     bind_io (verify_token_code r token anchor kind) (\<lambda>_.
     bind_io (on_world (collect_token r job token universe anchor)) (\<lambda>result.
     bind_io (persist_universe r attempt_id job (tc_address token) snapshot_date universe) (\<lambda>_.
     bind_io (persist_token_result r attempt_id job token snapshot_date result) (\<lambda>_.
       publish_token r base (scope_of r job (tc_address token) snapshot_date attempt_id) job universe result))))"

definition run_token ::
  "'w census_runner \<Rightarrow> job_config \<Rightarrow> token_config \<Rightarrow> date \<Rightarrow> block_ref \<Rightarrow> ('w session, nat) io" where
  "run_token r job token snapshot_date anchor =
     (case jb_universe job of
        None \<Rightarrow> raise (Exn ValueError ''token census requires a universe selector'')
      | Some selector \<Rightarrow>
          bind_io (lift_res (check_date_window (TokenTarget token) snapshot_date)) (\<lambda>_.
          bind_io (resolve_universe (cn_universes r) selector (tc_address token) (number anchor)) (\<lambda>universe.
          bind_io (uuid4 r) (\<lambda>attempt_id.
          bind_io (now_utc r) (\<lambda>started.
          bind_io (lift_res (target_config_hash (cn_read_bytes r) (cn_float_text r) (cn_catalog r) job (TokenTarget token)))
            (\<lambda>config_hash.
          let kind = executor_kind_for_anchor (cn_catalog r) anchor;
              base = attempt_base r attempt_id job ''token'' (tc_address token) snapshot_date anchor config_hash
                       universe kind started in
          bind_io (run_attempt r base (token_body r base attempt_id job token snapshot_date anchor universe kind)) (\<lambda>_.
            ret attempt_id)))))))"

definition empty_universe :: "frozen_universe res" where
  "empty_universe = bind_res (digest_universe []) (\<lambda>h.
     Inr \<lparr>fu_addresses = [], fu_sources = [], fu_universe_hash = h\<rparr>)"

definition pool_body ::
  "'w census_runner \<Rightarrow> row \<Rightarrow> nat \<Rightarrow> job_config \<Rightarrow> pool_config \<Rightarrow> date \<Rightarrow> block_ref \<Rightarrow> frozen_universe
   \<Rightarrow> executor_kind \<Rightarrow> ('w session, unit) io" where
  "pool_body r base attempt_id job pool snapshot_date anchor universe kind =
     (let mode = jb_integrity_mode job; scope = scope_of r job (pc_address pool) snapshot_date attempt_id;
          publish = (\<lambda>result. bind_io (persist_pool_result r attempt_id job pool snapshot_date result) (\<lambda>_.
                       publish_pool r base scope universe result)) in
      bind_io (verify_code r (pc_address pool) anchor None) (\<lambda>_.
      bind_io (map_io (\<lambda>a. verify_code r a anchor None) (pc_assets pool)) (\<lambda>_.
      bind_io (if kind = MULTICALL3 then verify_multicall_code r anchor else ret ()) (\<lambda>_.
        if mode = CL_LIQUIDITY
        then (case cn_cl r of
                None \<Rightarrow> raise (Exn ValueError (''job '' @ jb_name job @ '' is cl_liquidity but no CL collector is configured''))
              | Some min_active \<Rightarrow>
                  bind_io (on_world (cl_collect (cn_execute r) (cn_ext r) min_active pool anchor mode)) (\<lambda>result.
                  bind_io (persist_pool_cl_result r attempt_id job pool snapshot_date result) (\<lambda>_.
                    publish_pool_cl r base scope universe result)))
        else if is_balancer pool
        then (case cn_balancer r of
                None \<Rightarrow> raise (Exn ValueError (''pool '' @ pc_address pool @ '' is '' @ pc_pool_class pool
                          @ '' but no Balancer collector is configured''))
              | Some bc \<Rightarrow>
                  bind_io (lift_res (vault_target (cn_ext r) bc pool)) (\<lambda>vault.
                  bind_io (verify_code r vault anchor None) (\<lambda>_.
                  bind_io (on_world (balancer_collect (cn_execute r) (cn_ext r) bc pool anchor mode)) publish)))
        else bind_io (on_world (pool_collect (cn_execute r) pool anchor mode)) publish))))"

definition run_pool ::
  "'w census_runner \<Rightarrow> job_config \<Rightarrow> pool_config \<Rightarrow> date \<Rightarrow> block_ref \<Rightarrow> ('w session, nat) io" where
  "run_pool r job pool snapshot_date anchor =
     bind_io (lift_res (check_date_window (PoolTarget pool) snapshot_date)) (\<lambda>_.
     bind_io (lift_res empty_universe) (\<lambda>universe.
     bind_io (uuid4 r) (\<lambda>attempt_id.
     bind_io (now_utc r) (\<lambda>started.
     bind_io (lift_res (target_config_hash (cn_read_bytes r) (cn_float_text r) (cn_catalog r) job (PoolTarget pool)))
       (\<lambda>config_hash.
     let kind = executor_kind_for_anchor (cn_catalog r) anchor;
         base = attempt_base r attempt_id job ''pool'' (pc_address pool) snapshot_date anchor config_hash
                  universe kind started in
     bind_io (run_attempt r base (pool_body r base attempt_id job pool snapshot_date anchor universe kind)) (\<lambda>_.
       ret attempt_id))))))"

subsection \<open>Lemmas: the journal of each step\<close>

definition not_publication :: "insertion \<Rightarrow> bool" where
  "not_publication i \<longleftrightarrow> fst i \<noteq> ''census_publications''"

text \<open>The rows a journal holds for a table.\<close>

definition rows_of :: "string \<Rightarrow> insertion list \<Rightarrow> row list" where
  "rows_of table l = concat (map snd (filter (\<lambda>i. fst i = table) l))"

lemma rows_of_simps [simp]:
  "rows_of t [] = []" "rows_of t (l @ m) = rows_of t l @ rows_of t m"
  "rows_of t ((u, rows) # l) = (if u = t then rows else []) @ rows_of t l"
  by (simp_all add: rows_of_def)

lemma rows_of_map_pair [simp]: "rows_of t (map (Pair u) cs) = (if u = t then concat cs else [])"
  by (induction cs) auto

text \<open>Sequencing over a prefix that publishes nothing.\<close>

lemma bind_journal:
  assumes "bind_io m f s = (res, s')" and "writes P m"
  obtains (raised) l e where "res = Inl e" "ss_journal s' = ss_journal s @ l" "list_all P l"
  | (returned) x s1 l where "m s = (Inr x, s1)" "ss_journal s1 = ss_journal s @ l" "list_all P l" "f x s1 = (res, s')"
proof -
  obtain r1 s1 where m: "m s = (r1, s1)" by fastforce
  from writesD [OF assms(2) m] obtain l where l: "ss_journal s1 = ss_journal s @ l" "list_all P l" by blast
  show thesis
  proof (cases r1)
    case (Inl e)
    with m assms(1) have "res = Inl e" "s' = s1" by (simp_all add: bind_io_def)
    with l raised show thesis by blast
  next
    case (Inr x)
    with m assms(1) have "f x s1 = (res, s')" by (simp add: bind_io_def)
    with m l Inr returned show thesis by blast
  qed
qed

lemma bind_silent:
  assumes "bind_io m f s = (res, s')" and "writes (\<lambda>_. False) m"
  obtains (raised) e where "res = Inl e" "ss_journal s' = ss_journal s"
  | (returned) x s1 where "m s = (Inr x, s1)" "ss_journal s1 = ss_journal s" "f x s1 = (res, s')"
  using assms by (cases rule: bind_journal) (auto simp: list_all_False)

lemma insert_rows_journal:
  assumes "insert_rows db table rows token s = (res, s')"
  shows "ss_journal s' = ss_journal s \<and> (rows = [] \<or> (\<exists>e. res = Inl e)) \<or> ss_journal s' = ss_journal s @ [(table, rows)]"
  using assms
  by (auto simp: insert_rows_def bind_io_def lift_res_def ret_def raise_def sent_def on_world_def
      split: sum.split_asm if_splits prod.split_asm)

lemma insert_chunked_Inr:
  assumes "insert_chunked (\<lambda>rows a i. insert_rows db table rows (tok a i)) rows attempt_id s = (Inr u, s')"
  shows "ss_journal s' = ss_journal s @ map (Pair table) (chunks INSERT_CHUNK_ROWS rows)"
proof -
  have "ss_journal s' = ss_journal s @ map (Pair table) cs"
    if "map_io (\<lambda>(i, c). insert_rows db table c (tok attempt_id i)) (enumerate k cs) s = (Inr ys, s')"
      and "\<forall>c \<in> set cs. c \<noteq> []" for k cs ys s
    using that
    by (induction cs arbitrary: k ys s) (fastforce simp: bind_io_Inr dest: insert_rows_Inr)+
  moreover have "\<forall>c \<in> set (chunks INSERT_CHUNK_ROWS rows). c \<noteq> []" using chunks_sizes by blast
  ultimately show ?thesis using assms by (auto simp: insert_chunked_def bind_io_Inr)
qed

lemma chunks_rows [simp]: "concat (chunks INSERT_CHUNK_ROWS rows) = rows"
  by (simp add: INSERT_CHUNK_ROWS_def)

lemma writes_Pair [writes_intros]: "writes P (Pair r)"
  by (simp add: writes_def)

lemma writes_pieces [writes_intros]:
  "writes P (now_utc r)" "writes P (uuid4 r)" "writes P (verify_code r a anchor h)"
  by (auto simp: now_utc_def uuid4_def verify_code_def intro!: writes_intros)

lemma writes_multicall [writes_intros]: "writes P (verify_multicall_code r anchor)"
  by (auto simp: verify_multicall_code_def Let_def intro!: writes_intros split: option.split)

lemma writes_token_code [writes_intros]: "writes P (verify_token_code r token anchor kind)"
  by (auto simp: verify_token_code_def intro!: writes_intros split: option.split)

lemma writes_failure [writes_intros]:
  "(\<And>row. P (''census_attempts'', [row])) \<Longrightarrow> writes P (record_failure r base e)"
  by (auto simp: record_failure_def insert_attempt_state_def intro!: writes_intros)

lemma writes_verified_readback [writes_intros]:
  "(\<And>c. writes P (read c)) \<Longrightarrow> writes P (verified_readback read expected)"
  by (auto simp: verified_readback_def intro!: writes_intros)

lemma writes_checks [writes_intros]:
  "writes P (terminal_errors r scope result)" "writes P (publication_checks r scope universe result digest readback)"
  by (auto simp: terminal_errors_def publication_checks_def Let_def intro!: writes_intros split: collected.split)

definition member_of_row :: "row \<Rightarrow> (string \<times> string list) res" where
  "member_of_row row = bind_res (col_str row ''holder_address'') (\<lambda>a.
     bind_res (col_texts row ''member_sources'') (\<lambda>l. Inr (a, l)))"

lemmas cell_reads = col_str_def col_int_def col_texts_def cell_str_def cell_int_def cell_texts_def lookup_key_def

lemma map_res_map: "map_res f xs = Inr ys \<Longrightarrow> (\<And>x y. f x = Inr y \<Longrightarrow> g y = h x) \<Longrightarrow> map g ys = map h xs"
  by (induction xs arbitrary: ys) (auto simp: bind_res_Inr)

lemma balance_insert_row_read:
  "balance_insert_row r i job token d now_at result b = Inr row \<Longrightarrow> balance_of_row row = Inr (balance_digest_row b)"
  by (cases "probe_source (tr_batches result) (bal_batch_sequence b)"; cases "bal_scaled_balance_raw b")
     (auto simp: balance_insert_row_def observation_columns_def balance_of_row_def cell_reads balance_digest_row_def)

lemma scalar_insert_row_read:
  "scalar_insert_row r i job token d now_at result b = Inr row \<Longrightarrow> scalar_of_row row = Inr (Collection.scalar_digest_row b)"
  by (auto simp: scalar_insert_row_def bind_res_Inr observation_columns_def scalar_of_row_def cell_reads
      Collection.scalar_digest_row_def)

lemma pool_insert_row_read:
  "pool_insert_row r i job pool d now_at result b = Inr row \<Longrightarrow>
     pool_balance_of_row row = Inr ((pool_digest_row b)\<lparr>pd_pool_address := pc_address pool\<rparr>)"
  by (auto simp: pool_insert_row_def bind_res_Inr pool_balance_of_row_def cell_reads pool_digest_row_def)

lemma map_enumerate: "map (\<lambda>(k, x). f x) (enumerate n xs) = map f xs"
  by (induction xs arbitrary: n) simp_all

lemma universe_rows_read:
  assumes "universe_rows r i job addr d u now_at = Inr rows"
  shows "map member_of_row rows = map (\<lambda>a. Inr (a, the (map_of (fu_sources u) a))) (fu_addresses u)"
proof -
  have "map member_of_row rows = map (\<lambda>(k, a). Inr (a, the (map_of (fu_sources u) a))) (enumerate 0 (fu_addresses u))"
    using assms unfolding universe_rows_def
    by (rule map_res_map) (auto simp: bind_res_Inr member_of_row_def cell_reads attempt_columns_def split: option.split_asm)
  also have "\<dots> = map (\<lambda>a. Inr (a, the (map_of (fu_sources u) a))) (fu_addresses u)" by (rule map_enumerate)
  finally show ?thesis .
qed

lemma persist_universe_Inr:
  assumes "persist_universe r i job addr d u s = (Inr x, s')"
  shows "\<exists>rows. map member_of_row rows = map (\<lambda>a. Inr (a, the (map_of (fu_sources u) a))) (fu_addresses u)
    \<and> ss_journal s' = ss_journal s @ (if rows = [] then [] else [(''census_universe_members'', rows)])"
proof -
  from assms obtain now_at s1 rows where u: "now_utc r s = (Inr now_at, s1)"
    "universe_rows r i job addr d u now_at = Inr rows"
    "(if rows = [] then ret () else bind_io (insert_universe_members (cn_store r) rows i) (\<lambda>_. ret ())) s1 = (Inr x, s')"
    by (auto simp: persist_universe_def bind_io_Inr lift_res_Inr)
  have "ss_journal s1 = ss_journal s" using u(1) by (rule writes_nothing [rotated]) (intro writes_intros)
  with u(3) have "ss_journal s' = ss_journal s @ (if rows = [] then [] else [(''census_universe_members'', rows)])"
    by (auto simp: bind_io_Inr insert_universe_members_def dest: insert_rows_Inr split: if_splits)
  with universe_rows_read [OF u(2)] show ?thesis by blast
qed

lemma mset_by_batch: "mset (concat (map snd (by_batch ps d))) = mset (concat (map snd d)) + mset (map snd ps)"
proof (induction ps d rule: by_batch.induct)
  case (2 q x rest d)
  have "mset (concat (map snd (AList.update q (dict_get d q @ [x]) d))) = mset (concat (map snd d)) + {#x#}"
    by (induction d) (auto simp: dict_get_def)
  with 2 show ?case by simp
qed simp

lemma insert_errors_Inr:
  assumes "insert_errors r i job kind addr d es s = (Inr x, s')"
  shows "\<exists>rows. length rows = length es \<and> ss_journal s' = ss_journal s @ (if rows = [] then [] else [(''census_errors'', rows)])"
proof -
  from assms obtain now_at s1 where u: "now_utc r s = (Inr now_at, s1)"
    "(let rows = map (error_row r i job kind addr d now_at) es in
      if rows = [] then ret () else bind_io (insert_terminal_errors (cn_store r) rows) (\<lambda>_. ret ())) s1 = (Inr x, s')"
    by (auto simp: insert_errors_def bind_io_Inr)
  have "ss_journal s1 = ss_journal s" using u(1) by (rule writes_nothing [rotated]) (intro writes_intros)
  with u(2) show ?thesis
    by (intro exI [of _ "map (error_row r i job kind addr d now_at) es"])
       (auto simp: bind_io_Inr insert_terminal_errors_def Let_def dest: insert_rows_Inr split: if_splits)
qed

lemma insert_groups_Inr:
  assumes "map_io (\<lambda>(q, rows). insert_rows db table rows (tok q)) gs s = (Inr ys, s')"
  shows "\<exists>l. ss_journal s' = ss_journal s @ l \<and> rows_of table l = concat (map snd gs) \<and> (\<forall>i \<in> set l. fst i = table)"
  using assms
proof (induction gs arbitrary: s ys)
  case (Cons g gs)
  obtain q rows where g: "g = (q, rows)" by fastforce
  from Cons.prems obtain n s1 zs where n: "insert_rows db table rows (tok q) s = (Inr n, s1)"
    "map_io (\<lambda>(q, rows). insert_rows db table rows (tok q)) gs s1 = (Inr zs, s')"
    by (auto simp: g bind_io_Inr)
  from Cons.IH [OF n(2)] obtain l where l: "ss_journal s' = ss_journal s1 @ l" "rows_of table l = concat (map snd gs)"
    "\<forall>i \<in> set l. fst i = table" by blast
  from insert_rows_Inr [OF n(1)] l show ?case
    by (intro exI [of _ "(if rows = [] then [] else [(table, rows)]) @ l"]) (auto simp: g)
qed simp

lemma persist_token_result_Inr:
  assumes "persist_token_result r i job token d result s = (Inr x, s')"
  shows "\<exists>l. ss_journal s' = ss_journal s @ l \<and> (\<forall>i \<in> set l. fst i \<in> {''token_balances'', ''token_scalars'', ''census_errors''})
    \<and> map balance_of_row (rows_of ''token_balances'' l) = map (Inr \<circ> balance_digest_row) (tr_balances result)
    \<and> mset (map scalar_of_row (rows_of ''token_scalars'' l)) = mset (map (Inr \<circ> Collection.scalar_digest_row) (tr_scalars result))
    \<and> length (rows_of ''census_errors'' l) = length (tr_errors result)"
proof -
  from assms obtain now_at s1 bs s2 u ss s3 ys where
    a: "now_utc r s = (Inr now_at, s1)"
    and b: "map_res (balance_insert_row r i job token d now_at result) (tr_balances result) = Inr bs"
      "insert_chunked (insert_token_balances (cn_store r)) bs i s1 = (Inr u, s2)"
    and c: "map_res (scalar_insert_row r i job token d now_at result) (tr_scalars result) = Inr ss"
      "map_io (\<lambda>(q, rows). insert_token_scalars (cn_store r) rows i q)
         (by_batch (zip (map sc_batch_sequence (tr_scalars result)) ss) []) s2 = (Inr ys, s3)"
    and e: "insert_errors r i job ''token'' (tc_address token) d (tr_errors result) s3 = (Inr x, s')"
    by (auto simp: persist_token_result_def bind_io_Inr lift_res_Inr)
  have s1: "ss_journal s1 = ss_journal s" using a by (rule writes_nothing [rotated]) (intro writes_intros)
  note s2 = insert_chunked_Inr [OF b(2) [unfolded insert_token_balances_def [abs_def]]]
  from insert_groups_Inr [OF c(2) [unfolded insert_token_scalars_def]] obtain l where
    l: "ss_journal s3 = ss_journal s2 @ l" "\<forall>i \<in> set l. fst i = ''token_scalars''"
      "rows_of ''token_scalars'' l = concat (map snd (by_batch (zip (map sc_batch_sequence (tr_scalars result)) ss) []))"
    by blast
  from insert_errors_Inr [OF e] obtain es where
    es: "length es = length (tr_errors result)"
      "ss_journal s' = ss_journal s3 @ (if es = [] then [] else [(''census_errors'', es)])" by blast
  let ?b = "map (Pair ''token_balances'') (chunks INSERT_CHUNK_ROWS bs)"
  let ?e = "if es = [] then [] else [(''census_errors'', es)]"
  have len: "length ss = length (tr_scalars result)" using c(1) by (auto simp: map_res_Inr dest: list_all2_lengthD)
  have other: "rows_of t l = []" if "t \<noteq> ''token_scalars''" for t
    using l(2) that by (auto simp: rows_of_def filter_empty_conv)
  have "mset (rows_of ''token_scalars'' l) = mset ss"
    unfolding l(3) mset_by_batch using len by simp
  then have "mset (map scalar_of_row (rows_of ''token_scalars'' l)) = mset (map scalar_of_row ss)" by simp
  also have "map scalar_of_row ss = map (Inr \<circ> Collection.scalar_digest_row) (tr_scalars result)"
    using map_res_map [OF c(1), of scalar_of_row] scalar_insert_row_read by fastforce
  finally have sc: "mset (map scalar_of_row (rows_of ''token_scalars'' l))
      = mset (map (Inr \<circ> Collection.scalar_digest_row) (tr_scalars result))" .
  have bal: "map balance_of_row bs = map (Inr \<circ> balance_digest_row) (tr_balances result)"
    using map_res_map [OF b(1), of balance_of_row] balance_insert_row_read by fastforce
  have "ss_journal s' = ss_journal s @ (?b @ l @ ?e)" using s1 s2 l(1) es(2) by simp
  moreover have "\<forall>i \<in> set (?b @ l @ ?e). fst i \<in> {''token_balances'', ''token_scalars'', ''census_errors''}"
    using l(2) by auto
  moreover have "es = [] \<longleftrightarrow> tr_errors result = []" using es(1) by (metis length_0_conv)
  ultimately show ?thesis
    using sc bal es(1) by (intro exI [of _ "?b @ l @ ?e"]) (simp add: other)
qed

end
