(* ===== verification/Schema.thy ===== *)
theory Schema
  imports Repository
begin

text \<open>
  Rows and tables (\<open>storage/repositories.py\<close>, \<open>_insert\<close>): the check every insert makes of the columns
  it is given, as a property of the rows. The services build their rows with fixed columns, so
  that none of their inserts can be refused.
\<close>

text \<open>Column names a table accepts.\<close>

definition accepted :: "string \<Rightarrow> string list \<Rightarrow> bool" where
  "accepted table keys \<longleftrightarrow> (case map_of TABLE_COLUMNS table of
     None \<Rightarrow> False | Some allowed \<Rightarrow> TABLE_RE table \<and> list_all (\<lambda>k. k \<in> set allowed \<and> k \<noteq> ''insert_version'') keys)"

text \<open>Rows fit a table when the insert accepts their columns.\<close>

definition rows_fit :: "string \<Rightarrow> row list \<Rightarrow> bool" where
  "rows_fit table rows \<longleftrightarrow> (\<exists>columns. check_rows table rows = Inr columns)"

lemma same_columns_all: "list_all (\<lambda>row. columns_of row = c) rows \<Longrightarrow> same_columns t c n rows = Inr ()"
  by (induction rows arbitrary: n) auto

lemma rows_fitI:
  assumes "list_all (\<lambda>row. fst ` set row = set keys) rows" and "accepted table keys"
  shows "rows_fit table rows"
proof (cases rows)
  case Nil
  with assms(2) show ?thesis by (auto simp: rows_fit_def check_rows_def accepted_def split: option.split_asm)
next
  case (Cons row rest)
  from assms(2) obtain allowed where a: "map_of TABLE_COLUMNS table = Some allowed" "TABLE_RE table"
    "set keys \<subseteq> set allowed" "''insert_version'' \<notin> set keys"
    by (auto simp: accepted_def list_all_iff split: option.split_asm)
  from Cons assms(1) have k: "columns_of row = set keys" "list_all (\<lambda>row. columns_of row = set keys) rest"
    by (auto simp: columns_of_def)
  then have "filter (\<lambda>c. c \<notin> set allowed) (remdups (map fst row)) = []"
    using a(3) by (auto simp: filter_empty_conv columns_of_def)
  with a k Cons same_columns_all [OF k(2)] show ?thesis
    by (auto simp: rows_fit_def check_rows_def Let_def)
qed

text \<open>Rows that supply every column of their table.\<close>

definition all_columns :: "string \<Rightarrow> string list" where
  "all_columns table = the (map_of TABLE_COLUMNS table)"

lemma known_table_names: "list_all (TABLE_RE \<circ> fst) TABLE_COLUMNS"
  by (simp add: TABLE_COLUMNS_def TABLE_RE_def char_nat_def)

lemma no_insert_version: "list_all (\<lambda>(t, columns). ''insert_version'' \<notin> set columns) TABLE_COLUMNS"
  by (simp add: TABLE_COLUMNS_def)

lemma known_tables:
  "list_all (\<lambda>t. map_of TABLE_COLUMNS t \<noteq> None) [''config_registry'', ''day_anchors'', ''discovery_ranges'',
     ''holder_universe'', ''token_metadata'', ''sweep_ranges'', ''wallet_interaction_logs'', ''census_attempts'',
     ''census_universe_members'', ''census_errors'', ''token_balances'', ''token_scalars'', ''pool_token_balances'',
     ''pool_cl_state'', ''pool_tick_liquidity'', ''pool_liquidity_profile'', ''census_publications'', ''writer_heartbeats'']"
  by code_simp

lemma accepted_subset:
  assumes "map_of TABLE_COLUMNS table = Some allowed" and "set keys \<subseteq> set allowed"
  shows "accepted table keys"
proof -
  from assms(1) have "(table, allowed) \<in> set TABLE_COLUMNS" by (rule map_of_SomeD)
  with assms(2) known_table_names no_insert_version show ?thesis
    by (auto simp: accepted_def assms(1) list_all_iff)
qed

lemma all_columns_simps:
  "all_columns ''config_registry'' = [
     ''chain_id'', ''job_name'', ''target_kind'', ''target_address'', ''cadence'', ''integrity_mode'',
     ''coverage_start'', ''coverage_end'', ''config_hash'', ''canonical_config_json'', ''enabled'',
     ''registered_at'']"
  "all_columns ''day_anchors'' = [
     ''chain_id'', ''snapshot_date'', ''resolution_id'', ''block_number'', ''block_hash'', ''parent_hash'',
     ''block_timestamp'', ''next_block_number'', ''next_block_hash'', ''next_block_timestamp'',
     ''finalized_at_resolution'', ''resolution_source'', ''endpoint_fingerprint'', ''resolved_at'']"
  "all_columns ''discovery_ranges'' = [
     ''chain_id'', ''token_address'', ''topic0'', ''range_start_block'', ''range_end_block_exclusive'',
     ''scan_id'', ''status'', ''anchor_block'', ''anchor_hash'', ''log_count'', ''holder_count'',
     ''attempt_count'', ''endpoint_fingerprint'', ''error_class'', ''error_message'', ''started_at'',
     ''heartbeat_at'', ''finished_at'']"
  "all_columns ''holder_universe'' = [
     ''chain_id'', ''token_address'', ''holder_address'', ''source'', ''source_detail'', ''first_seen_block'',
     ''last_seen_block'', ''observations'']"
  "all_columns ''token_metadata'' = [
     ''chain_id'', ''token_address'', ''symbol'', ''name'', ''decimals'', ''resolution_status'',
     ''symbol_encoding'', ''name_encoding'', ''anchor_block'', ''anchor_hash'', ''error_class'',
     ''error_message'', ''observed_at'']"
  "all_columns ''sweep_ranges'' = [
     ''chain_id'', ''wallet_address'', ''topic_position'', ''range_start_block'', ''range_end_block_exclusive'',
     ''scan_id'', ''status'', ''anchor_block'', ''anchor_hash'', ''log_count'', ''attempt_count'',
     ''endpoint_fingerprint'', ''error_class'', ''error_message'', ''started_at'', ''heartbeat_at'',
     ''finished_at'']"
  "all_columns ''wallet_interaction_logs'' = [
     ''chain_id'', ''wallet_address'', ''topic_position'', ''contract_address'', ''topic0'', ''topic_count'',
     ''block_number'', ''block_hash'', ''transaction_hash'', ''log_index'', ''topics'', ''observed_at'']"
  "all_columns ''census_attempts'' = [
     ''chain_id'', ''job_name'', ''target_kind'', ''target_address'', ''snapshot_date'', ''attempt_id'',
     ''status'', ''integrity_mode'', ''config_hash'', ''anchor_block'', ''anchor_hash'', ''executor_kind'',
     ''block_reference_kind'', ''universe_hash'', ''universe_size'', ''batches_total'', ''batches_verified'',
     ''observations_ok'', ''observations_failed'', ''result_digest'', ''batches_json'', ''error_class'',
     ''error_message'', ''started_at'', ''heartbeat_at'', ''finished_at'']"
  "all_columns ''census_universe_members'' = [
     ''chain_id'', ''job_name'', ''target_kind'', ''target_address'', ''snapshot_date'', ''attempt_id'',
     ''holder_address'', ''member_sources'', ''member_ordinal'', ''inserted_at'']"
  "all_columns ''census_errors'' = [
     ''chain_id'', ''job_name'', ''target_kind'', ''target_address'', ''snapshot_date'', ''attempt_id'',
     ''subject_address'', ''call_kind'', ''batch_sequence'', ''error_class'', ''rpc_code'', ''return_data'',
     ''error_message'', ''terminal_at'']"
  "all_columns ''token_balances'' = [
     ''chain_id'', ''job_name'', ''token_address'', ''snapshot_date'', ''attempt_id'', ''holder_address'',
     ''balance_raw'', ''scaled_balance_raw'', ''value_kind'', ''probe_source'', ''batch_sequence'',
     ''observed_at'']"
  "all_columns ''token_scalars'' = [
     ''chain_id'', ''job_name'', ''token_address'', ''snapshot_date'', ''attempt_id'', ''scalar_name'',
     ''scalar_raw'', ''probe_source'', ''batch_sequence'', ''observed_at'']"
  "all_columns ''pool_token_balances'' = [
     ''chain_id'', ''job_name'', ''pool_address'', ''token_address'', ''snapshot_date'', ''attempt_id'',
     ''balance_raw'', ''probe_source'', ''batch_sequence'', ''observed_at'']"
  "all_columns ''pool_cl_state'' = [
     ''chain_id'', ''job_name'', ''pool_address'', ''snapshot_date'', ''attempt_id'', ''pool_class'',
     ''sqrt_price_x96'', ''current_tick'', ''liquidity'', ''fee_growth_global_0_x128'',
     ''fee_growth_global_1_x128'', ''tick_spacing'', ''fee'', ''tick_count'', ''probe_source'',
     ''batch_sequence'', ''observed_at'']"
  "all_columns ''pool_tick_liquidity'' = [
     ''chain_id'', ''job_name'', ''pool_address'', ''snapshot_date'', ''attempt_id'', ''tick'',
     ''liquidity_gross'', ''liquidity_net'', ''fee_growth_outside_0_x128'', ''fee_growth_outside_1_x128'',
     ''probe_source'', ''batch_sequence'', ''observed_at'']"
  "all_columns ''pool_liquidity_profile'' = [
     ''chain_id'', ''pool_address'', ''snapshot_date'', ''tick_lower'', ''tick_upper'', ''active_liquidity'',
     ''source_attempt_id'', ''source_result_digest'', ''computed_at'']"
  "all_columns ''census_publications'' = [
     ''chain_id'', ''job_name'', ''target_kind'', ''target_address'', ''snapshot_date'', ''publication_id'',
     ''attempt_id'', ''executor_kind'', ''block_reference_kind'', ''integrity_mode'', ''config_hash'',
     ''anchor_block'', ''anchor_hash'', ''universe_hash'', ''universe_size'', ''result_digest'',
     ''observed_sum_raw'', ''reference_supply_raw'', ''batches_total'', ''observations_total'',
     ''provider_groups'', ''checks_passed'', ''published_at'']"
  "all_columns ''writer_heartbeats'' = [
     ''chain_id'', ''process_id'', ''operation'', ''hostname'', ''details_json'', ''started_at'',
     ''heartbeat_at'']"
  by code_simp+

lemma rows_fit_all:
  assumes "map_of TABLE_COLUMNS table \<noteq> None" and "\<And>row. row \<in> set rows \<Longrightarrow> fst ` set row = set (all_columns table)"
  shows "rows_fit table rows"
proof -
  from assms(1) obtain allowed where "map_of TABLE_COLUMNS table = Some allowed" by blast
  then have "accepted table (all_columns table)" by (auto simp: all_columns_def intro: accepted_subset)
  with assms(2) show ?thesis by (intro rows_fitI [of "all_columns table"]) (auto simp: list_all_iff)
qed

lemma map_res_fits:
  assumes "map_of TABLE_COLUMNS table \<noteq> None" and "\<And>x row. f x = Inr row \<Longrightarrow> fst ` set row = set (all_columns table)"
  shows "case map_res f xs of Inl e \<Rightarrow> True | Inr rows \<Rightarrow> rows_fit table rows"
proof (cases "map_res f xs")
  case (Inr rows)
  then have "list_all2 (\<lambda>x row. f x = Inr row) xs rows" by (simp add: map_res_Inr)
  then have "\<forall>row \<in> set rows. fst ` set row = set (all_columns table)"
    by (induction rule: list_all2_induct) (auto dest: assms(2))
  with Inr assms(1) rows_fit_all show ?thesis by auto
qed simp

end
