(* ===== verification/Publication.thy ===== *)
theory Publication
  imports Census Schema
begin

text \<open>
  The publication gate of \<open>core/census.py\<close>: what the journal of a run holds, and what had been
  established when a publication row was written. \<open>journals\<close> relates what a computation wrote to
  what it returned; its rules follow the sequencing of the runner, so that the property about
  \<open>run_token\<close> is assembled from one lemma per step.
\<close>

subsection \<open>Lemmas: the publication gate\<close>

text \<open>
  \<open>journals m R\<close>: \<open>m\<close> appends a list of insertions to the journal that stands in the relation
  \<open>R\<close> to what \<open>m\<close> returns or raises.
\<close>

definition journals :: "('w session, 'a) io \<Rightarrow> (insertion list \<Rightarrow> 'a res \<Rightarrow> bool) \<Rightarrow> bool" where
  "journals m R \<longleftrightarrow> (\<forall>s res s'. m s = (res, s') \<longrightarrow> (\<exists>l. ss_journal s' = ss_journal s @ l \<and> R l res))"

lemma journalsI:
  "(\<And>s res s'. m s = (res, s') \<Longrightarrow> \<exists>l. ss_journal s' = ss_journal s @ l \<and> R l res) \<Longrightarrow> journals m R"
  by (simp add: journals_def)

lemma journalsD: "journals m R \<Longrightarrow> m s = (res, s') \<Longrightarrow> \<exists>l. ss_journal s' = ss_journal s @ l \<and> R l res"
  by (simp add: journals_def)

lemma journals_bind:
  assumes "writes P m" and "\<And>l e. list_all P l \<Longrightarrow> R l (Inl e)"
    and "\<And>x s s1 l. m s = (Inr x, s1) \<Longrightarrow> ss_journal s1 = ss_journal s @ l \<Longrightarrow> list_all P l \<Longrightarrow> journals (f x) (\<lambda>k. R (l @ k))"
  shows "journals (bind_io m f) R"
proof (rule journalsI)
  fix s res s' assume b: "bind_io m f s = (res, s')"
  from b assms(1) show "\<exists>l. ss_journal s' = ss_journal s @ l \<and> R l res"
  proof (cases rule: bind_journal)
    case (raised l e)
    with assms(2) show ?thesis by blast
  next
    case (returned x s1 l)
    from journalsD [OF assms(3) [OF returned(1-3)] returned(4)] returned(2) show ?thesis by auto
  qed
qed

lemma journals_silent:
  assumes "writes (\<lambda>_. False) m" and "\<And>e. R [] (Inl e)"
    and "\<And>x s s1. m s = (Inr x, s1) \<Longrightarrow> journals (f x) R"
  shows "journals (bind_io m f) R"
  using assms by (auto intro!: journals_bind [OF assms(1)] simp: list_all_False)

lemma journals_raise: "R [] (Inl e) \<Longrightarrow> journals (raise e) R"
  by (auto simp: journals_def raise_def)

lemma journals_map:
  assumes "journals m Q" and "\<And>l e. Q l (Inl e) \<Longrightarrow> R l (Inl e)" and "\<And>l x. Q l (Inr x) \<Longrightarrow> R l (Inr (f x))"
  shows "journals (bind_io m (\<lambda>x. ret (f x))) R"
proof (rule journalsI)
  fix s res s' assume b: "bind_io m (\<lambda>x. ret (f x)) s = (res, s')"
  obtain r1 s1 where m: "m s = (r1, s1)" by fastforce
  from journalsD [OF assms(1) m] b m assms(2,3) show "\<exists>l. ss_journal s' = ss_journal s @ l \<and> R l res"
    by (cases r1) (auto simp: bind_io_def ret_def)
qed

lemma journals_catch:
  assumes "journals m R1" and "\<And>l x. R1 l (Inr x) \<Longrightarrow> R l (Inr x)"
    and "\<And>l e. R1 l (Inl e) \<Longrightarrow> journals (h e) (\<lambda>k. R (l @ k))"
  shows "journals (catch_io m h) R"
proof (rule journalsI)
  fix s res s' assume b: "catch_io m h s = (res, s')"
  obtain r1 s1 where m: "m s = (r1, s1)" by fastforce
  from journalsD [OF assms(1) m] obtain l where l: "ss_journal s1 = ss_journal s @ l" "R1 l r1" by blast
  show "\<exists>l. ss_journal s' = ss_journal s @ l \<and> R l res"
  proof (cases r1)
    case (Inr x)
    with b m l assms(2) show ?thesis by (auto simp: catch_io_def)
  next
    case (Inl e)
    with b m have "h e s1 = (res, s')" by (simp add: catch_io_def)
    from journalsD [OF assms(3) this] l Inl show ?thesis by auto
  qed
qed

lemma journals_mono: "journals m R \<Longrightarrow> (\<And>l res. R l res \<Longrightarrow> Q l res) \<Longrightarrow> journals m Q"
  unfolding journals_def by metis

lemma verified_readback_Inr:
  assumes "verified_readback rd expected s = (Inr d, s')"
  shows "\<exists>c s1 s2. rd c s1 = (Inr d, s2)"
proof -
  from assms obtain a s1 where a: "rd False s = (Inr a, s1)" "(if a = expected then ret a else rd True) s1 = (Inr d, s')"
    unfolding verified_readback_def bind_io_Inr by blast
  show ?thesis
  proof (cases "a = expected")
    case True
    with a show ?thesis by (auto simp: ret_def)
  next
    case False
    with a(2) have "rd True s1 = (Inr d, s')" by simp
    then show ?thesis by blast
  qed
qed

lemma terminal_errors_Inr:
  assumes "terminal_errors r scope result s = (Inr n, s')"
  shows "\<exists>c s1 s2. terminal_error_count (cn_store r) scope c s1 = (Inr n, s2)"
proof -
  let ?rd = "terminal_error_count (cn_store r) scope"
  from assms obtain a s1 where a: "?rd False s = (Inr a, s1)"
    "(if a \<noteq> int (length (co_errors result)) then ?rd True else ret a) s1 = (Inr n, s')"
    unfolding terminal_errors_def bind_io_Inr by blast
  show ?thesis
  proof (cases "a = int (length (co_errors result))")
    case True
    with a show ?thesis by (auto simp: ret_def)
  next
    case False
    with a(2) have "?rd True s1 = (Inr n, s')" by simp
    then show ?thesis by blast
  qed
qed

text \<open>Checks that passed: no terminal error is stored, and the digests read back are the collected ones.\<close>

lemma publication_checks_Inr:
  assumes "publication_checks r scope universe result digest readback s = (Inr checks, s')"
  shows "co_verified result \<and> readback = digest
    \<and> (\<exists>c s1 s2. terminal_error_count (cn_store r) scope c s1 = (Inr 0, s2))
    \<and> (\<forall>t. result = TokenCollected t \<longrightarrow>
         (\<exists>c s1 s2. readback_universe_digest (cn_store r) scope c s1 = (Inr (fu_universe_hash universe), s2)))"
proof -
  let ?universe_io = "case result of
      TokenCollected _ \<Rightarrow> bind_io (verified_readback (readback_universe_digest (cn_store r) scope) (fu_universe_hash universe)) (\<lambda>d.
        ret [outcome (d = fu_universe_hash universe) ''universe_readback_digest'' ''universe_readback_digest''])
    | _ \<Rightarrow> ret []"
  from assms obtain n s1 us s2 where n: "terminal_errors r scope result s = (Inr n, s1)"
    and us: "?universe_io s1 = (Inr us, s2)"
    and ok: "co_verified result" "concat (map snd us) = []" "readback = digest" "n = 0"
    by (auto simp: publication_checks_def bind_io_Inr Let_def raise_def outcome_def split: if_splits)
  have "\<exists>c s1 s2. readback_universe_digest (cn_store r) scope c s1 = (Inr (fu_universe_hash universe), s2)"
    if t: "result = TokenCollected t" for t
  proof -
    from us t obtain d s3 where d: "verified_readback (readback_universe_digest (cn_store r) scope) (fu_universe_hash universe) s1 = (Inr d, s3)"
      "us = [outcome (d = fu_universe_hash universe) ''universe_readback_digest'' ''universe_readback_digest'']"
      by (auto simp: bind_io_Inr ret_def)
    with ok(2) have "d = fu_universe_hash universe" by (auto simp: outcome_def split: if_splits)
    with verified_readback_Inr [OF d(1)] show ?thesis by simp
  qed
  with terminal_errors_Inr [OF n] ok show ?thesis by blast
qed

text \<open>The two insertions of a publication.\<close>

definition published_pair ::
  "row \<Rightarrow> collected \<Rightarrow> string \<Rightarrow> frozen_universe \<Rightarrow> nat \<Rightarrow> int option \<Rightarrow> int option \<Rightarrow> insertion list \<Rightarrow> bool" where
  "published_pair base result digest universe universe_size os rs l \<longleftrightarrow>
     (\<exists>reference finished publication_id checks. l =
        [(''census_attempts'', [with_items base (verified_items result digest reference finished)]),
         (''census_publications'',
            [publication_row base publication_id result digest universe universe_size os rs checks finished])])"

text \<open>Nothing was published and the computation raised, or what was written satisfies \<open>Q\<close>.\<close>

definition gated :: "(insertion list \<Rightarrow> bool) \<Rightarrow> insertion list \<Rightarrow> 'a res \<Rightarrow> bool" where
  "gated Q l res \<longleftrightarrow> (list_all not_publication l \<and> (\<exists>e. res = Inl e)) \<or> Q l"

lemma gated_Inl [simp]: "gated Q [] (Inl e)"
  by (simp add: gated_def)

lemma insert_row_journals: "journals (bind_io (insert_rows db table [row] token) (\<lambda>_. ret x))
    (\<lambda>l res. l = [(table, [row])] \<or> l = [] \<and> (\<exists>e. res = Inl e))"
  by (rule journals_map [where Q = "\<lambda>l res. l = [(table, [row])] \<or> l = [] \<and> (\<exists>e. res = Inl e)"])
     (auto simp: journals_def dest!: insert_rows_journal)

lemma publish_attempt_journals:
  "journals (publish_attempt r base result digest universe n os rs checks)
     (gated (published_pair base result digest universe n os rs))"
  unfolding publish_attempt_def Let_def
proof (rule journals_silent, goal_cases)
  case (3 finished s s1)
  let ?row = "with_items base (verified_items result digest (fst (snd (publication_context (co_batches result)))) finished)"
  let ?v = "(''census_attempts'', [?row])"
  show ?case unfolding insert_attempt_state_def
  proof (rule journals_bind [where P = "\<lambda>i. i = ?v"], goal_cases)
    case (2 l e)
    then show ?case by (auto simp: gated_def not_publication_def list_all_iff)
  next
    case (3 k s s1 l)
    with insert_rows_Inr [OF 3(1)] have l: "l = [?v]" by simp
    show ?case unfolding l
    proof (rule journals_silent, goal_cases)
      case (3 pid s s1)
      show ?case unfolding append_publication_def
        by (rule journals_mono [OF insert_row_journals]) (force simp: gated_def published_pair_def not_publication_def)
    qed (auto simp: gated_def not_publication_def intro: writes_intros)
  qed (auto intro!: writes_intros)
qed (auto intro: writes_intros)

text \<open>What was established about a token result before it is published.\<close>

definition token_checked ::
  "'w census_runner \<Rightarrow> attempt_scope \<Rightarrow> frozen_universe \<Rightarrow> token_collection_result \<Rightarrow> string \<Rightarrow> bool" where
  "token_checked r scope universe result digest \<longleftrightarrow> tr_verified result \<and> tr_result_digest result = Inr digest
     \<and> (\<exists>c s1 s2. readback_token_digest (cn_store r) scope c s1 = (Inr digest, s2))
     \<and> (\<exists>c s1 s2. readback_universe_digest (cn_store r) scope c s1 = (Inr (fu_universe_hash universe), s2))
     \<and> (\<exists>c s1 s2. terminal_error_count (cn_store r) scope c s1 = (Inr 0, s2))"

definition token_published ::
  "'w census_runner \<Rightarrow> row \<Rightarrow> attempt_scope \<Rightarrow> job_config \<Rightarrow> frozen_universe \<Rightarrow> token_collection_result
   \<Rightarrow> insertion list \<Rightarrow> bool" where
  "token_published r base scope job universe result l \<longleftrightarrow>
     (\<exists>digest os rs. token_checked r scope universe result digest \<and> token_sums job result = Inr (os, rs) \<and> os \<le> UINT256_MAX
        \<and> published_pair base (TokenCollected result) digest universe (fu_size universe) (Some os) rs l)"

lemma publish_token_journals:
  "journals (publish_token r base scope job universe result) (gated (token_published r base scope job universe result))"
  unfolding publish_token_def
proof (rule journals_silent, goal_cases)
  case (3 digest s s1)
  then have dg: "tr_result_digest result = Inr digest" by (simp add: lift_res_Inr)
  show ?case
  proof (rule journals_silent, goal_cases)
    case (3 readback s s1)
    note rb = 3
    show ?case
    proof (rule journals_silent, goal_cases)
      case (3 checks s s1)
      from publication_checks_Inr [OF 3] verified_readback_Inr [OF rb] dg
      have ok: "token_checked r scope universe result digest" by (auto simp: token_checked_def)
      show ?case
      proof (rule journals_silent, goal_cases)
        case (3 both s s1)
        then obtain os rs where ts: "both = (os, rs)" "token_sums job result = Inr (os, rs)"
          by (cases both) (simp add: lift_res_Inr)
        show ?case
        proof (cases "os > UINT256_MAX")
          case True
          then show ?thesis by (simp add: ts(1) journals_raise)
        next
          case False
          have "gated (token_published r base scope job universe result) l res"
            if "gated (published_pair base (TokenCollected result) digest universe (fu_size universe) (Some os) rs) l res" for l res
            using that ok ts(2) False by (auto simp: gated_def token_published_def)
          with False show ?thesis by (auto simp: ts(1) intro!: journals_mono [OF publish_attempt_journals])
        qed
      qed (auto intro: writes_intros)
    qed (auto intro: writes_intros)
  qed (auto intro: writes_intros)
qed (auto intro: writes_intros)

lemma rows_of_other: "\<forall>i \<in> set l. fst i \<in> T \<Longrightarrow> t \<notin> T \<Longrightarrow> rows_of t l = []"
  by (auto simp: rows_of_def filter_empty_conv)

lemma writes_insert_chunked [writes_intros]:
  "(\<And>rows a i. writes P (ins rows a i)) \<Longrightarrow> writes P (insert_chunked ins rows attempt_id)"
  by (auto simp: insert_chunked_def intro!: writes_intros)

lemma writes_persist [writes_intros]:
  "writes not_publication (persist_universe r i job addr d u)"
  "writes not_publication (insert_errors r i job k addr d es)"
  by (auto simp: persist_universe_def insert_errors_def Let_def insert_universe_members_def insert_terminal_errors_def
      not_publication_def intro!: writes_intros)

lemma writes_persist_result [writes_intros]:
  "writes not_publication (persist_token_result r i job token d tresult)"
  "writes not_publication (persist_pool_result r i job pool d presult)"
  "writes not_publication (persist_pool_cl_result r i job pool d cresult)"
  by (auto simp: persist_token_result_def persist_pool_result_def persist_pool_cl_result_def insert_token_balances_def
      insert_token_scalars_def insert_pool_balances_def insert_pool_cl_state_def insert_pool_ticks_def
      not_publication_def intro!: writes_intros)

text \<open>The rows of an attempt: the members of the universe and the observations, decoded, and no error row.\<close>

definition token_rows :: "frozen_universe \<Rightarrow> token_collection_result \<Rightarrow> insertion list \<Rightarrow> bool" where
  "token_rows universe result l \<longleftrightarrow> list_all not_publication l
     \<and> map member_of_row (rows_of ''census_universe_members'' l)
         = map (\<lambda>a. Inr (a, the (map_of (fu_sources universe) a))) (fu_addresses universe)
     \<and> map balance_of_row (rows_of ''token_balances'' l) = map (Inr \<circ> balance_digest_row) (tr_balances result)
     \<and> mset (map scalar_of_row (rows_of ''token_scalars'' l)) = mset (map (Inr \<circ> Collection.scalar_digest_row) (tr_scalars result))
     \<and> length (rows_of ''census_errors'' l) = length (tr_errors result)"

definition token_outcome ::
  "'w census_runner \<Rightarrow> row \<Rightarrow> nat \<Rightarrow> job_config \<Rightarrow> token_config \<Rightarrow> date \<Rightarrow> block_ref \<Rightarrow> frozen_universe
   \<Rightarrow> insertion list \<Rightarrow> bool" where
  "token_outcome r base i job token d anchor universe l \<longleftrightarrow>
     (\<exists>result w w' pre pair. l = pre @ pair \<and> collect_token r job token universe anchor w = (Inr result, w')
        \<and> token_rows universe result pre
        \<and> token_published r base (scope_of r job (tc_address token) d i) job universe result pair)"

lemma on_world_Inr: "on_world m s = (Inr x, s') \<Longrightarrow> \<exists>w w'. m w = (Inr x, w')"
  by (auto simp: on_world_def split: prod.split_asm)

lemma gated_append:
  "gated Q k res \<Longrightarrow> list_all not_publication l \<Longrightarrow> (Q k \<Longrightarrow> Q' (l @ k)) \<Longrightarrow> gated Q' (l @ k) res"
  by (auto simp: gated_def)

lemma token_body_journals:
  "journals (token_body r base i job token d anchor universe kind) (gated (token_outcome r base i job token d anchor universe))"
  unfolding token_body_def
proof (rule journals_silent, goal_cases)
  case (3 u s s1)
  show ?case
  proof (rule journals_silent, goal_cases)
    case (3 result s s1)
    then obtain w w' where w: "collect_token r job token universe anchor w = (Inr result, w')" by (auto dest!: on_world_Inr)
    show ?case
    proof (rule journals_bind [where P = not_publication], goal_cases)
      case (3 u s s1 l1)
      from persist_universe_Inr [OF 3(1)] 3(2) obtain ms where ms:
        "map member_of_row ms = map (\<lambda>a. Inr (a, the (map_of (fu_sources universe) a))) (fu_addresses universe)"
        "l1 = (if ms = [] then [] else [(''census_universe_members'', ms)])" by auto
      show ?case
      proof (rule journals_bind [where P = not_publication], goal_cases)
        case (2 l e)
        with \<open>list_all not_publication l1\<close> show ?case by (simp add: gated_def)
      next
        case (3 u s s1 l2)
        from persist_token_result_Inr [OF 3(1)] 3(2) have obs:
          "\<forall>i \<in> set l2. fst i \<in> {''token_balances'', ''token_scalars'', ''census_errors''}"
          "map balance_of_row (rows_of ''token_balances'' l2) = map (Inr \<circ> balance_digest_row) (tr_balances result)"
          "mset (map scalar_of_row (rows_of ''token_scalars'' l2)) = mset (map (Inr \<circ> Collection.scalar_digest_row) (tr_scalars result))"
          "length (rows_of ''census_errors'' l2) = length (tr_errors result)" by auto
        have "rows_of ''census_universe_members'' l2 = []" by (rule rows_of_other [OF obs(1)]) simp
        then have rows: "token_rows universe result (l1 @ l2)"
          using ms obs(2-) \<open>list_all not_publication l1\<close> 3(3) by (auto simp: token_rows_def)
        show ?case
        proof (rule journals_mono [OF publish_token_journals], goal_cases)
          case (1 k res)
          then have "gated (token_outcome r base i job token d anchor universe) ((l1 @ l2) @ k) res"
          proof (rule gated_append)
            show "list_all not_publication (l1 @ l2)" using rows by (simp add: token_rows_def)
            assume "token_published r base (scope_of r job (tc_address token) d i) job universe result k"
            with rows w show "token_outcome r base i job token d anchor universe ((l1 @ l2) @ k)"
              unfolding token_outcome_def by blast
          qed
          then show ?case by simp
        qed
      qed (intro writes_intros)
    qed (auto simp: gated_def intro: writes_intros)
  qed (auto intro: writes_intros)
qed (auto intro: writes_intros)

text \<open>
  An attempt: \<open>start\<close> records that it started, \<open>rest\<close> its failure, if it failed; what is between
  satisfies \<open>Q\<close>.
\<close>

definition attempt_of :: "(insertion list \<Rightarrow> bool) \<Rightarrow> insertion list \<Rightarrow> 'a res \<Rightarrow> bool" where
  "attempt_of Q l res \<longleftrightarrow> (list_all not_publication l \<and> (\<exists>e. res = Inl e))
     \<or> (\<exists>start body rest. l = start @ body @ rest \<and> Q body \<and> (\<forall>i \<in> set (start @ rest). fst i = ''census_attempts'')
          \<and> ((\<exists>x. res = Inr x) \<longrightarrow> rest = []))"

lemma attempt_ofE:
  assumes "attempt_of Q l res"
  obtains (silent) e where "list_all not_publication l" "res = Inl e"
  | (written) start body rest where "l = start @ body @ rest" "Q body" "\<forall>i \<in> set (start @ rest). fst i = ''census_attempts''"
      "\<And>x. res = Inr x \<Longrightarrow> rest = []"
  using assms unfolding attempt_of_def by blast

lemma attempts_not_publication: "\<forall>i \<in> set l. fst i = ''census_attempts'' \<Longrightarrow> list_all not_publication l"
  by (auto simp: list_all_iff not_publication_def)

lemma record_failure_journals: "journals (bind_io (record_failure r base e) (\<lambda>_. raise e))
    (\<lambda>l res. (\<forall>i \<in> set l. fst i = ''census_attempts'') \<and> (\<exists>e. res = Inl e))"
proof (rule journals_bind [where P = "\<lambda>i. fst i = ''census_attempts''"])
  show "writes (\<lambda>i. fst i = ''census_attempts'') (record_failure r base e)" by (rule writes_failure) simp
qed (auto simp: list_all_iff intro!: journals_raise)

lemma run_attempt_journals:
  assumes "journals body (gated Q)"
  shows "journals (run_attempt r base body) (attempt_of Q)"
  unfolding run_attempt_def insert_attempt_state_def
proof (rule journals_bind [where P = "\<lambda>i. fst i = ''census_attempts''"], goal_cases)
  case (2 l e)
  then show ?case by (auto simp: attempt_of_def list_all_iff not_publication_def)
next
  case (3 x s s1 l)
  then have start: "\<forall>i \<in> set l. fst i = ''census_attempts''" by (simp add: list_all_iff)
  show ?case
  proof (rule journals_catch [OF assms], goal_cases)
    case (1 k x)
    then have "l @ k = l @ k @ [] \<and> Q k" by (auto simp: gated_def)
    with start show ?case unfolding attempt_of_def by fastforce
  next
    case (2 k e)
    show ?case
    proof (rule journals_mono [OF record_failure_journals], goal_cases)
      case (1 m res)
      from 2 show ?case unfolding gated_def
      proof
        assume "list_all not_publication k \<and> (\<exists>e'. Inl e = Inl e')"
        with 1 attempts_not_publication [of m] attempts_not_publication [OF start] show ?thesis
          by (simp add: attempt_of_def)
      next
        assume "Q k"
        with 1 start show ?thesis unfolding attempt_of_def by (intro disjI2 exI [of _ l] exI [of _ k] exI [of _ m]) auto
      qed
    qed
  qed
qed (auto intro!: writes_intros)

lemma attempt_of_Inl [simp]: "attempt_of Q [] (Inl e)"
  by (simp add: attempt_of_def)

lemma return_after_attempt:
  assumes "journals m (attempt_of Q)"
  shows "journals (bind_io m (\<lambda>_. ret i)) (\<lambda>l res. attempt_of Q l res \<and> (\<forall>j. res = Inr j \<longrightarrow> j = i))"
  using assms by (rule journals_map) (auto simp: attempt_of_def; metis append_Nil2)+

text \<open>A resolver over the holder table only reads.\<close>

lemma writes_resolve_map:
  assumes "\<And>ledger b. writes P (ur_holder_members u ledger b)"
  shows "writes P (resolve_map u n t b stack)"
  using assms
proof (induction u n t b stack rule: resolve_map.induct)
  case (1 u n t b stack)
  then show ?case
    by (subst resolve_map.simps) (auto simp: full_holders_def intro!: writes_intros split: option.split)
qed

lemma writes_resolve_universe:
  assumes "mk_universe_resolver c us (holder_members db) el seeds aliases = Inr u"
  shows "writes P (resolve_universe u n t b)"
proof -
  from assms have "ur_holder_members u = holder_members db c"
    by (auto simp: mk_universe_resolver_def bind_res_Inr split: if_splits)
  then show ?thesis
    by (auto simp: resolve_universe_def holder_members_def Let_def intro!: writes_intros writes_resolve_map)
qed

lemma run_token_journals:
  assumes "mk_universe_resolver c us (holder_members (cn_store r)) el seeds aliases = Inr (cn_universes r)"
  shows "journals (run_token r job token d anchor) (\<lambda>l res. \<exists>i config_hash universe kind started.
     (\<exists>w w' selector. jb_universe job = Some selector
        \<and> resolve_universe (cn_universes r) selector (tc_address token) (number anchor) w = (Inr universe, w')) \<and>
     attempt_of (token_outcome r (attempt_base r i job ''token'' (tc_address token) d anchor config_hash universe kind started)
       i job token d anchor universe) l res \<and> (\<forall>j. res = Inr j \<longrightarrow> j = i)
     \<or> l = [] \<and> (\<exists>e. res = Inl e))"
proof (cases "jb_universe job")
  case None
  then show ?thesis by (auto simp: run_token_def intro!: journals_raise)
next
  case (Some selector)
  show ?thesis unfolding run_token_def Some option.case Let_def
  proof (rule journals_silent, goal_cases)
    case (3 u s s1)
    show ?case
    proof (rule journals_silent, goal_cases)
      case (3 universe s s1)
      note universe = this
      show ?case
      proof (rule journals_silent, goal_cases)
        case (3 i s s1)
        show ?case
        proof (rule journals_silent, goal_cases)
          case (3 started s s1)
          show ?case
          proof (rule journals_silent, goal_cases)
            case (3 config_hash s s1)
            show ?case
              by (rule journals_mono [OF return_after_attempt [OF run_attempt_journals [OF token_body_journals]]])
                 (use Some universe in blast)
          qed (auto intro: writes_intros)
        qed (auto intro: writes_intros)
      qed (auto intro: writes_intros)
    qed (auto intro: writes_resolve_universe [OF assms])
  qed (auto intro: writes_intros)
qed

subsection \<open>What a publication means\<close>

lemma map_of_with_items: "map_of (with_items base items) k = (map_of base ++ map_of (rev items)) k"
proof -
  have "map_of (with_items base items) = map_of base ++ map_of (rev items)"
    unfolding with_items_def
    by (induction items arbitrary: base) (auto simp: update_conv' fun_eq_iff map_add_def split: option.split)
  then show ?thesis by simp
qed

text \<open>The columns that say what is published, as the attempt and the publication row carry them.\<close>

definition publication_cells ::
  "int \<Rightarrow> job_config \<Rightarrow> string \<Rightarrow> string \<Rightarrow> date \<Rightarrow> nat \<Rightarrow> block_ref \<Rightarrow> string \<Rightarrow> string \<Rightarrow> row" where
  "publication_cells chain job target_kind address d i anchor universe_hash digest =
     [(''chain_id'', CInt chain), (''job_name'', CText (jb_name job)), (''target_kind'', CText target_kind),
      (''target_address'', CText address), (''snapshot_date'', CDate d), (''attempt_id'', CUuid i),
      (''integrity_mode'', CText (integrity_mode_value (jb_integrity_mode job))),
      (''anchor_block'', CInt (number anchor)), (''anchor_hash'', CText (block_hash anchor)),
      (''universe_hash'', CText universe_hash), (''result_digest'', CText digest)]"

definition carries :: "row \<Rightarrow> row \<Rightarrow> bool" where
  "carries row cells \<longleftrightarrow> (\<forall>(k, v) \<in> set cells. map_of row k = Some v)"

lemma published_pair_cells:
  assumes "published_pair (attempt_base r i job kind addr d anchor h universe ek started) result digest universe n os rs l"
  shows "\<exists>v p. l = [(''census_attempts'', [v]), (''census_publications'', [p])] \<and> map_of v ''status'' = Some (CText ''verified'')
    \<and> carries v (publication_cells (cn_chain_id r) job kind addr d i anchor (fu_universe_hash universe) digest)
    \<and> carries p (publication_cells (cn_chain_id r) job kind addr d i anchor (fu_universe_hash universe) digest)
    \<and> map_of p ''observed_sum_raw'' = Some (opt_int os) \<and> map_of p ''reference_supply_raw'' = Some (opt_int rs)"
proof -
  let ?base = "attempt_base r i job kind addr d anchor h universe ek started"
  from assms obtain reference finished pid checks where l: "l =
      [(''census_attempts'', [with_items ?base (verified_items result digest reference finished)]),
       (''census_publications'', [publication_row ?base pid result digest universe n os rs checks finished])]"
    by (auto simp: published_pair_def)
  let ?v = "with_items ?base (verified_items result digest reference finished)"
  let ?p = "publication_row ?base pid result digest universe n os rs checks finished"
  obtain kinds ref providers where ctx: "publication_context (co_batches result) = (kinds, ref, providers)"
    by (cases "publication_context (co_batches result)")
  have "map_of ?v ''status'' = Some (CText ''verified'')"
    by (simp add: map_of_with_items verified_items_def map_add_def)
  moreover have "carries ?v (publication_cells (cn_chain_id r) job kind addr d i anchor (fu_universe_hash universe) digest)"
    by (simp add: map_of_with_items verified_items_def map_add_def carries_def publication_cells_def attempt_base_def attempt_columns_def)
  moreover have "carries ?p (publication_cells (cn_chain_id r) job kind addr d i anchor (fu_universe_hash universe) digest)"
    by (simp add: carries_def publication_cells_def attempt_base_def attempt_columns_def publication_row_def base_cell_def
        ctx)
  moreover have "map_of ?p ''observed_sum_raw'' = Some (opt_int os)" "map_of ?p ''reference_supply_raw'' = Some (opt_int rs)"
    by (simp_all add: publication_row_def ctx)
  ultimately show ?thesis using l by blast
qed

subsection \<open>The rows of a census fit their tables\<close>

lemma dom_with_items: "fst ` set (with_items base items) = fst ` set base \<union> fst ` set items"
  unfolding with_items_def
proof (induction items arbitrary: base)
  case (Cons i items)
  then show ?case using dom_update [of "fst i" "snd i" base] by (cases i) auto
qed simp

text \<open>Attempt rows omit \<open>batches_json\<close> until they are verified.\<close>

lemma attempt_columns_all: "fst ` set (attempt_base r i job k a d an h u ek st) = set (all_columns ''census_attempts'') - {''status'', ''batches_json''}"
  by (auto simp: attempt_base_def attempt_columns_def all_columns_simps)

lemma attempts_fit:
  assumes "fst ` set items \<subseteq> set (all_columns ''census_attempts'')"
  shows "rows_fit ''census_attempts'' [with_items (attempt_base r i job k a d an h u ek st) items]"
proof (rule rows_fitI)
  let ?row = "with_items (attempt_base r i job k a d an h u ek st) items"
  show "list_all (\<lambda>row. fst ` set row = set (map fst ?row)) [?row]" by simp
  have "map_of TABLE_COLUMNS ''census_attempts'' = Some (all_columns ''census_attempts'')"
    using known_tables by (auto simp: all_columns_def)
  then show "accepted ''census_attempts'' (map fst ?row)"
    by (rule accepted_subset) (use assms in \<open>auto simp: dom_with_items attempt_columns_all\<close>)
qed

lemmas row_defs = balance_insert_row_def scalar_insert_row_def pool_insert_row_def cl_state_insert_row_def
  tick_insert_row_def error_row_def observation_columns_def attempt_columns_def

lemma publication_fits: "rows_fit ''census_publications'' [publication_row bs pid res dg u n os rs cs f]"
  by (rule rows_fit_all, simp add: known_tables [simplified])
     (cases "publication_context (co_batches res)"; auto simp: publication_row_def all_columns_simps)

lemma observations_fit:
  "case map_res (balance_insert_row r i job token d t tr) xs of Inl e \<Rightarrow> True | Inr rows \<Rightarrow> rows_fit ''token_balances'' rows"
  "case map_res (scalar_insert_row r i job token d t tr) ys of Inl e \<Rightarrow> True | Inr rows \<Rightarrow> rows_fit ''token_scalars'' rows"
  "case map_res (pool_insert_row r i job pool d t pr) zs of Inl e \<Rightarrow> True | Inr rows \<Rightarrow> rows_fit ''pool_token_balances'' rows"
  "case map_res (tick_insert_row r i job pool d t cr) ts of Inl e \<Rightarrow> True | Inr rows \<Rightarrow> rows_fit ''pool_tick_liquidity'' rows"
  by (rule map_res_fits, simp add: known_tables [simplified], auto simp: row_defs bind_res_Inr all_columns_simps)+

lemma singles_fit:
  "case cl_state_insert_row r i job pool d t cr of Inl e \<Rightarrow> True | Inr row \<Rightarrow> rows_fit ''pool_cl_state'' [row]"
  "case universe_rows r i job a d u t of Inl e \<Rightarrow> True | Inr rows \<Rightarrow> rows_fit ''census_universe_members'' rows"
  "rows_fit ''census_errors'' (map (error_row r i job k a d t) es)"
  subgoal by (auto intro!: rows_fit_all simp: known_tables [simplified] row_defs bind_res_Inr Let_def all_columns_simps split: sum.split)
  subgoal unfolding universe_rows_def
    by (rule map_res_fits, simp add: known_tables [simplified], auto simp: row_defs bind_res_Inr all_columns_simps)
  subgoal by (auto intro!: rows_fit_all simp: known_tables [simplified] row_defs all_columns_simps)
  done


subsection \<open>A census that publishes\<close>

text \<open>
  \<open>yields m x\<close>: \<open>m\<close> returns \<open>x\<close> from every session. With a client that keeps no state this is
  enough to follow a run from end to end.
\<close>

definition yields :: "('w session, 'a) io \<Rightarrow> 'a \<Rightarrow> bool" where
  "yields m x \<longleftrightarrow> (\<forall>s. \<exists>s'. m s = (Inr x, s'))"

named_theorems yields_intros \<open>returning from every session\<close>

lemma yields_bind: "yields m x \<Longrightarrow> yields (f x) y \<Longrightarrow> yields (bind_io m f) y"
  unfolding yields_def by (metis bind_io_apply(1))

lemma yields_prim [yields_intros]: "yields (ret x) x" "yields (lift_res (Inr x)) x" "yields (Pair (Inr x)) x"
  by (simp_all add: yields_def ret_def lift_res_def)

lemma yields_catch: "yields m x \<Longrightarrow> yields (catch_io m h) x"
  unfolding yields_def
proof
  fix s assume "\<forall>s. \<exists>s'. m s = (Inr x, s')"
  then obtain s' where "m s = (Inr x, s')" by blast
  then show "\<exists>s'. catch_io m h s = (Inr x, s')" by (simp add: catch_io_def)
qed

lemma yields_on_world:
  assumes "\<And>w. \<exists>w'. m w = (Inr x, w')"
  shows "yields (on_world m) x"
  unfolding yields_def
proof
  fix s :: "'a session"
  obtain w' where "m (ss_world s) = (Inr x, w')" using assms by blast
  then show "\<exists>s'. on_world m s = (Inr x, s')" by (simp add: on_world_def)
qed

lemma yields_map_io: "list_all2 (\<lambda>a y. yields (f a) y) xs ys \<Longrightarrow> yields (map_io f xs) ys"
  by (induction rule: list_all2_induct) (auto intro: yields_prim yields_bind)

text \<open>A client that accepts every insert and answers with the rows of one fixed attempt.\<close>

definition sample_answers :: "sql \<Rightarrow> row list" where
  "sample_answers q = (case q of
     SQL_holder_members \<Rightarrow> [[(''holder_address'', CText (sample_address 3)), (''member_sources'', CTexts [''own_scan''])]]
   | SQL_universe_members \<Rightarrow> [[(''holder_address'', CText (sample_address 3)),
                              (''member_sources'', CTexts [''full_holders:full_holders:own_scan''])]]
   | SQL_terminal_errors \<Rightarrow> [[(''errors'', CInt 0)]]
   | SQL_token_balances \<Rightarrow> [[(''holder_address'', CText (sample_address 3)), (''balance_raw'', CInt 7),
                            (''scaled_balance_raw'', CNull), (''value_kind'', CText ''direct'')]]
   | SQL_pool_balances \<Rightarrow> [[(''pool_address'', CText (sample_address 1)), (''token_address'', CText (sample_address 2)),
                            (''balance_raw'', CInt 7)]]
   | SQL_token_scalars \<Rightarrow> [[(''scalar_name'', CText ''totalSupply''), (''scalar_raw'', CInt 7)]]
   | _ \<Rightarrow> [])"

definition sample_client :: "unit client" where
  "sample_client = \<lparr>db_insert = (\<lambda>_ _ _ _. ret ()), db_query = (\<lambda>q _ _. ret (sample_answers q)),
     db_now = ret 0, db_uuid4 = ret 5\<rparr>"

text \<open>A pool job with one pool, and a catalog that has it beside the token job.\<close>

definition plain_pool :: pool_config where
  "plain_pool = \<lparr>pc_address = sample_address 1, pc_name = ''p'', pc_pool_class = ''curve'', pc_deployment_block = 0,
     pc_date_start = None, pc_date_end = None, pc_enabled = True, pc_assets = [sample_address 2],
     pc_pool_id = None, pc_tick_spacing = None, pc_fee = None\<rparr>"

definition plain_job :: job_config where
  "plain_job = sample_job\<lparr>jb_name := ''pools'', jb_target_kind := POOLS, jb_universe := None,
     jb_token_selector := None,
     jb_pool_selector := Some \<lparr>ps_addresses = [], ps_class_in = [], ps_all_enabled = True\<rparr>,
     jb_integrity_mode := POOL_ASSETS\<rparr>"

definition daily_catalog :: catalog where
  "daily_catalog = sample_catalog\<lparr>
     ct_chain := sample_chain\<lparr>ch_multicall3 := (ch_multicall3 sample_chain)\<lparr>ms_deployment_block := 50\<rparr>\<rparr>,
     ct_pools := [(sample_address 1, plain_pool)], ct_jobs := [(''tokens'', sample_job), (''pools'', plain_job)]\<rparr>"

definition sample_runner :: "unit census_runner" where
  "sample_runner = \<lparr>
     cn_catalog = daily_catalog,
     cn_read_bytes = (\<lambda>_. Inr []), cn_float_text = (\<lambda>_. ''5.0''), cn_store = sample_client,
     cn_universes = \<lparr>ur_universes = sample_universes, ur_holder_members = holder_members sample_client 100,
       ur_explicit_list = (\<lambda>_. Inr []), ur_seed_holders = [], ur_universe_aliases = []\<rparr>,
     cn_execute = echo_executor, cn_ext = sample_ext, cn_tolerance = (0, 0),
     cn_verify = (\<lambda>a b h. ret \<lparr>ce_address = a, ce_code_hash = ''h'',
       ce_provider_groups = [''one''], ce_reference_kind = ''eip1898''\<rparr>),
     cn_balancer = None, cn_cl = None\<rparr>"

lemma yields_insert [yields_intros]:
  assumes "rows_fit table rows" and "rows \<noteq> []" and "token \<noteq> Some []"
  shows "yields (insert_rows sample_client table rows token) (length rows)"
  using assms by (auto simp: rows_fit_def insert_rows_def yields_def bind_io_def sent_def on_world_def sample_client_def ret_def)

lemma yields_now [yields_intros]: "yields (now_utc sample_runner) 0"
  by (auto simp: now_utc_def sample_runner_def sample_client_def ret_def intro!: yields_on_world)

lemma yields_uuid [yields_intros]: "yields (uuid4 sample_runner) 5"
  by (auto simp: uuid4_def sample_runner_def sample_client_def ret_def intro!: yields_on_world)

lemma yields_query [yields_intros]: "yields (query_rows sample_client q ps c) (sample_answers q)"
  by (auto simp: query_rows_def sample_client_def ret_def intro!: yields_on_world)

lemma yields_query_map:
  "map_res f (sample_answers q) = Inr ys \<Longrightarrow> yields (query_map sample_client q ps c f) ys"
  by (auto simp: query_map_def intro!: yields_bind [OF yields_query] yields_intros)

definition sample_labels :: "string list" where
  "sample_labels = [''full_holders:full_holders:own_scan'']"

lemma sample_universe:
  "\<exists>u. yields (resolve_universe (cn_universes sample_runner) ''full_holders'' (sample_address 2) (number (sample_block 1))) u
     \<and> fu_addresses u = [sample_address 3] \<and> fu_sources u = [(sample_address 3, sample_labels)]
     \<and> assert_universe u = Inr () \<and> digest_universe (fu_sources u) = Inr (fu_universe_hash u)"
proof -
  let ?src = "[(sample_address 3, sample_labels)]"
  have "distinct (map fst ?src)" "list_all (LOWER_ADDRESS_RE \<circ> fst) ?src" "list_all member_ok (map canonical_member ?src)"
    by code_simp+
  then obtain p where "universe_preimage ?src = Inr p" using universe_preimage_Inr [of ?src] by blast
  then obtain h where h: "digest_universe ?src = Inr h" by (simp add: digest_universe_def)
  let ?u = "\<lparr>fu_addresses = [sample_address 3], fu_sources = ?src, fu_universe_hash = h\<rparr>"
  have norm: "normalize_address (sample_address 2) = Inr (sample_address 2)" by code_simp
  have m: "yields (holder_members sample_client 100 (sample_address 2) 1)
      [\<lparr>um_address = sample_address 3, um_sources = [''own_scan'']\<rparr>]"
    unfolding holder_members_def norm
    by (rule yields_bind [OF yields_prim(2)], rule yields_query_map) (simp add: sample_answers_def cell_reads)
  have "yields (full_holders (cn_universes sample_runner) ''full_holders'' (sample_address 2) 1)
      (add_labels (sample_address 3) {''full_holders:full_holders:own_scan''} [])"
    unfolding full_holders_def
    by (rule yields_bind [OF yields_map_io [where ys = "[[\<lparr>um_address = sample_address 3, um_sources = [''own_scan'']\<rparr>]]"]])
       (use m in \<open>simp_all add: sample_runner_def dict_get_def sample_addresses yields_prim\<close>)
  then have "yields (resolve_map (cn_universes sample_runner) ''full_holders'' (sample_address 2) 1 [])
      (add_labels (sample_address 3) {''full_holders:full_holders:own_scan''} [])"
    by (subst resolve_map.simps) (simp add: sample_runner_def sample_universes_def)
  then have "yields (resolve_universe (cn_universes sample_runner) ''full_holders'' (sample_address 2) (number (sample_block 1))) ?u"
    unfolding resolve_universe_def
    by (auto simp: norm sample_block_def Let_def add_labels_def h [unfolded sample_labels_def] sample_labels_def
        intro!: yields_bind yields_intros)
  moreover have "assert_universe ?u = Inr ()" by (simp add: assert_universe_def)
  ultimately show ?thesis using h by (intro exI [of _ ?u]) simp
qed

lemma sample_hash: "\<exists>h. target_config_hash (cn_read_bytes sample_runner) (cn_float_text sample_runner) (cn_catalog sample_runner)
    sample_job (TokenTarget plain_token) = Inr h"
proof -
  let ?u = "jb_universe sample_job"
  have "\<exists>u h. jb_universe sample_job = Some u \<and> (\<exists>j. expanded_universe (ct_universes (cn_catalog sample_runner)) u [] = Inr j)
      \<and> (\<exists>h. collect_vendor_hashes (file_hash (cn_read_bytes sample_runner)) (cn_catalog sample_runner) u [] = Inr h)"
    by (simp add: sample_runner_def sample_job_def daily_catalog_def sample_catalog_def sample_universes_def expanded_universe.simps collect_vendor_hashes.simps)
  then show ?thesis by (auto simp: target_config_hash_def target_effective_config_def)
qed

lemma sample_digest: "\<exists>p. digest_token_observations
    [balance_digest_row (direct_row (sample_address 3, 7, 0))] [Collection.scalar_digest_row (scalar_row_of (''totalSupply'', 7, 0))] = Inr p"
proof -
  let ?bs = "[balance_digest_row (direct_row (sample_address 3, 7, 0))]"
    and ?ss = "[Collection.scalar_digest_row (scalar_row_of (''totalSupply'', 7, 0))]"
  have "list_all bal_ok ?bs" "list_all scal_ok ?ss" by code_simp+
  then obtain p where "token_preimage ?bs ?ss = Inr p" using token_preimage_Inr [of ?bs ?ss] by blast
  then show ?thesis by (simp add: digest_token_observations_def)
qed

lemma yields_code [yields_intros]: "yields (verify_code sample_runner a anchor h) ()"
  by (auto simp: verify_code_def sample_runner_def ret_def bind_io_def on_world_def yields_def)

lemma yields_readback: "yields (rd False) d \<Longrightarrow> yields (verified_readback rd d) d"
  unfolding verified_readback_def by (rule yields_bind [where x = d]) (auto intro: yields_prim)

lemma yields_terminal: "yields (terminal_error_count sample_client scope c) 0"
  unfolding terminal_error_count_def
  by (rule yields_bind [OF yields_query]) (simp add: sample_answers_def cell_int_def yields_prim)

lemma yields_universe_readback:
  "digest_universe [(sample_address 3, sample_labels)] = Inr h \<Longrightarrow> yields (readback_universe_digest sample_client scope c) h"
  unfolding readback_universe_digest_def
  by (rule yields_bind [OF yields_query_map [where ys = "[(sample_address 3, sample_labels)]"]])
     (simp_all add: sample_answers_def cell_reads sample_labels_def yields_prim)

lemma yields_token_readback:
  assumes "digest_token_observations
    [balance_digest_row (direct_row (sample_address 3, 7, 0))] [Collection.scalar_digest_row (scalar_row_of (''totalSupply'', 7, 0))] = Inr h"
  shows "yields (readback_token_digest sample_client scope c) h"
  unfolding readback_token_digest_def
  by (rule yields_bind [OF yields_query], rule yields_bind [OF yields_query])
     (use assms in \<open>simp add: sample_answers_def balance_of_row_def scalar_of_row_def cell_reads balance_digest_row_def
        Collection.scalar_digest_row_def direct_row_def scalar_row_of_def yields_prim\<close>)

lemma sample_store [simp]: "cn_store sample_runner = sample_client"
  by (simp add: sample_runner_def)

lemma sample_persists:
  assumes "fu_addresses u = [sample_address 3]" "fu_sources u = [(sample_address 3, sample_labels)]"
  shows "yields (persist_universe sample_runner 5 sample_job a d u) ()"
proof -
  have "\<exists>row. universe_rows sample_runner 5 sample_job a d u 0 = Inr [row]"
    by (simp add: universe_rows_def assms lookup_key_def)
  then obtain row where row: "universe_rows sample_runner 5 sample_job a d u 0 = Inr [row]" ..
  with singles_fit(2) [of sample_runner 5 sample_job a d u 0] have "rows_fit ''census_universe_members'' [row]" by simp
  then have "yields (insert_universe_members sample_client [row] 5) (length [row])"
    unfolding insert_universe_members_def by (intro yields_insert) simp_all
  then show ?thesis unfolding persist_universe_def
    by (intro yields_bind [OF yields_now]) (auto simp: row intro!: yields_bind yields_prim)
qed

lemma sample_result_persists:
  assumes "tr_balances x = [direct_row (sample_address 3, 7, 0)]" "tr_scalars x = [scalar_row_of (''totalSupply'', 7, 0)]"
    "tr_batches x = [b]" "tr_errors x = []"
  shows "yields (persist_token_result sample_runner 5 sample_job plain_token d x) ()"
proof -
  have "\<exists>row. map_res (balance_insert_row sample_runner 5 sample_job plain_token d 0 x) (tr_balances x) = Inr [row]"
    and "\<exists>row. map_res (scalar_insert_row sample_runner 5 sample_job plain_token d 0 x) (tr_scalars x) = Inr [row]"
    by (simp_all add: assms balance_insert_row_def scalar_insert_row_def probe_source_def direct_row_def scalar_row_of_def)
  then obtain brow srow where
    b: "map_res (balance_insert_row sample_runner 5 sample_job plain_token d 0 x) (tr_balances x) = Inr [brow]"
    and s: "map_res (scalar_insert_row sample_runner 5 sample_job plain_token d 0 x) (tr_scalars x) = Inr [srow]" by blast
  from observations_fit(1) [of sample_runner 5 sample_job plain_token d 0 x "tr_balances x"]
    observations_fit(2) [of sample_runner 5 sample_job plain_token d 0 x "tr_scalars x"]
  have fit: "rows_fit ''token_balances'' [brow]" "rows_fit ''token_scalars'' [srow]" unfolding b s by simp_all
  have "chunks INSERT_CHUNK_ROWS [brow] = [[brow]]" by (simp add: chunks.simps INSERT_CHUNK_ROWS_def)
  then have "yields (insert_chunked (insert_token_balances sample_client) [brow] 5) ()"
    unfolding insert_chunked_def insert_token_balances_def
    by (intro yields_bind [OF yields_map_io [where ys = "[1]"]] yields_prim)
       (use yields_insert [OF fit(1)] in auto)
  moreover have "yields (map_io (\<lambda>(sequence, rows). insert_token_scalars sample_client rows 5 sequence)
      (by_batch (zip (map sc_batch_sequence (tr_scalars x)) [srow]) [])) [1]"
    by (rule yields_map_io) (use yields_insert [OF fit(2)] in \<open>simp add: assms scalar_row_of_def dict_get_def insert_token_scalars_def\<close>)
  moreover have "yields (insert_errors sample_runner 5 sample_job ''token'' (tc_address plain_token) d (tr_errors x)) ()"
    unfolding insert_errors_def assms Let_def by (rule yields_bind [OF yields_now]) (simp add: yields_prim)
  ultimately show ?thesis unfolding persist_token_result_def
    by (intro yields_bind [OF yields_now]) (auto simp: b s intro!: yields_bind yields_prim)
qed

lemma sample_checks:
  assumes "tr_verified x" "digest_universe [(sample_address 3, sample_labels)] = Inr (fu_universe_hash u)"
  shows "\<exists>checks. yields (publication_checks sample_runner scope u (TokenCollected x) dg dg) checks"
proof -
  have te: "yields (terminal_errors sample_runner scope (TokenCollected x)) 0"
    unfolding terminal_errors_def using yields_terminal assms(1)
    by (intro yields_bind [OF yields_terminal [of scope False, folded sample_store]]) (simp_all add: all_verified_iff yields_prim)
  have ud: "yields (verified_readback (readback_universe_digest sample_client scope) (fu_universe_hash u)) (fu_universe_hash u)"
    by (rule yields_readback [OF yields_universe_readback [OF assms(2)]])
  have passed: "concat (map (snd \<circ> integrity_outcome) cs) = []" if "list_all ir_passed cs" for cs
    using that by (induction cs) (auto simp: integrity_outcome_def outcome_def)
  show ?thesis unfolding publication_checks_def Let_def
    by (rule exI, rule yields_bind [OF te], rule yields_bind, simp, rule yields_bind [OF ud], rule yields_prim,
        insert assms(1), simp add: outcome_def all_verified_iff comp_def passed [unfolded comp_def], rule yields_prim)
qed

lemma sample_publishes:
  "yields (run_token sample_runner sample_job plain_token d (sample_block 1)) 5"
proof -
  obtain u where u: "yields (resolve_universe (cn_universes sample_runner) ''full_holders'' (sample_address 2) (number (sample_block 1))) u"
    "fu_addresses u = [sample_address 3]" "fu_sources u = [(sample_address 3, sample_labels)]"
    "assert_universe u = Inr ()" "digest_universe (fu_sources u) = Inr (fu_universe_hash u)"
    using sample_universe by blast
  obtain x b where x: "erc20_collect echo_executor sample_ext (0, 0) plain_token u (sample_block 1) FULL_SUPPLY () = (Inr x, ())"
    "tr_verified x" "tr_balances x = [direct_row (sample_address 3, 7, 0)]"
    "tr_scalars x = [scalar_row_of (''totalSupply'', 7, 0)]" "tr_batches x = [b]"
    using plain_census [OF u(2,4), of sample_ext] by blast
  from sample_hash obtain h where h: "target_config_hash (cn_read_bytes sample_runner) (cn_float_text sample_runner) (cn_catalog sample_runner)
    sample_job (TokenTarget plain_token) = Inr h" by blast
  from sample_digest obtain dg where dg: "digest_token_observations [balance_digest_row (direct_row (sample_address 3, 7, 0))]
      [Collection.scalar_digest_row (scalar_row_of (''totalSupply'', 7, 0))] = Inr dg" by blast
  let ?scope = "scope_of sample_runner sample_job (tc_address plain_token) d 5"
  from sample_checks [OF x(2), of u ?scope dg] u(3,5) obtain checks where
    checks: "yields (publication_checks sample_runner ?scope u (TokenCollected x) dg dg) checks" by auto
  have sums: "token_sums sample_job x = Inr (7, Some 7)"
    by (simp add: token_sums_def x sample_job_def direct_row_def scalar_row_of_def)
  let ?base = "attempt_base sample_runner 5 sample_job ''token'' (tc_address plain_token) d (sample_block 1) h u LEGACY_RPC_BATCH 0"
  have "yields (publish_attempt sample_runner ?base (TokenCollected x) dg u (fu_size u) (Some 7) (Some 7) checks) ()"
    unfolding publish_attempt_def insert_attempt_state_def append_publication_def Let_def sample_store
    by (rule yields_bind [OF yields_now], rule yields_bind [OF yields_insert], rule attempts_fit)
       (auto simp: verified_items_def all_columns_simps intro!: yields_bind [OF yields_uuid] yields_bind [OF yields_insert]
          publication_fits yields_prim)
  then have publish: "yields (publish_token sample_runner ?base ?scope sample_job u x) ()"
    unfolding publish_token_def sample_store
    by (intro yields_bind [of "lift_res (tr_result_digest x)" dg] yields_bind [OF yields_readback [OF yields_token_readback [OF dg]]]
        yields_bind [OF checks])
       (simp_all add: tr_result_digest_def x dg sums yields_prim UINT256_MAX_def)
  have code: "yields (verify_token_code sample_runner plain_token (sample_block 1) LEGACY_RPC_BATCH) ()"
    unfolding verify_token_code_def
    by (rule yields_bind [OF yields_code], rule yields_bind [of _ "()"])
       (simp_all add: plain_token_def discovered_token_config_def yields_prim)
  have collect: "yields (on_world (collect_token sample_runner sample_job plain_token u (sample_block 1))) x"
    using x(1) by (auto simp: collect_token_def plain_token_def discovered_token_config_def is_atoken_def sample_runner_def daily_catalog_def
        sample_job_def intro!: yields_on_world)
  have "yields (token_body sample_runner ?base 5 sample_job plain_token d (sample_block 1) u LEGACY_RPC_BATCH) ()"
    unfolding token_body_def
    using x(2) by (intro yields_bind [OF code] yields_bind [OF collect] yields_bind [OF sample_persists [OF u(2,3)]]
        yields_bind [OF sample_result_persists [OF x(3,4,5)]] publish) (simp add: all_verified_iff)
  then have attempt: "yields (run_attempt sample_runner ?base
      (token_body sample_runner ?base 5 sample_job plain_token d (sample_block 1) u LEGACY_RPC_BATCH)) ()"
    unfolding run_attempt_def insert_attempt_state_def sample_store
    by (intro yields_bind [OF yields_insert] yields_catch attempts_fit) (auto simp: all_columns_simps)
  have kind: "executor_kind_for_anchor (cn_catalog sample_runner) (sample_block 1) = LEGACY_RPC_BATCH"
    by (simp add: executor_kind_for_anchor_def sample_runner_def daily_catalog_def sample_block_def)
  have window: "check_date_window (TokenTarget plain_token) d = Inr ()"
    by (simp add: check_date_window_def target_dates_def plain_token_def discovered_token_config_def)
  have names: "jb_universe sample_job = Some ''full_holders''" "tc_address plain_token = sample_address 2"
    by (simp_all add: sample_job_def plain_token_def discovered_token_config_def)
  show ?thesis unfolding run_token_def names option.case window h Let_def kind
    by (intro yields_bind [OF yields_prim(2)] yields_bind [OF u(1)] yields_bind [OF yields_uuid] yields_bind [OF yields_now]
        yields_bind [OF attempt [unfolded names]] yields_prim)
qed

subsection \<open>The publication property\<close>



end
