(* ===== verification/Services.thy ===== *)
theory Services
  imports Events Publication
begin

text \<open>
  The discovery and sweep services (\<open>core/discovery_service.py\<close>, \<open>core/sweep_service.py\<close>): they find the
  gaps of the stored coverage, scan them with the strict scanner and persist what was found
  before the coverage markers. The scanner's RPC caller and the store are parameters.
\<close>

text \<open>
  The collaborators of the two services. \<open>dv_cause\<close> gives the class name and the text of the
  \<open>__cause__\<close> of an exception, which an exception value here does not carry.
\<close>

record 'w log_service =
  dv_chain_id :: int
  dv_rpc_call :: "'w rpc_caller"
  dv_store :: "'w client"
  dv_validate :: "string \<Rightarrow> string \<Rightarrow> int list \<Rightarrow> ('w, event_definition) io"
  dv_chunk_size :: int
  dv_result_cap :: int
  dv_cause :: "exn \<Rightarrow> (string \<times> string) option"

definition error_detail :: "'w log_service \<Rightarrow> exn \<Rightarrow> string" where
  "error_detail sv e = (case dv_cause sv e of None \<Rightarrow> exn_str e
     | Some (cls, message) \<Rightarrow> exn_str e @ '' | cause: '' @ cls @ '': '' @ message)"

definition no_fingerprint :: string where
  "no_fingerprint = replicate 64 (CHR ''0'')"

subsection \<open>Discovery of token holders\<close>

definition discovery_range_row ::
  "'w log_service \<Rightarrow> token_config \<Rightarrow> string \<Rightarrow> block_range \<Rightarrow> nat \<Rightarrow> string \<Rightarrow> int \<Rightarrow> string \<Rightarrow> nat \<Rightarrow> nat \<Rightarrow> string
   \<Rightarrow> string \<Rightarrow> string \<Rightarrow> int \<Rightarrow> int \<Rightarrow> row" where
  "discovery_range_row sv token topic0 r scan_id status anchor_block anchor_hash log_count holder_count fp
     error_class error_message started finished =
     [(''chain_id'', CInt (dv_chain_id sv)), (''token_address'', CText (tc_address token)), (''topic0'', CText topic0),
      (''range_start_block'', CInt (br_start r)), (''range_end_block_exclusive'', CInt (br_end r)),
      (''scan_id'', CUuid scan_id), (''status'', CText status), (''anchor_block'', CInt anchor_block),
      (''anchor_hash'', CText anchor_hash), (''log_count'', CInt (int log_count)),
      (''holder_count'', CInt (int holder_count)), (''attempt_count'', CInt 1),
      (''endpoint_fingerprint'', CText fp), (''error_class'', CText error_class),
      (''error_message'', CText error_message), (''started_at'', CTime started),
      (''heartbeat_at'', CTime finished), (''finished_at'', CTime finished)]"

definition logs_in :: "block_range \<Rightarrow> normalized_log list \<Rightarrow> normalized_log list" where
  "logs_in r logs = filter (\<lambda>l. br_start r \<le> lg_block_number l \<and> lg_block_number l < br_end r) logs"

definition completed_range_rows ::
  "'w log_service \<Rightarrow> token_config \<Rightarrow> string \<Rightarrow> int list \<Rightarrow> bool \<Rightarrow> nat \<Rightarrow> int \<Rightarrow> string \<Rightarrow> int \<Rightarrow> int \<Rightarrow> discovery_scan
   \<Rightarrow> row list res" where
  "completed_range_rows sv token topic0 holder_topics include_zero scan_id anchor_block anchor_hash started finished found =
     map_res (\<lambda>completed.
       bind_res (extract_holders (logs_in (cr_block_range completed) (ds_logs found)) holder_topics include_zero) (\<lambda>holders.
         Inr (discovery_range_row sv token topic0 (cr_block_range completed) scan_id ''completed'' anchor_block anchor_hash
                (cr_log_count completed) (length holders) (cr_endpoint_fingerprint completed) [] [] started finished)))
       (ds_completed_ranges found)"

text \<open>\<open>observations[holder].append(log.block_number)\<close>, in the order of the logs.\<close>

definition observations :: "normalized_log list \<Rightarrow> int list \<Rightarrow> bool \<Rightarrow> (string \<times> int) list res" where
  "observations logs holder_topics include_zero =
     bind_res (map_res (\<lambda>l. bind_res (log_holders l holder_topics include_zero) (\<lambda>hs.
                        Inr (map (\<lambda>h. (h, lg_block_number l)) hs))) logs) (\<lambda>pairs. Inr (concat pairs))"

definition holder_row :: "'w log_service \<Rightarrow> token_config \<Rightarrow> string \<Rightarrow> (string \<times> int) list \<Rightarrow> string \<Rightarrow> row" where
  "holder_row sv token event_name seen holder =
     (let blocks = map snd (filter (\<lambda>p. fst p = holder) seen) in
      [(''chain_id'', CInt (dv_chain_id sv)), (''token_address'', CText (tc_address token)),
       (''holder_address'', CText holder), (''source'', CText ''own_scan''), (''source_detail'', CText event_name),
       (''first_seen_block'', CInt (Min (set blocks))), (''last_seen_block'', CInt (Max (set blocks))),
       (''observations'', CInt (int (length blocks)))])"

definition holder_rows ::
  "'w log_service \<Rightarrow> token_config \<Rightarrow> string \<Rightarrow> int list \<Rightarrow> bool \<Rightarrow> discovery_scan \<Rightarrow> row list res" where
  "holder_rows sv token event_name holder_topics include_zero found =
     bind_res (observations (ds_logs found) holder_topics include_zero) (\<lambda>seen.
       Inr (map (holder_row sv token event_name seen) (sort (remdups (map fst seen)))))"

definition discovery_scan_gap ::
  "'w log_service \<Rightarrow> token_config \<Rightarrow> string \<Rightarrow> int list \<Rightarrow> string \<Rightarrow> block_range \<Rightarrow> int \<Rightarrow> string \<Rightarrow> bool
   \<Rightarrow> ('w session, unit) io" where
  "discovery_scan_gap sv token topic0 holder_topics event_name gap anchor_block anchor_hash include_zero =
     bind_io (on_world (db_uuid4 (dv_store sv))) (\<lambda>scan_id.
     bind_io (on_world (db_now (dv_store sv))) (\<lambda>started.
     bind_io (catch_io
       (on_world (scan (dv_rpc_call sv) (dv_chunk_size sv) (dv_result_cap sv) (tc_address token) topic0
                    (br_start gap) (br_end gap)))
       (\<lambda>e. bind_io (on_world (db_now (dv_store sv))) (\<lambda>failed_at.
            bind_io (insert_discovery_ranges (dv_store sv)
              [discovery_range_row sv token topic0 gap scan_id ''failed'' anchor_block anchor_hash 0 0 no_fingerprint
                 (exn_name (exn_class_of e)) (take 4096 (error_detail sv e)) started failed_at]) (\<lambda>_. raise e)))) (\<lambda>found.
     bind_io (on_world (db_now (dv_store sv))) (\<lambda>finished.
     bind_io (lift_res (completed_range_rows sv token topic0 holder_topics include_zero scan_id anchor_block anchor_hash
                          started finished found)) (\<lambda>range_rows.
     bind_io (lift_res (holder_rows sv token event_name holder_topics include_zero found)) (\<lambda>rows.
     bind_io (if rows = [] then ret 0 else insert_holder_observations (dv_store sv) rows) (\<lambda>_.
     bind_io (insert_discovery_ranges (dv_store sv) range_rows) (\<lambda>_.
       ret ()))))))))"

definition event_advance ::
  "'w log_service \<Rightarrow> token_config \<Rightarrow> int \<Rightarrow> string \<Rightarrow> block_range \<Rightarrow> event_config \<Rightarrow> ('w session, unit) io" where
  "event_advance sv token anchor_block anchor_hash required event_config =
     bind_io (on_world (dv_validate sv (ev_abi event_config) (ev_event event_config) (ev_holder_topics event_config))) (\<lambda>e.
     bind_io (completed_discovery_ranges (dv_store sv) (dv_chain_id sv) (tc_address token) (ed_topic0 e)) (\<lambda>pairs.
     bind_io (lift_res (map_res (\<lambda>(a, b). mk_block_range a b) pairs)) (\<lambda>completed.
     bind_io (map_io (\<lambda>gap. discovery_scan_gap sv token (ed_topic0 e) (ev_holder_topics event_config) (ev_event event_config)
                             gap anchor_block anchor_hash (tc_zero_address_role token = HOLDER))
                (coverage_gaps required completed)) (\<lambda>_. ret ()))))"

definition discovery_advance :: "'w log_service \<Rightarrow> token_config \<Rightarrow> int \<Rightarrow> string \<Rightarrow> ('w session, unit) io" where
  "discovery_advance sv token anchor_block anchor_hash =
     bind_io (lift_res (mk_block_range (tc_deployment_block token) (anchor_block + 1))) (\<lambda>required.
     bind_io (map_io (event_advance sv token anchor_block anchor_hash required) (tc_discovery_events token)) (\<lambda>_. ret ()))"

subsection \<open>Wallet sweeps\<close>

definition wallet_topic :: "string \<Rightarrow> string" where
  "wallet_topic address = ''0x'' @ replicate 24 (CHR ''0'') @ drop 2 address"

text \<open>The generator cuts a range like the scanner cuts its first chunks.\<close>

definition scan_windows :: "block_range \<Rightarrow> int \<Rightarrow> block_range list res" where
  "scan_windows r width =
     (if width < 1 then raise_res ValueError ''checkpoint window must be positive''
      else Inr (chunk_ranges width (br_start r) (br_end r)))"

definition sweep_range_row ::
  "'w log_service \<Rightarrow> string \<Rightarrow> int \<Rightarrow> block_range \<Rightarrow> nat \<Rightarrow> string \<Rightarrow> int \<Rightarrow> string \<Rightarrow> nat \<Rightarrow> string
   \<Rightarrow> string \<Rightarrow> string \<Rightarrow> int \<Rightarrow> int \<Rightarrow> row" where
  "sweep_range_row sv wallet position r scan_id status anchor_block anchor_hash log_count fp
     error_class error_message started finished =
     [(''chain_id'', CInt (dv_chain_id sv)), (''wallet_address'', CText wallet), (''topic_position'', CInt position),
      (''range_start_block'', CInt (br_start r)), (''range_end_block_exclusive'', CInt (br_end r)),
      (''scan_id'', CUuid scan_id), (''status'', CText status), (''anchor_block'', CInt anchor_block),
      (''anchor_hash'', CText anchor_hash), (''log_count'', CInt (int log_count)), (''attempt_count'', CInt 1),
      (''endpoint_fingerprint'', CText fp), (''error_class'', CText error_class),
      (''error_message'', CText error_message), (''started_at'', CTime started),
      (''heartbeat_at'', CTime finished), (''finished_at'', CTime finished)]"

text \<open>\<open>{wallet_topic(wallet): wallet for wallet in wallets}\<close>\<close>

definition wallet_by_topic :: "string list \<Rightarrow> (string \<times> string) list" where
  "wallet_by_topic wallets = fold (\<lambda>w. AList.update (wallet_topic w) w) wallets []"

definition sweep_filter :: "int \<Rightarrow> string list \<Rightarrow> log_filter res" where
  "sweep_filter position wallets =
     mk_log_filter None (replicate (nat position) None @ [Some (sort (map fst (wallet_by_topic wallets)))])"

text \<open>The wallet a log belongs to.\<close>

definition log_wallet :: "int \<Rightarrow> string list \<Rightarrow> normalized_log \<Rightarrow> string res" where
  "log_wallet position wallets entry =
     bind_res (py_index (lg_topics entry) position) (\<lambda>topic.
       case map_of (wallet_by_topic wallets) topic of
         None \<Rightarrow> raise_res DiscoveryResponseError ''sweep entry topic does not match a requested wallet''
       | Some wallet \<Rightarrow> Inr wallet)"

definition log_row :: "'w log_service \<Rightarrow> int \<Rightarrow> int \<Rightarrow> string \<Rightarrow> normalized_log \<Rightarrow> row" where
  "log_row sv position finished wallet entry =
     [(''chain_id'', CInt (dv_chain_id sv)), (''wallet_address'', CText wallet), (''topic_position'', CInt position),
      (''contract_address'', CText (lg_address entry)), (''topic0'', CText (lg_topic0 entry)),
      (''topic_count'', CInt (int (length (lg_topics entry)))), (''block_number'', CInt (lg_block_number entry)),
      (''block_hash'', CText (lg_block_hash entry)), (''transaction_hash'', CText (lg_transaction_hash entry)),
      (''log_index'', CInt (lg_log_index entry)), (''topics'', CTexts (lg_topics entry)), (''observed_at'', CTime finished)]"

text \<open>The completed rows: one per range and wallet, with the number of its logs.\<close>

definition sweep_rows ::
  "'w log_service \<Rightarrow> int \<Rightarrow> string list \<Rightarrow> nat \<Rightarrow> int \<Rightarrow> string \<Rightarrow> int \<Rightarrow> int \<Rightarrow> discovery_scan \<Rightarrow> string list \<Rightarrow> row list" where
  "sweep_rows sv position wallets scan_id anchor_block anchor_hash started finished found owners =
     concat (map (\<lambda>completed. map (\<lambda>wallet.
       sweep_range_row sv wallet position (cr_block_range completed) scan_id ''completed'' anchor_block anchor_hash
         (length (filter (\<lambda>(owner, entry). owner = wallet \<and> br_start (cr_block_range completed) \<le> lg_block_number entry
                    \<and> lg_block_number entry < br_end (cr_block_range completed)) (zip owners (ds_logs found))))
         (cr_endpoint_fingerprint completed) [] [] started finished) wallets) (ds_completed_ranges found))"

definition sweep_scan_gap ::
  "'w log_service \<Rightarrow> int \<Rightarrow> string list \<Rightarrow> block_range \<Rightarrow> int \<Rightarrow> string \<Rightarrow> ('w session, nat) io" where
  "sweep_scan_gap sv position wallets gap anchor_block anchor_hash =
     bind_io (on_world (db_uuid4 (dv_store sv))) (\<lambda>scan_id.
     bind_io (on_world (db_now (dv_store sv))) (\<lambda>started.
     bind_io (lift_res (sweep_filter position wallets)) (\<lambda>f.
     bind_io (catch_io
       (on_world (scan_filter (dv_rpc_call sv) (dv_chunk_size sv) (dv_result_cap sv) f (br_start gap) (br_end gap)))
       (\<lambda>e. bind_io (on_world (db_now (dv_store sv))) (\<lambda>failed_at.
            bind_io (insert_sweep_ranges (dv_store sv)
              (map (\<lambda>wallet. sweep_range_row sv wallet position gap scan_id ''failed'' anchor_block anchor_hash 0 no_fingerprint
                 (exn_name (exn_class_of e)) (take 4096 (error_detail sv e)) started failed_at) wallets)) (\<lambda>_. raise e)))) (\<lambda>found.
     bind_io (on_world (db_now (dv_store sv))) (\<lambda>finished.
     bind_io (lift_res (map_res (log_wallet position wallets) (ds_logs found))) (\<lambda>owners.
     let log_rows = map (\<lambda>(owner, entry). log_row sv position finished owner entry) (zip owners (ds_logs found)) in
     bind_io (if log_rows = [] then ret 0 else insert_wallet_interaction_logs (dv_store sv) log_rows) (\<lambda>_.
     bind_io (insert_sweep_ranges (dv_store sv)
       (sweep_rows sv position wallets scan_id anchor_block anchor_hash started finished found owners)) (\<lambda>_.
       ret (length log_rows)))))))))"

text \<open>\<open>gap_groups\<close>: the wallets of one position by their gaps, wallets without a gap left out.\<close>

fun group_by_gaps :: "(block_range list \<times> string) list \<Rightarrow> (block_range list \<times> string list) list \<Rightarrow> (block_range list \<times> string list) list" where
  "group_by_gaps [] d = d"
| "group_by_gaps ((gaps, wallet) # rest) d =
     group_by_gaps rest (if gaps = [] then d else AList.update gaps (dict_get d gaps @ [wallet]) d)"

definition wallet_gaps :: "'w log_service \<Rightarrow> int \<Rightarrow> block_range \<Rightarrow> string \<Rightarrow> ('w session, block_range list \<times> string) io" where
  "wallet_gaps sv position required wallet =
     bind_io (completed_sweep_ranges (dv_store sv) (dv_chain_id sv) wallet position) (\<lambda>pairs.
     bind_io (lift_res (map_res (\<lambda>(a, b). mk_block_range a b) pairs)) (\<lambda>completed.
       ret (coverage_gaps required completed, wallet)))"

definition group_advance ::
  "'w log_service \<Rightarrow> sweep_config \<Rightarrow> int \<Rightarrow> int \<Rightarrow> string \<Rightarrow> block_range list \<times> string list \<Rightarrow> ('w session, unit) io" where
  "group_advance sv sweep position anchor_block anchor_hash g =
     bind_io (lift_res (map_res (\<lambda>gap. scan_windows gap (sw_checkpoint_blocks sweep)) (fst g))) (\<lambda>windows.
     bind_io (map_io (\<lambda>window. sweep_scan_gap sv position (snd g) window anchor_block anchor_hash) (concat windows)) (\<lambda>_. ret ()))"

definition position_advance ::
  "'w log_service \<Rightarrow> sweep_config \<Rightarrow> string list \<Rightarrow> int \<Rightarrow> string \<Rightarrow> block_range \<Rightarrow> int \<Rightarrow> ('w session, unit) io" where
  "position_advance sv sweep wallets anchor_block anchor_hash required position =
     bind_io (map_io (wallet_gaps sv position required) (sort (remdups wallets))) (\<lambda>found.
     bind_io (map_io (group_advance sv sweep position anchor_block anchor_hash) (sort_key fst (group_by_gaps found []))) (\<lambda>_.
       ret ()))"

definition sweep_advance ::
  "'w log_service \<Rightarrow> sweep_config \<Rightarrow> string list \<Rightarrow> int \<Rightarrow> string \<Rightarrow> ('w session, unit) io" where
  "sweep_advance sv sweep wallets anchor_block anchor_hash =
     (if wallets = [] then raise (Exn ValueError (''sweep '' @ sw_name sweep @ '' resolved an empty wallet universe''))
      else bind_io (lift_res (mk_block_range (sw_start_block sweep) (anchor_block + 1))) (\<lambda>required.
           bind_io (map_io (position_advance sv sweep wallets anchor_block anchor_hash required) (sort (sw_topic_positions sweep))) (\<lambda>_.
             ret ())))"

subsection \<open>Lemmas: evidence before coverage\<close>

definition completed_row :: "row \<Rightarrow> bool" where
  "completed_row row \<longleftrightarrow> map_of row ''status'' = Some (CText ''completed'')"

text \<open>
  \<open>backed table evidence S l\<close>: every completed row that \<open>l\<close> writes to \<open>table\<close> is supported, in the
  sense of \<open>S\<close>, by rows that \<open>l\<close> wrote to \<open>evidence\<close> before it.
\<close>

definition backed :: "string \<Rightarrow> string \<Rightarrow> (row set \<Rightarrow> row \<Rightarrow> bool) \<Rightarrow> insertion list \<Rightarrow> bool" where
  "backed table evidence S l \<longleftrightarrow>
     (\<forall>pre rows post. l = pre @ [(table, rows)] @ post \<longrightarrow>
        (\<forall>row \<in> set rows. completed_row row \<longrightarrow> S (set (rows_of evidence pre)) row))"

definition monotone_support :: "(row set \<Rightarrow> row \<Rightarrow> bool) \<Rightarrow> bool" where
  "monotone_support S \<longleftrightarrow> (\<forall>A B row. A \<subseteq> B \<longrightarrow> S A row \<longrightarrow> S B row)"

lemma backed_Nil [simp]: "backed table evidence S []"
  by (simp add: backed_def)

lemma backed_append:
  assumes "monotone_support S" and "backed table evidence S k" and "backed table evidence S l"
  shows "backed table evidence S (k @ l)"
  unfolding backed_def
proof (intro allI impI ballI)
  fix pre rows post row
  assume e: "k @ l = pre @ [(table, rows)] @ post" and row: "row \<in> set rows" "completed_row row"
  from e consider us where "k = pre @ (table, rows) # us" | m where "pre = k @ m" "l = m @ [(table, rows)] @ post"
    by (auto simp: append_eq_append_conv2 Cons_eq_append_conv append_eq_Cons_conv)
  then show "S (set (rows_of evidence pre)) row"
  proof cases
    case 1
    then have "k = pre @ [(table, rows)] @ us" by simp
    with assms(2) row show ?thesis unfolding backed_def by blast
  next
    case 2
    from assms(3) row 2(2) have "S (set (rows_of evidence m)) row" unfolding backed_def by blast
    with assms(1) 2(1) show ?thesis unfolding monotone_support_def by (metis Un_upper2 rows_of_simps(2) set_append)
  qed
qed

lemma backed_other: "list_all (\<lambda>i. fst i \<noteq> table \<or> list_all (Not \<circ> completed_row) (snd i)) l \<Longrightarrow> backed table evidence S l"
  by (auto simp: backed_def list_all_iff)

text \<open>The blocks a journal marks as covered.\<close>

definition marked :: "string \<Rightarrow> (row \<Rightarrow> bool) \<Rightarrow> insertion list \<Rightarrow> int set" where
  "marked table key l = {b. \<exists>row \<in> set (rows_of table l). completed_row row \<and> key row
     \<and> (\<exists>x y. map_of row ''range_start_block'' = Some (CInt x) \<and> map_of row ''range_end_block_exclusive'' = Some (CInt y)
          \<and> x \<le> b \<and> b < y)}"

lemma marked_append [simp]: "marked table key (k @ l) = marked table key k \<union> marked table key l"
  by (auto simp: marked_def)

lemma journals_map_io:
  assumes step: "\<And>x. x \<in> set xs \<Longrightarrow> journals (f x) (\<lambda>l res. B l \<and> (\<forall>y. res = Inr y \<longrightarrow> G x l))"
    and B: "B []" "\<And>k l. B k \<Longrightarrow> B l \<Longrightarrow> B (k @ l)"
    and G: "\<And>x k l m. G x l \<Longrightarrow> G x (k @ l @ m)"
  shows "journals (map_io f xs) (\<lambda>l res. B l \<and> (\<forall>ys. res = Inr ys \<longrightarrow> (\<forall>x \<in> set xs. G x l)))"
  using step
proof (induction xs)
  case Nil
  then show ?case using B(1) by (auto simp: journals_def ret_def)
next
  case (Cons x xs)
  show ?case
  proof (rule journalsI)
    fix s res s' assume run: "map_io f (x # xs) s = (res, s')"
    obtain r1 s1 where m: "f x s = (r1, s1)" by fastforce
    from journalsD [OF Cons.prems m] obtain l where l: "ss_journal s1 = ss_journal s @ l" "B l" "\<forall>y. r1 = Inr y \<longrightarrow> G x l" by auto
    show "\<exists>l. ss_journal s' = ss_journal s @ l \<and> B l \<and> (\<forall>ys. res = Inr ys \<longrightarrow> (\<forall>x \<in> set (x # xs). G x l))"
    proof (cases r1)
      case (Inl e)
      with run m have "res = Inl e" "s' = s1" by (simp_all add: bind_io_def)
      with l show ?thesis by auto
    next
      case (Inr y)
      obtain r2 s2 where m2: "map_io f xs s1 = (r2, s2)" by fastforce
      with run m Inr have r: "s' = s2" "\<And>ys. res = Inr ys \<Longrightarrow> \<exists>zs. r2 = Inr zs"
        by (auto simp: bind_io_def ret_def split: sum.splits)
      from journalsD [OF Cons.IH m2] Cons.prems obtain k where k: "ss_journal s2 = ss_journal s1 @ k" "B k"
        "\<forall>ys. r2 = Inr ys \<longrightarrow> (\<forall>x \<in> set xs. G x k)" by auto
      have "G x (l @ k)" using l(3) Inr G [of x l "[]" k] by simp
      moreover have "\<forall>x \<in> set xs. G x (l @ k)" if "r2 = Inr zs" for zs using k(3) that G [of _ k l "[]"] by auto
      ultimately show ?thesis using l k B(2) r by (intro exI [of _ "l @ k"]) auto
    qed
  qed
qed

subsection \<open>Lemmas: discovery\<close>

text \<open>A stored observation of a holder that contains a block.\<close>

definition observes :: "token_config \<Rightarrow> string \<Rightarrow> int \<Rightarrow> row \<Rightarrow> bool" where
  "observes token holder b row \<longleftrightarrow>
     carries row [(''token_address'', CText (tc_address token)), (''holder_address'', CText holder)]
     \<and> (\<exists>x y. map_of row ''first_seen_block'' = Some (CInt x) \<and> map_of row ''last_seen_block'' = Some (CInt y) \<and> x \<le> b \<and> b \<le> y)"

text \<open>The marker of a completed range.\<close>

definition marker_cells :: "token_config \<Rightarrow> string \<Rightarrow> completed_range \<Rightarrow> row" where
  "marker_cells token topic0 c =
     [(''token_address'', CText (tc_address token)), (''topic0'', CText topic0),
      (''range_start_block'', CInt (br_start (cr_block_range c))),
      (''range_end_block_exclusive'', CInt (br_end (cr_block_range c))),
      (''endpoint_fingerprint'', CText (cr_endpoint_fingerprint c))]"

definition discovery_support :: "'w log_service \<Rightarrow> token_config \<Rightarrow> row set \<Rightarrow> row \<Rightarrow> bool" where
  "discovery_support sv token H row \<longleftrightarrow>
     (\<exists>ev \<in> set (tc_discovery_events token). \<exists>topic0 a b w found w' c.
        scan (dv_rpc_call sv) (dv_chunk_size sv) (dv_result_cap sv) (tc_address token) topic0 a b w = (Inr found, w')
        \<and> c \<in> set (ds_completed_ranges found)
        \<and> carries row (marker_cells token topic0 c)
        \<and> (\<forall>entry \<in> set (ds_logs found). \<exists>holders.
             log_holders entry (ev_holder_topics ev) (tc_zero_address_role token = HOLDER) = Inr holders
             \<and> (\<forall>h \<in> set holders. \<exists>o1 \<in> H. observes token h (lg_block_number entry) o1)))"

lemma discovery_support_mono: "monotone_support (discovery_support sv token)"
  unfolding monotone_support_def discovery_support_def by (meson subsetD)

lemma observations_Inr:
  assumes "observations logs topics iz = Inr seen" and "entry \<in> set logs"
  shows "\<exists>holders. log_holders entry topics iz = Inr holders \<and> (\<forall>h \<in> set holders. (h, lg_block_number entry) \<in> set seen)"
proof -
  let ?f = "\<lambda>l. bind_res (log_holders l topics iz) (\<lambda>hs. Inr (map (\<lambda>h. (h, lg_block_number l)) hs))"
  from assms(1) obtain pairs where p: "map_res ?f logs = Inr pairs" "seen = concat pairs"
    by (auto simp: observations_def bind_res_Inr)
  then have "list_all2 (\<lambda>x y. ?f x = Inr y) logs pairs" by (simp add: map_res_Inr)
  with assms(2) obtain y where y: "y \<in> set pairs" "?f entry = Inr y"
    by (auto dest!: list_all2_witness)
  from y(2) obtain holders where "log_holders entry topics iz = Inr holders" "y = map (\<lambda>h. (h, lg_block_number entry)) holders"
    by (auto simp: bind_res_Inr)
  with y(1) p(2) show ?thesis by (intro exI [of _ holders]) force
qed

lemma holder_row_observes:
  assumes "(h, b) \<in> set seen"
  shows "observes token h b (holder_row sv token event_name seen h)"
proof -
  have "b \<in> set (map snd (filter (\<lambda>p. fst p = h) seen))" using assms by force
  then show ?thesis by (simp add: observes_def holder_row_def Let_def carries_def)
qed

lemma holder_rows_observe:
  assumes "holder_rows sv token event_name topics iz found = Inr rows" and "entry \<in> set (ds_logs found)"
  shows "\<exists>holders. log_holders entry topics iz = Inr holders
    \<and> (\<forall>h \<in> set holders. \<exists>o1 \<in> set rows. observes token h (lg_block_number entry) o1)"
proof -
  from assms(1) obtain seen where s: "observations (ds_logs found) topics iz = Inr seen"
    "rows = map (holder_row sv token event_name seen) (sort (remdups (map fst seen)))"
    by (auto simp: holder_rows_def bind_res_Inr)
  from observations_Inr [OF s(1) assms(2)] obtain holders where h: "log_holders entry topics iz = Inr holders"
    "\<forall>h \<in> set holders. (h, lg_block_number entry) \<in> set seen" by blast
  have "\<exists>o1 \<in> set rows. observes token x (lg_block_number entry) o1" if "x \<in> set holders" for x
  proof -
    from h(2) that have x: "(x, lg_block_number entry) \<in> set seen" by blast
    then have "holder_row sv token event_name seen x \<in> set rows" unfolding s(2) by force
    with holder_row_observes [OF x] show ?thesis by blast
  qed
  with h(1) show ?thesis by blast
qed

text \<open>What one gap writes: nothing that claims coverage, or the evidence and then the markers.\<close>

definition evidence_first :: "string \<Rightarrow> row list \<Rightarrow> string \<Rightarrow> row list \<Rightarrow> insertion list" where
  "evidence_first evidence rows table markers = (if rows = [] then [] else [(evidence, rows)]) @ [(table, markers)]"

definition no_marker :: "string \<Rightarrow> insertion list \<Rightarrow> bool" where
  "no_marker table l \<longleftrightarrow> list_all (\<lambda>i. fst i \<noteq> table \<or> list_all (Not \<circ> completed_row) (snd i)) l"

definition gap_outcome :: "string \<Rightarrow> (insertion list \<Rightarrow> bool) \<Rightarrow> insertion list \<Rightarrow> 'a res \<Rightarrow> bool" where
  "gap_outcome table W l res \<longleftrightarrow> no_marker table l \<and> (\<exists>e. res = Inl e) \<or> W l"

text \<open>The tail the two services share: insert the evidence, then the markers.\<close>

lemma insert_rows_journals: "journals (insert_rows db table rows token)
    (\<lambda>l res. (l = [] \<and> (rows = [] \<or> (\<exists>e. res = Inl e))) \<or> l = [(table, rows)])"
  by (auto simp: journals_def dest!: insert_rows_journal)

lemma evidence_then_markers:
  assumes "evidence \<noteq> table" and "markers \<noteq> []"
  shows "journals (bind_io (if rows = [] then ret 0 else insert_rows db evidence rows None) (\<lambda>_.
           bind_io (insert_rows db table markers None) (\<lambda>_. ret x)))
    (gap_outcome table (\<lambda>l. l = evidence_first evidence rows table markers))"
proof (rule journals_bind [where P = "\<lambda>i. i = (evidence, rows)"], goal_cases)
  case 1
  show ?case by (auto intro!: writes_intros)
next
  case (2 l e)
  with assms show ?case by (auto simp: gap_outcome_def no_marker_def list_all_iff)
next
  case (3 y s s1 l)
  from 3(1,2) have l: "l = (if rows = [] then [] else [(evidence, rows)])"
    by (auto simp: ret_def dest: insert_rows_Inr split: if_splits)
  show ?case
    by (rule journals_map [OF insert_rows_journals])
       (use assms in \<open>auto simp: l gap_outcome_def evidence_first_def no_marker_def\<close>)
qed

lemma map_res_back: "map_res f xs = Inr ys \<Longrightarrow> y \<in> set ys \<Longrightarrow> \<exists>x \<in> set xs. f x = Inr y"
  by (induction xs arbitrary: ys) (auto simp: bind_res_Inr)

lemma map_res_forth: "map_res f xs = Inr ys \<Longrightarrow> x \<in> set xs \<Longrightarrow> \<exists>y \<in> set ys. f x = Inr y"
  by (induction xs arbitrary: ys) (auto simp: bind_res_Inr)

lemma marker_row:
  "completed_row (discovery_range_row sv token topic0 (cr_block_range c) i ''completed'' ab ah n h (cr_endpoint_fingerprint c) ec em st fin)
   \<and> carries (discovery_range_row sv token topic0 (cr_block_range c) i ''completed'' ab ah n h (cr_endpoint_fingerprint c) ec em st fin)
       (marker_cells token topic0 c)"
  by (simp add: completed_row_def discovery_range_row_def carries_def marker_cells_def)

lemma completed_range_rows_Inr:
  assumes "completed_range_rows sv token topic0 topics iz i ab ah started finished found = Inr rows"
  shows "row \<in> set rows \<Longrightarrow> \<exists>c \<in> set (ds_completed_ranges found). carries row (marker_cells token topic0 c)"
    and "c \<in> set (ds_completed_ranges found) \<Longrightarrow> \<exists>row \<in> set rows. completed_row row \<and> carries row (marker_cells token topic0 c)"
proof -
  note m = assms [unfolded completed_range_rows_def]
  show "\<exists>c \<in> set (ds_completed_ranges found). carries row (marker_cells token topic0 c)" if "row \<in> set rows"
    using map_res_back [OF m that] marker_row by (fastforce simp: bind_res_Inr)
  show "\<exists>row \<in> set rows. completed_row row \<and> carries row (marker_cells token topic0 c)" if "c \<in> set (ds_completed_ranges found)"
    using map_res_forth [OF m that] marker_row by (fastforce simp: bind_res_Inr)
qed

lemma scan_tiles:
  assumes "0 < n" and "scan rpc_call n cap address topic0 a b w = (Inr found, w')"
  shows "tiles a b (map cr_block_range (ds_completed_ranges found)) \<and> a < b"
proof -
  from assms(2) obtain f s where "scan_filter rpc_call n cap f a b s = (Inr found, w')"
    by (auto simp: scan_def bind_io_Inr split: if_splits)
  from scan_filter_spec [OF assms(1) this] show ?thesis by (auto simp: valid_range_def)
qed

definition discovery_step ::
  "'w log_service \<Rightarrow> token_config \<Rightarrow> string \<Rightarrow> event_config \<Rightarrow> block_range \<Rightarrow> insertion list \<Rightarrow> bool" where
  "discovery_step sv token topic0 ev gap l \<longleftrightarrow>
     (\<exists>found w w' i ab ah started finished markers rows.
        scan (dv_rpc_call sv) (dv_chunk_size sv) (dv_result_cap sv) (tc_address token) topic0 (br_start gap) (br_end gap) w = (Inr found, w')
        \<and> completed_range_rows sv token topic0 (ev_holder_topics ev) (tc_zero_address_role token = HOLDER) i ab ah started finished found
            = Inr markers
        \<and> holder_rows sv token (ev_event ev) (ev_holder_topics ev) (tc_zero_address_role token = HOLDER) found = Inr rows
        \<and> l = evidence_first ''holder_universe'' rows ''discovery_ranges'' markers)"

lemma failed_discovery_row: "\<not> completed_row (discovery_range_row sv token topic0 r i ''failed'' ab ah x y fp ec em st fin)"
  by (simp add: completed_row_def discovery_range_row_def)

lemma catch_failure:
  assumes "\<And>e. journals (h e) (\<lambda>l res. no_marker table l \<and> (\<exists>e. res = Inl e))"
  shows "journals (catch_io (on_world m) h) (\<lambda>l res. (l = [] \<and> (\<exists>x. res = Inr x)) \<or> (no_marker table l \<and> (\<exists>e. res = Inl e)))"
proof (rule journals_catch [where ?R1.0 = "\<lambda>l res. l = []"])
  show "journals (on_world m) (\<lambda>l res. l = [])"
    by (auto simp: journals_def on_world_def split: prod.split_asm)
qed (auto intro: journals_mono [OF assms])

lemma journals_bind_spec:
  assumes "journals m R1" and "\<And>l e. R1 l (Inl e) \<Longrightarrow> R l (Inl e)"
    and "\<And>x s s1 l. m s = (Inr x, s1) \<Longrightarrow> R1 l (Inr x) \<Longrightarrow> journals (f x) (\<lambda>k. R (l @ k))"
  shows "journals (bind_io m f) R"
proof (rule journalsI)
  fix s res s' assume b: "bind_io m f s = (res, s')"
  obtain r1 s1 where m: "m s = (r1, s1)" by fastforce
  from journalsD [OF assms(1) m] obtain l where l: "ss_journal s1 = ss_journal s @ l" "R1 l r1" by blast
  show "\<exists>l. ss_journal s' = ss_journal s @ l \<and> R l res"
  proof (cases r1)
    case (Inl e)
    with b m have "res = Inl e" "s' = s1" by (simp_all add: bind_io_def)
    with l Inl assms(2) show ?thesis by auto
  next
    case (Inr x)
    with b m have "f x s1 = (res, s')" by (simp add: bind_io_def)
    moreover have "journals (f x) (\<lambda>k. R (l @ k))" using assms(3) m Inr l by blast
    ultimately show ?thesis using l by (auto dest: journalsD)
  qed
qed

lemma catch_returns:
  assumes "catch_io (on_world m) h s = (Inr x, s')" and "\<And>e. journals (h e) (\<lambda>l res. no_marker table l \<and> (\<exists>e. res = Inl e))"
  shows "\<exists>w w'. m w = (Inr x, w')"
proof -
  obtain r1 s1 where m: "on_world m s = (r1, s1)" by fastforce
  show ?thesis
  proof (cases r1)
    case (Inl e)
    with assms(1) m have "h e s1 = (Inr x, s')" by (simp add: catch_io_def)
    from journalsD [OF assms(2) this] show ?thesis by auto
  next
    case (Inr y)
    with assms(1) m have "y = x" by (simp add: catch_io_def)
    with m Inr show ?thesis by (auto dest: on_world_Inr)
  qed
qed

lemma discovery_scan_gap_journals:
  assumes "0 < dv_chunk_size sv"
  shows "journals (discovery_scan_gap sv token topic0 (ev_holder_topics ev) (ev_event ev) gap ab ah (tc_zero_address_role token = HOLDER))
    (gap_outcome ''discovery_ranges'' (discovery_step sv token topic0 ev gap))"
  unfolding discovery_scan_gap_def insert_discovery_ranges_def insert_holder_observations_def
proof (rule journals_silent, goal_cases)
  case (3 i s s1)
  show ?case
  proof (rule journals_silent, goal_cases)
    case (3 started s s1)
    let ?h = "\<lambda>e. bind_io (on_world (db_now (dv_store sv))) (\<lambda>failed_at.
            bind_io (insert_rows (dv_store sv) ''discovery_ranges''
              [discovery_range_row sv token topic0 gap i ''failed'' ab ah 0 0 no_fingerprint
                 (exn_name (exn_class_of e)) (take 4096 (error_detail sv e)) started failed_at] None) (\<lambda>_. raise e))"
    have h: "journals (?h e) (\<lambda>l res. no_marker ''discovery_ranges'' l \<and> (\<exists>e. res = Inl e))" for e
    proof (rule journals_silent, goal_cases)
      case (3 t s s1)
      show ?case
        by (rule journals_bind_spec [OF insert_rows_journals])
           (auto simp: no_marker_def failed_discovery_row intro!: journals_raise)
    qed (auto simp: no_marker_def intro: writes_intros)
    show ?case
    proof (rule journals_bind_spec [OF catch_failure [OF h]], goal_cases)
      case (1 l e)
      then show ?case by (simp add: gap_outcome_def)
    next
      case (2 found s s1 l)
      from catch_returns [OF 2(1) h] obtain w w' where found:
        "scan (dv_rpc_call sv) (dv_chunk_size sv) (dv_result_cap sv) (tc_address token) topic0 (br_start gap) (br_end gap) w = (Inr found, w')"
        by blast
      have l: "l = []" using 2(2) by simp
      show ?case unfolding l append_Nil
      proof (rule journals_silent, goal_cases)
        case (3 finished s s1)
        show ?case
        proof (rule journals_silent, goal_cases)
          case (3 markers s s1)
          then have m: "completed_range_rows sv token topic0 (ev_holder_topics ev) (tc_zero_address_role token = HOLDER) i ab ah
              started finished found = Inr markers" by (simp add: lift_res_Inr)
          show ?case
          proof (rule journals_silent, goal_cases)
            case (3 rows s s1)
            then have r: "holder_rows sv token (ev_event ev) (ev_holder_topics ev) (tc_zero_address_role token = HOLDER) found = Inr rows"
              by (simp add: lift_res_Inr)
            have "ds_completed_ranges found \<noteq> []" using scan_tiles [OF assms found] by auto
            then have "markers \<noteq> []"
              using completed_range_rows_Inr(2) [OF m, of "hd (ds_completed_ranges found)"] by auto
            moreover have "discovery_step sv token topic0 ev gap (evidence_first ''holder_universe'' rows ''discovery_ranges'' markers)"
              unfolding discovery_step_def using found m r by blast
            ultimately show ?case
              by (intro journals_mono [OF evidence_then_markers]) (auto simp: gap_outcome_def)
          qed (auto simp: gap_outcome_def no_marker_def intro: writes_intros)
        qed (auto simp: gap_outcome_def no_marker_def intro: writes_intros)
      qed (auto simp: gap_outcome_def no_marker_def intro: writes_intros)
    qed
  qed (auto simp: gap_outcome_def no_marker_def intro: writes_intros)
qed (auto simp: gap_outcome_def no_marker_def intro: writes_intros)

lemma backed_evidence_first:
  assumes "evidence \<noteq> table" and "\<And>row. row \<in> set markers \<Longrightarrow> S (set rows) row"
  shows "backed table evidence S (evidence_first evidence rows table markers)"
  unfolding backed_def
proof (intro allI impI ballI)
  fix pre ms post row
  assume e: "evidence_first evidence rows table markers = pre @ [(table, ms)] @ post" and row: "row \<in> set ms"
  from e assms(1) have "ms = markers \<and> rows_of evidence pre = rows"
    by (auto simp: evidence_first_def Cons_eq_append_conv append_eq_Cons_conv split: if_splits)
  with assms(2) row show "S (set (rows_of evidence pre)) row" by simp
qed

abbreviation topic_row :: "string \<Rightarrow> row \<Rightarrow> bool" where
  "topic_row topic0 row \<equiv> map_of row ''topic0'' = Some (CText topic0)"

lemma discovery_step_spec:
  assumes "0 < dv_chunk_size sv" and "ev \<in> set (tc_discovery_events token)" and "discovery_step sv token topic0 ev gap l"
  shows "backed ''discovery_ranges'' ''holder_universe'' (discovery_support sv token) l
    \<and> blocks_of gap \<subseteq> marked ''discovery_ranges'' (topic_row topic0) l"
proof -
  from assms(3) obtain found w w' i ab ah started finished markers rows where
    found: "scan (dv_rpc_call sv) (dv_chunk_size sv) (dv_result_cap sv) (tc_address token) topic0 (br_start gap) (br_end gap) w = (Inr found, w')"
    and m: "completed_range_rows sv token topic0 (ev_holder_topics ev) (tc_zero_address_role token = HOLDER) i ab ah started finished found
            = Inr markers"
    and r: "holder_rows sv token (ev_event ev) (ev_holder_topics ev) (tc_zero_address_role token = HOLDER) found = Inr rows"
    and l: "l = evidence_first ''holder_universe'' rows ''discovery_ranges'' markers"
    unfolding discovery_step_def by blast
  have "backed ''discovery_ranges'' ''holder_universe'' (discovery_support sv token) l"
    unfolding l
  proof (rule backed_evidence_first)
    fix row assume "row \<in> set markers"
    from completed_range_rows_Inr(1) [OF m this] obtain c where "c \<in> set (ds_completed_ranges found)" "carries row (marker_cells token topic0 c)"
      by blast
    with found assms(2) holder_rows_observe [OF r] show "discovery_support sv token (set rows) row"
      unfolding discovery_support_def by blast
  qed simp
  moreover have "b \<in> marked ''discovery_ranges'' (topic_row topic0) l" if "b \<in> blocks_of gap" for b
  proof -
    from scan_tiles [OF assms(1) found] tiles_blocks [of "br_start gap" "br_end gap"] that
    have "b \<in> blocks (map cr_block_range (ds_completed_ranges found))" by (auto simp: blocks_of_def)
    then obtain c where c: "c \<in> set (ds_completed_ranges found)" "b \<in> blocks_of (cr_block_range c)"
      by (auto simp: blocks_def)
    from completed_range_rows_Inr(2) [OF m c(1)] obtain row where "row \<in> set markers" "completed_row row"
      "carries row (marker_cells token topic0 c)" by blast
    with c(2) show ?thesis
      by (auto simp: l marked_def evidence_first_def carries_def marker_cells_def blocks_of_def)
  qed
  ultimately show ?thesis by blast
qed

definition pair_blocks :: "(int \<times> int) list \<Rightarrow> int set" where
  "pair_blocks pairs = (\<Union>p \<in> set pairs. {fst p..<snd p})"

text \<open>Every required block of an event is covered: by the stored ranges or by the rows written.\<close>

definition event_covered :: "'w log_service \<Rightarrow> token_config \<Rightarrow> block_range \<Rightarrow> event_config \<Rightarrow> insertion list \<Rightarrow> bool" where
  "event_covered sv token required ev l \<longleftrightarrow>
     (\<exists>e stored w w' s s'. dv_validate sv (ev_abi ev) (ev_event ev) (ev_holder_topics ev) w = (Inr e, w')
        \<and> completed_discovery_ranges (dv_store sv) (dv_chain_id sv) (tc_address token) (ed_topic0 e) s = (Inr stored, s')
        \<and> blocks_of required \<subseteq> pair_blocks stored \<union> marked ''discovery_ranges'' (topic_row (ed_topic0 e)) l)"

lemma mk_ranges:
  "map_res (\<lambda>(a, b). mk_block_range a b) pairs = Inr rs \<Longrightarrow> list_all valid_range rs \<and> blocks rs = pair_blocks pairs"
proof (induction pairs arbitrary: rs)
  case (Cons p pairs)
  from Cons.prems obtain qs where "valid_range (BlockRange (fst p) (snd p))" "rs = BlockRange (fst p) (snd p) # qs"
    "map_res (\<lambda>(a, b). mk_block_range a b) pairs = Inr qs"
    by (cases p) (auto simp: bind_res_Inr mk_block_range_Inr)
  with Cons.IH [of qs] show ?case by (simp add: pair_blocks_def)
qed (simp add: pair_blocks_def)

lemma journals_return:
  "journals m (\<lambda>l res. B l \<and> (\<forall>y. res = Inr y \<longrightarrow> G l)) \<Longrightarrow> journals (bind_io m (\<lambda>_. ret ())) (\<lambda>l res. B l \<and> (\<forall>y. res = Inr y \<longrightarrow> G l))"
  by (erule journals_map) auto

lemma writes_completed_ranges [writes_intros]:
  "writes P (completed_discovery_ranges db c a t)" "writes P (completed_sweep_ranges db c a n)"
  by (auto simp: completed_discovery_ranges_def completed_sweep_ranges_def intro!: writes_intros)

lemma event_advance_journals:
  assumes "0 < dv_chunk_size sv" and "ev \<in> set (tc_discovery_events token)"
  shows "journals (event_advance sv token ab ah required ev)
    (\<lambda>l res. backed ''discovery_ranges'' ''holder_universe'' (discovery_support sv token) l
       \<and> (\<forall>y. res = Inr y \<longrightarrow> event_covered sv token required ev l))"
  unfolding event_advance_def
proof (rule journals_silent, goal_cases)
  case (3 e s s1)
  then obtain w w' where e: "dv_validate sv (ev_abi ev) (ev_event ev) (ev_holder_topics ev) w = (Inr e, w')"
    by (auto dest!: on_world_Inr)
  show ?case
  proof (rule journals_silent, goal_cases)
    case (3 stored s s1)
    note stored = 3
    show ?case
    proof (rule journals_silent, goal_cases)
      case (3 completed s s2)
      then have c: "list_all valid_range completed" "blocks completed = pair_blocks stored"
        using mk_ranges by (auto simp: lift_res_Inr)
      let ?B = "backed ''discovery_ranges'' ''holder_universe'' (discovery_support sv token)"
      let ?G = "\<lambda>gap l. blocks_of gap \<subseteq> marked ''discovery_ranges'' (topic_row (ed_topic0 e)) l"
      have "journals (map_io (\<lambda>gap. discovery_scan_gap sv token (ed_topic0 e) (ev_holder_topics ev) (ev_event ev) gap ab ah
            (tc_zero_address_role token = HOLDER)) (coverage_gaps required completed))
          (\<lambda>l res. ?B l \<and> (\<forall>ys. res = Inr ys \<longrightarrow> (\<forall>gap \<in> set (coverage_gaps required completed). ?G gap l)))"
      proof (rule journals_map_io)
        fix gap
        show "journals (discovery_scan_gap sv token (ed_topic0 e) (ev_holder_topics ev) (ev_event ev) gap ab ah
            (tc_zero_address_role token = HOLDER)) (\<lambda>l res. ?B l \<and> (\<forall>y. res = Inr y \<longrightarrow> ?G gap l))"
          by (rule journals_mono [OF discovery_scan_gap_journals [OF assms(1)]])
             (use discovery_step_spec [OF assms] backed_other in \<open>auto simp: gap_outcome_def no_marker_def\<close>)
      qed (auto intro: backed_append discovery_support_mono)
      moreover have cover: "blocks_of required \<subseteq> blocks completed \<union> blocks (coverage_gaps required completed)"
        using coverage_gaps_blocks [OF c(1), of required] by blast
      then have "event_covered sv token required ev l" if "\<forall>gap \<in> set (coverage_gaps required completed). ?G gap l" for l
        using that e stored c(2) unfolding event_covered_def by (fastforce simp: blocks_def)
      then show ?case
        using calculation by (intro journals_return) (erule journals_mono, auto)
    qed (auto intro: writes_intros)
  qed (auto intro: writes_intros)
qed (auto intro: writes_intros)

subsection \<open>The properties of discovery\<close>

lemma discovery_advance_journals:
  assumes "0 < dv_chunk_size sv"
  shows "journals (discovery_advance sv token anchor_block anchor_hash) (\<lambda>l res.
    backed ''discovery_ranges'' ''holder_universe'' (discovery_support sv token) l
    \<and> (\<forall>y. res = Inr y \<longrightarrow> (\<forall>ev \<in> set (tc_discovery_events token).
         event_covered sv token (BlockRange (tc_deployment_block token) (anchor_block + 1)) ev l)))"
  unfolding discovery_advance_def
proof (rule journals_silent, goal_cases)
  case (3 required s s1)
  let ?req = "BlockRange (tc_deployment_block token) (anchor_block + 1)"
  from 3 have req: "required = ?req" by (simp add: lift_res_Inr mk_block_range_Inr)
  show ?case unfolding req
  proof (rule journals_return, rule journals_map_io)
    fix ev k l m assume "event_covered sv token ?req ev l"
    then show "event_covered sv token ?req ev (k @ l @ m)" unfolding event_covered_def by fastforce
  qed (rule event_advance_journals [OF assms], assumption, auto intro: backed_append discovery_support_mono)
qed (auto intro: writes_intros)

text \<open>
  C7: coverage is claimed only after its evidence. Whatever \<open>advance\<close> returns or raises, every
  completed row it handed to \<open>discovery_ranges\<close> is a range that a scan of the token's logs
  completed, and before it \<open>advance\<close> had written, for every log of that scan and every holder in
  it, an observation of the holder whose first and last block enclose the log's. And when
  \<open>advance\<close> returns, for every event of the token each block from the deployment to the anchor is
  covered by a range the store had reported as completed or by a completed row of this run.
\<close>
theorem discovery_coverage_backed:
  assumes "0 < dv_chunk_size sv" and "discovery_advance sv token anchor_block anchor_hash s = (res, s')"
  shows "\<exists>l. ss_journal s' = ss_journal s @ l
    \<and> backed ''discovery_ranges'' ''holder_universe'' (discovery_support sv token) l
    \<and> (res = Inr () \<longrightarrow> (\<forall>ev \<in> set (tc_discovery_events token).
         event_covered sv token (BlockRange (tc_deployment_block token) (anchor_block + 1)) ev l))"
  using journalsD [OF discovery_advance_journals [OF assms(1)] assms(2)] by blast

definition sample_service :: "unit log_service" where
  "sample_service = \<lparr>dv_chain_id = 100, dv_rpc_call = one_block_caller, dv_store = sample_client,
     dv_validate = (\<lambda>abi ev topics. ret \<lparr>ed_abi_name = abi, ed_event_name = ev, ed_topic0 = block_hash (sample_block 1),
        ed_indexed_types = [''address'', ''address'']\<rparr>),
     dv_chunk_size = 3, dv_result_cap = 10, dv_cause = (\<lambda>_. None)\<rparr>"

lemma one_block_filter:
  "\<exists>fp. scan_filter one_block_caller 3 10 f 0 1 () = (Inr \<lparr>ds_requested_range = BlockRange 0 1,
      ds_completed_ranges = [\<lparr>cr_block_range = BlockRange 0 1, cr_log_count = 0, cr_endpoint_fingerprint = fp\<rparr>], ds_logs = []\<rparr>, ())"
proof -
  obtain fp where fp: "fingerprint (sample_endpoint ''http://a'') = Inr fp" using sample_fingerprint by (auto simp: returned_def split: sum.splits)
  have turn: "scan_turn one_block_caller 10 f (BlockRange 0 1) () = (Complete [] fp, ())"
    by (simp add: scan_turn_def read_range_def one_block_caller_def bind_io_def filter_params_def Let_def obj_get_def fp ret_def
        split: option.split)
  have chunks: "chunk_ranges 3 0 1 = [BlockRange 0 1]"
    by (simp add: chunk_ranges.simps)
  have v: "valid_range (BlockRange 0 1)" by (simp add: valid_range_def)
  have "scan_loop one_block_caller 10 f [BlockRange 0 1] [] [] ()
      = (Inr ([\<lparr>cr_block_range = BlockRange 0 1, cr_log_count = 0, cr_endpoint_fingerprint = fp\<rparr>], []), ())"
    by (simp add: scan_loop_turns(3) [OF turn])
  then show ?thesis
    using scan_filter_unfold [of 3 0 1 one_block_caller 10 f "()"] v by (simp add: chunks deduplicate_logs_def)
qed

lemma one_block_scan:
  "\<exists>found fp. scan one_block_caller 3 10 (sample_address 2) (block_hash (sample_block 1)) 0 1 () = (Inr found, ())
     \<and> ds_logs found = [] \<and> ds_completed_ranges found = [\<lparr>cr_block_range = BlockRange 0 1, cr_log_count = 0, cr_endpoint_fingerprint = fp\<rparr>]"
proof -
  have hash: "parse_hash (JStr (block_hash (sample_block 1))) ''topic0'' = Inr (block_hash (sample_block 1))"
    and addr: "LOWER_ADDRESS_RE (sample_address 2)" and "valid_topic (block_hash (sample_block 1))" by code_simp+
  then obtain f where "mk_log_filter (Some (sample_address 2)) [Some [block_hash (sample_block 1)]] = Inr f"
    by (simp add: mk_log_filter_def)
  with one_block_filter [of f] show ?thesis by (auto simp: scan_def addr hash)
qed

lemma discovery_markers_fit:
  assumes "list_all (\<lambda>row. fst ` set row = set (all_columns ''discovery_ranges'')) rows"
  shows "rows_fit ''discovery_ranges'' rows"
  using assms by (intro rows_fit_all) (auto simp: known_tables [simplified] list_all_iff)

lemma sample_discovery:
  "yields (discovery_advance sample_service plain_token 0 (block_hash (sample_block 0))) ()"
proof -
  obtain found fp where found: "scan one_block_caller 3 10 (sample_address 2) (block_hash (sample_block 1)) 0 1 () = (Inr found, ())"
    "ds_logs found = []" "ds_completed_ranges found = [\<lparr>cr_block_range = BlockRange 0 1, cr_log_count = 0, cr_endpoint_fingerprint = fp\<rparr>]"
    using one_block_scan by blast
  let ?ev = "\<lparr>ev_abi = ''erc20'', ev_event = ''Transfer'', ev_holder_topics = [1, 2]\<rparr>"
  let ?topic = "block_hash (sample_block 1)"
  let ?marker = "discovery_range_row sample_service plain_token ?topic (BlockRange 0 1) 5 ''completed'' 0 (block_hash (sample_block 0)) 0 0 fp [] [] 0 0"
  have token: "tc_address plain_token = sample_address 2" "tc_deployment_block plain_token = 0" "tc_discovery_events plain_token = [?ev]"
    "tc_zero_address_role plain_token = HOLDER"
    by (simp_all add: plain_token_def discovered_token_config_def)
  have store: "dv_store sample_service = sample_client" by (simp add: sample_service_def)
  have now: "yields (on_world (db_now sample_client)) 0" "yields (on_world (db_uuid4 sample_client)) 5"
    by (auto simp: sample_client_def ret_def intro!: yields_on_world)
  have scan: "yields (on_world (scan (dv_rpc_call sample_service) (dv_chunk_size sample_service) (dv_result_cap sample_service)
      (sample_address 2) ?topic 0 1)) found"
    by (rule yields_on_world) (simp add: sample_service_def found(1))
  have markers: "completed_range_rows sample_service plain_token ?topic [1, 2] True 5 0 (block_hash (sample_block 0)) 0 0 found = Inr [?marker]"
    by (simp add: completed_range_rows_def found logs_in_def extract_holders_def)
  have rows: "holder_rows sample_service plain_token ''Transfer'' [1, 2] True found = Inr []"
    by (simp add: holder_rows_def observations_def found)
  have "rows_fit ''discovery_ranges'' [?marker]"
    by (rule discovery_markers_fit) (auto simp: discovery_range_row_def all_columns_simps)
  then have "yields (insert_discovery_ranges sample_client [?marker]) (length [?marker])"
    unfolding insert_discovery_ranges_def by (rule yields_insert) simp_all
  then have gap: "yields (discovery_scan_gap sample_service plain_token ?topic [1, 2] ''Transfer'' (BlockRange 0 1) 0 (block_hash (sample_block 0)) True) ()"
    unfolding discovery_scan_gap_def store token block_range.sel
    by - (rule yields_bind [OF now(2)], rule yields_bind [OF now(1)], rule yields_bind [OF yields_catch [OF scan]],
        rule yields_bind [OF now(1)], rule yields_bind, subst markers, rule yields_prim, rule yields_bind, subst rows,
        rule yields_prim, rule yields_bind, subst if_P, rule refl, rule yields_prim, rule yields_bind, assumption, rule yields_prim)
  have gaps: "coverage_gaps (BlockRange 0 1) [] = [BlockRange 0 1]" by code_simp
  have event: "yields (event_advance sample_service plain_token 0 (block_hash (sample_block 0)) (BlockRange 0 1) ?ev) ()"
    unfolding event_advance_def store token event_config.select_convs
    by (rule yields_bind [of _ "\<lparr>ed_abi_name = ''erc20'', ed_event_name = ''Transfer'', ed_topic0 = ?topic,
          ed_indexed_types = [''address'', ''address'']\<rparr>"], rule yields_on_world, simp add: sample_service_def ret_def,
        rule yields_bind, simp add: completed_discovery_ranges_def, rule yields_query_map [where ys = "[]"],
        simp add: sample_answers_def, rule yields_bind, simp, rule yields_prim, rule yields_bind,
        rule yields_map_io [where ys = "[()]"], insert gap, simp_all add: yields_prim gaps)
  show ?thesis unfolding discovery_advance_def token
    by (rule yields_bind [of _ "BlockRange 0 1"], simp add: mk_block_range_def yields_prim,
        rule yields_bind [OF yields_map_io [where ys = "[()]"]]) (simp_all add: event yields_prim)
qed

theorem discovery_coverage_backed_witness:
  "\<exists>s'. discovery_advance sample_service plain_token 0 (block_hash (sample_block 0)) \<lparr>ss_world = (), ss_journal = []\<rparr> = (Inr (), s')
     \<and> backed ''discovery_ranges'' ''holder_universe'' (discovery_support sample_service plain_token) (ss_journal s')
     \<and> 0 \<in> marked ''discovery_ranges'' (topic_row (block_hash (sample_block 1))) (ss_journal s')"
proof -
  obtain s' where run: "discovery_advance sample_service plain_token 0 (block_hash (sample_block 0)) \<lparr>ss_world = (), ss_journal = []\<rparr> = (Inr (), s')"
    using sample_discovery unfolding yields_def by blast
  have [simp]: "completed_discovery_ranges sample_client 100 (sample_address 2) (block_hash (sample_block 1)) s = (Inr [], s)" for s
    by (simp add: completed_discovery_ranges_def query_map_def query_rows_def sample_client_def sample_answers_def on_world_def
        ret_def bind_io_def lift_res_def)
  from discovery_coverage_backed [OF _ run] run show ?thesis
    by (auto simp: sample_service_def event_covered_def plain_token_def discovered_token_config_def ret_def pair_blocks_def)
qed

end
