(* ===== verification/Sweeps.thy ===== *)
theory Sweeps
  imports Services
begin

text \<open>
  What a wallet sweep (\<open>core/sweep_service.py\<close>) writes: the interaction logs of a window before its
  coverage markers, and markers for every wallet of the group that was scanned together. The
  definitions are in Services.
\<close>

subsection \<open>One window\<close>

definition log_cells :: "int \<Rightarrow> string \<Rightarrow> normalized_log \<Rightarrow> row" where
  "log_cells position wallet entry =
     [(''wallet_address'', CText wallet), (''topic_position'', CInt position),
      (''contract_address'', CText (lg_address entry)), (''block_number'', CInt (lg_block_number entry)),
      (''block_hash'', CText (lg_block_hash entry)), (''transaction_hash'', CText (lg_transaction_hash entry)),
      (''log_index'', CInt (lg_log_index entry)), (''topics'', CTexts (lg_topics entry))]"

definition sweep_cells :: "int \<Rightarrow> string \<Rightarrow> completed_range \<Rightarrow> row" where
  "sweep_cells position wallet c =
     [(''wallet_address'', CText wallet), (''topic_position'', CInt position),
      (''range_start_block'', CInt (br_start (cr_block_range c))),
      (''range_end_block_exclusive'', CInt (br_end (cr_block_range c))),
      (''endpoint_fingerprint'', CText (cr_endpoint_fingerprint c))]"

definition sweep_support :: "'w log_service \<Rightarrow> row set \<Rightarrow> row \<Rightarrow> bool" where
  "sweep_support sv H row \<longleftrightarrow>
     (\<exists>position wallets f a b w found w' c owner.
        sweep_filter position wallets = Inr f
        \<and> scan_filter (dv_rpc_call sv) (dv_chunk_size sv) (dv_result_cap sv) f a b w = (Inr found, w')
        \<and> c \<in> set (ds_completed_ranges found) \<and> owner \<in> set wallets \<and> carries row (sweep_cells position owner c)
        \<and> (\<forall>entry \<in> set (ds_logs found). \<exists>who. log_wallet position wallets entry = Inr who
             \<and> (\<exists>o1 \<in> H. carries o1 (log_cells position who entry))))"

lemma sweep_support_mono: "monotone_support (sweep_support sv)"
  unfolding monotone_support_def sweep_support_def by (meson subsetD)

abbreviation wallet_row :: "string \<Rightarrow> int \<Rightarrow> row \<Rightarrow> bool" where
  "wallet_row wallet position row \<equiv> map_of row ''wallet_address'' = Some (CText wallet)
     \<and> map_of row ''topic_position'' = Some (CInt position)"

definition sweep_step :: "'w log_service \<Rightarrow> int \<Rightarrow> string list \<Rightarrow> block_range \<Rightarrow> insertion list \<Rightarrow> bool" where
  "sweep_step sv position wallets gap l \<longleftrightarrow>
     (\<exists>f found w w' owners i ab ah started finished.
        sweep_filter position wallets = Inr f
        \<and> scan_filter (dv_rpc_call sv) (dv_chunk_size sv) (dv_result_cap sv) f (br_start gap) (br_end gap) w = (Inr found, w')
        \<and> map_res (log_wallet position wallets) (ds_logs found) = Inr owners
        \<and> l = evidence_first ''wallet_interaction_logs''
                (map (\<lambda>(owner, entry). log_row sv position finished owner entry) (zip owners (ds_logs found)))
                ''sweep_ranges'' (sweep_rows sv position wallets i ab ah started finished found owners))"

lemma failed_sweep_row: "\<not> completed_row (sweep_range_row sv wallet position r i ''failed'' ab ah n fp ec em st fin)"
  by (simp add: completed_row_def sweep_range_row_def)

lemma sweep_marker:
  "completed_row (sweep_range_row sv wallet position (cr_block_range c) i ''completed'' ab ah n (cr_endpoint_fingerprint c) ec em st fin)
   \<and> carries (sweep_range_row sv wallet position (cr_block_range c) i ''completed'' ab ah n (cr_endpoint_fingerprint c) ec em st fin)
       (sweep_cells position wallet c)"
  by (simp add: completed_row_def sweep_range_row_def carries_def sweep_cells_def)

lemma sweep_scan_gap_journals:
  assumes "0 < dv_chunk_size sv" and "wallets \<noteq> []"
  shows "journals (sweep_scan_gap sv position wallets gap ab ah) (gap_outcome ''sweep_ranges'' (sweep_step sv position wallets gap))"
  unfolding sweep_scan_gap_def insert_sweep_ranges_def insert_wallet_interaction_logs_def Let_def
proof (rule journals_silent, goal_cases)
  case (3 i s s1)
  show ?case
  proof (rule journals_silent, goal_cases)
    case (3 started s s1)
    show ?case
    proof (rule journals_silent, goal_cases)
      case (3 f s s1)
      then have f: "sweep_filter position wallets = Inr f" by (simp add: lift_res_Inr)
      let ?h = "\<lambda>e. bind_io (on_world (db_now (dv_store sv))) (\<lambda>failed_at.
              bind_io (insert_rows (dv_store sv) ''sweep_ranges''
                (map (\<lambda>wallet. sweep_range_row sv wallet position gap i ''failed'' ab ah 0 no_fingerprint
                   (exn_name (exn_class_of e)) (take 4096 (error_detail sv e)) started failed_at) wallets) None) (\<lambda>_. raise e))"
      have h: "journals (?h e) (\<lambda>l res. no_marker ''sweep_ranges'' l \<and> (\<exists>e. res = Inl e))" for e
      proof (rule journals_silent, goal_cases)
        case (3 t s s1)
        show ?case
          by (rule journals_bind_spec [OF insert_rows_journals])
             (auto simp: no_marker_def failed_sweep_row list_all_iff intro!: journals_raise)
      qed (auto simp: no_marker_def intro: writes_intros)
      show ?case
      proof (rule journals_bind_spec [OF catch_failure [OF h]], goal_cases)
        case (1 l e)
        then show ?case by (simp add: gap_outcome_def)
      next
        case (2 found s s1 l)
        from catch_returns [OF 2(1) h] obtain w w' where found:
          "scan_filter (dv_rpc_call sv) (dv_chunk_size sv) (dv_result_cap sv) f (br_start gap) (br_end gap) w = (Inr found, w')"
          by blast
        have l: "l = []" using 2(2) by simp
        show ?case unfolding l append_Nil
        proof (rule journals_silent, goal_cases)
          case (3 finished s s1)
          show ?case
          proof (rule journals_silent, goal_cases)
            case (3 owners s s1)
            then have o: "map_res (log_wallet position wallets) (ds_logs found) = Inr owners" by (simp add: lift_res_Inr)
            have "ds_completed_ranges found \<noteq> []" using scan_filter_spec [OF assms(1) found] by (auto simp: valid_range_def)
            then have m: "sweep_rows sv position wallets i ab ah started finished found owners \<noteq> []"
              using assms(2) by (cases "ds_completed_ranges found"; cases wallets) (auto simp: sweep_rows_def)
            have "sweep_step sv position wallets gap (evidence_first ''wallet_interaction_logs''
                (map (\<lambda>(owner, entry). log_row sv position finished owner entry) (zip owners (ds_logs found)))
                ''sweep_ranges'' (sweep_rows sv position wallets i ab ah started finished found owners))"
              unfolding sweep_step_def using f found o by blast
            then show ?case
              by (intro journals_mono [OF evidence_then_markers [OF _ m]]) (auto simp: gap_outcome_def)
          qed (auto simp: gap_outcome_def no_marker_def intro: writes_intros)
        qed (auto simp: gap_outcome_def no_marker_def intro: writes_intros)
      qed
    qed (auto simp: gap_outcome_def no_marker_def intro: writes_intros)
  qed (auto simp: gap_outcome_def no_marker_def intro: writes_intros)
qed (auto simp: gap_outcome_def no_marker_def intro: writes_intros)

lemma sweep_step_spec:
  assumes "0 < dv_chunk_size sv" and "sweep_step sv position wallets gap l"
  shows "backed ''sweep_ranges'' ''wallet_interaction_logs'' (sweep_support sv) l
    \<and> (\<forall>wallet \<in> set wallets. blocks_of gap \<subseteq> marked ''sweep_ranges'' (wallet_row wallet position) l)"
proof -
  from assms(2) obtain f found w w' owners i ab ah started finished where
    f: "sweep_filter position wallets = Inr f"
    and found: "scan_filter (dv_rpc_call sv) (dv_chunk_size sv) (dv_result_cap sv) f (br_start gap) (br_end gap) w = (Inr found, w')"
    and o: "map_res (log_wallet position wallets) (ds_logs found) = Inr owners"
    and l: "l = evidence_first ''wallet_interaction_logs''
                (map (\<lambda>(owner, entry). log_row sv position finished owner entry) (zip owners (ds_logs found)))
                ''sweep_ranges'' (sweep_rows sv position wallets i ab ah started finished found owners)"
    unfolding sweep_step_def by blast
  have logs: "\<exists>who. log_wallet position wallets entry = Inr who
      \<and> (\<exists>o1 \<in> set (map (\<lambda>(owner, entry). log_row sv position finished owner entry) (zip owners (ds_logs found))).
           carries o1 (log_cells position who entry))" if entry: "entry \<in> set (ds_logs found)" for entry
  proof -
    from o have all: "list_all2 (\<lambda>e who. log_wallet position wallets e = Inr who) (ds_logs found) owners" by (simp add: map_res_Inr)
    from entry obtain k where k: "k < length (ds_logs found)" "ds_logs found ! k = entry" by (auto simp: in_set_conv_nth)
    with all have w: "length owners = length (ds_logs found)" "log_wallet position wallets entry = Inr (owners ! k)"
      by (auto simp: list_all2_conv_all_nth)
    then have "(owners ! k, entry) \<in> set (zip owners (ds_logs found))"
      using k by (auto simp: in_set_zip intro!: exI [of _ k])
    moreover have "carries (log_row sv position finished (owners ! k) entry) (log_cells position (owners ! k) entry)"
      by (simp add: carries_def log_row_def log_cells_def)
    ultimately show ?thesis using w(2) by force
  qed
  have "backed ''sweep_ranges'' ''wallet_interaction_logs'' (sweep_support sv) l"
    unfolding l
  proof (rule backed_evidence_first)
    fix row assume "row \<in> set (sweep_rows sv position wallets i ab ah started finished found owners)"
    then obtain c wallet n where c: "c \<in> set (ds_completed_ranges found)" "wallet \<in> set wallets"
      "row = sweep_range_row sv wallet position (cr_block_range c) i ''completed'' ab ah n (cr_endpoint_fingerprint c) [] [] started finished"
      by (auto simp: sweep_rows_def)
    from sweep_marker c(3) have "carries row (sweep_cells position wallet c)" by blast
    with c(1,2) f found logs show "sweep_support sv (set (map (\<lambda>(owner, entry). log_row sv position finished owner entry)
        (zip owners (ds_logs found)))) row" unfolding sweep_support_def by blast
  qed simp
  moreover have "b \<in> marked ''sweep_ranges'' (wallet_row wallet position) l" if "b \<in> blocks_of gap" "wallet \<in> set wallets" for b wallet
  proof -
    from scan_filter_spec [OF assms(1) found] tiles_blocks [of "br_start gap" "br_end gap"] that(1)
    have "b \<in> blocks (map cr_block_range (ds_completed_ranges found))" by (auto simp: blocks_of_def)
    then obtain c where c: "c \<in> set (ds_completed_ranges found)" "b \<in> blocks_of (cr_block_range c)"
      by (auto simp: blocks_def)
    with that(2) obtain n where "sweep_range_row sv wallet position (cr_block_range c) i ''completed'' ab ah n
        (cr_endpoint_fingerprint c) [] [] started finished \<in> set (sweep_rows sv position wallets i ab ah started finished found owners)"
      unfolding sweep_rows_def by fastforce
    with c(2) show ?thesis
      using sweep_marker [of sv wallet position c i ab ah n "[]" "[]" started finished]
      by (fastforce simp: l marked_def evidence_first_def carries_def sweep_cells_def blocks_of_def)
  qed
  ultimately show ?thesis by blast
qed

subsection \<open>Groups of wallets\<close>

lemma group_by_gaps_mono:
  "\<exists>ms. map_of d g = Some ms \<and> w \<in> set ms \<Longrightarrow> \<exists>ms. map_of (group_by_gaps ps d) g = Some ms \<and> w \<in> set ms"
proof (induction ps d rule: group_by_gaps.induct)
  case (2 gaps wallet rest d)
  then have "\<exists>ms. map_of (if gaps = [] then d else AList.update gaps (dict_get d gaps @ [wallet]) d) g = Some ms \<and> w \<in> set ms"
    by (auto simp: update_conv' dict_get_def)
  with 2(1) show ?case by simp
qed auto

lemma group_by_gaps_complete:
  "(g, w) \<in> set ps \<Longrightarrow> g \<noteq> [] \<Longrightarrow> \<exists>ms. map_of (group_by_gaps ps d) g = Some ms \<and> w \<in> set ms"
proof (induction ps d rule: group_by_gaps.induct)
  case (2 gaps wallet rest d)
  show ?case
  proof (cases "(g, w) = (gaps, wallet)")
    case True
    with 2(3) have "\<exists>ms. map_of (AList.update gaps (dict_get d gaps @ [wallet]) d) g = Some ms \<and> w \<in> set ms"
      by (simp add: update_conv')
    from group_by_gaps_mono [OF this] True 2(3) show ?thesis by simp
  next
    case False
    with 2 show ?thesis by auto
  qed
qed simp

lemma set_update: "set (AList.update k v d) \<subseteq> insert (k, v) (set d)"
  by (induction d) auto

lemma group_by_gaps_sound:
  assumes "(g, ms) \<in> set (group_by_gaps ps d)" and "\<forall>(g, ms) \<in> set d. ms \<noteq> [] \<and> Q g" and "\<forall>(g, w) \<in> set ps. Q g"
  shows "ms \<noteq> [] \<and> Q g"
  using assms
proof (induction ps d rule: group_by_gaps.induct)
  case (2 gaps wallet rest d)
  let ?d = "if gaps = [] then d else AList.update gaps (dict_get d gaps @ [wallet]) d"
  have "\<forall>(g, ms) \<in> set ?d. ms \<noteq> [] \<and> Q g"
    using 2(3,4) set_update [of gaps "dict_get d gaps @ [wallet]" d] by (auto split: if_splits)
  with 2 show ?case by auto
qed auto

subsection \<open>The whole sweep\<close>

lemma map_io_returns:
  "map_io f xs s = (Inr ys, s') \<Longrightarrow> list_all2 (\<lambda>x y. \<exists>w w'. f x w = (Inr y, w')) xs ys"
proof (induction xs arbitrary: s ys)
  case (Cons x xs)
  from Cons.prems obtain y s1 zs where "f x s = (Inr y, s1)" "map_io f xs s1 = (Inr zs, s')" "ys = y # zs"
    by (auto simp: bind_io_Inr ret_def)
  with Cons.IH show ?case by auto
qed (auto simp: ret_def)

abbreviation sweep_backed :: "'w log_service \<Rightarrow> insertion list \<Rightarrow> bool" where
  "sweep_backed sv \<equiv> backed ''sweep_ranges'' ''wallet_interaction_logs'' (sweep_support sv)"

definition wallet_marks :: "int \<Rightarrow> string list \<Rightarrow> int set \<Rightarrow> insertion list \<Rightarrow> bool" where
  "wallet_marks position wallets bs l \<longleftrightarrow> (\<forall>wallet \<in> set wallets. bs \<subseteq> marked ''sweep_ranges'' (wallet_row wallet position) l)"

lemma group_advance_journals:
  assumes "0 < dv_chunk_size sv" and "snd g \<noteq> []" and "list_all valid_range (fst g)"
  shows "journals (group_advance sv sweep position ab ah g)
    (\<lambda>l res. sweep_backed sv l \<and> (\<forall>y. res = Inr y \<longrightarrow> wallet_marks position (snd g) (blocks (fst g)) l))"
  unfolding group_advance_def
proof (rule journals_silent, goal_cases)
  case (3 windows s s1)
  then have w: "list_all2 (\<lambda>gap ws. scan_windows gap (sw_checkpoint_blocks sweep) = Inr ws) (fst g) windows"
    by (simp add: lift_res_Inr map_res_Inr)
  have "blocks (fst g) = blocks (concat windows)"
    using w assms(3)
  proof (induction rule: list_all2_induct)
    case (Cons gap gaps ws windows)
    then have "tiles (br_start gap) (br_end gap) ws"
      by (auto simp: scan_windows_def valid_range_def split: if_splits intro!: tiles_chunk_ranges)
    from tiles_blocks [OF this] Cons show ?case by (simp add: blocks_of_def)
  qed simp
  moreover have "journals (map_io (\<lambda>window. sweep_scan_gap sv position (snd g) window ab ah) (concat windows))
      (\<lambda>l res. sweep_backed sv l \<and> (\<forall>ys. res = Inr ys \<longrightarrow> (\<forall>window \<in> set (concat windows). wallet_marks position (snd g) (blocks_of window) l)))"
  proof (rule journals_map_io)
    fix window
    show "journals (sweep_scan_gap sv position (snd g) window ab ah)
        (\<lambda>l res. sweep_backed sv l \<and> (\<forall>y. res = Inr y \<longrightarrow> wallet_marks position (snd g) (blocks_of window) l))"
      by (rule journals_mono [OF sweep_scan_gap_journals [OF assms(1,2)]])
         (auto simp: gap_outcome_def no_marker_def wallet_marks_def intro: backed_other dest!: sweep_step_spec [OF assms(1)])
  qed (auto intro: backed_append sweep_support_mono simp: wallet_marks_def)
  ultimately show ?case
    by (intro journals_return) (erule journals_mono, fastforce simp: wallet_marks_def blocks_def)
qed (auto intro: writes_intros)

text \<open>Every required block of a wallet at a position is covered.\<close>

definition wallet_covered :: "'w log_service \<Rightarrow> block_range \<Rightarrow> int \<Rightarrow> string \<Rightarrow> insertion list \<Rightarrow> bool" where
  "wallet_covered sv required position wallet l \<longleftrightarrow>
     (\<exists>stored s s'. completed_sweep_ranges (dv_store sv) (dv_chain_id sv) wallet position s = (Inr stored, s')
        \<and> blocks_of required \<subseteq> pair_blocks stored \<union> marked ''sweep_ranges'' (wallet_row wallet position) l)"

lemma wallet_gaps_Inr:
  assumes "wallet_gaps sv position required wallet s = (Inr p, s')" and "valid_range required"
  shows "\<exists>stored s s'. completed_sweep_ranges (dv_store sv) (dv_chain_id sv) wallet position s = (Inr stored, s')
    \<and> snd p = wallet \<and> list_all valid_range (fst p) \<and> blocks_of required \<subseteq> pair_blocks stored \<union> blocks (fst p)"
proof -
  from assms(1) obtain stored completed s1 where c: "completed_sweep_ranges (dv_store sv) (dv_chain_id sv) wallet position s = (Inr stored, s1)"
    "map_res (\<lambda>(a, b). mk_block_range a b) stored = Inr completed" "p = (coverage_gaps required completed, wallet)"
    by (auto simp: wallet_gaps_def bind_io_Inr lift_res_Inr ret_def)
  from mk_ranges [OF c(2)] coverage_gaps_blocks [of completed required] coverage_gaps_valid [OF assms(2), of completed] c
  show ?thesis by fastforce
qed

lemma writes_wallet_gaps [writes_intros]: "writes P (wallet_gaps sv position required wallet)"
  by (auto simp: wallet_gaps_def intro!: writes_intros)

lemma position_advance_journals:
  assumes "0 < dv_chunk_size sv" and "valid_range required"
  shows "journals (position_advance sv sweep wallets ab ah required position)
    (\<lambda>l res. sweep_backed sv l \<and> (\<forall>y. res = Inr y \<longrightarrow> (\<forall>wallet \<in> set wallets. wallet_covered sv required position wallet l)))"
  unfolding position_advance_def
proof (rule journals_silent, goal_cases)
  case (3 found s s1)
  from map_io_returns [OF 3] have f: "list_all2 (\<lambda>wallet p. \<exists>w w'. wallet_gaps sv position required wallet w = (Inr p, w'))
      (sort (remdups wallets)) found" .
  have valid: "\<forall>(g, w) \<in> set found. list_all valid_range g"
    using f by (induction rule: list_all2_induct) (auto dest: wallet_gaps_Inr [OF _ assms(2)])
  have groups: "members \<noteq> [] \<and> list_all valid_range g" if "(g, members) \<in> set (group_by_gaps found [])" for g members
    by (rule group_by_gaps_sound [OF that]) (use valid in auto)
  let ?gs = "sort_key fst (group_by_gaps found [])"
  have "journals (map_io (group_advance sv sweep position ab ah) ?gs)
      (\<lambda>l res. sweep_backed sv l \<and> (\<forall>ys. res = Inr ys \<longrightarrow> (\<forall>g \<in> set ?gs. wallet_marks position (snd g) (blocks (fst g)) l)))"
  proof (rule journals_map_io)
    fix g assume "g \<in> set ?gs"
    with groups [of "fst g" "snd g"] show "journals (group_advance sv sweep position ab ah g)
        (\<lambda>l res. sweep_backed sv l \<and> (\<forall>y. res = Inr y \<longrightarrow> wallet_marks position (snd g) (blocks (fst g)) l))"
      by (intro group_advance_journals [OF assms(1)]) auto
  qed (auto intro: backed_append sweep_support_mono simp: wallet_marks_def)
  moreover have "wallet_covered sv required position wallet l"
    if marks: "\<forall>g \<in> set ?gs. wallet_marks position (snd g) (blocks (fst g)) l" and wallet: "wallet \<in> set wallets" for wallet l
  proof -
    from wallet have "wallet \<in> set (sort (remdups wallets))" by simp
    from list_all2_witness [OF f this] obtain p w w' where p: "p \<in> set found" "wallet_gaps sv position required wallet w = (Inr p, w')"
      by blast
    from wallet_gaps_Inr [OF p(2) assms(2)] obtain stored s s' where st:
      "completed_sweep_ranges (dv_store sv) (dv_chain_id sv) wallet position s = (Inr stored, s')"
      "snd p = wallet" "blocks_of required \<subseteq> pair_blocks stored \<union> blocks (fst p)" by blast
    have "blocks (fst p) \<subseteq> marked ''sweep_ranges'' (wallet_row wallet position) l"
    proof (cases "fst p = []")
      case False
      with p(1) st(2) group_by_gaps_complete [of "fst p" wallet found "[]"] obtain members where
        "map_of (group_by_gaps found []) (fst p) = Some members" "wallet \<in> set members" by auto
      with marks show ?thesis by (fastforce simp: wallet_marks_def dest: map_of_SomeD)
    qed simp
    with st show ?thesis unfolding wallet_covered_def by blast
  qed
  ultimately show ?case by (intro journals_return) (erule journals_mono, auto)
qed (auto intro!: writes_intros)

text \<open>
  C8: a sweep covers every wallet and never claims a window before its logs. Whatever
  \<open>advance\<close> returns or raises, every completed row it handed to \<open>sweep_ranges\<close> is, for one of the
  wallets scanned together, a range that the scan completed, and before it \<open>advance\<close> had written an
  interaction log for every log of that scan, under the wallet named by the log's topic. And when
  \<open>advance\<close> returns, for every configured topic position and every wallet each block from the start
  of the sweep to the anchor is covered by a range the store had reported as completed or by a
  completed row of this run, however the wallets were grouped by their gaps and the gaps cut into
  windows.
\<close>
theorem sweep_coverage_backed:
  assumes "0 < dv_chunk_size sv" and "sweep_advance sv sweep wallets anchor_block anchor_hash s = (res, s')"
  shows "\<exists>l. ss_journal s' = ss_journal s @ l
    \<and> backed ''sweep_ranges'' ''wallet_interaction_logs'' (sweep_support sv) l
    \<and> (res = Inr () \<longrightarrow> wallets \<noteq> [] \<and> (\<forall>position \<in> set (sw_topic_positions sweep). \<forall>wallet \<in> set wallets.
         wallet_covered sv (BlockRange (sw_start_block sweep) (anchor_block + 1)) position wallet l))"
proof -
  let ?req = "BlockRange (sw_start_block sweep) (anchor_block + 1)"
  let ?G = "\<lambda>position l. \<forall>wallet \<in> set wallets. wallet_covered sv ?req position wallet l"
  have mono: "?G position (k @ l @ m)" if "?G position l" for position k l m
    using that unfolding wallet_covered_def by fastforce
  have "journals (sweep_advance sv sweep wallets anchor_block anchor_hash)
      (\<lambda>l res. sweep_backed sv l \<and> (\<forall>y. res = Inr y \<longrightarrow> wallets \<noteq> [] \<and> (\<forall>position \<in> set (sort (sw_topic_positions sweep)). ?G position l)))"
  proof (cases "wallets = []")
    case True
    then show ?thesis by (auto simp: sweep_advance_def intro!: journals_raise)
  next
    case False
    show ?thesis unfolding sweep_advance_def if_not_P [OF False]
    proof (rule journals_silent, goal_cases)
      case (3 required s s1)
      then have req: "required = ?req" "valid_range ?req" by (auto simp: lift_res_Inr mk_block_range_Inr)
      have "journals (map_io (position_advance sv sweep wallets anchor_block anchor_hash ?req) (sort (sw_topic_positions sweep)))
          (\<lambda>l res. sweep_backed sv l \<and> (\<forall>ys. res = Inr ys \<longrightarrow> (\<forall>position \<in> set (sort (sw_topic_positions sweep)). ?G position l)))"
        by (rule journals_map_io)
           (use position_advance_journals [OF assms(1) req(2)] mono in \<open>auto intro: backed_append sweep_support_mono\<close>)
      with False show ?case unfolding req(1) by (intro journals_return) (erule journals_mono, auto)
    qed (auto intro: writes_intros)
  qed
  from journalsD [OF this assms(2)] show ?thesis by auto
qed

text \<open>An empty chain of one block and a store without history.\<close>

definition sample_sweep :: sweep_config where
  "sample_sweep = \<lparr>sw_name = ''treasury'', sw_universe = ''full_holders'', sw_topic_positions = [1], sw_start_block = 0,
     sw_enabled = True, sw_checkpoint_blocks = 5\<rparr>"

lemma sample_sweep_returns:
  "yields (sweep_advance sample_service sample_sweep [sample_address 3] 0 (block_hash (sample_block 0))) ()"
proof -
  let ?w = "sample_address 3"
  obtain f where f: "sweep_filter 1 [?w] = Inr f"
  proof -
    have "valid_topic (wallet_topic ?w)" by code_simp
    then show thesis using that by (simp add: sweep_filter_def mk_log_filter_def wallet_by_topic_def)
  qed
  obtain fp where found: "scan_filter one_block_caller 3 10 f 0 1 () = (Inr \<lparr>ds_requested_range = BlockRange 0 1,
      ds_completed_ranges = [\<lparr>cr_block_range = BlockRange 0 1, cr_log_count = 0, cr_endpoint_fingerprint = fp\<rparr>], ds_logs = []\<rparr>, ())"
    using one_block_filter by blast
  let ?found = "\<lparr>ds_requested_range = BlockRange 0 1,
      ds_completed_ranges = [\<lparr>cr_block_range = BlockRange 0 1, cr_log_count = 0, cr_endpoint_fingerprint = fp\<rparr>], ds_logs = []\<rparr>"
  have store: "dv_store sample_service = sample_client" by (simp add: sample_service_def)
  have now: "yields (on_world (db_now sample_client)) 0" "yields (on_world (db_uuid4 sample_client)) 5"
    by (auto simp: sample_client_def ret_def intro!: yields_on_world)
  have scan: "yields (on_world (scan_filter (dv_rpc_call sample_service) (dv_chunk_size sample_service)
      (dv_result_cap sample_service) f 0 1)) ?found"
    by (rule yields_on_world) (simp add: sample_service_def found)
  let ?markers = "sweep_rows sample_service 1 [?w] 5 0 (block_hash (sample_block 0)) 0 0 ?found []"
  have "rows_fit ''sweep_ranges'' ?markers"
    by (rule rows_fit_all) (auto simp: known_tables [simplified] sweep_rows_def sweep_range_row_def all_columns_simps)
  then have "yields (insert_sweep_ranges sample_client ?markers) (length ?markers)"
    unfolding insert_sweep_ranges_def by (rule yields_insert) (simp_all add: sweep_rows_def)
  then have gap: "yields (sweep_scan_gap sample_service 1 [?w] (BlockRange 0 1) 0 (block_hash (sample_block 0))) 0"
    unfolding sweep_scan_gap_def store block_range.sel Let_def
    by - (rule yields_bind [OF now(2)], rule yields_bind [OF now(1)], rule yields_bind, subst f, rule yields_prim,
        rule yields_bind [OF yields_catch [OF scan]], rule yields_bind [OF now(1)], rule yields_bind [of _ "[]"],
        simp add: yields_prim, rule yields_bind [of _ 0], simp add: yields_prim, rule yields_bind, assumption, simp add: yields_prim)
  have gaps: "coverage_gaps (BlockRange 0 1) [] = [BlockRange 0 1]" by code_simp
  have "yields (wallet_gaps sample_service 1 (BlockRange 0 1) ?w) ([BlockRange 0 1], ?w)"
    unfolding wallet_gaps_def completed_sweep_ranges_def store
    by (rule yields_bind [OF yields_query_map [where ys = "[]"]])
       (simp_all add: sample_answers_def gaps yields_prim)
  moreover have "yields (group_advance sample_service sample_sweep 1 0 (block_hash (sample_block 0)) ([BlockRange 0 1], [?w])) ()"
    unfolding group_advance_def
    by (rule yields_bind [of _ "[[BlockRange 0 1]]"], simp add: scan_windows_def sample_sweep_def chunk_ranges.simps yields_prim,
        rule yields_bind [OF yields_map_io [where ys = "[0]"]]) (simp_all add: gap yields_prim)
  ultimately have "yields (position_advance sample_service sample_sweep [?w] 0 (block_hash (sample_block 0)) (BlockRange 0 1) 1) ()"
    unfolding position_advance_def
    by - (rule yields_bind [OF yields_map_io [where ys = "[([BlockRange 0 1], ?w)]"]], simp,
        rule yields_bind [OF yields_map_io [where ys = "[()]"]], simp_all add: dict_get_def yields_prim)
  then show ?thesis unfolding sweep_advance_def
    by - (simp, rule yields_bind [of _ "BlockRange 0 1"], simp add: mk_block_range_def sample_sweep_def yields_prim,
        rule yields_bind [OF yields_map_io [where ys = "[()]"]], simp_all add: sample_sweep_def yields_prim)
qed

theorem sweep_coverage_backed_witness:
  "\<exists>s'. sweep_advance sample_service sample_sweep [sample_address 3] 0 (block_hash (sample_block 0)) \<lparr>ss_world = (), ss_journal = []\<rparr> = (Inr (), s')
     \<and> backed ''sweep_ranges'' ''wallet_interaction_logs'' (sweep_support sample_service) (ss_journal s')
     \<and> 0 \<in> marked ''sweep_ranges'' (wallet_row (sample_address 3) 1) (ss_journal s')"
proof -
  obtain s' where run: "sweep_advance sample_service sample_sweep [sample_address 3] 0 (block_hash (sample_block 0))
      \<lparr>ss_world = (), ss_journal = []\<rparr> = (Inr (), s')"
    using sample_sweep_returns unfolding yields_def by blast
  have [simp]: "completed_sweep_ranges sample_client 100 (sample_address 3) 1 s = (Inr [], s)" for s
    by (simp add: completed_sweep_ranges_def query_map_def query_rows_def sample_client_def sample_answers_def on_world_def
        ret_def bind_io_def lift_res_def)
  from sweep_coverage_backed [OF _ run] run show ?thesis
    by (auto simp: sample_service_def wallet_covered_def sample_sweep_def pair_blocks_def)
qed

end
