(* ===== verification/Migrations.thy ===== *)
theory Migrations
  imports Sha256
begin

text \<open>
  \<open>storage/migrations.py\<close>: the checksum-verified migration runner. It reads the numbered SQL files
  of a directory, renders the database name into them, cuts them into statements and executes the
  ones the ledger table does not hold yet, recording each with the SHA-256 of its file.

  SQL text is the file's UTF-8 bytes read as characters: every character the code tests for is
  ASCII, and no byte of a longer encoding is. A directory is its entries (\<open>None\<close> when it does not
  exist). The ClickHouse driver is a parameter; it answers the two queries of the runner with rows
  of the queried types. The session keeps the commands handed to the driver, in order.
\<close>

subsection \<open>UTF-8 and stripping\<close>

definition between :: "nat \<Rightarrow> nat \<Rightarrow> byte \<Rightarrow> bool" where
  "between lo hi b \<longleftrightarrow> lo \<le> unat b \<and> unat b \<le> hi"

definition continuation :: "byte \<Rightarrow> bool" where
  "continuation b \<longleftrightarrow> between 0x80 0xBF b"

fun valid_utf8 :: "bytes \<Rightarrow> bool" where
  "valid_utf8 [] = True"
| "valid_utf8 [a] = between 0 0x7F a"
| "valid_utf8 (a # b # bs) =
     (if between 0 0x7F a then valid_utf8 (b # bs)
      else if between 0xC2 0xDF a then continuation b \<and> valid_utf8 bs
      else case bs of
             [] \<Rightarrow> False
           | c # cs \<Rightarrow>
               if between 0xE0 0xEF a
               then (if unat a = 0xE0 then between 0xA0 0xBF b
                     else if unat a = 0xED then between 0x80 0x9F b else continuation b)
                    \<and> continuation c \<and> valid_utf8 cs
               else (case cs of
                       [] \<Rightarrow> False
                     | d # ds \<Rightarrow> between 0xF0 0xF4 a
                         \<and> (if unat a = 0xF0 then between 0x90 0xBF b
                            else if unat a = 0xF4 then between 0x80 0x8F b else continuation b)
                         \<and> continuation c \<and> continuation d \<and> valid_utf8 ds))"

definition bytes_text :: "bytes \<Rightarrow> string" where
  "bytes_text bs = map (\<lambda>b. char_of (unat b)) bs"

text \<open>\<open>str.isspace\<close>: the encodings of the white space characters, none a prefix of another.\<close>

definition white_space :: "string list" where
  "white_space = map (map char_of)
     ([[9], [10], [11], [12], [13], [28], [29], [30], [31], [32], [0xC2, 0x85], [0xC2, 0xA0],
       [0xE1, 0x9A, 0x80], [0xE2, 0x80, 0xA8], [0xE2, 0x80, 0xA9], [0xE2, 0x80, 0xAF],
       [0xE2, 0x81, 0x9F], [0xE3, 0x80, 0x80]]
      @ map (\<lambda>n. [0xE2, 0x80, n]) [0x80..<0x8B :: nat])"

fun strip_front :: "string list \<Rightarrow> string \<Rightarrow> string" where
  "strip_front units [] = []"
| "strip_front units (c # cs) =
     (case find (\<lambda>u. u \<noteq> [] \<and> is_prefix u (c # cs)) units of
        None \<Rightarrow> c # cs
      | Some u \<Rightarrow> strip_front units (drop (length u - 1) cs))"

definition str_strip :: "string \<Rightarrow> string" where
  "str_strip s = rev (strip_front (map rev white_space) (rev (strip_front white_space s)))"

text \<open>\<open>str.replace\<close> for a non-empty pattern\<close>

fun str_replace :: "string \<Rightarrow> string \<Rightarrow> string \<Rightarrow> string" where
  "str_replace old new [] = []"
| "str_replace old new (c # cs) =
     (if is_prefix old (c # cs) then new @ str_replace old new (drop (length old - 1) cs)
      else c # str_replace old new cs)"

subsection \<open>Migrations\<close>

record dir_entry =
  de_name :: string
  de_is_file :: bool
  de_bytes :: bytes

record migration =
  mg_number :: int
  mg_name :: string
  mg_path :: string
  mg_checksum :: string
  mg_sql :: string

record migration_outcome =
  mo_name :: string
  mo_checksum :: string
  mo_status :: string

definition is_word_start :: "char \<Rightarrow> bool" where
  "is_word_start c \<longleftrightarrow> char_nat c \<in> {65..90} \<or> char_nat c \<in> {97..122} \<or> c = CHR ''_''"

definition is_digit_char :: "char \<Rightarrow> bool" where
  "is_digit_char c \<longleftrightarrow> char_nat c \<in> {48..57}"

definition DATABASE_RE :: "string \<Rightarrow> bool" where
  "DATABASE_RE s \<longleftrightarrow> (case s of [] \<Rightarrow> False
     | c # cs \<Rightarrow> is_word_start c \<and> list_all (\<lambda>d. is_word_start d \<or> is_digit_char d) cs)"

definition sql_suffix :: string where
  "sql_suffix = ''.sql''"

text \<open>\<open>[0-9]{3}_[a-z0-9_]+\.sql\<close>\<close>

definition MIGRATION_RE :: "string \<Rightarrow> bool" where
  "MIGRATION_RE s \<longleftrightarrow> 8 < length s \<and> list_all is_digit_char (take 3 s) \<and> s ! 3 = CHR ''_''
     \<and> drop (length s - 4) s = sql_suffix
     \<and> list_all (\<lambda>c. char_nat c \<in> {97..122} \<or> is_digit_char c \<or> c = CHR ''_'')
         (drop 4 (take (length s - 4) s))"

definition number_of_digits :: "string \<Rightarrow> int" where
  "number_of_digits s = foldl (\<lambda>n c. 10 * n + (int (char_nat c) - 48)) 0 s"

definition validate_database_name :: "string \<Rightarrow> string res" where
  "validate_database_name database =
     (if \<not> DATABASE_RE database
      then raise_res MigrationError (''invalid ClickHouse database identifier: '' @ repr_str database)
      else Inr database)"

text \<open>\<open>path.suffix == ".sql"\<close>\<close>

definition has_sql_suffix :: "string \<Rightarrow> bool" where
  "has_sql_suffix s \<longleftrightarrow> 4 < length s \<and> drop (length s - 4) s = sql_suffix"

fun discover_loop ::
  "string \<Rightarrow> dir_entry list \<Rightarrow> (int \<times> string) list \<Rightarrow> migration list \<Rightarrow> migration list res" where
  "discover_loop directory [] numbers migrations = Inr migrations"
| "discover_loop directory (path # paths) numbers migrations =
     (if \<not> de_is_file path \<or> \<not> has_sql_suffix (de_name path)
      then discover_loop directory paths numbers migrations
      else if \<not> MIGRATION_RE (de_name path)
      then raise_res MigrationError
             (''migration filename must match NNN_lowercase_name.sql: '' @ de_name path)
      else let number = number_of_digits (take 3 (de_name path)) in
           case map_of numbers number of
             Some other \<Rightarrow> raise_res MigrationError
               (''duplicate migration number '' @ take 3 (de_name path) @ '': '' @ other @ '' and '' @ de_name path)
           | None \<Rightarrow>
               if \<not> valid_utf8 (de_bytes path)
               then raise_res MigrationError (''migration is not UTF-8: '' @ de_name path)
               else discover_loop directory paths ((number, de_name path) # numbers)
                      (migrations @ [\<lparr>mg_number = number, mg_name = de_name path,
                         mg_path = directory @ ''/'' @ de_name path,
                         mg_checksum = sha256_hex (de_bytes path),
                         mg_sql = bytes_text (de_bytes path)\<rparr>]))"

definition discover_migrations :: "string \<Rightarrow> dir_entry list option \<Rightarrow> migration list res" where
  "discover_migrations directory listing =
     (case listing of
        None \<Rightarrow> raise_res MigrationError (''migration directory does not exist: '' @ directory)
      | Some entries \<Rightarrow>
          bind_res (discover_loop directory (sort_key de_name entries) [] []) (\<lambda>migrations.
            case migrations of
              [] \<Rightarrow> raise_res MigrationError (''no SQL migrations found in '' @ directory)
            | first # _ \<Rightarrow>
                if mg_number first \<noteq> 0
                then raise_res MigrationError ''the first migration must be numbered 000''
                else Inr migrations))"

definition render_migration :: "string \<Rightarrow> string \<Rightarrow> string res" where
  "render_migration sql database =
     bind_res (validate_database_name database) (\<lambda>name.
       let rendered = str_replace ''{{database}}'' name sql in
       if contains rendered ''{{'' \<or> contains rendered ''}}''
       then raise_res MigrationError ''unknown or malformed template placeholder in migration''
       else Inr rendered)"

subsection \<open>Splitting\<close>

text \<open>
  The loop of \<open>split_sql_statements\<close>: its local variables are the first arguments, the last is
  what is left of the text from \<open>index\<close> on.
\<close>

definition newline :: char where
  "newline = char_of (10 :: nat)"

definition backtick :: char where
  "backtick = char_of (96 :: nat)"

definition flush :: "string \<Rightarrow> string list \<Rightarrow> string list" where
  "flush buffer statements =
     (let statement = str_strip buffer in if statement = [] then statements else statements @ [statement])"

fun split_loop ::
  "char option \<Rightarrow> bool \<Rightarrow> bool \<Rightarrow> string \<Rightarrow> string list \<Rightarrow> string \<Rightarrow> string list res" where
  "split_loop quote line_comment block_comment buffer statements [] =
     (if quote \<noteq> None then raise_res MigrationError ''unterminated quoted string in migration''
      else if block_comment then raise_res MigrationError ''unterminated block comment in migration''
      else Inr (flush buffer statements))"
| "split_loop quote line_comment block_comment buffer statements (char # rest) =
     (let following = take 1 rest in
      if line_comment
      then if char = newline
           then split_loop quote False block_comment (buffer @ [newline]) statements rest
           else split_loop quote line_comment block_comment buffer statements rest
      else if block_comment
      then if char = CHR ''*'' \<and> following = ''/''
           then split_loop quote line_comment False buffer statements (drop 1 rest)
           else split_loop quote line_comment block_comment buffer statements rest
      else case quote of
        Some q \<Rightarrow>
          if char = backslash \<and> following \<noteq> []
          then split_loop quote line_comment block_comment (buffer @ [char] @ following) statements (drop 1 rest)
          else if char = q
          then if following = [q]
               then split_loop quote line_comment block_comment (buffer @ [char] @ following) statements (drop 1 rest)
               else split_loop None line_comment block_comment (buffer @ [char]) statements rest
          else split_loop quote line_comment block_comment (buffer @ [char]) statements rest
      | None \<Rightarrow>
          if char = CHR ''-'' \<and> following = ''-''
          then split_loop quote True block_comment buffer statements (drop 1 rest)
          else if char = CHR ''/'' \<and> following = ''*''
          then split_loop quote line_comment True buffer statements (drop 1 rest)
          else if char = quote_char \<or> char = dquote_char \<or> char = backtick
          then split_loop (Some char) line_comment block_comment (buffer @ [char]) statements rest
          else if char = CHR '';''
          then split_loop quote line_comment block_comment [] (flush buffer statements) rest
          else split_loop quote line_comment block_comment (buffer @ [char]) statements rest)"

definition split_sql_statements :: "string \<Rightarrow> string list res" where
  "split_sql_statements sql = split_loop None False False [] [] sql"

subsection \<open>The runner\<close>

text \<open>
  The driver: \<open>sc_count\<close> answers a query for a count with its rows, \<open>sc_ledger\<close> a query for ledger
  rows (name and checksum, text or the bytes of a \<open>FixedString\<close>), \<open>sc_command\<close> executes a
  statement. Every one can raise.
\<close>

datatype checksum_value = TextValue string | BytesValue bytes

record 'w sql_client =
  sc_count :: "string \<Rightarrow> ('w, int list list) io"
  sc_ledger :: "string \<Rightarrow> ('w, (string \<times> checksum_value) list) io"
  sc_command :: "string \<Rightarrow> ('w, unit) io"

record 'w migration_runner =
  mr_client :: "'w sql_client"
  mr_database :: string
  mr_directory :: string
  mr_listing :: "dir_entry list option"

record 'w mig_session =
  mi_world :: 'w
  mi_commands :: "string list"

definition mk_migration_runner ::
  "'w sql_client \<Rightarrow> string \<Rightarrow> string \<Rightarrow> dir_entry list option \<Rightarrow> 'w migration_runner res" where
  "mk_migration_runner client database directory listing =
     bind_res (validate_database_name database) (\<lambda>name.
       Inr \<lparr>mr_client = client, mr_database = name, mr_directory = directory, mr_listing = listing\<rparr>)"

definition ledger_table :: "'w migration_runner \<Rightarrow> string" where
  "ledger_table r = mr_database r @ ''.migrations''"

definition asked :: "('w, 'a) io \<Rightarrow> ('w mig_session, 'a) io" where
  "asked m = (\<lambda>s. case m (mi_world s) of (x, w) \<Rightarrow> (x, s\<lparr>mi_world := w\<rparr>))"

definition command :: "'w migration_runner \<Rightarrow> string \<Rightarrow> ('w mig_session, unit) io" where
  "command r statement = (\<lambda>s. asked (sc_command (mr_client r) statement)
     (s\<lparr>mi_commands := mi_commands s @ [statement]\<rparr>))"

definition quoted :: "string \<Rightarrow> string" where
  "quoted s = [quote_char] @ s @ [quote_char]"

definition ledger_exists :: "'w migration_runner \<Rightarrow> ('w mig_session, bool) io" where
  "ledger_exists r =
     bind_io (asked (sc_count (mr_client r)
       (''SELECT count() FROM system.tables WHERE database = '' @ quoted (mr_database r)
        @ '' AND name = '' @ quoted ''migrations''))) (\<lambda>rows.
       case rows of
         [] \<Rightarrow> ret False
       | [] # _ \<Rightarrow> raise (Exn PyException ''tuple index out of range'')
       | (n # _) # _ \<Rightarrow> ret (n = 1))"

definition checksum_text :: "checksum_value \<Rightarrow> string res" where
  "checksum_text v =
     (case v of
        TextValue s \<Rightarrow> Inr s
      | BytesValue bs \<Rightarrow> if list_all (between 0 0x7F) bs then Inr (bytes_text bs)
                        else raise_res ValueError ''ordinal not in range(128)'')"

fun applied_rows :: "(string \<times> checksum_value) list \<Rightarrow> (string \<times> string) list \<Rightarrow> (string \<times> string) list res" where
  "applied_rows [] applied = Inr applied"
| "applied_rows ((name, checksum) # rows) applied =
     bind_res (checksum_text checksum) (\<lambda>normalized_checksum.
       if (case map_of applied name of None \<Rightarrow> False | Some existing \<Rightarrow> existing \<noteq> normalized_checksum)
       then raise_res MigrationChecksumError (''migration ledger has conflicting checksums for '' @ name)
       else applied_rows rows (AList.update name normalized_checksum applied))"

definition ledger_query :: "'w migration_runner \<Rightarrow> string" where
  "ledger_query r = ''SELECT name, checksum FROM '' @ ledger_table r @ '' ORDER BY name, applied_at''"

definition load_applied :: "'w migration_runner \<Rightarrow> ('w mig_session, (string \<times> string) list) io" where
  "load_applied r =
     bind_io (asked (sc_ledger (mr_client r) (ledger_query r))) (\<lambda>rows.
       lift_res (applied_rows rows []))"

definition statements_of :: "'w migration_runner \<Rightarrow> migration \<Rightarrow> string list res" where
  "statements_of r migration =
     bind_res (render_migration (mg_sql migration) (mr_database r)) (\<lambda>rendered.
     bind_res (split_sql_statements rendered) (\<lambda>statements.
       if statements = []
       then raise_res MigrationError (''migration contains no statements: '' @ mg_name migration)
       else Inr statements))"

definition execute_migration :: "'w migration_runner \<Rightarrow> migration \<Rightarrow> ('w mig_session, unit) io" where
  "execute_migration r migration =
     bind_io (lift_res (statements_of r migration)) (\<lambda>statements.
     bind_io (map_io (command r) statements) (\<lambda>_. ret ()))"

definition record_statement :: "'w migration_runner \<Rightarrow> string \<Rightarrow> string \<Rightarrow> string" where
  "record_statement r name checksum =
     ''INSERT INTO '' @ ledger_table r @ '' (name, checksum) VALUES ('' @ quoted name @ '', '' @ quoted checksum @ '')''"

definition record_migration :: "'w migration_runner \<Rightarrow> migration \<Rightarrow> ('w mig_session, unit) io" where
  "record_migration r migration =
     catch_io (command r (record_statement r (mg_name migration) (mg_checksum migration))) (\<lambda>e.
       bind_io (load_applied r) (\<lambda>applied.
         if map_of applied (mg_name migration) \<noteq> Some (mg_checksum migration) then raise e else ret ()))"

fun apply_loop ::
  "'w migration_runner \<Rightarrow> string list \<Rightarrow> (string \<times> string) list \<Rightarrow> migration_outcome list \<Rightarrow> migration list
   \<Rightarrow> ('w mig_session, migration_outcome list) io" where
  "apply_loop r bootstrapped applied outcomes [] = ret outcomes"
| "apply_loop r bootstrapped applied outcomes (migration # migrations) =
     (let name = mg_name migration; checksum = mg_checksum migration in
      case map_of applied name of
        Some recorded_checksum \<Rightarrow>
          if recorded_checksum \<noteq> checksum
          then raise (Exn MigrationChecksumError
                 (''applied migration changed: '' @ name @ ''; database='' @ recorded_checksum @ '', file='' @ checksum))
          else apply_loop r bootstrapped applied
                 (outcomes @ [\<lparr>mo_name = name, mo_checksum = checksum,
                    mo_status = (if name \<in> set bootstrapped then ''applied'' else ''skipped'')\<rparr>]) migrations
      | None \<Rightarrow>
          bind_io (execute_migration r migration) (\<lambda>_.
          bind_io (record_migration r migration) (\<lambda>_.
            apply_loop r bootstrapped (AList.update name checksum applied)
              (outcomes @ [\<lparr>mo_name = name, mo_checksum = checksum, mo_status = ''applied''\<rparr>]) migrations)))"

definition apply_migrations :: "'w migration_runner \<Rightarrow> ('w mig_session, migration_outcome list) io" where
  "apply_migrations r =
     bind_io (lift_res (discover_migrations (mr_directory r) (mr_listing r))) (\<lambda>migrations.
     bind_io (ledger_exists r) (\<lambda>exists.
     bind_io (if exists then ret []
              else bind_io (execute_migration r (hd migrations)) (\<lambda>_.
                   bind_io (record_migration r (hd migrations)) (\<lambda>_. ret [mg_name (hd migrations)])))
       (\<lambda>bootstrapped.
     bind_io (load_applied r) (\<lambda>applied.
       apply_loop r bootstrapped applied [] migrations))))"

subsection \<open>What splitting means\<close>

text \<open>
  The lexical structure of a script: text, quoted literals with their escapes, comments and
  semicolons. A \<open>Line\<close> comment ends with a newline, which is kept; the last comment of a script
  may end with the script instead (\<open>LastLine\<close>).
\<close>

datatype sql_unit = Plain char | Escaped char | Doubled

datatype sql_token =
    Text char
  | Literal char "sql_unit list"
  | Line string
  | LastLine string
  | Block string
  | Semicolon

definition quote_chars :: "char set" where
  "quote_chars = {quote_char, dquote_char, backtick}"

primrec unit_text :: "char \<Rightarrow> sql_unit \<Rightarrow> string" where
  "unit_text q (Plain c) = [c]"
| "unit_text q (Escaped c) = [backslash, c]"
| "unit_text q Doubled = [q, q]"

primrec unit_ok :: "char \<Rightarrow> sql_unit \<Rightarrow> bool" where
  "unit_ok q (Plain c) = (c \<noteq> q \<and> c \<noteq> backslash)"
| "unit_ok q (Escaped c) = True"
| "unit_ok q Doubled = True"

definition literal_text :: "char \<Rightarrow> sql_unit list \<Rightarrow> string" where
  "literal_text q us = concat (map (unit_text q) us)"

inductive lexed :: "sql_token list \<Rightarrow> string \<Rightarrow> bool" where
  lex_end: "lexed [] []"
| lex_last: "newline \<notin> set s \<Longrightarrow> lexed [LastLine s] (''--'' @ s)"
| lex_line: "newline \<notin> set s \<Longrightarrow> lexed ts r \<Longrightarrow> lexed (Line s # ts) (''--'' @ s @ newline # r)"
| lex_block: "\<not> contains s ''*/'' \<Longrightarrow> lexed ts r \<Longrightarrow> lexed (Block s # ts) (''/*'' @ s @ ''*/'' @ r)"
| lex_literal: "q \<in> quote_chars \<Longrightarrow> list_all (unit_ok q) us \<Longrightarrow> take 1 r \<noteq> [q] \<Longrightarrow> lexed ts r
    \<Longrightarrow> lexed (Literal q us # ts) (q # literal_text q us @ q # r)"
| lex_semicolon: "lexed ts r \<Longrightarrow> lexed (Semicolon # ts) (CHR '';'' # r)"
| lex_text: "c \<notin> quote_chars \<Longrightarrow> c \<noteq> CHR '';'' \<Longrightarrow> \<not> (c = CHR ''-'' \<and> take 1 r = ''-'')
    \<Longrightarrow> \<not> (c = CHR ''/'' \<and> take 1 r = ''*'') \<Longrightarrow> lexed ts r \<Longrightarrow> lexed (Text c # ts) (c # r)"

text \<open>What a token contributes to its statement, and the statements of a script.\<close>

fun kept :: "sql_token \<Rightarrow> string" where
  "kept (Text c) = [c]"
| "kept (Literal q us) = q # literal_text q us @ [q]"
| "kept (Line s) = [newline]"
| "kept _ = []"

fun segments :: "sql_token list \<Rightarrow> string list" where
  "segments [] = [[]]"
| "segments (Semicolon # ts) = [] # segments ts"
| "segments (t # ts) = (case segments ts of [] \<Rightarrow> [kept t] | x # xs \<Rightarrow> (kept t @ x) # xs)"

definition script_statements :: "sql_token list \<Rightarrow> string list" where
  "script_statements ts = filter (\<lambda>s. s \<noteq> []) (map str_strip (segments ts))"

lemma segments_Cons: "\<exists>x xs. segments ts = x # xs"
  by (induction ts rule: segments.induct) (auto split: list.splits)

lemma quote_chars_facts:
  "q \<in> quote_chars \<Longrightarrow> q \<noteq> CHR ''-''" "q \<in> quote_chars \<Longrightarrow> q \<noteq> CHR ''/''"
  "q \<in> quote_chars \<Longrightarrow> q \<noteq> backslash" "q \<in> quote_chars \<Longrightarrow> q \<noteq> CHR '';''"
  "q \<in> quote_chars \<longleftrightarrow> q = quote_char \<or> q = dquote_char \<or> q = backtick"
  by (auto simp: quote_chars_def quote_char_def dquote_char_def backtick_def backslash_def char_of_def)

lemma flush_filter: "flush b sts = sts @ filter (\<lambda>s. s \<noteq> []) [str_strip b]"
  by (simp add: flush_def Let_def)

subsection \<open>The loop on one token\<close>

lemma split_line:
  "newline \<notin> set s \<Longrightarrow> split_loop None True False b sts (s @ newline # r) = split_loop None False False (b @ [newline]) sts r"
  by (induction s) (auto simp: Let_def)

lemma split_last: "newline \<notin> set s \<Longrightarrow> split_loop None True False b sts s = Inr (flush b sts)"
  by (induction s) (auto simp: Let_def)

lemma split_block:
  "\<not> contains s ''*/'' \<Longrightarrow> split_loop None False True b sts (s @ ''*/'' @ r) = split_loop None False False b sts r"
proof (induction s)
  case (Cons c s)
  then show ?case by (cases s) (auto simp: Let_def)
qed (simp add: Let_def)

lemma split_literal:
  assumes "q \<in> quote_chars" and "take 1 r \<noteq> [q]" and "list_all (unit_ok q) us"
  shows "split_loop (Some q) False False b sts (literal_text q us @ q # r)
    = split_loop None False False (b @ literal_text q us @ [q]) sts r"
  using assms(3)
proof (induction us arbitrary: b)
  case Nil
  with assms(2) quote_chars_facts(3) [OF assms(1)] show ?case by (auto simp: literal_text_def Let_def)
next
  case (Cons u us)
  with quote_chars_facts(3) [OF assms(1)] show ?case
    by (cases u) (auto simp: literal_text_def Let_def)
qed

lemma split_lexed:
  "lexed ts s \<Longrightarrow> split_loop None False False b sts s
     = Inr (sts @ filter (\<lambda>s. s \<noteq> []) (map str_strip ((b @ hd (segments ts)) # tl (segments ts))))"
proof (induction arbitrary: b sts rule: lexed.induct)
  case (lex_last s)
  then show ?case by (simp add: Let_def split_last flush_filter)
next
  case (lex_line s ts r)
  with segments_Cons [of ts] show ?case by (auto simp: Let_def split_line)
next
  case (lex_block s ts r)
  with segments_Cons [of ts] show ?case by (auto simp: Let_def split_block [simplified])
next
  case (lex_literal q us r ts)
  with segments_Cons [of ts] quote_chars_facts [of q] show ?case by (auto simp: Let_def split_literal)
next
  case (lex_semicolon ts r)
  with segments_Cons [of ts] show ?case
    by (auto simp: Let_def flush_filter quote_char_def dquote_char_def backtick_def char_of_def)
next
  case (lex_text c r ts)
  with segments_Cons [of ts] quote_chars_facts(5) [of c] show ?case by (auto simp: Let_def)
qed (simp add: flush_filter)

text \<open>
  Conversely a run of the loop that raises nothing has read such a structure; inside a comment or
  a literal, the rest of it and then such a structure.
\<close>

fun resumes :: "char option \<Rightarrow> bool \<Rightarrow> bool \<Rightarrow> string \<Rightarrow> bool" where
  "resumes None False False s = (\<exists>ts. lexed ts s)"
| "resumes None True False s =
     (newline \<notin> set s \<or> (\<exists>p r ts. s = p @ newline # r \<and> newline \<notin> set p \<and> lexed ts r))"
| "resumes None False True s = (\<exists>p r ts. s = p @ ''*/'' @ r \<and> \<not> contains p ''*/'' \<and> lexed ts r)"
| "resumes (Some q) False False s =
     (q \<in> quote_chars \<longrightarrow> (\<exists>us r ts. s = literal_text q us @ q # r \<and> list_all (unit_ok q) us
        \<and> take 1 r \<noteq> [q] \<and> lexed ts r))"
| "resumes _ _ _ s = True"

lemma resumes_line: "resumes None True False s \<Longrightarrow> \<exists>ts. lexed ts (''--'' @ s)"
  by (auto intro: lexed.intros simp del: append.simps)

lemma resumes_block: "resumes None False True s \<Longrightarrow> \<exists>ts. lexed ts (''/*'' @ s)"
  by (auto intro: lexed.intros simp del: append.simps)

lemma resumes_literal: "resumes (Some q) False False s \<Longrightarrow> q \<in> quote_chars \<Longrightarrow> \<exists>ts. lexed ts (q # s)"
  by (auto dest: lex_literal)

lemma resumes_line_step:
  "resumes None False False r \<Longrightarrow> resumes None True False (newline # r)"
  "c \<noteq> newline \<Longrightarrow> resumes None True False r \<Longrightarrow> resumes None True False (c # r)"
proof -
  show "resumes None False False r \<Longrightarrow> resumes None True False (newline # r)"
    by (simp, rule exI [of _ "[]"], auto)
  assume c: "c \<noteq> newline" and "resumes None True False r"
  then consider "newline \<notin> set r" | p r' ts where "r = p @ newline # r'" "newline \<notin> set p" "lexed ts r'" by auto
  then show "resumes None True False (c # r)"
  proof cases
    case 2
    with c have "c # r = (c # p) @ newline # r' \<and> newline \<notin> set (c # p) \<and> lexed ts r'" by auto
    then show ?thesis unfolding resumes.simps by blast
  qed (use c in simp)
qed

lemma resumes_block_step:
  "resumes None False False r \<Longrightarrow> resumes None False True (''*/'' @ r)"
  "\<not> (c = CHR ''*'' \<and> take 1 r = ''/'') \<Longrightarrow> resumes None False True r \<Longrightarrow> resumes None False True (c # r)"
proof -
  show "resumes None False False r \<Longrightarrow> resumes None False True (''*/'' @ r)"
    by simp (rule exI [of _ "[]"], auto)
  assume c: "\<not> (c = CHR ''*'' \<and> take 1 r = ''/'')" and "resumes None False True r"
  then obtain p r' ts where p: "r = p @ ''*/'' @ r'" "\<not> contains p ''*/''" "lexed ts r'" by auto
  with c have "\<not> contains (c # p) ''*/''" by (cases p) auto
  with p have "c # r = (c # p) @ ''*/'' @ r' \<and> \<not> contains (c # p) ''*/'' \<and> lexed ts r'" by simp
  then show "resumes None False True (c # r)" unfolding resumes.simps by blast
qed

lemma resumes_literal_step:
  assumes "resumes (Some q) False False r" and "unit_ok q u"
  shows "resumes (Some q) False False (unit_text q u @ r)"
proof (cases "q \<in> quote_chars")
  case True
  with assms(1) obtain us r' ts where r: "r = literal_text q us @ q # r'" "list_all (unit_ok q) us"
    "take 1 r' \<noteq> [q]" "lexed ts r'" by auto
  with assms(2) have "unit_text q u @ r = literal_text q (u # us) @ q # r' \<and> list_all (unit_ok q) (u # us)"
    by (simp add: literal_text_def)
  with r show ?thesis unfolding resumes.simps by blast
qed simp

lemma resumes_literal_end:
  "resumes None False False r \<Longrightarrow> take 1 r \<noteq> [q] \<Longrightarrow> resumes (Some q) False False (q # r)"
  by simp (rule impI, rule exI [of _ "[]"], auto simp: literal_text_def)

lemma take1_drop1: "take 1 r = [c] \<Longrightarrow> r = c # drop 1 r"
  by (cases r) auto

lemma split_resumes:
  "split_loop quote line block b sts s = Inr out \<Longrightarrow> resumes quote line block s"
proof (induction s arbitrary: quote line block b sts rule: length_induct)
  case (1 s)
  note IH = "1.IH" [rule_format] and run = "1.prems"
  show ?case
  proof (cases s)
    case Nil
    with run show ?thesis
      by (cases "(quote, line, block, s)" rule: resumes.cases) (auto intro: lexed.intros split: if_splits)
  next
    case (Cons c r)
    then have len: "length r < length s" "length (drop 1 r) < length s" by auto
    show ?thesis
    proof (cases "(quote, line, block, s)" rule: resumes.cases)
      case (1 s')
      with run Cons consider
          (line) b' where "c = CHR ''-''" "take 1 r = ''-''" "split_loop None True False b' sts (drop 1 r) = Inr out"
        | (block) b' where "c = CHR ''/''" "take 1 r = ''*''" "split_loop None False True b' sts (drop 1 r) = Inr out"
        | (literal) b' where "c \<in> quote_chars" "split_loop (Some c) False False b' sts r = Inr out"
        | (semicolon) b' sts' where "c = CHR '';''" "split_loop None False False b' sts' r = Inr out"
        | (other) b' where "c \<notin> quote_chars" "c \<noteq> CHR '';''" "\<not> (c = CHR ''-'' \<and> take 1 r = ''-'')"
            "\<not> (c = CHR ''/'' \<and> take 1 r = ''*'')" "split_loop None False False b' sts r = Inr out"
        unfolding quote_chars_facts(5) by (auto simp: Let_def split: if_splits)
      then show ?thesis
      proof cases
        case line
        with resumes_line [OF IH [OF len(2) line(3)]] take1_drop1 [OF line(2)] 1 Cons show ?thesis by auto
      next
        case block
        with resumes_block [OF IH [OF len(2) block(3)]] take1_drop1 [OF block(2)] 1 Cons show ?thesis by auto
      next
        case literal
        with resumes_literal [OF IH [OF len(1) literal(2)]] 1 Cons show ?thesis by auto
      next
        case semicolon
        with IH [OF len(1) semicolon(2)] 1 Cons show ?thesis by (auto intro: lex_semicolon)
      next
        case other
        with IH [OF len(1) other(5)] 1 Cons show ?thesis by (auto dest: lex_text)
      qed
    next
      case (2 s')
      with run Cons IH [OF len(1)] show ?thesis
        by (cases "c = newline") (auto simp: Let_def simp del: resumes.simps intro: resumes_line_step)
    next
      case (3 s')
      show ?thesis
      proof (cases "c = CHR ''*'' \<and> take 1 r = ''/''")
        case True
        with run Cons 3 have "split_loop None False False b sts (drop 1 r) = Inr out" by (auto simp: Let_def)
        from resumes_block_step(1) [OF IH [OF len(2) this]] True take1_drop1 [of r] 3 Cons show ?thesis by auto
      next
        case False
        with run Cons 3 have "split_loop None False True b sts r = Inr out" by (auto simp: Let_def)
        from resumes_block_step(2) [OF False IH [OF len(1) this]] 3 Cons show ?thesis by simp
      qed
    next
      case (4 q s')
      with run Cons consider
          (escaped) x b' where "c = backslash" "r = x # drop 1 r" "split_loop (Some q) False False b' sts (drop 1 r) = Inr out"
        | (doubled) b' where "c = q" "r = q # drop 1 r" "split_loop (Some q) False False b' sts (drop 1 r) = Inr out"
        | (closed) b' where "c = q" "take 1 r \<noteq> [q]" "split_loop None False False b' sts r = Inr out"
        | (plain) b' where "c \<noteq> q" "c \<noteq> backslash" "split_loop (Some q) False False b' sts r = Inr out"
        | (last) b' where "r = []" "split_loop (Some q) False False b' sts r = Inr out"
        by (cases r) (auto simp: Let_def split: if_splits)
      then show ?thesis
      proof cases
        case escaped
        from resumes_literal_step [OF IH [OF len(2) escaped(3)], of "Escaped x"] escaped(1,2) 4 Cons show ?thesis
          by (metis append_Cons append_Nil prod.inject unit_ok.simps(2) unit_text.simps(2))
      next
        case doubled
        from resumes_literal_step [OF IH [OF len(2) doubled(3)], of Doubled] doubled(1,2) 4 Cons show ?thesis
          by (metis append_Cons append_Nil prod.inject unit_ok.simps(3) unit_text.simps(3))
      next
        case closed
        from resumes_literal_end [OF IH [OF len(1) closed(3)] closed(2)] closed(1) 4 Cons show ?thesis by simp
      next
        case plain
        from resumes_literal_step [OF IH [OF len(1) plain(3)], of "Plain c"] plain(1,2) 4 Cons show ?thesis by simp
      next
        case last
        then show ?thesis by simp
      qed
    qed simp_all
  qed
qed

text \<open>
  C40: splitting is exact. \<open>split_sql_statements\<close> returns exactly on the scripts that have the
  lexical structure \<open>lexed\<close> (quoted literals and block comments closed; within a literal a backslash
  escapes one character and a doubled quote stands for itself), and then returns the texts between
  the semicolons that stand outside every literal and comment, with comments removed, the white
  space around them stripped and empty ones dropped. A semicolon inside a literal never splits it.
\<close>
theorem split_sql_statements_exact:
  "split_sql_statements sql = Inr statements \<longleftrightarrow> (\<exists>ts. lexed ts sql \<and> statements = script_statements ts)"
proof
  assume run: "split_sql_statements sql = Inr statements"
  then obtain ts where "lexed ts sql"
    using split_resumes [of None False False "[]" "[]" sql] by (auto simp: split_sql_statements_def)
  with run split_lexed [of ts sql "[]" "[]"] segments_Cons [of ts]
  show "\<exists>ts. lexed ts sql \<and> statements = script_statements ts"
    by (auto simp: split_sql_statements_def script_statements_def)
next
  assume "\<exists>ts. lexed ts sql \<and> statements = script_statements ts"
  then obtain ts where "lexed ts sql" "statements = script_statements ts" by blast
  with split_lexed [of ts sql "[]" "[]"] segments_Cons [of ts]
  show "split_sql_statements sql = Inr statements"
    by (auto simp: split_sql_statements_def script_statements_def)
qed

subsection \<open>Discovered migrations\<close>

definition sql_file :: "dir_entry \<Rightarrow> bool" where
  "sql_file p \<longleftrightarrow> de_is_file p \<and> has_sql_suffix (de_name p)"

definition path_number :: "dir_entry \<Rightarrow> int" where
  "path_number p = number_of_digits (take 3 (de_name p))"

definition migration_of :: "string \<Rightarrow> dir_entry \<Rightarrow> migration" where
  "migration_of directory p = \<lparr>mg_number = path_number p, mg_name = de_name p,
     mg_path = directory @ ''/'' @ de_name p, mg_checksum = sha256_hex (de_bytes p),
     mg_sql = bytes_text (de_bytes p)\<rparr>"

lemma discover_loop_Inr:
  assumes "discover_loop directory ps numbers acc = Inr ms"
  shows "ms = acc @ map (migration_of directory) (filter sql_file ps)
    \<and> list_all (\<lambda>p. MIGRATION_RE (de_name p) \<and> valid_utf8 (de_bytes p)) (filter sql_file ps)
    \<and> distinct (map path_number (filter sql_file ps))
    \<and> (\<forall>p \<in> set (filter sql_file ps). path_number p \<notin> fst ` set numbers)"
  using assms
proof (induction directory ps numbers acc rule: discover_loop.induct)
  case (2 directory p ps numbers acc)
  show ?case
  proof (cases "sql_file p")
    case False
    with 2 show ?thesis by (simp add: sql_file_def)
  next
    case True
    from True 2(3) have ok: "MIGRATION_RE (de_name p)" "valid_utf8 (de_bytes p)" "map_of numbers (path_number p) = None"
      and rest: "discover_loop directory ps ((path_number p, de_name p) # numbers) (acc @ [migration_of directory p]) = Inr ms"
      by (auto simp: sql_file_def Let_def migration_of_def path_number_def split: if_splits option.splits)
    from 2(2) [of "path_number p"] True ok rest show ?thesis
      by (auto simp: sql_file_def map_of_eq_None_iff path_number_def migration_of_def)
  qed
qed simp

lemma digits_order:
  assumes "MIGRATION_RE x" and "MIGRATION_RE y" and "x \<le> y"
  shows "number_of_digits (take 3 x) \<le> number_of_digits (take 3 y)"
proof -
  have three: "\<exists>a b c r. s = a # b # c # r \<and> is_digit_char a \<and> is_digit_char b \<and> is_digit_char c"
    if "MIGRATION_RE s" for s
  proof -
    from that have "3 < length s" "list_all is_digit_char (take 3 s)" by (auto simp: MIGRATION_RE_def)
    then show ?thesis
      by (cases s; cases "tl s"; cases "tl (tl s)") (auto simp: numeral_3_eq_3)
  qed
  obtain a b c r where x: "x = a # b # c # r" "is_digit_char a" "is_digit_char b" "is_digit_char c"
    using three [OF assms(1)] by blast
  obtain a' b' c' r' where y: "y = a' # b' # c' # r'" "is_digit_char a'" "is_digit_char b'" "is_digit_char c'"
    using three [OF assms(2)] by blast
  have less: "u < v \<longleftrightarrow> char_nat u < char_nat v" for u v :: char by (simp add: char_nat_def less_char_def)
  from assms(3) have "char_nat a < char_nat a' \<or> a = a' \<and> (char_nat b < char_nat b' \<or> b = b' \<and>
      (char_nat c < char_nat c' \<or> c = c'))"
    by (auto simp: x(1) y(1) less)
  then show ?thesis using x(2-4) y(2-4)
    by (auto simp: x(1) y(1) number_of_digits_def is_digit_char_def numeral_3_eq_3)
qed

definition in_order :: "migration list \<Rightarrow> bool" where
  "in_order ms \<longleftrightarrow> ms \<noteq> [] \<and> mg_number (hd ms) = 0 \<and> sorted_wrt (<) (map mg_number ms) \<and> distinct (map mg_name ms)"

lemma discover_migrations_Inr:
  assumes "discover_migrations directory listing = Inr ms"
  shows "in_order ms \<and> (\<exists>entries. listing = Some entries
    \<and> ms = map (migration_of directory) (filter sql_file (sort_key de_name entries)))"
proof -
  from assms obtain entries found where f: "listing = Some entries"
    "discover_loop directory (sort_key de_name entries) [] [] = Inr found"
    "(case found of [] \<Rightarrow> raise_res MigrationError (''no SQL migrations found in '' @ directory)
      | first # _ \<Rightarrow> if mg_number first \<noteq> 0
          then raise_res MigrationError ''the first migration must be numbered 000'' else Inr found) = Inr ms"
    by (auto simp: discover_migrations_def bind_res_Inr split: option.splits)
  then have e: "listing = Some entries" "discover_loop directory (sort_key de_name entries) [] [] = Inr ms"
    "ms \<noteq> []" "mg_number (hd ms) = 0"
    by (cases found; auto split: if_splits)+
  let ?ps = "filter sql_file (sort_key de_name entries)"
  from discover_loop_Inr [OF e(2)] have ms: "ms = map (migration_of directory) ?ps"
    and ok: "list_all (\<lambda>p. MIGRATION_RE (de_name p)) ?ps" and d: "distinct (map path_number ?ps)"
    by (auto simp: list_all_iff)
  have names: "map mg_name ms = map de_name ?ps" and numbers: "map mg_number ms = map path_number ?ps"
    by (simp_all add: ms migration_of_def)
  have "sorted (map de_name ?ps)" by (rule sorted_filter, rule sorted_sort_key)
  then have "sorted_wrt (\<lambda>p q. de_name p \<le> de_name q) ?ps" by (simp only: sorted_map)
  with ok have "sorted_wrt (\<lambda>p q. path_number p \<le> path_number q) ?ps"
    by (elim sorted_wrt_mono_rel [rotated]) (auto simp: list_all_iff path_number_def intro: digits_order)
  then have "sorted (map mg_number ms)" unfolding numbers by (simp only: sorted_map)
  with d have "sorted_wrt (<) (map mg_number ms)" unfolding numbers by (simp add: strict_sorted_iff)
  moreover have "distinct (map mg_name ms)"
    using d unfolding names by (auto simp: distinct_map inj_on_def path_number_def)
  ultimately show ?thesis using e ms by (auto simp: in_order_def)
qed

subsection \<open>Commands of a run\<close>

text \<open>
  \<open>issues m P\<close>: the commands \<open>m\<close> hands to the driver, whatever it returns or raises, satisfy \<open>P\<close>.
\<close>

definition issues :: "('w mig_session, 'a) io \<Rightarrow> (string list \<Rightarrow> 'a res \<Rightarrow> bool) \<Rightarrow> bool" where
  "issues m P \<longleftrightarrow> (\<forall>s res s'. m s = (res, s') \<longrightarrow> (\<exists>l. mi_commands s' = mi_commands s @ l \<and> P l res))"

lemma issuesD: "issues m P \<Longrightarrow> m s = (res, s') \<Longrightarrow> \<exists>l. mi_commands s' = mi_commands s @ l \<and> P l res"
  unfolding issues_def by blast

lemma issues_mono: "issues m P \<Longrightarrow> (\<And>l res. P l res \<Longrightarrow> Q l res) \<Longrightarrow> issues m Q"
  unfolding issues_def by meson

lemma issues_ret: "P [] (Inr x) \<Longrightarrow> issues (ret x) P"
  by (simp add: issues_def ret_def)

lemma issues_raise: "P [] (Inl e) \<Longrightarrow> issues (raise e) P"
  by (simp add: issues_def raise_def)

lemma issues_lift: "P [] x \<Longrightarrow> issues (lift_res x) P"
  by (cases x) (simp_all add: issues_def)

lemma issues_asked: "(\<And>res. P [] res) \<Longrightarrow> issues (asked m) P"
  by (auto simp: issues_def asked_def split: prod.splits)

lemma issues_command: "(\<And>res. P [st] res) \<Longrightarrow> issues (command r st) P"
  by (auto simp: issues_def command_def asked_def split: prod.splits)

lemma issues_bind:
  assumes "issues m P" and "\<And>x s l. m s = (Inr x, s) \<or> P l (Inr x) \<Longrightarrow> issues (f x) (Q x)"
    and "\<And>l e. P l (Inl e) \<Longrightarrow> R l (Inl e)"
    and "\<And>l x k res. P l (Inr x) \<Longrightarrow> Q x k res \<Longrightarrow> R (l @ k) res"
  shows "issues (bind_io m f) R"
  unfolding issues_def
proof (intro allI impI)
  fix s res s' assume run: "bind_io m f s = (res, s')"
  obtain x s1 where m: "m s = (x, s1)" by fastforce
  from issuesD [OF assms(1) m] obtain l where l: "mi_commands s1 = mi_commands s @ l" "P l x" by blast
  show "\<exists>l. mi_commands s' = mi_commands s @ l \<and> R l res"
  proof (cases x)
    case (Inl e)
    with run m l assms(3) show ?thesis by (auto simp: bind_io_def)
  next
    case (Inr y)
    with run m have f: "f y s1 = (res, s')" by (simp add: bind_io_def)
    from issuesD [OF assms(2) f] l Inr obtain k where "mi_commands s' = mi_commands s1 @ k" "Q y k res" by blast
    with l Inr assms(4) show ?thesis by fastforce
  qed
qed

lemma issues_catch:
  assumes "issues m P" and "\<And>e. issues (h e) (\<lambda>l res. l = [])"
    and "\<And>l x res. P l x \<Longrightarrow> R l res"
  shows "issues (catch_io m h) R"
  unfolding issues_def
proof (intro allI impI)
  fix s res s' assume run: "catch_io m h s = (res, s')"
  obtain x s1 where m: "m s = (x, s1)" by fastforce
  from issuesD [OF assms(1) m] obtain l where l: "mi_commands s1 = mi_commands s @ l" "P l x" by blast
  from run m issuesD [OF assms(2)] have "mi_commands s' = mi_commands s1"
    by (cases x) (fastforce simp: catch_io_def)+
  with l assms(3) [OF l(2)] show "\<exists>l. mi_commands s' = mi_commands s @ l \<and> R l res" by metis
qed

lemma issues_map_commands:
  "issues (map_io (command r) sts) (\<lambda>l res. (\<exists>k. sts = l @ k) \<and> (\<forall>x. res = Inr x \<longrightarrow> l = sts))"
proof (induction sts)
  case Nil
  show ?case unfolding map_io.simps by (rule issues_ret) simp
next
  case (Cons st sts)
  have "issues (bind_io (map_io (command r) sts) (\<lambda>ys. ret (() # ys)))
      (\<lambda>l res. (\<exists>k. sts = l @ k) \<and> (\<forall>x. res = Inr x \<longrightarrow> l = sts))"
    by (rule issues_bind [OF Cons issues_ret [of "\<lambda>l res. l = []"]]) auto
  then show ?case unfolding map_io.simps
    by - (rule issues_bind [OF issues_command [of "\<lambda>l res. l = [st]"]], auto)
qed

subsection \<open>One migration and the pending ones\<close>

text \<open>
  The commands of one migration: its statements, then the ledger insert. A run that fails may have
  sent only a part of them.
\<close>

definition commands_of :: "'w migration_runner \<Rightarrow> migration \<Rightarrow> string list res" where
  "commands_of r m = map_sum id (\<lambda>sts. sts @ [record_statement r (mg_name m) (mg_checksum m)]) (statements_of r m)"

definition sent_part :: "'w migration_runner \<Rightarrow> migration \<Rightarrow> string list \<Rightarrow> bool" where
  "sent_part r m l \<longleftrightarrow> l = [] \<or> (\<exists>k. commands_of r m = Inr (l @ k))"

definition run_one :: "'w migration_runner \<Rightarrow> migration \<Rightarrow> ('w mig_session, unit) io" where
  "run_one r m = bind_io (execute_migration r m) (\<lambda>_. record_migration r m)"

lemma issues_load: "(\<And>res. P [] res) \<Longrightarrow> issues (load_applied r) P"
  unfolding load_applied_def
  by (rule issues_bind [OF issues_asked [of "\<lambda>l res. l = []"] issues_lift [of "\<lambda>l res. l = []"]]) auto

lemma issues_record:
  "issues (record_migration r m) (\<lambda>l res. l = [record_statement r (mg_name m) (mg_checksum m)])"
proof -
  have "issues (bind_io (load_applied r) (\<lambda>applied.
      if map_of applied (mg_name m) \<noteq> Some (mg_checksum m) then raise e else ret ())) (\<lambda>l res. l = [])" for e :: exn
    by (rule issues_bind [OF issues_load [of "\<lambda>l res. l = []"], where Q = "\<lambda>_ l res. l = []"])
      (auto intro: issues_raise issues_ret)
  note readback = this
  show ?thesis unfolding record_migration_def
    by (rule issues_catch [OF issues_command [of "\<lambda>l res. l = [record_statement r (mg_name m) (mg_checksum m)]"] readback])
      auto
qed

lemma issues_run_one:
  "issues (run_one r m) (\<lambda>l res. sent_part r m l \<and> (\<forall>x. res = Inr x \<longrightarrow> commands_of r m = Inr l))"
proof (cases "statements_of r m")
  case (Inl e)
  then show ?thesis by (auto simp: issues_def run_one_def execute_migration_def bind_io_def sent_part_def)
next
  case (Inr sts)
  then have c: "commands_of r m = Inr (sts @ [record_statement r (mg_name m) (mg_checksum m)])"
    by (simp add: commands_of_def)
  have "issues (execute_migration r m) (\<lambda>l res. (\<exists>k. sts = l @ k) \<and> (\<forall>x. res = Inr x \<longrightarrow> l = sts))"
    unfolding execute_migration_def Inr
    by (rule issues_bind [OF issues_lift [of "\<lambda>l res. l = [] \<and> res = Inr sts"]])
      (auto intro!: issues_bind [OF issues_map_commands issues_ret [of "\<lambda>l res. l = []"]])
  then show ?thesis unfolding run_one_def
    by (rule issues_bind [OF _ issues_record]) (auto simp: sent_part_def c)
qed

text \<open>
  The migrations a run owes: those before the first changed one that the ledger does not hold. A
  run sends the commands of each in turn and may stop within one.
\<close>

definition drifted :: "(string \<times> string) list \<Rightarrow> migration \<Rightarrow> bool" where
  "drifted applied m \<longleftrightarrow> map_of applied (mg_name m) \<noteq> None \<and> map_of applied (mg_name m) \<noteq> Some (mg_checksum m)"

definition missing :: "(string \<times> string) list \<Rightarrow> migration list \<Rightarrow> migration list" where
  "missing applied ms =
     filter (\<lambda>m. map_of applied (mg_name m) = None) (takeWhile (\<lambda>m. \<not> drifted applied m) ms)"

definition outcome_of :: "string list \<Rightarrow> (string \<times> string) list \<Rightarrow> migration \<Rightarrow> migration_outcome" where
  "outcome_of bootstrapped applied m = \<lparr>mo_name = mg_name m, mo_checksum = mg_checksum m,
     mo_status = (if map_of applied (mg_name m) = None \<or> mg_name m \<in> set bootstrapped
                  then ''applied'' else ''skipped'')\<rparr>"

inductive ran :: "'w migration_runner \<Rightarrow> migration list \<Rightarrow> string list \<Rightarrow> bool \<Rightarrow> bool" for r where
  ran_all: "ran r [] [] True"
| ran_stop: "sent_part r m l \<Longrightarrow> ran r (m # ms) l False"
| ran_next: "commands_of r m = Inr l \<Longrightarrow> ran r ms k fin \<Longrightarrow> ran r (m # ms) (l @ k) fin"

text \<open>The ledger as the database reported it in some state.\<close>

definition ledger_reported :: "'w migration_runner \<Rightarrow> (string \<times> string) list \<Rightarrow> bool" where
  "ledger_reported r applied \<longleftrightarrow>
     (\<exists>w w' rows. sc_ledger (mr_client r) (ledger_query r) w = (Inr rows, w') \<and> applied_rows rows [] = Inr applied)"

definition loop_spec ::
  "'w migration_runner \<Rightarrow> string list \<Rightarrow> (string \<times> string) list \<Rightarrow> migration list \<Rightarrow> migration_outcome list
   \<Rightarrow> string list \<Rightarrow> migration_outcome list res \<Rightarrow> bool" where
  "loop_spec r bootstrapped applied ms outs l res \<longleftrightarrow>
     (\<exists>fin. ran r (missing applied ms) l fin
       \<and> (\<forall>os. res = Inr os \<longrightarrow> fin \<and> (\<forall>m \<in> set ms. \<not> drifted applied m)
            \<and> os = outs @ map (outcome_of bootstrapped applied) ms))"

lemma run_one_bind:
  "bind_io (execute_migration r m) (\<lambda>_. bind_io (record_migration r m) f) = bind_io (run_one r m) f"
  by (auto simp: run_one_def bind_io_def fun_eq_iff split: prod.splits sum.splits)

lemma issues_apply_loop:
  assumes "distinct (map mg_name ms)" and "\<forall>m \<in> set ms. map_of now (mg_name m) = map_of applied (mg_name m)"
  shows "issues (apply_loop r bootstrapped now outs ms) (loop_spec r bootstrapped applied ms outs)"
  using assms
proof (induction ms arbitrary: now outs)
  case Nil
  show ?case unfolding apply_loop.simps
    by (rule issues_ret) (auto simp: loop_spec_def missing_def intro: ran_all)
next
  case (Cons m ms)
  show ?case
  proof (cases "map_of now (mg_name m)")
    case None
    then have none: "map_of applied (mg_name m) = None" using Cons.prems(2) by simp
    let ?now = "AList.update (mg_name m) (mg_checksum m) now"
    let ?outs = "outs @ [\<lparr>mo_name = mg_name m, mo_checksum = mg_checksum m, mo_status = ''applied''\<rparr>]"
    have miss: "missing applied (m # ms) = m # missing applied ms" by (simp add: missing_def drifted_def none)
    have next_ok: "issues (apply_loop r bootstrapped ?now ?outs ms) (loop_spec r bootstrapped applied ms ?outs)"
      by (rule Cons.IH) (use Cons.prems in \<open>auto simp: update_conv' image_iff\<close>)
    have "issues (bind_io (run_one r m) (\<lambda>_. apply_loop r bootstrapped ?now ?outs ms))
        (loop_spec r bootstrapped applied (m # ms) outs)"
    proof (rule issues_bind [OF issues_run_one next_ok], goal_cases)
      case (1 l e)
      then show ?case unfolding loop_spec_def miss by (auto intro: ran_stop)
    next
      case (2 l x k res)
      then obtain fin where "commands_of r m = Inr l" "ran r (missing applied ms) k fin"
        "\<forall>os. res = Inr os \<longrightarrow> fin \<and> (\<forall>m \<in> set ms. \<not> drifted applied m)
            \<and> os = ?outs @ map (outcome_of bootstrapped applied) ms"
        unfolding loop_spec_def by auto
      then show ?case unfolding loop_spec_def miss
        by (intro exI [of _ fin]) (auto intro: ran_next simp: drifted_def none outcome_of_def)
    qed
    then show ?thesis using None by (simp add: Let_def run_one_bind)
  next
    case (Some c)
    then have some: "map_of applied (mg_name m) = Some c" using Cons.prems(2) by simp
    show ?thesis
    proof (cases "c = mg_checksum m")
      case True
      let ?outs = "outs @ [\<lparr>mo_name = mg_name m, mo_checksum = mg_checksum m,
        mo_status = (if mg_name m \<in> set bootstrapped then ''applied'' else ''skipped'')\<rparr>]"
      have "issues (apply_loop r bootstrapped now ?outs ms) (loop_spec r bootstrapped applied ms ?outs)"
        by (rule Cons.IH) (use Cons.prems in auto)
      then have "issues (apply_loop r bootstrapped now ?outs ms) (loop_spec r bootstrapped applied (m # ms) outs)"
        by (rule issues_mono)
          (auto simp: loop_spec_def missing_def drifted_def some True outcome_of_def)
      then show ?thesis using Some True by (simp add: Let_def)
    next
      case False
      with some have "missing applied (m # ms) = []" by (simp add: missing_def drifted_def)
      then have "loop_spec r bootstrapped applied (m # ms) outs [] (Inl e)" for e
        by (auto simp: loop_spec_def intro: ran_all)
      with Some False show ?thesis by (auto simp: Let_def simp del: append.simps intro!: issues_raise [unfolded raise_def])
    qed
  qed
qed


text \<open>Text between two visible ASCII characters is not stripped.\<close>

definition graphic :: "char \<Rightarrow> bool" where
  "graphic c \<longleftrightarrow> 33 \<le> char_nat c \<and> char_nat c \<le> 126"

lemma white_space_codes: "list_all (\<lambda>u. u \<noteq> [] \<and> \<not> graphic (hd u) \<and> \<not> graphic (last u)) white_space"
  by (simp add: white_space_def graphic_def char_nat_def upt_rec)

lemma strip_front_graphic:
  "list_all (\<lambda>u. u \<noteq> [] \<and> \<not> graphic (hd u)) units \<Longrightarrow> graphic c \<Longrightarrow> strip_front units (c # cs) = c # cs"
proof -
  assume "list_all (\<lambda>u. u \<noteq> [] \<and> \<not> graphic (hd u)) units" and "graphic c"
  then have "find (\<lambda>u. u \<noteq> [] \<and> is_prefix u (c # cs)) units = None"
    by (induction units) (auto simp: neq_Nil_conv)
  then show ?thesis by simp
qed

lemma str_strip_Nil: "str_strip [] = []"
  by (simp add: str_strip_def)

lemma str_strip_graphic: "graphic c \<Longrightarrow> str_strip [c] = [c]"
proof -
  assume c: "graphic c"
  have "list_all (\<lambda>u. u \<noteq> [] \<and> \<not> graphic (hd u)) white_space"
    "list_all (\<lambda>u. u \<noteq> [] \<and> \<not> graphic (hd u)) (map rev white_space)"
    using white_space_codes by (auto simp: list_all_iff hd_rev)
  from this [THEN strip_front_graphic, OF c, of "[]"] show ?thesis
    by (simp add: str_strip_def del: strip_front.simps)
qed

definition sample_entry :: dir_entry where
  "sample_entry = \<lparr>de_name = ''000_a.sql'', de_is_file = True,
     de_bytes = map of_nat [123, 123, 100, 97, 116, 97, 98, 97, 115, 101, 125, 125, 59]\<rparr>"

definition sample_migrations :: "unit migration_runner" where
  "sample_migrations = \<lparr>mr_client = \<lparr>sc_count = (\<lambda>_. ret [[1]]), sc_ledger = (\<lambda>_. ret []), sc_command = (\<lambda>_. ret ())\<rparr>,
     mr_database = ''d'', mr_directory = ''m'', mr_listing = Some [sample_entry]\<rparr>"

lemma sample_entry_ok: "sql_file sample_entry" "MIGRATION_RE (de_name sample_entry)" "valid_utf8 (de_bytes sample_entry)"
  "path_number sample_entry = 0" "bytes_text (de_bytes sample_entry) = ''{{database}};''" "de_name sample_entry = ''000_a.sql''"
  by code_simp+

lemma sample_discovered: "discover_migrations ''m'' (Some [sample_entry]) = Inr [migration_of ''m'' sample_entry]"
  using sample_entry_ok(1-4)
  by (simp add: discover_migrations_def sql_file_def Let_def migration_of_def path_number_def bind_res_def)

lemma sample_statements: "statements_of sample_migrations (migration_of ''m'' sample_entry) = Inr [''d'']"
proof -
  have "render_migration ''{{database}};'' ''d'' = Inr ''d;''" "split_sql_statements ''d;'' = Inr [''d'']"
    by code_simp (simp add: split_sql_statements_def flush_def str_strip_graphic graphic_def char_nat_def
        quote_char_def dquote_char_def backtick_def char_of_def str_strip_Nil)
  then show ?thesis by (simp add: statements_of_def migration_of_def sample_entry_ok(5) sample_migrations_def bind_res_def)
qed

lemma sample_apply:
  "\<exists>os s'. apply_migrations sample_migrations \<lparr>mi_world = (), mi_commands = []\<rparr> = (Inr os, s')"
proof -
  have client: "mr_listing sample_migrations = Some [sample_entry]" "mr_directory sample_migrations = ''m''"
    "sc_count (mr_client sample_migrations) q = ret [[1]]" "sc_ledger (mr_client sample_migrations) q = ret []"
    "sc_command (mr_client sample_migrations) q = ret ()" for q
    by (simp_all add: sample_migrations_def)
  have execute: "execute_migration sample_migrations (migration_of ''m'' sample_entry) s
      = (Inr (), s\<lparr>mi_commands := mi_commands s @ [''d'']\<rparr>)" for s
    by (simp add: execute_migration_def sample_statements command_def asked_def client bind_io_def)
  obtain s1 where "record_migration sample_migrations (migration_of ''m'' sample_entry) \<lparr>mi_world = (), mi_commands = [''d'']\<rparr>
      = (Inr (), s1)"
    by (simp add: record_migration_def catch_io_def command_def asked_def client)
  then show ?thesis
    by (simp add: apply_migrations_def client sample_discovered ledger_exists_def load_applied_def asked_def bind_io_def Let_def execute)
qed


text \<open>A block comment leaves nothing behind, not even a separator; a line comment leaves its newline.\<close>

lemma block_comment_joins: "split_sql_statements ''SELECT/*c*/1'' = Inr [''SELECT1'']"
  by code_simp

end
