(* ===== verification/ClProfile.thy ===== *)
theory ClProfile
  imports Publication Pools
begin

text \<open>
  \<open>compute/cl_profile.py\<close> (and the store protocol of \<open>compute/base.py\<close>, which the repository
  satisfies): the liquidity profile of every pool published for a date, one row per pair of adjacent
  initialized ticks with the liquidity that is active between them. The rows that the two queries
  answer are the client's; the texts of the queries order the ticks of a pool by tick.
\<close>

definition output_table :: string where
  "output_table = ''pool_liquidity_profile''"

definition digest_str :: "cell \<Rightarrow> string res" where
  "digest_str v = (if v = CNull then Inr [] else cell_str v)"

fun segment_rows ::
  "int \<Rightarrow> date \<Rightarrow> string \<Rightarrow> string \<Rightarrow> row \<Rightarrow> (row \<times> row) list \<Rightarrow> int \<Rightarrow> row list \<Rightarrow> row list res" where
  "segment_rows chain_id d pool digest state [] cumulative rows = Inr rows"
| "segment_rows chain_id d pool digest state ((lower, upper) # pairs) cumulative rows =
     bind_res (col_int lower ''liquidity_net'') (\<lambda>net.
       let cumulative' = cumulative + net in
       if cumulative' < 0
       then bind_res (col_str lower ''tick'') (\<lambda>tick. raise_res ValueError
              (''reconstructed liquidity went negative for '' @ pool @ '' at tick '' @ tick @ '': '' @ py_int cumulative'))
       else bind_res (col_int lower ''tick'') (\<lambda>tick_lower.
            bind_res (col_int upper ''tick'') (\<lambda>tick_upper.
            bind_res (lookup_key state ''attempt_id'') (\<lambda>attempt.
              segment_rows chain_id d pool digest state pairs cumulative' (rows @
                [[(''chain_id'', CInt chain_id), (''pool_address'', CText pool), (''snapshot_date'', CDate d),
                  (''tick_lower'', CInt tick_lower), (''tick_upper'', CInt tick_upper),
                  (''active_liquidity'', CInt cumulative'), (''source_attempt_id'', attempt),
                  (''source_result_digest'', CText digest)]])))))"

definition segments :: "int \<Rightarrow> date \<Rightarrow> row \<Rightarrow> row list \<Rightarrow> row list res" where
  "segments chain_id d state ticks =
     bind_res (col_str state ''pool_address'') (\<lambda>pool.
     bind_res (bind_res (lookup_key state ''result_digest'') digest_str) (\<lambda>digest.
       segment_rows chain_id d pool digest state (zip ticks (tl ticks)) 0 []))"

fun compute_states :: "'w client \<Rightarrow> int \<Rightarrow> date \<Rightarrow> row list \<Rightarrow> nat \<Rightarrow> ('w session, nat) io" where
  "compute_states db chain_id d [] written = ret written"
| "compute_states db chain_id d (state # states) written =
     bind_io (lift_res (lookup_key state ''pool_address'')) (\<lambda>pool.
     bind_io (lift_res (lookup_key state ''attempt_id'')) (\<lambda>attempt.
     bind_io (query_rows db SQL_published_ticks
                [(''chain_id'', CInt chain_id), (''snapshot_date'', CDate d), (''pool'', pool), (''attempt'', attempt)] False) (\<lambda>ticks.
     bind_io (lift_res (segments chain_id d state ticks)) (\<lambda>rows.
     bind_io (if rows = [] then ret 0
              else bind_io (lift_res (cell_str attempt)) (\<lambda>a. insert_rows db output_table rows (Some (''profile:'' @ a)))) (\<lambda>_.
       compute_states db chain_id d states (written + length rows))))))"

definition compute_profile :: "'w client \<Rightarrow> int \<Rightarrow> date \<Rightarrow> ('w session, nat) io" where
  "compute_profile db chain_id d =
     bind_io (query_rows db SQL_published_cl_states [(''chain_id'', CInt chain_id), (''snapshot_date'', CDate d)] False) (\<lambda>states.
       compute_states db chain_id d states 0)"

subsection \<open>The profile as a function of the tick\<close>

text \<open>What is active at a tick: the net liquidity of every initialized tick at or below it.\<close>

definition liquidity_at :: "pool_tick_row list \<Rightarrow> int \<Rightarrow> int" where
  "liquidity_at ticks x = sum_list (map tk_liquidity_net (filter (\<lambda>t. tk_tick t \<le> x) ticks))"

text \<open>A stored row for a tick, and the segment a profile row holds.\<close>

definition row_of_tick :: "row \<Rightarrow> pool_tick_row \<Rightarrow> bool" where
  "row_of_tick row t \<longleftrightarrow> map_of row ''tick'' = Some (CInt (tk_tick t))
     \<and> map_of row ''liquidity_net'' = Some (CInt (tk_liquidity_net t))"

definition row_int :: "row \<Rightarrow> string \<Rightarrow> int" where
  "row_int row c = (case map_of row c of Some (CInt n) \<Rightarrow> n | _ \<Rightarrow> 0)"

definition segment_of :: "row \<Rightarrow> int \<times> int \<times> int" where
  "segment_of row = (row_int row ''tick_lower'', row_int row ''tick_upper'', row_int row ''active_liquidity'')"

fun active_at :: "(int \<times> int \<times> int) list \<Rightarrow> int \<Rightarrow> int" where
  "active_at [] x = 0"
| "active_at ((a, b, l) # ss) x = (if a \<le> x \<and> x < b then l else active_at ss x)"

fun segments_of :: "int \<Rightarrow> pool_tick_row list \<Rightarrow> (int \<times> int \<times> int) list" where
  "segments_of c (t # u # ts) =
     (tk_tick t, tk_tick u, c + tk_liquidity_net t) # segments_of (c + tk_liquidity_net t) (u # ts)"
| "segments_of c _ = []"

lemma segment_rows_exact:
  assumes "list_all2 row_of_tick rows ticks" and "map_of state ''attempt_id'' = Some attempt"
  shows "case segment_rows chain_id d pool digest state (zip rows (tl rows)) c acc of
      Inl e \<Rightarrow> isinstance e ValueError \<and> (\<exists>p q. ticks = p @ q \<and> p \<noteq> [] \<and> q \<noteq> [] \<and> c + sum_list (map tk_liquidity_net p) < 0)
    | Inr out \<Rightarrow> (\<exists>new. out = acc @ new \<and> map segment_of new = segments_of c ticks)
        \<and> (\<forall>(a, b, l) \<in> set (segments_of c ticks). 0 \<le> l)"
  using assms(1)
proof (induction c ticks arbitrary: rows acc rule: segments_of.induct)
  case (1 c t u ts)
  then obtain x y r where rows: "rows = x # y # r" and x: "row_of_tick x t" and y: "row_of_tick y u"
    and r: "list_all2 row_of_tick r ts" by (auto simp: list_all2_Cons2)
  let ?c = "c + tk_liquidity_net t"
  from 1(1) [of "y # r"] y r have IH: "case segment_rows chain_id d pool digest state (zip (y # r) r) ?c acc of
      Inl e \<Rightarrow> isinstance e ValueError \<and> (\<exists>p q. u # ts = p @ q \<and> p \<noteq> [] \<and> q \<noteq> [] \<and> ?c + sum_list (map tk_liquidity_net p) < 0)
    | Inr out \<Rightarrow> (\<exists>new. out = acc @ new \<and> map segment_of new = segments_of ?c (u # ts))
        \<and> (\<forall>(a, b, l) \<in> set (segments_of ?c (u # ts)). 0 \<le> l)" for acc
    by simp
  have cells: "col_int x ''liquidity_net'' = Inr (tk_liquidity_net t)" "col_int x ''tick'' = Inr (tk_tick t)"
    "col_int y ''tick'' = Inr (tk_tick u)" "col_str x ''tick'' = Inr (py_int (tk_tick t))"
    "lookup_key state ''attempt_id'' = Inr attempt"
    using x y assms(2) by (simp_all add: row_of_tick_def cell_reads)
  show ?case
  proof (cases "?c < 0")
    case True
    then show ?thesis unfolding rows
      by (simp add: cells Let_def raise_res_def is_subclass_def del: append.simps) (rule exI [of _ "[t]"], simp)
  next
    case False
    define row where "row = [(''chain_id'', CInt chain_id), (''pool_address'', CText pool), (''snapshot_date'', CDate d),
        (''tick_lower'', CInt (tk_tick t)), (''tick_upper'', CInt (tk_tick u)),
        (''active_liquidity'', CInt ?c), (''source_attempt_id'', attempt), (''source_result_digest'', CText digest)]"
    have seg: "segment_of row = (tk_tick t, tk_tick u, ?c)" by (simp add: row_def segment_of_def row_int_def)
    have step: "segment_rows chain_id d pool digest state (zip rows (tl rows)) c acc
        = segment_rows chain_id d pool digest state (zip (y # r) r) ?c (acc @ [row])"
      using False by (simp add: rows cells Let_def row_def)
    show ?thesis
    proof (cases "segment_rows chain_id d pool digest state (zip (y # r) r) ?c (acc @ [row])")
      case (Inl e)
      with IH [of "acc @ [row]"] obtain p q where "isinstance e ValueError" "u # ts = p @ q" "p \<noteq> []" "q \<noteq> []"
        "?c + sum_list (map tk_liquidity_net p) < 0" by auto
      then have "isinstance e ValueError \<and> t # u # ts = (t # p) @ q \<and> t # p \<noteq> [] \<and> q \<noteq> []
          \<and> c + sum_list (map tk_liquidity_net (t # p)) < 0" by (simp add: algebra_simps)
      then show ?thesis unfolding step Inl sum.case by blast
    next
      case (Inr out)
      with IH [of "acc @ [row]"] False seg show ?thesis unfolding step Inr by force
    qed
  qed
qed (auto simp: list_all2_Cons2)

lemma active_at_below: "sorted_wrt (<) (map tk_tick ticks) \<Longrightarrow> ticks \<noteq> [] \<Longrightarrow> x < tk_tick (hd ticks) \<Longrightarrow> active_at (segments_of c ticks) x = 0"
  by (induction c ticks rule: segments_of.induct) auto

lemma liquidity_at_none: "\<forall>t \<in> set ticks. x < tk_tick t \<Longrightarrow> liquidity_at ticks x = 0"
proof -
  assume "\<forall>t \<in> set ticks. x < tk_tick t"
  then have none: "filter (\<lambda>t. tk_tick t \<le> x) ticks = []" by (auto simp: filter_empty_conv)
  show ?thesis unfolding liquidity_at_def none by simp
qed

lemma active_at_segments:
  assumes "sorted_wrt (<) (map tk_tick ticks)"
  shows "active_at (segments_of c ticks) x =
    (if ticks \<noteq> [] \<and> tk_tick (hd ticks) \<le> x \<and> x < tk_tick (last ticks) then c + liquidity_at ticks x else 0)"
  using assms
proof (induction c ticks rule: segments_of.induct)
  case (1 c t u ts)
  then have less: "tk_tick t < tk_tick u" "\<forall>v \<in> set ts. tk_tick u < tk_tick v" by auto
  then have last: "tk_tick u \<le> tk_tick (last (u # ts))" by (cases "ts = []") (auto simp: less_imp_le)
  show ?case
  proof (cases "x < tk_tick u")
    case True
    with less have "liquidity_at (u # ts) x = 0" by (intro liquidity_at_none) auto
    moreover have "active_at (segments_of (c + tk_liquidity_net t) (u # ts)) x = 0"
      using 1(2) True by (intro active_at_below) auto
    ultimately show ?thesis using True less last by (auto simp: liquidity_at_def)
  next
    case False
    with 1 less show ?thesis by (auto simp: liquidity_at_def)
  qed
qed auto

text \<open>
  C12: the liquidity profile is the active liquidity of the collected ticks. For the ticks of
  a CL result whose reconciliation checks passed, stored and returned in order, the rows that
  \<open>_segments\<close> builds, read as a function of the tick, are at every tick (initialized or not, below
  the first and above the last too) the net liquidity of the initialized ticks at or below it, and
  at the pool's current tick exactly the liquidity the pool itself reported. The segments are those
  between adjacent ticks in order, none with negative liquidity. \<open>_segments\<close> raises only a
  \<open>ValueError\<close>, and only when the net liquidity up to some tick is negative.
\<close>
theorem cl_profile_reconstructs:
  assumes "list_all ir_passed (reconcile pool_state ticks)" and "sorted_wrt (<) (map tk_tick ticks)"
    and "list_all2 row_of_tick rows ticks" and "map_of state ''attempt_id'' = Some attempt"
    and "map_of state ''pool_address'' = Some (CText pool)" and "map_of state ''result_digest'' = Some (CText digest)"
  shows "case segments chain_id d state rows of
      Inl e \<Rightarrow> isinstance e ValueError \<and> (\<exists>p q. ticks = p @ q \<and> p \<noteq> [] \<and> q \<noteq> [] \<and> sum_list (map tk_liquidity_net p) < 0)
    | Inr out \<Rightarrow> map (\<lambda>(a, b, l). (a, b)) (map segment_of out) = zip (map tk_tick ticks) (tl (map tk_tick ticks))
        \<and> (\<forall>(a, b, l) \<in> set (map segment_of out). 0 \<le> l)
        \<and> (\<forall>x. active_at (map segment_of out) x = liquidity_at ticks x)
        \<and> active_at (map segment_of out) (cs_current_tick pool_state) = cs_liquidity pool_state"
proof -
  have net: "sum_list (map tk_liquidity_net ticks) = 0"
    and current: "liquidity_at ticks (cs_current_tick pool_state) = cs_liquidity pool_state"
    using assms(1) by (auto simp: reconcile_def Let_def liquidity_at_def)
  have total: "active_at (segments_of 0 ticks) x = liquidity_at ticks x" for x
  proof (cases "ticks = [] \<or> x < tk_tick (hd ticks)")
    case True
    with assms(2) have "liquidity_at ticks x = 0" by (cases ticks) (fastforce intro!: liquidity_at_none)+
    with True show ?thesis unfolding active_at_segments [OF assms(2)] by auto
  next
    case False
    have "\<forall>t \<in> set ticks. tk_tick t \<le> tk_tick (last ticks)"
      using assms(2) by (induction ticks) (auto simp: less_imp_le)
    then have "tk_tick (last ticks) \<le> x \<Longrightarrow> filter (\<lambda>t. tk_tick t \<le> x) ticks = ticks"
      by (auto simp: filter_id_conv)
    with net have "tk_tick (last ticks) \<le> x \<Longrightarrow> liquidity_at ticks x = 0" by (simp add: liquidity_at_def)
    with False show ?thesis unfolding active_at_segments [OF assms(2)] by auto
  qed
  have bounds: "map (\<lambda>(a, b, l). (a, b)) (segments_of c ticks) = zip (map tk_tick ticks) (tl (map tk_tick ticks))" for c
    by (induction c ticks rule: segments_of.induct) auto
  have eq: "segments chain_id d state rows = segment_rows chain_id d pool digest state (zip rows (tl rows)) 0 []"
    using assms(5,6) by (simp add: segments_def cell_reads digest_str_def)
  note spec = segment_rows_exact [OF assms(3,4), where chain_id = chain_id and d = d and pool = pool
      and digest = digest and c = 0 and acc = "[]", folded eq]
  show ?thesis
  proof (cases "segments chain_id d state rows")
    case (Inl e)
    with spec show ?thesis by simp
  next
    case (Inr out)
    with spec have "map segment_of out = segments_of 0 ticks" "\<forall>(a, b, l) \<in> set (segments_of 0 ticks). 0 \<le> l" by auto
    with Inr total current bounds show ?thesis by (simp del: map_map set_map list.set_map)
  qed
qed

definition sample_tick :: "int \<Rightarrow> int \<Rightarrow> pool_tick_row" where
  "sample_tick t n = \<lparr>tk_pool_address = ''p'', tk_tick = t, tk_liquidity_gross = 9, tk_liquidity_net = n,
     tk_fee_growth_outside_0_x128 = 0, tk_fee_growth_outside_1_x128 = 0, tk_batch_sequence = 0\<rparr>"

definition sample_pool_state :: pool_cl_state_row where
  "sample_pool_state = \<lparr>cs_pool_address = ''p'', cs_pool_class = ''univ3'', cs_sqrt_price_x96 = 1, cs_current_tick = 5,
     cs_liquidity = 7, cs_fee_growth_global_0_x128 = 0, cs_fee_growth_global_1_x128 = 0, cs_tick_spacing = 10,
     cs_fee = 500, cs_tick_count = 3, cs_batch_sequence = 0\<rparr>"

definition sample_tick_row :: "pool_tick_row \<Rightarrow> row" where
  "sample_tick_row t = [(''tick'', CInt (tk_tick t)), (''liquidity_net'', CInt (tk_liquidity_net t))]"

theorem cl_profile_reconstructs_witness:
  "\<exists>out. segments 100 20000 [(''pool_address'', CText ''p''), (''attempt_id'', CUuid 1), (''result_digest'', CText ''ab'')]
       (map sample_tick_row [sample_tick (- 20) 3, sample_tick 0 4, sample_tick 10 (- 7)]) = Inr out
     \<and> active_at (map segment_of out) 5 = 7"
proof -
  let ?state = "[(''pool_address'', CText ''p''), (''attempt_id'', CUuid 1), (''result_digest'', CText ''ab'')]"
    and ?ticks = "[sample_tick (- 20) 3, sample_tick 0 4, sample_tick 10 (- 7)]"
  have "list_all ir_passed (reconcile sample_pool_state ?ticks)" "sorted_wrt (<) (map tk_tick ?ticks)"
    "list_all2 row_of_tick (map sample_tick_row ?ticks) ?ticks"
    by (simp_all add: reconcile_def sample_tick_def sample_pool_state_def row_of_tick_def sample_tick_row_def)
  from cl_profile_reconstructs [OF this, of ?state "CUuid 1" "''p''" "''ab''" 100 20000]
  have "case segments 100 20000 ?state (map sample_tick_row ?ticks) of Inl e \<Rightarrow> False
      | Inr out \<Rightarrow> active_at (map segment_of out) 5 = 7"
    by (auto simp: sample_pool_state_def sample_tick_def Cons_eq_append_conv split: sum.splits)
  then show ?thesis by (cases "segments 100 20000 ?state (map sample_tick_row ?ticks)") auto
qed

end
