(* ===== verification/Capabilities.thy ===== *)
theory Capabilities
  imports Legacy Anchors
begin

text \<open>
  \<open>rpc/capabilities.py\<close>: the probes that decide what an endpoint may be used for. The flags the
  code assigns on the endpoint object are updates of the endpoint in the pool; the archive probe
  reads the flag back from there. keccak is the parameter of \<open>ext\<close>.
\<close>

subsection \<open>int(s, 16)\<close>

text \<open>
  Digits with single underscores between them; \<open>prev\<close> says that the character before was a digit.
\<close>

fun hex_literal :: "bool \<Rightarrow> int \<Rightarrow> string \<Rightarrow> int option" where
  "hex_literal prev acc [] = (if prev then Some acc else None)"
| "hex_literal prev acc (c # cs) =
     (if c = CHR ''_'' then (if prev then hex_literal False acc cs else None)
      else case hexval c of None \<Rightarrow> None | Some v \<Rightarrow> hex_literal True (16 * acc + int v) cs)"

definition strip_ascii :: "string \<Rightarrow> string" where
  "strip_ascii s =
     (let space = (\<lambda>c. is_space c \<or> char_nat c \<in> {28..31}) in rev (dropWhile space (rev (dropWhile space s))))"

definition unprefixed :: "string \<Rightarrow> string" where
  "unprefixed s =
     (if is_prefix ''0x'' s \<or> is_prefix ''0X'' s
      then (case drop 2 s of c # cs \<Rightarrow> if c = CHR ''_'' then cs else c # cs | [] \<Rightarrow> []) else s)"

definition py_int16 :: "string \<Rightarrow> int res" where
  "py_int16 s =
     (let t = strip_ascii s;
          parsed = (case t of
             c # cs \<Rightarrow> if c = CHR ''-'' then map_option uminus (hex_literal False 0 (unprefixed cs))
                       else if c = CHR ''+'' then hex_literal False 0 (unprefixed cs)
                       else hex_literal False 0 (unprefixed t)
           | [] \<Rightarrow> None) in
      case parsed of
        None \<Rightarrow> raise_res ValueError (''invalid literal for int() with base 16: '' @ repr_str s)
      | Some n \<Rightarrow> Inr n)"

subsection \<open>Chain and EIP-1898\<close>

definition probe_chain_id :: "'w env \<Rightarrow> rpc_endpoint \<Rightarrow> int \<Rightarrow> ('w, unit) rpc" where
  "probe_chain_id env endpoint expected_chain_id =
     bind_io (call_on_endpoint env endpoint ''eth_chainId'' []) (\<lambda>result.
       let wrong = raise (Exn ValueError (''endpoint '' @ ep_name endpoint @ '' has the wrong chain ID'')) in
       case result of
         JStr s \<Rightarrow> bind_io (lift_res (py_int16 s)) (\<lambda>n. if n \<noteq> expected_chain_id then wrong else ret ())
       | _ \<Rightarrow> wrong)"

definition set_eip1898 :: "rpc_endpoint \<Rightarrow> bool \<Rightarrow> ('w, bool) rpc" where
  "set_eip1898 endpoint supported =
     bind_io (update_endpoint (ep_name endpoint) (\<lambda>e. e\<lparr>ep_supports_eip1898 := supported\<rparr>)) (\<lambda>_. ret supported)"

definition pinned_call :: "string \<Rightarrow> string \<Rightarrow> string \<Rightarrow> json list" where
  "pinned_call to data bh =
     [JObj [(''to'', JStr to), (''data'', JStr data)],
      JObj [(''blockHash'', JStr bh), (''requireCanonical'', JBool True)]]"

definition bogus_hash :: string where
  "bogus_hash = ''0x'' @ concat (replicate 32 ''ff'')"

definition probe_eip1898 ::
  "'w env \<Rightarrow> rpc_endpoint \<Rightarrow> string \<Rightarrow> string \<Rightarrow> int \<Rightarrow> string \<Rightarrow> ('w, bool) rpc" where
  "probe_eip1898 env endpoint call_to canonical_block_hash canonical_block_number calldata = (\<lambda>s.
     case call_on_endpoint env endpoint ''eth_call'' (pinned_call call_to calldata canonical_block_hash) s of
       (Inl e, s1) \<Rightarrow> if isinstance e RpcResponseError then set_eip1898 endpoint False s1 else (Inl e, s1)
     | (Inr (JStr encoded), s1) \<Rightarrow>
         (let observed_block = decode_uint256 True (RetHex encoded) in
          if obs_status observed_block \<noteq> OK \<or> obs_value observed_block \<noteq> Some canonical_block_number
          then set_eip1898 endpoint False s1
          else case call_on_endpoint env endpoint ''eth_call'' (pinned_call call_to calldata bogus_hash) s1 of
                 (Inl e, s2) \<Rightarrow> if isinstance e RpcResponseError then set_eip1898 endpoint True s2 else (Inl e, s2)
               | (Inr _, s2) \<Rightarrow> set_eip1898 endpoint False s2)
     | (Inr _, s1) \<Rightarrow> set_eip1898 endpoint False s1)"

definition probe_eip1898_negative :: "bool" where
  "probe_eip1898_negative = False"

subsection \<open>HTTP batches\<close>

definition hashable_id :: "json \<Rightarrow> bool" where
  "hashable_id i = (case i of JArr _ \<Rightarrow> False | JObj _ \<Rightarrow> False | _ \<Rightarrow> True)"

text \<open>\<open>by_id[i]\<close>: the result of the last item with this identifier.\<close>

definition result_by_id :: "(string \<times> json) list list \<Rightarrow> int \<Rightarrow> json option" where
  "result_by_id items i =
     (case filter (\<lambda>kvs. json_eq_int (obj_get kvs ''id'') i) items of
        [] \<Rightarrow> None | found \<Rightarrow> Some (obj_get (last found) ''result''))"

definition chain_id_request :: "int \<Rightarrow> json" where
  "chain_id_request i = JObj [(''jsonrpc'', JStr ''2.0''), (''id'', JInt i), (''method'', JStr ''eth_chainId''), (''params'', JArr [])]"

definition set_http_batch :: "rpc_endpoint \<Rightarrow> bool \<Rightarrow> ('w, bool) rpc" where
  "set_http_batch endpoint supported =
     bind_io (update_endpoint (ep_name endpoint) (\<lambda>e. e\<lparr>ep_supports_http_batch := supported\<rparr>)) (\<lambda>_. ret supported)"

definition probe_http_batch :: "'w env \<Rightarrow> rpc_endpoint \<Rightarrow> int \<Rightarrow> ('w, bool) rpc" where
  "probe_http_batch env endpoint expected_chain_id = (\<lambda>s.
     case batch_on_endpoint env endpoint [chain_id_request 7001, chain_id_request 7002] s of
       (Inl _, s1) \<Rightarrow> set_http_batch endpoint False s1
     | (Inr responses, s1) \<Rightarrow>
         (let items = map obj_fields responses; expected = JStr (py_hex expected_chain_id) in
          if \<not> list_all (\<lambda>kvs. hashable_id (obj_get kvs ''id'')) items
          then (raise_res TypeError ''unhashable type'', s1)
          else set_http_batch endpoint
                 (result_by_id items 7001 = Some expected \<and> result_by_id items 7002 = Some expected) s1))"

subsection \<open>Archive state\<close>

definition supports_eip1898_now :: "rpc_endpoint \<Rightarrow> ('w, bool) rpc" where
  "supports_eip1898_now endpoint = (\<lambda>s.
     (Inr (case endpoint_named (ep_name endpoint) (st_endpoints s) of
             Some e \<Rightarrow> ep_supports_eip1898 e | None \<Rightarrow> ep_supports_eip1898 endpoint), s))"

definition archive_failed :: "string \<Rightarrow> exn" where
  "archive_failed detail = Exn ValueError (''archive probe state call failed strict decoding: '' @ detail)"

definition probe_archive_state ::
  "'w env \<Rightarrow> rpc_endpoint \<Rightarrow> string \<Rightarrow> int \<Rightarrow> string \<Rightarrow> ('w, unit) rpc" where
  "probe_archive_state env endpoint contract_address block_number calldata =
     (if block_number < 0 then raise (Exn ValueError ''archive probe block cannot be negative'')
      else bind_io (call_on_endpoint env endpoint ''eth_getBlockByNumber'' [JStr (py_hex block_number), JBool False]) (\<lambda>block_raw.
           bind_io (lift_res (parse_block block_raw (Some block_number))) (\<lambda>block.
           bind_io (supports_eip1898_now endpoint) (\<lambda>pinned.
           let reference = (if pinned
                 then JObj [(''blockHash'', JStr (block_hash block)), (''requireCanonical'', JBool True)]
                 else JStr (py_hex block_number)) in
           bind_io (call_on_endpoint env endpoint ''eth_getCode'' [JStr contract_address, reference]) (\<lambda>code_raw.
             case code_raw of
               JStr encoded \<Rightarrow>
                 bind_io (lift_res (hex_data_to_bytes encoded)) (\<lambda>code.
                   if code = []
                   then raise (Exn ValueError ''archive probe contract has no code at configured start block'')
                   else bind_io (call_on_endpoint env endpoint ''eth_call''
                          [JObj [(''to'', JStr contract_address), (''data'', JStr calldata)], reference]) (\<lambda>result.
                        case result of
                          JStr answer \<Rightarrow>
                            let observation = decode_uint256 True (RetHex answer) in
                            if obs_status observation \<noteq> OK then raise (archive_failed (status_value (obs_status observation)))
                            else update_endpoint (ep_name endpoint) (\<lambda>e. e\<lparr>ep_archive_from_block := Some block_number\<rparr>)
                        | _ \<Rightarrow> raise (archive_failed ''non-hex result'')))
             | _ \<Rightarrow> raise (Exn ValueError ''archive probe eth_getCode result is not hex''))))))"

subsection \<open>The whole probe\<close>

record endpoint_capabilities =
  ca_chain_id_verified :: bool
  ca_supports_http_batch :: bool
  ca_supports_eip1898 :: bool
  ca_supports_finality_tag :: bool
  ca_archive_from_block :: int
  ca_multicall_code_hash_verified :: bool

record probe_config =
  pr_expected_chain_id :: int
  pr_finality_tag :: string
  pr_multicall_address :: string
  pr_multicall_deployment_block :: int
  pr_expected_multicall_code_hash :: string
  pr_archive_probe_address :: string
  pr_archive_probe_block :: int
  pr_archive_probe_calldata :: string

text \<open>\<open>parse_block\<close> raises \<open>AnchorValidationError\<close>, which the handler does not catch.\<close>

definition probe_finality_tag :: "'w env \<Rightarrow> rpc_endpoint \<Rightarrow> string \<Rightarrow> ('w, bool) rpc" where
  "probe_finality_tag env endpoint tag =
     catch_io (bind_io (call_on_endpoint env endpoint ''eth_getBlockByNumber'' [JStr tag, JBool False]) (\<lambda>finalized.
               bind_io (lift_res (parse_block finalized None)) (\<lambda>_. ret True)))
       (\<lambda>e. if isinstance e RpcResponseError \<or> isinstance e ValueError then ret False else raise e)"

definition check_multicall_code ::
  "'w env \<Rightarrow> ext \<Rightarrow> rpc_endpoint \<Rightarrow> probe_config \<Rightarrow> ('w, unit) rpc" where
  "check_multicall_code env ex endpoint p =
     bind_io (call_on_endpoint env endpoint ''eth_getCode''
                [JStr (pr_multicall_address p), JStr (py_hex (pr_multicall_deployment_block p))]) (\<lambda>code_raw.
       case code_raw of
         JStr encoded \<Rightarrow>
           bind_io (lift_res (hex_data_to_bytes encoded)) (\<lambda>code.
             if code = [] then raise (Exn ValueError ''Multicall3 is not deployed at configured deployment block'')
             else let actual_code_hash = ''0x'' @ bytes_hex (ext_keccak ex code) in
                  if actual_code_hash \<noteq> str_lower (pr_expected_multicall_code_hash p)
                  then raise (Exn ValueError (''Multicall3 runtime hash mismatch: '' @ actual_code_hash))
                  else ret ())
       | _ \<Rightarrow> raise (Exn ValueError ''eth_getCode result is not hex''))"

definition probe_endpoint_capabilities ::
  "'w env \<Rightarrow> ext \<Rightarrow> rpc_endpoint \<Rightarrow> probe_config \<Rightarrow> ('w, endpoint_capabilities) rpc" where
  "probe_endpoint_capabilities env ex endpoint p =
     bind_io (probe_chain_id env endpoint (pr_expected_chain_id p)) (\<lambda>_.
     bind_io (probe_http_batch env endpoint (pr_expected_chain_id p)) (\<lambda>supports_http_batch.
     bind_io (probe_finality_tag env endpoint (pr_finality_tag p)) (\<lambda>supports_finality_tag.
     bind_io (call_on_endpoint env endpoint ''eth_getBlockByNumber''
                [JStr (py_hex (pr_multicall_deployment_block p)), JBool False]) (\<lambda>deployment_raw.
     bind_io (lift_res (parse_block deployment_raw (Some (pr_multicall_deployment_block p)))) (\<lambda>deployment.
     bind_io (check_multicall_code env ex endpoint p) (\<lambda>_.
     bind_io (probe_eip1898 env endpoint (pr_multicall_address p) (block_hash deployment) (number deployment)
                (''0x'' @ bytes_hex GET_BLOCK_NUMBER_SELECTOR)) (\<lambda>supports_eip1898.
     bind_io (probe_archive_state env endpoint (pr_archive_probe_address p) (pr_archive_probe_block p)
                (pr_archive_probe_calldata p)) (\<lambda>_.
       ret \<lparr>ca_chain_id_verified = True, ca_supports_http_batch = supports_http_batch,
            ca_supports_eip1898 = supports_eip1898, ca_supports_finality_tag = supports_finality_tag,
            ca_archive_from_block = pr_archive_probe_block p, ca_multicall_code_hash_verified = True\<rparr>))))))))"

subsection \<open>Flags in the pool\<close>

text \<open>A property of the configuration of the pool's endpoints of this name; calls leave it alone.\<close>

definition flagged :: "string \<Rightarrow> (rpc_endpoint \<Rightarrow> bool) \<Rightarrow> 'w rpc_state \<Rightarrow> bool" where
  "flagged name f s \<longleftrightarrow> (\<forall>x \<in> set (st_endpoints s). ep_name x = name \<longrightarrow> f x)"

definition configured :: "(rpc_endpoint \<Rightarrow> bool) \<Rightarrow> bool" where
  "configured f \<longleftrightarrow> (\<forall>x y. static x = static y \<longrightarrow> f x = f y)"

lemma flagged_frame:
  assumes "pool_frame k s s'" and "configured f" and "flagged name f s"
  shows "flagged name f s'"
  unfolding flagged_def
proof (intro ballI impI)
  fix x assume x: "x \<in> set (st_endpoints s')" and n: "ep_name x = name"
  from assms(1) have "set (map static (st_endpoints s')) = set (map static (st_endpoints s))"
    by (simp add: pool_frame_def)
  with x obtain y where y: "y \<in> set (st_endpoints s)" "static x = static y" by auto
  then have "ep_name y = name" using n by (simp add: static_def)
  with y(1) assms(3) have "f y" unfolding flagged_def by blast
  with y(2) assms(2) show "f x" unfolding configured_def by blast
qed

lemma configured_flags [simp]:
  "configured (\<lambda>x. ep_supports_http_batch x = b)" "configured (\<lambda>x. ep_supports_eip1898 x = b)"
  "configured (\<lambda>x. ep_archive_from_block x = a)"
  by (auto simp: configured_def static_def)

lemma batch_on_endpoint_frame:
  assumes "batch_on_endpoint env e rs s = (r, s')"
  shows "pool_frame 0 s s'"
proof (cases "rs = []")
  case True
  with assms show ?thesis by (simp add: batch_on_endpoint_def)
next
  case False
  with assms show ?thesis unfolding batch_on_endpoint_def
    by (auto simp del: not_Cons_self elim!: bind_io_frame [OF _ post_frame] split: json.splits if_splits)
qed

definition named :: "string \<Rightarrow> 'w rpc_state \<Rightarrow> bool" where
  "named name s \<longleftrightarrow> name \<in> set (map ep_name (st_endpoints s))"

lemma named_frame: "pool_frame k s s' \<Longrightarrow> named name s \<Longrightarrow> named name s'"
  unfolding named_def by (drule pool_frame_names) simp

lemma update_endpoint_set:
  "update_endpoint n f s = (r, s') \<Longrightarrow> st_endpoints s' = map (\<lambda>e. if ep_name e = n then f e else e) (st_endpoints s)"
  by (auto simp: update_endpoint_def)

lemma named_update:
  assumes "update_endpoint n f s = (r, s')" and "\<And>x. ep_name (f x) = ep_name x"
  shows "named name s' = named name s"
proof -
  have "map ep_name (st_endpoints s') = map ep_name (st_endpoints s)"
    unfolding update_endpoint_set [OF assms(1)] using assms(2) by simp
  then show ?thesis unfolding named_def by (rule arg_cong)
qed

lemma flagged_update:
  assumes "update_endpoint n f s = (r, s')" and "\<And>x. ep_name (f x) = ep_name x" and "\<And>x. g (f x)"
  shows "flagged n g s'"
  unfolding flagged_def update_endpoint_set [OF assms(1)] using assms(2,3) by (auto split: if_splits)

lemma flagged_update_other:
  assumes "update_endpoint n f s = (r, s')" and "\<And>x. ep_name (f x) = ep_name x" and "\<And>x. g (f x) = g x"
    and "flagged name g s"
  shows "flagged name g s'"
  using assms(4) unfolding flagged_def update_endpoint_set [OF assms(1)] by (auto simp: assms(2,3) split: if_splits)

lemma supports_now:
  assumes "supports_eip1898_now e s = (Inr b, s')" and "named (ep_name e) s" and "flagged (ep_name e) (\<lambda>x. ep_supports_eip1898 x = c) s"
  shows "b = c"
proof -
  have "endpoint_named (ep_name e) (st_endpoints s) \<noteq> None"
    using assms(2) by (auto simp: endpoint_named_def find_None_iff named_def)
  then obtain x where x: "endpoint_named (ep_name e) (st_endpoints s) = Some x" by blast
  then have "x \<in> set (st_endpoints s) \<and> ep_name x = ep_name e"
    unfolding endpoint_named_def find_Some_iff by (metis nth_mem)
  with assms(1,3) x show ?thesis by (auto simp: supports_eip1898_now_def flagged_def)
qed

subsection \<open>What each probe establishes\<close>

definition chain_proved :: "'w env \<Rightarrow> rpc_endpoint \<Rightarrow> int \<Rightarrow> bool" where
  "chain_proved env e chain_id \<longleftrightarrow> (\<exists>t. answered env e ''eth_chainId'' [] (JStr t) \<and> py_int16 t = Inr chain_id)"

definition batch_proved :: "'w env \<Rightarrow> rpc_endpoint \<Rightarrow> int \<Rightarrow> bool" where
  "batch_proved env e chain_id \<longleftrightarrow>
     (\<exists>s s' responses. batch_on_endpoint env e [chain_id_request 7001, chain_id_request 7002] s = (Inr responses, s')
        \<and> (\<forall>i \<in> {7001, 7002}. result_by_id (map obj_fields responses) i = Some (JStr (py_hex chain_id))))"

definition code_proved :: "'w env \<Rightarrow> ext \<Rightarrow> rpc_endpoint \<Rightarrow> probe_config \<Rightarrow> bool" where
  "code_proved env ex e p \<longleftrightarrow>
     (\<exists>t code. answered env e ''eth_getCode'' [JStr (pr_multicall_address p), JStr (py_hex (pr_multicall_deployment_block p))] (JStr t)
        \<and> hex_data_to_bytes t = Inr code \<and> code \<noteq> []
        \<and> ''0x'' @ bytes_hex (ext_keccak ex code) = str_lower (pr_expected_multicall_code_hash p))"

text \<open>A call pinned to the hash of the block answered its number, one pinned to a bogus hash an RPC error.\<close>

definition eip1898_proved :: "'w env \<Rightarrow> rpc_endpoint \<Rightarrow> string \<Rightarrow> string \<Rightarrow> string \<Rightarrow> int \<Rightarrow> bool" where
  "eip1898_proved env e to data bh n \<longleftrightarrow>
     (\<exists>t. answered env e ''eth_call'' (pinned_call to data bh) (JStr t)
        \<and> obs_status (decode_uint256 True (RetHex t)) = OK \<and> obs_value (decode_uint256 True (RetHex t)) = Some n)
     \<and> (\<exists>s s' x. call_on_endpoint env e ''eth_call'' (pinned_call to data bogus_hash) s = (Inl x, s')
          \<and> isinstance x RpcResponseError)"

definition archive_proved :: "'w env \<Rightarrow> rpc_endpoint \<Rightarrow> probe_config \<Rightarrow> bool \<Rightarrow> bool" where
  "archive_proved env e p pinned \<longleftrightarrow>
     (\<exists>raw block code answer t reference.
        answered env e ''eth_getBlockByNumber'' [JStr (py_hex (pr_archive_probe_block p)), JBool False] raw
        \<and> parse_block raw (Some (pr_archive_probe_block p)) = Inr block
        \<and> reference = (if pinned then JObj [(''blockHash'', JStr (block_hash block)), (''requireCanonical'', JBool True)]
                       else JStr (py_hex (pr_archive_probe_block p)))
        \<and> answered env e ''eth_getCode'' [JStr (pr_archive_probe_address p), reference] (JStr t)
        \<and> hex_data_to_bytes t = Inr code \<and> code \<noteq> []
        \<and> answered env e ''eth_call'' [JObj [(''to'', JStr (pr_archive_probe_address p)),
             (''data'', JStr (pr_archive_probe_calldata p))], reference] (JStr answer)
        \<and> obs_status (decode_uint256 True (RetHex answer)) = OK)"

text \<open>The probe steps keep the endpoint in the pool and the flags \<open>K\<close> they do not set.\<close>

definition keeps :: "string \<Rightarrow> (rpc_endpoint \<Rightarrow> bool) \<Rightarrow> 'w rpc_state \<Rightarrow> 'w rpc_state \<Rightarrow> bool" where
  "keeps name f s s' \<longleftrightarrow> (named name s \<longrightarrow> named name s') \<and> (flagged name f s \<longrightarrow> flagged name f s')"

lemma keeps_frame: "pool_frame k s s' \<Longrightarrow> configured f \<Longrightarrow> keeps name f s s'"
  unfolding keeps_def by (blast intro: named_frame flagged_frame)

lemma keeps_trans: "keeps n f s s1 \<Longrightarrow> keeps n f s1 s2 \<Longrightarrow> keeps n f s s2"
  by (simp add: keeps_def)

lemma keeps_refl: "keeps n f s s"
  by (simp add: keeps_def)

lemma keeps_call: "call_on_endpoint env e m ps s = (r, s') \<Longrightarrow> configured f \<Longrightarrow> keeps name f s s'"
  by (rule keeps_frame [OF call_on_endpoint_frame])

lemma keeps_update:
  "update_endpoint n g s = (r, s') \<Longrightarrow> (\<And>x. ep_name (g x) = ep_name x) \<Longrightarrow> (\<And>x. f (g x) = f x) \<Longrightarrow> keeps name f s s'"
  unfolding keeps_def using flagged_update_other named_update by metis

lemma set_eip1898_Inr:
  assumes "set_eip1898 e b s = (r, s')"
  shows "r = Inr b \<and> flagged (ep_name e) (\<lambda>x. ep_supports_eip1898 x = b) s'
    \<and> keeps (ep_name e) (\<lambda>x. ep_supports_http_batch x = c) s s'"
proof -
  obtain q s1 where u: "update_endpoint (ep_name e) (\<lambda>e. e\<lparr>ep_supports_eip1898 := b\<rparr>) s = (q, s1)" by fastforce
  then have "q = Inr ()" by (simp add: update_endpoint_def)
  with u assms have "r = Inr b" "s' = s1" by (auto simp: set_eip1898_def bind_io_def)
  with flagged_update [OF u] keeps_update [OF u] show ?thesis by simp
qed

lemma probe_chain_id_Inr:
  assumes "probe_chain_id env e c s = (Inr x, s')"
  shows "chain_proved env e c"
proof -
  from assms obtain j s1 where call: "call_on_endpoint env e ''eth_chainId'' [] s = (Inr j, s1)"
    and rest: "(let wrong = raise (Exn ValueError (''endpoint '' @ ep_name e @ '' has the wrong chain ID'')) in
       case j of
         JStr s \<Rightarrow> bind_io (lift_res (py_int16 s)) (\<lambda>n. if n \<noteq> c then wrong else ret ())
       | _ \<Rightarrow> wrong) s1 = (Inr x, s')"
    unfolding probe_chain_id_def bind_io_Inr by blast
  from rest have "\<exists>t. j = JStr t \<and> py_int16 t = Inr c"
    by (cases j) (auto simp: Let_def io_simps split: if_splits)
  with call_on_endpoint_answered [OF call] show ?thesis unfolding chain_proved_def by blast
qed

lemma probe_http_batch_Inr:
  assumes "probe_http_batch env e c s = (Inr b, s')"
  shows "(b \<longrightarrow> batch_proved env e c) \<and> flagged (ep_name e) (\<lambda>x. ep_supports_http_batch x = b) s'"
proof -
  have set: "r = Inr d \<and> flagged (ep_name e) (\<lambda>x. ep_supports_http_batch x = d) t'"
    if "set_http_batch e d t = (r, t')" for r d t t'
  proof -
    obtain q s1 where u: "update_endpoint (ep_name e) (\<lambda>e. e\<lparr>ep_supports_http_batch := d\<rparr>) t = (q, s1)" by fastforce
    then have "q = Inr ()" by (simp add: update_endpoint_def)
    with u that have "r = Inr d" "t' = s1" by (auto simp: set_http_batch_def bind_io_def)
    with flagged_update [OF u] show ?thesis by simp
  qed
  obtain r s1 where run: "batch_on_endpoint env e [chain_id_request 7001, chain_id_request 7002] s = (r, s1)" by fastforce
  show ?thesis
  proof (cases r)
    case (Inl x)
    with assms run have "set_http_batch e False s1 = (Inr b, s')" by (simp add: probe_http_batch_def)
    from set [OF this] show ?thesis by simp
  next
    case (Inr responses)
    let ?found = "result_by_id (map obj_fields responses) 7001 = Some (JStr (py_hex c))
      \<and> result_by_id (map obj_fields responses) 7002 = Some (JStr (py_hex c))"
    from assms run Inr have "set_http_batch e ?found s1 = (Inr b, s')"
      by (simp add: probe_http_batch_def Let_def split: if_splits)
    from set [OF this] run Inr show ?thesis unfolding batch_proved_def by auto
  qed
qed

lemma check_multicall_code_Inr:
  assumes "check_multicall_code env ex e p s = (Inr x, s')"
  shows "code_proved env ex e p"
proof -
  from assms obtain j s1 where call: "call_on_endpoint env e ''eth_getCode''
      [JStr (pr_multicall_address p), JStr (py_hex (pr_multicall_deployment_block p))] s = (Inr j, s1)"
    and rest: "(case j of
         JStr encoded \<Rightarrow>
           bind_io (lift_res (hex_data_to_bytes encoded)) (\<lambda>code.
             if code = [] then raise (Exn ValueError ''Multicall3 is not deployed at configured deployment block'')
             else let actual_code_hash = ''0x'' @ bytes_hex (ext_keccak ex code) in
                  if actual_code_hash \<noteq> str_lower (pr_expected_multicall_code_hash p)
                  then raise (Exn ValueError (''Multicall3 runtime hash mismatch: '' @ actual_code_hash))
                  else ret ())
       | _ \<Rightarrow> raise (Exn ValueError ''eth_getCode result is not hex'')) s1 = (Inr x, s')"
    unfolding check_multicall_code_def bind_io_Inr by blast
  from rest have "\<exists>t code. j = JStr t \<and> hex_data_to_bytes t = Inr code \<and> code \<noteq> []
        \<and> ''0x'' @ bytes_hex (ext_keccak ex code) = str_lower (pr_expected_multicall_code_hash p)"
    by (cases j) (auto simp: Let_def io_simps split: if_splits)
  with call_on_endpoint_answered [OF call] show ?thesis unfolding code_proved_def by blast
qed

lemma probe_eip1898_Inr:
  assumes "probe_eip1898 env e to bh n data s = (Inr b, s')"
  shows "(b \<longrightarrow> eip1898_proved env e to data bh n) \<and> flagged (ep_name e) (\<lambda>x. ep_supports_eip1898 x = b) s'
    \<and> keeps (ep_name e) (\<lambda>x. ep_supports_http_batch x = c) s s'"
proof -
  obtain r s1 where call: "call_on_endpoint env e ''eth_call'' (pinned_call to data bh) s = (r, s1)" by fastforce
  note k1 = keeps_call [OF call configured_flags(1) [of c], of "ep_name e"]
  have down: ?thesis if "set_eip1898 e False s1 = (Inr b, s')"
    using set_eip1898_Inr [OF that] keeps_trans [OF k1] by auto
  show ?thesis
  proof (cases "\<exists>t. r = Inr (JStr t)")
    case False
    with assms call have "set_eip1898 e False s1 = (Inr b, s')"
      by (cases r) (auto simp: probe_eip1898_def split: if_splits json.splits)
    then show ?thesis by (rule down)
  next
    case True
    then obtain t where t: "r = Inr (JStr t)" by blast
    let ?ob = "decode_uint256 True (RetHex t)"
    show ?thesis
    proof (cases "obs_status ?ob = OK \<and> obs_value ?ob = Some n")
      case False
      with assms call t have "set_eip1898 e False s1 = (Inr b, s')" by (auto simp: probe_eip1898_def Let_def)
      then show ?thesis by (rule down)
    next
      case ok: True
      obtain q s2 where bogus: "call_on_endpoint env e ''eth_call'' (pinned_call to data bogus_hash) s1 = (q, s2)" by fastforce
      note k2 = keeps_trans [OF k1 keeps_call [OF bogus configured_flags(1)]]
      show ?thesis
      proof (cases q)
        case (Inl x)
        with assms call t ok bogus have x: "isinstance x RpcResponseError" "set_eip1898 e True s2 = (Inr b, s')"
          by (auto simp: probe_eip1898_def Let_def split: if_splits)
        have "eip1898_proved env e to data bh n"
          using ok bogus Inl x(1) call_on_endpoint_answered [OF call [unfolded t]] unfolding eip1898_proved_def by blast
        with set_eip1898_Inr [OF x(2)] keeps_trans [OF k2] show ?thesis by auto
      next
        case (Inr y)
        with assms call t ok bogus have "set_eip1898 e False s2 = (Inr b, s')" by (auto simp: probe_eip1898_def Let_def)
        from set_eip1898_Inr [OF this] keeps_trans [OF k2] show ?thesis by auto
      qed
    qed
  qed
qed

lemma probe_archive_state_Inr:
  assumes "probe_archive_state env e (pr_archive_probe_address p) (pr_archive_probe_block p) (pr_archive_probe_calldata p) s
      = (Inr x, s')"
    and "named (ep_name e) s" and "flagged (ep_name e) (\<lambda>x. ep_supports_eip1898 x = b) s"
  shows "archive_proved env e p b \<and> flagged (ep_name e) (\<lambda>x. ep_archive_from_block x = Some (pr_archive_probe_block p)) s'
    \<and> keeps (ep_name e) (\<lambda>x. ep_supports_eip1898 x = b) s s' \<and> keeps (ep_name e) (\<lambda>x. ep_supports_http_batch x = c) s s'"
proof -
  let ?n = "pr_archive_probe_block p" and ?a = "pr_archive_probe_address p"
  let ?ref = "\<lambda>pinned block. if pinned
                 then JObj [(''blockHash'', JStr (block_hash block)), (''requireCanonical'', JBool True)]
                 else JStr (py_hex ?n)"
  from assms(1) obtain raw s1 block pinned s2 code_raw s3 where
    get: "call_on_endpoint env e ''eth_getBlockByNumber'' [JStr (py_hex ?n), JBool False] s = (Inr raw, s1)"
    and block: "parse_block raw (Some ?n) = Inr block"
    and pinned: "supports_eip1898_now e s1 = (Inr pinned, s2)"
    and code: "call_on_endpoint env e ''eth_getCode'' [JStr ?a, ?ref pinned block] s2 = (Inr code_raw, s3)"
    and rest: "(case code_raw of
               JStr encoded \<Rightarrow>
                 bind_io (lift_res (hex_data_to_bytes encoded)) (\<lambda>code.
                   if code = []
                   then raise (Exn ValueError ''archive probe contract has no code at configured start block'')
                   else bind_io (call_on_endpoint env e ''eth_call''
                          [JObj [(''to'', JStr ?a), (''data'', JStr (pr_archive_probe_calldata p))], ?ref pinned block]) (\<lambda>result.
                        case result of
                          JStr answer \<Rightarrow>
                            let observation = decode_uint256 True (RetHex answer) in
                            if obs_status observation \<noteq> OK then raise (archive_failed (status_value (obs_status observation)))
                            else update_endpoint (ep_name e) (\<lambda>e. e\<lparr>ep_archive_from_block := Some ?n\<rparr>)
                        | _ \<Rightarrow> raise (archive_failed ''non-hex result'')))
             | _ \<Rightarrow> raise (Exn ValueError ''archive probe eth_getCode result is not hex'')) s3 = (Inr x, s')"
    unfolding probe_archive_state_def Let_def by (auto simp: io_simps split: if_splits)
  from pinned have s2: "s2 = s1" by (simp add: supports_eip1898_now_def)
  have same: "pinned = b"
    using supports_now [OF pinned] assms(2,3) keeps_call [OF get configured_flags(2) [of b], of "ep_name e"]
    by (auto simp: keeps_def)
  from rest obtain t bytes result s4 where t: "code_raw = JStr t" "hex_data_to_bytes t = Inr bytes" "bytes \<noteq> []"
    and call: "call_on_endpoint env e ''eth_call''
      [JObj [(''to'', JStr ?a), (''data'', JStr (pr_archive_probe_calldata p))], ?ref pinned block] s3 = (Inr result, s4)"
    and rest2: "(case result of
                          JStr answer \<Rightarrow>
                            let observation = decode_uint256 True (RetHex answer) in
                            if obs_status observation \<noteq> OK then raise (archive_failed (status_value (obs_status observation)))
                            else update_endpoint (ep_name e) (\<lambda>e. e\<lparr>ep_archive_from_block := Some ?n\<rparr>)
                        | _ \<Rightarrow> raise (archive_failed ''non-hex result'')) s4 = (Inr x, s')"
    by (cases code_raw) (auto simp: io_simps split: if_splits)
  from rest2 obtain answer where answer: "result = JStr answer" "obs_status (decode_uint256 True (RetHex answer)) = OK"
    and u: "update_endpoint (ep_name e) (\<lambda>e. e\<lparr>ep_archive_from_block := Some ?n\<rparr>) s4 = (Inr x, s')"
    by (cases result) (auto simp: Let_def split: if_splits)
  have "archive_proved env e p b"
    using call_on_endpoint_answered [OF get] block call_on_endpoint_answered [OF code [unfolded t(1)]] t(2,3)
      call_on_endpoint_answered [OF call [unfolded answer(1)]] answer(2) same
    unfolding archive_proved_def by blast
  moreover have "keeps (ep_name e) f s s'" if "configured f" "\<And>x n. f (x\<lparr>ep_archive_from_block := n\<rparr>) = f x" for f
    using keeps_trans [OF keeps_trans [OF keeps_call [OF get that(1)] keeps_call [OF code [unfolded s2] that(1)]]
        keeps_trans [OF keeps_call [OF call that(1)] keeps_update [OF u]]] that(2) by simp
  ultimately show ?thesis using flagged_update [OF u] by simp
qed

lemma probe_chain_id_named:
  assumes "probe_chain_id env e c s = (Inr x, s')" and "named n s"
  shows "named n s'"
proof -
  obtain q s1 where call: "call_on_endpoint env e ''eth_chainId'' [] s = (q, s1)" by fastforce
  with assms(1) have "s' = s1"
    by (cases q) (auto simp: probe_chain_id_def bind_io_def Let_def split: sum.splits json.splits if_splits)
  with named_frame [OF call_on_endpoint_frame [OF call] assms(2)] show ?thesis by simp
qed

lemma probe_http_batch_named:
  assumes "probe_http_batch env e c s = (Inr x, s')" and "named n s"
  shows "named n s'"
proof -
  obtain q s1 where call: "batch_on_endpoint env e [chain_id_request 7001, chain_id_request 7002] s = (q, s1)" by fastforce
  from assms(1) call obtain b where "set_http_batch e b s1 = (Inr x, s')"
    by (cases q) (auto simp: probe_http_batch_def Let_def split: if_splits)
  then have "update_endpoint (ep_name e) (\<lambda>e. e\<lparr>ep_supports_http_batch := b\<rparr>) s1 = (Inr (), s')"
    by (auto simp: set_http_batch_def bind_io_Inr)
  from named_update [OF this] named_frame [OF batch_on_endpoint_frame [OF call] assms(2)] show ?thesis by simp
qed

lemma probe_finality_tag_keeps:
  assumes "probe_finality_tag env e tag s = (r, s')" and "configured f"
  shows "keeps name f s s'"
proof -
  obtain q s1 where call: "call_on_endpoint env e ''eth_getBlockByNumber'' [JStr tag, JBool False] s = (q, s1)" by fastforce
  with assms(1) have "s' = s1"
    by (auto simp: probe_finality_tag_def catch_io_def bind_io_def split: sum.splits prod.splits if_splits)
  with keeps_call [OF call assms(2)] show ?thesis by simp
qed

lemma check_multicall_code_keeps:
  assumes "check_multicall_code env ex e p s = (Inr x, s')" and "configured f"
  shows "keeps name f s s'"
proof -
  obtain q s1 where call: "call_on_endpoint env e ''eth_getCode''
      [JStr (pr_multicall_address p), JStr (py_hex (pr_multicall_deployment_block p))] s = (q, s1)" by fastforce
  with assms(1) have "s' = s1"
    by (cases q) (auto simp: check_multicall_code_def bind_io_def Let_def split: sum.splits json.splits if_splits)
  with keeps_call [OF call assms(2)] show ?thesis by simp
qed

text \<open>
  C11: an endpoint's capabilities are what it proved. When \<open>probe_endpoint_capabilities\<close>
  returns for an endpoint of the pool, that endpoint answered \<open>eth_chainId\<close> with the expected chain
  and \<open>eth_getCode\<close> at the deployment block with code whose keccak is the pinned hash. EIP-1898 is
  reported and flagged only if it answered a call pinned to the hash of the deployment block with
  that block's number and refused one pinned to a bogus hash; HTTP batches only if both identifiers
  of a batch were answered with the chain. The archive block is one at which it answered the block,
  non-empty code and a strictly decoded word, pinned to the block's hash exactly when it supports
  EIP-1898. The flags of the endpoint in the pool are the reported ones.
\<close>
theorem probed_capabilities_proven:
  assumes "probe_endpoint_capabilities env ex e p s = (Inr ca, s')" and "named (ep_name e) s"
  shows "chain_proved env e (pr_expected_chain_id p) \<and> code_proved env ex e p
    \<and> (ca_supports_http_batch ca \<longrightarrow> batch_proved env e (pr_expected_chain_id p))
    \<and> (ca_supports_eip1898 ca \<longrightarrow> (\<exists>raw block.
          answered env e ''eth_getBlockByNumber'' [JStr (py_hex (pr_multicall_deployment_block p)), JBool False] raw
          \<and> parse_block raw (Some (pr_multicall_deployment_block p)) = Inr block
          \<and> eip1898_proved env e (pr_multicall_address p) (''0x'' @ bytes_hex GET_BLOCK_NUMBER_SELECTOR)
              (block_hash block) (number block)))
    \<and> archive_proved env e p (ca_supports_eip1898 ca) \<and> ca_archive_from_block ca = pr_archive_probe_block p
    \<and> (\<forall>x \<in> set (st_endpoints s'). ep_name x = ep_name e \<longrightarrow>
          ep_supports_eip1898 x = ca_supports_eip1898 ca \<and> ep_supports_http_batch x = ca_supports_http_batch ca
          \<and> ep_archive_from_block x = Some (ca_archive_from_block ca))"
proof -
  let ?n = "ep_name e" and ?depl = "pr_multicall_deployment_block p"
  from assms(1) obtain u1 s1 http s2 tag s3 raw s4 block u5 s5 eip s6 u7 where
    chain: "probe_chain_id env e (pr_expected_chain_id p) s = (Inr u1, s1)"
    and http: "probe_http_batch env e (pr_expected_chain_id p) s1 = (Inr http, s2)"
    and tag: "probe_finality_tag env e (pr_finality_tag p) s2 = (Inr tag, s3)"
    and get: "call_on_endpoint env e ''eth_getBlockByNumber'' [JStr (py_hex ?depl), JBool False] s3 = (Inr raw, s4)"
    and block: "parse_block raw (Some ?depl) = Inr block"
    and code: "check_multicall_code env ex e p s4 = (Inr u5, s5)"
    and eip: "probe_eip1898 env e (pr_multicall_address p) (block_hash block) (number block)
        (''0x'' @ bytes_hex GET_BLOCK_NUMBER_SELECTOR) s5 = (Inr eip, s6)"
    and archive: "probe_archive_state env e (pr_archive_probe_address p) (pr_archive_probe_block p)
        (pr_archive_probe_calldata p) s6 = (Inr u7, s')"
    and ca: "ca = \<lparr>ca_chain_id_verified = True, ca_supports_http_batch = http, ca_supports_eip1898 = eip,
      ca_supports_finality_tag = tag, ca_archive_from_block = pr_archive_probe_block p, ca_multicall_code_hash_verified = True\<rparr>"
    unfolding probe_endpoint_capabilities_def bind_io_Inr lift_res_Inr io_prim prod.inject sum.inject by blast
  let ?http = "\<lambda>x. ep_supports_http_batch x = http"
  have first: "named ?n s2"
    using assms(2) probe_chain_id_named [OF chain] probe_http_batch_named [OF http] by blast
  have batch: "keeps ?n ?http s2 s5"
    by (rule keeps_trans [OF probe_finality_tag_keeps [OF tag] keeps_trans [OF keeps_call [OF get]
          check_multicall_code_keeps [OF code]]]) simp_all
  note h = probe_http_batch_Inr [OF http] and i = probe_eip1898_Inr [OF eip, of http]
  have n6: "named ?n s6" "flagged ?n ?http s6" using first batch h i by (auto simp: keeps_def)
  note a = probe_archive_state_Inr [OF archive n6(1), of eip http]
  have flags: "flagged ?n ?http s'" "flagged ?n (\<lambda>x. ep_supports_eip1898 x = eip) s'"
    "flagged ?n (\<lambda>x. ep_archive_from_block x = Some (pr_archive_probe_block p)) s'"
    using a n6 i by (simp_all add: keeps_def)
  have ca_simps: "ca_supports_http_batch ca = http" "ca_supports_eip1898 ca = eip" "ca_archive_from_block ca = pr_archive_probe_block p"
    by (simp_all add: ca)
  show ?thesis unfolding ca_simps
  proof (intro conjI)
    show "eip \<longrightarrow> (\<exists>raw block.
          answered env e ''eth_getBlockByNumber'' [JStr (py_hex ?depl), JBool False] raw
          \<and> parse_block raw (Some ?depl) = Inr block
          \<and> eip1898_proved env e (pr_multicall_address p) (''0x'' @ bytes_hex GET_BLOCK_NUMBER_SELECTOR)
              (block_hash block) (number block))"
      using i block call_on_endpoint_answered [OF get] by blast
    show "\<forall>x \<in> set (st_endpoints s'). ep_name x = ep_name e \<longrightarrow>
          ep_supports_eip1898 x = eip \<and> ep_supports_http_batch x = http
          \<and> ep_archive_from_block x = Some (pr_archive_probe_block p)"
      using flags unfolding flagged_def by blast
  qed (use probe_chain_id_Inr [OF chain] check_multicall_code_Inr [OF code] h i a in blast)+
qed

subsection \<open>A provider that passes every probe\<close>

definition probe_answer :: "string \<Rightarrow> json list \<Rightarrow> string \<times> json" where
  "probe_answer m ps =
     (if m = ''eth_chainId'' then (''result'', JStr ''0x64'')
      else if m = ''eth_getBlockByNumber'' then (''result'', block_json (sample_block 1))
      else if m = ''eth_getCode'' then (''result'', JStr ''0x6001'')
      else case ps of
        [_, JObj kvs] \<Rightarrow>
          if obj_get kvs ''blockHash'' = JStr bogus_hash then (''error'', JObj [(''code'', JInt (- 32000)), (''message'', JStr '''')])
          else (''result'', JStr (''0x'' @ replicate 63 (CHR ''0'') @ ''1''))
      | _ \<Rightarrow> (''result'', JStr (''0x'' @ replicate 63 (CHR ''0'') @ ''1'')))"

definition probe_reply :: "json \<Rightarrow> json" where
  "probe_reply p =
     (let kvs = obj_fields p in
      JObj [(''id'', obj_get kvs ''id''),
        probe_answer (case obj_get kvs ''method'' of JStr m \<Rightarrow> m | _ \<Rightarrow> [])
          (case obj_get kvs ''params'' of JArr ps \<Rightarrow> ps | _ \<Rightarrow> [])])"

definition probe_env :: "nat env" where
  "probe_env = \<lparr>monotonic = (\<lambda>w. (of_nat w, w + 1)), sleep = (\<lambda>d w. w),
     http_post = (\<lambda>url payload w. (Response 200 ''OK'' None
        (Some (case payload of JArr items \<Rightarrow> JArr (map probe_reply items) | p \<Rightarrow> probe_reply p)), w))\<rparr>"

definition totals :: "('s, 'a) io \<Rightarrow> ('a \<Rightarrow> bool) \<Rightarrow> bool" where
  "totals m P \<longleftrightarrow> (\<forall>s. \<exists>x s'. m s = (Inr x, s') \<and> P x)"

lemma totals_bind: "totals m P \<Longrightarrow> (\<And>x. P x \<Longrightarrow> totals (f x) Q) \<Longrightarrow> totals (bind_io m f) Q"
  unfolding totals_def bind_io_def by (metis (mono_tags, lifting) case_prod_conv sum.case(2))

lemma totals_prim: "P x \<Longrightarrow> totals (ret x) P" "P x \<Longrightarrow> totals (lift_res (Inr x)) P"
  by (simp_all add: totals_def)

lemma throttle_returns: "\<exists>s'. throttle env e s = (Inr (), s')"
  by (auto simp: throttle_def now_def bind_io_def pause_def update_endpoint_def Let_def split: prod.splits if_split)

lemma probe_post:
  assumes "ep_has_client e"
  shows "\<exists>s'. post probe_env e p s
    = (Inr (case p of JArr items \<Rightarrow> JArr (map probe_reply items) | p \<Rightarrow> probe_reply p), s')"
proof -
  obtain s1 where "throttle probe_env e s = (Inr (), s1)" using throttle_returns by blast
  with assms show ?thesis by (simp add: post_def bind_io_def read_response_def) (simp add: probe_env_def)
qed

lemma probe_answer_member: "fst (probe_answer m ps) = ''result'' \<and> snd (probe_answer m ps) \<noteq> JNull
    \<or> fst (probe_answer m ps) = ''error'' \<and> snd (probe_answer m ps) \<noteq> JNull"
  by (auto simp: probe_answer_def block_json_def split: list.split json.split)

lemma probe_call:
  assumes "ep_has_client e"
  shows "\<exists>s'. call_on_endpoint probe_env e m ps s =
    (if fst (probe_answer m ps) = ''result'' then Inr (snd (probe_answer m ps))
     else Inl (response_error (snd (probe_answer m ps))), s')"
proof -
  have reply: "probe_reply (request_payload rid m ps) = JObj [(''id'', JInt rid), probe_answer m ps]" for rid
    by (simp add: probe_reply_def request_payload_def obj_fields_def obj_get_def)
  obtain s1 where p: "post probe_env e (request_payload (st_request_id s + 1) m ps) (s\<lparr>st_request_id := st_request_id s + 1\<rparr>)
      = (Inr (probe_reply (request_payload (st_request_id s + 1) m ps)), s1)"
    using probe_post [OF assms, of "request_payload (st_request_id s + 1) m ps"] by (auto simp: request_payload_def)
  obtain k j where a: "probe_answer m ps = (k, j)" by fastforce
  have "read_body rid (JObj [(''id'', JInt rid), (k, j)]) = (if k = ''result'' then Inr j else Inl (response_error j))" for rid
    using probe_answer_member [of m ps] a by (auto simp: read_body_def obj_get_def obj_has_def json_eq_int_def)
  with p show ?thesis by (simp add: call_on_endpoint_def bind_io_def next_id_def reply a)
qed

lemma totals_call:
  "ep_has_client e \<Longrightarrow> fst (probe_answer m ps) = ''result'' \<Longrightarrow>
     totals (call_on_endpoint probe_env e m ps) (\<lambda>j. j = snd (probe_answer m ps))"
  unfolding totals_def using probe_call [of e m ps] by auto

definition probe_sample :: probe_config where
  "probe_sample = \<lparr>pr_expected_chain_id = 100, pr_finality_tag = ''finalized'', pr_multicall_address = ''0xca'',
     pr_multicall_deployment_block = 1, pr_expected_multicall_code_hash = ''0x6001'',
     pr_archive_probe_address = ''0xab'', pr_archive_probe_block = 1, pr_archive_probe_calldata = ''0x18160ddd''\<rparr>"

definition probe_state :: "nat rpc_state" where
  "probe_state = \<lparr>st_endpoints = [sample_endpoint ''a''], st_cursor = 0, st_request_id = 0, st_world = 0\<rparr>"

lemma probe_values:
  "py_int16 ''0x64'' = Inr 100" "py_hex 100 = ''0x64''"
  "obs_status (decode_uint256 True (RetHex (''0x'' @ replicate 63 (CHR ''0'') @ ''1''))) = OK"
  "obs_value (decode_uint256 True (RetHex (''0x'' @ replicate 63 (CHR ''0'') @ ''1''))) = Some 1"
  "bogus_hash \<noteq> sample_hash 1" "hex_data_to_bytes ''0x6001'' = Inr [0x60, 0x01]"
  "bytes_hex (take 2 [0x60, 0x01]) = ''6001''" "str_lower ''0x6001'' = ''0x6001''"
  by code_simp+

lemma probe_block: "parse_block (block_json (sample_block 1)) x = Inr (sample_block 1)" if "x = None \<or> x = Some 1"
proof -
  have "parse_block (block_json (sample_block 1)) None = Inr (sample_block 1)" by (simp add: sample_parses)
  moreover have "number (sample_block 1) = 1" by (simp add: sample_block_def)
  ultimately show ?thesis using that unfolding parse_block_def
    by (auto simp: bind_res_Inr split: json.splits) (metis block_ref.select_convs(1))
qed

lemma probe_call_bogus:
  assumes "ep_has_client e"
  shows "\<exists>x s'. call_on_endpoint probe_env e ''eth_call'' (pinned_call to data bogus_hash) s = (Inl x, s')
    \<and> isinstance x RpcResponseError"
  using probe_call [OF assms, of "''eth_call''" "pinned_call to data bogus_hash" s]
  by (auto simp: probe_answer_def pinned_call_def obj_get_def response_error_def is_subclass_def)

lemma set_flag_totals: "totals (set_eip1898 e b) (\<lambda>x. x = b)" "totals (set_http_batch e b) (\<lambda>x. True)"
  by (simp_all add: totals_def set_eip1898_def set_http_batch_def update_endpoint_def bind_io_def)

lemma catch_totals: "totals m P \<Longrightarrow> totals (catch_io m h) P"
  unfolding totals_def catch_io_def by (metis (mono_tags, lifting) case_prod_conv sum.case(2))

lemma chain_totals:
  assumes client: "ep_has_client e"
  shows "totals (probe_chain_id probe_env e 100) (\<lambda>_. True)"
  unfolding probe_chain_id_def
  by (rule totals_bind [OF totals_call [OF client]]) (auto simp: probe_answer_def probe_values totals_def)

lemma finality_totals:
  assumes client: "ep_has_client e"
  shows "totals (probe_finality_tag probe_env e tag) (\<lambda>_. True)"
proof -
  have "totals (bind_io (call_on_endpoint probe_env e ''eth_getBlockByNumber'' [JStr tag, JBool False]) (\<lambda>finalized.
               bind_io (lift_res (parse_block finalized None)) (\<lambda>_. ret True))) (\<lambda>_. True)"
    by (rule totals_bind [OF totals_call [OF client]]) (auto simp: probe_answer_def probe_block totals_def)
  then show ?thesis unfolding probe_finality_tag_def by (rule catch_totals)
qed

lemma code_totals:
  assumes client: "ep_has_client e"
  shows "totals (check_multicall_code probe_env sample_keccak_ext e probe_sample) (\<lambda>_. True)"
  unfolding check_multicall_code_def
  by (rule totals_bind [OF totals_call [OF client]])
    (auto simp: probe_answer_def probe_values totals_def probe_sample_def sample_keccak_ext_def probe_values(7) [simplified])

lemma batch_totals:
  assumes client: "ep_has_client e"
  shows "totals (probe_http_batch probe_env e c) (\<lambda>_. True)"
proof -
  have "\<exists>b s'. probe_http_batch probe_env e c s = (Inr b, s')" for s
  proof -
    obtain s1 where "post probe_env e (JArr [chain_id_request 7001, chain_id_request 7002]) s
        = (Inr (JArr (map probe_reply [chain_id_request 7001, chain_id_request 7002])), s1)"
      using probe_post [OF client, of "JArr [chain_id_request 7001, chain_id_request 7002]" s] by auto
    then have "batch_on_endpoint probe_env e [chain_id_request 7001, chain_id_request 7002] s
        = (Inr (map probe_reply [chain_id_request 7001, chain_id_request 7002]), s1)"
      by (simp add: batch_on_endpoint_def bind_io_def probe_reply_def Let_def is_obj_def)
    with set_flag_totals(2) show ?thesis
      by (fastforce simp: probe_http_batch_def Let_def probe_reply_def chain_id_request_def obj_fields_def
          obj_get_def hashable_id_def totals_def)
  qed
  then show ?thesis by (simp add: totals_def)
qed

lemma eip_totals:
  assumes client: "ep_has_client e"
  shows "totals (probe_eip1898 probe_env e to (sample_hash 1) 1 data) (\<lambda>b. b)"
proof -
  have "\<exists>s'. probe_eip1898 probe_env e to (sample_hash 1) 1 data s = (Inr True, s')" for s
  proof -
    obtain s1 where c: "call_on_endpoint probe_env e ''eth_call'' (pinned_call to data (sample_hash 1)) s
        = (Inr (JStr (''0x'' @ replicate 63 (CHR ''0'') @ ''1'')), s1)"
      using probe_call [OF client, of "''eth_call''" "pinned_call to data (sample_hash 1)" s] probe_values(5)
      by (auto simp: probe_answer_def pinned_call_def obj_get_def)
    obtain x s2 where b: "call_on_endpoint probe_env e ''eth_call'' (pinned_call to data bogus_hash) s1 = (Inl x, s2)"
      "isinstance x RpcResponseError" using probe_call_bogus [OF client] by blast
    obtain s3 where "set_eip1898 e True s2 = (Inr True, s3)" using set_flag_totals(1) [of e True] unfolding totals_def by blast
    with c b probe_values(3,4) show ?thesis by (simp add: probe_eip1898_def Let_def del: append.simps replicate.simps)
  qed
  then show ?thesis unfolding totals_def by blast
qed

lemma archive_totals:
  assumes client: "ep_has_client e"
  shows "totals (probe_archive_state probe_env e a 1 data) (\<lambda>_. True)"
proof -
  let ?word = "''0x'' @ replicate 63 (CHR ''0'') @ ''1''"
  have eth_call: "probe_answer ''eth_call'' [c, JObj [(''blockHash'', JStr (sample_hash 1)), (''requireCanonical'', JBool True)]]
      = (''result'', JStr ?word)" "probe_answer ''eth_call'' [c, JStr h] = (''result'', JStr ?word)" for c h
    using probe_values(5) by (simp_all add: probe_answer_def obj_get_def)
  have flag: "totals (supports_eip1898_now e) (\<lambda>_. True)" by (simp add: totals_def supports_eip1898_now_def)
  have update: "totals (update_endpoint n f) (\<lambda>_. True)" for n f by (simp add: totals_def update_endpoint_def)
  have get: "probe_answer ''eth_getBlockByNumber'' ps = (''result'', block_json (sample_block 1))"
    "probe_answer ''eth_getCode'' ps = (''result'', JStr ''0x6001'')" for ps by (simp_all add: probe_answer_def)
  have bh: "block_hash (sample_block 1) = sample_hash 1" by (simp add: sample_block_def)
  show ?thesis unfolding probe_archive_state_def
    apply (simp add: Let_def)
    apply (rule totals_bind [OF totals_call [OF client]], simp add: get)
    apply (simp add: get probe_block)
    apply (rule totals_bind [OF flag])
    apply (rule totals_bind [OF totals_call [OF client]], simp add: get)
    apply (simp add: get probe_values(6) bh)
    apply (intro conjI impI)
    apply (rule totals_bind [OF totals_call [OF client]], simp only: eth_call fst_conv)
    apply (simp only: eth_call snd_conv json.case probe_values(3) Let_def, simp add: update)
    apply (rule totals_bind [OF totals_call [OF client]], simp only: eth_call fst_conv)
    apply (simp only: eth_call snd_conv json.case probe_values(3) Let_def, simp add: update)
    done
qed

theorem probed_capabilities_proven_witness:
  "\<exists>ca s'. probe_endpoint_capabilities probe_env sample_keccak_ext (sample_endpoint ''a'') probe_sample probe_state = (Inr ca, s')
     \<and> ca_supports_eip1898 ca \<and> archive_proved probe_env (sample_endpoint ''a'') probe_sample True"
proof -
  have client: "ep_has_client (sample_endpoint ''a'')" by (simp add: sample_endpoint_def)
  have get: "fst (probe_answer ''eth_getBlockByNumber'' ps) = ''result''"
    "snd (probe_answer ''eth_getBlockByNumber'' ps) = block_json (sample_block 1)" for ps
    by (simp_all add: probe_answer_def)
  have p: "pr_expected_chain_id probe_sample = 100" "pr_multicall_deployment_block probe_sample = 1"
    "pr_archive_probe_block probe_sample = 1" by (simp_all add: probe_sample_def)
  have lift_res_bind: "bind_io (lift_res (Inr x)) f = f x" for x and f :: "block_ref \<Rightarrow> (nat, endpoint_capabilities) rpc" by simp
  have block: "number (sample_block 1) = 1" "block_hash (sample_block 1) = sample_hash 1" by (simp_all add: sample_block_def)
  have "totals (probe_endpoint_capabilities probe_env sample_keccak_ext (sample_endpoint ''a'') probe_sample) ca_supports_eip1898"
    unfolding probe_endpoint_capabilities_def
    apply (simp only: p)
    apply (rule totals_bind [OF chain_totals [OF client]])
    apply (rule totals_bind [OF batch_totals [OF client]])
    apply (rule totals_bind [OF finality_totals [OF client]])
    apply (rule totals_bind [OF totals_call [OF client get(1)]])
    apply (simp only: get(2) probe_block simp_thms lift_res_bind block)
    apply (rule totals_bind [OF code_totals [OF client]])
    apply (rule totals_bind [OF eip_totals [OF client]])
    apply (rule totals_bind [OF archive_totals [OF client]])
    apply (rule totals_prim, simp)
    done
  then obtain ca s' where run: "probe_endpoint_capabilities probe_env sample_keccak_ext (sample_endpoint ''a'') probe_sample probe_state
      = (Inr ca, s')" and ca: "ca_supports_eip1898 ca" unfolding totals_def by blast
  have "named (ep_name (sample_endpoint ''a'')) probe_state" by (simp add: named_def probe_state_def)
  from probed_capabilities_proven [OF run this] ca have "archive_proved probe_env (sample_endpoint ''a'') probe_sample True" by simp
  with run ca show ?thesis by blast
qed

text \<open>
  A provider that answers an unsupported finality tag with a null block is not reported as lacking
  the tag: the exception of \<open>parse_block\<close> leaves the probe.
\<close>

lemma finality_null_escapes:
  assumes "call_on_endpoint env e ''eth_getBlockByNumber'' [JStr tag, JBool False] s = (Inr JNull, s1)"
  shows "\<exists>m. probe_finality_tag env e tag s = (Inl (Exn AnchorValidationError m), s1)"
  using assms by (simp add: probe_finality_tag_def catch_io_def bind_io_def parse_block_def raise_res_def is_subclass_def)

end
