(* ===== verification/Guard.thy ===== *)
theory Guard
  imports Census
begin

text \<open>
  The single-writer guard of \<open>service.py\<close> (\<open>WriterGuard\<close>). First its operations on a repository,
  as the code has them; then the protocol they follow when several writers run, a step relation in
  which every database call of every writer is one step, with the property that makes it a lock,
  and the refinement of the first by the second.
\<close>

subsection \<open>The guard\<close>

text \<open>The heartbeat task: running, or ended, by cancellation or with an exception.\<close>

datatype task = Running | Ended "exn option"

record 'w writer_guard =
  wg_store :: "'w client"
  wg_chain_id :: int
  wg_operation :: string
  wg_stale_seconds :: int
  wg_process_id :: nat
  wg_started_at :: int
  wg_hostname :: string
  wg_sleep :: "rat \<Rightarrow> ('w, unit) io"
  wg_monotonic :: "('w, rat) io"

record 'w guarded =
  gw_session :: "'w session"
  gw_acquired :: bool
  gw_task :: "task option"

definition DISCOVERY_SCOPE_OPERATIONS :: "string list" where
  "DISCOVERY_SCOPE_OPERATIONS = [''discover'']"

definition discovery_scope :: "'w writer_guard \<Rightarrow> bool" where
  "discovery_scope g \<longleftrightarrow> wg_operation g \<in> set DISCOVERY_SCOPE_OPERATIONS"

definition on_store :: "('w session, 'a) io \<Rightarrow> ('w guarded, 'a) io" where
  "on_store m = (\<lambda>s. case m (gw_session s) of (r, t) \<Rightarrow> (r, s\<lparr>gw_session := t\<rparr>))"

definition set_acquired :: "bool \<Rightarrow> ('w guarded, unit) io" where
  "set_acquired b = (\<lambda>s. (Inr (), s\<lparr>gw_acquired := b\<rparr>))"

definition set_task :: "task option \<Rightarrow> ('w guarded, unit) io" where
  "set_task t = (\<lambda>s. (Inr (), s\<lparr>gw_task := t\<rparr>))"

text \<open>\<open>try: m finally: f\<close>\<close>

definition finally_io :: "('s, 'a) io \<Rightarrow> ('s, unit) io \<Rightarrow> ('s, 'a) io" where
  "finally_io m f = (\<lambda>s. case m s of (r, s1) \<Rightarrow> (case f s1 of (Inl e, s2) \<Rightarrow> (Inl e, s2) | (Inr _, s2) \<Rightarrow> (r, s2)))"

definition in_dquotes :: "string \<Rightarrow> string" where
  "in_dquotes s = [dquote_char] @ s @ [dquote_char]"

definition beat_row :: "'w writer_guard \<Rightarrow> int \<Rightarrow> string \<Rightarrow> row" where
  "beat_row g heartbeat_at state =
     [(''chain_id'', CInt (wg_chain_id g)), (''process_id'', CUuid (wg_process_id g)),
      (''operation'', CText (wg_operation g)), (''hostname'', CText (wg_hostname g)),
      (''details_json'', CText (''{'' @ in_dquotes ''state'' @ '': '' @ in_dquotes state @ ''}'')),
      (''started_at'', CTime (wg_started_at g)), (''heartbeat_at'', CTime heartbeat_at)]"

definition guard_write :: "'w writer_guard \<Rightarrow> int \<Rightarrow> string \<Rightarrow> ('w guarded, unit) io" where
  "guard_write g heartbeat_at state =
     bind_io (on_store (heartbeat (wg_store g) (beat_row g heartbeat_at state))) (\<lambda>_. ret ())"

definition fresh_writers :: "'w writer_guard \<Rightarrow> ('w guarded, string list) io" where
  "fresh_writers g = on_store (fresh_writer_processes (wg_store g) (wg_chain_id g) (wg_stale_seconds g) (discovery_scope g))"

definition guard_now :: "'w writer_guard \<Rightarrow> ('w guarded, int) io" where
  "guard_now g = on_store (on_world (db_now (wg_store g)))"

definition guard_confirm :: "'w writer_guard \<Rightarrow> ('w guarded, unit) io" where
  "guard_confirm g =
     bind_io (fresh_writers g) (\<lambda>after.
       if list_ex (\<lambda>process. process \<noteq> uuid_str (wg_process_id g)) after
       then bind_io (finally_io (guard_write g 0 ''released'') (set_acquired False)) (\<lambda>_.
              raise (Exn ServiceError ''writer race detected; refusing overlapping execution''))
       else set_task (Some Running))"

definition guard_acquire :: "'w writer_guard \<Rightarrow> ('w guarded, unit) io" where
  "guard_acquire g =
     bind_io (fresh_writers g) (\<lambda>active.
       if active \<noteq> []
       then raise (Exn ServiceError
              (''another writer heartbeat is fresh ('' @ py_int (int (length active)) @ '' process(es))''))
       else bind_io (guard_now g) (\<lambda>t.
            bind_io (guard_write g t ''active'') (\<lambda>_.
            bind_io (set_acquired True) (\<lambda>_. guard_confirm g))))"

text \<open>The retries of a release: \<open>Some e\<close> when all of them failed, the last with \<open>e\<close>.\<close>

fun release_attempts :: "'w writer_guard \<Rightarrow> nat list \<Rightarrow> exn option \<Rightarrow> ('w guarded, exn option) io" where
  "release_attempts g [] release_error = ret release_error"
| "release_attempts g (attempt # attempts) release_error = (\<lambda>s.
     case guard_write g 0 ''released'' s of
       (Inr _, s1) \<Rightarrow> (Inr None, s1)
     | (Inl e, s1) \<Rightarrow>
         bind_io (on_store (on_world (wg_sleep g (min (2 * (of_nat attempt + 1)) 6)))) (\<lambda>_.
           release_attempts g attempts (Some e)) s1)"

definition guard_release :: "'w writer_guard \<Rightarrow> ('w guarded, unit) io" where
  "guard_release g = (\<lambda>s0.
     let task_failures = (case gw_task s0 of Some (Ended (Some e)) \<Rightarrow> [e] | _ \<Rightarrow> []) in
     bind_io (set_task None) (\<lambda>_.
     bind_io (if gw_acquired s0
              then bind_io (release_attempts g [0, 1, 2, 3, 4] None) (\<lambda>release_error.
                   bind_io (set_acquired False) (\<lambda>_.
                     ret (case release_error of None \<Rightarrow> [] | Some e \<Rightarrow> [e])))
              else ret []) (\<lambda>release_failures.
       let failures = task_failures @ release_failures in
       if failures \<noteq> []
       then raise (Exn ServiceError (''writer guard cleanup failed ('' @
              join '', '' (map (\<lambda>e. exn_name (exn_class_of e)) failures) @ '')''))
       else ret ())) s0)"

definition guard_healthy :: "'w guarded \<Rightarrow> bool" where
  "guard_healthy s \<longleftrightarrow> gw_acquired s \<and> gw_task s = Some Running"

definition ensure_healthy :: "('w guarded, unit) io" where
  "ensure_healthy = (\<lambda>s. if guard_healthy s then (Inr (), s)
     else (raise_res ServiceError ''writer heartbeat stopped; refusing further work'', s))"

text \<open>One turn of \<open>_heartbeat_loop\<close> from the time of the last successful write; it returns the new one.\<close>

definition heartbeat_turn :: "'w writer_guard \<Rightarrow> rat \<Rightarrow> ('w guarded, rat) io" where
  "heartbeat_turn g last_success =
     (let mono = on_store (on_world (wg_monotonic g)) in
      bind_io (on_store (on_world (wg_sleep g (max 10 (of_int (wg_stale_seconds g) / 3))))) (\<lambda>_.
        catch_io (bind_io (guard_now g) (\<lambda>t. bind_io (guard_write g t ''active'') (\<lambda>_. mono)))
          (\<lambda>e. bind_io mono (\<lambda>t. if t - last_success \<ge> of_int (wg_stale_seconds g) then raise e else ret last_success))))"

subsection \<open>The protocol\<close>

text \<open>
  The shared heartbeat table and the writers around it, one step per database call. A writer is named
  by the text of its process id; \<open>gs_beat\<close> is the current heartbeat of its row (the last inserted one,
  \<open>ReplacingMergeTree\<close>), \<open>cls\<close> says which lock class its operation belongs to. A step of \<open>None\<close> lets
  time pass, a step of \<open>Some p\<close> is a call of writer \<open>p\<close>:

  \<^item> \<open>check\<close>, \<open>refuse\<close>: the first query of \<open>acquire\<close> finds the class free, or not;
  \<^item> \<open>enter\<close>: the \<open>active\<close> row is written, with a time read before;
  \<^item> \<open>confirm\<close>, \<open>conflict\<close>: the second query finds no other fresh row, or one;
  \<^item> \<open>renew\<close>: a beat of the heartbeat loop; when \<open>timely\<close> holds, no later than the previous beat is fresh;
  \<^item> \<open>leave\<close>: a \<open>released\<close> row is written; \<open>die\<close>: the process ends without one.
\<close>

datatype phase = Idle | Checked | Entered | Holding | Backing | Over

record gstate =
  gs_now :: int
  gs_beat :: "string \<Rightarrow> int option"
  gs_phase :: "string \<Rightarrow> phase"

definition fresh :: "int \<Rightarrow> gstate \<Rightarrow> string \<Rightarrow> bool" where
  "fresh stale \<sigma> p \<longleftrightarrow> (case gs_beat \<sigma> p of None \<Rightarrow> False | Some t \<Rightarrow> gs_now \<sigma> - stale \<le> t)"

definition contested :: "int \<Rightarrow> (string \<Rightarrow> bool) \<Rightarrow> gstate \<Rightarrow> string \<Rightarrow> bool" where
  "contested stale cls \<sigma> p \<longleftrightarrow> (\<exists>q. q \<noteq> p \<and> cls q = cls p \<and> fresh stale \<sigma> q)"

definition in_phase :: "string \<Rightarrow> phase \<Rightarrow> gstate \<Rightarrow> gstate" where
  "in_phase p ph \<sigma> = \<sigma>\<lparr>gs_phase := (gs_phase \<sigma>)(p := ph)\<rparr>"

definition with_beat :: "string \<Rightarrow> int \<Rightarrow> gstate \<Rightarrow> gstate" where
  "with_beat p t \<sigma> = \<sigma>\<lparr>gs_beat := (gs_beat \<sigma>)(p := Some t)\<rparr>"

inductive gstep :: "int \<Rightarrow> (string \<Rightarrow> bool) \<Rightarrow> bool \<Rightarrow> gstate \<Rightarrow> string option \<Rightarrow> gstate \<Rightarrow> bool"
  for stale :: int and cls :: "string \<Rightarrow> bool" and timely :: bool where
  tick: "0 \<le> t \<Longrightarrow> gstep stale cls timely \<sigma> None (\<sigma>\<lparr>gs_now := gs_now \<sigma> + t\<rparr>)"
| check: "gs_phase \<sigma> p = Idle \<Longrightarrow> \<not> contested stale cls \<sigma> p \<Longrightarrow> \<not> fresh stale \<sigma> p \<Longrightarrow>
    gstep stale cls timely \<sigma> (Some p) (in_phase p Checked \<sigma>)"
| refuse: "gs_phase \<sigma> p = Idle \<Longrightarrow> contested stale cls \<sigma> p \<or> fresh stale \<sigma> p \<Longrightarrow>
    gstep stale cls timely \<sigma> (Some p) (in_phase p Over \<sigma>)"
| enter: "gs_phase \<sigma> p = Checked \<Longrightarrow> t \<le> gs_now \<sigma> \<Longrightarrow>
    gstep stale cls timely \<sigma> (Some p) (in_phase p Entered (with_beat p t \<sigma>))"
| confirm: "gs_phase \<sigma> p = Entered \<Longrightarrow> \<not> contested stale cls \<sigma> p \<Longrightarrow>
    gstep stale cls timely \<sigma> (Some p) (in_phase p Holding \<sigma>)"
| conflict: "gs_phase \<sigma> p = Entered \<Longrightarrow> contested stale cls \<sigma> p \<Longrightarrow>
    gstep stale cls timely \<sigma> (Some p) (in_phase p Backing \<sigma>)"
| renew: "gs_phase \<sigma> p = Holding \<Longrightarrow> t \<le> gs_now \<sigma> \<Longrightarrow> (timely \<Longrightarrow> fresh stale \<sigma> p) \<Longrightarrow>
    gstep stale cls timely \<sigma> (Some p) (with_beat p t \<sigma>)"
| leave: "gstep stale cls timely \<sigma> (Some p) (in_phase p Over (with_beat p 0 \<sigma>))"
| die: "gstep stale cls timely \<sigma> (Some p) (in_phase p Over \<sigma>)"

inductive_cases gstep_noneE: "gstep stale cls timely \<sigma> None \<tau>"
inductive_cases gstep_someE: "gstep stale cls timely \<sigma> (Some p) \<tau>"

inductive gsteps :: "int \<Rightarrow> (string \<Rightarrow> bool) \<Rightarrow> bool \<Rightarrow> gstate \<Rightarrow> gstate \<Rightarrow> bool"
  for stale :: int and cls :: "string \<Rightarrow> bool" and timely :: bool where
  gsteps_refl: "gsteps stale cls timely \<sigma> \<sigma>"
| gsteps_step: "gsteps stale cls timely \<sigma> \<tau> \<Longrightarrow> gstep stale cls timely \<tau> l \<upsilon> \<Longrightarrow> gsteps stale cls timely \<sigma> \<upsilon>"

text \<open>What the other writers and the clock do between two calls of \<open>p\<close>.\<close>

inductive others :: "int \<Rightarrow> (string \<Rightarrow> bool) \<Rightarrow> bool \<Rightarrow> string \<Rightarrow> gstate \<Rightarrow> gstate \<Rightarrow> bool"
  for stale :: int and cls :: "string \<Rightarrow> bool" and timely :: bool and p :: string where
  others_refl: "others stale cls timely p \<sigma> \<sigma>"
| others_step: "others stale cls timely p \<sigma> \<tau> \<Longrightarrow> gstep stale cls timely \<tau> l \<upsilon> \<Longrightarrow> l \<noteq> Some p \<Longrightarrow>
    others stale cls timely p \<sigma> \<upsilon>"

declare gsteps_refl [intro!] others_refl [intro!]

definition exclusive :: "int \<Rightarrow> (string \<Rightarrow> bool) \<Rightarrow> gstate \<Rightarrow> bool" where
  "exclusive stale cls \<sigma> \<longleftrightarrow> (\<forall>p q. gs_phase \<sigma> p = Holding \<and> fresh stale \<sigma> p \<and>
     gs_phase \<sigma> q = Holding \<and> fresh stale \<sigma> q \<and> cls p = cls q \<longrightarrow> p = q)"

lemma in_phase_simps [simp]:
  "gs_now (in_phase p ph \<sigma>) = gs_now \<sigma>" "gs_beat (in_phase p ph \<sigma>) = gs_beat \<sigma>"
  "gs_phase (in_phase p ph \<sigma>) = (gs_phase \<sigma>)(p := ph)"
  "fresh stale (in_phase p ph \<sigma>) q = fresh stale \<sigma> q"
  "contested stale cls (in_phase p ph \<sigma>) q = contested stale cls \<sigma> q"
  "in_phase p ph (in_phase p ph' \<sigma>) = in_phase p ph \<sigma>"
  by (simp_all add: in_phase_def fresh_def contested_def cong: option.case_cong)

lemma with_beat_simps [simp]:
  "gs_now (with_beat p t \<sigma>) = gs_now \<sigma>" "gs_beat (with_beat p t \<sigma>) = (gs_beat \<sigma>)(p := Some t)"
  "gs_phase (with_beat p t \<sigma>) = gs_phase \<sigma>"
  "fresh stale (with_beat p t \<sigma>) q = (if q = p then gs_now \<sigma> - stale \<le> t else fresh stale \<sigma> q)"
  by (simp_all add: with_beat_def fresh_def cong: option.case_cong)

lemma fresh_tick: "0 \<le> t \<Longrightarrow> fresh stale (\<sigma>\<lparr>gs_now := gs_now \<sigma> + t\<rparr>) p \<Longrightarrow> fresh stale \<sigma> p"
  by (auto simp: fresh_def split: option.splits)

lemma exclusive_step:
  assumes "gstep stale cls True \<sigma> l \<tau>" "exclusive stale cls \<sigma>"
  shows "exclusive stale cls \<tau>"
  using assms
proof (cases rule: gstep.cases)
  case (tick t)
  with assms(2) show ?thesis
    by (fastforce simp: exclusive_def dest: fresh_tick)
next
  case (confirm p)
  with assms(2) show ?thesis
    by (auto simp: exclusive_def contested_def split: if_splits)
next
  case (renew p t)
  with assms(2) show ?thesis
    by (auto simp: exclusive_def split: if_splits)
qed (use assms(2) in \<open>auto simp: exclusive_def split: if_splits\<close>)

lemma gsteps_trans:
  assumes "gsteps stale cls timely \<tau> \<upsilon>" "gsteps stale cls timely \<sigma> \<tau>"
  shows "gsteps stale cls timely \<sigma> \<upsilon>"
  using assms by (induction rule: gsteps.induct) (auto intro: gsteps_step)

lemma exclusive_steps: "gsteps stale cls True \<sigma> \<tau> \<Longrightarrow> exclusive stale cls \<sigma> \<Longrightarrow> exclusive stale cls \<tau>"
  by (induction rule: gsteps.induct) (auto intro: exclusive_step)

text \<open>Time and the other writers leave the row and the phase of \<open>p\<close> alone, and never look at its phase.\<close>

lemma others_frame:
  assumes "others stale cls timely p \<sigma> \<tau>"
  shows "gs_beat \<tau> p = gs_beat \<sigma> p \<and> gs_phase \<tau> p = gs_phase \<sigma> p \<and> gs_now \<sigma> \<le> gs_now \<tau>"
  using assms
proof (induction rule: others.induct)
  case (others_step \<sigma> \<tau> l \<upsilon>)
  from others_step.hyps(2) others_step.hyps(3) others_step.IH show ?case
    by (cases rule: gstep.cases) auto
qed simp

lemma in_phase_with_beat: "in_phase p ph (with_beat q t \<sigma>) = with_beat q t (in_phase p ph \<sigma>)"
  by (simp add: in_phase_def with_beat_def)

lemma in_phase_swap: "p \<noteq> q \<Longrightarrow> in_phase p ph (in_phase q ph' \<sigma>) = in_phase q ph' (in_phase p ph \<sigma>)"
  by (simp add: in_phase_def fun_upd_twist)

lemma gstep_in_phase:
  assumes "gstep stale cls timely \<sigma> l \<tau>" "l \<noteq> Some p"
  shows "gstep stale cls timely (in_phase p ph \<sigma>) l (in_phase p ph \<tau>)"
  using assms(1)
proof (cases rule: gstep.cases)
  case (tick t)
  then show ?thesis
    using gstep.tick [of t stale cls timely "in_phase p ph \<sigma>"] by (cases \<sigma>) (simp add: in_phase_def)
next
  case (check q)
  with assms(2) show ?thesis
    using gstep.check [of "in_phase p ph \<sigma>" q] by (simp add: in_phase_swap [of q p])
next
  case (refuse q)
  with assms(2) show ?thesis
    using gstep.refuse [of "in_phase p ph \<sigma>" q] by (simp add: in_phase_swap [of q p])
next
  case (enter q t)
  with assms(2) show ?thesis
    using gstep.enter [of "in_phase p ph \<sigma>" q t]
    by (simp add: in_phase_swap [of p q] in_phase_with_beat)
next
  case (confirm q)
  with assms(2) show ?thesis
    using gstep.confirm [of "in_phase p ph \<sigma>" q] by (simp add: in_phase_swap [of q p])
next
  case (conflict q)
  with assms(2) show ?thesis
    using gstep.conflict [of "in_phase p ph \<sigma>" q] by (simp add: in_phase_swap [of q p])
next
  case (renew q t)
  with assms(2) show ?thesis
    using gstep.renew [of "in_phase p ph \<sigma>" q t] by (simp add: in_phase_with_beat)
next
  case (leave q)
  with assms(2) show ?thesis
    using gstep.leave [of stale cls timely "in_phase p ph \<sigma>" q]
    by (simp add: in_phase_swap [of p q] in_phase_with_beat)
next
  case (die q)
  with assms(2) show ?thesis
    using gstep.die [of stale cls timely "in_phase p ph \<sigma>" q] by (simp add: in_phase_swap [of q p])
qed

lemma others_gsteps:
  "others stale cls timely p \<sigma> \<tau> \<Longrightarrow> gsteps stale cls timely (in_phase p ph \<sigma>) (in_phase p ph \<tau>)"
  by (induction rule: others.induct) (auto intro: gsteps_step gstep_in_phase)

lemma others_trans:
  assumes "others stale cls timely p \<tau> \<upsilon>" "others stale cls timely p \<sigma> \<tau>"
  shows "others stale cls timely p \<sigma> \<upsilon>"
  using assms by (induction rule: others.induct) (auto intro: others_step)

subsection \<open>The guard follows the protocol\<close>

definition own :: "'w writer_guard \<Rightarrow> string" where
  "own g = uuid_str (wg_process_id g)"

text \<open>
  A client whose world shows the shared table as \<open>tab\<close>: during a call the other writers may step, the
  query answers the fresh processes of the class, the clock is not ahead of the database's, and an
  insert replaces the row of its process, at some moment of the call; one that fails may have.
\<close>

definition quiet_call :: "(gstate \<Rightarrow> gstate \<Rightarrow> bool) \<Rightarrow> ('w \<Rightarrow> gstate) \<Rightarrow> ('w, 'a) io \<Rightarrow> ('a \<Rightarrow> gstate \<Rightarrow> bool) \<Rightarrow> bool" where
  "quiet_call R tab m Q \<longleftrightarrow> (\<forall>w r w'. m w = (r, w') \<longrightarrow> R (tab w) (tab w') \<and> (\<forall>x. r = Inr x \<longrightarrow> Q x (tab w')))"

definition writing_call :: "(gstate \<Rightarrow> gstate \<Rightarrow> bool) \<Rightarrow> ('w \<Rightarrow> gstate) \<Rightarrow> ('w, unit) io \<Rightarrow> (gstate \<Rightarrow> gstate) \<Rightarrow> bool" where
  "writing_call R tab m f \<longleftrightarrow> (\<forall>w r w'. m w = (r, w') \<longrightarrow>
     (\<exists>\<sigma>. R (tab w) \<sigma> \<and> (tab w' = f \<sigma> \<or> r \<noteq> Inr () \<and> tab w' = \<sigma>)))"

definition fresh_query :: "'w writer_guard \<Rightarrow> ('w, row list) io" where
  "fresh_query g = db_query (wg_store g) SQL_fresh_writers
     [(''chain_id'', CInt (wg_chain_id g)), (''stale_seconds'', CInt (wg_stale_seconds g)),
      (''discovery_scope'', CInt (if discovery_scope g then 1 else 0))] False"

definition beat_insert :: "'w writer_guard \<Rightarrow> int \<Rightarrow> string \<Rightarrow> ('w, unit) io" where
  "beat_insert g t st = db_insert (wg_store g) ''writer_heartbeats'' (map fst (beat_row g t st))
     [map snd (beat_row g t st)] None"

definition serves_table :: "int \<Rightarrow> (string \<Rightarrow> bool) \<Rightarrow> bool \<Rightarrow> 'w writer_guard \<Rightarrow> ('w \<Rightarrow> gstate) \<Rightarrow> bool" where
  "serves_table stale cls timely g tab \<longleftrightarrow>
     (let R = others stale cls timely (own g) in
      stale = wg_stale_seconds g \<and> cls (own g) = discovery_scope g
      \<and> quiet_call R tab (fresh_query g) (\<lambda>rows \<sigma>. \<forall>ps.
          map_res (\<lambda>row. col_str row ''process_id'') rows = Inr ps \<longrightarrow>
          set ps = {q. cls q = discovery_scope g \<and> fresh stale \<sigma> q})
      \<and> quiet_call R tab (db_now (wg_store g)) (\<lambda>t \<sigma>. t \<le> gs_now \<sigma>)
      \<and> (\<forall>t st. writing_call R tab (beat_insert g t st) (with_beat (own g) t))
      \<and> (\<forall>d. quiet_call R tab (wg_sleep g d) (\<lambda>_ _. True))
      \<and> quiet_call R tab (wg_monotonic g) (\<lambda>_ _. True))"

definition shows_table :: "('w \<Rightarrow> gstate) \<Rightarrow> 'w guarded \<Rightarrow> gstate" where
  "shows_table tab s = tab (ss_world (gw_session s))"

definition showing :: "('w \<Rightarrow> gstate) \<Rightarrow> string \<Rightarrow> phase \<Rightarrow> 'w guarded \<Rightarrow> gstate" where
  "showing tab p ph s = in_phase p ph (shows_table tab s)"

lemma on_store_run:
  "on_store m s = (r, s') \<longleftrightarrow> (\<exists>t. m (gw_session s) = (r, t) \<and> s' = s\<lparr>gw_session := t\<rparr>)"
  by (auto simp: on_store_def split: prod.splits)

lemma on_world_run:
  "on_world m s = (r, s') \<longleftrightarrow> (\<exists>w. m (ss_world s) = (r, w) \<and> s' = s\<lparr>ss_world := w\<rparr>)"
  by (auto simp: on_world_def split: prod.splits)

text \<open>What a call of the guard that writes nothing leaves: the others' steps, and the guard's fields.\<close>

definition quiet ::
  "int \<Rightarrow> (string \<Rightarrow> bool) \<Rightarrow> bool \<Rightarrow> 'w writer_guard \<Rightarrow> ('w \<Rightarrow> gstate) \<Rightarrow> 'w guarded \<Rightarrow> 'w guarded \<Rightarrow> bool" where
  "quiet stale cls timely g tab s s' \<longleftrightarrow>
     others stale cls timely (own g) (shows_table tab s) (shows_table tab s')
     \<and> gw_acquired s' = gw_acquired s \<and> gw_task s' = gw_task s"

lemma quiet_gsteps:
  "quiet stale cls timely g tab s s' \<Longrightarrow>
   gsteps stale cls timely (showing tab (own g) ph s) (showing tab (own g) ph s')"
  by (simp add: quiet_def showing_def others_gsteps)

lemma quiet_callD:
  "quiet_call R tab m Q \<Longrightarrow> m w = (r, w') \<Longrightarrow> R (tab w) (tab w')"
  "quiet_call R tab m Q \<Longrightarrow> m w = (Inr x, w') \<Longrightarrow> Q x (tab w')"
  by (auto simp: quiet_call_def)

lemma serves_tableD:
  assumes "serves_table stale cls timely g tab"
  shows "stale = wg_stale_seconds g" "cls (own g) = discovery_scope g"
    "quiet_call (others stale cls timely (own g)) tab (fresh_query g) (\<lambda>rows \<sigma>. \<forall>ps.
       map_res (\<lambda>row. col_str row ''process_id'') rows = Inr ps \<longrightarrow>
       set ps = {q. cls q = discovery_scope g \<and> fresh stale \<sigma> q})"
    "quiet_call (others stale cls timely (own g)) tab (db_now (wg_store g)) (\<lambda>t \<sigma>. t \<le> gs_now \<sigma>)"
    "writing_call (others stale cls timely (own g)) tab (beat_insert g t st) (with_beat (own g) t)"
    "quiet_call (others stale cls timely (own g)) tab (wg_sleep g d) (\<lambda>_ _. True)"
    "quiet_call (others stale cls timely (own g)) tab (wg_monotonic g) (\<lambda>_ _. True)"
  using assms unfolding serves_table_def Let_def by blast+

lemma on_world_quiet:
  assumes "quiet_call (others stale cls timely (own g)) tab m Q" "on_store (on_world m) s = (r, s')"
  shows "quiet stale cls timely g tab s s' \<and> (\<forall>x. r = Inr x \<longrightarrow> Q x (shows_table tab s'))"
  using assms(2) quiet_callD [OF assms(1)]
  by (auto simp: on_store_run on_world_run quiet_def shows_table_def)

lemma fresh_writers_quiet:
  assumes "serves_table stale cls timely g tab" "fresh_writers g s = (r, s')"
  shows "quiet stale cls timely g tab s s' \<and>
    (\<forall>ps. r = Inr ps \<longrightarrow> set ps = {q. cls q = discovery_scope g \<and> fresh stale (shows_table tab s') q})"
proof -
  have *: "fresh_writers g s = (case on_store (on_world (fresh_query g)) s of
      (r0, s1) \<Rightarrow> (bind_res r0 (map_res (\<lambda>row. col_str row ''process_id'')), s1))"
    unfolding fresh_writers_def fresh_writer_processes_def query_map_def query_rows_def fresh_query_def
    by (auto simp: on_store_def bind_io_def bind_res_def lift_res_def split: prod.splits sum.splits)
  obtain r0 s1 where q: "on_store (on_world (fresh_query g)) s = (r0, s1)"
    by (cases "on_store (on_world (fresh_query g)) s")
  from on_world_quiet [OF serves_tableD(3) [OF assms(1)] q] assms(2) q show ?thesis
    unfolding * by (auto simp: bind_res_def split: sum.splits)
qed

lemma guard_now_quiet:
  assumes "serves_table stale cls timely g tab" "guard_now g s = (r, s')"
  shows "quiet stale cls timely g tab s s' \<and> (\<forall>t. r = Inr t \<longrightarrow> t \<le> gs_now (shows_table tab s'))"
  using on_world_quiet [OF serves_tableD(4) [OF assms(1)]] assms(2) unfolding guard_now_def by blast

lemma check_beat_row: "check_rows ''writer_heartbeats'' [beat_row g t st] = Inr (map fst (beat_row g t st))"
  by (simp add: check_rows_def beat_row_def TABLE_COLUMNS_def TABLE_RE_def columns_of_def char_nat_def Let_def bind_res_def)

lemma beat_row_cells: "map (\<lambda>c. the (map_of (beat_row g t st) c)) (map fst (beat_row g t st)) = map snd (beat_row g t st)"
  by (simp add: beat_row_def)

lemma guard_write_run:
  assumes "guard_write g t st s = (r, s')"
  obtains w' r0 where "beat_insert g t st (ss_world (gw_session s)) = (r0, w')"
    "ss_world (gw_session s') = w'" "gw_acquired s' = gw_acquired s" "gw_task s' = gw_task s"
    "r = Inr () \<longleftrightarrow> r0 = Inr ()"
proof -
  have *: "insert_rows (wg_store g) ''writer_heartbeats'' [beat_row g t st] None =
      bind_io (sent (''writer_heartbeats'', [beat_row g t st])) (\<lambda>_.
        bind_io (on_world (beat_insert g t st)) (\<lambda>_. ret 1))"
    by (simp add: beat_insert_def insert_rows_def check_beat_row beat_row_cells del: map_map)
  show thesis
    using assms that
    unfolding guard_write_def heartbeat_def *
    by (auto simp: bind_io_def on_store_def on_world_def sent_def ret_def split: prod.splits sum.splits)
qed

lemma guard_write_steps:
  assumes "serves_table stale cls timely g tab" "guard_write g t st s = (r, s')"
  shows "gw_acquired s' = gw_acquired s \<and> gw_task s' = gw_task s \<and>
    (\<exists>\<sigma>. others stale cls timely (own g) (shows_table tab s) \<sigma> \<and>
       (shows_table tab s' = with_beat (own g) t \<sigma> \<or> r \<noteq> Inr () \<and> shows_table tab s' = \<sigma>))"
proof -
  from guard_write_run [OF assms(2)] obtain w' r0 where
    w: "beat_insert g t st (ss_world (gw_session s)) = (r0, w')"
    and f: "ss_world (gw_session s') = w'" "gw_acquired s' = gw_acquired s" "gw_task s' = gw_task s"
      "r = Inr () \<longleftrightarrow> r0 = Inr ()" .
  from serves_tableD(5) [OF assms(1)] w obtain \<sigma> where
    "others stale cls timely (own g) (tab (ss_world (gw_session s))) \<sigma>"
    "tab w' = with_beat (own g) t \<sigma> \<or> r0 \<noteq> Inr () \<and> tab w' = \<sigma>"
    unfolding writing_call_def by blast
  with f show ?thesis by (auto simp: shows_table_def)
qed

text \<open>The steps of \<open>own g\<close> between two states of the run, the phase of the guard beside them.\<close>

definition follows ::
  "int \<Rightarrow> (string \<Rightarrow> bool) \<Rightarrow> bool \<Rightarrow> 'w writer_guard \<Rightarrow> ('w \<Rightarrow> gstate) \<Rightarrow> phase \<Rightarrow> 'w guarded \<Rightarrow> phase \<Rightarrow> 'w guarded \<Rightarrow> bool" where
  "follows stale cls timely g tab ph s ph' s' \<longleftrightarrow>
     gsteps stale cls timely (showing tab (own g) ph s) (showing tab (own g) ph' s')"

lemma follows_trans:
  "follows stale cls timely g tab ph s ph' s' \<Longrightarrow> follows stale cls timely g tab ph' s' ph'' s'' \<Longrightarrow>
   follows stale cls timely g tab ph s ph'' s''"
  unfolding follows_def by (rule gsteps_trans)

lemma follows_refl [simp]: "follows stale cls timely g tab ph s ph s"
  by (auto simp: follows_def)

lemma follows_quiet: "quiet stale cls timely g tab s s' \<Longrightarrow> follows stale cls timely g tab ph s ph s'"
  by (simp add: follows_def quiet_gsteps)

lemma follows_own:
  "gstep stale cls timely (showing tab (own g) ph s) (Some (own g)) (showing tab (own g) ph' s) \<Longrightarrow>
   follows stale cls timely g tab ph s ph' s"
  by (auto simp: follows_def intro: gsteps_step)

lemma showing_simps [simp]:
  "gs_phase (showing tab p ph s) p = ph"
  "gs_now (showing tab p ph s) = gs_now (shows_table tab s)"
  "fresh stale (showing tab p ph s) q = fresh stale (shows_table tab s) q"
  "contested stale cls (showing tab p ph s) q = contested stale cls (shows_table tab s) q"
  "in_phase p ph' (showing tab p ph s) = showing tab p ph' s"
  by (simp_all add: showing_def)

lemma follows_die: "follows stale cls timely g tab ph s Over s"
  by (rule follows_own) (metis gstep.die showing_simps(5))

lemma follows_fail: "quiet stale cls timely g tab s s' \<Longrightarrow> follows stale cls timely g tab ph s Over s'"
  using follows_trans [OF follows_quiet follows_die] by blast

text \<open>A write moves the phase from \<open>ph\<close> to \<open>ph'\<close> when the step exists; one that fails may have written.\<close>

lemma follows_write:
  assumes "serves_table stale cls timely g tab" "guard_write g t st s = (r, s')"
    and step: "\<And>\<sigma>. gs_phase \<sigma> (own g) = ph \<Longrightarrow> gs_beat \<sigma> (own g) = gs_beat (shows_table tab s) (own g) \<Longrightarrow>
      gs_now (shows_table tab s) \<le> gs_now \<sigma> \<Longrightarrow> gs_now \<sigma> = gs_now (shows_table tab s') \<Longrightarrow>
      gstep stale cls timely \<sigma> (Some (own g)) (in_phase (own g) ph' (with_beat (own g) t \<sigma>))"
  shows "follows stale cls timely g tab ph s ph' s' \<or> r \<noteq> Inr () \<and> follows stale cls timely g tab ph s ph s'"
proof -
  from guard_write_steps [OF assms(1,2)] obtain \<sigma> where
    o: "others stale cls timely (own g) (shows_table tab s) \<sigma>"
    and w: "shows_table tab s' = with_beat (own g) t \<sigma> \<or> r \<noteq> Inr () \<and> shows_table tab s' = \<sigma>"
    by blast
  from o have pre: "gsteps stale cls timely (showing tab (own g) ph s) (in_phase (own g) ph \<sigma>)"
    unfolding showing_def by (rule others_gsteps)
  from w show ?thesis
  proof
    assume s': "shows_table tab s' = with_beat (own g) t \<sigma>"
    with others_frame [OF o]
    have "gstep stale cls timely (in_phase (own g) ph \<sigma>) (Some (own g))
        (in_phase (own g) ph' (with_beat (own g) t (in_phase (own g) ph \<sigma>)))"
      by (intro step) simp_all
    with pre have "gsteps stale cls timely (showing tab (own g) ph s) (showing tab (own g) ph' s')"
      by (simp add: showing_def s' in_phase_with_beat gsteps_step)
    then show ?thesis by (simp add: follows_def)
  next
    assume "r \<noteq> Inr () \<and> shows_table tab s' = \<sigma>"
    with pre show ?thesis by (auto simp: follows_def showing_def)
  qed
qed

lemma bind_io_cases:
  assumes "bind_io m f s = (r, s')"
  obtains (raised) e where "m s = (Inl e, s')" "r = Inl e"
  | (returned) x s1 where "m s = (Inr x, s1)" "f x s1 = (r, s')"
  using assms by (auto simp: bind_io_def split: prod.splits sum.splits)

lemma follows_check:
  assumes "\<not> contested stale cls (shows_table tab s) (own g)" "\<not> fresh stale (shows_table tab s) (own g)"
  shows "follows stale cls timely g tab Idle s Checked s"
  using assms gstep.check [of "showing tab (own g) Idle s" "own g" stale cls timely]
  by (intro follows_own) simp

lemma follows_confirm:
  assumes "\<not> contested stale cls (shows_table tab s) (own g)"
  shows "follows stale cls timely g tab Entered s Holding s"
  using assms gstep.confirm [of "showing tab (own g) Entered s" "own g" stale cls timely]
  by (intro follows_own) simp

lemma fresh_list:
  assumes "cls (own g) = discovery_scope g"
    "set ps = {q. cls q = discovery_scope g \<and> fresh stale \<sigma> q}"
  shows "contested stale cls \<sigma> (own g) \<longleftrightarrow> list_ex (\<lambda>q. q \<noteq> own g) ps"
    and "ps = [] \<longleftrightarrow> \<not> contested stale cls \<sigma> (own g) \<and> \<not> fresh stale \<sigma> (own g)"
proof -
  show "contested stale cls \<sigma> (own g) \<longleftrightarrow> list_ex (\<lambda>q. q \<noteq> own g) ps"
    using assms by (auto simp: contested_def list_ex_iff)
  have "ps = [] \<longleftrightarrow> (\<forall>q. \<not> (cls q = cls (own g) \<and> fresh stale \<sigma> q))"
    unfolding set_empty [symmetric] assms(2) assms(1) by (rule Collect_empty_eq)
  also have "\<dots> \<longleftrightarrow> \<not> contested stale cls \<sigma> (own g) \<and> \<not> fresh stale \<sigma> (own g)"
    unfolding contested_def by metis
  finally show "ps = [] \<longleftrightarrow> \<not> contested stale cls \<sigma> (own g) \<and> \<not> fresh stale \<sigma> (own g)" .
qed

text \<open>The second half of \<open>acquire\<close>, after the \<open>active\<close> row: confirm, or take the row back.\<close>

lemma guard_confirms:
  assumes serves: "serves_table stale cls timely g tab"
    and run: "guard_confirm g s = (r, s')"
    and acquired: "gw_acquired s"
  shows "case r of
      Inr _ \<Rightarrow> follows stale cls timely g tab Entered s Holding s' \<and> guard_healthy s'
        \<and> \<not> contested stale cls (shows_table tab s') (own g)
    | Inl e \<Rightarrow> follows stale cls timely g tab Entered s Over s'"
  using run unfolding guard_confirm_def
proof (cases rule: bind_io_cases)
  case (raised e)
  with fresh_writers_quiet [OF serves raised(1)] show ?thesis by (simp add: follows_fail)
next
  case (returned after s1)
  note q = fresh_writers_quiet [OF serves returned(1)]
  then have e1: "follows stale cls timely g tab Entered s Entered s1" by (auto intro: follows_quiet)
  from q have ps: "set after = {q. cls q = discovery_scope g \<and> fresh stale (shows_table tab s1) q}" by simp
  show ?thesis
  proof (cases "contested stale cls (shows_table tab s1) (own g)")
    case True
    with fresh_list(1) [OF serves_tableD(2) [OF serves] ps] returned(2)
    have "\<exists>e. r = Inl e \<and> (\<exists>r2 s2. guard_write g 0 ''released'' s1 = (r2, s2) \<and> s' = s2\<lparr>gw_acquired := False\<rparr>)"
      by (auto simp: own_def finally_io_def set_acquired_def bind_io_def raise_def split: prod.splits sum.splits)
    then obtain e r2 s2 where w: "r = Inl e" "guard_write g 0 ''released'' s1 = (r2, s2)"
        "s' = s2\<lparr>gw_acquired := False\<rparr>"
      by blast
    from follows_write [OF serves w(2), of Entered Over]
    have "follows stale cls timely g tab Entered s1 Over s2 \<or> follows stale cls timely g tab Entered s1 Entered s2"
      using gstep.leave [of stale cls timely _ "own g"] by blast
    then have "follows stale cls timely g tab Entered s1 Over s2"
      using follows_die follows_trans by blast
    then have "follows stale cls timely g tab Entered s1 Over s'"
      by (simp add: follows_def showing_def shows_table_def w(3))
    with follows_trans [OF e1] w(1) show ?thesis by simp
  next
    case False
    with fresh_list(1) [OF serves_tableD(2) [OF serves] ps] returned(2)
    have s': "r = Inr ()" "s' = s1\<lparr>gw_task := Some Running\<rparr>"
      by (auto simp: own_def set_task_def)
    from False have "follows stale cls timely g tab Entered s1 Holding s1" by (rule follows_confirm)
    with follows_trans [OF e1] have "follows stale cls timely g tab Entered s Holding s1" .
    moreover from q acquired have "gw_acquired s1" by (simp add: quiet_def)
    ultimately show ?thesis
      using False s' by (simp add: follows_def showing_def shows_table_def guard_healthy_def)
  qed
qed

lemma guard_acquire_follows:
  assumes serves: "serves_table stale cls timely g tab"
    and run: "guard_acquire g s = (r, s')"
  shows "case r of
      Inr _ \<Rightarrow> follows stale cls timely g tab Idle s Holding s' \<and> guard_healthy s'
        \<and> \<not> contested stale cls (shows_table tab s') (own g)
    | Inl e \<Rightarrow> follows stale cls timely g tab Idle s Over s'"
  using run unfolding guard_acquire_def
proof (cases rule: bind_io_cases)
  case (raised e)
  with fresh_writers_quiet [OF serves raised(1)] show ?thesis by (simp add: follows_fail)
next
  case (returned active s1)
  note q = fresh_writers_quiet [OF serves returned(1)]
  then have e1: "follows stale cls timely g tab Idle s Idle s1" by (auto intro: follows_quiet)
  from q have ps: "set active = {q. cls q = discovery_scope g \<and> fresh stale (shows_table tab s1) q}" by simp
  show ?thesis
  proof (cases "active = []")
    case False
    with returned(2) obtain e where "r = Inl e" "s' = s1" by (auto simp: raise_def)
    with follows_trans [OF e1 follows_die] show ?thesis by simp
  next
    case True
    with fresh_list(2) [OF serves_tableD(2) [OF serves] ps]
    have e2: "follows stale cls timely g tab Idle s Checked s1"
      using follows_trans [OF e1 follows_check] by blast
    from returned(2) True have "bind_io (guard_now g) (\<lambda>t. bind_io (guard_write g t ''active'') (\<lambda>_.
        bind_io (set_acquired True) (\<lambda>_. guard_confirm g))) s1 = (r, s')" by simp
    then show ?thesis
    proof (cases rule: bind_io_cases)
      case (raised e)
      with guard_now_quiet [OF serves raised(1)] have "follows stale cls timely g tab Checked s1 Over s'"
        by (simp add: follows_fail)
      from follows_trans [OF e2 this] raised(2) show ?thesis by simp
    next
      case (returned t s2)
      note n = guard_now_quiet [OF serves returned(1)]
      then have "follows stale cls timely g tab Checked s1 Checked s2" by (auto intro: follows_quiet)
      with follows_trans [OF e2] have e3: "follows stale cls timely g tab Idle s Checked s2" by blast
      have step: "gstep stale cls timely \<sigma> (Some (own g)) (in_phase (own g) Entered (with_beat (own g) t \<sigma>))"
        if "gs_phase \<sigma> (own g) = Checked" "gs_now (shows_table tab s2) \<le> gs_now \<sigma>" for \<sigma>
        using that n by (intro gstep.enter) auto
      from returned(2) show ?thesis
      proof (cases rule: bind_io_cases)
        case (raised e)
        from follows_write [OF serves raised(1), of Checked Entered] step
        have "follows stale cls timely g tab Checked s2 Entered s' \<or> follows stale cls timely g tab Checked s2 Checked s'"
          by blast
        then have "follows stale cls timely g tab Checked s2 Over s'"
          using follows_die follows_trans by blast
        from follows_trans [OF e3 this] raised(2) show ?thesis by simp
      next
        case (returned u s3)
        have "follows stale cls timely g tab Checked s2 Entered s3 \<or>
            Inr u \<noteq> (Inr () :: unit res) \<and> follows stale cls timely g tab Checked s2 Checked s3"
          by (rule follows_write [OF serves returned(1)]) (rule step)
        then have "follows stale cls timely g tab Checked s2 Entered s3" by simp
        with follows_trans [OF e3] have e4: "follows stale cls timely g tab Idle s Entered s3" by blast
        then have e5: "follows stale cls timely g tab Idle s Entered (s3\<lparr>gw_acquired := True\<rparr>)"
          by (simp add: follows_def showing_def shows_table_def)
        from returned(2) have "guard_confirm g (s3\<lparr>gw_acquired := True\<rparr>) = (r, s')"
          by (simp add: bind_io_def set_acquired_def)
        note c = guard_confirms [OF serves this]
        show ?thesis
        proof (cases r)
          case (Inl e)
          with c follows_trans [OF e5] show ?thesis by simp
        next
          case (Inr u)
          with c follows_trans [OF e5] show ?thesis by simp
        qed
      qed
    qed
  qed
qed

lemma quiet_trans:
  "quiet stale cls timely g tab s s' \<Longrightarrow> quiet stale cls timely g tab s' s'' \<Longrightarrow> quiet stale cls timely g tab s s''"
  by (auto simp: quiet_def intro: others_trans)

lemma quiet_frame:
  assumes "quiet stale cls timely g tab s s'"
  shows "gs_beat (shows_table tab s') (own g) = gs_beat (shows_table tab s) (own g)"
    "gs_now (shows_table tab s) \<le> gs_now (shows_table tab s')"
  using others_frame assms by (auto simp: quiet_def)

text \<open>A beat renews the heartbeat of a holder; \<open>timely\<close> runs need it to land while the last one is fresh.\<close>

lemma heartbeat_turn_follows:
  assumes serves: "serves_table stale cls timely g tab"
    and run: "heartbeat_turn g last_success s = (r, s')"
    and timely: "timely \<Longrightarrow> (\<exists>b. gs_beat (shows_table tab s) (own g) = Some b \<and> gs_now (shows_table tab s') - stale \<le> b)"
  shows "follows stale cls timely g tab Holding s Holding s'"
proof -
  define beat where "beat = bind_io (guard_now g) (\<lambda>t. bind_io (guard_write g t ''active'') (\<lambda>_. on_store (on_world (wg_monotonic g))))"
  have mono: "quiet stale cls timely g tab u u'" if "on_store (on_world (wg_monotonic g)) u = (q, u')" for q u u'
    using on_world_quiet [OF serves_tableD(7) [OF serves] that] by simp
  have beat: "follows stale cls timely g tab Holding s1 Holding u'"
    if b: "beat s1 = (q, u')" and s1: "quiet stale cls timely g tab s s1"
      and u': "gs_now (shows_table tab u') \<le> gs_now (shows_table tab s')" for s1 q u'
    using b unfolding beat_def
  proof (cases rule: bind_io_cases)
    case (raised e)
    with guard_now_quiet [OF serves raised(1)] show ?thesis by (simp add: follows_quiet)
  next
    case (returned t s2)
    note n = guard_now_quiet [OF serves returned(1)]
    from n quiet_trans [OF s1] have s2: "quiet stale cls timely g tab s s2" by blast
    have renews: "follows stale cls timely g tab Holding s2 Holding s3"
      if w: "guard_write g t ''active'' s2 = (q3, s3)"
        and s3: "gs_now (shows_table tab s3) \<le> gs_now (shows_table tab s')" for q3 s3
    proof -
      have "follows stale cls timely g tab Holding s2 Holding s3 \<or>
          q3 \<noteq> Inr () \<and> follows stale cls timely g tab Holding s2 Holding s3"
      proof (rule follows_write [OF serves w])
        fix \<sigma> :: gstate
        assume \<sigma>: "gs_phase \<sigma> (own g) = Holding" "gs_beat \<sigma> (own g) = gs_beat (shows_table tab s2) (own g)"
          "gs_now (shows_table tab s2) \<le> gs_now \<sigma>" "gs_now \<sigma> = gs_now (shows_table tab s3)"
        have "fresh stale \<sigma> (own g)" if "timely"
          using timely [OF that] \<sigma> s3 quiet_frame(1) [OF s2] by (auto simp: fresh_def)
        with \<sigma> n have "gstep stale cls timely \<sigma> (Some (own g)) (with_beat (own g) t \<sigma>)"
          by (intro gstep.renew) auto
        moreover have "in_phase (own g) Holding (with_beat (own g) t \<sigma>) = with_beat (own g) t \<sigma>"
          using \<sigma>(1) by (cases \<sigma>) (simp add: in_phase_def with_beat_def fun_upd_idem)
        ultimately show "gstep stale cls timely \<sigma> (Some (own g)) (in_phase (own g) Holding (with_beat (own g) t \<sigma>))"
          by simp
      qed
      then show ?thesis by blast
    qed
    from n have e1: "follows stale cls timely g tab Holding s1 Holding s2" by (simp add: follows_quiet)
    from returned(2) show ?thesis
    proof (cases rule: bind_io_cases)
      case (raised e)
      from follows_trans [OF e1 renews [OF raised(1) u']] show ?thesis .
    next
      case (returned v s3)
      note m = mono [OF returned(2)]
      from quiet_frame(2) [OF m] u' have "gs_now (shows_table tab s3) \<le> gs_now (shows_table tab s')" by simp
      from follows_trans [OF follows_trans [OF e1 renews [OF returned(1) this]] follows_quiet [OF m]] show ?thesis .
    qed
  qed
  from run show ?thesis unfolding heartbeat_turn_def Let_def beat_def [symmetric]
  proof (cases rule: bind_io_cases)
    case (raised e)
    with on_world_quiet [OF serves_tableD(6) [OF serves] raised(1)] show ?thesis by (simp add: follows_quiet)
  next
    case (returned v s1)
    from on_world_quiet [OF serves_tableD(6) [OF serves] returned(1)] have s1: "quiet stale cls timely g tab s s1"
      by simp
    obtain q u' where b: "beat s1 = (q, u')" by (cases "beat s1")
    show ?thesis
    proof (cases q)
      case (Inr x)
      with returned(2) b have "s' = u'" by (simp add: catch_io_def)
      with follows_trans [OF follows_quiet [OF s1] beat [OF b s1]] show ?thesis by simp
    next
      case (Inl e)
      with returned(2) b have "bind_io (on_store (on_world (wg_monotonic g))) (\<lambda>t.
          if t - last_success \<ge> of_int (wg_stale_seconds g) then raise e else ret last_success) u' = (r, s')"
        by (simp add: catch_io_def)
      then have "\<exists>q. on_store (on_world (wg_monotonic g)) u' = (q, s')"
        by (cases rule: bind_io_cases) (auto simp: raise_def ret_def split: if_splits)
      then have m: "quiet stale cls timely g tab u' s'" using mono by blast
      from follows_trans [OF follows_trans [OF follows_quiet [OF s1] beat [OF b s1 quiet_frame(2) [OF m]]] follows_quiet [OF m]]
      show ?thesis .
    qed
  qed
qed

text \<open>A release that reports success has left the lock: its row carries the epoch.\<close>

lemma release_attempts_follows:
  assumes serves: "serves_table stale cls timely g tab"
    and run: "release_attempts g attempts e0 s = (r, s')"
  shows "(\<exists>ph'\<in>{ph, Over}. follows stale cls timely g tab ph s ph' s') \<and>
    (r = Inr None \<longrightarrow> attempts = [] \<and> e0 = None \<or>
       follows stale cls timely g tab ph s Over s' \<and> gs_beat (shows_table tab s') (own g) = Some 0)"
  using run
proof (induction attempts arbitrary: e0 s ph)
  case Nil
  then show ?case by (auto simp: ret_def)
next
  case (Cons a attempts)
  obtain q s1 where w: "guard_write g 0 ''released'' s = (q, s1)" by (cases "guard_write g 0 ''released'' s")
  have leaves: "follows stale cls timely g tab ph s Over s1 \<or> q \<noteq> Inr () \<and> follows stale cls timely g tab ph s ph s1"
    by (rule follows_write [OF serves w]) (rule gstep.leave)
  show ?case
  proof (cases q)
    case (Inr u)
    then have q: "q = Inr ()" by simp
    with Cons.prems w have "s' = s1" by simp
    with guard_write_steps [OF serves w] q leaves show ?thesis by auto
  next
    case (Inl e)
    with Cons.prems w have "bind_io (on_store (on_world (wg_sleep g (min (2 * (of_nat a + 1)) 6)))) (\<lambda>_.
           release_attempts g attempts (Some e)) s1 = (r, s')" by simp
    from leaves obtain p1 where p1: "p1 \<in> {ph, Over}" "follows stale cls timely g tab ph s p1 s1" by blast
    from \<open>bind_io _ _ s1 = (r, s')\<close> show ?thesis
    proof (cases rule: bind_io_cases)
      case (raised e2)
      with on_world_quiet [OF serves_tableD(6) [OF serves] raised(1)] follows_trans [OF p1(2) follows_quiet] p1(1)
      show ?thesis by blast
    next
      case (returned v s2)
      from on_world_quiet [OF serves_tableD(6) [OF serves] returned(1)] follows_trans [OF p1(2) follows_quiet]
      have s2: "follows stale cls timely g tab ph s p1 s2" by blast
      from Cons.IH [OF returned(2), of p1] p1(1) follows_trans [OF s2] show ?thesis by blast
    qed
  qed
qed

lemma release_attempts_task:
  "release_attempts g attempts e0 s = (r, s') \<Longrightarrow> gw_task s' = gw_task s"
proof (induction attempts arbitrary: e0 s)
  case (Cons a attempts)
  obtain q s1 where w: "guard_write g 0 ''released'' s = (q, s1)" by (cases "guard_write g 0 ''released'' s")
  from guard_write_run [OF w] have s1: "gw_task s1 = gw_task s" by metis
  show ?case
  proof (cases q)
    case (Inr u)
    with Cons.prems w s1 show ?thesis by simp
  next
    case (Inl e)
    with Cons.prems w have "bind_io (on_store (on_world (wg_sleep g (min (2 * (of_nat a + 1)) 6)))) (\<lambda>_.
           release_attempts g attempts (Some e)) s1 = (r, s')" by simp
    then show ?thesis
      by (cases rule: bind_io_cases) (auto simp: on_store_run s1 dest: Cons.IH)
  qed
qed (simp add: ret_def)

lemma guard_release_follows:
  assumes serves: "serves_table stale cls timely g tab"
    and run: "guard_release g s = (r, s')"
  shows "(\<exists>ph'\<in>{ph, Over}. follows stale cls timely g tab ph s ph' s') \<and>
    (r = Inr () \<longrightarrow> \<not> gw_acquired s' \<and> gw_task s' = None \<and> (gw_acquired s \<longrightarrow>
       follows stale cls timely g tab ph s Over s' \<and> gs_beat (shows_table tab s') (own g) = Some 0))"
proof (cases "gw_acquired s")
  case False
  with run show ?thesis
    by (auto simp: guard_release_def set_task_def bind_io_def ret_def raise_def Let_def
        follows_def showing_def shows_table_def split: option.splits task.splits if_splits)
next
  case True
  define s1 where "s1 = s\<lparr>gw_task := None\<rparr>"
  obtain q s2 where q: "release_attempts g [0, 1, 2, 3, 4] None s1 = (q, s2)"
    by (cases "release_attempts g [0, 1, 2, 3, 4] None s1")
  have s1: "shows_table tab s1 = shows_table tab s" by (simp add: s1_def shows_table_def)
  note f = release_attempts_follows [OF serves q, of ph]
  then have f1: "\<exists>ph'\<in>{ph, Over}. follows stale cls timely g tab ph s ph' s2"
    and f2: "q = Inr None \<Longrightarrow> follows stale cls timely g tab ph s Over s2 \<and> gs_beat (shows_table tab s2) (own g) = Some 0"
    by (auto simp: follows_def showing_def s1)
  have shape: "shows_table tab s' = shows_table tab s2 \<and> (r = Inr () \<longrightarrow> q = Inr None \<and> s' = s2\<lparr>gw_acquired := False\<rparr>)"
    using run q True
    by (auto simp: guard_release_def set_task_def set_acquired_def bind_io_def ret_def raise_def Let_def
        shows_table_def s1_def split: option.splits task.splits if_splits sum.splits prod.splits)
  from release_attempts_task [OF q] have "gw_task s2 = None" by (simp add: s1_def)
  with f1 f2 shape show ?thesis by (auto simp: follows_def showing_def)
qed

subsection \<open>The lock\<close>


text \<open>
  C10: the operations of \<open>WriterGuard\<close> follow the protocol against a table the other writers change
  between and during its calls. An \<open>acquire\<close> that returns is a check, an entry and a confirmation
  with no competitor; one that raises ends outside the lock. A turn of the heartbeat loop is at most a
  renewal. A \<open>release\<close> that does not raise has left, with the row of the process set to the epoch.
\<close>

theorem guard_follows_protocol:
  assumes "serves_table stale cls timely g tab"
  shows "(guard_acquire g s = (r, s') \<longrightarrow> (case r of
            Inr _ \<Rightarrow> follows stale cls timely g tab Idle s Holding s' \<and> guard_healthy s'
              \<and> \<not> contested stale cls (shows_table tab s') (own g)
          | Inl _ \<Rightarrow> follows stale cls timely g tab Idle s Over s'))
    \<and> (heartbeat_turn g last_success s = (t, s')
        \<and> (timely \<longrightarrow> (\<exists>b. gs_beat (shows_table tab s) (own g) = Some b \<and> gs_now (shows_table tab s') - stale \<le> b))
        \<longrightarrow> follows stale cls timely g tab Holding s Holding s')
    \<and> (guard_release g s = (r, s') \<longrightarrow>
        (\<exists>ph'\<in>{ph, Over}. follows stale cls timely g tab ph s ph' s')
        \<and> (r = Inr () \<longrightarrow> \<not> gw_acquired s' \<and> gw_task s' = None \<and> (gw_acquired s \<longrightarrow>
             follows stale cls timely g tab ph s Over s' \<and> gs_beat (shows_table tab s') (own g) = Some 0)))"
  using guard_acquire_follows [OF assms, of s r s'] heartbeat_turn_follows [OF assms, of last_success s t s']
    guard_release_follows [OF assms, of s r s' ph]
  by auto

text \<open>A stale lock can be taken: when the other writers stay away for the window, an idle writer gets in.\<close>

lemma stale_lock_taken:
  assumes "gs_phase \<sigma> p = Idle" "0 \<le> stale" "\<And>q b. gs_beat \<sigma> q = Some b \<Longrightarrow> b \<le> gs_now \<sigma>"
  obtains \<tau> where "gsteps stale cls timely \<sigma> \<tau>" "gs_now \<tau> = gs_now \<sigma> + (stale + 1)"
    "gs_beat \<tau> = (gs_beat \<sigma>)(p \<mapsto> gs_now \<sigma> + (stale + 1))" "gs_phase \<tau> = (gs_phase \<sigma>)(p := Holding)"
proof -
  define \<sigma>1 where "\<sigma>1 = \<sigma>\<lparr>gs_now := gs_now \<sigma> + (stale + 1)\<rparr>"
  have free: "\<not> fresh stale \<sigma>1 q" for q
    using assms(3) [of q] by (force simp: fresh_def \<sigma>1_def split: option.splits)
  define \<sigma>2 where "\<sigma>2 = in_phase p Entered (with_beat p (gs_now \<sigma>1) (in_phase p Checked \<sigma>1))"
  have "gstep stale cls timely \<sigma> None \<sigma>1"
    unfolding \<sigma>1_def using assms(2) by (intro gstep.tick) simp
  moreover have "gstep stale cls timely \<sigma>1 (Some p) (in_phase p Checked \<sigma>1)"
    using free assms(1) by (intro gstep.check) (auto simp: contested_def \<sigma>1_def)
  moreover have "gstep stale cls timely (in_phase p Checked \<sigma>1) (Some p) \<sigma>2"
    unfolding \<sigma>2_def by (intro gstep.enter) simp_all
  moreover have "gstep stale cls timely \<sigma>2 (Some p) (in_phase p Holding \<sigma>2)"
    using free by (intro gstep.confirm) (auto simp: \<sigma>2_def contested_def)
  ultimately have "gsteps stale cls timely \<sigma> (in_phase p Holding \<sigma>2)"
    by (meson gsteps_refl gsteps_step)
  then show thesis by (intro that [of "in_phase p Holding \<sigma>2"]) (simp_all add: \<sigma>2_def \<sigma>1_def)
qed

text \<open>
  Without timely beats the lock breaks. The heartbeat loop compares the time since its last success only
  when a write fails; after a pause longer than the window the write succeeds, and revives a lock that
  another writer has meanwhile taken.
\<close>

lemma late_beat_breaks_lock:
  assumes "0 \<le> stale" "p \<noteq> q" "cls p = cls q"
  shows "\<exists>\<sigma> \<tau>. (\<forall>x. gs_phase \<sigma> x = Idle) \<and> gsteps stale cls False \<sigma> \<tau> \<and> \<not> exclusive stale cls \<tau>"
proof -
  define \<sigma> where "\<sigma> = \<lparr>gs_now = 0, gs_beat = (\<lambda>_. None), gs_phase = (\<lambda>_. Idle)\<rparr>"
  obtain \<tau>1 where t1: "gsteps stale cls False \<sigma> \<tau>1" "gs_now \<tau>1 = stale + 1"
      "gs_beat \<tau>1 = [p \<mapsto> stale + 1]" "gs_phase \<tau>1 = (\<lambda>_. Idle)(p := Holding)"
    by (rule stale_lock_taken [of \<sigma> p stale cls False]) (simp_all add: \<sigma>_def assms(1))
  have "b \<le> gs_now \<tau>1" if "gs_beat \<tau>1 x = Some b" for x b
    using that by (auto simp: t1 split: if_splits)
  then obtain \<tau>2 where t2: "gsteps stale cls False \<tau>1 \<tau>2"
      "gs_now \<tau>2 = 2 * (stale + 1)" "gs_beat \<tau>2 = [p \<mapsto> stale + 1, q \<mapsto> 2 * (stale + 1)]"
      "gs_phase \<tau>2 = (\<lambda>_. Idle)(p := Holding, q := Holding)"
    using stale_lock_taken [of \<tau>1 q stale cls False] assms(1,2)
    by (metis t1(2-4) fun_upd_apply mult_2)
  have "gstep stale cls False \<tau>2 (Some p) (with_beat p (gs_now \<tau>2) \<tau>2)"
    using t2 assms(2) by (intro gstep.renew) simp_all
  with gsteps_trans [OF t2(1) t1(1)] have "gsteps stale cls False \<sigma> (with_beat p (gs_now \<tau>2) \<tau>2)"
    by (rule gsteps_step)
  moreover have "\<not> exclusive stale cls (with_beat p (gs_now \<tau>2) \<tau>2)"
    using t2 assms by (auto simp: exclusive_def fresh_def with_beat_def)
  moreover have "\<forall>x. gs_phase \<sigma> x = Idle" by (simp add: \<sigma>_def)
  ultimately show ?thesis by blast
qed

text \<open>
  A concrete table: one rival that crashed at the epoch, the row of the guard, and a clock that moves
  when the guard sleeps.
\<close>

type_synonym lock_world = "int option \<times> nat"

definition lock_table :: "lock_world \<Rightarrow> gstate" where
  "lock_table w = \<lparr>gs_now = int (snd w),
     gs_beat = (\<lambda>q. if q = uuid_str 7 then fst w else if q = ''rival'' then Some 0 else None),
     gs_phase = (\<lambda>_. Idle)\<rparr>"

definition lock_client :: "lock_world client" where
  "lock_client = \<lparr>
     db_insert = (\<lambda>table columns rows token w. (Inr (),
        (case last (hd rows) of CTime t \<Rightarrow> (Some t, snd w) | _ \<Rightarrow> w))),
     db_query = (\<lambda>text parameters consistent w. (Inr (map (\<lambda>q. [(''process_id'', CText q)])
        (filter (fresh 45 (lock_table w)) [uuid_str 7, ''rival''])), w)),
     db_now = (\<lambda>w. (Inr (int (snd w)), w)), db_uuid4 = ret 7\<rparr>"

definition lock_guard :: "lock_world writer_guard" where
  "lock_guard = \<lparr>wg_store = lock_client, wg_chain_id = 100, wg_operation = ''run'', wg_stale_seconds = 45,
     wg_process_id = 7, wg_started_at = 0, wg_hostname = ''host'',
     wg_sleep = (\<lambda>d w. (Inr (), (fst w, snd w + 10))), wg_monotonic = (\<lambda>w. (Inr (of_nat (snd w)), w))\<rparr>"

definition lock_start :: "lock_world guarded" where
  "lock_start = \<lparr>gw_session = \<lparr>ss_world = (None, 100), ss_journal = []\<rparr>, gw_acquired = False, gw_task = None\<rparr>"

lemma uuid_7: "uuid_str 7 = ''00000000-0000-0000-0000-000000000007''"
  by code_simp

lemma lock_serves: "serves_table 45 (\<lambda>_. False) timely lock_guard lock_table"
proof -
  have own: "own lock_guard = uuid_str 7" by (simp add: own_def lock_guard_def)
  have tick: "others 45 (\<lambda>_. False) timely p (lock_table w) (lock_table (fst w, snd w + 10))" for p w
  proof -
    have "lock_table (fst w, snd w + 10) = (lock_table w)\<lparr>gs_now := gs_now (lock_table w) + 10\<rparr>"
      by (simp add: lock_table_def cong: if_cong)
    then show ?thesis
      using others_step [OF others_refl gstep.tick [of 10 45 "\<lambda>_. False" timely "lock_table w"]] by simp
  qed
  have beat: "\<exists>\<sigma>. others 45 (\<lambda>_. False) timely p (lock_table w) \<sigma>
      \<and> lock_table (Some t, snd w) = with_beat (uuid_str 7) t \<sigma>" for p w t
    by (intro exI [of _ "lock_table w"]) (auto simp: lock_table_def with_beat_def fun_eq_iff)
  have rows: "map_res (\<lambda>row. col_str row ''process_id'') (map (\<lambda>q. [(''process_id'', CText q)]) qs) = Inr qs" for qs
    by (induction qs) (auto simp: col_str_def lookup_key_def cell_str_def bind_res_def)
  have known: "fresh 45 (lock_table w) q \<Longrightarrow> q = uuid_str 7 \<or> q = ''rival''" for w q
    by (auto simp: fresh_def lock_table_def split: if_splits)
  show ?thesis
    unfolding serves_table_def Let_def own quiet_call_def writing_call_def fresh_query_def beat_insert_def
    apply (intro conjI)
    subgoal by (simp add: lock_guard_def)
    subgoal by (simp add: lock_guard_def discovery_scope_def DISCOVERY_SCOPE_OPERATIONS_def)
    subgoal using known by (auto simp: lock_guard_def lock_client_def rows discovery_scope_def DISCOVERY_SCOPE_OPERATIONS_def)
    subgoal by (auto simp: lock_guard_def lock_client_def lock_table_def)
    subgoal using beat by (auto simp: lock_guard_def lock_client_def beat_row_def)
    subgoal using tick by (auto simp: lock_guard_def)
    subgoal by (auto simp: lock_guard_def)
    done
qed

lemma lock_acquired: "\<exists>s'. guard_acquire lock_guard lock_start = (Inr (), s')"
proof -
  have "fst (guard_acquire lock_guard lock_start) = Inr ()"
    by code_simp
  then show ?thesis by (metis prod.collapse)
qed


theorem guard_follows_protocol_witness:
  "\<exists>s'. guard_acquire lock_guard lock_start = (Inr (), s')
     \<and> follows 45 (\<lambda>_. False) True lock_guard lock_table Idle lock_start Holding s'"
proof -
  obtain s' where s': "guard_acquire lock_guard lock_start = (Inr (), s')" using lock_acquired by blast
  with guard_follows_protocol [OF lock_serves, of lock_start "Inr ()" s'] show ?thesis by auto
qed

end
