(* ===== verification/Metadata.thy ===== *)
theory Metadata
  imports Migrations Census
begin

text \<open>
  Token display metadata (\<open>evm/metadata_decoding.py\<close>, \<open>collectors/metadata.py\<close>): the strict decoding of
  \<open>symbol()\<close>, \<open>name()\<close> and \<open>decimals()\<close>, and the collector that reads them through a verified executor.
  Text is kept as its UTF-8 bytes read as characters, as in the migrations: the control characters are
  single bytes, and the number of characters is the number of bytes that do not continue one.
\<close>

subsection \<open>Decoding\<close>

definition MAX_TEXT_LENGTH :: nat where
  "MAX_TEXT_LENGTH = 128"

record text_observation =
  tx_value :: "string option"
  tx_encoding :: string
  tx_detail :: string

definition tx_resolved :: "text_observation \<Rightarrow> bool" where
  "tx_resolved t \<longleftrightarrow> tx_value t \<noteq> None"

definition absent :: "string \<Rightarrow> text_observation" where
  "absent detail = \<lparr>tx_value = None, tx_encoding = ''absent'', tx_detail = detail\<rparr>"

definition control_byte :: "byte \<Rightarrow> bool" where
  "control_byte b \<longleftrightarrow> unat b < 0x20 \<or> unat b = 0x7F"

definition text_length :: "string \<Rightarrow> nat" where
  "text_length s = length (filter (\<lambda>c. \<not> (0x80 \<le> char_nat c \<and> char_nat c \<le> 0xBF)) s)"

definition clean_text :: "bytes \<Rightarrow> string option" where
  "clean_text raw =
     (if \<not> valid_utf8 raw then None
      else if list_ex control_byte raw then None
      else let text = str_strip (bytes_text raw) in
      if text = [] \<or> text_length text > MAX_TEXT_LENGTH then None
      else Some text)"

definition decode_dynamic_string :: "bytes \<Rightarrow> string option" where
  "decode_dynamic_string raw =
     (if length raw < 64 then None
      else let offset = from_bytes (take 32 raw) in
      if offset mod 32 \<noteq> 0 \<or> \<not> (0 < offset \<and> offset \<le> int (length raw) - 32) then None
      else let text_len = from_bytes (slice raw (nat offset) (nat offset + 32)) in
      if text_len > int MAX_TEXT_LENGTH then None
      else let body_start = nat offset + 32 in
      if int body_start + text_len > int (length raw) then None
      else clean_text (slice raw body_start (body_start + nat text_len)))"

definition decode_bytes32_text :: "bytes \<Rightarrow> string option" where
  "decode_bytes32_text raw =
     (if length raw \<noteq> 32 then None
      else let trimmed = rev (dropWhile (\<lambda>b. b = 0) (rev raw)) in
      if trimmed = [] then None
      else clean_text trimmed)"

definition decode_text_return :: "bool \<Rightarrow> returndata \<Rightarrow> text_observation" where
  "decode_text_return success returndata =
     (case returndata_bytes returndata of
        Inl e \<Rightarrow> absent (''malformed return: '' @ exn_str e)
      | Inr raw \<Rightarrow>
          if \<not> success then absent ''call reverted''
          else if raw = [] then absent ''empty return''
          else if length raw = 32
          then (case decode_bytes32_text raw of
                  Some legacy \<Rightarrow> \<lparr>tx_value = Some legacy, tx_encoding = ''bytes32'', tx_detail = []\<rparr>
                | None \<Rightarrow> absent ''single word is neither text nor a string head'')
          else (case decode_dynamic_string raw of
                  Some dynamic \<Rightarrow> \<lparr>tx_value = Some dynamic, tx_encoding = ''string'', tx_detail = []\<rparr>
                | None \<Rightarrow> absent ''return matches no known string encoding''))"

definition decode_decimals_return :: "bool \<Rightarrow> returndata \<Rightarrow> int option" where
  "decode_decimals_return success returndata =
     (case returndata_bytes returndata of
        Inl e \<Rightarrow> None
      | Inr raw \<Rightarrow>
          if \<not> success \<or> length raw \<noteq> 32 then None
          else let v = from_bytes raw in if v > 77 then None else Some v)"

subsection \<open>The collector\<close>

definition SYMBOL_SELECTOR :: "(bytes \<Rightarrow> bytes) \<Rightarrow> bytes" where
  "SYMBOL_SELECTOR keccak = function_selector keccak ''symbol()''"

definition NAME_SELECTOR :: "(bytes \<Rightarrow> bytes) \<Rightarrow> bytes" where
  "NAME_SELECTOR keccak = function_selector keccak ''name()''"

definition DECIMALS_SELECTOR :: "(bytes \<Rightarrow> bytes) \<Rightarrow> bytes" where
  "DECIMALS_SELECTOR keccak = function_selector keccak ''decimals()''"

definition STATUS_RESOLVED :: string where "STATUS_RESOLVED = ''resolved''"
definition STATUS_PARTIAL :: string where "STATUS_PARTIAL = ''partial''"
definition STATUS_FAILED :: string where "STATUS_FAILED = ''failed''"

record token_metadata =
  tm_chain_id :: int
  tm_token_address :: string
  tm_symbol :: "string option"
  tm_name :: "string option"
  tm_decimals :: "int option"
  tm_resolution_status :: string
  tm_symbol_encoding :: string
  tm_name_encoding :: string
  tm_anchor_block :: int
  tm_anchor_hash :: string
  tm_error_class :: string
  tm_error_message :: string

definition opt_text :: "string option \<Rightarrow> cell" where
  "opt_text x = (case x of None \<Rightarrow> CNull | Some s \<Rightarrow> CText s)"

definition metadata_row :: "token_metadata \<Rightarrow> int \<Rightarrow> row" where
  "metadata_row m observed_at =
     [(''chain_id'', CInt (tm_chain_id m)), (''token_address'', CText (tm_token_address m)),
      (''symbol'', opt_text (tm_symbol m)), (''name'', opt_text (tm_name m)),
      (''decimals'', opt_int (tm_decimals m)), (''resolution_status'', CText (tm_resolution_status m)),
      (''symbol_encoding'', CText (tm_symbol_encoding m)), (''name_encoding'', CText (tm_name_encoding m)),
      (''anchor_block'', CInt (tm_anchor_block m)), (''anchor_hash'', CText (tm_anchor_hash m)),
      (''error_class'', CText (tm_error_class m)), (''error_message'', CText (tm_error_message m)),
      (''observed_at'', CTime observed_at)]"

definition metadata_status :: "string option \<Rightarrow> string option \<Rightarrow> int option \<Rightarrow> string" where
  "metadata_status symbol name decimals =
     (let observed = (if symbol = None then 0 else 1) + (if name = None then 0 else 1)
                   + (if decimals = None then 0 else (1 :: nat)) in
      if observed = 3 then STATUS_RESOLVED
      else if observed \<noteq> 0 then STATUS_PARTIAL else STATUS_FAILED)"

definition metadata_calls :: "(bytes \<Rightarrow> bytes) \<Rightarrow> string list \<Rightarrow> contract_call list" where
  "metadata_calls keccak addresses = concat (map (\<lambda>address.
     [\<lparr>cc_key = address @ '':symbol'', cc_target = address, cc_calldata = SYMBOL_SELECTOR keccak, cc_allow_failure = True\<rparr>,
      \<lparr>cc_key = address @ '':name'', cc_target = address, cc_calldata = NAME_SELECTOR keccak, cc_allow_failure = True\<rparr>,
      \<lparr>cc_key = address @ '':decimals'', cc_target = address, cc_calldata = DECIMALS_SELECTOR keccak, cc_allow_failure = True\<rparr>])
     addresses)"

text \<open>The dictionary the results are collected in: a later result of a key replaces an earlier one.\<close>

definition results_by_key :: "verified_batch_result list \<Rightarrow> string \<Rightarrow> raw_call_result option" where
  "results_by_key batches = map_of (rev (map (\<lambda>r. (rr_key r, r)) (results_of batches)))"

definition decoded_metadata ::
  "int \<Rightarrow> block_ref \<Rightarrow> string \<Rightarrow> raw_call_result \<Rightarrow> raw_call_result \<Rightarrow> raw_call_result \<Rightarrow> token_metadata" where
  "decoded_metadata chain_id anchor address symbol_result name_result decimals_result =
     (let symbol = decode_text_return (rr_success symbol_result) (RetBytes (rr_returndata symbol_result));
          name = decode_text_return (rr_success name_result) (RetBytes (rr_returndata name_result));
          decimals = decode_decimals_return (rr_success decimals_result) (RetBytes (rr_returndata decimals_result));
          status = metadata_status (tx_value symbol) (tx_value name) decimals;
          detail = (if status \<noteq> STATUS_RESOLVED
                    then join ''; '' (filter (\<lambda>part. part \<noteq> [])
                      [if \<not> tx_resolved symbol then ''symbol: '' @ tx_detail symbol else [],
                       if \<not> tx_resolved name then ''name: '' @ tx_detail name else [],
                       if decimals = None then ''decimals: not a canonical uint8 word'' else []])
                    else []) in
      \<lparr>tm_chain_id = chain_id, tm_token_address = address, tm_symbol = tx_value symbol, tm_name = tx_value name,
       tm_decimals = decimals, tm_resolution_status = status, tm_symbol_encoding = tx_encoding symbol,
       tm_name_encoding = tx_encoding name, tm_anchor_block = number anchor, tm_anchor_hash = block_hash anchor,
       tm_error_class = (if status = STATUS_RESOLVED then [] else ''UnresolvedMetadata''),
       tm_error_message = take 4096 detail\<rparr>)"

definition missing_metadata :: "int \<Rightarrow> block_ref \<Rightarrow> string \<Rightarrow> token_metadata" where
  "missing_metadata chain_id anchor address =
     \<lparr>tm_chain_id = chain_id, tm_token_address = address, tm_symbol = None, tm_name = None,
      tm_decimals = None, tm_resolution_status = STATUS_FAILED, tm_symbol_encoding = ''absent'',
      tm_name_encoding = ''absent'', tm_anchor_block = number anchor, tm_anchor_hash = block_hash anchor,
      tm_error_class = ''MissingCallResult'',
      tm_error_message = ''executor returned no result for one or more calls''\<rparr>"

definition token_metadata_of ::
  "int \<Rightarrow> block_ref \<Rightarrow> (string \<Rightarrow> raw_call_result option) \<Rightarrow> string \<Rightarrow> token_metadata" where
  "token_metadata_of chain_id anchor results address =
     (case (results (address @ '':symbol''), results (address @ '':name''), results (address @ '':decimals'')) of
        (Some symbol, Some name, Some decimals) \<Rightarrow> decoded_metadata chain_id anchor address symbol name decimals
      | _ \<Rightarrow> missing_metadata chain_id anchor address)"

definition metadata_resolve ::
  "(bytes \<Rightarrow> bytes) \<Rightarrow> 's executor_fun \<Rightarrow> int \<Rightarrow> string list \<Rightarrow> block_ref \<Rightarrow> ('s, token_metadata list) io" where
  "metadata_resolve keccak execute chain_id addresses anchor =
     (if addresses = [] then ret []
      else let ordered = sort (remdups addresses) in
      bind_io (execute (metadata_calls keccak ordered) anchor) (\<lambda>batches.
        ret (map (token_metadata_of chain_id anchor (results_by_key batches)) ordered)))"

subsection \<open>Labels survive encoding\<close>

text \<open>What a contract returns for a label: an ABI string, or one zero-padded word.\<close>

definition abi_string :: "bytes \<Rightarrow> bytes" where
  "abi_string bs = abi_word 32 @ abi_word (length bs) @ bs @ replicate ((32 - length bs mod 32) mod 32) 0"

definition abi_bytes32 :: "bytes \<Rightarrow> bytes" where
  "abi_bytes32 bs = bs @ replicate (32 - length bs) 0"

text \<open>A displayable label: UTF-8 text without control characters or surrounding space, and not too long.\<close>

definition is_label :: "bytes \<Rightarrow> bool" where
  "is_label bs \<longleftrightarrow> bs \<noteq> [] \<and> valid_utf8 bs \<and> list_all (\<lambda>b. \<not> control_byte b) bs
     \<and> str_strip (bytes_text bs) = bytes_text bs \<and> length bs \<le> MAX_TEXT_LENGTH"

lemma text_length_le: "text_length s \<le> length s"
  by (simp add: text_length_def)

lemma clean_label: "is_label bs \<Longrightarrow> clean_text bs = Some (bytes_text bs)"
  using text_length_le [of "bytes_text bs"]
  by (auto simp: is_label_def clean_text_def Let_def list_ex_iff list_all_iff bytes_text_def)

lemma clean_text_Some:
  assumes "clean_text raw = Some t"
  shows "t \<noteq> [] \<and> text_length t \<le> MAX_TEXT_LENGTH \<and> valid_utf8 raw \<and> list_all (\<lambda>b. \<not> control_byte b) raw
    \<and> t = str_strip (bytes_text raw)"
  using assms by (auto simp: clean_text_def Let_def list_ex_iff list_all_iff split: if_splits)

lemma decode_dynamic_label:
  assumes "is_label bs"
  shows "decode_dynamic_string (abi_string bs) = Some (bytes_text bs)"
proof -
  have len: "length bs \<le> 128" using assms by (simp add: is_label_def MAX_TEXT_LENGTH_def)
  let ?pad = "replicate ((32 - length bs mod 32) mod 32) (0 :: byte)"
  have head: "take 32 (abi_string bs) = abi_word 32" by (simp add: abi_string_def)
  have len_word: "slice (abi_string bs) 32 64 = abi_word (length bs)"
    using slice_skip [of "abi_word 32" "abi_word (length bs) @ bs @ ?pad" 0 32]
    by (simp add: abi_string_def slice_head)
  have body: "slice (abi_string bs) 64 (64 + length bs) = bs"
    using slice_skip [of "abi_word 32 @ abi_word (length bs)" "bs @ ?pad" 0 "length bs"]
    by (simp add: abi_string_def slice_head)
  have offset: "from_bytes (abi_word 32) = 32" using from_abi_word [of 32] by simp
  have bound: "length bs < 2 ^ 256" using len by (rule le_less_trans) simp
  have total: "length (abi_string bs) = 64 + length bs + length ?pad" by (simp add: abi_string_def)
  show ?thesis
    using clean_label [OF assms] len
    unfolding decode_dynamic_string_def Let_def head offset
    by (simp add: len_word from_abi_word [OF bound] body total MAX_TEXT_LENGTH_def)
qed

lemma decode_bytes32_label:
  assumes "is_label bs" "length bs \<le> 32"
  shows "decode_bytes32_text (abi_bytes32 bs) = Some (bytes_text bs)"
proof -
  obtain as b where bs: "bs = as @ [b]" using assms(1) by (cases bs rule: rev_cases) (auto simp: is_label_def)
  then have "b \<noteq> 0" using assms(1) by (auto simp: is_label_def control_byte_def)
  then have "dropWhile (\<lambda>b. b = 0) (replicate n 0 @ rev bs) = rev bs" for n
    by (induction n) (simp_all add: bs)
  then show ?thesis
    using assms clean_label [OF assms(1)]
    by (simp add: decode_bytes32_text_def abi_bytes32_def is_label_def)
qed

lemma abi_string_long: "bs \<noteq> [] \<Longrightarrow> length (abi_string bs) > 64"
  by (simp add: abi_string_def)

lemma decode_decimals_iff:
  "decode_decimals_return success (RetBytes raw) = Some v \<longleftrightarrow> success \<and> 0 \<le> v \<and> v \<le> 77 \<and> raw = to_bytes 32 v"
proof -
  have "raw = to_bytes 32 v" if "length raw = 32" "from_bytes raw = v"
    using that to_from_bytes [of raw 32] by simp
  then show ?thesis
    by (auto simp: decode_decimals_return_def returndata_bytes_def Let_def from_to_bytes)
qed

lemma strip_front_set: "set (strip_front units s) \<subseteq> set s"
proof (induction units s rule: strip_front.induct)
  case (2 units c cs)
  then show ?case
    by (auto split: option.splits dest: in_set_dropD)
qed simp

lemma str_strip_set: "set (str_strip s) \<subseteq> set s"
  unfolding str_strip_def using strip_front_set subset_trans by (metis set_rev)

lemma label_no_control:
  assumes "clean_text raw = Some t" "c \<in> set t"
  shows "32 \<le> char_nat c \<and> char_nat c \<noteq> 127"
proof -
  from clean_text_Some [OF assms(1)] str_strip_set [of "bytes_text raw"] assms(2)
  obtain b where "b \<in> set raw" "c = char_of (unat b)" "\<not> control_byte b"
    by (fastforce simp: bytes_text_def list_all_iff)
  moreover have "unat b < 256" using unsigned_less [of b] by simp
  ultimately show ?thesis by (simp add: control_byte_def char_nat_def)
qed

text \<open>
  C26: the metadata decoders read labels and nothing else. A label encoded as an ABI \<open>string\<close>, or
  padded into one word when it fits, decodes to itself with that encoding named. Whatever the
  returned bytes, a decoded text came from a successful call, is not empty, has no control character
  and at most 128 characters; without one the encoding is \<open>absent\<close> and a reason is given. \<open>decimals\<close>
  are decoded exactly from the canonical word of a number up to 77.
\<close>

theorem metadata_text_roundtrip:
  "(is_label bs \<longrightarrow> decode_text_return True (RetBytes (abi_string bs))
       = \<lparr>tx_value = Some (bytes_text bs), tx_encoding = ''string'', tx_detail = []\<rparr>)
   \<and> (is_label bs \<and> length bs \<le> 32 \<longrightarrow> decode_text_return True (RetBytes (abi_bytes32 bs))
       = \<lparr>tx_value = Some (bytes_text bs), tx_encoding = ''bytes32'', tx_detail = []\<rparr>)
   \<and> (case tx_value (decode_text_return success r) of
        Some t \<Rightarrow> success \<and> t \<noteq> [] \<and> text_length t \<le> 128 \<and> (\<forall>c \<in> set t. 32 \<le> char_nat c \<and> char_nat c \<noteq> 127)
          \<and> tx_encoding (decode_text_return success r) \<in> {''string'', ''bytes32''}
      | None \<Rightarrow> tx_encoding (decode_text_return success r) = ''absent'' \<and> tx_detail (decode_text_return success r) \<noteq> [])
   \<and> (decode_decimals_return ok (RetBytes raw) = Some v \<longleftrightarrow> ok \<and> 0 \<le> v \<and> v \<le> 77 \<and> raw = to_bytes 32 v)"
proof (intro conjI impI)
  assume bs: "is_label bs"
  then have "length (abi_string bs) > 64" by (intro abi_string_long) (simp add: is_label_def)
  then show "decode_text_return True (RetBytes (abi_string bs))
       = \<lparr>tx_value = Some (bytes_text bs), tx_encoding = ''string'', tx_detail = []\<rparr>"
    using decode_dynamic_label [OF bs] by (auto simp: decode_text_return_def returndata_bytes_def)
next
  assume bs: "is_label bs \<and> length bs \<le> 32"
  then have "length (abi_bytes32 bs) = 32" by (simp add: abi_bytes32_def)
  then show "decode_text_return True (RetBytes (abi_bytes32 bs))
       = \<lparr>tx_value = Some (bytes_text bs), tx_encoding = ''bytes32'', tx_detail = []\<rparr>"
    using decode_bytes32_label [of bs] bs by (auto simp: decode_text_return_def returndata_bytes_def)
next
  have clean: "t \<noteq> [] \<and> text_length t \<le> 128 \<and> (\<forall>c \<in> set t. 32 \<le> char_nat c \<and> char_nat c \<noteq> 127)"
    if "clean_text x = Some t" for x t
    using clean_text_Some [OF that] label_no_control [OF that] by (auto simp: MAX_TEXT_LENGTH_def)
  show "case tx_value (decode_text_return success r) of
        Some t \<Rightarrow> success \<and> t \<noteq> [] \<and> text_length t \<le> 128 \<and> (\<forall>c \<in> set t. 32 \<le> char_nat c \<and> char_nat c \<noteq> 127)
          \<and> tx_encoding (decode_text_return success r) \<in> {''string'', ''bytes32''}
      | None \<Rightarrow> tx_encoding (decode_text_return success r) = ''absent'' \<and> tx_detail (decode_text_return success r) \<noteq> []"
    using clean by (auto simp: decode_text_return_def absent_def decode_bytes32_text_def decode_dynamic_string_def
        Let_def split: sum.splits option.splits if_splits)
qed (rule decode_decimals_iff)

theorem metadata_text_roundtrip_witness:
  "decode_text_return True (RetBytes (abi_bytes32 [0x4D, 0x4B, 0x52]))
     = \<lparr>tx_value = Some ''MKR'', tx_encoding = ''bytes32'', tx_detail = []\<rparr>"
proof -
  have label: "is_label [0x4D, 0x4B, 0x52]" by code_simp
  have mkr: "bytes_text [0x4D, 0x4B, 0x52] = ''MKR''" by code_simp
  from metadata_text_roundtrip [of "[0x4D, 0x4B, 0x52]"] label show ?thesis unfolding mkr by simp
qed

subsection \<open>Every token answered from its own calls\<close>

lemma metadata_keys: "map cc_key (metadata_calls keccak as)
    = concat (map (\<lambda>a. [a @ '':symbol'', a @ '':name'', a @ '':decimals'']) as)"
  by (induction as) (auto simp: metadata_calls_def)

lemma key_suffixes:
  "a @ '':symbol'' \<noteq> b @ '':name''" "a @ '':symbol'' \<noteq> b @ '':decimals''" "a @ '':name'' \<noteq> b @ '':decimals''"
proof -
  show "a @ '':symbol'' \<noteq> b @ '':name''" using arg_cong [of _ _ last] by fastforce
  show "a @ '':symbol'' \<noteq> b @ '':decimals''" using arg_cong [of _ _ last] by fastforce
  show "a @ '':name'' \<noteq> b @ '':decimals''" using arg_cong [of _ _ last] by fastforce
qed

lemma metadata_keys_distinct: "distinct as \<Longrightarrow> distinct (map cc_key (metadata_calls keccak as))"
  by (induction as) (auto simp: metadata_keys key_suffixes key_suffixes [symmetric])

lemma results_by_key_distinct:
  assumes "distinct (map rr_key (results_of bs))" "r \<in> set (results_of bs)" "rr_key r = k"
  shows "results_by_key bs k = Some r"
proof -
  have "distinct (map fst (rev (map (\<lambda>r. (rr_key r, r)) (results_of bs))))"
    using assms(1) by (simp add: rev_map [symmetric] comp_def del: rev_map)
  then show ?thesis
    unfolding results_by_key_def using assms(2,3) by (intro map_of_is_SomeI) auto
qed

text \<open>
  C25: with an executor that keeps the contract of the verified executors, the collector
  returns exactly one entry per distinct address, in order, anchored at the block that was read, and
  each entry is decoded from the results of the three calls to that very token, taken from batches
  whose evidence is verified for this anchor; no entry is recorded as a missing result, and the
  status says how many of the three fields were read.
\<close>

theorem metadata_from_own_calls:
  assumes "executor execute" and "metadata_resolve keccak execute chain_id addresses anchor s = (Inr ms, s')"
  shows "map tm_token_address ms = sort (remdups addresses)
    \<and> (addresses \<noteq> [] \<longrightarrow> (\<exists>bs. execute (metadata_calls keccak (sort (remdups addresses))) anchor s = (Inr bs, s')
        \<and> list_all (evidence_ok anchor) bs
        \<and> (\<forall>m \<in> set ms. \<exists>sym nam dec. {sym, nam, dec} \<subseteq> set (results_of bs)
            \<and> rr_key sym = tm_token_address m @ '':symbol'' \<and> rr_key nam = tm_token_address m @ '':name''
            \<and> rr_key dec = tm_token_address m @ '':decimals''
            \<and> m = decoded_metadata chain_id anchor (tm_token_address m) sym nam dec
            \<and> tm_error_class m \<noteq> ''MissingCallResult''
            \<and> tm_resolution_status m = (if tm_symbol m \<noteq> None \<and> tm_name m \<noteq> None \<and> tm_decimals m \<noteq> None then ''resolved''
                else if tm_symbol m = None \<and> tm_name m = None \<and> tm_decimals m = None then ''failed'' else ''partial''))))"
proof (cases "addresses = []")
  case True
  with assms(2) show ?thesis by (simp add: metadata_resolve_def ret_def)
next
  case False
  define ordered where "ordered = sort (remdups addresses)"
  from assms(2) False obtain bs where bs: "execute (metadata_calls keccak ordered) anchor s = (Inr bs, s')"
    and ms: "ms = map (token_metadata_of chain_id anchor (results_by_key bs)) ordered"
    by (auto simp: metadata_resolve_def Let_def ordered_def io_simps ret_def)
  note keys = executor.answers_in_order [OF assms(1) bs]
  have "distinct ordered" by (simp add: ordered_def)
  from metadata_keys_distinct [OF this, of keccak] have distinct: "distinct (map rr_key (results_of bs))"
    by (simp add: keys)
  have own: "\<exists>sym nam dec. {sym, nam, dec} \<subseteq> set (results_of bs)
      \<and> rr_key sym = a @ '':symbol'' \<and> rr_key nam = a @ '':name'' \<and> rr_key dec = a @ '':decimals''
      \<and> token_metadata_of chain_id anchor (results_by_key bs) a = decoded_metadata chain_id anchor a sym nam dec"
    if a: "a \<in> set ordered" for a
  proof -
    have "{a @ '':symbol'', a @ '':name'', a @ '':decimals''} \<subseteq> set (map rr_key (results_of bs))"
      using a unfolding keys metadata_keys by auto
    then obtain sym nam dec where r: "sym \<in> set (results_of bs)" "nam \<in> set (results_of bs)" "dec \<in> set (results_of bs)"
      "rr_key sym = a @ '':symbol''" "rr_key nam = a @ '':name''" "rr_key dec = a @ '':decimals''"
      by (auto simp: image_iff)
    then have "token_metadata_of chain_id anchor (results_by_key bs) a = decoded_metadata chain_id anchor a sym nam dec"
      by (simp add: token_metadata_of_def results_by_key_distinct [OF distinct])
    with r show ?thesis by blast
  qed
  have address: "tm_token_address (token_metadata_of chain_id anchor results a) = a" for results a
    by (simp add: token_metadata_of_def decoded_metadata_def missing_metadata_def Let_def split: option.splits)
  have status: "tm_error_class (decoded_metadata chain_id anchor a sym nam dec) \<noteq> ''MissingCallResult''
      \<and> (let m = decoded_metadata chain_id anchor a sym nam dec in
         tm_resolution_status m = (if tm_symbol m \<noteq> None \<and> tm_name m \<noteq> None \<and> tm_decimals m \<noteq> None then ''resolved''
                else if tm_symbol m = None \<and> tm_name m = None \<and> tm_decimals m = None then ''failed'' else ''partial''))"
    for a sym nam dec
    by (simp add: decoded_metadata_def Let_def metadata_status_def STATUS_RESOLVED_def STATUS_PARTIAL_def STATUS_FAILED_def)
  have "\<exists>sym nam dec. {sym, nam, dec} \<subseteq> set (results_of bs)
            \<and> rr_key sym = tm_token_address m @ '':symbol'' \<and> rr_key nam = tm_token_address m @ '':name''
            \<and> rr_key dec = tm_token_address m @ '':decimals''
            \<and> m = decoded_metadata chain_id anchor (tm_token_address m) sym nam dec
            \<and> tm_error_class m \<noteq> ''MissingCallResult''
            \<and> tm_resolution_status m = (if tm_symbol m \<noteq> None \<and> tm_name m \<noteq> None \<and> tm_decimals m \<noteq> None then ''resolved''
                else if tm_symbol m = None \<and> tm_name m = None \<and> tm_decimals m = None then ''failed'' else ''partial'')"
    if "m \<in> set ms" for m
  proof -
    from that ms obtain a where a: "a \<in> set ordered" "m = token_metadata_of chain_id anchor (results_by_key bs) a"
      by auto
    from own [OF a(1)] obtain sym nam dec where r: "{sym, nam, dec} \<subseteq> set (results_of bs)"
      "rr_key sym = a @ '':symbol''" "rr_key nam = a @ '':name''" "rr_key dec = a @ '':decimals''"
      "m = decoded_metadata chain_id anchor a sym nam dec"
      unfolding a(2) by blast
    have addr: "tm_token_address m = a" unfolding a(2) by (rule address)
    note st = status [of a sym nam dec, unfolded Let_def, folded r(5)]
    show ?thesis unfolding addr
      by (rule exI [of _ sym], rule exI [of _ nam], rule exI [of _ dec])
         (intro conjI r conjunct1 [OF st] conjunct2 [OF st])
  qed
  note entries = this
  have "map tm_token_address ms = ordered" by (simp add: ms address comp_def)
  then show ?thesis
    unfolding ordered_def [symmetric]
    by (intro conjI impI exI [of _ bs] ballI) (assumption, rule bs, rule executor.verified [OF assms(1) bs], rule entries, assumption)
qed

theorem metadata_from_own_calls_witness:
  "\<exists>ms s'. metadata_resolve (\<lambda>_. [1, 2, 3, 4]) echo_executor 100 [''b'', ''a''] (sample_block 1) () = (Inr ms, s')
     \<and> map tm_token_address ms = [''a'', ''b'']"
proof -
  have o: "sort (remdups [''b'', ''a'']) = [''a'', ''b'']" by code_simp
  obtain bs where "echo_executor (metadata_calls (\<lambda>_. [1, 2, 3, 4]) [''a'', ''b'']) (sample_block 1) () = (Inr bs, ())"
    using echo_executor_returns [of "metadata_calls (\<lambda>_. [1, 2, 3, 4]) [''a'', ''b'']" 1 "()"]
    by (auto simp: metadata_calls_def)
  then have "\<exists>ms s'. metadata_resolve (\<lambda>_. [1, 2, 3, 4]) echo_executor 100 [''b'', ''a''] (sample_block 1) () = (Inr ms, s')"
    unfolding metadata_resolve_def Let_def o by (simp add: bind_io_apply ret_def)
  with metadata_from_own_calls [OF echo_executor, of "\<lambda>_. [1, 2, 3, 4]" 100 "[''b'', ''a'']" "sample_block 1" "()"] o
  show ?thesis by metis
qed

end
