(* ===== verification/PoolCensus.thy ===== *)
theory PoolCensus
  imports Publication
begin

text \<open>
  The publication gate of pools: what \<open>CensusRunner.run_pool\<close> writes, for the pools with plain reserves,
  the Balancer pools and the concentrated-liquidity pools, and the property that a pool is published
  only with its stored observations read back as they were collected.
\<close>

definition pool_readback :: "'w census_runner \<Rightarrow> attempt_scope \<Rightarrow> collected \<Rightarrow> bool \<Rightarrow> ('w session, string) io" where
  "pool_readback r scope result =
     (case result of ClCollected _ \<Rightarrow> readback_cl_digest (cn_store r) scope | _ \<Rightarrow> readback_pool_digest (cn_store r) scope)"

text \<open>What was established about a pool result before it is published.\<close>

definition pool_checked :: "'w census_runner \<Rightarrow> attempt_scope \<Rightarrow> collected \<Rightarrow> string \<Rightarrow> bool" where
  "pool_checked r scope result digest \<longleftrightarrow> co_verified result \<and> co_digest result = Inr digest
     \<and> (\<exists>c s1 s2. pool_readback r scope result c s1 = (Inr digest, s2))
     \<and> (\<exists>c s1 s2. terminal_error_count (cn_store r) scope c s1 = (Inr 0, s2))"

definition pool_published ::
  "'w census_runner \<Rightarrow> row \<Rightarrow> attempt_scope \<Rightarrow> frozen_universe \<Rightarrow> collected \<Rightarrow> insertion list \<Rightarrow> bool" where
  "pool_published r base scope universe result l \<longleftrightarrow>
     (\<exists>digest. pool_checked r scope result digest \<and> published_pair base result digest universe 0 None None l)"

lemma publish_pool_journals:
  "journals (publish_pool r base scope universe result) (gated (pool_published r base scope universe (PoolCollected result)))"
  unfolding publish_pool_def
proof (rule journals_silent, goal_cases)
  case (3 digest s s1)
  then have dg: "pr_result_digest result = Inr digest" by (simp add: lift_res_Inr)
  show ?case
  proof (rule journals_silent, goal_cases)
    case (3 readback s s1)
    note rb = 3
    show ?case
    proof (rule journals_silent, goal_cases)
      case (3 checks s s1)
      from publication_checks_Inr [OF 3] verified_readback_Inr [OF rb] dg
      have ok: "pool_checked r scope (PoolCollected result) digest" by (auto simp: pool_checked_def pool_readback_def)
      show ?case
        by (rule journals_mono [OF publish_attempt_journals]) (use ok in \<open>auto simp: gated_def pool_published_def\<close>)
    qed (auto intro: writes_intros)
  qed (auto intro: writes_intros)
qed (auto intro: writes_intros)

lemma publish_pool_cl_journals:
  "journals (publish_pool_cl r base scope universe result) (gated (pool_published r base scope universe (ClCollected result)))"
  unfolding publish_pool_cl_def
proof (rule journals_silent, goal_cases)
  case (3 digest s s1)
  then have dg: "cr_result_digest result = Inr digest" by (simp add: lift_res_Inr)
  show ?case
  proof (rule journals_silent, goal_cases)
    case (3 readback s s1)
    note rb = 3
    show ?case
    proof (rule journals_silent, goal_cases)
      case (3 checks s s1)
      from publication_checks_Inr [OF 3] verified_readback_Inr [OF rb] dg
      have ok: "pool_checked r scope (ClCollected result) digest" by (auto simp: pool_checked_def pool_readback_def)
      show ?case
        by (rule journals_mono [OF publish_attempt_journals]) (use ok in \<open>auto simp: gated_def pool_published_def\<close>)
    qed (auto intro: writes_intros)
  qed (auto intro: writes_intros)
qed (auto intro: writes_intros)

subsection \<open>The rows of a pool attempt\<close>

fun pool_rows :: "pool_config \<Rightarrow> collected \<Rightarrow> insertion list \<Rightarrow> bool" where
  "pool_rows pool (PoolCollected result) l \<longleftrightarrow> list_all not_publication l
     \<and> map pool_balance_of_row (rows_of ''pool_token_balances'' l)
         = map (\<lambda>b. Inr ((pool_digest_row b)\<lparr>pd_pool_address := pc_address pool\<rparr>)) (pr_balances result)
     \<and> length (rows_of ''census_errors'' l) = length (pr_errors result)"
| "pool_rows pool (ClCollected result) l \<longleftrightarrow> list_all not_publication l
     \<and> map cl_state_of_row (rows_of ''pool_cl_state'' l)
         = [Inr ((cl_state_digest_row (cr_state result))\<lparr>cd_pool_address := pc_address pool\<rparr>)]
     \<and> map tick_of_row (rows_of ''pool_tick_liquidity'' l)
         = map (\<lambda>t. Inr ((tick_digest_row t)\<lparr>td_pool_address := pc_address pool\<rparr>)) (cr_ticks result)
     \<and> length (rows_of ''census_errors'' l) = length (cr_errors result)"
| "pool_rows pool (TokenCollected result) l \<longleftrightarrow> False"

lemma persist_pool_result_Inr:
  assumes "persist_pool_result r i job pool d result s = (Inr x, s')"
  shows "\<exists>l. ss_journal s' = ss_journal s @ l \<and> pool_rows pool (PoolCollected result) l"
proof -
  from assms obtain now_at s1 bs s2 u where
    a: "now_utc r s = (Inr now_at, s1)"
    and b: "map_res (pool_insert_row r i job pool d now_at result) (pr_balances result) = Inr bs"
      "insert_chunked (insert_pool_balances (cn_store r)) bs i s1 = (Inr u, s2)"
    and e: "insert_errors r i job ''pool'' (pc_address pool) d (pr_errors result) s2 = (Inr x, s')"
    by (auto simp: persist_pool_result_def bind_io_Inr lift_res_Inr)
  have s1: "ss_journal s1 = ss_journal s" using a by (rule writes_nothing [rotated]) (intro writes_intros)
  note s2 = insert_chunked_Inr [OF b(2) [unfolded insert_pool_balances_def [abs_def]]]
  from insert_errors_Inr [OF e] obtain es where
    es: "length es = length (pr_errors result)"
      "ss_journal s' = ss_journal s2 @ (if es = [] then [] else [(''census_errors'', es)])" by blast
  have bal: "map pool_balance_of_row bs = map (\<lambda>b. Inr ((pool_digest_row b)\<lparr>pd_pool_address := pc_address pool\<rparr>)) (pr_balances result)"
    using map_res_map [OF b(1), of pool_balance_of_row] pool_insert_row_read by fastforce
  let ?l = "map (Pair ''pool_token_balances'') (chunks INSERT_CHUNK_ROWS bs) @ (if es = [] then [] else [(''census_errors'', es)])"
  have "ss_journal s' = ss_journal s @ ?l" using s1 s2 es(2) by simp
  moreover have "es = [] \<longleftrightarrow> pr_errors result = []" using es(1) by (metis length_0_conv)
  moreover have "list_all not_publication ?l" by (auto simp: list_all_iff not_publication_def)
  ultimately show ?thesis
    using bal es(1) by (intro exI [of _ ?l]) simp
qed

lemma cl_rows_read:
  "cl_state_insert_row r i job pool d now_at result = Inr row \<Longrightarrow>
     cl_state_of_row row = Inr ((cl_state_digest_row (cr_state result))\<lparr>cd_pool_address := pc_address pool\<rparr>)"
  "tick_insert_row r i job pool d now_at result t = Inr row \<Longrightarrow>
     tick_of_row row = Inr ((tick_digest_row t)\<lparr>td_pool_address := pc_address pool\<rparr>)"
  by (auto simp: cl_state_insert_row_def tick_insert_row_def bind_res_Inr Let_def observation_columns_def
      cl_state_of_row_def tick_of_row_def cell_reads cl_state_digest_row_def tick_digest_row_def)

lemma persist_pool_cl_result_Inr:
  assumes "persist_pool_cl_result r i job pool d result s = (Inr x, s')"
  shows "\<exists>l. ss_journal s' = ss_journal s @ l \<and> pool_rows pool (ClCollected result) l"
proof -
  from assms obtain now_at s1 row n s2 ts u s3 where
    a: "now_utc r s = (Inr now_at, s1)"
    and st: "cl_state_insert_row r i job pool d now_at result = Inr row"
      "insert_pool_cl_state (cn_store r) [row] i s1 = (Inr n, s2)"
    and t: "map_res (tick_insert_row r i job pool d now_at result) (cr_ticks result) = Inr ts"
      "insert_chunked (insert_pool_ticks (cn_store r)) ts i s2 = (Inr u, s3)"
    and e: "insert_errors r i job ''pool'' (pc_address pool) d (cr_errors result) s3 = (Inr x, s')"
    by (auto simp: persist_pool_cl_result_def bind_io_Inr lift_res_Inr)
  have s1: "ss_journal s1 = ss_journal s" using a by (rule writes_nothing [rotated]) (intro writes_intros)
  from insert_rows_Inr [OF st(2) [unfolded insert_pool_cl_state_def]]
  have s2: "ss_journal s2 = ss_journal s1 @ [(''pool_cl_state'', [row])]" by simp
  note s3 = insert_chunked_Inr [OF t(2) [unfolded insert_pool_ticks_def [abs_def]]]
  from insert_errors_Inr [OF e] obtain es where
    es: "length es = length (cr_errors result)"
      "ss_journal s' = ss_journal s3 @ (if es = [] then [] else [(''census_errors'', es)])" by blast
  have ticks: "map tick_of_row ts = map (\<lambda>t. Inr ((tick_digest_row t)\<lparr>td_pool_address := pc_address pool\<rparr>)) (cr_ticks result)"
    using map_res_map [OF t(1), of tick_of_row] cl_rows_read(2) by fastforce
  let ?l = "(''pool_cl_state'', [row]) # map (Pair ''pool_tick_liquidity'') (chunks INSERT_CHUNK_ROWS ts)
      @ (if es = [] then [] else [(''census_errors'', es)])"
  have "ss_journal s' = ss_journal s @ ?l" using s1 s2 s3 es(2) by simp
  moreover have "es = [] \<longleftrightarrow> cr_errors result = []" using es(1) by (metis length_0_conv)
  moreover have "list_all not_publication ?l" by (auto simp: list_all_iff not_publication_def)
  ultimately show ?thesis
    using ticks es(1) cl_rows_read(1) [OF st(1)] by (intro exI [of _ ?l]) simp
qed

subsection \<open>The journal of a pool attempt\<close>

text \<open>The collector that the job and the class of the pool select returned the result.\<close>

definition pool_collected :: "'w census_runner \<Rightarrow> job_config \<Rightarrow> pool_config \<Rightarrow> block_ref \<Rightarrow> collected \<Rightarrow> bool" where
  "pool_collected r job pool anchor result \<longleftrightarrow> (let mode = jb_integrity_mode job in
     \<exists>w w'. if mode = CL_LIQUIDITY
       then (\<exists>m x. cn_cl r = Some m \<and> result = ClCollected x
              \<and> cl_collect (cn_execute r) (cn_ext r) m pool anchor mode w = (Inr x, w'))
       else if is_balancer pool
       then (\<exists>bc x. cn_balancer r = Some bc \<and> result = PoolCollected x
              \<and> balancer_collect (cn_execute r) (cn_ext r) bc pool anchor mode w = (Inr x, w'))
       else (\<exists>x. result = PoolCollected x \<and> pool_collect (cn_execute r) pool anchor mode w = (Inr x, w')))"

definition pool_outcome ::
  "'w census_runner \<Rightarrow> row \<Rightarrow> nat \<Rightarrow> job_config \<Rightarrow> pool_config \<Rightarrow> date \<Rightarrow> block_ref \<Rightarrow> frozen_universe
   \<Rightarrow> insertion list \<Rightarrow> bool" where
  "pool_outcome r base i job pool d anchor universe l \<longleftrightarrow>
     (\<exists>result pre pair. l = pre @ pair \<and> pool_collected r job pool anchor result \<and> pool_rows pool result pre
        \<and> pool_published r base (scope_of r job (pc_address pool) d i) universe result pair)"

lemma pool_rows_silent: "pool_rows pool result l \<Longrightarrow> list_all not_publication l"
  by (cases result) simp_all

text \<open>Persisting a collected result and publishing it.\<close>

lemma persist_publish_journals:
  assumes persist: "writes not_publication persist"
      "\<And>x s s'. persist s = (Inr x, s') \<Longrightarrow> \<exists>l. ss_journal s' = ss_journal s @ l \<and> pool_rows pool result l"
    and publish: "journals publish (gated (pool_published r base (scope_of r job (pc_address pool) d i) universe result))"
    and collected: "pool_collected r job pool anchor result"
  shows "journals (bind_io persist (\<lambda>_. publish)) (gated (pool_outcome r base i job pool d anchor universe))"
proof (rule journals_bind [OF persist(1)], goal_cases)
  case (1 l e)
  then show ?case by (simp add: gated_def)
next
  case (2 x s s1 l)
  from persist(2) [OF 2(1)] 2(2) have rows: "pool_rows pool result l" by auto
  show ?case
  proof (rule journals_mono [OF publish], goal_cases)
    case (1 k res)
    then show ?case
    proof (rule gated_append)
      show "list_all not_publication l" using rows by (rule pool_rows_silent)
      assume "pool_published r base (scope_of r job (pc_address pool) d i) universe result k"
      with rows collected show "pool_outcome r base i job pool d anchor universe (l @ k)"
        unfolding pool_outcome_def by blast
    qed
  qed
qed

lemma pool_body_journals:
  "journals (pool_body r base i job pool d anchor universe kind) (gated (pool_outcome r base i job pool d anchor universe))"
  (is "journals _ ?G")
proof -
  let ?mode = "jb_integrity_mode job" and ?scope = "scope_of r job (pc_address pool) d i"
  let ?publish = "\<lambda>result. bind_io (persist_pool_result r i job pool d result) (\<lambda>_. publish_pool r base ?scope universe result)"
  have plain: "journals (?publish x) ?G" if "pool_collected r job pool anchor (PoolCollected x)" for x
    by (rule persist_publish_journals [OF _ _ publish_pool_journals that]) (auto intro: writes_intros dest!: persist_pool_result_Inr)
  have cl: "journals (bind_io (persist_pool_cl_result r i job pool d x) (\<lambda>_. publish_pool_cl r base ?scope universe x)) ?G"
    if "pool_collected r job pool anchor (ClCollected x)" for x
    by (rule persist_publish_journals [OF _ _ publish_pool_cl_journals that]) (auto intro: writes_intros dest!: persist_pool_cl_result_Inr)
  have last: "journals (if ?mode = CL_LIQUIDITY
        then (case cn_cl r of
                None \<Rightarrow> raise (Exn ValueError (''job '' @ jb_name job @ '' is cl_liquidity but no CL collector is configured''))
              | Some min_active \<Rightarrow>
                  bind_io (on_world (cl_collect (cn_execute r) (cn_ext r) min_active pool anchor ?mode)) (\<lambda>result.
                  bind_io (persist_pool_cl_result r i job pool d result) (\<lambda>_.
                    publish_pool_cl r base ?scope universe result)))
        else if is_balancer pool
        then (case cn_balancer r of
                None \<Rightarrow> raise (Exn ValueError (''pool '' @ pc_address pool @ '' is '' @ pc_pool_class pool
                          @ '' but no Balancer collector is configured''))
              | Some bc \<Rightarrow>
                  bind_io (lift_res (vault_target (cn_ext r) bc pool)) (\<lambda>vault.
                  bind_io (verify_code r vault anchor None) (\<lambda>_.
                  bind_io (on_world (balancer_collect (cn_execute r) (cn_ext r) bc pool anchor ?mode)) ?publish)))
        else bind_io (on_world (pool_collect (cn_execute r) pool anchor ?mode)) ?publish) ?G"
  proof (cases "?mode = CL_LIQUIDITY")
    case True
    show ?thesis
    proof (cases "cn_cl r")
      case None
      with True show ?thesis by (simp add: journals_raise)
    next
      case (Some m)
      show ?thesis unfolding if_P [OF True] Some option.case
      proof (rule journals_silent, goal_cases)
        case (3 x s s1)
        then obtain w w' where "cl_collect (cn_execute r) (cn_ext r) m pool anchor ?mode w = (Inr x, w')"
          by (auto dest!: on_world_Inr)
        with True Some have "pool_collected r job pool anchor (ClCollected x)" by (auto simp: pool_collected_def)
        then show ?case by (rule cl)
      qed (auto intro: writes_intros)
    qed
  next
    case plain_mode: False
    show ?thesis
    proof (cases "is_balancer pool")
      case True
      show ?thesis
      proof (cases "cn_balancer r")
        case None
        with True plain_mode show ?thesis by (simp add: journals_raise)
      next
        case (Some bc)
        show ?thesis unfolding if_not_P [OF plain_mode] if_P [OF True] Some option.case
        proof (rule journals_silent, goal_cases)
          case (3 vault s s1)
          show ?case
          proof (rule journals_silent, goal_cases)
            case (3 u s s1)
            show ?case
            proof (rule journals_silent, goal_cases)
              case (3 x s s1)
              then obtain w w' where "balancer_collect (cn_execute r) (cn_ext r) bc pool anchor ?mode w = (Inr x, w')"
                by (auto dest!: on_world_Inr)
              with True plain_mode Some have "pool_collected r job pool anchor (PoolCollected x)" by (auto simp: pool_collected_def)
              then show ?case by (rule plain)
            qed (auto intro: writes_intros)
          qed (auto intro: writes_intros)
        qed (auto intro: writes_intros)
      qed
    next
      case False
      show ?thesis unfolding if_not_P [OF plain_mode] if_not_P [OF False]
      proof (rule journals_silent, goal_cases)
        case (3 x s s1)
        then obtain w w' where "pool_collect (cn_execute r) pool anchor ?mode w = (Inr x, w')"
          by (auto dest!: on_world_Inr)
        with False plain_mode have "pool_collected r job pool anchor (PoolCollected x)" by (auto simp: pool_collected_def)
        then show ?case by (rule plain)
      qed (auto intro: writes_intros)
    qed
  qed
  show ?thesis unfolding pool_body_def Let_def
    by (rule journals_silent [OF _ _ journals_silent [OF _ _ journals_silent [OF _ _ last]]])
       (auto intro!: writes_intros split: if_splits)
qed

lemma run_pool_journals:
  "journals (run_pool r job pool d anchor) (\<lambda>l res. \<exists>i config_hash universe kind started.
     empty_universe = Inr universe \<and>
     attempt_of (pool_outcome r (attempt_base r i job ''pool'' (pc_address pool) d anchor config_hash universe kind started)
       i job pool d anchor universe) l res \<and> (\<forall>j. res = Inr j \<longrightarrow> j = i)
     \<or> l = [] \<and> (\<exists>e. res = Inl e))"
  unfolding run_pool_def Let_def
proof (rule journals_silent, goal_cases)
  case (3 u s s1)
  show ?case
  proof (rule journals_silent, goal_cases)
    case (3 universe s s1)
    then have universe: "empty_universe = Inr universe" by (simp add: lift_res_Inr)
    show ?case
    proof (rule journals_silent, goal_cases)
      case (3 i s s1)
      show ?case
      proof (rule journals_silent, goal_cases)
        case (3 started s s1)
        show ?case
        proof (rule journals_silent, goal_cases)
          case (3 config_hash s s1)
          show ?case
            by (rule journals_mono [OF return_after_attempt [OF run_attempt_journals [OF pool_body_journals]]])
               (use universe in blast)
        qed (auto intro: writes_intros)
      qed (auto intro: writes_intros)
    qed (auto intro: writes_intros)
  qed (auto intro: writes_intros)
qed (auto intro: writes_intros)

subsection \<open>The publication property of pools\<close>

text \<open>
  C24: a pool census publishes only what was proved. Whatever \<open>run_pool\<close> returns or raises,
  either it wrote no publication and raised, or it wrote exactly one publication, directly after the
  verified row of the same attempt and after every row of the attempt. Then the collector that the
  job and the class of the pool select returned the verified result, the stored reserves, or the
  stored state and ticks, are that result, no error row was written, the digest the store reported
  for the observations is the digest of the result, and the store counted no terminal error. Both
  rows carry the anchor and the result digest. If \<open>run_pool\<close> returns, it returns the id of that
  attempt and nothing was written after the publication; only attempt rows can follow when it raises.
\<close>
theorem pool_publication_gated:
  assumes "run_pool r job pool d anchor s = (res, s')"
  shows "\<exists>l. ss_journal s' = ss_journal s @ l \<and>
    (list_all not_publication l \<and> (\<exists>e. res = Inl e) \<or>
     (\<exists>i start rows v p rest result digest h.
        l = start @ rows @ [(''census_attempts'', [v]), (''census_publications'', [p])] @ rest
        \<and> (\<forall>j \<in> set (start @ rest). fst j = ''census_attempts'') \<and> (\<forall>j. res = Inr j \<longrightarrow> j = i \<and> rest = [])
        \<and> pool_collected r job pool anchor result
        \<and> pool_checked r (scope_of r job (pc_address pool) d i) result digest
        \<and> pool_rows pool result rows \<and> rows_of ''census_errors'' rows = []
        \<and> map_of v ''status'' = Some (CText ''verified'')
        \<and> carries v (publication_cells (cn_chain_id r) job ''pool'' (pc_address pool) d i anchor h digest)
        \<and> carries p (publication_cells (cn_chain_id r) job ''pool'' (pc_address pool) d i anchor h digest)))"
proof -
  from journalsD [OF run_pool_journals assms] obtain l where l: "ss_journal s' = ss_journal s @ l"
    and cases: "(\<exists>i config_hash universe kind started. empty_universe = Inr universe \<and>
     attempt_of (pool_outcome r (attempt_base r i job ''pool'' (pc_address pool) d anchor config_hash universe kind started)
       i job pool d anchor universe) l res \<and> (\<forall>j. res = Inr j \<longrightarrow> j = i)
     \<or> l = [] \<and> (\<exists>e. res = Inl e))" by blast
  show ?thesis
  proof (cases "list_all not_publication l \<and> (\<exists>e. res = Inl e)")
    case True
    with l show ?thesis by blast
  next
    case False
    with cases obtain i config_hash universe kind started where
      att: "attempt_of (pool_outcome r (attempt_base r i job ''pool'' (pc_address pool) d anchor config_hash universe kind started)
        i job pool d anchor universe) l res" and res: "\<forall>j. res = Inr j \<longrightarrow> j = i"
      by auto
    from att show ?thesis
    proof (cases rule: attempt_ofE)
      case silent
      with False show ?thesis by blast
    next
      case lb: (written start body rest)
      with res have rest: "\<forall>j. res = Inr j \<longrightarrow> j = i \<and> rest = []" by blast
      from lb(2) obtain result pre pair digest where o: "body = pre @ pair" "pool_collected r job pool anchor result"
        "pool_rows pool result pre" "pool_checked r (scope_of r job (pc_address pool) d i) result digest"
        "published_pair (attempt_base r i job ''pool'' (pc_address pool) d anchor config_hash universe kind started)
           result digest universe 0 None None pair"
        unfolding pool_outcome_def pool_published_def by blast
      have errors: "rows_of ''census_errors'' pre = []"
        using o(3,4) by (cases result) (auto simp: pool_checked_def pr_verified_def cr_verified_def all_verified_def)
      from published_pair_cells [OF o(5)] obtain v p where vp:
        "pair = [(''census_attempts'', [v]), (''census_publications'', [p])]" "map_of v ''status'' = Some (CText ''verified'')"
        "carries v (publication_cells (cn_chain_id r) job ''pool'' (pc_address pool) d i anchor (fu_universe_hash universe) digest)"
        "carries p (publication_cells (cn_chain_id r) job ''pool'' (pc_address pool) d i anchor (fu_universe_hash universe) digest)"
        by blast
      then have "l = start @ pre @ [(''census_attempts'', [v]), (''census_publications'', [p])] @ rest"
        by (simp add: lb(1) o(1))
      with l lb(3) rest o(2-4) errors vp(2-4) show ?thesis
        by - (rule exI [of _ l], rule conjI [OF l], rule disjI2, rule exI [of _ i], rule exI [of _ start], rule exI [of _ pre],
            rule exI [of _ v], rule exI [of _ p], rule exI [of _ rest], rule exI [of _ result],
            rule exI [of _ digest], rule exI [of _ "fu_universe_hash universe"], blast)
    qed
  qed
qed

subsection \<open>A pool that is published\<close>

lemma plain_pool_census:
  "\<exists>x b. pool_collect echo_executor plain_pool (sample_block 1) POOL_ASSETS () = (Inr x, ())
     \<and> pr_verified x \<and> pr_balances x = [pool_row plain_pool (sample_address 2, 7, 0)] \<and> pr_batches x = [b] \<and> pr_errors x = []"
proof -
  let ?k = "reserve_key plain_pool (sample_address 2)"
  obtain cd where "balance_of_calldata (sample_address 1) = Inr cd"
    using balance_of_returns [OF sample_address_ok] by blast
  then obtain x where x: "reserve_spec plain_pool (sample_address 2) = Inr x" "spec_key x = ?k"
    by (simp add: reserve_spec_def uint_spec_def plain_pool_def)
  then have specs: "map_res (reserve_spec plain_pool) [sample_address 2] = Inr [x]" by simp
  have dist: "distinct (map spec_key [x])" by simp
  have "\<exists>d. execute_uint_calls echo_executor [x] (sample_block 1) () = (Inr d, ()) \<and> all_seven d [x]"
    using echo_uint_calls [OF dist, of 1 "()"] x(2)
    by (auto simp: all_seven_def sample_address_def reserve_key_def plain_pool_def)
  then obtain d where d: "execute_uint_calls echo_executor [x] (sample_block 1) () = (Inr d, ())"
    and seven: "all_seven d [x]" by blast
  have obs: "observe d ?k = Inr (Inr (7, 0)) \<and> (\<exists>b. dx_batches d = [b])"
    using all_seven_observe [OF seven, of ?k] echo_first_batch [OF d, of ?k] x(2) by fastforce
  then have b: "observe_all d [(sample_address 2, ?k)] = Inr ([(sample_address 2, 7, 0)], [])" by simp
  from obs obtain ev where ev: "dx_batches d = [ev]" by blast
  have comp: "completeness_check (length [x]) d = (True, length [x])"
    by (rule all_seven_complete [OF seven dist])
  have guards: "pool_guards plain_pool (sample_block 1) POOL_ASSETS = Inr [sample_address 2]"
    by (simp add: pool_guards_def plain_pool_def sample_block_def)
  let ?r = "\<lparr>pr_pool_address = pc_address plain_pool, pr_integrity_mode = POOL_ASSETS, pr_expected_calls = length [x],
      pr_balances = [pool_row plain_pool (sample_address 2, 7, 0)], pr_errors = [], pr_batches = [ev],
      pr_integrity_checks = [complete_check ''pool_asset_observations_complete'' True (length [x]) (length [x])]\<rparr>"
  have "pool_collect echo_executor plain_pool (sample_block 1) POOL_ASSETS () = (Inr ?r, ())"
    unfolding pool_collect_def
    by (simp add: guards specs [simplified] bind_io_def d b comp ev ret_def x del: observe_all.simps list.size)
  moreover have "pr_verified ?r"
    using seven by (simp add: pr_verified_def all_verified_def complete_check_def all_seven_def ev)
  ultimately show ?thesis by (intro exI [of _ ?r] exI [of _ ev]) simp
qed

lemma plain_pool_digest: "\<exists>h. digest_pool_observations [pool_digest_row (pool_row plain_pool (sample_address 2, 7, 0))] = Inr h"
proof -
  let ?rs = "[pool_digest_row (pool_row plain_pool (sample_address 2, 7, 0))]"
  have "list_all prow_ok ?rs" by code_simp
  then obtain p where "pool_preimage ?rs = Inr p" using pool_preimage_Inr [of ?rs] by blast
  then show ?thesis by (simp add: digest_pool_observations_def)
qed

lemma plain_pool_readback:
  assumes "digest_pool_observations [pool_digest_row (pool_row plain_pool (sample_address 2, 7, 0))] = Inr h"
  shows "yields (readback_pool_digest sample_client scope c) h"
  unfolding readback_pool_digest_def
  by (rule yields_bind [OF yields_query_map [where ys = "[pool_digest_row (pool_row plain_pool (sample_address 2, 7, 0))]"]])
     (use assms in \<open>simp_all add: sample_answers_def pool_balance_of_row_def cell_reads pool_digest_row_def pool_row_def
        plain_pool_def yields_prim\<close>)

lemma plain_pool_persists:
  assumes "pr_balances x = [pool_row plain_pool (sample_address 2, 7, 0)]" "pr_batches x = [b]" "pr_errors x = []"
  shows "yields (persist_pool_result sample_runner 5 plain_job plain_pool d x) ()"
proof -
  have "\<exists>row. map_res (pool_insert_row sample_runner 5 plain_job plain_pool d 0 x) (pr_balances x) = Inr [row]"
    by (simp add: assms pool_insert_row_def probe_source_def pool_row_def)
  then obtain row where row: "map_res (pool_insert_row sample_runner 5 plain_job plain_pool d 0 x) (pr_balances x) = Inr [row]"
    by blast
  from observations_fit(3) [of sample_runner 5 plain_job plain_pool d 0 x "pr_balances x"]
  have fit: "rows_fit ''pool_token_balances'' [row]" unfolding row by simp
  have "chunks INSERT_CHUNK_ROWS [row] = [[row]]" by (simp add: chunks.simps INSERT_CHUNK_ROWS_def)
  then have "yields (insert_chunked (insert_pool_balances sample_client) [row] 5) ()"
    unfolding insert_chunked_def insert_pool_balances_def
    by (intro yields_bind [OF yields_map_io [where ys = "[1]"]] yields_prim)
       (use yields_insert [OF fit] in auto)
  moreover have "yields (insert_errors sample_runner 5 plain_job ''pool'' (pc_address plain_pool) d (pr_errors x)) ()"
    unfolding insert_errors_def assms Let_def by (rule yields_bind [OF yields_now]) (simp add: yields_prim)
  ultimately show ?thesis unfolding persist_pool_result_def
    by (intro yields_bind [OF yields_now]) (auto simp: row intro!: yields_bind yields_prim)
qed

lemma plain_pool_checks:
  assumes "pr_verified x"
  shows "\<exists>checks. yields (publication_checks sample_runner scope u (PoolCollected x) dg dg) checks"
proof -
  have te: "yields (terminal_errors sample_runner scope (PoolCollected x)) 0"
    unfolding terminal_errors_def using yields_terminal assms(1)
    by (intro yields_bind [OF yields_terminal [of scope False, folded sample_store]])
       (simp_all add: pr_verified_def all_verified_def yields_prim)
  have passed: "concat (map (snd \<circ> integrity_outcome) cs) = []" if "list_all ir_passed cs" for cs
    using that by (induction cs) (auto simp: integrity_outcome_def outcome_def)
  show ?thesis unfolding publication_checks_def Let_def
    by (rule exI, rule yields_bind [OF te], rule yields_bind, simp, rule yields_prim,
        insert assms(1), simp add: outcome_def pr_verified_def all_verified_def comp_def passed [unfolded comp_def], rule yields_prim)
qed

lemma plain_pool_publishes:
  "yields (run_pool sample_runner plain_job plain_pool d (sample_block 1)) 5"
proof -
  obtain x b where x: "pool_collect echo_executor plain_pool (sample_block 1) POOL_ASSETS () = (Inr x, ())"
    "pr_verified x" "pr_balances x = [pool_row plain_pool (sample_address 2, 7, 0)]" "pr_batches x = [b]" "pr_errors x = []"
    using plain_pool_census by blast
  have "\<exists>h. target_config_hash (cn_read_bytes sample_runner) (cn_float_text sample_runner) (cn_catalog sample_runner)
      plain_job (PoolTarget plain_pool) = Inr h"
    by (simp add: target_config_hash_def target_effective_config_def plain_job_def)
  then obtain h where h: "target_config_hash (cn_read_bytes sample_runner) (cn_float_text sample_runner) (cn_catalog sample_runner)
      plain_job (PoolTarget plain_pool) = Inr h" by blast
  have "\<exists>p. universe_preimage [] = Inr p" using universe_preimage_Inr [of "[]"] by simp
  then obtain u where u: "empty_universe = Inr u" by (auto simp: empty_universe_def digest_universe_def)
  from plain_pool_digest obtain dg where dg: "digest_pool_observations [pool_digest_row (pool_row plain_pool (sample_address 2, 7, 0))] = Inr dg"
    by blast
  let ?scope = "scope_of sample_runner plain_job (pc_address plain_pool) d 5"
  from plain_pool_checks [OF x(2), of ?scope u dg] obtain checks where
    checks: "yields (publication_checks sample_runner ?scope u (PoolCollected x) dg dg) checks" by auto
  let ?base = "attempt_base sample_runner 5 plain_job ''pool'' (pc_address plain_pool) d (sample_block 1) h u LEGACY_RPC_BATCH 0"
  have "yields (publish_attempt sample_runner ?base (PoolCollected x) dg u 0 None None checks) ()"
    unfolding publish_attempt_def insert_attempt_state_def append_publication_def Let_def sample_store
    by (rule yields_bind [OF yields_now], rule yields_bind [OF yields_insert], rule attempts_fit)
       (auto simp: verified_items_def all_columns_simps intro!: yields_bind [OF yields_uuid] yields_bind [OF yields_insert]
          publication_fits yields_prim)
  then have publish: "yields (publish_pool sample_runner ?base ?scope u x) ()"
    unfolding publish_pool_def sample_store
    by (intro yields_bind [of "lift_res (pr_result_digest x)" dg] yields_bind [OF yields_readback [OF plain_pool_readback [OF dg]]]
        yields_bind [OF checks])
       (simp_all add: pr_result_digest_def x dg yields_prim)
  have collect: "yields (on_world (pool_collect (cn_execute sample_runner) plain_pool (sample_block 1) POOL_ASSETS)) x"
    using x(1) by (auto simp: sample_runner_def intro!: yields_on_world)
  have mode: "jb_integrity_mode plain_job = POOL_ASSETS" "\<not> is_balancer plain_pool" "pc_assets plain_pool = [sample_address 2]"
    by (simp_all add: plain_job_def is_balancer_def plain_pool_def BALANCER_V2_CLASS_def BALANCER_V3_CLASS_def)
  have code: "yields (map_io (\<lambda>a. verify_code sample_runner a (sample_block 1) None) [sample_address 2]) [()]"
    by (rule yields_map_io) (simp add: yields_code)
  have no: "(LEGACY_RPC_BATCH = MULTICALL3) = False" "(POOL_ASSETS = CL_LIQUIDITY) = False" by simp_all
  have "yields (pool_body sample_runner ?base 5 plain_job plain_pool d (sample_block 1) u LEGACY_RPC_BATCH) ()"
    unfolding pool_body_def Let_def mode(1,3) no if_False if_not_P [OF mode(2)]
    apply (rule yields_bind [OF yields_code])
    apply (rule yields_bind [OF code])
    apply (rule yields_bind [OF yields_prim(1)])
    apply (rule yields_bind [OF collect])
    apply (rule yields_bind [OF plain_pool_persists [OF x(3-5)]])
    apply (rule publish)
    done
  then have attempt: "yields (run_attempt sample_runner ?base
      (pool_body sample_runner ?base 5 plain_job plain_pool d (sample_block 1) u LEGACY_RPC_BATCH)) ()"
    unfolding run_attempt_def insert_attempt_state_def sample_store
    by (intro yields_bind [OF yields_insert] yields_catch attempts_fit) (auto simp: all_columns_simps)
  have kind: "executor_kind_for_anchor (cn_catalog sample_runner) (sample_block 1) = LEGACY_RPC_BATCH"
    by (simp add: executor_kind_for_anchor_def sample_runner_def daily_catalog_def sample_block_def)
  have window: "check_date_window (PoolTarget plain_pool) d = Inr ()"
    by (simp add: check_date_window_def target_dates_def plain_pool_def)
  show ?thesis unfolding run_pool_def window u h Let_def kind
    by (intro yields_bind [OF yields_prim(2)] yields_bind [OF yields_uuid] yields_bind [OF yields_now]
        yields_bind [OF attempt] yields_prim)
qed

theorem pool_publication_gated_witness:
  "\<exists>s' p. run_pool sample_runner plain_job plain_pool 19753 (sample_block 1) \<lparr>ss_world = (), ss_journal = []\<rparr> = (Inr 5, s')
     \<and> last (ss_journal s') = (''census_publications'', [p]) \<and> map_of p ''attempt_id'' = Some (CUuid 5)
     \<and> map_of p ''anchor_hash'' = Some (CText (block_hash (sample_block 1)))"
proof -
  obtain s' where run: "run_pool sample_runner plain_job plain_pool 19753 (sample_block 1) \<lparr>ss_world = (), ss_journal = []\<rparr> = (Inr 5, s')"
    using plain_pool_publishes unfolding yields_def by blast
  from pool_publication_gated [OF run]
  have "\<exists>p. last (ss_journal s') = (''census_publications'', [p]) \<and> map_of p ''attempt_id'' = Some (CUuid 5)
      \<and> map_of p ''anchor_hash'' = Some (CText (block_hash (sample_block 1)))"
    by (auto simp: carries_def publication_cells_def)
  with run show ?thesis by auto
qed

end
