(* ===== verification/Orchestration.thy ===== *)
theory Orchestration
  imports Metadata PoolCensus Services
begin

text \<open>
  The operations of \<open>IndexerService\<close> (\<open>service.py\<close>): anchors, the selection of jobs and targets, holder
  discovery, sweeps, the metadata pass, and the census of a date, composed from the components.
  Progress events and metrics counters are left out, and the targets of a job, which the code runs
  concurrently up to a limit, run in their order.
\<close>

subsection \<open>State\<close>

text \<open>An open service: its runner with catalog and store, its log services, and the settings it reads.\<close>

record 'w indexer =
  ix_runner :: "'w census_runner"
  ix_logs :: "'w log_service"
  ix_csv :: csv_reader
  ix_skip_any :: bool
  ix_quarantine :: int

text \<open>The mutable attributes: the resolved discovered targets by job, and whether metadata was read.\<close>

record 'w serving =
  sv_session :: "'w session"
  sv_discovered :: "(string \<times> token_config list) list"
  sv_metadata_done :: bool

definition on_session :: "('w session, 'a) io \<Rightarrow> ('w serving, 'a) io" where
  "on_session m = (\<lambda>s. case m (sv_session s) of (r, t) \<Rightarrow> (r, s\<lparr>sv_session := t\<rparr>))"

definition ix_catalog :: "'w indexer \<Rightarrow> catalog" where
  "ix_catalog ix = cn_catalog (ix_runner ix)"

definition ix_store :: "'w indexer \<Rightarrow> 'w client" where
  "ix_store ix = cn_store (ix_runner ix)"

definition ix_chain_id :: "'w indexer \<Rightarrow> int" where
  "ix_chain_id ix = cn_chain_id (ix_runner ix)"

subsection \<open>Selection\<close>

definition archive_probe_block :: "int \<Rightarrow> int option \<Rightarrow> int" where
  "archive_probe_block default_block floor_block =
     (case floor_block of None \<Rightarrow> default_block | Some floor_value \<Rightarrow> max default_block floor_value)"

definition service_resolve_anchor :: "'w indexer \<Rightarrow> date \<Rightarrow> ('w session, block_ref) io" where
  "service_resolve_anchor ix snapshot_date =
     (let chain = ct_chain (ix_catalog ix) in
      bind_io (lift_res (mk_resolver (ch_finality_tag chain) (ch_fallback_confirmation_depth chain))) (\<lambda>resolver.
      bind_io (on_world (resolve (dv_rpc_call (ix_logs ix)) resolver snapshot_date)) (\<lambda>resolved.
        persist_anchor (ix_store ix) (ix_chain_id ix) resolved)))"

definition selected_jobs :: "'w indexer \<Rightarrow> string option \<Rightarrow> job_config list res" where
  "selected_jobs ix job_name =
     (case job_name of
        Some name \<Rightarrow> (case map_of (ct_jobs (ix_catalog ix)) name of
                        None \<Rightarrow> raise_res ServiceError (''unknown job: '' @ name)
                      | Some job \<Rightarrow> Inr [job])
      | None \<Rightarrow> Inr (map snd (sort_key fst (ct_jobs (ix_catalog ix)))))"

text \<open>The universes that a path has not visited; their number bounds the recursion of the next function.\<close>

definition unseen :: "(string \<times> universe_config) list \<Rightarrow> string list \<Rightarrow> nat" where
  "unseen us seen = card (fst ` set us - set seen)"

lemma unseen_less: "map_of us name = Some u \<Longrightarrow> name \<notin> set seen \<Longrightarrow> unseen us (name # seen) < unseen us seen"
proof -
  assume "map_of us name = Some u" "name \<notin> set seen"
  then have "name \<in> fst ` set us - set seen" by (force dest: map_of_SomeD)
  then have "fst ` set us - set (name # seen) \<subset> fst ` set us - set seen" by auto
  then show ?thesis unfolding unseen_def by (intro psubset_card_mono) auto
qed

text \<open>\<open>visit\<close> of \<open>_uses_full_holders\<close>, with the loop of its \<open>any\<close>.\<close>

function visit_full :: "(string \<times> universe_config) list \<Rightarrow> string \<Rightarrow> string list \<Rightarrow> bool res"
  and visit_any :: "(string \<times> universe_config) list \<Rightarrow> string list \<Rightarrow> string list \<Rightarrow> bool res" where
  "visit_full us name seen =
     (if name \<in> set seen then raise_res ServiceError (''universe cycle while resolving '' @ name)
      else case map_of us name of
        None \<Rightarrow> raise_res KeyError name
      | Some selector \<Rightarrow>
          if un_kind selector = FULL_HOLDERS then Inr True
          else visit_any us (un_of selector) (name # seen))"
| "visit_any us [] seen = Inr False"
| "visit_any us (child # children) seen =
     bind_res (visit_full us child seen) (\<lambda>found. if found then Inr True else visit_any us children seen)"
  by pat_completeness auto

termination
  by (relation "(\<lambda>x. case x of Inl (us, name, seen) \<Rightarrow> unseen us seen | Inr (us, children, seen) \<Rightarrow> unseen us seen)
        <*mlex*> (\<lambda>x. case x of Inl _ \<Rightarrow> 0 | Inr (us, children, seen) \<Rightarrow> Suc (length children)) <*mlex*> {}")
     (auto simp: mlex_prod_def wf_mlex unseen_less intro: wf_mlex)

definition uses_full_holders :: "'w indexer \<Rightarrow> string \<Rightarrow> bool res" where
  "uses_full_holders ix universe_name = visit_full (ct_universes (ix_catalog ix)) universe_name []"

definition target_deployment :: "target \<Rightarrow> int" where
  "target_deployment t = (case t of TokenTarget c \<Rightarrow> tc_deployment_block c | PoolTarget p \<Rightarrow> pc_deployment_block p)"

definition active :: "target \<Rightarrow> date \<Rightarrow> int option \<Rightarrow> bool" where
  "active target snapshot_date anchor_block =
     (case target_dates target of (start, stop) \<Rightarrow>
        if start \<noteq> None \<and> snapshot_date < the start then False
        else if stop \<noteq> None \<and> snapshot_date \<ge> the stop then False
        else if anchor_block \<noteq> None \<and> the anchor_block < target_deployment target then False
        else True)"

definition needs_holder_discovery :: "'w indexer \<Rightarrow> job_config \<Rightarrow> bool res" where
  "needs_holder_discovery ix job =
     (case (jb_token_selector job, jb_universe job) of
        (Some selector, Some universe) \<Rightarrow>
          if jb_target_kind job = TOKENS \<and> \<not> ts_discovered selector
          then uses_full_holders ix universe else Inr False
      | _ \<Rightarrow> Inr False)"

type_synonym token_dict = "(string \<times> token_config) list"

definition token_dict_put :: "token_config \<Rightarrow> token_dict \<Rightarrow> token_dict" where
  "token_dict_put token m = AList.update (tc_address token) token m"

fun add_aliases :: "'w indexer \<Rightarrow> date \<Rightarrow> block_ref \<Rightarrow> string list \<Rightarrow> token_dict \<Rightarrow> token_dict res" where
  "add_aliases ix d anchor [] selected = Inr selected"
| "add_aliases ix d anchor (name # names) selected =
     bind_res (lookup_key (ct_tokens (ix_catalog ix)) name) (\<lambda>alias_token.
       add_aliases ix d anchor names
         (if active (TokenTarget alias_token) d (Some (number anchor)) \<and> name \<notin> fst ` set selected
          then selected @ [(name, alias_token)] else selected))"

definition with_active_aliases ::
  "'w indexer \<Rightarrow> token_config list \<Rightarrow> date \<Rightarrow> block_ref \<Rightarrow> token_config list res" where
  "with_active_aliases ix tokens d anchor =
     (let selected = fold token_dict_put tokens [] in
      bind_res (add_aliases ix d anchor (concat (map (tc_universe_aliases \<circ> snd) selected)) selected) (\<lambda>all_selected.
        Inr (sort_key tc_address (map snd all_selected))))"

subsection \<open>Discovery and sweeps\<close>

fun advance_tokens :: "'w indexer \<Rightarrow> token_config list \<Rightarrow> block_ref \<Rightarrow> string list \<Rightarrow> ('w session, unit) io" where
  "advance_tokens ix [] anchor failures = (if failures \<noteq> [] then raise (JobRunExn failures) else ret ())"
| "advance_tokens ix (token # tokens) anchor failures = (\<lambda>s.
     case discovery_advance (ix_logs ix) token (number anchor) (block_hash anchor) s of
       (Inl e, s1) \<Rightarrow> advance_tokens ix tokens anchor
                        (failures @ [tc_symbol token @ '': '' @ exn_name (exn_class_of e)]) s1
     | (Inr _, s1) \<Rightarrow> advance_tokens ix tokens anchor failures s1)"

definition advance_discovery :: "'w indexer \<Rightarrow> token_config list \<Rightarrow> block_ref \<Rightarrow> ('w session, unit) io" where
  "advance_discovery ix tokens anchor = advance_tokens ix tokens anchor []"

fun discovery_targets :: "'w indexer \<Rightarrow> date \<Rightarrow> block_ref \<Rightarrow> job_config list \<Rightarrow> token_dict \<Rightarrow> token_dict res" where
  "discovery_targets ix d anchor [] selected = Inr selected"
| "discovery_targets ix d anchor (job # jobs) selected =
     bind_res (needs_holder_discovery ix job) (\<lambda>needed.
       if \<not> needed then discovery_targets ix d anchor jobs selected
       else bind_res (token_targets (ix_catalog ix) job) (\<lambda>tokens.
              discovery_targets ix d anchor jobs
                (fold token_dict_put (filter (\<lambda>t. active (TokenTarget t) d (Some (number anchor))) tokens) selected)))"

definition anchor_or_resolve :: "'w indexer \<Rightarrow> date \<Rightarrow> block_ref option \<Rightarrow> ('w session, block_ref) io" where
  "anchor_or_resolve ix d anchor = (case anchor of Some a \<Rightarrow> ret a | None \<Rightarrow> service_resolve_anchor ix d)"

definition discover :: "'w indexer \<Rightarrow> date \<Rightarrow> string option \<Rightarrow> block_ref option \<Rightarrow> ('w session, block_ref) io" where
  "discover ix d job_name given =
     bind_io (anchor_or_resolve ix d given) (\<lambda>anchor.
     bind_io (lift_res (selected_jobs ix job_name)) (\<lambda>jobs.
     bind_io (lift_res (discovery_targets ix d anchor jobs [])) (\<lambda>selected.
     bind_io (lift_res (with_active_aliases ix (map snd selected) d anchor)) (\<lambda>tokens.
     bind_io (advance_discovery ix tokens anchor) (\<lambda>_. ret anchor)))))"

fun sweep_all :: "'w indexer \<Rightarrow> sweep_config list \<Rightarrow> block_ref \<Rightarrow> string list \<Rightarrow> ('w session, unit) io" where
  "sweep_all ix [] anchor failures = (if failures \<noteq> [] then raise (JobRunExn failures) else ret ())"
| "sweep_all ix (sweep # sweeps) anchor failures =
     (if \<not> sw_enabled sweep then sweep_all ix sweeps anchor failures
      else bind_io (lift_res (explicit_addresses (ix_csv ix) (ix_catalog ix) (sw_universe sweep))) (\<lambda>wallets s.
        case sweep_advance (ix_logs ix) sweep wallets (number anchor) (block_hash anchor) s of
          (Inl e, s1) \<Rightarrow> sweep_all ix sweeps anchor
                           (failures @ [sw_name sweep @ '': '' @ exn_name (exn_class_of e)]) s1
        | (Inr _, s1) \<Rightarrow> sweep_all ix sweeps anchor failures s1))"

definition service_sweep :: "'w indexer \<Rightarrow> date \<Rightarrow> string option \<Rightarrow> block_ref option \<Rightarrow> ('w session, block_ref) io" where
  "service_sweep ix d sweep_name given =
     (let sweeps = ct_sweeps (ix_catalog ix) in
      if sweep_name \<noteq> None \<and> map_of sweeps (the sweep_name) = None
      then raise (Exn ServiceError (''unknown sweep: '' @ the sweep_name))
      else let selected = map snd (filter (\<lambda>(name, _). sweep_name = None \<or> sweep_name = Some name) (sort_key fst sweeps)) in
      bind_io (anchor_or_resolve ix d given) (\<lambda>anchor.
      bind_io (sweep_all ix selected anchor []) (\<lambda>_. ret anchor)))"

subsection \<open>Token metadata\<close>

fun metadata_chunks :: "'w indexer \<Rightarrow> block_ref \<Rightarrow> string list list \<Rightarrow> nat \<Rightarrow> ('w session, nat) io" where
  "metadata_chunks ix anchor [] written = ret written"
| "metadata_chunks ix anchor (chunk # rest) written = (\<lambda>s.
     case on_world (metadata_resolve (ext_keccak (cn_ext (ix_runner ix))) (cn_execute (ix_runner ix)) (ix_chain_id ix) chunk anchor) s of
       (Inl e, s1) \<Rightarrow> metadata_chunks ix anchor rest written s1
     | (Inr found_rows, s1) \<Rightarrow>
         (if found_rows = [] then metadata_chunks ix anchor rest written
          else bind_io (map_io (\<lambda>m. bind_io (now_utc (ix_runner ix)) (\<lambda>t. ret (metadata_row m t))) found_rows) (\<lambda>rows.
               bind_io (insert_token_metadata (ix_store ix) rows) (\<lambda>_.
                 metadata_chunks ix anchor rest (written + length found_rows)))) s1)"

definition resolve_token_metadata :: "'w indexer \<Rightarrow> block_ref \<Rightarrow> nat \<Rightarrow> ('w session, nat) io" where
  "resolve_token_metadata ix anchor chunk_size =
     bind_io (discovered_token_candidates (ix_store ix) (ix_chain_id ix)) (\<lambda>candidates.
       if candidates = [] then ret 0
       else bind_io (unresolved_metadata_addresses (ix_store ix) (ix_chain_id ix) (map fst candidates)) (\<lambda>pending.
         if pending = [] then ret 0
         else metadata_chunks ix anchor (chunks chunk_size pending) 0))"

definition yesterday :: "'w indexer \<Rightarrow> ('w session, date) io" where
  "yesterday ix = bind_io (now_utc (ix_runner ix)) (\<lambda>t. ret (t div 86400 - 1))"

definition metadata_pass :: "'w indexer \<Rightarrow> ('w session, unit) io" where
  "metadata_pass ix =
     bind_io (yesterday ix) (\<lambda>d.
     bind_io (service_resolve_anchor ix d) (\<lambda>recent.
     bind_io (resolve_token_metadata ix recent 80) (\<lambda>_. ret ())))"

definition discovers :: "job_config \<Rightarrow> bool" where
  "discovers job \<longleftrightarrow> (case jb_token_selector job of Some selector \<Rightarrow> ts_discovered selector | None \<Rightarrow> False)"

definition resolve_metadata_once :: "'w indexer \<Rightarrow> ('w serving, unit) io" where
  "resolve_metadata_once ix = (\<lambda>s.
     if sv_metadata_done s then (Inr (), s)
     else if \<not> list_ex discovers (map snd (ct_jobs (ix_catalog ix))) then (Inr (), s\<lparr>sv_metadata_done := True\<rparr>)
     else case on_session (catch_io (metadata_pass ix) (\<lambda>_. ret ())) s of
            (r, s1) \<Rightarrow> (r, s1\<lparr>sv_metadata_done := True\<rparr>))"

subsection \<open>The targets of a job\<close>

fun discovered_dict :: "'w indexer \<Rightarrow> (string \<times> int) list \<Rightarrow> token_dict \<Rightarrow> token_dict" where
  "discovered_dict ix [] targets = targets"
| "discovered_dict ix ((address, first_seen_block) # rest) targets =
     (case map_of (ct_tokens (ix_catalog ix)) address of
        Some curated \<Rightarrow> discovered_dict ix rest
                          (if tc_enabled curated then AList.update address curated targets else targets)
      | None \<Rightarrow> discovered_dict ix rest
                  (AList.update address (discovered_token_config address first_seen_block) targets))"

definition discovered_targets :: "'w indexer \<Rightarrow> job_config \<Rightarrow> ('w serving, token_config list) io" where
  "discovered_targets ix job = (\<lambda>s.
     case map_of (sv_discovered s) (jb_name job) of
       Some cached \<Rightarrow> (Inr cached, s)
     | None \<Rightarrow>
         bind_io (on_session (discovered_token_candidates (ix_store ix) (ix_chain_id ix))) (\<lambda>candidates.
         let resolved = map snd (sort_key fst (discovered_dict ix candidates [])) in
         bind_io (if resolved \<noteq> []
                  then on_session (register_targets (ix_runner ix) job (map TokenTarget resolved)) else ret ()) (\<lambda>_ s1.
           (Inr resolved, s1\<lparr>sv_discovered := AList.update (jb_name job) resolved (sv_discovered s1)\<rparr>))) s)"

definition live_token_targets :: "'w indexer \<Rightarrow> job_config \<Rightarrow> ('w serving, token_config list) io" where
  "live_token_targets ix job =
     (case jb_token_selector job of
        None \<Rightarrow> ret []
      | Some selector \<Rightarrow>
          if \<not> ts_discovered selector then lift_res (token_targets (ix_catalog ix) job)
          else bind_io (discovered_targets ix job) (\<lambda>resolved.
               bind_io (on_session (quarantined_token_targets (ix_store ix) (ix_chain_id ix) (jb_name job) (ix_quarantine ix))) (\<lambda>quarantined.
                 if quarantined = [] then ret resolved
                 else ret (filter (\<lambda>token. tc_address token \<notin> set quarantined) resolved))))"

subsection \<open>The census of a date\<close>

definition failure_row :: "'w indexer \<Rightarrow> string \<Rightarrow> string \<Rightarrow> string \<Rightarrow> date \<Rightarrow> exn \<Rightarrow> nat \<Rightarrow> int \<Rightarrow> row" where
  "failure_row ix job_name target_kind target_address d e attempt_id terminal_at =
     [(''chain_id'', CInt (ix_chain_id ix)), (''job_name'', CText job_name), (''target_kind'', CText target_kind),
      (''target_address'', CText target_address), (''snapshot_date'', CDate d), (''attempt_id'', CUuid attempt_id),
      (''subject_address'', CText []), (''call_kind'', CText ''target''), (''batch_sequence'', CInt 0),
      (''error_class'', CText (exn_name (exn_class_of e))), (''rpc_code'', CInt 0), (''return_data'', CText ''0x''),
      (''error_message'', CText (take 4096 (exn_str e))), (''terminal_at'', CTime terminal_at)]"

definition record_target_failure ::
  "'w indexer \<Rightarrow> string \<Rightarrow> string \<Rightarrow> string \<Rightarrow> date \<Rightarrow> exn \<Rightarrow> ('w session, unit) io" where
  "record_target_failure ix job_name target_kind target_address d e =
     catch_io
       (bind_io (uuid4 (ix_runner ix)) (\<lambda>attempt_id.
        bind_io (now_utc (ix_runner ix)) (\<lambda>terminal_at.
        bind_io (insert_terminal_errors (ix_store ix)
                   [failure_row ix job_name target_kind target_address d e attempt_id terminal_at]) (\<lambda>_. ret ()))))
       (\<lambda>_. ret ())"

definition kind_of :: "job_config \<Rightarrow> string" where
  "kind_of job = (if jb_target_kind job = TOKENS then ''token'' else ''pool'')"

definition target_label :: "target \<Rightarrow> string" where
  "target_label t = (case t of TokenTarget c \<Rightarrow> tc_symbol c | PoolTarget p \<Rightarrow> pc_name p)"

definition job_targets :: "'w indexer \<Rightarrow> job_config \<Rightarrow> ('w serving, target list) io" where
  "job_targets ix job =
     (if jb_target_kind job = TOKENS
      then bind_io (live_token_targets ix job) (\<lambda>ts. ret (map TokenTarget ts))
      else bind_io (lift_res (pool_targets (ix_catalog ix) job)) (\<lambda>ps. ret (map PoolTarget ps)))"

text \<open>The work of a job: its active targets that the store does not report as published.\<close>

definition plan_job :: "'w indexer \<Rightarrow> date \<Rightarrow> block_ref \<Rightarrow> job_config \<Rightarrow> ('w serving, job_config \<times> target list) io" where
  "plan_job ix d anchor job =
     bind_io (on_session (published_target_addresses (ix_store ix) (ix_chain_id ix) (jb_name job) (kind_of job) d (ix_skip_any ix))) (\<lambda>published.
     bind_io (job_targets ix job) (\<lambda>targets.
       ret (job, filter (\<lambda>t. active t d (Some (number anchor)) \<and> str_lower (target_addr t) \<notin> set published) targets)))"

definition put_target :: "target \<Rightarrow> token_dict \<Rightarrow> token_dict" where
  "put_target t m = (case t of TokenTarget c \<Rightarrow> token_dict_put c m | PoolTarget p \<Rightarrow> m)"

fun pending_discovery :: "'w indexer \<Rightarrow> (job_config \<times> target list) list \<Rightarrow> token_dict \<Rightarrow> token_dict res" where
  "pending_discovery ix [] pending = Inr pending"
| "pending_discovery ix ((job, todo) # plan) pending =
     bind_res (needs_holder_discovery ix job) (\<lambda>needed.
       pending_discovery ix plan (if needed then fold put_target todo pending else pending))"

definition run_one :: "'w indexer \<Rightarrow> date \<Rightarrow> block_ref \<Rightarrow> job_config \<times> target \<Rightarrow> ('w session, string + nat) io" where
  "run_one ix d anchor = (\<lambda>(job, target) s.
     case (case target of TokenTarget token \<Rightarrow> run_token (ix_runner ix) job token d anchor s
           | PoolTarget pool \<Rightarrow> run_pool (ix_runner ix) job pool d anchor s) of
       (Inl e, s1) \<Rightarrow>
         bind_io (record_target_failure ix (jb_name job) (kind_of job) (target_addr target) d e) (\<lambda>_.
           ret (Inl (jb_name job @ ''/'' @ target_label target @ '': '' @ exn_name (exn_class_of e)))) s1
     | (Inr attempt, s1) \<Rightarrow> (Inr (Inr attempt), s1))"

definition plan_items :: "(job_config \<times> target list) list \<Rightarrow> (job_config \<times> target) list" where
  "plan_items plan = concat (map (\<lambda>(job, todo). map (Pair job) todo) plan)"

definition failures_of :: "(string + nat) list \<Rightarrow> string list" where
  "failures_of results = concat (map (\<lambda>r. case r of Inl f \<Rightarrow> [f] | Inr _ \<Rightarrow> []) results)"

definition attempts_of :: "(string + nat) list \<Rightarrow> nat list" where
  "attempts_of results = concat (map (\<lambda>r. case r of Inl _ \<Rightarrow> [] | Inr a \<Rightarrow> [a]) results)"

text \<open>What comes before the first target: the anchor, the plan of every job, and the discovery it needs.\<close>

definition census_prepare ::
  "'w indexer \<Rightarrow> date \<Rightarrow> string option \<Rightarrow> ('w serving, block_ref \<times> (job_config \<times> target list) list) io" where
  "census_prepare ix d job_name =
     bind_io (on_session (service_resolve_anchor ix d)) (\<lambda>anchor.
     bind_io (lift_res (selected_jobs ix job_name)) (\<lambda>jobs.
     bind_io (map_io (plan_job ix d anchor) jobs) (\<lambda>plan.
     bind_io (lift_res (pending_discovery ix plan [])) (\<lambda>pending.
     bind_io (if pending \<noteq> []
              then bind_io (lift_res (with_active_aliases ix (map snd pending) d anchor)) (\<lambda>tokens.
                     on_session (advance_discovery ix tokens anchor))
              else ret ()) (\<lambda>_.
     bind_io (resolve_metadata_once ix) (\<lambda>_. ret (anchor, plan)))))))"

definition census :: "'w indexer \<Rightarrow> date \<Rightarrow> string option \<Rightarrow> ('w serving, nat list) io" where
  "census ix d job_name =
     bind_io (census_prepare ix d job_name) (\<lambda>(anchor, plan).
     bind_io (on_session (map_io (run_one ix d anchor) (plan_items plan))) (\<lambda>results.
       if failures_of results \<noteq> [] then raise (JobRunExn (failures_of results))
       else ret (attempts_of results)))"
subsection \<open>What the operations write\<close>

lemma journals_conj: "journals m R \<Longrightarrow> journals m Q \<Longrightarrow> journals m (\<lambda>l res. R l res \<and> Q l res)"
  unfolding journals_def by (metis same_append_eq)

lemma writes_journals: "writes P m \<Longrightarrow> journals m (\<lambda>l res. list_all P l)"
  by (auto simp: writes_def journals_def)

lemma writes_resolve_anchor: "writes not_publication (service_resolve_anchor ix d)"
  by (auto simp: service_resolve_anchor_def persist_anchor_def canonical_anchor_def insert_anchor_def Let_def not_publication_def
      intro!: writes_intros split: option.split)

lemma writes_targets_queries:
  "writes P (published_target_addresses db c j k d b)" "writes P (discovered_token_candidates db c)"
  "writes P (quarantined_token_targets db c j n)" "writes P (unresolved_metadata_addresses db c as)"
  by (auto simp: published_target_addresses_def discovered_token_candidates_def quarantined_token_targets_def
      unresolved_metadata_addresses_def Let_def intro!: writes_intros)

lemma writes_register_targets: "writes not_publication (register_targets r job ts)"
  by (auto simp: register_targets_def registry_rows_def register_configs_def not_publication_def intro!: writes_intros)

lemma writes_case_run:
  assumes "writes P m" "\<And>e. writes P (h e)" "\<And>x. writes P (f x)"
  shows "writes P (\<lambda>s. case m s of (Inl e, s1) \<Rightarrow> h e s1 | (Inr x, s1) \<Rightarrow> f x s1)"
  unfolding writes_def
proof (intro allI impI)
  fix s r s' assume b: "(case m s of (Inl e, s1) \<Rightarrow> h e s1 | (Inr x, s1) \<Rightarrow> f x s1) = (r, s')"
  obtain q s1 where m: "m s = (q, s1)" by fastforce
  from writesD [OF assms(1) m] obtain k where k: "ss_journal s1 = ss_journal s @ k" "list_all P k" by blast
  show "\<exists>l. ss_journal s' = ss_journal s @ l \<and> list_all P l"
  proof (cases q)
    case (Inl e)
    with b m have "h e s1 = (r, s')" by simp
    from writesD [OF assms(2) this] k show ?thesis by auto
  next
    case (Inr x)
    with b m have "f x s1 = (r, s')" by simp
    from writesD [OF assms(3) this] k show ?thesis by auto
  qed
qed

lemma writes_insert_metadata: "writes not_publication (insert_token_metadata db rows)"
  by (auto simp: insert_token_metadata_def not_publication_def intro!: writes_intros)

lemma writes_metadata_chunks: "writes not_publication (metadata_chunks ix anchor cs n)"
proof (induction cs arbitrary: n)
  case (Cons c cs)
  show ?case unfolding metadata_chunks.simps
    by (rule writes_case_run)
       (auto intro!: writes_intros writes_insert_metadata Cons)
qed (auto intro: writes_intros)

lemma writes_metadata_pass: "writes not_publication (metadata_pass ix)"
  by (auto simp: metadata_pass_def yesterday_def resolve_token_metadata_def
      intro!: writes_intros writes_resolve_anchor writes_targets_queries writes_metadata_chunks)

text \<open>The same for the service, through its session.\<close>

definition sjournals :: "('w serving, 'a) io \<Rightarrow> (insertion list \<Rightarrow> 'a res \<Rightarrow> bool) \<Rightarrow> bool" where
  "sjournals m R \<longleftrightarrow> (\<forall>s res s'. m s = (res, s') \<longrightarrow>
     (\<exists>l. ss_journal (sv_session s') = ss_journal (sv_session s) @ l \<and> R l res))"

lemma sjournalsD:
  "sjournals m R \<Longrightarrow> m s = (res, s') \<Longrightarrow> \<exists>l. ss_journal (sv_session s') = ss_journal (sv_session s) @ l \<and> R l res"
  by (simp add: sjournals_def)

lemma sjournals_mono: "sjournals m R \<Longrightarrow> (\<And>l res. R l res \<Longrightarrow> Q l res) \<Longrightarrow> sjournals m Q"
  unfolding sjournals_def by metis

lemma sjournals_session: "journals m R \<Longrightarrow> sjournals (on_session m) R"
  unfolding sjournals_def journals_def on_session_def by (auto split: prod.splits)

lemma sjournals_prim:
  "R [] (Inr x) \<Longrightarrow> sjournals (ret x) R" "R [] (Inl e) \<Longrightarrow> sjournals (raise e) R" "R [] r \<Longrightarrow> sjournals (lift_res r) R"
  by (auto simp: sjournals_def ret_def raise_def lift_res_def)

lemma sjournals_bind:
  assumes "sjournals m R1" and "\<And>l e. R1 l (Inl e) \<Longrightarrow> R l (Inl e)"
    and "\<And>x l s s1. R1 l (Inr x) \<Longrightarrow> m s = (Inr x, s1) \<Longrightarrow> sjournals (f x) (\<lambda>k. R (l @ k))"
  shows "sjournals (bind_io m f) R"
  unfolding sjournals_def
proof (intro allI impI)
  fix s res s' assume b: "bind_io m f s = (res, s')"
  obtain r1 s1 where m: "m s = (r1, s1)" by fastforce
  from sjournalsD [OF assms(1) m] obtain l where l: "ss_journal (sv_session s1) = ss_journal (sv_session s) @ l" "R1 l r1"
    by blast
  show "\<exists>l. ss_journal (sv_session s') = ss_journal (sv_session s) @ l \<and> R l res"
  proof (cases r1)
    case (Inl e)
    with b m l assms(2) show ?thesis by (auto simp: bind_io_def)
  next
    case (Inr x)
    with b m have "f x s1 = (res, s')" by (simp add: bind_io_def)
    from sjournalsD [OF assms(3) this] l(2) m Inr l(1) show ?thesis by fastforce
  qed
qed

abbreviation quietly :: "('w serving, 'a) io \<Rightarrow> bool" where
  "quietly m \<equiv> sjournals m (\<lambda>l _. list_all not_publication l)"

lemma quietly_session: "writes not_publication m \<Longrightarrow> quietly (on_session m)"
  by (rule sjournals_session [OF writes_journals])

lemma quietly_bind: "quietly m \<Longrightarrow> (\<And>x. quietly (f x)) \<Longrightarrow> quietly (bind_io m f)"
  by (erule sjournals_bind) (auto elim: sjournals_mono)

lemma quietly_prim: "quietly (ret x)" "quietly (raise e)" "quietly (lift_res r)"
  by (auto intro: sjournals_prim)

lemma quietly_Pair: "quietly (Pair r)"
  by (simp add: sjournals_def)

lemma quietly_discovered: "quietly (discovered_targets ix job)"
proof -
  have cache: "quietly (\<lambda>s1. (Inr resolved, s1\<lparr>sv_discovered := f s1\<rparr>))" for resolved f
    by (auto simp: sjournals_def)
  have "quietly (bind_io (on_session (discovered_token_candidates (ix_store ix) (ix_chain_id ix))) (\<lambda>candidates.
         let resolved = map snd (sort_key fst (discovered_dict ix candidates [])) in
         bind_io (if resolved \<noteq> []
                  then on_session (register_targets (ix_runner ix) job (map TokenTarget resolved)) else ret ()) (\<lambda>_ s1.
           (Inr resolved, s1\<lparr>sv_discovered := AList.update (jb_name job) resolved (sv_discovered s1)\<rparr>))))"
    unfolding Let_def
    by (auto intro!: quietly_bind quietly_session writes_targets_queries writes_register_targets quietly_prim cache)
  then show ?thesis
    unfolding discovered_targets_def sjournals_def by (auto split: option.split)
qed

lemma quietly_job_targets: "quietly (job_targets ix job)"
  by (auto simp: job_targets_def live_token_targets_def split: option.split
      intro!: quietly_bind quietly_prim quietly_Pair quietly_discovered quietly_session writes_targets_queries)

lemma quietly_metadata: "quietly (resolve_metadata_once ix)"
proof -
  have "quietly (on_session (catch_io (metadata_pass ix) (\<lambda>_. ret ())))"
    by (rule quietly_session) (auto intro!: writes_intros writes_metadata_pass)
  then show ?thesis
    unfolding resolve_metadata_once_def sjournals_def by (auto split: prod.splits)
qed

subsection \<open>Discovery before the census\<close>

text \<open>
  \<open>covered_in ix anchor c l\<close>: a stretch of \<open>l\<close> is the journal of an advance of \<open>c\<close> to the anchor that
  succeeded, so its coverage rows are backed by the holder observations before them and every block
  from the deployment to the anchor is covered for every event of the token.
\<close>

definition covered_in :: "'w indexer \<Rightarrow> block_ref \<Rightarrow> token_config \<Rightarrow> insertion list \<Rightarrow> bool" where
  "covered_in ix anchor c l \<longleftrightarrow> (\<exists>before stretch after. l = before @ stretch @ after
     \<and> backed ''discovery_ranges'' ''holder_universe'' (discovery_support (ix_logs ix) c) stretch
     \<and> (\<forall>ev \<in> set (tc_discovery_events c). event_covered (ix_logs ix) c
          (BlockRange (tc_deployment_block c) (number anchor + 1)) ev stretch))"

lemma covered_in_append: "covered_in ix anchor c l \<Longrightarrow> covered_in ix anchor c (k @ l @ m)"
proof -
  assume "covered_in ix anchor c l"
  then obtain a t b where l: "l = a @ t @ b"
    and t: "backed ''discovery_ranges'' ''holder_universe'' (discovery_support (ix_logs ix) c) t"
      "\<forall>ev \<in> set (tc_discovery_events c). event_covered (ix_logs ix) c
          (BlockRange (tc_deployment_block c) (number anchor + 1)) ev t"
    unfolding covered_in_def by blast
  have "k @ l @ m = (k @ a) @ t @ (b @ m)" by (simp add: l)
  with t show ?thesis unfolding covered_in_def by blast
qed

lemma writes_discovery: "writes not_publication (discovery_advance sv token n h)"
  unfolding discovery_advance_def event_advance_def discovery_scan_gap_def insert_discovery_ranges_def insert_holder_observations_def
  by (auto simp: not_publication_def Let_def intro!: writes_intros split: prod.split)

lemma discovery_advance_covers:
  assumes "0 < dv_chunk_size (ix_logs ix)"
  shows "journals (discovery_advance (ix_logs ix) token (number anchor) (block_hash anchor))
    (\<lambda>l res. list_all not_publication l \<and> ((\<exists>u. res = Inr u) \<longrightarrow> covered_in ix anchor token l))"
proof (rule journals_mono [OF journals_conj [OF writes_journals [OF writes_discovery] discovery_advance_journals [OF assms]]], goal_cases)
  case (1 l res)
  have "covered_in ix anchor token l" if "res = Inr u" for u
    unfolding covered_in_def using 1 that by (intro exI [of _ "[]"] exI [of _ l]) auto
  with 1 show ?case by blast
qed

lemma advance_tokens_covers:
  assumes "0 < dv_chunk_size (ix_logs ix)"
  shows "journals (advance_tokens ix tokens anchor failures) (\<lambda>l res. list_all not_publication l
    \<and> ((\<exists>u. res = Inr u) \<longrightarrow> failures = [] \<and> (\<forall>c \<in> set tokens. covered_in ix anchor c l)))"
proof (induction tokens arbitrary: failures)
  case Nil
  then show ?case by (auto simp: journals_def raise_def ret_def)
next
  case (Cons token tokens)
  show ?case
  proof (rule journalsI)
    fix s res s' assume run: "advance_tokens ix (token # tokens) anchor failures s = (res, s')"
    obtain q s1 where m: "discovery_advance (ix_logs ix) token (number anchor) (block_hash anchor) s = (q, s1)" by fastforce
    from journalsD [OF discovery_advance_covers [OF assms] m] obtain k where k: "ss_journal s1 = ss_journal s @ k"
      "list_all not_publication k" "(\<exists>u. q = Inr u) \<longrightarrow> covered_in ix anchor token k" by blast
    define fs where "fs = (case q of Inl e \<Rightarrow> failures @ [tc_symbol token @ '': '' @ exn_name (exn_class_of e)] | Inr _ \<Rightarrow> failures)"
    have "advance_tokens ix tokens anchor fs s1 = (res, s')"
      using run m by (auto simp: fs_def split: sum.splits)
    from journalsD [OF Cons.IH this] obtain l where l: "ss_journal s' = ss_journal s1 @ l" "list_all not_publication l"
      "(\<exists>u. res = Inr u) \<longrightarrow> fs = [] \<and> (\<forall>c \<in> set tokens. covered_in ix anchor c l)" by blast
    have "failures = [] \<and> (\<forall>c \<in> set (token # tokens). covered_in ix anchor c (k @ l))" if "res = Inr u" for u
    proof -
      from l(3) that have fs: "fs = []" and c: "\<forall>c \<in> set tokens. covered_in ix anchor c l" by auto
      from fs have "\<exists>u. q = Inr u" "failures = []" by (auto simp: fs_def split: sum.splits)
      with k(3) have "covered_in ix anchor token k" by blast
      with c \<open>failures = []\<close> covered_in_append [of ix anchor token k "[]" l] covered_in_append [of ix anchor _ l k "[]"]
      show ?thesis by auto
    qed
    with k l show "\<exists>l. ss_journal s' = ss_journal s @ l \<and> list_all not_publication l
        \<and> ((\<exists>u. res = Inr u) \<longrightarrow> failures = [] \<and> (\<forall>c \<in> set (token # tokens). covered_in ix anchor c l))"
      by (intro exI [of _ "k @ l"]) auto
  qed
qed

text \<open>Dictionaries of catalog tokens by address: an address has one entry, so an update never replaces another token.\<close>

definition catalog_keyed :: "catalog \<Rightarrow> bool" where
  "catalog_keyed cat \<longleftrightarrow> distinct (map fst (ct_tokens cat)) \<and> (\<forall>(k, c) \<in> set (ct_tokens cat). k = tc_address c)"

definition in_catalog :: "catalog \<Rightarrow> token_config \<Rightarrow> bool" where
  "in_catalog cat c \<longleftrightarrow> (tc_address c, c) \<in> set (ct_tokens cat)"

lemma in_catalog_unique:
  "catalog_keyed cat \<Longrightarrow> in_catalog cat c \<Longrightarrow> in_catalog cat c' \<Longrightarrow> tc_address c = tc_address c' \<Longrightarrow> c = c'"
  unfolding catalog_keyed_def in_catalog_def by (metis eq_key_imp_eq_value)

definition dict_ok :: "catalog \<Rightarrow> token_dict \<Rightarrow> bool" where
  "dict_ok cat m \<longleftrightarrow> (\<forall>(k, c) \<in> set m. k = tc_address c \<and> in_catalog cat c)"

lemma update_set:
  "(\<And>w. (k, w) \<in> set m \<Longrightarrow> w = v) \<Longrightarrow> set (AList.update k v m) = insert (k, v) (set m)"
  by (induction m) auto

lemma put_set:
  assumes "catalog_keyed cat" "dict_ok cat m" "in_catalog cat c"
  shows "set (token_dict_put c m) = insert (tc_address c, c) (set m)"
  unfolding token_dict_put_def
  by (rule update_set) (use assms in \<open>auto simp: dict_ok_def dest: in_catalog_unique\<close>)

lemma put_all_set:
  assumes "catalog_keyed cat" "dict_ok cat m" "\<forall>c \<in> set cs. in_catalog cat c"
  shows "set (fold token_dict_put cs m) = (\<lambda>c. (tc_address c, c)) ` set cs \<union> set m"
  using assms(2,3)
proof (induction cs arbitrary: m)
  case (Cons c cs)
  have s: "set (token_dict_put c m) = insert (tc_address c, c) (set m)"
    using Cons.prems by (intro put_set [OF assms(1)]) auto
  then have "dict_ok cat (token_dict_put c m)" using Cons.prems by (auto simp: dict_ok_def)
  with Cons.IH [OF this] Cons.prems s show ?case by auto
qed simp

lemma add_aliases_set:
  assumes "catalog_keyed (ix_catalog ix)" "dict_ok (ix_catalog ix) m" "add_aliases ix d anchor names m = Inr m'"
  shows "dict_ok (ix_catalog ix) m' \<and> set m \<subseteq> set m' \<and> (\<forall>name \<in> set names. \<forall>al.
    map_of (ct_tokens (ix_catalog ix)) name = Some al \<longrightarrow> active (TokenTarget al) d (Some (number anchor)) \<longrightarrow> (name, al) \<in> set m')"
  using assms(2,3)
proof (induction names arbitrary: m)
  case (Cons name names)
  from Cons.prems(2) obtain al where al: "map_of (ct_tokens (ix_catalog ix)) name = Some al"
    by (auto simp: bind_res_Inr lookup_key_def split: option.splits)
  let ?m = "if active (TokenTarget al) d (Some (number anchor)) \<and> name \<notin> fst ` set m then m @ [(name, al)] else m"
  from al assms(1) have key: "name = tc_address al" "in_catalog (ix_catalog ix) al"
    by (auto simp: catalog_keyed_def in_catalog_def dest!: map_of_SomeD)
  with Cons.prems(1) have ok: "dict_ok (ix_catalog ix) ?m" by (auto simp: dict_ok_def)
  from Cons.prems(2) al have "add_aliases ix d anchor names ?m = Inr m'" by (simp add: lookup_key_def)
  note IH = Cons.IH [OF ok this]
  have "(name, al) \<in> set ?m" if "active (TokenTarget al) d (Some (number anchor))"
  proof (cases "name \<in> fst ` set m")
    case True
    then obtain c where "(name, c) \<in> set m" by auto
    with Cons.prems(1) have "name = tc_address c" "in_catalog (ix_catalog ix) c" by (auto simp: dict_ok_def)
    with key in_catalog_unique [OF assms(1)] have "c = al" by metis
    with \<open>(name, c) \<in> set m\<close> show ?thesis by simp
  qed (use that in simp)
  with IH al have "active (TokenTarget al) d (Some (number anchor)) \<Longrightarrow> (name, al) \<in> set m'" by blast
  with IH al show ?case by auto
qed simp

lemma with_active_aliases_set:
  assumes "catalog_keyed (ix_catalog ix)" "\<forall>c \<in> set cs. in_catalog (ix_catalog ix) c" "with_active_aliases ix cs d anchor = Inr ts"
  shows "set cs \<subseteq> set ts \<and> (\<forall>c \<in> set cs. \<forall>name \<in> set (tc_universe_aliases c). \<forall>al.
    map_of (ct_tokens (ix_catalog ix)) name = Some al \<longrightarrow> active (TokenTarget al) d (Some (number anchor)) \<longrightarrow> al \<in> set ts)"
proof -
  define sel where "sel = fold token_dict_put cs []"
  from put_all_set [OF assms(1) _ assms(2), of "[]"] have m: "set sel = (\<lambda>c. (tc_address c, c)) ` set cs"
    by (simp add: dict_ok_def sel_def)
  with assms(2) have ok: "dict_ok (ix_catalog ix) sel" by (auto simp: dict_ok_def)
  from assms(3) obtain m' where m': "add_aliases ix d anchor (concat (map (tc_universe_aliases \<circ> snd) sel)) sel = Inr m'"
    "ts = sort_key tc_address (map snd m')" by (auto simp: with_active_aliases_def Let_def bind_res_Inr sel_def)
  have ts: "set ts = snd ` set m'" by (simp add: m'(2))
  note a = add_aliases_set [OF assms(1) ok m'(1)]
  have sub: "c \<in> set ts" if "c \<in> set cs" for c
  proof -
    have "(tc_address c, c) \<in> set sel" unfolding m using that by (rule imageI)
    with a have "(tc_address c, c) \<in> set m'" by blast
    then have "snd (tc_address c, c) \<in> snd ` set m'" by (rule imageI)
    then show ?thesis by (simp add: ts)
  qed
  have "al \<in> set ts" if c: "c \<in> set cs" and n: "name \<in> set (tc_universe_aliases c)"
    and al: "map_of (ct_tokens (ix_catalog ix)) name = Some al" "active (TokenTarget al) d (Some (number anchor))" for c name al
  proof -
    have "(tc_address c, c) \<in> set sel" unfolding m using c by (rule imageI)
    then have "name \<in> set (concat (map (tc_universe_aliases \<circ> snd) sel))" using n by (auto intro!: bexI [of _ "(tc_address c, c)"])
    with a al have "(name, al) \<in> set m'" by blast
    then have "snd (name, al) \<in> snd ` set m'" by (rule imageI)
    then show ?thesis by (simp add: ts)
  qed
  with sub show ?thesis by blast
qed

end
