(* ===== verification/CensusDay.thy ===== *)
theory CensusDay
  imports Orchestration
begin

text \<open>
  The census of a date: what \<open>IndexerService.census\<close> guarantees as a whole. It plans from the catalog
  and the store, completes the holder discovery that the plan needs before anything is published,
  attempts every planned target, and reports exactly the failures.
\<close>

subsection \<open>What is planned\<close>

definition planned :: "'w indexer \<Rightarrow> date \<Rightarrow> block_ref \<Rightarrow> job_config \<Rightarrow> job_config \<times> target list \<Rightarrow> bool" where
  "planned ix d anchor job entry \<longleftrightarrow> (\<exists>targets published s s1 t t1.
     job_targets ix job s = (Inr targets, s1)
     \<and> published_target_addresses (ix_store ix) (ix_chain_id ix) (jb_name job) (kind_of job) d (ix_skip_any ix) t = (Inr published, t1)
     \<and> entry = (job, filter (\<lambda>t. active t d (Some (number anchor)) \<and> str_lower (target_addr t) \<notin> set published) targets))"

lemma on_session_Inr: "on_session m s = (Inr x, s1) \<Longrightarrow> \<exists>t t1. m t = (Inr x, t1)"
  by (auto simp: on_session_def split: prod.splits)

lemma plan_job_planned: "plan_job ix d anchor job s = (Inr entry, s1) \<Longrightarrow> planned ix d anchor job entry"
  unfolding plan_job_def planned_def by (auto simp: io_simps ret_def dest!: on_session_Inr)

lemma quietly_map_io: "(\<And>x. quietly (f x)) \<Longrightarrow> quietly (map_io f xs)"
  by (induction xs) (auto intro!: quietly_prim quietly_bind)

lemma quietly_plan_job: "quietly (plan_job ix d anchor job)"
  unfolding plan_job_def
  by (auto intro!: quietly_bind quietly_prim quietly_session writes_targets_queries quietly_job_targets)

text \<open>A job that needs holder discovery only selects tokens of the catalog.\<close>

lemma needs_discovery_tokens:
  assumes "needs_holder_discovery ix job = Inr True" and "catalog_keyed (ix_catalog ix)"
    and "planned ix d anchor job (job', todo)"
  shows "\<exists>cs. todo = map TokenTarget cs \<and> (\<forall>c \<in> set cs. in_catalog (ix_catalog ix) c)"
proof -
  from assms(1) obtain selector where sel: "jb_token_selector job = Some selector" "\<not> ts_discovered selector"
    and kind: "jb_target_kind job = TOKENS"
    by (auto simp: needs_holder_discovery_def split: option.splits if_splits)
  from assms(3) sel kind obtain ts P where ts: "token_targets (ix_catalog ix) job = Inr ts"
    and todo: "todo = filter P (map TokenTarget ts)"
    by (auto simp: planned_def job_targets_def live_token_targets_def io_simps ret_def lift_res_def)
  have "in_catalog (ix_catalog ix) c" if "c \<in> set ts" for c
    using token_targets_sound [OF ts that] assms(2) by (auto simp: catalog_keyed_def in_catalog_def)
  with todo show ?thesis
    by (intro exI [of _ "filter (P \<circ> TokenTarget) ts"]) (auto simp: filter_map)
qed

lemma put_targets: "fold put_target (map TokenTarget cs) m = fold token_dict_put cs m"
  by (induction cs arbitrary: m) (simp_all add: put_target_def)

lemma pending_discovery_set:
  assumes "catalog_keyed (ix_catalog ix)" and "dict_ok (ix_catalog ix) m"
    and "pending_discovery ix plan m = Inr m'" and "\<forall>(job, todo) \<in> set plan. planned ix d anchor job (job, todo)"
  shows "dict_ok (ix_catalog ix) m' \<and> set m \<subseteq> set m'
    \<and> (\<forall>(job, todo) \<in> set plan. needs_holder_discovery ix job = Inr True \<longrightarrow>
         (\<forall>c. TokenTarget c \<in> set todo \<longrightarrow> (tc_address c, c) \<in> set m'))"
  using assms(2-4)
proof (induction plan arbitrary: m)
  case (Cons entry plan)
  obtain job todo where entry: "entry = (job, todo)" by fastforce
  from Cons.prems(2) obtain needed where needed: "needs_holder_discovery ix job = Inr needed"
    and rest: "pending_discovery ix plan (if needed then fold put_target todo m else m) = Inr m'"
    by (auto simp: entry bind_res_Inr)
  have pl: "planned ix d anchor job (job, todo)" using Cons.prems(3) by (simp add: entry)
  show ?case
  proof (cases needed)
    case False
    with rest Cons.IH [OF Cons.prems(1)] Cons.prems(3) needed show ?thesis by (auto simp: entry)
  next
    case True
    from needs_discovery_tokens [OF _ assms(1) pl] needed True obtain cs where
      cs: "todo = map TokenTarget cs" "\<forall>c \<in> set cs. in_catalog (ix_catalog ix) c" by auto
    from put_all_set [OF assms(1) Cons.prems(1) cs(2)] have put:
      "set (fold token_dict_put cs m) = (\<lambda>c. (tc_address c, c)) ` set cs \<union> set m" .
    then have "dict_ok (ix_catalog ix) (fold token_dict_put cs m)" using Cons.prems(1) cs(2) by (auto simp: dict_ok_def)
    moreover from rest True have "pending_discovery ix plan (fold token_dict_put cs m) = Inr m'"
      by (simp add: cs(1) put_targets)
    ultimately have IH: "dict_ok (ix_catalog ix) m'" "set (fold token_dict_put cs m) \<subseteq> set m'"
      "\<forall>(job, todo) \<in> set plan. needs_holder_discovery ix job = Inr True \<longrightarrow>
         (\<forall>c. TokenTarget c \<in> set todo \<longrightarrow> (tc_address c, c) \<in> set m')"
      using Cons.IH Cons.prems(3) by auto
    have "(tc_address c, c) \<in> set m'" if "TokenTarget c \<in> set todo" for c
    proof -
      from that have "c \<in> set cs" by (auto simp: cs(1))
      with IH(2) put show ?thesis by blast
    qed
    with IH put show ?thesis by (simp add: entry)
  qed
qed simp

text \<open>The dictionary of tokens of every loaded catalog is keyed by address.\<close>

lemma loaded_catalog_keyed:
  "load_catalog csv dir chain ts ps us js sws = Inr cat \<Longrightarrow> catalog_keyed cat"
  by (auto simp: load_catalog_def bind_res_Inr each_Inr Let_def catalog_keyed_def comp_def split: if_splits)

subsection \<open>Discovery comes first\<close>

text \<open>The token, and every active alias of it, was advanced to the anchor.\<close>

definition discovered_in :: "'w indexer \<Rightarrow> date \<Rightarrow> block_ref \<Rightarrow> token_config \<Rightarrow> insertion list \<Rightarrow> bool" where
  "discovered_in ix d anchor c l \<longleftrightarrow> covered_in ix anchor c l \<and> (\<forall>name \<in> set (tc_universe_aliases c). \<forall>al.
     map_of (ct_tokens (ix_catalog ix)) name = Some al \<longrightarrow> active (TokenTarget al) d (Some (number anchor))
       \<longrightarrow> covered_in ix anchor al l)"

lemma discovered_in_append: "discovered_in ix d anchor c l \<Longrightarrow> discovered_in ix d anchor c (k @ l @ m)"
  unfolding discovered_in_def by (meson covered_in_append)

abbreviation prep :: "('a \<Rightarrow> insertion list \<Rightarrow> bool) \<Rightarrow> ('w serving, 'a) io \<Rightarrow> bool" where
  "prep B m \<equiv> sjournals m (\<lambda>l res. list_all not_publication l \<and> (\<forall>y. res = Inr y \<longrightarrow> B y l))"

lemma prep_step:
  assumes "quietly m" and "\<And>x s s1. m s = (Inr x, s1) \<Longrightarrow> prep B (f x)"
    and "\<And>y k l. B y l \<Longrightarrow> B y (k @ l)"
  shows "prep B (bind_io m f)"
proof (rule sjournals_bind [OF assms(1)])
  fix x l s s1 assume "list_all not_publication l" "m s = (Inr x, s1)"
  then show "sjournals (f x) (\<lambda>k res. list_all not_publication (l @ k) \<and> (\<forall>y. res = Inr y \<longrightarrow> B y (l @ k)))"
    using assms(3) by (intro sjournals_mono [OF assms(2)]) auto
qed simp

lemma prep_then:
  fixes m :: "('w serving, 'a) io" and f :: "'a \<Rightarrow> ('w serving, 'b) io"
  assumes "prep (\<lambda>_. C) m" and "\<And>x. quietly (f x)" and "\<And>x s y s1. f x s = (Inr y, s1) \<Longrightarrow> y = z"
    and "\<And>k l. C l \<Longrightarrow> B z (l @ k)"
  shows "prep B (bind_io m f)"
proof (rule sjournals_bind [OF assms(1)])
  fix x :: 'a and l s s1 assume l: "list_all not_publication l \<and> (\<forall>y. Inr x = Inr y \<longrightarrow> C l)"
  show "sjournals (f x) (\<lambda>k res. list_all not_publication (l @ k) \<and> (\<forall>y. res = Inr y \<longrightarrow> B y (l @ k)))"
    unfolding sjournals_def
  proof (intro allI impI)
    fix s res s' assume run: "f x s = (res, s')"
    from sjournalsD [OF assms(2) run] obtain k where "ss_journal (sv_session s') = ss_journal (sv_session s) @ k"
      "list_all not_publication k" by blast
    with l run assms(3,4) show "\<exists>k. ss_journal (sv_session s') = ss_journal (sv_session s) @ k
        \<and> list_all not_publication (l @ k) \<and> (\<forall>y. res = Inr y \<longrightarrow> B y (l @ k))" by auto
  qed
qed simp

definition prepared ::
  "'w indexer \<Rightarrow> date \<Rightarrow> string option \<Rightarrow> block_ref \<times> (job_config \<times> target list) list \<Rightarrow> insertion list \<Rightarrow> bool" where
  "prepared ix d job_name = (\<lambda>(anchor, plan) l.
     (\<exists>t t1. service_resolve_anchor ix d t = (Inr anchor, t1))
     \<and> (\<exists>jobs. selected_jobs ix job_name = Inr jobs \<and> list_all2 (planned ix d anchor) jobs plan)
     \<and> (\<forall>(job, todo) \<in> set plan. needs_holder_discovery ix job = Inr True \<longrightarrow>
          (\<forall>c. TokenTarget c \<in> set todo \<longrightarrow> discovered_in ix d anchor c l)))"

lemma prepared_append: "prepared ix d job_name y l \<Longrightarrow> prepared ix d job_name y (k @ l)"
  using discovered_in_append [where m = "[]"] unfolding prepared_def by fastforce


lemma quietly_resolve: "quietly (on_session (service_resolve_anchor ix d))"
  by (rule quietly_session [OF writes_resolve_anchor])

lemma prepares_discovery:
  assumes "catalog_keyed (ix_catalog ix)" and "0 < dv_chunk_size (ix_logs ix)"
    and anchor: "service_resolve_anchor ix d t = (Inr anchor, t1)"
    and jobs: "selected_jobs ix job_name = Inr jobs" "list_all2 (planned ix d anchor) jobs plan"
    and pending: "pending_discovery ix plan [] = Inr pending"
  shows "prep (\<lambda>_. prepared ix d job_name (anchor, plan))
    (if pending \<noteq> [] then bind_io (lift_res (with_active_aliases ix (map snd pending) d anchor)) (\<lambda>tokens.
                     on_session (advance_discovery ix tokens anchor))
     else ret ())"
proof -
  from jobs(2) have each: "\<forall>(job, todo) \<in> set plan. planned ix d anchor job (job, todo)"
    by (induction rule: list_all2_induct) (auto simp: planned_def)
  from pending_discovery_set [OF assms(1) _ pending each]
  have set: "\<forall>(job, todo) \<in> set plan. needs_holder_discovery ix job = Inr True \<longrightarrow>
       (\<forall>c. TokenTarget c \<in> set todo \<longrightarrow> (tc_address c, c) \<in> set pending)"
    and ok: "dict_ok (ix_catalog ix) pending" by (auto simp: dict_ok_def)
  have B: "prepared ix d job_name (anchor, plan) l"
    if "\<And>c. (tc_address c, c) \<in> set pending \<Longrightarrow> discovered_in ix d anchor c l" for l
    unfolding prepared_def prod.case using anchor jobs set that by blast
  show ?thesis
  proof (cases "pending = []")
    case True
    with B show ?thesis by (auto intro!: sjournals_prim)
  next
    case False
    have cat: "\<forall>c \<in> set (map snd pending). in_catalog (ix_catalog ix) c" using ok by (auto simp: dict_ok_def)
    have "prep (\<lambda>_. prepared ix d job_name (anchor, plan)) (bind_io (lift_res (with_active_aliases ix (map snd pending) d anchor))
      (\<lambda>tokens. on_session (advance_discovery ix tokens anchor)))"
    proof (rule prep_step [OF quietly_prim(3)], goal_cases)
      case (1 tokens s s1)
      then have tokens: "with_active_aliases ix (map snd pending) d anchor = Inr tokens" by (simp add: lift_res_Inr)
      note covers = with_active_aliases_set [OF assms(1) cat tokens]
      show ?case unfolding advance_discovery_def
      proof (rule sjournals_mono [OF sjournals_session [OF advance_tokens_covers [OF assms(2)]]], goal_cases)
        case (1 l res)
        have "prepared ix d job_name (anchor, plan) l" if "res = Inr u" for u
        proof (rule B)
          fix c assume "(tc_address c, c) \<in> set pending"
          then have c: "c \<in> set (map snd pending)" by force
          from 1 that have "\<forall>c \<in> set tokens. covered_in ix anchor c l" by blast
          with covers c show "discovered_in ix d anchor c l" unfolding discovered_in_def by blast
        qed
        with 1 show ?case by blast
      qed
    qed (rule prepared_append)
    with False show ?thesis by simp
  qed
qed

lemma census_prepare_journals:
  assumes "catalog_keyed (ix_catalog ix)" and "0 < dv_chunk_size (ix_logs ix)"
  shows "prep (prepared ix d job_name) (census_prepare ix d job_name)"
  unfolding census_prepare_def
proof (rule prep_step [OF quietly_resolve], goal_cases)
  case (1 anchor s s1)
  then obtain t t1 where anchor: "service_resolve_anchor ix d t = (Inr anchor, t1)" by (auto dest: on_session_Inr)
  show ?case
  proof (rule prep_step [OF quietly_prim(3)], goal_cases)
    case (1 jobs s s1)
    then have jobs: "selected_jobs ix job_name = Inr jobs" by (simp add: lift_res_Inr)
    show ?case
    proof (rule prep_step [OF quietly_map_io [OF quietly_plan_job]], goal_cases)
      case (1 plan s s1)
      then have plan: "list_all2 (planned ix d anchor) jobs plan"
        by (rule map_io_all) (rule plan_job_planned)
      show ?case
      proof (rule prep_step [OF quietly_prim(3)], goal_cases)
        case (1 pending s s1)
        then have pending: "pending_discovery ix plan [] = Inr pending" by (simp add: lift_res_Inr)
        show ?case
        proof (rule prep_then [OF prepares_discovery [OF assms anchor jobs plan pending], where z = "(anchor, plan)"], goal_cases)
          case (1 x)
          show ?case by (intro quietly_bind quietly_metadata quietly_prim)
        next
          case (2 x s y s1)
          then show ?case by (auto simp: io_simps ret_def)
        next
          case (3 k l)
          then show ?case using discovered_in_append [of ix d anchor _ l "[]"] unfolding prepared_def prod.case by fastforce
        qed
      qed (rule prepared_append)
    qed (rule prepared_append)
  qed (rule prepared_append)
qed (rule prepared_append)


subsection \<open>Every planned target is attempted\<close>

text \<open>
  What one attempt writes and gives: the outcome that \<open>run_token\<close> and \<open>run_pool\<close> are verified to have,
  for this job and target at this anchor.
\<close>

definition target_attempt ::
  "'w indexer \<Rightarrow> date \<Rightarrow> block_ref \<Rightarrow> job_config \<Rightarrow> target \<Rightarrow> insertion list \<Rightarrow> nat res \<Rightarrow> bool" where
  "target_attempt ix d anchor job target l res \<longleftrightarrow> (let r = ix_runner ix in
     (case target of
        TokenTarget c \<Rightarrow> (\<exists>i h u kind started w w' selector. jb_universe job = Some selector
            \<and> resolve_universe (cn_universes r) selector (tc_address c) (number anchor) w = (Inr u, w')
            \<and> attempt_of (token_outcome r (attempt_base r i job ''token'' (tc_address c) d anchor h u kind started)
                i job c d anchor u) l res \<and> (\<forall>j. res = Inr j \<longrightarrow> j = i))
      | PoolTarget p \<Rightarrow> (\<exists>i h u kind started. empty_universe = Inr u
            \<and> attempt_of (pool_outcome r (attempt_base r i job ''pool'' (pc_address p) d anchor h u kind started)
                i job p d anchor u) l res \<and> (\<forall>j. res = Inr j \<longrightarrow> j = i)))
     \<or> l = [] \<and> (\<exists>e. res = Inl e))"

text \<open>
  The run of one target of the census: a successful attempt, or a failed one followed by at most the
  row that records its error, and labelled with job, target and error class.
\<close>

definition target_run ::
  "'w indexer \<Rightarrow> date \<Rightarrow> block_ref \<Rightarrow> job_config \<times> target \<Rightarrow> (string + nat) \<times> insertion list \<Rightarrow> bool" where
  "target_run ix d anchor = (\<lambda>(job, target) (outcome, l).
     case outcome of
       Inr i \<Rightarrow> target_attempt ix d anchor job target l (Inr i)
     | Inl label \<Rightarrow> (\<exists>e k errors. l = k @ errors \<and> target_attempt ix d anchor job target k (Inl e)
          \<and> label = jb_name job @ ''/'' @ target_label target @ '': '' @ exn_name (exn_class_of e)
          \<and> (errors = [] \<or> (\<exists>i t. errors = [(''census_errors'',
                [failure_row ix (jb_name job) (kind_of job) (target_addr target) d e i t])]))))"

definition attempt_target ::
  "'w indexer \<Rightarrow> date \<Rightarrow> block_ref \<Rightarrow> job_config \<Rightarrow> target \<Rightarrow> ('w session, nat) io" where
  "attempt_target ix d anchor job target =
     (case target of TokenTarget token \<Rightarrow> run_token (ix_runner ix) job token d anchor
      | PoolTarget pool \<Rightarrow> run_pool (ix_runner ix) job pool d anchor)"

lemma attempt_target_journals:
  assumes "mk_universe_resolver c us (holder_members (ix_store ix)) el seeds aliases = Inr (cn_universes (ix_runner ix))"
  shows "journals (attempt_target ix d anchor job target) (target_attempt ix d anchor job target)"
proof (cases target)
  case (TokenTarget token)
  show ?thesis unfolding attempt_target_def TokenTarget target.case
    by (rule journals_mono [OF run_token_journals [OF assms [unfolded ix_store_def]]])
       (unfold target_attempt_def Let_def target.case, blast)
next
  case (PoolTarget pool)
  show ?thesis unfolding attempt_target_def PoolTarget target.case
    by (rule journals_mono [OF run_pool_journals]) (unfold target_attempt_def Let_def target.case, blast)
qed

lemma record_target_failure_journals:
  "journals (record_target_failure ix job_name kind address d e) (\<lambda>l res. (\<exists>u. res = Inr u)
     \<and> (l = [] \<or> (\<exists>i t. l = [(''census_errors'', [failure_row ix job_name kind address d e i t])])))"
  unfolding record_target_failure_def
proof (rule journals_catch)
  show "journals
     (bind_io (uuid4 (ix_runner ix)) (\<lambda>attempt_id.
        bind_io (now_utc (ix_runner ix)) (\<lambda>terminal_at.
        bind_io (insert_terminal_errors (ix_store ix)
                   [failure_row ix job_name kind address d e attempt_id terminal_at]) (\<lambda>_. ret ()))))
     (\<lambda>l res. l = [] \<or> (\<exists>i t. l = [(''census_errors'', [failure_row ix job_name kind address d e i t])]))"
    unfolding insert_terminal_errors_def
  proof (rule journals_silent)
    fix i
    show "journals (bind_io (now_utc (ix_runner ix)) (\<lambda>terminal_at.
        bind_io (insert_rows (ix_store ix) ''census_errors'' [failure_row ix job_name kind address d e i terminal_at] None)
          (\<lambda>_. ret ())))
     (\<lambda>l res. l = [] \<or> (\<exists>i t. l = [(''census_errors'', [failure_row ix job_name kind address d e i t])]))"
    proof (rule journals_silent)
      fix t
      show "journals (bind_io (insert_rows (ix_store ix) ''census_errors'' [failure_row ix job_name kind address d e i t] None)
          (\<lambda>_. ret ())) (\<lambda>l res. l = [] \<or> (\<exists>i t. l = [(''census_errors'', [failure_row ix job_name kind address d e i t])]))"
        by (rule journals_mono [OF insert_row_journals]) blast
    qed (auto intro: writes_intros)
  qed (auto intro: writes_intros)
next
  fix l and f :: exn
  assume "l = [] \<or> (\<exists>i t. l = [(''census_errors'', [failure_row ix job_name kind address d e i t])])"
  then show "journals (ret ()) (\<lambda>k res. (\<exists>u. res = Inr u)
     \<and> (l @ k = [] \<or> (\<exists>i t. l @ k = [(''census_errors'', [failure_row ix job_name kind address d e i t])])))"
    by (simp add: journals_def ret_def)
qed auto

lemma run_one_journals:
  assumes "mk_universe_resolver c us (holder_members (ix_store ix)) el seeds aliases = Inr (cn_universes (ix_runner ix))"
  shows "journals (run_one ix d anchor item) (\<lambda>l res. \<exists>outcome. res = Inr outcome \<and> target_run ix d anchor item (outcome, l))"
proof (rule journalsI)
  fix s res s' assume run: "run_one ix d anchor item s = (res, s')"
  obtain job target where item: "item = (job, target)" by fastforce
  obtain q s1 where m: "attempt_target ix d anchor job target s = (q, s1)" by fastforce
  then have m': "(case target of TokenTarget token \<Rightarrow> run_token (ix_runner ix) job token d anchor s
           | PoolTarget pool \<Rightarrow> run_pool (ix_runner ix) job pool d anchor s) = (q, s1)"
    by (cases target) (simp_all add: attempt_target_def)
  from journalsD [OF attempt_target_journals [OF assms] m] obtain k where
    k: "ss_journal s1 = ss_journal s @ k" "target_attempt ix d anchor job target k q" by blast
  show "\<exists>l. ss_journal s' = ss_journal s @ l \<and> (\<exists>outcome. res = Inr outcome \<and> target_run ix d anchor item (outcome, l))"
  proof (cases q)
    case (Inr i)
    with run m' have "res = Inr (Inr i)" "s' = s1" by (simp_all add: run_one_def item)
    with k Inr show ?thesis by (auto simp: target_run_def item)
  next
    case (Inl e)
    obtain q2 s2 where f: "record_target_failure ix (jb_name job) (kind_of job) (target_addr target) d e s1 = (q2, s2)"
      by fastforce
    from journalsD [OF record_target_failure_journals f] obtain l where l: "ss_journal s2 = ss_journal s1 @ l"
      "\<exists>u. q2 = Inr u" "l = [] \<or> (\<exists>i t. l = [(''census_errors'',
         [failure_row ix (jb_name job) (kind_of job) (target_addr target) d e i t])])" by blast
    with run m' Inl f have "res = Inr (Inl (jb_name job @ ''/'' @ target_label target @ '': '' @ exn_name (exn_class_of e)))" "s' = s2"
      by (auto simp: run_one_def item bind_io_def ret_def)
    moreover have "target_run ix d anchor item (Inl (jb_name job @ ''/'' @ target_label target @ '': '' @ exn_name (exn_class_of e)), k @ l)"
      unfolding target_run_def item prod.case sum.case using k(2) l(3) Inl
      by (intro exI [of _ e] exI [of _ k] exI [of _ l]) simp
    ultimately show ?thesis using k(1) l(1) by (intro exI [of _ "k @ l"]) auto
  qed
qed

lemma run_all_journals:
  assumes "mk_universe_resolver c us (holder_members (ix_store ix)) el seeds aliases = Inr (cn_universes (ix_runner ix))"
  shows "journals (map_io (run_one ix d anchor) items) (\<lambda>l res. \<exists>runs. res = Inr (map fst runs)
     \<and> l = concat (map snd runs) \<and> list_all2 (target_run ix d anchor) items runs)"
proof (induction items)
  case Nil
  then show ?case by (auto simp: journals_def ret_def)
next
  case (Cons item items)
  show ?case
  proof (rule journalsI)
    fix s res s' assume run: "map_io (run_one ix d anchor) (item # items) s = (res, s')"
    obtain q s1 where m: "run_one ix d anchor item s = (q, s1)" by fastforce
    from journalsD [OF run_one_journals [OF assms] m] obtain k outcome where
      k: "ss_journal s1 = ss_journal s @ k" "q = Inr outcome" "target_run ix d anchor item (outcome, k)" by blast
    obtain q2 s2 where m2: "map_io (run_one ix d anchor) items s1 = (q2, s2)" by fastforce
    from journalsD [OF Cons.IH m2] obtain runs where
      l: "ss_journal s2 = ss_journal s1 @ concat (map snd runs)" "q2 = Inr (map fst runs)"
      "list_all2 (target_run ix d anchor) items runs" by blast
    from run m m2 k(2) l(2) have "res = Inr (outcome # map fst runs)" "s' = s2"
      by (simp_all add: bind_io_def ret_def)
    with k l show "\<exists>l. ss_journal s' = ss_journal s @ l \<and> (\<exists>runs. res = Inr (map fst runs)
       \<and> l = concat (map snd runs) \<and> list_all2 (target_run ix d anchor) (item # items) runs)"
      by (intro exI [of _ "k @ concat (map snd runs)"] conjI exI [of _ "(outcome, k) # runs"]) simp_all
  qed
qed

subsection \<open>The census property\<close>



subsection \<open>A census that publishes\<close>

definition sample_indexer :: "unit indexer" where
  "sample_indexer = \<lparr>ix_runner = sample_runner, ix_logs = sample_service\<lparr>dv_rpc_call := sample_chain_caller\<rparr>,
     ix_csv = no_csv, ix_skip_any = False, ix_quarantine = 3\<rparr>"

lemma sample_parts:
  "ix_runner sample_indexer = sample_runner" "ix_store sample_indexer = sample_client" "ix_catalog sample_indexer = daily_catalog"
  by (simp_all add: sample_indexer_def ix_store_def ix_catalog_def sample_runner_def)

lemma sample_keyed: "catalog_keyed (ix_catalog sample_indexer)"
  unfolding sample_parts by (simp add: catalog_keyed_def daily_catalog_def sample_catalog_def sample_token_def discovered_token_config_def)

lemma sample_anchor: "yields (service_resolve_anchor sample_indexer 1) (sample_block 1)"
proof -
  have day: "utc_day_end_timestamp 1 = Inr 172800" by (simp add: utc_day_end_timestamp_def date_max_def)
  have resolver: "mk_resolver (ch_finality_tag (ct_chain daily_catalog)) (ch_fallback_confirmation_depth (ct_chain daily_catalog))
      = Inr sample_resolver"
    by (simp add: mk_resolver_def daily_catalog_def sample_chain_def sample_resolver_def)
  obtain r where r: "resolve sample_chain_caller sample_resolver 1 () = (Inr r, ())" "ra_anchor r = sample_block 1"
  proof -
    from honest_resolve [of sample_chain_caller sample_resolver sample_block 2, OF _ _ day] sample_chain_honest
    obtain r s' k where k: "resolve sample_chain_caller sample_resolver 1 () = (Inr r, s')" "0 \<le> k" "k < 2"
      "ra_anchor r = sample_block k" "172800 \<le> timestamp (sample_block (k + 1))"
      by (fastforce simp: sample_resolver_def sample_block_def)
    from k(2,3,5) have "k = 1" by (simp add: sample_block_def)
    with k that show ?thesis by simp
  qed
  have on: "yields (on_world (resolve (dv_rpc_call (ix_logs sample_indexer)) sample_resolver 1)) r"
    by (rule yields_on_world) (simp add: sample_indexer_def r)
  have now: "yields (on_world (db_now sample_client)) 0" "yields (on_world (db_uuid4 sample_client)) 5"
    by (auto simp: sample_client_def ret_def intro!: yields_on_world)
  have "yields (canonical_anchor sample_client (ix_chain_id sample_indexer) (ra_snapshot_date r)) None"
    unfolding canonical_anchor_def by (rule yields_bind [OF yields_query]) (simp add: sample_answers_def yields_prim)
  then have "yields (persist_anchor sample_client (ix_chain_id sample_indexer) r) (sample_block 1)"
    unfolding persist_anchor_def insert_anchor_def Let_def r(2)
    apply (rule yields_bind)
    apply (simp only: option.case)
    apply (rule yields_bind [OF now(2)])
    apply (rule yields_bind [OF now(1)])
    apply (rule yields_bind [OF yields_insert])
    apply (rule rows_fit_all)
    apply (simp add: known_tables [simplified])
    apply (simp add: all_columns_simps insert_commute)
    apply (simp_all add: yields_prim)
    done
  then show ?thesis
    unfolding service_resolve_anchor_def Let_def sample_parts resolver
    by (intro yields_bind [OF yields_prim(2)] yields_bind [OF on])
qed


text \<open>Returning from every state of the service.\<close>

definition syields :: "('w serving, 'a) io \<Rightarrow> 'a \<Rightarrow> bool" where
  "syields m x \<longleftrightarrow> (\<forall>s. \<exists>s'. m s = (Inr x, s'))"

lemma syields_bind: "syields m x \<Longrightarrow> syields (f x) y \<Longrightarrow> syields (bind_io m f) y"
  unfolding syields_def by (metis bind_io_apply(1))

lemma syields_prim: "syields (ret x) x" "syields (lift_res (Inr x)) x" "syields (Pair (Inr x)) x"
  by (simp_all add: syields_def ret_def lift_res_def)

lemma syields_session: "yields m x \<Longrightarrow> syields (on_session m) x"
  unfolding syields_def yields_def on_session_def by (metis (no_types, lifting) case_prod_conv)

lemma syields_one: "syields (f x) y \<Longrightarrow> syields (map_io f [x]) [y]"
  by (simp, erule syields_bind) (rule syields_prim)

lemma sample_jobs: "selected_jobs sample_indexer (Some ''pools'') = Inr [plain_job]"
  by (simp add: selected_jobs_def sample_parts daily_catalog_def)

lemma sample_plan: "syields (plan_job sample_indexer 1 (sample_block 1) plain_job) (plain_job, [PoolTarget plain_pool])"
proof -
  have published: "yields (published_target_addresses (ix_store sample_indexer) (ix_chain_id sample_indexer) (jb_name plain_job)
      (kind_of plain_job) 1 (ix_skip_any sample_indexer)) []"
    unfolding published_target_addresses_def sample_parts
    by (rule yields_query_map) (simp add: sample_indexer_def sample_answers_def)
  have targets: "pool_targets daily_catalog plain_job = Inr [plain_pool]"
    by (simp add: pool_targets_def plain_job_def daily_catalog_def plain_pool_def)
  have pools: "jb_target_kind plain_job = POOLS" by (simp add: plain_job_def)
  have job: "syields (job_targets sample_indexer plain_job) [PoolTarget plain_pool]"
    unfolding job_targets_def pools sample_parts targets
    by (simp add: syields_bind [OF syields_prim(2)] syields_prim)
  have now: "active (PoolTarget plain_pool) 1 (Some (number (sample_block 1)))"
    by (simp add: active_def target_dates_def target_deployment_def plain_pool_def sample_block_def)
  show ?thesis unfolding plan_job_def
    by (rule syields_bind [OF syields_session [OF published]], rule syields_bind [OF job]) (simp add: now syields_prim)
qed

lemma sample_census: "syields (census sample_indexer 1 (Some ''pools'')) [5]"
proof -
  have none: "\<not> list_ex discovers (map snd (ct_jobs (ix_catalog sample_indexer)))"
    by (simp add: sample_parts daily_catalog_def discovers_def sample_job_def plain_job_def)
  then have metadata: "syields (resolve_metadata_once sample_indexer) ()"
    by (simp add: resolve_metadata_once_def syields_def)
  have quiet: "pending_discovery sample_indexer [(plain_job, [PoolTarget plain_pool])] [] = Inr []"
    by (simp add: needs_holder_discovery_def plain_job_def)
  have prepare: "syields (census_prepare sample_indexer 1 (Some ''pools'')) (sample_block 1, [(plain_job, [PoolTarget plain_pool])])"
    unfolding census_prepare_def sample_jobs
    apply (rule syields_bind [OF syields_session [OF sample_anchor]])
    apply (rule syields_bind [OF syields_prim(2)])
    apply (rule syields_bind, rule syields_one, rule sample_plan)
    apply (subst quiet, rule syields_bind [OF syields_prim(2)])
    apply (simp only: not_True_eq_False if_False refl)
    apply (rule syields_bind [OF syields_prim(1)])
    apply (rule syields_bind [OF metadata])
    apply (rule syields_prim)
    done
  have run: "yields (run_one sample_indexer 1 (sample_block 1) (plain_job, PoolTarget plain_pool)) (Inr 5)"
    unfolding yields_def
  proof
    fix s :: "unit session"
    obtain s' where "run_pool sample_runner plain_job plain_pool 1 (sample_block 1) s = (Inr 5, s')"
      using plain_pool_publishes [of 1] unfolding yields_def by blast
    then show "\<exists>s'. run_one sample_indexer 1 (sample_block 1) (plain_job, PoolTarget plain_pool) s = (Inr (Inr 5), s')"
      by (simp add: run_one_def sample_parts)
  qed
  have items: "plan_items [(plain_job, [PoolTarget plain_pool])] = [(plain_job, PoolTarget plain_pool)]"
    by (simp add: plan_items_def)
  have runs: "yields (map_io (run_one sample_indexer 1 (sample_block 1)) [(plain_job, PoolTarget plain_pool)]) [Inr 5]"
    by (rule yields_map_io) (simp add: run)
  show ?thesis unfolding census_def
    apply (rule syields_bind [OF prepare])
    apply (simp only: prod.case items)
    apply (rule syields_bind [OF syields_session [OF runs]])
    apply (simp add: failures_of_def attempts_of_def syields_prim)
    done
qed


end
