(* ===== verification/Bench.thy ===== *)
theory Bench
  imports Orchestration
begin

text \<open>
  The search for the largest batch an executor serves in one piece (\<open>service.py\<close>).
\<close>

subsection \<open>The largest batch\<close>

record 'w bench_env =
  be_execute :: "'w executor_fun"
  be_batch_size :: "'w \<Rightarrow> int"
  be_set_batch_size :: "int \<Rightarrow> 'w \<Rightarrow> 'w"
  be_perf_counter :: "('w, rat) io"

record benchmark_outcome =
  bo_max_batch_size :: int
  bo_recommended_batch_size :: int
  bo_timings_seconds :: "rat list"
  bo_evidence :: verification_evidence

definition bench_calls :: "string \<Rightarrow> int \<Rightarrow> contract_call list" where
  "bench_calls token_address middle = map (\<lambda>index.
     \<lparr>cc_key = ''bench/'' @ py_int index, cc_target = token_address, cc_calldata = TOTAL_SUPPLY_SELECTOR,
      cc_allow_failure = True\<rparr>) [0..middle - 1]"

text \<open>One candidate: the evidence of the one batch that answers all calls in order, all successful.\<close>

definition bench_check :: "contract_call list \<Rightarrow> verified_batch_result list \<Rightarrow> verification_evidence res" where
  "bench_check calls batches =
     (case batches of
        [batch] \<Rightarrow>
          if \<not> ve_verified (vb_evidence batch) then raise_res ServiceError ''benchmark batch is not verified''
          else if map rr_key (vb_results batch) \<noteq> map cc_key calls
          then raise_res ServiceError ''benchmark executor returned partial or reordered results''
          else if \<not> list_all rr_success (vb_results batch) then raise_res ServiceError ''benchmark contract call failed''
          else Inr (vb_evidence batch)
      | _ \<Rightarrow> raise_res ServiceError ''benchmark candidate was split into multiple batches'')"

definition bench_candidate ::
  "'w bench_env \<Rightarrow> string \<Rightarrow> block_ref \<Rightarrow> int \<Rightarrow> ('w, verification_evidence) io" where
  "bench_candidate be token_address anchor middle =
     (let calls = bench_calls token_address middle in
      bind_io (be_execute be calls anchor) (\<lambda>batches. lift_res (bench_check calls batches)))"

type_synonym bench_best = "(int \<times> verification_evidence) option"

function bench_search ::
  "'w bench_env \<Rightarrow> string \<Rightarrow> block_ref \<Rightarrow> int \<Rightarrow> int \<Rightarrow> bench_best \<Rightarrow> rat list \<Rightarrow> ('w, bench_best \<times> rat list) io" where
  "bench_search be token_address anchor low high best timings =
     (if low > high then ret (best, timings)
      else let middle = (low + high) div 2 in
      bind_io (be_perf_counter be) (\<lambda>started s.
        case bench_candidate be token_address anchor middle s of
          (Inl e, s1) \<Rightarrow> bench_search be token_address anchor low (middle - 1) best timings s1
        | (Inr evidence, s1) \<Rightarrow>
            bind_io (be_perf_counter be) (\<lambda>ended.
              bench_search be token_address anchor (middle + 1) high (Some (middle, evidence)) (timings @ [ended - started])) s1))"
  by pat_completeness auto
termination
  by (relation "measure (\<lambda>(be, token_address, anchor, low, high, best, timings). nat (high + 1 - low))") auto

text \<open>
  The size is set for the search and restored after it, also when it raises. \<open>int(best * 0.8)\<close> is
  \<open>best * 4 div 5\<close> as long as the float product is near enough (\<open>best\<close> below 2^50).
\<close>

declare bench_search.simps [simp del]

definition benchmark_single_batch_ceiling ::
  "'w bench_env \<Rightarrow> string \<Rightarrow> block_ref \<Rightarrow> int \<Rightarrow> ('w, benchmark_outcome) io" where
  "benchmark_single_batch_ceiling be token_address anchor max_size =
     (if max_size < 1 then raise (Exn ValueError ''max benchmark size must be positive'')
      else (\<lambda>s.
        case bench_search be token_address anchor 1 max_size None [] (be_set_batch_size be max_size s) of
          (searched, s1) \<Rightarrow>
            bind_io (lift_res searched) (\<lambda>(best, timings).
              case best of
                None \<Rightarrow> raise (Exn ServiceError ''no safe single-batch size passed'')
              | Some (best_size, evidence) \<Rightarrow> ret
                  \<lparr>bo_max_batch_size = best_size, bo_recommended_batch_size = max 1 (best_size * 4 div 5),
                   bo_timings_seconds = timings, bo_evidence = evidence\<rparr>)
            (be_set_batch_size be (be_batch_size be s) s1)))"

subsection \<open>The benchmark\<close>

text \<open>
  The executor's batch size is an attribute that only assignments change, and the timer never raises.
\<close>

definition sized :: "'w bench_env \<Rightarrow> bool" where
  "sized be \<longleftrightarrow> (\<forall>n w. be_batch_size be (be_set_batch_size be n w) = n)
     \<and> (\<forall>calls a w r w'. be_execute be calls a w = (r, w') \<longrightarrow> be_batch_size be w' = be_batch_size be w)
     \<and> (\<forall>w. \<exists>t w'. be_perf_counter be w = (Inr t, w') \<and> be_batch_size be w' = be_batch_size be w)"

definition passes :: "'w bench_env \<Rightarrow> string \<Rightarrow> block_ref \<Rightarrow> int \<Rightarrow> verification_evidence \<Rightarrow> 'w \<Rightarrow> bool" where
  "passes be token_address anchor n evidence w \<longleftrightarrow> (\<exists>w'. bench_candidate be token_address anchor n w = (Inr evidence, w'))"

lemma passes_batch:
  assumes "passes be token_address anchor n evidence w"
  shows "\<exists>batch w'. be_execute be (bench_calls token_address n) anchor w = (Inr [batch], w')
    \<and> vb_evidence batch = evidence \<and> ve_verified evidence
    \<and> map rr_key (vb_results batch) = map cc_key (bench_calls token_address n) \<and> list_all rr_success (vb_results batch)"
proof -
  from assms obtain batches w' where b: "be_execute be (bench_calls token_address n) anchor w = (Inr batches, w')"
    "bench_check (bench_calls token_address n) batches = Inr evidence"
    by (auto simp: passes_def bench_candidate_def Let_def io_simps lift_res_def)
  then show ?thesis by (auto simp: bench_check_def split: list.splits if_splits)
qed

lemma candidate_sized:
  assumes "sized be" and "bench_candidate be token_address anchor n w = (r, w')"
  shows "be_batch_size be w' = be_batch_size be w"
proof -
  obtain q w1 where m: "be_execute be (bench_calls token_address n) anchor w = (q, w1)" by fastforce
  with assms have "w' = w1" by (auto simp: bench_candidate_def Let_def bind_io_def lift_res_def split: sum.splits)
  with m assms(1) show ?thesis unfolding sized_def by blast
qed

lemma bench_search_spec:
  assumes "sized be" and "bench_search be token_address anchor low high best timings w = (res, w')"
  shows "be_batch_size be w' = be_batch_size be w
    \<and> (\<exists>best' timings'. res = Inr (best', timings')
         \<and> (best' = best \<or> (\<exists>n evidence t. best' = Some (n, evidence) \<and> low \<le> n \<and> n \<le> high \<and> passes be token_address anchor n evidence t))
         \<and> (\<forall>k. (\<forall>n t. be_batch_size be t = be_batch_size be w \<longrightarrow> low \<le> n \<longrightarrow> n \<le> high \<longrightarrow>
                   ((\<exists>evidence. passes be token_address anchor n evidence t) \<longleftrightarrow> n \<le> k)) \<longrightarrow>
              (if low \<le> min k high then \<exists>evidence. best' = Some (min k high, evidence) else best' = best)))"
  using assms(2)
proof (induction "nat (high + 1 - low)" arbitrary: low high best timings w rule: less_induct)
  case less
  show ?case
  proof (cases "low > high")
    case True
    with less.prems show ?thesis by (auto simp: bench_search.simps ret_def)
  next
    case False
    define middle where "middle = (low + high) div 2"
    have mid: "low \<le> middle" "middle \<le> high" using False by (simp_all add: middle_def)
    obtain t1 w1 where w1: "be_perf_counter be w = (Inr t1, w1)" "be_batch_size be w1 = be_batch_size be w"
      using assms(1) unfolding sized_def by blast
    obtain r w2 where w2: "bench_candidate be token_address anchor middle w1 = (r, w2)" by fastforce
    note size2 = candidate_sized [OF assms(1) w2]
    show ?thesis
    proof (cases r)
      case (Inl e)
      with less.prems False w1(1) w2 have run: "bench_search be token_address anchor low (middle - 1) best timings w2 = (res, w')"
        by (simp add: bench_search.simps [of be token_address anchor low high] middle_def bind_io_def Let_def)
      have fails: "\<not> (\<exists>evidence. passes be token_address anchor middle evidence w1)" using w2 Inl by (auto simp: passes_def)
      have "nat (middle - 1 + 1 - low) < nat (high + 1 - low)" using mid by simp
      from less.hyps [OF this run] obtain best' timings' where IH: "be_batch_size be w' = be_batch_size be w2"
        "res = Inr (best', timings')"
        "best' = best \<or> (\<exists>n evidence t. best' = Some (n, evidence) \<and> low \<le> n \<and> n \<le> middle - 1 \<and> passes be token_address anchor n evidence t)"
        "\<And>k. (\<forall>n t. be_batch_size be t = be_batch_size be w2 \<longrightarrow> low \<le> n \<longrightarrow> n \<le> middle - 1 \<longrightarrow>
                   ((\<exists>evidence. passes be token_address anchor n evidence t) \<longleftrightarrow> n \<le> k)) \<Longrightarrow>
              (if low \<le> min k (middle - 1) then \<exists>evidence. best' = Some (min k (middle - 1), evidence) else best' = best)" by blast
      have exact: "if low \<le> min k high then \<exists>evidence. best' = Some (min k high, evidence) else best' = best"
        if k: "\<forall>n t. be_batch_size be t = be_batch_size be w \<longrightarrow> low \<le> n \<longrightarrow> n \<le> high \<longrightarrow>
                   ((\<exists>evidence. passes be token_address anchor n evidence t) \<longleftrightarrow> n \<le> k)" for k
      proof -
        from k fails mid w1(2) have "\<not> middle \<le> k" by blast
        then have "min k (middle - 1) = k" "min k high = k" using mid by simp_all
        moreover have "(\<exists>evidence. passes be token_address anchor n evidence t) \<longleftrightarrow> n \<le> k"
          if "be_batch_size be t = be_batch_size be w2" "low \<le> n" "n \<le> middle - 1" for n t
          by (rule k [rule_format]) (use that mid size2 w1(2) in simp_all)
        then have "if low \<le> min k (middle - 1) then \<exists>evidence. best' = Some (min k (middle - 1), evidence) else best' = best"
          by (intro IH(4)) blast
        ultimately show ?thesis by (simp only:)
      qed
      have "best' = best \<or> (\<exists>n evidence t. best' = Some (n, evidence) \<and> low \<le> n \<and> n \<le> high \<and> passes be token_address anchor n evidence t)"
        using IH(3)
      proof
        assume "\<exists>n evidence t. best' = Some (n, evidence) \<and> low \<le> n \<and> n \<le> middle - 1 \<and> passes be token_address anchor n evidence t"
        then obtain n evidence t where n: "best' = Some (n, evidence)" "low \<le> n" "n \<le> middle - 1" "passes be token_address anchor n evidence t"
          by blast
        from n(3) mid have "n \<le> high" by linarith
        with n show ?thesis by blast
      qed blast
      moreover have "be_batch_size be w' = be_batch_size be w" using IH(1) size2 w1(2) by simp
      ultimately show ?thesis using IH(2) exact by blast
    next
      case (Inr evidence)
      obtain t2 w3 where w3: "be_perf_counter be w2 = (Inr t2, w3)" "be_batch_size be w3 = be_batch_size be w2"
        using assms(1) unfolding sized_def by blast
      from less.prems False w1(1) w2 w3(1) Inr have run: "bench_search be token_address anchor (middle + 1) high
          (Some (middle, evidence)) (timings @ [t2 - t1]) w3 = (res, w')"
        by (simp add: bench_search.simps [of be token_address anchor low high] middle_def bind_io_def Let_def)
      have pass: "passes be token_address anchor middle evidence w1" using w2 Inr by (auto simp: passes_def)
      have "nat (high + 1 - (middle + 1)) < nat (high + 1 - low)" using mid by simp
      from less.hyps [OF this run] obtain best' timings' where IH: "be_batch_size be w' = be_batch_size be w3"
        "res = Inr (best', timings')"
        "best' = Some (middle, evidence) \<or> (\<exists>n evidence t. best' = Some (n, evidence) \<and> middle + 1 \<le> n \<and> n \<le> high
            \<and> passes be token_address anchor n evidence t)"
        "\<And>k. (\<forall>n t. be_batch_size be t = be_batch_size be w3 \<longrightarrow> middle + 1 \<le> n \<longrightarrow> n \<le> high \<longrightarrow>
                   ((\<exists>evidence. passes be token_address anchor n evidence t) \<longleftrightarrow> n \<le> k)) \<Longrightarrow>
              (if middle + 1 \<le> min k high then \<exists>evidence. best' = Some (min k high, evidence)
               else best' = Some (middle, evidence))" by blast
      have exact: "if low \<le> min k high then \<exists>evidence. best' = Some (min k high, evidence) else best' = best"
        if k: "\<forall>n t. be_batch_size be t = be_batch_size be w \<longrightarrow> low \<le> n \<longrightarrow> n \<le> high \<longrightarrow>
                   ((\<exists>evidence. passes be token_address anchor n evidence t) \<longleftrightarrow> n \<le> k)" for k
      proof -
        from k pass mid w1(2) have le: "middle \<le> k" by blast
        have "(\<exists>evidence. passes be token_address anchor n evidence t) \<longleftrightarrow> n \<le> k"
          if "be_batch_size be t = be_batch_size be w3" "middle + 1 \<le> n" "n \<le> high" for n t
          by (rule k [rule_format]) (use that mid size2 w1(2) w3(2) in simp_all)
        then have found: "if middle + 1 \<le> min k high then \<exists>evidence. best' = Some (min k high, evidence)
               else best' = Some (middle, evidence)" by (intro IH(4)) blast
        have "\<exists>evidence. best' = Some (min k high, evidence)"
        proof (cases "middle + 1 \<le> min k high")
          case True
          with found show ?thesis by simp
        next
          case False
          then have "min k high = middle" using le mid by linarith
          with found False show ?thesis by simp
        qed
        with le mid show ?thesis by simp
      qed
      have "\<exists>n evidence t. best' = Some (n, evidence) \<and> low \<le> n \<and> n \<le> high \<and> passes be token_address anchor n evidence t"
        using IH(3)
      proof
        assume "best' = Some (middle, evidence)"
        with pass mid show ?thesis by blast
      next
        assume "\<exists>n evidence t. best' = Some (n, evidence) \<and> middle + 1 \<le> n \<and> n \<le> high \<and> passes be token_address anchor n evidence t"
        then obtain n evidence t where n: "best' = Some (n, evidence)" "middle + 1 \<le> n" "n \<le> high" "passes be token_address anchor n evidence t"
          by blast
        from n(2) mid have "low \<le> n" by linarith
        with n show ?thesis by blast
      qed
      moreover have "be_batch_size be w' = be_batch_size be w" using IH(1) size2 w1(2) w3(2) by simp
      ultimately show ?thesis using IH(2) exact by blast
    qed
  qed
qed


text \<open>
  C16: the benchmark finds the largest batch that the executor serves in one piece. The batch size
  of the executor is restored whatever happens. A reported size lies within the limit and was served
  by exactly one verified batch that answers all its calls in order and successfully, with the
  reported evidence. When the executor, at the raised size, serves exactly the batches up to some
  \<open>k\<close>, the result is the smaller of \<open>k\<close> and the limit, and an error is raised exactly when not
  even one call is served.
\<close>

theorem benchmark_finds_ceiling:
  assumes "sized be" and "1 \<le> max_size"
    and "benchmark_single_batch_ceiling be token_address anchor max_size s = (res, s')"
  shows "be_batch_size be s' = be_batch_size be s
    \<and> (\<forall>b. res = Inr b \<longrightarrow> 1 \<le> bo_max_batch_size b \<and> bo_max_batch_size b \<le> max_size
         \<and> (\<exists>t batch t'. be_execute be (bench_calls token_address (bo_max_batch_size b)) anchor t = (Inr [batch], t')
              \<and> vb_evidence batch = bo_evidence b \<and> ve_verified (bo_evidence b)
              \<and> map rr_key (vb_results batch) = map cc_key (bench_calls token_address (bo_max_batch_size b))
              \<and> list_all rr_success (vb_results batch)))
    \<and> (\<forall>k. (\<forall>n t. be_batch_size be t = max_size \<longrightarrow> 1 \<le> n \<longrightarrow> n \<le> max_size \<longrightarrow>
             ((\<exists>evidence. passes be token_address anchor n evidence t) \<longleftrightarrow> n \<le> k)) \<longrightarrow>
         (if 1 \<le> k then \<exists>b. res = Inr b \<and> bo_max_batch_size b = min k max_size
          else res = Inl (Exn ServiceError ''no safe single-batch size passed'')))"
proof -
  let ?s = "be_set_batch_size be max_size s"
  have size: "be_batch_size be ?s = max_size" using assms(1) by (simp add: sized_def)
  obtain r s1 where search: "bench_search be token_address anchor 1 max_size None [] ?s = (r, s1)" by fastforce
  from bench_search_spec [OF assms(1) search, unfolded size] obtain best timings where r: "r = Inr (best, timings)"
    and found: "best = None \<or> (\<exists>n evidence t. best = Some (n, evidence) \<and> 1 \<le> n \<and> n \<le> max_size
        \<and> passes be token_address anchor n evidence t)"
    and exact: "\<And>k. (\<forall>n t. be_batch_size be t = max_size \<longrightarrow> 1 \<le> n \<longrightarrow> n \<le> max_size \<longrightarrow>
             ((\<exists>evidence. passes be token_address anchor n evidence t) \<longleftrightarrow> n \<le> k)) \<Longrightarrow>
         (if 1 \<le> min k max_size then \<exists>evidence. best = Some (min k max_size, evidence) else best = None)" by blast
  have run: "(case best of None \<Rightarrow> (Inl (Exn ServiceError ''no safe single-batch size passed''), be_set_batch_size be (be_batch_size be s) s1)
       | Some (n, evidence) \<Rightarrow> (Inr \<lparr>bo_max_batch_size = n, bo_recommended_batch_size = max 1 (n * 4 div 5),
                   bo_timings_seconds = timings, bo_evidence = evidence\<rparr>, be_set_batch_size be (be_batch_size be s) s1)) = (res, s')"
    using assms(2,3) search r
    by (auto simp: benchmark_single_batch_ceiling_def bind_io_def lift_res_def raise_def ret_def split: option.splits)
  then have "s' = be_set_batch_size be (be_batch_size be s) s1" by (auto split: option.splits)
  then have restored: "be_batch_size be s' = be_batch_size be s" using assms(1) by (simp add: sized_def)
  have sound: "1 \<le> bo_max_batch_size b \<and> bo_max_batch_size b \<le> max_size
         \<and> (\<exists>t batch t'. be_execute be (bench_calls token_address (bo_max_batch_size b)) anchor t = (Inr [batch], t')
              \<and> vb_evidence batch = bo_evidence b \<and> ve_verified (bo_evidence b)
              \<and> map rr_key (vb_results batch) = map cc_key (bench_calls token_address (bo_max_batch_size b))
              \<and> list_all rr_success (vb_results batch))" if "res = Inr b" for b
  proof -
    from run that obtain n evidence where n: "best = Some (n, evidence)" "bo_max_batch_size b = n" "bo_evidence b = evidence"
      by (auto split: option.splits)
    with found obtain t where p: "1 \<le> n" "n \<le> max_size" "passes be token_address anchor n evidence t" by auto
    from passes_batch [OF p(3)] p(1,2) n show ?thesis by auto
  qed
  have "if 1 \<le> k then \<exists>b. res = Inr b \<and> bo_max_batch_size b = min k max_size
          else res = Inl (Exn ServiceError ''no safe single-batch size passed'')"
    if k: "\<forall>n t. be_batch_size be t = max_size \<longrightarrow> 1 \<le> n \<longrightarrow> n \<le> max_size \<longrightarrow>
             ((\<exists>evidence. passes be token_address anchor n evidence t) \<longleftrightarrow> n \<le> k)" for k
    using exact [OF k] assms(2) run by (auto split: if_splits)
  with restored sound show ?thesis by blast
qed

text \<open>An executor that serves up to three calls at once; its world is its batch size.\<close>

definition small_bench :: "int bench_env" where
  "small_bench = \<lparr>be_execute = (\<lambda>calls a. if length calls \<le> 3
       then ret [\<lparr>vb_results = map (\<lambda>c. ok_result (cc_key c) (to_bytes 32 7)) calls,
                  vb_evidence = legacy_evidence ''eip1898'' ''h'' [''one''] ''d''\<rparr>]
       else raise (Exn BatchError ''too large'')),
     be_batch_size = (\<lambda>w. w), be_set_batch_size = (\<lambda>n w. n), be_perf_counter = ret 0\<rparr>"

lemma small_sized: "sized small_bench"
  by (auto simp: sized_def small_bench_def ret_def raise_def split: if_splits)

lemma small_passes:
  assumes "1 \<le> n"
  shows "(\<exists>evidence. passes small_bench token_address anchor n evidence t) \<longleftrightarrow> n \<le> 3"
proof -
  have len: "length (bench_calls token_address n) \<le> 3 \<longleftrightarrow> n \<le> 3" using assms by (auto simp: bench_calls_def)
  have ok: "bench_check calls [\<lparr>vb_results = map (\<lambda>c. ok_result (cc_key c) (to_bytes 32 7)) calls,
                  vb_evidence = legacy_evidence ''eip1898'' ''h'' [''one''] ''d''\<rparr>]
      = Inr (legacy_evidence ''eip1898'' ''h'' [''one''] ''d'')" for calls
    by (simp add: bench_check_def legacy_evidence_def ok_result_def comp_def list_all_iff)
  show ?thesis
    by (auto simp: passes_def bench_candidate_def small_bench_def Let_def len bind_io_def ret_def raise_def lift_res_def ok)
qed

theorem benchmark_finds_ceiling_witness:
  "\<exists>b. benchmark_single_batch_ceiling small_bench ''t'' (sample_block 1) 5 7 = (Inr b, 7) \<and> bo_max_batch_size b = 3"
proof -
  obtain res s' where run: "benchmark_single_batch_ceiling small_bench ''t'' (sample_block 1) 5 7 = (res, s')" by fastforce
  note spec = benchmark_finds_ceiling [OF small_sized _ run]
  have "be_batch_size small_bench s' = be_batch_size small_bench 7" using spec by simp
  then have "s' = 7" by (simp add: small_bench_def)
  moreover have "\<exists>b. res = Inr b \<and> bo_max_batch_size b = min 3 5"
    using spec [THEN conjunct2, THEN conjunct2, rule_format, of 3] small_passes by auto
  ultimately show ?thesis using run by auto
qed

end
