(* ===== verification/Backfill.thy ===== *)
theory Backfill
  imports CensusDay
begin

text \<open>
  The command loops over dates (\<open>service.py\<close>): date ranges and month ends, the backfill and densify
  commands, and the cycle of the daemon. The health server and closing the service are left out.
\<close>

subsection \<open>Date ranges\<close>

text \<open>\<open>_date_range\<close>: the step past \<open>date.max\<close> raises.\<close>

function date_range :: "date \<Rightarrow> date \<Rightarrow> date list res" where
  "date_range current to_date =
     (if current > to_date then Inr []
      else if current \<ge> date_max then raise_res OverflowError ''date value out of range''
      else bind_res (date_range (current + 1) to_date) (\<lambda>later. Inr (current # later)))"
  by pat_completeness auto
termination
  by (relation "measure (\<lambda>(current, to_date). nat (to_date + 1 - current))") auto

declare date_range.simps [simp del]

definition is_leap :: "int \<Rightarrow> bool" where
  "is_leap y \<longleftrightarrow> y mod 4 = 0 \<and> (y mod 100 \<noteq> 0 \<or> y mod 400 = 0)"

text \<open>\<open>calendar.monthrange(y, m)[1]\<close>, and the number of the first day of a month (1970-01-01 is 0).\<close>

definition month_days :: "int \<Rightarrow> int \<Rightarrow> int" where
  "month_days y m = (if m = 2 then (if is_leap y then 29 else 28) else if m \<in> {4, 6, 9, 11} then 30 else 31)"

definition days_before_month :: "int \<Rightarrow> int \<Rightarrow> int" where
  "days_before_month y m =
     [0, 31, 59, 90, 120, 151, 181, 212, 243, 273, 304, 334] ! nat (m - 1) + (if m > 2 \<and> is_leap y then 1 else 0)"

definition days_before_year :: "int \<Rightarrow> int" where
  "days_before_year y = (let p = y - 1 in p * 365 + p div 4 - p div 100 + p div 400)"

definition civil_date :: "int \<Rightarrow> int \<Rightarrow> int \<Rightarrow> date" where
  "civil_date y m d = days_before_year y + days_before_month y m + d - 719163"

definition next_month :: "int \<times> int \<Rightarrow> int \<times> int" where
  "next_month = (\<lambda>(y, m). if m = 12 then (y + 1, 1) else (y, m + 1))"

definition first_day :: "int \<times> int \<Rightarrow> date" where
  "first_day = (\<lambda>(y, m). civil_date y m 1)"

definition last_day :: "int \<times> int \<Rightarrow> date" where
  "last_day = (\<lambda>(y, m). civil_date y m (month_days y m))"

definition is_month :: "int \<times> int \<Rightarrow> bool" where
  "is_month = (\<lambda>(y, m). 1 \<le> m \<and> m \<le> 12)"

lemma is_month_next: "is_month c \<Longrightarrow> is_month (next_month c)"
  by (auto simp: is_month_def next_month_def split: prod.splits if_splits)

lemma div_pred: "(0 :: int) < k \<Longrightarrow> y div k = (y - 1) div k + (if y mod k = 0 then 1 else 0)"
proof (cases "y mod k = 0")
  case True
  assume k: "0 < k"
  have "k * (y div k) = y" using True mult_div_mod_eq [of k y] by simp
  then have "k * (y div k - 1) = y - k" by (simp add: right_diff_distrib)
  then have "y - 1 = k * (y div k - 1) + (k - 1)" by linarith
  then have "(y - 1) div k = y div k - 1" by (rule int_div_pos_eq [of _ _ _ "k - 1"]) (use k in simp_all)
  with True show ?thesis by simp
next
  case False
  assume k: "0 < k"
  have "y - 1 = k * (y div k) + (y mod k - 1)" by (simp add: mult_div_mod_eq)
  moreover have "0 \<le> y mod k - 1" "y mod k - 1 < k" using False k pos_mod_sign [of k y] pos_mod_bound [of k y] by linarith+
  ultimately have "(y - 1) div k = y div k" by (intro int_div_pos_eq)
  with False show ?thesis by simp
qed

lemma days_before_next_year: "days_before_year (y + 1) = days_before_year y + (if is_leap y then 366 else 365)"
proof -
  define a b c where "a = (y - 1) div 4" and "b = (y - 1) div 100" and "c = (y - 1) div 400"
  note steps = div_pred [of 4 y, folded a_def] div_pred [of 100 y, folded b_def] div_pred [of 400 y, folded c_def]
  have same: "y + 1 - 1 = y" by simp
  have e: "days_before_year (y + 1) = y * 365 + y div 4 - y div 100 + y div 400"
    "days_before_year y = (y - 1) * 365 + a - b + c"
    unfolding days_before_year_def Let_def same a_def b_def c_def by simp_all
  have m: "y mod 400 = 0 \<Longrightarrow> y mod 100 = 0" "y mod 100 = 0 \<Longrightarrow> y mod 4 = 0" by presburger+
  show ?thesis
  proof (cases "y mod 4 = 0")
    case False
    with m have "y mod 100 \<noteq> 0" "y mod 400 \<noteq> 0" by auto
    with False show ?thesis unfolding e is_leap_def by (simp add: steps)
  next
    case True
    then show ?thesis using m unfolding e is_leap_def
      by (cases "y mod 100 = 0"; cases "y mod 400 = 0") (simp_all add: steps)
  qed
qed

lemma first_day_next: "is_month c \<Longrightarrow> first_day (next_month c) = last_day c + 1"
proof -
  assume m: "is_month c"
  obtain y m where c: "c = (y, m)" by fastforce
  from m c have "1 \<le> m" "m \<le> 12" by (simp_all add: is_month_def)
  then have "m \<in> {1, 2, 3, 4, 5, 6, 7, 8, 9, 10, 11, 12}" by simp presburger
  then show ?thesis
    using days_before_next_year [of y]
    by (auto simp: c next_month_def first_day_def last_day_def civil_date_def days_before_month_def month_days_def)
qed

lemma first_day_le: "is_month c \<Longrightarrow> first_day c \<le> last_day c"
  by (auto simp: first_day_def last_day_def civil_date_def month_days_def split: prod.splits)

lemma month_advances: "is_month c \<Longrightarrow> first_day c < first_day (next_month c)"
  using first_day_next first_day_le by fastforce

text \<open>The cursor of \<open>_month_end_dates\<close>; the month after December 9999 has no date.\<close>

function month_ends :: "int \<times> int \<Rightarrow> date \<Rightarrow> date \<Rightarrow> date list res" where
  "month_ends cursor from_date to_date =
     (if \<not> is_month cursor \<or> first_day cursor > to_date then Inr []
      else let candidate = min (last_day cursor) to_date;
               output = (if candidate \<ge> from_date then [candidate] else []) in
           if cursor = (9999, 12) then raise_res ValueError ''year 10000 is out of range''
           else bind_res (month_ends (next_month cursor) from_date to_date) (\<lambda>later. Inr (output @ later)))"
  by pat_completeness auto
termination
proof (relation "measure (\<lambda>(cursor, from_date, to_date). nat (to_date + 1 - first_day cursor))", goal_cases)
  case (2 cursor f t)
  then have "first_day cursor \<le> t" "first_day cursor < first_day (next_month cursor)" by (simp_all add: month_advances)
  then show ?case by simp
qed simp

declare month_ends.simps [simp del]

definition month_end_dates :: "int \<times> int \<times> int \<Rightarrow> date \<Rightarrow> date list res" where
  "month_end_dates = (\<lambda>(y, m, d) to_date.
     bind_res (month_ends (y, m) (civil_date y m d) to_date) (\<lambda>output. Inr (rev (remdups (rev output)))))"

subsection \<open>Backfill\<close>

definition failed_date :: "date \<Rightarrow> exn \<Rightarrow> string" where
  "failed_date d e = (case e of
     JobRunExn failures \<Rightarrow> date_iso d @ ''('' @ py_int (int (length failures)) @ '')''
   | _ \<Rightarrow> date_iso d @ ''('' @ exn_name (exn_class_of e) @ '')'')"

fun backfill_dates :: "(date \<Rightarrow> ('s, 'a) io) \<Rightarrow> date list \<Rightarrow> string list \<Rightarrow> ('s, string list) io" where
  "backfill_dates run [] failed = ret failed"
| "backfill_dates run (d # ds) failed = (\<lambda>s.
     case run d s of
       (Inl e, s1) \<Rightarrow> backfill_dates run ds (failed @ [failed_date d e]) s1
     | (Inr _, s1) \<Rightarrow> backfill_dates run ds failed s1)"

definition backfill_error :: "string list \<Rightarrow> nat \<Rightarrow> exn" where
  "backfill_error failed n = Exn ServiceError
     (''backfill finished with '' @ py_int (int (length failed)) @ ''/'' @ py_int (int n)
      @ '' dates having target failures: '' @ join '', '' (take 30 failed) @ (if length failed > 30 then '' ...'' else []))"

definition run_backfill ::
  "'w indexer \<Rightarrow> int \<times> int \<times> int \<Rightarrow> date \<Rightarrow> string option \<Rightarrow> bool \<Rightarrow> ('w serving, unit) io" where
  "run_backfill ix from_date to_date job daily =
     bind_io (lift_res (if daily then (case from_date of (y, m, d) \<Rightarrow> date_range (civil_date y m d) to_date)
                        else month_end_dates from_date to_date)) (\<lambda>dates.
     bind_io (backfill_dates (\<lambda>d. census ix d job) dates []) (\<lambda>failed.
       if failed \<noteq> [] then raise (backfill_error failed (length dates)) else ret ()))"

definition run_densify :: "'w indexer \<Rightarrow> int \<times> int \<times> int \<Rightarrow> date \<Rightarrow> string option \<Rightarrow> ('w serving, unit) io" where
  "run_densify ix from_date to_date job = run_backfill ix from_date to_date job True"

subsection \<open>The daemon\<close>

text \<open>A failed job or sweep is counted and the cycle goes on; any other exception ends the daemon.\<close>

definition tolerate_failures :: "('s, 'a) io \<Rightarrow> ('s, unit) io" where
  "tolerate_failures m = catch_io (bind_io m (\<lambda>_. ret ())) (\<lambda>e. case e of JobRunExn failures \<Rightarrow> ret () | _ \<Rightarrow> raise e)"

fun daemon_jobs ::
  "'w indexer \<Rightarrow> ('w serving, unit) io \<Rightarrow> string list option \<Rightarrow> date \<Rightarrow> job_config list \<Rightarrow> ('w serving, unit) io" where
  "daemon_jobs ix ensure_healthy allowed d [] = ret ()"
| "daemon_jobs ix ensure_healthy allowed d (job # jobs) =
     (if jb_cadence job \<noteq> DAILY \<or> (allowed \<noteq> None \<and> jb_name job \<notin> set (the allowed))
      then daemon_jobs ix ensure_healthy allowed d jobs
      else bind_io (tolerate_failures (census ix d (Some (jb_name job)))) (\<lambda>_.
           bind_io ensure_healthy (\<lambda>_. daemon_jobs ix ensure_healthy allowed d jobs)))"

definition daemon_cycle ::
  "'w indexer \<Rightarrow> ('w serving, unit) io \<Rightarrow> string list option \<Rightarrow> ('w serving, unit) io" where
  "daemon_cycle ix ensure_healthy allowed =
     bind_io ensure_healthy (\<lambda>_.
     bind_io (on_session (yesterday ix)) (\<lambda>d.
     bind_io (if ct_sweeps (ix_catalog ix) \<noteq> []
              then bind_io (tolerate_failures (on_session (service_sweep ix d None None))) (\<lambda>_. ensure_healthy)
              else ret ()) (\<lambda>_.
     bind_io (lift_res (selected_jobs ix None)) (\<lambda>jobs. daemon_jobs ix ensure_healthy allowed d jobs))))"

subsection \<open>The dates of a backfill\<close>

lemma date_range_upto: "date_range a b = (if b < date_max then Inr [a..b] else if a \<le> b then raise_res OverflowError ''date value out of range'' else Inr [])"
proof (induction a b rule: date_range.induct)
  case (1 a b)
  show ?case
  proof (cases "a > b \<or> a \<ge> date_max")
    case True
    then show ?thesis by (subst date_range.simps) auto
  next
    case False
    with 1 show ?thesis by (subst date_range.simps) (auto simp: upto_rec1)
  qed
qed

text \<open>Months in order.\<close>

definition month_index :: "int \<times> int \<Rightarrow> int" where
  "month_index = (\<lambda>(y, m). 12 * y + (m - 1))"

definition nth_month :: "int \<Rightarrow> int \<times> int" where
  "nth_month i = (i div 12, i mod 12 + 1)"

lemma nth_month_index: "is_month c \<Longrightarrow> nth_month (month_index c) = c"
  by (auto simp: nth_month_def month_index_def is_month_def split: prod.splits)

lemma nth_month_eq: "0 \<le> r \<Longrightarrow> r < 12 \<Longrightarrow> nth_month (12 * q + r) = (q, r + 1)"
  unfolding nth_month_def using int_div_pos_eq [of "12 * q + r" 12 q r] int_mod_pos_eq [of "12 * q + r" 12 q r] by simp

lemma nth_month_next: "next_month (nth_month i) = nth_month (i + 1)"
proof -
  obtain q r where i: "i = 12 * q + r" "0 \<le> r" "r < 12"
    using mult_div_mod_eq [of 12 i] pos_mod_sign [of 12 i] pos_mod_bound [of 12 i] by (metis zero_less_numeral)
  show ?thesis
  proof (cases "r = 11")
    case True
    with i have up: "i + 1 = 12 * (q + 1) + 0" by simp
    have "nth_month (i + 1) = (q + 1, 1)" unfolding up by (simp only: nth_month_eq [of 0]) simp
    moreover have "nth_month i = (q, 12)" unfolding i(1) True by (simp add: nth_month_eq)
    ultimately show ?thesis by (simp add: next_month_def)
  next
    case False
    with i have up: "i + 1 = 12 * q + (r + 1)" "r + 1 < 12" by simp_all
    have "nth_month (i + 1) = (q, r + 2)" unfolding up(1) using nth_month_eq [of "r + 1" q] up(2) i(2) by simp
    moreover have "nth_month i = (q, r + 1)" unfolding i(1) using i(2,3) by (rule nth_month_eq)
    ultimately show ?thesis using False by (simp add: next_month_def)
  qed
qed

lemma nth_month_is: "is_month (nth_month i)"
  unfolding nth_month_def is_month_def by simp

lemma last_day_strict: "last_day (nth_month i) < first_day (nth_month (i + 1 + int n))"
proof (induction n)
  case 0
  show ?case using first_day_next [OF nth_month_is [of i]] by (simp add: nth_month_next)
next
  case (Suc n)
  have "first_day (nth_month (i + 1 + int n)) < first_day (nth_month (i + 1 + int n + 1))"
    using month_advances [OF nth_month_is [of "i + 1 + int n"]] by (simp add: nth_month_next)
  with Suc show ?case by (simp add: algebra_simps)
qed

lemma months_separate:
  assumes "is_month c" "is_month c'" "first_day c \<le> last_day c'" "last_day c' \<le> last_day c"
  shows "c' = c"
proof -
  have lt: "last_day a < first_day b" if "is_month a" "is_month b" "month_index a < month_index b" for a b
  proof -
    define n where "n = nat (month_index b - month_index a - 1)"
    from that have "month_index b = month_index a + 1 + int n" by (simp add: n_def)
    with last_day_strict [of "month_index a" n] nth_month_index that show ?thesis by metis
  qed
  have "month_index c' = month_index c"
  proof (rule ccontr)
    assume "month_index c' \<noteq> month_index c"
    then consider "month_index c' < month_index c" | "month_index c < month_index c'" by linarith
    then show False
      using lt [OF assms(2,1)] lt [OF assms(1,2)] assms(3,4) first_day_le [OF assms(2)] by cases auto
  qed
  with nth_month_index assms(1,2) show ?thesis by metis
qed

definition month_end :: "date \<Rightarrow> bool" where
  "month_end e \<longleftrightarrow> (\<exists>c. is_month c \<and> last_day c = e)"

lemma month_ends_exact:
  assumes "month_ends c f t = Inr out" and "is_month c"
  shows "sorted_wrt (<) out \<and> set out = {e. f \<le> e \<and> e \<le> t \<and> first_day c \<le> e \<and> (e = t \<or> month_end e)}"
  using assms
proof (induction c f t arbitrary: out rule: month_ends.induct)
  case (1 c f t)
  show ?case
  proof (cases "first_day c > t")
    case True
    with "1.prems" show ?thesis by (subst (asm) month_ends.simps) auto
  next
    case False
    with "1.prems" obtain later where later: "c \<noteq> (9999, 12)" "month_ends (next_month c) f t = Inr later"
      "out = (if min (last_day c) t \<ge> f then [min (last_day c) t] else []) @ later"
      by (subst (asm) month_ends.simps) (auto simp: Let_def bind_res_Inr split: if_splits)
    have cond: "\<not> (\<not> is_month c \<or> t < first_day c)" using False "1.prems"(2) by simp
    from "1.IH" [OF cond refl refl later(1,2) is_month_next [OF "1.prems"(2)]]
    have IH: "sorted_wrt (<) later" "set later = {e. f \<le> e \<and> e \<le> t \<and> last_day c + 1 \<le> e \<and> (e = t \<or> month_end e)}"
      by (simp_all add: first_day_next [OF "1.prems"(2)])
    have here: "e = min (last_day c) t \<longleftrightarrow> e \<le> t \<and> (e = t \<or> month_end e)" if "first_day c \<le> e" "e \<le> last_day c" for e
    proof -
      have "month_end e \<Longrightarrow> e = last_day c" using months_separate [OF "1.prems"(2)] that by (auto simp: month_end_def)
      moreover have "month_end (last_day c)" unfolding month_end_def using "1.prems"(2) by blast
      ultimately show ?thesis using that by (auto simp: min_def)
    qed
    have out: "e \<in> set out \<longleftrightarrow> f \<le> e \<and> e = min (last_day c) t \<or> e \<in> set later" for e
      by (cases "f \<le> min (last_day c) t") (simp_all only: later(3) if_True if_False set_append set_simps, blast+)
    have "e \<in> set out \<longleftrightarrow> f \<le> e \<and> e \<le> t \<and> first_day c \<le> e \<and> (e = t \<or> month_end e)" for e
    proof (cases "e \<le> last_day c")
      case True
      then have "e \<notin> set later" unfolding IH(2) by simp
      with out have "e \<in> set out \<longleftrightarrow> f \<le> e \<and> e = min (last_day c) t" by blast
      also have "\<dots> \<longleftrightarrow> f \<le> e \<and> first_day c \<le> e \<and> e = min (last_day c) t"
        using False first_day_le [OF "1.prems"(2)] by (simp add: min_def) linarith
      also have "\<dots> \<longleftrightarrow> f \<le> e \<and> first_day c \<le> e \<and> e \<le> t \<and> (e = t \<or> month_end e)"
        using here [OF _ True] by blast
      finally show ?thesis by blast
    next
      case later_month: False
      then have "e \<noteq> min (last_day c) t" by linarith
      with out have "e \<in> set out \<longleftrightarrow> e \<in> set later" by blast
      with later_month first_day_le [OF "1.prems"(2)] show ?thesis unfolding IH(2) by fastforce
    qed
    then have set: "set out = {e. f \<le> e \<and> e \<le> t \<and> first_day c \<le> e \<and> (e = t \<or> month_end e)}" by blast
    have "sorted_wrt (<) out" using IH by (auto simp: later(3) min_def)
    with set show ?thesis by blast
  qed
qed


lemma month_ends_returns:
  assumes "t < first_day (9999, 12)"
  shows "\<exists>out. month_ends c f t = Inr out"
  using assms
proof (induction c f t rule: month_ends.induct)
  case (1 c f t)
  show ?case
  proof (cases "\<not> is_month c \<or> t < first_day c")
    case True
    then show ?thesis by (subst month_ends.simps) auto
  next
    case False
    then have "c \<noteq> (9999, 12)" using "1.prems" by auto
    moreover from "1.IH" [OF False refl refl this "1.prems"] obtain out where "month_ends (next_month c) f t = Inr out" by blast
    ultimately show ?thesis using False by (subst month_ends.simps) simp
  qed
qed

lemma backfill_range:
  assumes "is_month (y, m)" and "1 \<le> d" and "to_date < first_day (9999, 12)"
  shows "\<exists>ds. (if daily then date_range (civil_date y m d) to_date else month_end_dates (y, m, d) to_date) = Inr ds
    \<and> sorted_wrt (<) ds \<and> set ds = {e. civil_date y m d \<le> e \<and> e \<le> to_date \<and> (daily \<or> e = to_date \<or> month_end e)}"
proof (cases daily)
  case True
  have "first_day (9999, 12) < date_max" by (simp add: first_day_def civil_date_def days_before_year_def days_before_month_def date_max_def)
  with assms(3) True show ?thesis by (auto simp: date_range_upto)
next
  case False
  obtain out where out: "month_ends (y, m) (civil_date y m d) to_date = Inr out" using month_ends_returns [OF assms(3)] by blast
  note exact = month_ends_exact [OF out assms(1)]
  have first: "first_day (y, m) \<le> civil_date y m d" using assms(2) by (simp add: first_day_def civil_date_def)
  from exact have "distinct out" by (simp add: strict_sorted_iff)
  then have "month_end_dates (y, m, d) to_date = Inr out" by (simp add: month_end_dates_def out distinct_remdups_id)
  with exact first False show ?thesis by fastforce
qed

text \<open>Running the census of each date in turn, whatever the outcome of the others.\<close>

fun run_all :: "(date \<Rightarrow> ('s, 'a) io) \<Rightarrow> date list \<Rightarrow> 's \<Rightarrow> 'a res list \<times> 's" where
  "run_all run [] s = ([], s)"
| "run_all run (d # ds) s = (case run d s of (r, s1) \<Rightarrow> case run_all run ds s1 of (rs, s2) \<Rightarrow> (r # rs, s2))"

definition failed_dates :: "date list \<Rightarrow> 'a res list \<Rightarrow> string list" where
  "failed_dates ds rs = concat (map (\<lambda>(d, r). case r of Inl e \<Rightarrow> [failed_date d e] | Inr _ \<Rightarrow> []) (zip ds rs))"

lemma backfill_dates_all:
  "backfill_dates run ds failed s = (case run_all run ds s of (rs, s') \<Rightarrow> (Inr (failed @ failed_dates ds rs), s'))"
  by (induction ds arbitrary: failed s) (auto simp: failed_dates_def ret_def split: prod.splits sum.splits)

text \<open>
  C15: a backfill censuses every date of its range once, in order, and no failed date stops it.
  The dates are all days from the first to the last, or with \<open>daily\<close> off the ends of the months that
  end in the range and its last day. Each date's census runs after the previous one, whatever that
  raised; the backfill returns exactly when no date failed, and otherwise raises one error that
  counts the failed dates and names them. (The range ends before December 9999, where the step to the
  next month would leave the calendar.)
\<close>

theorem backfill_attempts_every_date:
  assumes "is_month (y, m)" and "1 \<le> d" and "to_date < first_day (9999, 12)"
    and "run_backfill ix (y, m, d) to_date job daily s = (res, s')"
  shows "\<exists>ds rs. sorted_wrt (<) ds
    \<and> set ds = {e. civil_date y m d \<le> e \<and> e \<le> to_date \<and> (daily \<or> e = to_date \<or> month_end e)}
    \<and> run_all (\<lambda>date. census ix date job) ds s = (rs, s')
    \<and> res = (if failed_dates ds rs = [] then Inr () else Inl (backfill_error (failed_dates ds rs) (length ds)))"
proof -
  from backfill_range [OF assms(1-3), of daily] obtain ds where ds:
    "(if daily then date_range (civil_date y m d) to_date else month_end_dates (y, m, d) to_date) = Inr ds"
    "sorted_wrt (<) ds" "set ds = {e. civil_date y m d \<le> e \<and> e \<le> to_date \<and> (daily \<or> e = to_date \<or> month_end e)}" by blast
  obtain rs t where all: "run_all (\<lambda>date. census ix date job) ds s = (rs, t)" by fastforce
  from assms(4) have "(if failed_dates ds rs = [] then Inr () else Inl (backfill_error (failed_dates ds rs) (length ds)), t) = (res, s')"
    unfolding run_backfill_def prod.case ds(1)
    by (auto simp: bind_io_def lift_res_def backfill_dates_all all raise_def ret_def split: if_splits)
  then have "res = (if failed_dates ds rs = [] then Inr () else Inl (backfill_error (failed_dates ds rs) (length ds)))" "t = s'"
    by simp_all
  with ds(2,3) all show ?thesis by blast
qed

theorem backfill_attempts_every_date_witness:
  "\<forall>s. \<exists>s'. run_backfill sample_indexer (1970, 1, 2) 1 (Some ''pools'') True s = (Inr (), s')
     \<and> run_all (\<lambda>date. census sample_indexer date (Some ''pools'')) [1] s = ([Inr [5]], s')"
proof
  fix s
  obtain res s' where run: "run_backfill sample_indexer (1970, 1, 2) 1 (Some ''pools'') True s = (res, s')" by fastforce
  have month: "is_month (1970, 1)" by (simp add: is_month_def)
  have bound: "1 < first_day (9999, 12)" by (simp add: first_day_def civil_date_def days_before_year_def days_before_month_def)
  have start: "civil_date 1970 1 2 = 1" by (simp add: civil_date_def days_before_year_def days_before_month_def)
  from backfill_attempts_every_date [OF month _ bound run] obtain ds rs where r: "sorted_wrt (<) ds" "set ds = {e. 1 \<le> e \<and> e \<le> 1}"
    "run_all (\<lambda>date. census sample_indexer date (Some ''pools'')) ds s = (rs, s')"
    "res = (if failed_dates ds rs = [] then Inr () else Inl (backfill_error (failed_dates ds rs) (length ds)))"
    unfolding start by auto
  from r(2) have "set ds = {1}" by auto
  with r(1) have ds: "ds = [1]" by (cases ds) (auto simp: subset_singleton_iff neq_Nil_conv)
  obtain s1 where "census sample_indexer 1 (Some ''pools'') s = (Inr [5], s1)" using sample_census unfolding syields_def by blast
  with r(3) have "rs = [Inr [5]]" by (simp add: ds)
  with r ds run show "\<exists>s'. run_backfill sample_indexer (1970, 1, 2) 1 (Some ''pools'') True s = (Inr (), s')
     \<and> run_all (\<lambda>date. census sample_indexer date (Some ''pools'')) [1] s = ([Inr [5]], s')" by (simp add: failed_dates_def)
qed

end
