(* ===== verification/Compute.thy ===== *)
theory Compute
  imports ClProfile CensusDay
begin

text \<open>
  The second layer (\<open>compute/\<close>, \<open>run_compute\<close> in \<open>service.py\<close>): the registry of compute modules, the
  wait for the census jobs behind their sources, and the run of the modules for a date. Pinging and
  closing the store, metrics and events are left out.
\<close>

subsection \<open>Waiting for the source census\<close>

type_synonym source_counts = "(string \<times> int \<times> int) list"

definition census_sources_ready :: "source_counts \<Rightarrow> bool" where
  "census_sources_ready counts \<longleftrightarrow> counts \<noteq> [] \<and> list_all (\<lambda>(_, started, published). published > 0 \<and> started = 0) counts"

record 'w compute_module =
  cm_name :: string
  cm_source_modes :: "string list"
  cm_compute :: "'w client \<Rightarrow> int \<Rightarrow> date \<Rightarrow> ('w session, nat) io"

definition cl_profile_module :: "'w compute_module" where
  "cl_profile_module = \<lparr>cm_name = ''cl_profile'', cm_source_modes = [''cl_liquidity''], cm_compute = compute_profile\<rparr>"

definition COMPUTE_REGISTRY :: "'w compute_module list" where
  "COMPUTE_REGISTRY = [cl_profile_module]"

definition compute_source_jobs :: "catalog \<Rightarrow> 'w compute_module \<Rightarrow> string list" where
  "compute_source_jobs cat m =
     (if cm_source_modes m = [] then []
      else sort (map jb_name (filter (\<lambda>job. integrity_mode_value (jb_integrity_mode job) \<in> set (cm_source_modes m)
             \<and> jb_cadence job = DAILY) (map snd (ct_jobs cat)))))"

text \<open>\<open>int(row.get(key, 0))\<close>\<close>

definition count_cell :: "row \<Rightarrow> string \<Rightarrow> int res" where
  "count_cell row c = (if map_of row c = None then Inr 0 else col_int row c)"

fun census_source_counts ::
  "'w client \<Rightarrow> int \<Rightarrow> date \<Rightarrow> string list \<Rightarrow> source_counts \<Rightarrow> ('w session, source_counts) io" where
  "census_source_counts db chain_id d [] counts = ret counts"
| "census_source_counts db chain_id d (job_name # job_names) counts =
     bind_io (query_rows db SQL_census_sources
       [(''chain_id'', CInt chain_id), (''job_name'', CText job_name), (''snapshot_date'', CDate d)] False) (\<lambda>rows.
     let row = (case rows of [] \<Rightarrow> [] | first # _ \<Rightarrow> first) in
     bind_io (lift_res (count_cell row ''started'')) (\<lambda>started.
     bind_io (lift_res (count_cell row ''published'')) (\<lambda>published.
       census_source_counts db chain_id d job_names (AList.update job_name (started, published) counts))))"

text \<open>What the wait depends on: the date of today, the monotonic clock, and sleeping.\<close>

record 'w compute_env =
  ce_store :: "'w client"
  ce_catalog :: catalog
  ce_today :: "('w, date) io"
  ce_clock :: "('w, rat) io"
  ce_sleep :: "rat \<Rightarrow> ('w, unit) io"
  ce_poll_seconds :: int

text \<open>\<open>int(x)\<close> of a float\<close>

definition int_of_float :: "rat \<Rightarrow> int" where
  "int_of_float x = (if x \<ge> 0 then \<lfloor>x\<rfloor> else \<lceil>x\<rceil>)"

text \<open>\<open>json.dumps(detail, sort_keys=True)\<close>\<close>

definition counts_text :: "source_counts \<Rightarrow> string" where
  "counts_text counts = ''{'' @ join '', '' (map (\<lambda>(name, started, published).
     dump_str name @ '': {'' @ dump_str ''published'' @ '': '' @ py_int published @ '', ''
       @ dump_str ''started'' @ '': '' @ py_int started @ ''}'') (sort_key fst counts)) @ ''}''"

definition not_complete :: "string \<Rightarrow> date \<Rightarrow> source_counts \<Rightarrow> exn" where
  "not_complete module_name d counts = Exn ServiceError
     (''compute '' @ module_name @ '' for '' @ date_iso d @ '': source census not complete ('' @ counts_text counts
      @ ''); computing now would write a partial day. Re-run once the daemon has published the day, or pass a longer --wait-seconds.'')"

text \<open>
  One poll: \<open>Inl ()\<close> when the sources are ready, and otherwise, after a pause, what the next poll has to
  compare with. \<open>_await_census_sources\<close> loops until it returns or raises; \<open>None\<close> is a loop that is
  still waiting when the given number of polls is used up.
\<close>

definition await_poll ::
  "'w compute_env \<Rightarrow> string list \<Rightarrow> date \<Rightarrow> string \<Rightarrow> int \<Rightarrow> bool \<Rightarrow> rat \<Rightarrow> source_counts option
   \<Rightarrow> ('w session, unit + source_counts option) io" where
  "await_poll ce job_names d module_name wait_seconds recent deadline settled =
     bind_io (census_source_counts (ce_store ce) (ch_chain_id (ct_chain (ce_catalog ce))) d job_names []) (\<lambda>counts.
     let ready = census_sources_ready counts in
     if ready \<and> (\<not> recent \<or> wait_seconds = 0 \<or> settled = Some counts) then ret (Inl ())
     else bind_io (on_world (ce_clock ce)) (\<lambda>t.
       let remaining = int_of_float (deadline - t) in
       if \<not> recent \<or> wait_seconds = 0 \<or> remaining \<le> 0 then raise (not_complete module_name d counts)
       else bind_io (on_world (ce_sleep ce (of_int (min (ce_poll_seconds ce) (max remaining 1))))) (\<lambda>_.
              ret (Inr (if ready then Some counts else None)))))"

fun await_loop ::
  "nat \<Rightarrow> 'w compute_env \<Rightarrow> string list \<Rightarrow> date \<Rightarrow> string \<Rightarrow> int \<Rightarrow> bool \<Rightarrow> rat \<Rightarrow> source_counts option
   \<Rightarrow> 'w session \<Rightarrow> (unit res \<times> 'w session) option" where
  "await_loop 0 ce job_names d module_name wait_seconds recent deadline settled s = None"
| "await_loop (Suc fuel) ce job_names d module_name wait_seconds recent deadline settled s =
     (case await_poll ce job_names d module_name wait_seconds recent deadline settled s of
        (Inl e, s1) \<Rightarrow> Some (Inl e, s1)
      | (Inr (Inl u), s1) \<Rightarrow> Some (Inr u, s1)
      | (Inr (Inr settled'), s1) \<Rightarrow> await_loop fuel ce job_names d module_name wait_seconds recent deadline settled' s1)"

definition await_start ::
  "'w compute_env \<Rightarrow> date \<Rightarrow> int \<Rightarrow> ('w session, bool \<times> rat) io" where
  "await_start ce d wait_seconds =
     bind_io (on_world (ce_today ce)) (\<lambda>reference.
     bind_io (on_world (ce_clock ce)) (\<lambda>t. ret (d \<ge> reference - 1, t + of_int wait_seconds)))"

definition await_census_sources ::
  "nat \<Rightarrow> 'w compute_env \<Rightarrow> string list \<Rightarrow> date \<Rightarrow> string \<Rightarrow> int \<Rightarrow> 'w session \<Rightarrow> (unit res \<times> 'w session) option" where
  "await_census_sources fuel ce job_names d module_name wait_seconds s =
     (case await_start ce d wait_seconds s of
        (Inl e, s1) \<Rightarrow> Some (Inl e, s1)
      | (Inr (recent, deadline), s1) \<Rightarrow> await_loop fuel ce job_names d module_name wait_seconds recent deadline None s1)"

subsection \<open>Computing\<close>

fun compute_modules ::
  "nat \<Rightarrow> 'w compute_env \<Rightarrow> date \<Rightarrow> int \<Rightarrow> 'w compute_module list \<Rightarrow> 'w session \<Rightarrow> (unit res \<times> 'w session) option" where
  "compute_modules fuel ce d wait_seconds [] s = Some (Inr (), s)"
| "compute_modules fuel ce d wait_seconds (m # ms) s =
     (let source_jobs = compute_source_jobs (ce_catalog ce) m in
      case (if source_jobs \<noteq> [] then await_census_sources fuel ce source_jobs d (cm_name m) wait_seconds s
            else Some (Inr (), s)) of
        None \<Rightarrow> None
      | Some (Inl e, s1) \<Rightarrow> Some (Inl e, s1)
      | Some (Inr _, s1) \<Rightarrow>
          (case cm_compute m (ce_store ce) (ch_chain_id (ct_chain (ce_catalog ce))) d s1 of
             (Inl e, s2) \<Rightarrow> Some (Inl e, s2)
           | (Inr written, s2) \<Rightarrow> compute_modules fuel ce d wait_seconds ms s2))"

definition run_compute ::
  "nat \<Rightarrow> 'w compute_env \<Rightarrow> 'w compute_module list \<Rightarrow> date \<Rightarrow> string option \<Rightarrow> int \<Rightarrow> 'w session \<Rightarrow> (unit res \<times> 'w session) option" where
  "run_compute fuel ce registry d module_name wait_seconds s =
     (let modules = filter (\<lambda>m. module_name = None \<or> module_name = Some (cm_name m)) registry in
      if module_name \<noteq> None \<and> modules = []
      then Some (Inl (Exn ServiceError (''unknown compute module '' @ repr_str (the module_name) @ ''; known: ''
                   @ join '', '' (sort (map cm_name registry)))), s)
      else compute_modules fuel ce d wait_seconds modules s)"

subsection \<open>Computing waits for complete days\<close>

text \<open>
  The sources of a date were complete: a poll answered counts with every job published and no attempt
  in flight, and for a recent date that may wait an earlier poll had answered the same counts.
\<close>

definition polled :: "'w compute_env \<Rightarrow> string list \<Rightarrow> date \<Rightarrow> source_counts \<Rightarrow> 'w session \<Rightarrow> 'w session \<Rightarrow> bool" where
  "polled ce job_names d counts t t1 \<longleftrightarrow>
     census_source_counts (ce_store ce) (ch_chain_id (ct_chain (ce_catalog ce))) d job_names [] t = (Inr counts, t1)"

definition sources_complete :: "'w compute_env \<Rightarrow> string list \<Rightarrow> date \<Rightarrow> int \<Rightarrow> bool" where
  "sources_complete ce job_names d wait_seconds \<longleftrightarrow> (\<exists>counts t t1. polled ce job_names d counts t t1
     \<and> census_sources_ready counts
     \<and> (\<exists>reference w w'. ce_today ce w = (Inr reference, w')
          \<and> (d < reference - 1 \<or> wait_seconds = 0 \<or> (\<exists>t' t1'. polled ce job_names d counts t' t1'))))"

lemma writes_source_counts: "writes P (census_source_counts db c d names counts)"
  by (induction names arbitrary: counts) (auto simp: Let_def intro!: writes_intros)

lemma writes_await_poll: "writes P (await_poll ce names d m w recent deadline settled)"
  by (auto simp: await_poll_def Let_def intro!: writes_intros writes_source_counts)

lemma await_poll_ready:
  assumes "await_poll ce names d m w recent deadline settled s = (Inr (Inl u), s1)"
  shows "\<exists>counts t t1. polled ce names d counts t t1 \<and> census_sources_ready counts \<and> (\<not> recent \<or> w = 0 \<or> settled = Some counts)"
  using assms by (auto simp: await_poll_def polled_def io_simps ret_def raise_def Let_def split: if_splits)

lemma await_poll_waits:
  assumes "await_poll ce names d m w recent deadline settled s = (Inr (Inr settled'), s1)"
  shows "settled' = None \<or> (\<exists>counts t t1. polled ce names d counts t t1 \<and> settled' = Some counts)"
  using assms by (auto simp: await_poll_def polled_def io_simps ret_def raise_def Let_def split: if_splits)

lemma await_loop_ready:
  assumes "await_loop fuel ce names d m w recent deadline settled s = Some (res, s')"
    and "settled = None \<or> (\<exists>counts t t1. polled ce names d counts t t1 \<and> settled = Some counts)"
  shows "ss_journal s' = ss_journal s \<and> (res = Inr u \<longrightarrow> (\<exists>counts t t1. polled ce names d counts t t1 \<and> census_sources_ready counts
      \<and> (\<not> recent \<or> w = 0 \<or> (\<exists>t' t1'. polled ce names d counts t' t1'))))"
  using assms
proof (induction fuel arbitrary: settled s)
  case (Suc fuel)
  obtain r s1 where p: "await_poll ce names d m w recent deadline settled s = (r, s1)" by fastforce
  have quiet: "ss_journal s1 = ss_journal s"
    using writesD [OF writes_await_poll [of "\<lambda>_. False"] p] by (simp add: list_all_False)
  consider (raised) e where "r = Inl e" | (ready) v where "r = Inr (Inl v)" | (wait) later where "r = Inr (Inr later)"
    by (metis sumE)
  then show ?case
  proof cases
    case raised
    with Suc.prems(1) p quiet show ?thesis by auto
  next
    case ready
    from await_poll_ready [OF p [unfolded ready]] Suc.prems(2) have
      "\<exists>counts t t1. polled ce names d counts t t1 \<and> census_sources_ready counts
         \<and> (\<not> recent \<or> w = 0 \<or> (\<exists>t' t1'. polled ce names d counts t' t1'))" by blast
    with Suc.prems(1) p quiet ready show ?thesis by simp
  next
    case wait
    with Suc.prems(1) p have "await_loop fuel ce names d m w recent deadline later s1 = Some (res, s')" by simp
    from Suc.IH [OF this await_poll_waits [OF p [unfolded wait]]] quiet show ?thesis by simp
  qed
qed simp

lemma await_ready:
  assumes "await_census_sources fuel ce names d m w s = Some (res, s')"
  shows "ss_journal s' = ss_journal s \<and> (res = Inr u \<longrightarrow> sources_complete ce names d w)"
proof -
  obtain r s1 where st: "await_start ce d w s = (r, s1)" by fastforce
  have "writes (\<lambda>_. False) (await_start ce d w)" by (auto simp: await_start_def intro!: writes_intros)
  from writesD [OF this st] have quiet: "ss_journal s1 = ss_journal s" by (simp add: list_all_False)
  show ?thesis
  proof (cases r)
    case (Inl e)
    with assms st quiet show ?thesis by (auto simp: await_census_sources_def)
  next
    case (Inr v)
    obtain recent deadline where v: "v = (recent, deadline)" by fastforce
    from st [unfolded Inr v] obtain reference v1 v2 where
      today: "ce_today ce v1 = (Inr reference, v2)" and recent: "recent \<longleftrightarrow> d \<ge> reference - 1"
      by (auto simp: await_start_def io_simps ret_def dest!: on_world_Inr)
    from assms st Inr v have "await_loop fuel ce names d m w recent deadline None s1 = Some (res, s')"
      by (simp add: await_census_sources_def)
    from await_loop_ready [OF this] quiet have "ss_journal s' = ss_journal s"
      "res = Inr u \<longrightarrow> (\<exists>counts t t1. polled ce names d counts t t1 \<and> census_sources_ready counts
         \<and> (\<not> recent \<or> w = 0 \<or> (\<exists>t' t1'. polled ce names d counts t' t1')))" by auto
    with today recent show ?thesis unfolding sources_complete_def by (meson not_le)
  qed
qed


text \<open>One module that ran, with the rows it wrote, over complete sources.\<close>

definition module_ran :: "'w compute_env \<Rightarrow> date \<Rightarrow> int \<Rightarrow> 'w compute_module \<Rightarrow> insertion list \<Rightarrow> unit res \<Rightarrow> bool" where
  "module_ran ce d w m l ended \<longleftrightarrow>
     (\<exists>t t1 r. cm_compute m (ce_store ce) (ch_chain_id (ct_chain (ce_catalog ce))) d t = (r, t1)
        \<and> ss_journal t1 = ss_journal t @ l \<and> ended = (case r of Inl e \<Rightarrow> Inl e | Inr written \<Rightarrow> Inr ()))
     \<and> (compute_source_jobs (ce_catalog ce) m \<noteq> [] \<longrightarrow> sources_complete ce (compute_source_jobs (ce_catalog ce) m) d w)"

text \<open>The modules that ran, in order: all of them, or a prefix whose last one or whose wait raised.\<close>

definition modules_ran :: "'w compute_env \<Rightarrow> date \<Rightarrow> int \<Rightarrow> 'w compute_module list \<Rightarrow> insertion list \<Rightarrow> unit res \<Rightarrow> bool" where
  "modules_ran ce d w ms l res \<longleftrightarrow> (\<exists>ran later pieces. ms = ran @ later \<and> l = concat pieces
     \<and> list_all2 (\<lambda>m piece. \<exists>ended. module_ran ce d w m piece ended \<and> (res = Inr () \<longrightarrow> ended = Inr ())) ran pieces
     \<and> (res = Inr () \<longrightarrow> later = []))"

lemma modules_ran_Nil: "modules_ran ce d w ms [] (Inl e)"
  unfolding modules_ran_def by (intro exI [of _ "[]"] exI [of _ ms]) simp

lemma modules_ran_Cons:
  assumes "module_ran ce d w m k (Inr ())" and "modules_ran ce d w ms l res"
  shows "modules_ran ce d w (m # ms) (k @ l) res"
proof -
  from assms(2) obtain ran later pieces where p: "ms = ran @ later" "l = concat pieces"
    "list_all2 (\<lambda>m piece. \<exists>ended. module_ran ce d w m piece ended \<and> (res = Inr () \<longrightarrow> ended = Inr ())) ran pieces"
    "res = Inr () \<longrightarrow> later = []"
    unfolding modules_ran_def by blast
  with assms(1) show ?thesis unfolding modules_ran_def
    by (intro exI [of _ "m # ran"] exI [of _ later] exI [of _ "k # pieces"]) auto
qed

lemma compute_modules_ran:
  assumes "\<forall>m \<in> set ms. \<forall>c. writes (\<lambda>_. True) (cm_compute m (ce_store ce) c d)"
    and "compute_modules fuel ce d w ms s = Some (res, s')"
  shows "\<exists>l. ss_journal s' = ss_journal s @ l \<and> modules_ran ce d w ms l res"
  using assms
proof (induction ms arbitrary: s)
  case Nil
  then have "s' = s" "modules_ran ce d w [] [] res" by (auto simp: modules_ran_def)
  then show ?case by auto
next
  case (Cons m ms)
  let ?jobs = "compute_source_jobs (ce_catalog ce) m"
  from Cons.prems(2) obtain r s1 where a: "(if ?jobs \<noteq> [] then await_census_sources fuel ce ?jobs d (cm_name m) w s
      else Some (Inr (), s)) = Some (r, s1)"
    and rest: "(case r of Inl e \<Rightarrow> Some (Inl e, s1)
      | Inr _ \<Rightarrow> (case cm_compute m (ce_store ce) (ch_chain_id (ct_chain (ce_catalog ce))) d s1 of
             (Inl e, s2) \<Rightarrow> Some (Inl e, s2)
           | (Inr written, s2) \<Rightarrow> compute_modules fuel ce d w ms s2)) = Some (res, s')"
    by (auto simp: Let_def split: option.splits sum.splits prod.splits if_splits)
  have waited: "ss_journal s1 = ss_journal s \<and> (r = Inr () \<longrightarrow> ?jobs \<noteq> [] \<longrightarrow> sources_complete ce ?jobs d w)"
  proof (cases "?jobs = []")
    case True
    with a show ?thesis by simp
  next
    case False
    with a have "await_census_sources fuel ce ?jobs d (cm_name m) w s = Some (r, s1)" by simp
    from await_ready [OF this] show ?thesis by simp
  qed
  show ?case
  proof (cases r)
    case (Inl e)
    with rest waited modules_ran_Nil show ?thesis by fastforce
  next
    case (Inr u)
    obtain q s2 where c: "cm_compute m (ce_store ce) (ch_chain_id (ct_chain (ce_catalog ce))) d s1 = (q, s2)" by fastforce
    from Cons.prems(1) have "writes (\<lambda>_. True) (cm_compute m (ce_store ce) (ch_chain_id (ct_chain (ce_catalog ce))) d)" by simp
    from writesD [OF this c] obtain k where k: "ss_journal s2 = ss_journal s1 @ k" by blast
    have "?jobs \<noteq> [] \<longrightarrow> sources_complete ce ?jobs d w" using waited Inr by simp
    then have ran: "module_ran ce d w m k (case q of Inl e \<Rightarrow> Inl e | Inr written \<Rightarrow> Inr ())"
      unfolding module_ran_def using c k by blast
    show ?thesis
    proof (cases q)
      case (Inl e)
      with rest \<open>r = Inr u\<close> c have "res = Inl e" "s' = s2" by simp_all
      moreover have "modules_ran ce d w (m # ms) k (Inl e)" unfolding modules_ran_def
        using ran Inl by (intro exI [of _ "[m]"] exI [of _ ms] exI [of _ "[k]"]) auto
      ultimately show ?thesis using k waited by auto
    next
      case (Inr n)
      with rest \<open>r = Inr u\<close> c have "compute_modules fuel ce d w ms s2 = Some (res, s')" by simp
      from Cons.IH [OF _ this] Cons.prems(1) obtain l where l: "ss_journal s' = ss_journal s2 @ l" "modules_ran ce d w ms l res"
        by auto
      from ran Inr have "module_ran ce d w m k (Inr ())" by simp
      from modules_ran_Cons [OF this l(2)] l(1) k waited show ?thesis by auto
    qed
  qed
qed

lemma writes_compute_profile: "writes (\<lambda>_. True) (compute_profile db c d)"
proof -
  have "writes (\<lambda>_. True) (compute_states db c d rows n)" for rows n
    by (induction rows arbitrary: n) (auto simp: Let_def intro!: writes_intros split: list.split)
  then show ?thesis by (auto simp: compute_profile_def intro!: writes_intros)
qed



definition ready_env :: "unit compute_env" where
  "ready_env = \<lparr>ce_store = sample_client\<lparr>db_query := (\<lambda>q _ _. ret (if q = SQL_census_sources
        then [[(''started'', CInt 0), (''published'', CInt 3)]] else []))\<rparr>,
     ce_catalog = daily_catalog\<lparr>ct_jobs := [(''cl'', plain_job\<lparr>jb_name := ''cl'', jb_integrity_mode := CL_LIQUIDITY\<rparr>)]\<rparr>,
     ce_today = ret 10, ce_clock = ret 0, ce_sleep = (\<lambda>_. ret ()), ce_poll_seconds = 30\<rparr>"

lemma ready_jobs: "compute_source_jobs (ce_catalog ready_env) cl_profile_module = [''cl'']"
  by (simp add: compute_source_jobs_def ready_env_def cl_profile_module_def plain_job_def sample_job_def)

lemma ready_computes: "run_compute 1 ready_env COMPUTE_REGISTRY 0 None 60 s = Some (Inr (), s)"
proof -
  have poll: "census_source_counts (ce_store ready_env) c 0 [''cl''] [] s = (Inr [(''cl'', 0, 3)], s)" for c
    by (simp add: ready_env_def query_rows_def on_world_def ret_def bind_io_def lift_res_def count_cell_def col_int_def
        lookup_key_def cell_int_def)
  have start: "await_start ready_env 0 60 s = (Inr (False, 60), s)"
    by (simp add: await_start_def ready_env_def on_world_def ret_def bind_io_def)
  have settled: "await_poll ready_env [''cl''] 0 (cm_name cl_profile_module) 60 False 60 None s = (Inr (Inl ()), s)"
    unfolding await_poll_def by (simp only: bind_io_def poll prod.case sum.case) (simp add: census_sources_ready_def ret_def)
  have wait: "await_census_sources 1 ready_env [''cl''] 0 (cm_name cl_profile_module) 60 s = Some (Inr (), s)"
    by (simp add: await_census_sources_def start settled)
  have profile: "cm_compute cl_profile_module (ce_store ready_env) c 0 s = (Inr 0, s)" for c
    by (simp add: cl_profile_module_def compute_profile_def ready_env_def query_rows_def on_world_def ret_def bind_io_def)
  show ?thesis
    unfolding run_compute_def COMPUTE_REGISTRY_def by (simp add: ready_jobs wait [simplified] profile)
qed


subsection \<open>Waiting ends\<close>

text \<open>
  What the wait relies on: the clock tells the time and does not go back, a sleep takes at least as
  long as asked, and a query does not turn time back.
\<close>

definition steady :: "('w \<Rightarrow> rat) \<Rightarrow> 'w compute_env \<Rightarrow> bool" where
  "steady time ce \<longleftrightarrow>
     (\<forall>w r w'. ce_clock ce w = (r, w') \<longrightarrow> time w \<le> time w' \<and> (\<forall>t. r = Inr t \<longrightarrow> time w \<le> t \<and> t \<le> time w'))
     \<and> (\<forall>q w u w'. ce_sleep ce q w = (Inr u, w') \<longrightarrow> time w + q \<le> time w')
     \<and> (\<forall>q p c w r w'. db_query (ce_store ce) q p c w = (r, w') \<longrightarrow> time w \<le> time w')"

lemma counts_time:
  assumes "steady time ce" and "census_source_counts (ce_store ce) c d names counts s = (r, s')"
  shows "time (ss_world s) \<le> time (ss_world s')"
  using assms(2)
proof (induction names arbitrary: counts s)
  case (Cons name names)
  obtain q s1 where m: "query_rows (ce_store ce) SQL_census_sources
       [(''chain_id'', CInt c), (''job_name'', CText name), (''snapshot_date'', CDate d)] False s = (q, s1)" by fastforce
  with assms(1) have t: "time (ss_world s) \<le> time (ss_world s1)"
    by (auto simp: query_rows_def on_world_def steady_def split: prod.splits)
  from Cons.prems m have "s' = s1 \<or> (\<exists>counts'. census_source_counts (ce_store ce) c d names counts' s1 = (r, s'))"
    by (auto simp: bind_io_def lift_res_def Let_def split: sum.splits)
  with Cons.IH t show ?case by fastforce
qed (simp add: ret_def)

lemma await_poll_time:
  assumes "steady time ce" and "1 \<le> ce_poll_seconds ce"
    and "await_poll ce names d m w recent deadline settled s = (Inr (Inr later), s1)"
  shows "1 \<le> deadline - time (ss_world s) \<and> time (ss_world s) + 1 \<le> time (ss_world s1)"
proof -
  let ?counts = "census_source_counts (ce_store ce) (ch_chain_id (ct_chain (ce_catalog ce))) d names []"
  from assms(3) obtain counts t s2 s3 where p: "?counts s = (Inr counts, s2)"
    "on_world (ce_clock ce) s2 = (Inr t, s3)" "\<not> int_of_float (deadline - t) \<le> 0"
    "on_world (ce_sleep ce (of_int (min (ce_poll_seconds ce) (max (int_of_float (deadline - t)) 1)))) s3 = (Inr (), s1)"
    by (auto simp: await_poll_def io_simps ret_def raise_def Let_def split: if_splits)
  from counts_time [OF assms(1) p(1)] have a: "time (ss_world s) \<le> time (ss_world s2)" .
  from p(2) assms(1) have b: "time (ss_world s2) \<le> t \<and> t \<le> time (ss_world s3)"
    by (auto simp: on_world_def steady_def split: prod.splits)
  from p(4) assms(1) have "time (ss_world s3) + of_int (min (ce_poll_seconds ce) (max (int_of_float (deadline - t)) 1)) \<le> time (ss_world s1)"
    by (auto simp: on_world_def steady_def split: prod.splits)
  moreover have "(1 :: rat) \<le> of_int (min (ce_poll_seconds ce) (max (int_of_float (deadline - t)) 1))"
    using assms(2) by simp
  ultimately have c: "time (ss_world s3) + 1 \<le> time (ss_world s1)" by linarith
  from p(3) have "1 \<le> deadline - t"
    by (auto simp: int_of_float_def split: if_splits)
  with a b c show ?thesis by linarith
qed

lemma await_loop_ends:
  assumes "steady time ce" and "1 \<le> ce_poll_seconds ce" and "deadline - time (ss_world s) < of_nat fuel" and "0 < fuel"
  shows "await_loop fuel ce names d m w recent deadline settled s \<noteq> None"
  using assms(3,4)
proof (induction fuel arbitrary: settled s)
  case (Suc fuel)
  obtain r s1 where p: "await_poll ce names d m w recent deadline settled s = (r, s1)" by fastforce
  show ?case
  proof (cases "\<exists>later. r = Inr (Inr later)")
    case True
    then obtain later where later: "r = Inr (Inr later)" by blast
    note time = await_poll_time [OF assms(1,2) p [unfolded later]]
    with Suc.prems(1) have "deadline - time (ss_world s1) < of_nat fuel" "fuel \<noteq> 0" by (auto intro: ccontr)
    then have "await_loop fuel ce names d m w recent deadline later s1 \<noteq> None" using Suc.IH by blast
    with p later show ?thesis by simp
  next
    case False
    with p show ?thesis by (auto split: sum.splits)
  qed
qed simp

text \<open>
  C14: waiting for the source census ends. With a clock and a sleep that behave as documented and a
  positive poll interval, \<open>wait_seconds + 1\<close> polls are enough for \<open>_await_census_sources\<close> to return or
  raise, whatever the store answers.
\<close>

theorem await_census_sources_ends:
  assumes "steady time ce" and "1 \<le> ce_poll_seconds ce" and "nat w < fuel"
  shows "\<exists>res s'. await_census_sources fuel ce names d m w s = Some (res, s')"
proof -
  obtain r s1 where st: "await_start ce d w s = (r, s1)" by fastforce
  have "await_census_sources fuel ce names d m w s \<noteq> None"
  proof (cases r)
    case (Inl e)
    with st show ?thesis by (simp add: await_census_sources_def)
  next
    case (Inr v)
    obtain recent deadline where v: "v = (recent, deadline)" by fastforce
    from st [unfolded Inr v] obtain t s2 where t: "on_world (ce_clock ce) s2 = (Inr t, s1)" "deadline = t + of_int w"
      by (auto simp: await_start_def io_simps ret_def)
    from t(1) assms(1) have "t \<le> time (ss_world s1)" by (auto simp: on_world_def steady_def split: prod.splits)
    moreover have "of_int w < (of_nat fuel :: rat)"
      using assms(3) by (metis less_nat_zero_code not_less of_int_less_iff of_int_of_nat_eq zless_nat_conj nat_less_iff linorder_not_less order_less_le_trans of_nat_0_le_iff)
    ultimately have "deadline - time (ss_world s1) < of_nat fuel" using t(2) by linarith
    from await_loop_ends [OF assms(1,2) this] assms(3) st Inr v show ?thesis by (simp add: await_census_sources_def)
  qed
  then show ?thesis by auto
qed


text \<open>A world that is the time, a store that never knows of a publication.\<close>

definition tick_env :: "rat compute_env" where
  "tick_env = \<lparr>ce_store = \<lparr>db_insert = (\<lambda>_ _ _ _. ret ()), db_query = (\<lambda>_ _ _. ret []), db_now = ret 0, db_uuid4 = ret 5\<rparr>,
     ce_catalog = daily_catalog, ce_today = ret 0, ce_clock = (\<lambda>t. (Inr t, t)), ce_sleep = (\<lambda>q t. (Inr (), t + q)),
     ce_poll_seconds = 30\<rparr>"

theorem await_census_sources_ends_witness:
  "\<exists>res s'. await_census_sources 61 tick_env [''pools''] 0 ''cl_profile'' 60 \<lparr>ss_world = 0, ss_journal = []\<rparr> = Some (res, s')"
proof -
  have "steady (\<lambda>t. t) tick_env" by (auto simp: steady_def tick_env_def ret_def)
  from await_census_sources_ends [OF this] show ?thesis by (simp add: tick_env_def)
qed

end
