(* ===== verification/Serving.thy ===== *)
theory Serving
  imports Bench Backfill Compute Capabilities
begin

text \<open>
  How a service is put together: the runtime (\<open>runtime.py\<close>) with its endpoints, clients, executors and
  code verifier, the census runner over it, the safety probes at start, and the benchmark command
  (\<open>service.py\<close>). The world of the parts is the state of the client with the verifier's cache; the
  store is a parameter that works on the same world. The limits on concurrent requests and parallel
  batches do not appear, since calls run one after the other.
\<close>

subsection \<open>The runtime\<close>

record runtime_settings =
  se_endpoints :: "(string \<times> string \<times> string) list"
  se_requests_per_second :: rat
  se_rpc_concurrency :: int
  se_max_retries :: int
  se_multicall_batch_size :: int
  se_multicall_max_parallel_batches :: int
  se_legacy_rpc_batch_size :: int
  se_archive_probe_floor_block :: "int option"
  se_holder_sum_relative_tolerance :: decimal
  se_cl_min_active_liquidity :: int
  se_skip_published_any_config_hash :: bool
  se_discovered_quarantine_threshold :: int

definition new_endpoint :: "rat \<Rightarrow> string \<times> string \<times> string \<Rightarrow> rpc_endpoint res" where
  "new_endpoint requests_per_second = (\<lambda>(name, url, provider_group).
     if requests_per_second \<le> 0 then raise_res ValueError ''requests_per_second must be positive''
     else Inr \<lparr>ep_name = name, ep_url = url, ep_provider_group = provider_group,
       ep_requests_per_second = requests_per_second, ep_supports_http_batch = True, ep_supports_eip1898 = False,
       ep_archive_from_block = None, ep_has_client = True, ep_healthy = True, ep_consecutive_failures = 0,
       ep_cooldown_until = 0, ep_archive_unavailable_through = None, ep_next_at = 0\<rparr>)"

definition mk_client :: "int \<Rightarrow> int \<Rightarrow> client_config res" where
  "mk_client concurrency max_retries =
     (if concurrency < 1 \<or> max_retries < 1 then raise_res ValueError ''concurrency and max_retries must be positive''
      else Inr \<lparr>cc_max_retries = nat max_retries, cc_retry_base_seconds = 1 / 4\<rparr>)"

definition mk_router :: "int \<Rightarrow> 's executor_fun \<Rightarrow> 's executor_fun \<Rightarrow> 's executor_fun res" where
  "mk_router deployment_block multicall legacy =
     (if deployment_block < 0 then raise_res ValueError ''deployment block must not be negative''
      else Inr (router_execute deployment_block multicall legacy))"

definition mk_verifier ::
  "'w env \<Rightarrow> ext \<Rightarrow> int \<Rightarrow> (string \<Rightarrow> block_ref \<Rightarrow> string option \<Rightarrow> ('w code_state, code_evidence) io) res" where
  "mk_verifier env ex quorum =
     (if quorum < 2 then raise_res ValueError ''number-provider quorum must be at least two''
      else Inr (verify env ex quorum))"

record 'w runtime =
  rt_state :: "'w code_state"
  rt_client :: client_config
  rt_execute :: "'w code_state executor_fun"
  rt_verify :: "string \<Rightarrow> block_ref \<Rightarrow> string option \<Rightarrow> ('w code_state, code_evidence) io"

definition build_rpc_runtime :: "'w env \<Rightarrow> ext \<Rightarrow> runtime_settings \<Rightarrow> catalog \<Rightarrow> 'w \<Rightarrow> 'w runtime res" where
  "build_rpc_runtime env ex se cat w =
     (let multicall = ch_multicall3 (ct_chain cat);
          quorum = nf_required_provider_quorum (le_number_fallback (ch_legacy_execution (ct_chain cat))) in
      bind_res (map_res (new_endpoint (se_requests_per_second se)) (se_endpoints se)) (\<lambda>endpoints.
      bind_res (mk_pool endpoints w) (\<lambda>pool.
      bind_res (mk_client (se_rpc_concurrency se) (se_max_retries se)) (\<lambda>cfg.
      bind_res (mk_multicall (ms_address multicall) (ms_deployment_block multicall) (se_multicall_batch_size se)
                  (if se_multicall_max_parallel_batches se = 0 then se_rpc_concurrency se
                   else se_multicall_max_parallel_batches se)) (\<lambda>mc.
      bind_res (mk_legacy (se_legacy_rpc_batch_size se) quorum) (\<lambda>lc.
      bind_res (mk_router (ms_deployment_block multicall) (mc_execute env cfg ex mc) (legacy_execute env cfg lc)) (\<lambda>router.
      bind_res (mk_verifier env ex quorum) (\<lambda>verifier.
        Inr \<lparr>rt_state = \<lparr>cv_rpc = pool, cv_cache = []\<rparr>, rt_client = cfg,
             rt_execute = (\<lambda>calls anchor. on_rpc (router calls anchor)), rt_verify = verifier\<rparr>))))))))"

definition earliest_archive_probe_token :: "catalog \<Rightarrow> token_config res" where
  "earliest_archive_probe_token cat =
     (case filter tc_enabled (map snd (ct_tokens cat)) of
        [] \<Rightarrow> raise_res ValueError ''at least one enabled token is required for the archive capability probe''
      | first # rest \<Rightarrow> Inr (fold (\<lambda>token best.
          if tc_deployment_block token < tc_deployment_block best
             \<or> tc_deployment_block token = tc_deployment_block best \<and> tc_address token < tc_address best
          then token else best) rest first))"

subsection \<open>The census runner\<close>

definition service_runner ::
  "ext \<Rightarrow> runtime_settings \<Rightarrow> 'w runtime \<Rightarrow> 'w code_state client \<Rightarrow> csv_reader \<Rightarrow> (string \<Rightarrow> bytes res) \<Rightarrow> (rat \<Rightarrow> string)
   \<Rightarrow> catalog \<Rightarrow> 'w code_state census_runner res" where
  "service_runner ex se rt store csv read_bytes float_text cat =
     (let tokens = map snd (ct_tokens cat) in
      bind_res (mk_universe_resolver (ch_chain_id (ct_chain cat)) (ct_universes cat) (holder_members store)
                  (explicit_addresses csv cat)
                  (map (\<lambda>t. (tc_address t, tc_seed_holders t)) (filter (\<lambda>t. tc_seed_holders t \<noteq> []) tokens))
                  (map (\<lambda>t. (tc_address t, tc_universe_aliases t)) (filter (\<lambda>t. tc_universe_aliases t \<noteq> []) tokens)))
        (\<lambda>universes.
         Inr \<lparr>cn_catalog = cat, cn_read_bytes = read_bytes, cn_float_text = float_text, cn_store = store,
              cn_universes = universes, cn_execute = rt_execute rt, cn_ext = ex,
              cn_tolerance = se_holder_sum_relative_tolerance se, cn_verify = rt_verify rt,
              cn_balancer = Some \<lparr>bp_v2_vault = bc_v2_vault (ch_balancer (ct_chain cat)),
                                  bp_v3_vault = bc_v3_vault (ch_balancer (ct_chain cat))\<rparr>,
              cn_cl = Some (se_cl_min_active_liquidity se)\<rparr>))"

subsection \<open>The probes at start\<close>

text \<open>
  A failed endpoint gets the cooldown \<open>float("inf")\<close>; \<open>never\<close> stands for it, a time that no clock
  reaches. \<open>successful\<close> are the names of the endpoints that passed.
\<close>

fun probe_each ::
  "'w env \<Rightarrow> ext \<Rightarrow> rat \<Rightarrow> probe_config \<Rightarrow> rpc_endpoint list \<Rightarrow> string list \<Rightarrow> ('w, string list) rpc" where
  "probe_each env ex never p [] successful = ret successful"
| "probe_each env ex never p (endpoint # rest) successful = (\<lambda>s.
     case probe_endpoint_capabilities env ex endpoint p s of
       (Inl e, s1) \<Rightarrow>
         bind_io (update_endpoint (ep_name endpoint) (\<lambda>x. x\<lparr>ep_healthy := False, ep_cooldown_until := never\<rparr>))
           (\<lambda>_. probe_each env ex never p rest successful) s1
     | (Inr capability, s1) \<Rightarrow> probe_each env ex never p rest (successful @ [ep_name endpoint]) s1)"

definition probe_endpoints ::
  "'w env \<Rightarrow> ext \<Rightarrow> rat \<Rightarrow> runtime_settings \<Rightarrow> catalog \<Rightarrow> ('w, unit) rpc" where
  "probe_endpoints env ex never se cat =
     (let chain = ct_chain cat; multicall = ch_multicall3 chain in
      case ms_runtime_code_hash multicall of
        None \<Rightarrow> raise (Exn ServiceError ''Multicall3 runtime hash is not pinned'')
      | Some expected_hash \<Rightarrow>
          bind_io (lift_res (earliest_archive_probe_token cat)) (\<lambda>archive_token s.
          let p = \<lparr>pr_expected_chain_id = ch_chain_id chain, pr_finality_tag = ch_finality_tag chain,
                   pr_multicall_address = ms_address multicall, pr_multicall_deployment_block = ms_deployment_block multicall,
                   pr_expected_multicall_code_hash = expected_hash, pr_archive_probe_address = tc_address archive_token,
                   pr_archive_probe_block = archive_probe_block (tc_deployment_block archive_token) (se_archive_probe_floor_block se),
                   pr_archive_probe_calldata = ''0x'' @ bytes_hex TOTAL_SUPPLY_SELECTOR\<rparr> in
          bind_io (probe_each env ex never p (st_endpoints s) []) (\<lambda>successful s1.
            let passed = filter (\<lambda>x. ep_name x \<in> set successful) (st_endpoints s1);
                groups = remdups (map ep_provider_group passed);
                required = nf_required_provider_quorum (le_number_fallback (ch_legacy_execution chain)) in
            if successful = [] then raise (Exn ServiceError ''no RPC endpoint passed the safety probes'') s1
            else if \<not> list_ex ep_supports_eip1898 passed \<and> int (length groups) < required
            then raise (Exn ServiceError (''no EIP-1898 endpoint and insufficient independent provider groups for number/hash quorum (''
                    @ py_int (int (length groups)) @ ''/'' @ py_int required @ '')'')) s1
            else ret () s1) s))"


subsection \<open>From the chain to the published rows\<close>

lemma on_rpc_executor:
  assumes "executor m"
  shows "executor (\<lambda>calls anchor. on_rpc (m calls anchor))"
proof
  fix calls anchor s bs s'
  assume "on_rpc (m calls anchor) s = (Inr bs, s')"
  then obtain t where t: "m calls anchor (cv_rpc s) = (Inr bs, t)" by (auto simp: on_rpc_def split: prod.splits)
  show "map rr_key (results_of bs) = map cc_key calls" by (rule executor.answers_in_order [OF assms t])
  show "list_all (evidence_ok anchor) bs" by (rule executor.verified [OF assms t])
qed

lemma runtime_executor: "build_rpc_runtime env ex se cat w = Inr rt \<Longrightarrow> executor (rt_execute rt)"
  by (auto simp: build_rpc_runtime_def Let_def bind_res_Inr mk_router_def split: if_splits
      intro!: on_rpc_executor rtx.executor_axioms)

text \<open>A result under the key that is the word of a number.\<close>

definition answered_word :: "verified_batch_result list \<Rightarrow> string \<Rightarrow> int \<Rightarrow> bool" where
  "answered_word batches key v \<longleftrightarrow>
     (\<exists>raw \<in> set (results_of batches). rr_key raw = key \<and> rr_success raw \<and> rr_returndata raw = to_bytes 32 v)"

lemma observed_answered:
  assumes "execute_uint_calls execute specs anchor s = (Inr d, s')"
  shows "\<exists>bs. execute (map us_call specs) anchor s = (Inr bs, s')
    \<and> (\<forall>k v. observed d k v \<longrightarrow> answered_word bs k v \<and> (\<exists>spec \<in> set specs. spec_key spec = k))"
proof -
  from uint_calls_complete [OF assms] obtain bs where bs: "execute (map us_call specs) anchor s = (Inr bs, s')"
    and src: "\<And>k c. map_of (dx_calls d) k = Some c \<Longrightarrow> \<exists>spec \<in> set specs. \<exists>raw \<in> set (results_of bs). \<exists>n.
            spec_key spec = k \<and> rr_key raw = k \<and> c = decode_raw spec raw n" by blast
  have "answered_word bs k v \<and> (\<exists>spec \<in> set specs. spec_key spec = k)" if "observed d k v" for k v
  proof -
    from that obtain c where c: "map_of (dx_calls d) k = Some c" "obs_value (du_observation c) = Some v"
      by (auto simp: observed_def observe_def bind_res_Inr lookup_key_def split: option.splits if_splits)
    from src [OF c(1)] obtain spec raw n where r: "spec \<in> set specs" "raw \<in> set (results_of bs)" "spec_key spec = k"
      "rr_key raw = k" "c = decode_raw spec raw n" by blast
    with c(2) have "rr_success raw \<and> length (rr_returndata raw) = 32 \<and> v = from_bytes (rr_returndata raw)"
      by (auto simp: decode_raw_def decode_uint256_value_iff returndata_bytes_def split: if_splits)
    with r to_from_bytes [of "rr_returndata raw" 32] show ?thesis by (auto simp: answered_word_def)
  qed
  with bs show ?thesis by blast
qed

lemma balance_specs_calls:
  assumes "map_res (balance_spec token) hs = Inr specs" and "h \<in> set hs"
  shows "\<exists>call \<in> set (map us_call specs). cc_key call = ''balanceOf/'' @ h \<and> cc_target call = tc_address token
    \<and> balance_of_calldata h = Inr (cc_calldata call)"
  using assms
  by (induction hs arbitrary: specs) (fastforce simp: bind_res_Inr balance_spec_def uint_spec_def)+

text \<open>What a run that returns has inserted and collected.\<close>

lemma returned_token_rows:
  assumes "mk_universe_resolver c us (holder_members (cn_store r)) el seeds aliases = Inr (cn_universes r)"
    and "run_token r job token d anchor s = (Inr i, s')"
  shows "\<exists>l universe result w w' p. ss_journal s' = ss_journal s @ l
    \<and> collect_token r job token universe anchor w = (Inr result, w') \<and> tr_verified result
    \<and> map balance_of_row (rows_of ''token_balances'' l) = map (Inr \<circ> balance_digest_row) (tr_balances result)
    \<and> last l = (''census_publications'', [p]) \<and> map_of p ''attempt_id'' = Some (CUuid i)
    \<and> map_of p ''anchor_hash'' = Some (CText (block_hash anchor))"
proof -
  from journalsD [OF run_token_journals [OF assms(1)] assms(2)] obtain l h universe kind started where
    l: "ss_journal s' = ss_journal s @ l"
    and att: "attempt_of (token_outcome r (attempt_base r i job ''token'' (tc_address token) d anchor h universe kind started)
        i job token d anchor universe) l (Inr i :: nat res)" by auto
  from att obtain start body where b: "l = start @ body" "\<forall>j \<in> set start. fst j = ''census_attempts''"
    "token_outcome r (attempt_base r i job ''token'' (tc_address token) d anchor h universe kind started) i job token d anchor universe body"
    by (cases rule: attempt_ofE) auto
  from b(3) obtain result w w' pre pair digest os rs where o:
    "body = pre @ pair" "collect_token r job token universe anchor w = (Inr result, w')" "token_rows universe result pre"
    "token_checked r (scope_of r job (tc_address token) d i) universe result digest"
    "published_pair (attempt_base r i job ''token'' (tc_address token) d anchor h universe kind started)
       (TokenCollected result) digest universe (fu_size universe) (Some os) rs pair"
    unfolding token_outcome_def token_published_def by blast
  from published_pair_cells [OF o(5)] obtain v p where
    p: "pair = [(''census_attempts'', [v]), (''census_publications'', [p])]"
    "carries p (publication_cells (cn_chain_id r) job ''token'' (tc_address token) d i anchor (fu_universe_hash universe) digest)"
    by blast
  have "rows_of ''token_balances'' start = []" using rows_of_other [OF _, of start "{''census_attempts''}"] b(2) by simp
  moreover have "rows_of ''token_balances'' pair = []" using p(1) by simp
  ultimately have "map balance_of_row (rows_of ''token_balances'' l) = map (Inr \<circ> balance_digest_row) (tr_balances result)"
    using o(3) by (simp add: b(1) o(1) token_rows_def)
  moreover have "last l = (''census_publications'', [p])" using p(1) by (simp add: b(1) o(1))
  moreover have "map_of p ''attempt_id'' = Some (CUuid i)" "map_of p ''anchor_hash'' = Some (CText (block_hash anchor))"
    using p(2) by (simp_all add: carries_def publication_cells_def)
  moreover have "tr_verified result" using o(4) by (simp add: token_checked_def)
  ultimately show ?thesis using l o(2) by blast
qed

text \<open>What a verified full-supply result says of the executor's answers.\<close>

definition answers_supply ::
  "token_config \<Rightarrow> frozen_universe \<Rightarrow> contract_call list \<Rightarrow> verified_batch_result list \<Rightarrow> balance_digest_row list \<Rightarrow> bool" where
  "answers_supply token universe calls batches balances \<longleftrightarrow>
     list_all2 (\<lambda>holder balance. bd_holder_address balance = holder \<and> (\<exists>call \<in> set calls. cc_key call = ''balanceOf/'' @ holder
         \<and> cc_target call = tc_address token \<and> balance_of_calldata holder = Inr (cc_calldata call)
         \<and> answered_word batches (cc_key call) (bd_balance_raw balance))) (fu_addresses universe) balances
     \<and> (\<exists>total zero. answered_word batches ''scalar/totalSupply'' total
          \<and> (if tc_zero_address_role token = EVENT_SENTINEL then answered_word batches sentinel_key zero else zero = 0)
          \<and> sum_list (map bd_balance_raw balances) + zero = total)"

lemma erc20_answers_supply:
  assumes "erc20_collect execute ex (0, e) token u anchor FULL_SUPPLY s = (Inr r, s')" and "tr_verified r"
  shows "\<exists>calls batches. execute calls anchor s = (Inr batches, s')
    \<and> answers_supply token u calls batches (map balance_digest_row (tr_balances r))"
proof -
  from assms(1) obtain specs d where d: "erc20_specs ex token u FULL_SUPPLY = Inr specs"
    "execute_uint_calls execute specs anchor s = (Inr d, s')" "erc20_result (0, e) token u FULL_SUPPLY specs d = Inr r"
    by (auto simp: erc20_collect_Inr)
  from observed_answered [OF d(2)] obtain bs where bs: "execute (map us_call specs) anchor s = (Inr bs, s')"
    and ans: "\<And>k v. observed d k v \<Longrightarrow> answered_word bs k v" by blast
  note rows = erc20_result_rows [OF d(3) assms(2)]
  from d(1) obtain balances rest where specs: "map_res (balance_spec token) (fu_addresses u) = Inr balances" "specs = balances @ rest"
    by (auto simp: erc20_specs_def bind_res_Inr)
  have len: "length (fu_addresses u) = length (tr_balances r)" using rows by (auto dest: list_all2_lengthD)
  have each: "bd_holder_address (map balance_digest_row (tr_balances r) ! n) = fu_addresses u ! n
        \<and> (\<exists>call \<in> set (map us_call specs). cc_key call = ''balanceOf/'' @ fu_addresses u ! n \<and> cc_target call = tc_address token
         \<and> balance_of_calldata (fu_addresses u ! n) = Inr (cc_calldata call)
         \<and> answered_word bs (cc_key call) (bd_balance_raw (map balance_digest_row (tr_balances r) ! n)))"
    if n: "n < length (fu_addresses u)" for n
  proof -
    let ?h = "fu_addresses u ! n" and ?row = "tr_balances r ! n"
    from balance_specs_calls [OF specs(1), of ?h] n obtain call where call: "call \<in> set (map us_call balances)"
      "cc_key call = ''balanceOf/'' @ ?h" "cc_target call = tc_address token" "balance_of_calldata ?h = Inr (cc_calldata call)"
      by auto
    from rows n have "observed d (''balanceOf/'' @ ?h) (bal_balance_raw ?row)" by (auto simp: list_all2_conv_all_nth)
    from ans [OF this] have word: "answered_word bs (cc_key call) (bal_balance_raw ?row)" by (simp add: call(2))
    from rows have "map bal_holder_address (tr_balances r) ! n = ?h" by simp
    then have holder: "bal_holder_address ?row = ?h" using n len by simp
    have "call \<in> set (map us_call specs)" using call(1) specs(2) by auto
    then show ?thesis
      using n len holder word call(2-4) by (auto simp: balance_digest_row_def)
  qed
  have "list_all2 (\<lambda>holder balance. bd_holder_address balance = holder \<and> (\<exists>call \<in> set (map us_call specs).
         cc_key call = ''balanceOf/'' @ holder \<and> cc_target call = tc_address token
         \<and> balance_of_calldata holder = Inr (cc_calldata call) \<and> answered_word bs (cc_key call) (bd_balance_raw balance)))
       (fu_addresses u) (map balance_digest_row (tr_balances r))"
    unfolding list_all2_conv_all_nth length_map using len each by blast
  moreover have "\<exists>total zero. answered_word bs ''scalar/totalSupply'' total
          \<and> (if tc_zero_address_role token = EVENT_SENTINEL then answered_word bs sentinel_key zero else zero = 0)
          \<and> sum_list (map bd_balance_raw (map balance_digest_row (tr_balances r))) + zero = total"
  proof -
    obtain total zero where t: "observed d ''scalar/totalSupply'' total"
      "if tc_zero_address_role token = EVENT_SENTINEL then observed d sentinel_key zero else zero = 0"
      "sum_list (map bal_balance_raw (tr_balances r)) + zero = total"
      using erc20_result_full_supply [OF d(3) assms(2)] by blast
    then have "if tc_zero_address_role token = EVENT_SENTINEL then answered_word bs sentinel_key zero else zero = 0"
      using ans by (simp split: if_splits)
    moreover have "sum_list (map bd_balance_raw (map balance_digest_row (tr_balances r))) + zero = total"
      using t(3) by (simp add: balance_digest_row_def comp_def)
    ultimately show ?thesis using ans [OF t(1)] by blast
  qed
  ultimately show ?thesis unfolding answers_supply_def using bs by blast
qed



text \<open>The runner of a wired service satisfies the hypotheses.\<close>

lemma wired_runner:
  assumes "build_rpc_runtime env ex se cat w0 = Inr rt"
    and "service_runner ex se rt store csv read_bytes float_text cat = Inr r"
  shows "executor (cn_execute r) \<and> cn_tolerance r = se_holder_sum_relative_tolerance se
    \<and> (\<exists>c us el seeds aliases. mk_universe_resolver c us (holder_members (cn_store r)) el seeds aliases = Inr (cn_universes r))"
proof -
  from assms(2) obtain us where us: "mk_universe_resolver (ch_chain_id (ct_chain cat)) (ct_universes cat) (holder_members store)
      (explicit_addresses csv cat)
      (map (\<lambda>t. (tc_address t, tc_seed_holders t)) (filter (\<lambda>t. tc_seed_holders t \<noteq> []) (map snd (ct_tokens cat))))
      (map (\<lambda>t. (tc_address t, tc_universe_aliases t)) (filter (\<lambda>t. tc_universe_aliases t \<noteq> []) (map snd (ct_tokens cat)))) = Inr us"
    and r: "cn_universes r = us" "cn_store r = store" "cn_execute r = rt_execute rt"
      "cn_tolerance r = se_holder_sum_relative_tolerance se"
    by (auto simp: service_runner_def Let_def bind_res_Inr)
  from us have "\<exists>c us el seeds aliases. mk_universe_resolver c us (holder_members (cn_store r)) el seeds aliases = Inr (cn_universes r)"
    unfolding r(1,2) by blast
  with r(3,4) runtime_executor [OF assms(1)] show ?thesis by simp
qed

subsection \<open>The probes\<close>

text \<open>
  Names of endpoints that passed: every one was probed, and no other. The pool keeps its endpoints, up
  to the flags and the health of each.
\<close>

lemma probe_each_names:
  assumes "probe_each env ex never p eps passed s = (Inr out, s')"
  shows "\<exists>more. out = passed @ more \<and> set more \<subseteq> ep_name ` set eps
    \<and> (\<forall>n \<in> set more. \<exists>e t ca t'. e \<in> set eps \<and> ep_name e = n
         \<and> probe_endpoint_capabilities env ex e p t = (Inr ca, t'))"
  using assms
proof (induction eps arbitrary: passed s)
  case Nil
  then show ?case by (auto simp: ret_def)
next
  case (Cons e eps)
  obtain r s1 where m: "probe_endpoint_capabilities env ex e p s = (r, s1)" by fastforce
  show ?case
  proof (cases r)
    case (Inl err)
    obtain u s2 where "update_endpoint (ep_name e) (\<lambda>x. x\<lparr>ep_healthy := False, ep_cooldown_until := never\<rparr>) s1 = (Inr u, s2)"
      by (simp add: update_endpoint_def)
    with Cons.prems m Inl have "probe_each env ex never p eps passed s2 = (Inr out, s')" by (simp add: bind_io_def)
    from Cons.IH [OF this] obtain more where more: "out = passed @ more" "set more \<subseteq> ep_name ` set eps"
      "\<forall>n \<in> set more. \<exists>x t ca t'. x \<in> set eps \<and> ep_name x = n \<and> probe_endpoint_capabilities env ex x p t = (Inr ca, t')" by blast
    then have "set more \<subseteq> ep_name ` set (e # eps)"
      "\<forall>n \<in> set more. \<exists>x t ca t'. x \<in> set (e # eps) \<and> ep_name x = n \<and> probe_endpoint_capabilities env ex x p t = (Inr ca, t')"
      by (auto, meson)
    with more(1) show ?thesis by blast
  next
    case (Inr ca)
    with Cons.prems m have "probe_each env ex never p eps (passed @ [ep_name e]) s1 = (Inr out, s')" by simp
    from Cons.IH [OF this] obtain more where more: "out = passed @ ep_name e # more" "set more \<subseteq> ep_name ` set eps"
      "\<forall>n \<in> set more. \<exists>x t ca t'. x \<in> set eps \<and> ep_name x = n \<and> probe_endpoint_capabilities env ex x p t = (Inr ca, t')" by auto
    have "\<exists>x t ca t'. x \<in> set (e # eps) \<and> ep_name x = n \<and> probe_endpoint_capabilities env ex x p t = (Inr ca, t')"
      if "n \<in> set (ep_name e # more)" for n
    proof (cases "n = ep_name e")
      case True
      with m Inr show ?thesis by auto
    next
      case False
      with that more(3) obtain x t ca t' where "x \<in> set eps" "ep_name x = n" "probe_endpoint_capabilities env ex x p t = (Inr ca, t')"
        by auto
      then show ?thesis by auto
    qed
    moreover have "set (ep_name e # more) \<subseteq> ep_name ` set (e # eps)" using more(2) by auto
    ultimately show ?thesis using more(1) by blast
  qed
qed

text \<open>A start that returns found safe endpoints, and enough of them.\<close>

lemma started_endpoints_probed:
  assumes "probe_endpoints env ex never se cat s = (Inr (), s')"
  shows "\<exists>p names passed. pr_expected_chain_id p = ch_chain_id (ct_chain cat)
    \<and> ms_runtime_code_hash (ch_multicall3 (ct_chain cat)) = Some (pr_expected_multicall_code_hash p)
    \<and> names \<noteq> [] \<and> (\<forall>n \<in> set names. \<exists>e t ca t'. e \<in> set (st_endpoints s) \<and> ep_name e = n
         \<and> probe_endpoint_capabilities env ex e p t = (Inr ca, t'))
    \<and> passed = filter (\<lambda>x. ep_name x \<in> set names) (st_endpoints s')
    \<and> (list_ex ep_supports_eip1898 passed
       \<or> nf_required_provider_quorum (le_number_fallback (ch_legacy_execution (ct_chain cat)))
           \<le> int (card (set (map ep_provider_group passed))))"
proof -
  from assms obtain h where h: "ms_runtime_code_hash (ch_multicall3 (ct_chain cat)) = Some h"
    by (auto simp: probe_endpoints_def Let_def raise_def split: option.splits)
  from assms obtain x where x: "earliest_archive_probe_token cat = Inr x"
    by (cases "earliest_archive_probe_token cat") (auto simp: probe_endpoints_def Let_def h bind_io_def lift_res_def)
  define p where "p = \<lparr>pr_expected_chain_id = ch_chain_id (ct_chain cat), pr_finality_tag = ch_finality_tag (ct_chain cat),
       pr_multicall_address = ms_address (ch_multicall3 (ct_chain cat)),
       pr_multicall_deployment_block = ms_deployment_block (ch_multicall3 (ct_chain cat)),
       pr_expected_multicall_code_hash = h, pr_archive_probe_address = tc_address x,
       pr_archive_probe_block = archive_probe_block (tc_deployment_block x) (se_archive_probe_floor_block se),
       pr_archive_probe_calldata = ''0x'' @ bytes_hex TOTAL_SUPPLY_SELECTOR\<rparr>"
  obtain m s1 where m: "probe_each env ex never p (st_endpoints s) [] s = (m, s1)" by fastforce
  with assms obtain out where out: "m = Inr out"
    by (cases m) (simp_all add: probe_endpoints_def Let_def h x bind_io_def lift_res_def p_def)
  let ?passed = "filter (\<lambda>x. ep_name x \<in> set out) (st_endpoints s1)"
  let ?safe = "list_ex ep_supports_eip1898 ?passed \<or> nf_required_provider_quorum (le_number_fallback (ch_legacy_execution (ct_chain cat)))
      \<le> int (length (remdups (map ep_provider_group ?passed)))"
  note run = assms [unfolded probe_endpoints_def Let_def h option.case x lift_res_def bind_io_def sum.case prod.case p_def [symmetric] m out]
  have end_: "out \<noteq> []" using run by (rule contrapos_pn) (simp add: raise_def)
  have "?safe"
  proof (rule ccontr)
    assume "\<not> ?safe"
    with run end_ show False by (simp add: raise_def not_le)
  qed
  moreover from run end_ have "s1 = s'" by (simp add: raise_def ret_def split: if_splits)
  ultimately have safe: "list_ex ep_supports_eip1898 (filter (\<lambda>x. ep_name x \<in> set out) (st_endpoints s'))
       \<or> nf_required_provider_quorum (le_number_fallback (ch_legacy_execution (ct_chain cat)))
           \<le> int (length (remdups (map ep_provider_group (filter (\<lambda>x. ep_name x \<in> set out) (st_endpoints s')))))"
    by simp
  from probe_each_names [OF m [unfolded out]] have "\<forall>n \<in> set out. \<exists>e t ca t'. e \<in> set (st_endpoints s) \<and> ep_name e = n
         \<and> probe_endpoint_capabilities env ex e p t = (Inr ca, t')" by auto
  moreover have "pr_expected_chain_id p = ch_chain_id (ct_chain cat)" "pr_expected_multicall_code_hash p = h"
    by (simp_all add: p_def)
  ultimately show ?thesis using h end_ safe by (metis (no_types, lifting) length_remdups_card_conv)
qed

text \<open>
  A subcall that fails inside \<open>aggregate3\<close> carries neither code nor message: it is recorded as an RPC
  error, not as a revert.
\<close>

lemma silent_failure_is_rpc_error:
  assumes "\<not> rr_success raw" and "rr_error_code raw = None" and "rr_error_message raw = None"
  shows "obs_status (du_observation (decode_raw spec raw n)) = RPC_ERROR"
proof -
  have "failed_status raw ''call failed'' = RPC_ERROR"
    unfolding failed_status_def assms(2,3) by code_simp
  with assms(1) show ?thesis by (simp add: decode_raw_def)
qed

end
