(* ===== verification/Spec2Isabelle.thy ===== *)
theory Spec2Isabelle
  imports Legacy Discovery Sweeps Migrations ClProfile Capabilities Guard CensusDay Serving
begin

text \<open>
  A verification development for \<open>rpc-state-indexer\<close>, the service that reads token balances,
  pool reserves and concentrated-liquidity state of an EVM chain at daily anchor blocks over
  JSON-RPC, proves that what it read belongs to the anchor, and publishes it. Paths below are
  relative to \<open>src/src/rpc_state_indexer\<close>.

  \<^bold>\<open>Effects.\<close> A Python exception is a value: \<open>'a res\<close> is \<open>exn + 'a\<close>, with every exception class
  of the program and its base classes in Prelude. Asynchronous code is a function
  \<open>('s, 'a) io = 's \<Rightarrow> 'a res \<times> 's\<close> on an explicit state; the transport, the clock and the chain
  are parameters of it. Tasks that the code starts together with \<open>asyncio.gather\<close> or a
  \<open>TaskGroup\<close> run in input order. Python integers are \<open>int\<close>, bytes are lists of bytes, dicts
  are association lists in insertion order. Loops are structural recursion, or recursion with a
  termination proof; no definition takes fuel except the retry loops, which count down the
  budget the code itself has.

  \<^bold>\<open>Theories.\<close>
  \<^item> Prelude, Python, Encoding, Sha256: results, the state monad, exceptions; Python's string,
    integer and \<open>bytes\<close> operations; self-delimiting encodings; SHA-256.
  \<^item> Domain (\<open>domain.py\<close>), Decoding (\<open>evm/calldata.py\<close>, \<open>evm/decoding.py\<close>): the value classes,
    calldata and strict return decoding, with round trips against the ABI encoding.
  \<^item> Rpc (\<open>rpc/endpoint.py\<close>, \<open>endpoint_pool.py\<close>, \<open>client.py\<close>, \<open>classification.py\<close>): endpoint
    health, selection, distinct-group quorums, authentic responses and bounded retries.
  \<^item> Coverage, Discovery (\<open>core/discovery.py\<close>): the algebra of block ranges, log parsing and the
    adaptive scanner; the scan is gap free and complete on a provider that behaves as documented.
  \<^item> Anchors (\<open>core/anchors.py\<close>): the safe tip and the binary search for the last block of a day.
  \<^item> Execution, Legacy, Multicall (\<open>execution/\<close>): result digests, the code verifier, the router,
    the JSON-RPC batch executor with its quorum fallback, and the sentinel-guarded Multicall3
    executor.
  \<^item> Digests (\<open>storage/digests.py\<close>): the canonical digests of universes and observations.
  \<^item> Config (\<open>config/models.py\<close>, \<open>config/loader.py\<close>): validated models, target selection and
    the catalog checks.
  \<^item> Collection, Tokens, Pools (\<open>collectors/\<close>): the shared execution contract and the ERC-20,
    aToken, reserve, Balancer and concentrated-liquidity collectors.

  \<^bold>\<open>Parameters.\<close> Keccak, \<open>eth_abi\<close>, the HTTP transport, the CSV reader and the provider are not
  code of this repository: they are arguments, and what a theorem needs of them is a named
  hypothesis with a witness.

  \<^bold>\<open>Not modelled.\<close> The command line, environment settings, metrics and the health endpoint
  (input/output glue), and the SQL handed to ClickHouse.
\<close>

end
